(* ===== verification/Relay_Prelude.thy ===== *)
theory Relay_Prelude
  imports Main "HOL-Library.Word" "HOL-Library.Code_Target_Nat"
begin

text \<open>
  Shared vocabulary of the development.

  \<^item> \<open>outcome\<close> is what a Rust call leaves behind: a value, a typed error, or a panic (a
    failed \<open>assert!\<close>, \<open>expect\<close> or arithmetic invariant). Every fallible operation of
    the model returns one.
  \<^item> \<open>update_where\<close>, \<open>delete_where\<close>, \<open>rows_affected\<close> and \<open>first_min\<close> are the SQL
    statements the stores issue (\<open>UPDATE .. WHERE\<close>, \<open>DELETE .. WHERE\<close>, the affected-row
    count, \<open>ORDER BY .. LIMIT 1\<close>) on tables kept as lists of rows.
  \<^item> byte strings: a Rust \<open>String\<close> is the list of its UTF-8 bytes, so \<open>length\<close> is
    \<open>str::len\<close>; \<open>trim\<close> and \<open>is_char_boundary\<close> are the standard library's, at byte
    level.

  The collections \<open>row_simps\<close> and \<open>table_intros\<close> carry the facts the component theories
  pass to their automation.
\<close>

named_theorems row_simps "rewriting of UPDATE/DELETE on row lists"
named_theorems table_intros "preservation of table constraints by statements"

section \<open>Outcomes of fallible calls\<close>

datatype ('e, 'a) outcome = Ok 'a | Err 'e | Panic string

fun is_Ok :: "('e, 'a) outcome \<Rightarrow> bool" where
  "is_Ok (Ok _) = True"
| "is_Ok (Err _) = False"
| "is_Ok (Panic _) = False"

fun is_Panic :: "('e, 'a) outcome \<Rightarrow> bool" where
  "is_Panic (Panic _) = True"
| "is_Panic (Ok _) = False"
| "is_Panic (Err _) = False"

text \<open>The \<open>?\<close> operator: continue on \<open>Ok\<close>, hand back anything else.\<close>

fun and_then :: "('e, 'a) outcome \<Rightarrow> ('a \<Rightarrow> ('e, 'b) outcome) \<Rightarrow> ('e, 'b) outcome" where
  "and_then (Ok x) f = f x"
| "and_then (Err e) f = Err e"
| "and_then (Panic m) f = Panic m"

text \<open>\<open>map_err\<close> / \<open>#[from]\<close>: change the error type.\<close>

fun map_err :: "('e \<Rightarrow> 'f) \<Rightarrow> ('e, 'a) outcome \<Rightarrow> ('f, 'a) outcome" where
  "map_err f (Ok x) = Ok x"
| "map_err f (Err e) = Err (f e)"
| "map_err f (Panic m) = Panic m"

lemma is_Ok_iff: "is_Ok r \<longleftrightarrow> (\<exists>x. r = Ok x)"
  by (cases r) auto

lemma and_then_Ok_iff [simp]: "and_then r f = Ok y \<longleftrightarrow> (\<exists>x. r = Ok x \<and> f x = Ok y)"
  by (cases r) auto

lemma and_then_Err_iff: "and_then r f = Err e \<longleftrightarrow> r = Err e \<or> (\<exists>x. r = Ok x \<and> f x = Err e)"
  by (cases r) auto

lemma map_err_Ok_iff [simp]: "map_err f r = Ok x \<longleftrightarrow> r = Ok x"
  by (cases r) auto

lemma map_err_Err_iff: "map_err f r = Err e \<longleftrightarrow> (\<exists>e'. r = Err e' \<and> e = f e')"
  by (cases r) auto

section \<open>Rows and statements\<close>

definition update_where :: "('r \<Rightarrow> bool) \<Rightarrow> ('r \<Rightarrow> 'r) \<Rightarrow> 'r list \<Rightarrow> 'r list" where
  "update_where P f rows = map (\<lambda>r. if P r then f r else r) rows"

definition delete_where :: "('r \<Rightarrow> bool) \<Rightarrow> 'r list \<Rightarrow> 'r list" where
  "delete_where P rows = filter (\<lambda>r. \<not> P r) rows"

definition rows_affected :: "('r \<Rightarrow> bool) \<Rightarrow> 'r list \<Rightarrow> nat" where
  "rows_affected P rows = length (filter P rows)"

text \<open>
  \<open>SELECT .. ORDER BY key ASC LIMIT 1\<close>. SQL leaves the order of rows with equal keys open;
  the model takes the one stored first.
\<close>

fun first_min :: "('r \<Rightarrow> 'k::linorder) \<Rightarrow> 'r list \<Rightarrow> 'r option" where
  "first_min key [] = None"
| "first_min key (r # rs) =
     (case first_min key rs of
        None \<Rightarrow> Some r
      | Some m \<Rightarrow> if key r \<le> key m then Some r else Some m)"

lemma update_where_Nil [simp]: "update_where P f [] = []"
  by (simp add: update_where_def)

lemma update_where_Cons [simp]:
  "update_where P f (r # rs) = (if P r then f r else r) # update_where P f rs"
  by (simp add: update_where_def)

lemma length_update_where [simp]: "length (update_where P f rows) = length rows"
  by (simp add: update_where_def)

lemma set_update_where [row_simps]:
  "set (update_where P f rows) = (\<lambda>r. if P r then f r else r) ` set rows"
  by (simp add: update_where_def)

lemma in_update_where_iff [row_simps]:
  "r \<in> set (update_where P f rows) \<longleftrightarrow>
     (\<exists>q \<in> set rows. r = (if P q then f q else q))"
  by (auto simp: update_where_def)

lemma update_where_id [row_simps]:
  "(\<And>r. r \<in> set rows \<Longrightarrow> \<not> P r) \<Longrightarrow> update_where P f rows = rows"
  by (induction rows) auto

lemma map_update_where [row_simps]:
  "(\<And>r. r \<in> set rows \<Longrightarrow> P r \<Longrightarrow> g (f r) = g r) \<Longrightarrow> map g (update_where P f rows) = map g rows"
  by (induction rows) auto

lemma distinct_map_update_where [table_intros]:
  "distinct (map g rows) \<Longrightarrow> (\<And>r. g (f r) = g r) \<Longrightarrow> distinct (map g (update_where P f rows))"
  by (simp add: map_update_where)

lemma filter_update_where_same:
  "(\<And>r. r \<in> set rows \<Longrightarrow> P r \<Longrightarrow> Q (f r) = Q r \<and> g (f r) = g r) \<Longrightarrow>
   map g (filter Q (update_where P f rows)) = map g (filter Q rows)"
  by (induction rows) auto

lemma find_update_where:
  "(\<And>r. Q (f r) = Q r) \<Longrightarrow>
   find Q (update_where P f rows) = map_option (\<lambda>r. if P r then f r else r) (find Q rows)"
  by (induction rows) auto

lemma delete_where_Nil [simp]: "delete_where P [] = []"
  by (simp add: delete_where_def)

lemma delete_where_Cons [simp]:
  "delete_where P (r # rs) = (if P r then delete_where P rs else r # delete_where P rs)"
  by (simp add: delete_where_def)

lemma set_delete_where [simp]: "set (delete_where P rows) = {r \<in> set rows. \<not> P r}"
  by (auto simp: delete_where_def)

lemma delete_where_id: "(\<And>r. r \<in> set rows \<Longrightarrow> \<not> P r) \<Longrightarrow> delete_where P rows = rows"
  by (induction rows) auto

lemma distinct_map_delete_where [table_intros]:
  "distinct (map g rows) \<Longrightarrow> distinct (map g (delete_where P rows))"
  by (induction rows) auto

lemma rows_affected_0 [simp]: "rows_affected P rows = 0 \<longleftrightarrow> (\<forall>r \<in> set rows. \<not> P r)"
  by (auto simp: rows_affected_def filter_empty_conv)

lemma rows_affected_pos: "0 < rows_affected P rows \<longleftrightarrow> (\<exists>r \<in> set rows. P r)"
  by (auto simp: rows_affected_def length_greater_0_conv filter_empty_conv simp del: rows_affected_0)

lemma first_min_None [simp]: "first_min key rows = None \<longleftrightarrow> rows = []"
  by (cases rows) (auto split: option.splits)

lemma first_min_in: "first_min key rows = Some r \<Longrightarrow> r \<in> set rows"
  by (induction rows arbitrary: r) (auto split: option.splits if_splits)

lemma first_min_le: "first_min key rows = Some r \<Longrightarrow> q \<in> set rows \<Longrightarrow> key r \<le> key q"
proof (induction rows arbitrary: r q)
  case Nil
  then show ?case by simp
next
  case (Cons a rows)
  show ?case
  proof (cases "first_min key rows")
    case None
    with Cons.prems show ?thesis by auto
  next
    case (Some m)
    with Cons.IH have "\<forall>q \<in> set rows. key m \<le> key q" by blast
    with Some Cons.prems show ?thesis by (auto split: if_splits)
  qed
qed

lemma find_Some_iff_distinct:
  assumes "distinct (map g rows)" and "r \<in> set rows"
  shows "find (\<lambda>q. g q = g r) rows = Some r"
  using assms by (induction rows) (auto simp: rev_image_eqI)

lemma find_append [simp]: "find P (xs @ ys) = (case find P xs of None \<Rightarrow> find P ys | Some x \<Rightarrow> Some x)"
  by (induction xs) auto

lemma find_SomeD: "find P rows = Some r \<Longrightarrow> r \<in> set rows \<and> P r"
  by (auto simp: find_Some_iff)

lemma distinct_map_eqD:
  "distinct (map g rows) \<Longrightarrow> r \<in> set rows \<Longrightarrow> q \<in> set rows \<Longrightarrow> g r = g q \<Longrightarrow> r = q"
  by (auto simp: distinct_map inj_on_def)

end
