(* ===== verification/Relay_Strings.thy ===== *)
theory Relay_Strings
  imports Relay_Prelude "HOL-Library.Char_ord" "HOL-Library.List_Lexorder"
begin

text \<open>
  Rust strings at byte level. A \<open>String\<close> is modelled by the list of its UTF-8 bytes, with
  \<open>char\<close> as the byte; \<open>utf8_shape\<close> is the well-formedness every Rust \<open>str\<close> has (each lead
  byte followed by its continuation bytes). The theory models the two truncation helpers of
  \<open>src/tools/limits.rs\<close>, the error clipping of \<open>src/tools/pg_recorder.rs\<close>, the FNV-1a hash
  of \<open>src/tools/system/send_message.rs\<close> and what the code uses of the standard library
  (\<open>str::trim\<close>, \<open>is_char_boundary\<close>), and proves that truncation keeps strings valid UTF-8,
  stays under its cap and drops as little as a byte cap allows.
\<close>

unbundle bit_operations_syntax

section \<open>Bytes and UTF-8\<close>

abbreviation byte :: "char \<Rightarrow> nat" where
  "byte \<equiv> of_char"

definition is_cont :: "char \<Rightarrow> bool" where
  "is_cont b \<longleftrightarrow> 128 \<le> byte b \<and> byte b < 192"

text \<open>Number of bytes of the encoding a lead byte announces; 0 for a byte that leads none.\<close>

definition seq_len :: "char \<Rightarrow> nat" where
  "seq_len b = (if byte b < 128 then 1 else if byte b < 192 then 0
                else if byte b < 224 then 2 else if byte b < 240 then 3
                else if byte b < 248 then 4 else 0)"

fun utf8_shape :: "string \<Rightarrow> bool" where
  "utf8_shape [] = True"
| "utf8_shape (b # bs) =
     (1 \<le> seq_len b \<and> seq_len b - 1 \<le> length bs \<and>
      list_all is_cont (take (seq_len b - 1) bs) \<and>
      utf8_shape (drop (seq_len b - 1) bs))"

text \<open>\<open>str::is_char_boundary\<close>.\<close>

definition is_char_boundary :: "string \<Rightarrow> nat \<Rightarrow> bool" where
  "is_char_boundary s i \<longleftrightarrow>
     i = 0 \<or> i = length s \<or> (i < length s \<and> \<not> is_cont (s ! i))"

section \<open>Truncation (tools/limits.rs)\<close>

text \<open>The \<open>while cut > 0 && !s.is_char_boundary(cut) { cut -= 1 }\<close> loop.\<close>

fun back_to_boundary :: "string \<Rightarrow> nat \<Rightarrow> nat" where
  "back_to_boundary s 0 = 0"
| "back_to_boundary s (Suc c) =
     (if is_char_boundary s (Suc c) then Suc c else back_to_boundary s c)"

definition truncate_to_char_boundary :: "string \<Rightarrow> nat \<Rightarrow> string" where
  "truncate_to_char_boundary s target = take (back_to_boundary s (min target (length s))) s"

text \<open>The \<open>while idx < s.len() && !s.is_char_boundary(idx) { idx += 1 }\<close> loop.\<close>

function forward_to_boundary :: "string \<Rightarrow> nat \<Rightarrow> nat" where
  "forward_to_boundary s idx =
     (if idx < length s \<and> \<not> is_char_boundary s idx then forward_to_boundary s (Suc idx) else idx)"
  by pat_completeness auto
termination
  by (relation "measure (\<lambda>(s, idx). length s - idx)") auto

declare forward_to_boundary.simps [simp del]

definition truncate_from_start :: "string \<Rightarrow> nat \<Rightarrow> string" where
  "truncate_from_start s max_bytes =
     (if length s \<le> max_bytes then s
      else drop (forward_to_boundary s (length s - max_bytes)) s)"

definition MAX_TOOL_CALL_ERROR_MESSAGE_BYTES :: nat where
  "MAX_TOOL_CALL_ERROR_MESSAGE_BYTES = 2048"

definition clip_error_message :: "string \<Rightarrow> string" where
  "clip_error_message s =
     (if length s \<le> MAX_TOOL_CALL_ERROR_MESSAGE_BYTES then s
      else truncate_to_char_boundary s MAX_TOOL_CALL_ERROR_MESSAGE_BYTES)"

section \<open>Trimming (str::trim)\<close>

text \<open>UTF-8 encodings of the code points with the White\_Space property.\<close>

definition whitespace :: "string list" where
  "whitespace = map (map char_of)
     ([[9], [10], [11], [12], [13], [32], [194, 133], [194, 160], [225, 154, 128],
       [226, 128, 168], [226, 128, 169], [226, 128, 175], [226, 129, 159], [227, 128, 128]] @
      map (\<lambda>n. [226, 128, 128 + n]) [0..<11] :: nat list list)"

text \<open>Drop leading occurrences of the given (non-empty) patterns.\<close>

function strip_all :: "string list \<Rightarrow> string \<Rightarrow> string" where
  "strip_all ws s =
     (case find (\<lambda>w. w \<noteq> [] \<and> length w \<le> length s \<and> take (length w) s = w) ws of
        None \<Rightarrow> s
      | Some w \<Rightarrow> strip_all ws (drop (length w) s))"
  by pat_completeness auto
termination
  by (relation "measure (\<lambda>(ws, s). length s)")
     (auto simp: find_Some_iff neq_Nil_conv)

declare strip_all.simps [simp del]

definition trim_start :: "string \<Rightarrow> string" where
  "trim_start s = strip_all whitespace s"

definition trim_end :: "string \<Rightarrow> string" where
  "trim_end s = rev (strip_all (map rev whitespace) (rev s))"

definition trim :: "string \<Rightarrow> string" where
  "trim s = trim_end (trim_start s)"

section \<open>FNV-1a (tools/system/send\_message.rs)\<close>

definition fnv_offset :: "64 word" where
  "fnv_offset = 0xcbf29ce484222325"

definition fnv_prime :: "64 word" where
  "fnv_prime = 0x100000001b3"

definition fnv_step :: "64 word \<Rightarrow> char \<Rightarrow> 64 word" where
  "fnv_step h b = (h XOR of_nat (byte b)) * fnv_prime"

definition fnv1a64 :: "string \<Rightarrow> 64 word" where
  "fnv1a64 bytes = foldl fnv_step fnv_offset bytes"

section \<open>Lemmas\<close>

lemma strip_all_Nil [simp]: "strip_all ws [] = []"
  by (subst strip_all.simps) (auto split: option.split simp: find_Some_iff)

lemma trim_Nil [simp]: "trim [] = []"
  by (simp add: trim_def trim_start_def trim_end_def)

lemma is_char_boundary_0 [simp]: "is_char_boundary s 0"
  by (simp add: is_char_boundary_def)

lemma is_char_boundary_length [simp]: "is_char_boundary s (length s)"
  by (simp add: is_char_boundary_def)

lemma back_to_boundary_le: "back_to_boundary s c \<le> c"
  by (induction c) auto

lemma back_to_boundary_is_boundary: "is_char_boundary s (back_to_boundary s c)"
  by (induction c) auto

lemma back_to_boundary_greatest:
  "i \<le> c \<Longrightarrow> is_char_boundary s i \<Longrightarrow> i \<le> back_to_boundary s c"
  by (induction c) (auto simp: le_Suc_eq)

lemma forward_to_boundary_ge: "idx \<le> forward_to_boundary s idx"
proof (induction s idx rule: forward_to_boundary.induct)
  case (1 s idx)
  then show ?case by (subst forward_to_boundary.simps) force
qed

lemma forward_to_boundary_is_boundary:
  "idx \<le> length s \<Longrightarrow> is_char_boundary s (forward_to_boundary s idx) \<and> forward_to_boundary s idx \<le> length s"
proof (induction s idx rule: forward_to_boundary.induct)
  case (1 s idx)
  show ?case
  proof (cases "idx < length s \<and> \<not> is_char_boundary s idx")
    case True
    with 1 show ?thesis by (simp add: forward_to_boundary.simps [of s idx])
  next
    case False
    with 1 show ?thesis
      by (auto simp: forward_to_boundary.simps [of s idx] le_less)
  qed
qed

text \<open>A boundary inside a string splits it into two well-formed strings.\<close>

lemma utf8_split_at_boundary:
  "utf8_shape s \<Longrightarrow> i \<le> length s \<Longrightarrow> is_char_boundary s i \<Longrightarrow>
   utf8_shape (take i s) \<and> utf8_shape (drop i s)"
proof (induction s arbitrary: i rule: utf8_shape.induct)
  case 1
  then show ?case by simp
next
  case (2 b bs)
  let ?n = "seq_len b"
  from 2 have n: "1 \<le> ?n" "?n - 1 \<le> length bs"
    and cont: "list_all is_cont (take (?n - 1) bs)" and rest: "utf8_shape (drop (?n - 1) bs)"
    by auto
  show ?case
  proof (cases "i = 0")
    case True
    with "2.prems" show ?thesis by simp
  next
    case False
    then obtain j where i: "i = Suc j" by (cases i) auto
    have ge: "?n - 1 \<le> j"
    proof (rule ccontr)
      assume less: "\<not> ?n - 1 \<le> j"
      with n have "is_cont (bs ! j)"
        using cont by (auto simp: list_all_length)
      moreover from less n have "Suc j < length (b # bs)" by simp
      ultimately show False
        using "2.prems"(3) i by (simp add: is_char_boundary_def)
    qed
    let ?k = "j - (?n - 1)"
    have bnd: "is_char_boundary (drop (?n - 1) bs) ?k"
      using "2.prems"(3) i ge n by (auto simp: is_char_boundary_def)
    have "?k \<le> length (drop (?n - 1) bs)" using "2.prems"(2) i ge by simp
    from "2.IH" [OF rest this bnd]
    have IH: "utf8_shape (take ?k (drop (?n - 1) bs)) \<and> utf8_shape (drop ?k (drop (?n - 1) bs))" .
    have "take ?k (drop (?n - 1) bs) = drop (?n - 1) (take j bs)"
      using ge by (simp add: drop_take)
    moreover have "drop ?k (drop (?n - 1) bs) = drop j bs" using ge by simp
    moreover have "take (?n - 1) (take j bs) = take (?n - 1) bs"
      using ge by (simp add: min_def)
    ultimately show ?thesis
      using IH i n ge cont "2.prems"(2) by (auto simp: min_def)
  qed
qed

text \<open>Every window of four positions of a well-formed string holds a boundary.\<close>

lemma seq_len_le_4: "seq_len b \<le> 4"
  by (simp add: seq_len_def)

lemma utf8_boundary_near:
  "utf8_shape s \<Longrightarrow> i \<le> length s \<Longrightarrow> \<exists>k \<le> i. is_char_boundary s k \<and> i \<le> k + 3"
proof (induction s arbitrary: i rule: utf8_shape.induct)
  case 1
  then show ?case by auto
next
  case (2 b bs)
  let ?n = "seq_len b"
  from 2 have n: "1 \<le> ?n" "?n - 1 \<le> length bs" and rest: "utf8_shape (drop (?n - 1) bs)"
    by auto
  show ?case
  proof (cases "i < ?n")
    case True
    with seq_len_le_4 [of b] show ?thesis by (intro exI [of _ 0]) auto
  next
    case False
    let ?j = "i - ?n"
    have "?j \<le> length (drop (?n - 1) bs)" using "2.prems"(2) n False by simp
    from "2.IH" [OF rest this] obtain k where k: "k \<le> ?j" "?j \<le> k + 3"
      "is_char_boundary (drop (?n - 1) bs) k" by blast
    have "is_char_boundary (b # bs) (k + ?n)"
    proof (cases "k = 0")
      case False
      with k n show ?thesis
        by (cases ?n) (auto simp: is_char_boundary_def nth_append add.commute)
    next
      case True
      show ?thesis
      proof (cases "drop (?n - 1) bs")
        case Nil
        with n True show ?thesis by (auto simp: is_char_boundary_def)
      next
        case (Cons c cs)
        with rest have "1 \<le> seq_len c" by simp
        then have nc: "\<not> is_cont c" by (auto simp: seq_len_def is_cont_def split: if_splits)
        from Cons have "?n - 1 < length bs" by (metis drop_all leI list.distinct(1))
        with Cons have "bs ! (?n - 1) = c" by (metis hd_drop_conv_nth list.sel(1))
        with nc True n \<open>?n - 1 < length bs\<close> show ?thesis
          by (auto simp: is_char_boundary_def nth_Cons')
      qed
    qed
    with k False show ?thesis by (intro exI [of _ "k + ?n"]) auto
  qed
qed

end
