(* ===== verification/Relay_Types.thy ===== *)
theory Relay_Types
  imports Relay_Strings
begin

text \<open>
  Domain primitives: \<open>src/types\<close> (participants, bounded integers, prompts, tool names, the
  \<open>str_enum!\<close> macro) and \<open>src/runtime/types.rs\<close> (request status and kind, sequence numbers,
  attempts, idempotency keys, failure reasons).

  A UUID newtype is its 128-bit value read as a number: the order of \<open>Uuid\<close> is the order of
  that value. The \<open>str_enum!\<close> macro is the locale \<open>str_enum\<close>, interpreted for every enum the
  program declares with it; the smart constructors \<open>TryFrom<String>\<close> are the locale
  \<open>smart_string\<close>.
\<close>

type_synonym uuid = nat
type_synonym agent_id = uuid
type_synonym user_id = uuid
type_synonym org_id = uuid
type_synonym session_id = uuid
type_synonym prompt_request_id = uuid
type_synonym worker_id = uuid
type_synonym contradiction_event_id = uuid
type_synonym instant = int

section \<open>Parse errors (types/error.rs)\<close>

datatype parse_error =
    Empty (field: string)
  | TooLong (field: string) (max_len: nat) (got: nat)
  | OutOfRange (field: string) (detail: string)
  | Malformed (field: string) (detail: string)

section \<open>Labelled enums (the str\_enum! macro)\<close>

text \<open>\<open>parse\<close> scans \<open>ALL\<close> for the variant with the given label.\<close>

definition str_enum_parse :: "'v list \<Rightarrow> ('v \<Rightarrow> string) \<Rightarrow> string \<Rightarrow> 'v option" where
  "str_enum_parse all_variants as_str raw = find (\<lambda>v. as_str v = raw) all_variants"

locale str_enum =
  fixes all_variants :: "'v list"
    and as_str :: "'v \<Rightarrow> string"
  assumes all_complete: "v \<in> set all_variants"
    and labels_distinct: "inj as_str"
begin

lemma parse_as_str: "str_enum_parse all_variants as_str (as_str v) = Some v"
proof (cases "str_enum_parse all_variants as_str (as_str v)")
  case None
  with all_complete [of v] show ?thesis by (auto simp: str_enum_parse_def find_None_iff)
next
  case (Some w)
  then have "as_str w = as_str v" by (auto simp: str_enum_parse_def dest: find_SomeD)
  with labels_distinct have "w = v" by (rule injD)
  with Some show ?thesis by simp
qed

lemma parse_Some_iff: "str_enum_parse all_variants as_str raw = Some v \<longleftrightarrow> raw = as_str v"
  using parse_as_str by (auto simp: str_enum_parse_def dest: find_SomeD)

lemma parse_None_iff: "str_enum_parse all_variants as_str raw = None \<longleftrightarrow> raw \<notin> range as_str"
  using parse_Some_iff by (metis (mono_tags, opaque_lifting) not_None_eq rangeE rangeI)

end

section \<open>Participants (types/participant.rs)\<close>

datatype participant_kind = HumanKind | AgentKind | SystemKind

datatype participant = Human | Agent (agent_id_of: agent_id) | System

text \<open>\<open>MessageSender\<close> has the same three shapes; it is the sender of a message row.\<close>

datatype message_sender = SHuman | SAgent agent_id | SSystem

definition participant_kind_all :: "participant_kind list" where
  "participant_kind_all = [HumanKind, AgentKind, SystemKind]"

fun participant_kind_str :: "participant_kind \<Rightarrow> string" where
  "participant_kind_str HumanKind = ''human''"
| "participant_kind_str AgentKind = ''agent''"
| "participant_kind_str SystemKind = ''system''"

fun kind :: "participant \<Rightarrow> participant_kind" where
  "kind Human = HumanKind"
| "kind (Agent _) = AgentKind"
| "kind System = SystemKind"

fun participant_agent_id :: "participant \<Rightarrow> agent_id option" where
  "participant_agent_id Human = None"
| "participant_agent_id (Agent a) = Some a"
| "participant_agent_id System = None"

fun is_agent :: "participant \<Rightarrow> bool" where
  "is_agent (Agent _) = True"
| "is_agent Human = False"
| "is_agent System = False"

fun is_system :: "participant \<Rightarrow> bool" where
  "is_system System = True"
| "is_system Human = False"
| "is_system (Agent _) = False"

datatype ordering = Less | Equal | Greater

definition cmp :: "'a::linorder \<Rightarrow> 'a \<Rightarrow> ordering" where
  "cmp x y = (if x < y then Less else if x = y then Equal else Greater)"

definition canonical_cmp :: "participant \<Rightarrow> participant \<Rightarrow> ordering" where
  "canonical_cmp lhs rhs =
     (case cmp (participant_kind_str (kind lhs)) (participant_kind_str (kind rhs)) of
        Less \<Rightarrow> Less
      | Greater \<Rightarrow> Greater
      | Equal \<Rightarrow> (case (lhs, rhs) of (Agent a, Agent b) \<Rightarrow> cmp a b | _ \<Rightarrow> Equal))"

definition canonical_pair :: "participant \<Rightarrow> participant \<Rightarrow> (participant \<times> participant) option" where
  "canonical_pair lhs rhs =
     (case canonical_cmp lhs rhs of
        Less \<Rightarrow> Some (lhs, rhs)
      | Greater \<Rightarrow> Some (rhs, lhs)
      | Equal \<Rightarrow> None)"

fun participant_from_kind_id :: "participant_kind \<Rightarrow> agent_id option \<Rightarrow> (unit, participant) outcome" where
  "participant_from_kind_id HumanKind None = Ok Human"
| "participant_from_kind_id SystemKind None = Ok System"
| "participant_from_kind_id AgentKind (Some a) = Ok (Agent a)"
| "participant_from_kind_id _ _ = Err ()"

fun sender_kind :: "message_sender \<Rightarrow> participant_kind" where
  "sender_kind SHuman = HumanKind"
| "sender_kind (SAgent _) = AgentKind"
| "sender_kind SSystem = SystemKind"

fun sender_agent_id :: "message_sender \<Rightarrow> agent_id option" where
  "sender_agent_id (SAgent a) = Some a"
| "sender_agent_id SHuman = None"
| "sender_agent_id SSystem = None"

fun sender_from_participant :: "participant \<Rightarrow> message_sender" where
  "sender_from_participant Human = SHuman"
| "sender_from_participant (Agent a) = SAgent a"
| "sender_from_participant System = SSystem"

fun sender_from_kind_id :: "participant_kind \<Rightarrow> agent_id option \<Rightarrow> (unit, message_sender) outcome" where
  "sender_from_kind_id HumanKind None = Ok SHuman"
| "sender_from_kind_id SystemKind None = Ok SSystem"
| "sender_from_kind_id AgentKind (Some a) = Ok (SAgent a)"
| "sender_from_kind_id _ _ = Err ()"

section \<open>Bounded strings and integers (types/prompt.rs, tool\_name.rs, limits.rs)\<close>

definition PROMPT_MAX_BYTES :: nat where
  "PROMPT_MAX_BYTES = 64 * 1024"

definition prompt_try_from :: "string \<Rightarrow> (parse_error, string) outcome" where
  "prompt_try_from raw =
     (if trim raw = [] then Err (Empty ''prompt'')
      else if PROMPT_MAX_BYTES < length raw
           then Err (TooLong ''prompt'' PROMPT_MAX_BYTES (length raw))
      else Ok raw)"

definition TOOL_NAME_MAX_LEN :: nat where
  "TOOL_NAME_MAX_LEN = 64"

text \<open>
  \<open>raw.chars().all(..)\<close>: a code point above 127 is not ASCII alphanumeric, and each of its
  UTF-8 bytes is at least 128, so the test per byte decides the same.
\<close>

definition tool_name_char :: "char \<Rightarrow> bool" where
  "tool_name_char c \<longleftrightarrow>
     48 \<le> byte c \<and> byte c \<le> 57 \<or> 65 \<le> byte c \<and> byte c \<le> 90 \<or>
     97 \<le> byte c \<and> byte c \<le> 122 \<or> c = CHR ''_'' \<or> c = CHR ''-''"

definition tool_name_try_from :: "string \<Rightarrow> (parse_error, string) outcome" where
  "tool_name_try_from raw =
     (if raw = [] then Err (Empty ''tool_name'')
      else if TOOL_NAME_MAX_LEN < length raw
           then Err (TooLong ''tool_name'' TOOL_NAME_MAX_LEN (length raw))
      else if \<not> list_all tool_name_char raw
           then Err (Malformed ''tool_name'' ''allowed: a-z A-Z 0-9 _ -'')
      else Ok raw)"

definition MAX_OUTPUT_TOKENS_CAP :: "32 word" where
  "MAX_OUTPUT_TOKENS_CAP = 200000"

definition max_output_tokens_try_from :: "32 word \<Rightarrow> (parse_error, 32 word) outcome" where
  "max_output_tokens_try_from n =
     (if n = 0 then Err (OutOfRange ''max_output_tokens'' ''must be > 0'')
      else if MAX_OUTPUT_TOKENS_CAP < n then Err (OutOfRange ''max_output_tokens'' ''exceeds ceiling'')
      else Ok n)"

definition MAX_TURNS_CAP :: "32 word" where
  "MAX_TURNS_CAP = 64"

definition max_turns_try_from :: "32 word \<Rightarrow> (parse_error, 32 word) outcome" where
  "max_turns_try_from n =
     (if n = 0 then Err (OutOfRange ''max_turns'' ''must be > 0'')
      else if MAX_TURNS_CAP < n then Err (OutOfRange ''max_turns'' ''exceeds ceiling'')
      else Ok n)"

definition turn_index_try_from :: "32 word \<Rightarrow> (parse_error, 32 word) outcome" where
  "turn_index_try_from n =
     (if MAX_TURNS_CAP \<le> n then Err (OutOfRange ''turn_index'' ''exceeds ceiling'') else Ok n)"

definition turn_index_next :: "32 word \<Rightarrow> 32 word option" where
  "turn_index_next n = (if MAX_TURNS_CAP \<le> n + 1 then None else Some (n + 1))"

section \<open>Runtime primitives (runtime/types.rs)\<close>

datatype request_status = Pending | Processing | Done | Failed

definition request_status_all :: "request_status list" where
  "request_status_all = [Pending, Processing, Done, Failed]"

fun request_status_str :: "request_status \<Rightarrow> string" where
  "request_status_str Pending = ''pending''"
| "request_status_str Processing = ''processing''"
| "request_status_str Done = ''done''"
| "request_status_str Failed = ''failed''"

fun is_terminal :: "request_status \<Rightarrow> bool" where
  "is_terminal Done = True"
| "is_terminal Failed = True"
| "is_terminal Pending = False"
| "is_terminal Processing = False"

datatype request_kind = Normal | Reflection | Resolution

definition request_kind_all :: "request_kind list" where
  "request_kind_all = [Normal, Reflection, Resolution]"

fun request_kind_str :: "request_kind \<Rightarrow> string" where
  "request_kind_str Normal = ''normal''"
| "request_kind_str Reflection = ''reflection''"
| "request_kind_str Resolution = ''resolution''"

datatype request_kind_payload =
    PNormal
  | PReflection (refl_session: session_id) (up_to_turn_id: prompt_request_id)
  | PResolution (contradiction_event: contradiction_event_id)

fun payload_kind :: "request_kind_payload \<Rightarrow> request_kind" where
  "payload_kind PNormal = Normal"
| "payload_kind (PReflection _ _) = Reflection"
| "payload_kind (PResolution _) = Resolution"

datatype failure_reason =
    Cancelled
  | Timeout
  | Provider string
  | Hook string
  | Poison
  | Unrecoverable string
  | DagBudgetExceededReason
  | NoEgress

fun failure_label :: "failure_reason \<Rightarrow> string" where
  "failure_label Cancelled = ''cancelled''"
| "failure_label Timeout = ''timeout''"
| "failure_label (Provider _) = ''provider''"
| "failure_label (Hook _) = ''hook''"
| "failure_label Poison = ''poison''"
| "failure_label (Unrecoverable _) = ''unrecoverable''"
| "failure_label DagBudgetExceededReason = ''dag_budget_exceeded''"
| "failure_label NoEgress = ''no_egress''"

fun failure_display :: "failure_reason \<Rightarrow> string" where
  "failure_display Cancelled = ''cancelled''"
| "failure_display Timeout = ''turn timed out''"
| "failure_display (Provider s) = ''provider error: '' @ s"
| "failure_display (Hook s) = ''hook denied: '' @ s"
| "failure_display Poison = ''max attempts exceeded''"
| "failure_display (Unrecoverable s) = ''unrecoverable: '' @ s"
| "failure_display DagBudgetExceededReason = ''dag turn budget exceeded''"
| "failure_display NoEgress = ''agent produced text without calling send_message after retries''"

text \<open>\<open>TurnSeq\<close> and \<open>ChunkSeq\<close> are \<open>u64\<close> counters stored in a \<open>BIGINT\<close> column.\<close>

definition seq_next :: "string \<Rightarrow> 64 word \<Rightarrow> (string, 64 word) outcome" where
  "seq_next name n = (if unat n + 1 < 2 ^ 64 then Ok (n + 1) else Err name)"

definition encode_u64 :: "64 word \<Rightarrow> (string, int) outcome" where
  "encode_u64 n = (if unat n < 2 ^ 63 then Ok (int (unat n)) else Panic ''fits in i64'')"

definition decode_u64 :: "int \<Rightarrow> (string, 64 word) outcome" where
  "decode_u64 raw = (if 0 \<le> raw then Ok (of_int raw) else Err ''must be non-negative'')"

definition MAX_ATTEMPTS :: nat where
  "MAX_ATTEMPTS = 3"

datatype attempt_outcome = Live | Poisoned

definition attempts_increment :: "32 word \<Rightarrow> 32 word \<times> attempt_outcome" where
  "attempts_increment a =
     (let a' = (if unat a + 1 < 2 ^ 32 then a + 1 else - 1)
      in (a', if MAX_ATTEMPTS \<le> unat a' then Poisoned else Live))"

definition MAX_IDEMPOTENCY_KEY_BYTES :: nat where
  "MAX_IDEMPOTENCY_KEY_BYTES = 200"

definition idempotency_key_try_from :: "string \<Rightarrow> (parse_error, string) outcome" where
  "idempotency_key_try_from raw =
     (if raw = [] then Err (Empty ''idempotency_key'')
      else if MAX_IDEMPOTENCY_KEY_BYTES < length raw
           then Err (TooLong ''idempotency_key'' MAX_IDEMPOTENCY_KEY_BYTES (length raw))
      else Ok raw)"

section \<open>The macro's contract, for each enum\<close>

interpretation participant_kind: str_enum participant_kind_all participant_kind_str
proof
  show "v \<in> set participant_kind_all" for v by (cases v) (auto simp: participant_kind_all_def)
  show "inj participant_kind_str"
  proof (rule injI)
    fix x y show "participant_kind_str x = participant_kind_str y \<Longrightarrow> x = y"
      by (cases x; cases y) auto
  qed
qed

interpretation request_status: str_enum request_status_all request_status_str
proof
  show "v \<in> set request_status_all" for v by (cases v) (auto simp: request_status_all_def)
  show "inj request_status_str"
  proof (rule injI)
    fix x y show "request_status_str x = request_status_str y \<Longrightarrow> x = y"
      by (cases x; cases y) auto
  qed
qed

interpretation request_kind: str_enum request_kind_all request_kind_str
proof
  show "v \<in> set request_kind_all" for v by (cases v) (auto simp: request_kind_all_def)
  show "inj request_kind_str"
  proof (rule injI)
    fix x y show "request_kind_str x = request_kind_str y \<Longrightarrow> x = y"
      by (cases x; cases y) auto
  qed
qed

section \<open>Smart constructors\<close>

text \<open>
  The contract of a length-capped string newtype: accepted text is kept verbatim, is not
  empty and fits the cap; so parsing what was once accepted succeeds again.
\<close>

locale smart_string =
  fixes try_from :: "string \<Rightarrow> (parse_error, string) outcome"
    and cap :: nat
  assumes keeps: "try_from raw = Ok v \<Longrightarrow> v = raw"
    and bounded: "try_from raw = Ok v \<Longrightarrow> v \<noteq> [] \<and> length v \<le> cap"
    and total: "\<not> is_Panic (try_from raw)"
begin

lemma reparse: "try_from raw = Ok v \<Longrightarrow> try_from v = Ok v"
  using keeps by blast

lemma empty_rejected: "\<not> is_Ok (try_from [])"
  using bounded [of "[]"] keeps [of "[]"] by (auto simp: is_Ok_iff)

lemma oversize_rejected: "cap < length raw \<Longrightarrow> \<not> is_Ok (try_from raw)"
  using bounded keeps by (fastforce simp: is_Ok_iff)

end

interpretation prompt: smart_string prompt_try_from PROMPT_MAX_BYTES
  by unfold_locales (auto simp: prompt_try_from_def split: if_splits)

interpretation tool_name: smart_string tool_name_try_from TOOL_NAME_MAX_LEN
  by unfold_locales (auto simp: tool_name_try_from_def split: if_splits)

interpretation idempotency_key: smart_string idempotency_key_try_from MAX_IDEMPOTENCY_KEY_BYTES
  by unfold_locales (auto simp: idempotency_key_try_from_def split: if_splits)

section \<open>Canonical pairs\<close>

lemma cmp_simps [simp]:
  "cmp x y = Less \<longleftrightarrow> x < y" "cmp x y = Equal \<longleftrightarrow> x = y" "cmp x y = Greater \<longleftrightarrow> y < x"
  by (auto simp: cmp_def)

text \<open>The rank of a participant in the order of the kind labels: agent, human, system.\<close>

fun rank :: "participant \<Rightarrow> nat \<times> nat" where
  "rank (Agent a) = (0, a)"
| "rank Human = (1, 0)"
| "rank System = (2, 0)"

lemma label_order [simp]:
  "''agent'' < ''human''" "''human'' < ''system''" "''agent'' < ''system''"
  "\<not> ''human'' < ''agent''" "\<not> ''system'' < ''human''" "\<not> ''system'' < ''agent''"
  by (simp_all add: list_less_def less_char_def)

lemma canonical_cmp_rank:
  "canonical_cmp p q =
     (if fst (rank p) < fst (rank q) then Less
      else if fst (rank q) < fst (rank p) then Greater
      else cmp (snd (rank p)) (snd (rank q)))"
  by (cases p; cases q) (simp_all add: canonical_cmp_def cmp_def)

lemma rank_inj: "rank p = rank q \<longleftrightarrow> p = q"
  by (cases p; cases q) auto

lemma canonical_cmp_Equal: "canonical_cmp p q = Equal \<longleftrightarrow> p = q"
  using rank_inj [of p q] by (auto simp: canonical_cmp_rank prod_eq_iff cmp_def)

lemma canonical_cmp_swap: "canonical_cmp p q = Less \<longleftrightarrow> canonical_cmp q p = Greater"
  by (auto simp: canonical_cmp_rank)

lemma canonical_pair_swap: "canonical_pair p q = canonical_pair q p"
  using canonical_cmp_swap [of p q] canonical_cmp_swap [of q p] canonical_cmp_Equal [of p q] canonical_cmp_Equal [of q p]
  by (cases "canonical_cmp p q"; cases "canonical_cmp q p") (auto simp: canonical_pair_def)

end
