(* ===== verification/Relay_Db.thy ===== *)
theory Relay_Db
  imports Relay_Types
begin

text \<open>
  The Postgres tables the stores share, as lists of records, and the transaction runners of
  \<open>src/auth/mod.rs\<close>.

  A transaction is one function on the database: it runs atomically, and a result other than
  \<open>Ok\<close> leaves the database as it was. Row level security is the \<open>scope\<close>: a privileged
  transaction sees every row, a tenant transaction only rows of organisations its user is a
  member of (the policies of migrations 16 to 19 are all \<open>app_user_is_member(org_id)\<close>).
  Identifiers the code mints with \<open>Uuid::new_v4\<close> are arguments of the operations, and so is
  the time its injected clock shows. JSON columns hold the value they encode.
\<close>

section \<open>Chat messages (provider/chat.rs)\<close>

record tool_call =
  tc_id :: string
  tc_name :: string
  tc_input :: string

record tool_result =
  tr_call_id :: string
  tr_output :: string
  tr_is_error :: bool

datatype user_content = UText string | UToolResult tool_result

datatype assistant_content = AText string | AReasoning string | AToolCall tool_call

datatype chat_message = User "user_content list" | Assistant "assistant_content list"

section \<open>Response chunks (runtime/response.rs)\<close>

datatype response_chunk =
    CText string
  | CReasoning string
  | CToolCall tool_call
  | CToolResult tool_result
  | CAgentMessage agent_id string
  | CDone string
  | CError string
  | CStalled

section \<open>Session errors (session/error.rs)\<close>

datatype session_error =
    SNotFound session_id
  | AgentNotFound agent_id
  | SSelfSession
  | MessageCapExceeded session_id nat
  | SBackend string
  | SDb string

section \<open>Rows\<close>

record prompt_request =
  pr_id :: prompt_request_id
  pr_session_id :: session_id
  pr_org_id :: org_id
  pr_content :: string
  pr_idempotency_key :: string
  pr_status :: request_status
  pr_attempts :: nat
  pr_turn_seq :: nat
  pr_cancellation_requested :: bool
  pr_failure_reason :: "failure_reason option"
  pr_sender :: message_sender
  pr_receiver_agent_id :: agent_id
  pr_root_request_id :: prompt_request_id
  pr_traceparent :: "string option"
  pr_kind :: request_kind
  pr_kind_payload :: request_kind_payload
  pr_created_at :: instant
  pr_updated_at :: instant

record session_row =
  ses_id :: session_id
  ses_created_at :: instant
  ses_org_id :: org_id
  ses_created_by_user_id :: user_id
  ses_parent_session_id :: "session_id option"
  ses_root_request_id :: prompt_request_id
  ses_participant_a :: participant
  ses_participant_b :: participant

record session_lease =
  sl_session_id :: session_id
  sl_org_id :: org_id
  sl_worker_id :: worker_id
  sl_turn_seq :: nat
  sl_leased_until :: instant

record turn_seq_row =
  ts_session_id :: session_id
  ts_org_id :: org_id
  ts_next_seq :: nat

record dag_row =
  dag_root :: prompt_request_id
  dag_org_id :: org_id
  dag_turns_used :: nat
  dag_turns_cap :: nat
  dag_created_at :: instant

record message_row =
  msg_session_id :: session_id
  msg_seq :: nat
  msg_sender :: message_sender
  msg_receiver :: participant
  msg_body :: chat_message
  msg_request_id :: prompt_request_id
  msg_created_at :: instant
  msg_org_id :: org_id

record stream_row =
  st_request_id :: prompt_request_id
  st_org_id :: org_id
  st_next_seq :: nat
  st_closed :: bool

record chunk_row =
  ch_request_id :: prompt_request_id
  ch_org_id :: org_id
  ch_seq :: nat
  ch_payload :: response_chunk
  ch_bytes :: nat
  ch_is_terminal :: bool
  ch_created_at :: instant

record db =
  prompt_requests :: "prompt_request list"
  sessions :: "session_row list"
  session_leases :: "session_lease list"
  session_turn_seq :: "turn_seq_row list"
  prompt_request_dags :: "dag_row list"
  session_messages :: "message_row list"
  response_streams :: "stream_row list"
  response_chunks :: "chunk_row list"
  agents :: "agent_id list"
  org_members :: "(user_id \<times> org_id) list"

definition empty_db :: db where
  "empty_db = \<lparr>prompt_requests = [], sessions = [], session_leases = [], session_turn_seq = [],
     prompt_request_dags = [], session_messages = [], response_streams = [], response_chunks = [],
     agents = [], org_members = []\<rparr>"

section \<open>Scopes and transaction runners (auth/mod.rs)\<close>

datatype scope = Privileged | AsUser user_id

fun visible :: "scope \<Rightarrow> db \<Rightarrow> org_id \<Rightarrow> bool" where
  "visible Privileged d org = True"
| "visible (AsUser u) d org = ((u, org) \<in> set (org_members d))"

text \<open>\<open>run_as_user\<close> and \<open>run_privileged\<close>: commit on \<open>Ok\<close>, roll back otherwise.\<close>

definition run_tx :: "('s \<Rightarrow> ('e, 'a) outcome \<times> 's) \<Rightarrow> 's \<Rightarrow> ('e, 'a) outcome \<times> 's" where
  "run_tx f d = (case f d of (Ok v, d') \<Rightarrow> (Ok v, d') | (r, _) \<Rightarrow> (r, d))"

text \<open>The \<open>?\<close> operator inside a transaction: statements run on, an error ends the body.\<close>

definition tx_bind ::
  "('e, 'a) outcome \<times> 's \<Rightarrow> ('a \<Rightarrow> 's \<Rightarrow> ('e, 'b) outcome \<times> 's) \<Rightarrow> ('e, 'b) outcome \<times> 's" where
  "tx_bind r f =
     (case r of
        (Ok x, d) \<Rightarrow> f x d
      | (Err e, d) \<Rightarrow> (Err e, d)
      | (Panic m, d) \<Rightarrow> (Panic m, d))"

lemma tx_bind_Ok_iff:
  "tx_bind r f = (Ok y, d') \<longleftrightarrow> (\<exists>x d1. r = (Ok x, d1) \<and> f x d1 = (Ok y, d'))"
  by (auto simp: tx_bind_def split: prod.splits outcome.splits)

lemma tx_bind_simps [simp]:
  "tx_bind (Ok x, d) f = f x d" "tx_bind (Err e, d) f = (Err e, d)" "tx_bind (Panic m, d) f = (Panic m, d)"
  by (simp_all add: tx_bind_def)

lemma run_tx_rollback: "run_tx f d = (r, d') \<Longrightarrow> \<not> is_Ok r \<Longrightarrow> d' = d"
  by (auto simp: run_tx_def split: prod.splits outcome.splits)

lemma run_tx_Ok_iff [simp]: "run_tx f d = (Ok v, d') \<longleftrightarrow> f d = (Ok v, d')"
  by (auto simp: run_tx_def split: prod.splits outcome.splits)

lemma run_tx_fst [simp]: "fst (run_tx f d) = fst (f d)"
  by (auto simp: run_tx_def split: prod.splits outcome.splits)

definition session_of :: "db \<Rightarrow> session_id \<Rightarrow> session_row option" where
  "session_of d s = find (\<lambda>r. ses_id r = s) (sessions d)"

definition request_of :: "db \<Rightarrow> prompt_request_id \<Rightarrow> prompt_request option" where
  "request_of d i = find (\<lambda>r. pr_id r = i) (prompt_requests d)"

lemma session_of_SomeD: "session_of d s = Some r \<Longrightarrow> r \<in> set (sessions d) \<and> ses_id r = s"
  by (auto simp: session_of_def dest: find_SomeD)

lemma request_of_SomeD: "request_of d i = Some r \<Longrightarrow> r \<in> set (prompt_requests d) \<and> pr_id r = i"
  by (auto simp: request_of_def dest: find_SomeD)

lemma request_of_in:
  "distinct (map pr_id (prompt_requests d)) \<Longrightarrow> r \<in> set (prompt_requests d) \<Longrightarrow>
   request_of d (pr_id r) = Some r"
  by (simp add: request_of_def find_Some_iff_distinct)

end
