(* ===== verification/Prompt_Queue.thy ===== *)
theory Prompt_Queue
  imports Relay_Db
begin

text \<open>
  The prompt queue and its leases: \<open>src/runtime/queue.rs\<close> (the two traits and their data) and
  \<open>src/runtime/pg_queue.rs\<close> (the Postgres implementation). Each SQL statement is one
  definition; each trait method composes them as the code does, with its two transactions
  kept apart in \<open>claim_next_session\<close>. Panics of \<open>build_claimed_session\<close>'s assertions happen
  after the commit, so the database keeps the claim.
\<close>

section \<open>Errors and data (runtime/error.rs, runtime/queue.rs)\<close>

datatype lease_timing_error =
    IntervalZero
  | IntervalNotUnderTtl nat nat

datatype prompt_error =
    SessionErr session_error
  | ParseErr parse_error
  | PendingCapExceeded session_id nat
  | RequestNotFound prompt_request_id
  | SessionNotFound session_id
  | SelfSession
  | DagBudgetExceeded prompt_request_id nat nat
  | DagNotFound prompt_request_id
  | LeaseStale session_id
  | Sequence string
  | Backend string
  | DbErr string

record lease_timing =
  ttl :: nat
  heartbeat_interval :: nat

definition LEASE_TTL :: nat where
  "LEASE_TTL = 30"

definition LEASE_HEARTBEAT_INTERVAL :: nat where
  "LEASE_HEARTBEAT_INTERVAL = 10"

definition lease_timing_try_new :: "nat \<Rightarrow> nat \<Rightarrow> (lease_timing_error, lease_timing) outcome" where
  "lease_timing_try_new t hb =
     (if hb = 0 then Err IntervalZero
      else if t \<le> hb then Err (IntervalNotUnderTtl t hb)
      else Ok \<lparr>ttl = t, heartbeat_interval = hb\<rparr>)"

definition lease_timing_default :: "(lease_timing_error, lease_timing) outcome" where
  "lease_timing_default =
     (case lease_timing_try_new LEASE_TTL LEASE_HEARTBEAT_INTERVAL of
        Ok t \<Rightarrow> Ok t | _ \<Rightarrow> Panic ''default LEASE_TTL/LEASE_HEARTBEAT_INTERVAL satisfy try_new'')"

record new_prompt_request =
  np_session :: "session_id option"
  np_sender :: participant
  np_receiver_agent_id :: agent_id
  np_parent_session :: "session_id option"
  np_content :: string
  np_idempotency_key :: string
  np_org_id :: org_id
  np_created_by_user_id :: user_id
  np_kind_payload :: request_kind_payload

definition new_prompt_request_normal ::
  "session_id option \<Rightarrow> participant \<Rightarrow> agent_id \<Rightarrow> session_id option \<Rightarrow> string \<Rightarrow> string \<Rightarrow>
   org_id \<Rightarrow> user_id \<Rightarrow> new_prompt_request" where
  "new_prompt_request_normal s sender rcv par c k org u =
     \<lparr>np_session = s, np_sender = sender, np_receiver_agent_id = rcv, np_parent_session = par,
      np_content = c, np_idempotency_key = k, np_org_id = org, np_created_by_user_id = u,
      np_kind_payload = PNormal\<rparr>"

datatype enqueue_outcome =
    Inserted prompt_request_id session_id request_status
  | Existing prompt_request_id session_id request_status

fun outcome_request_id :: "enqueue_outcome \<Rightarrow> prompt_request_id" where
  "outcome_request_id (Inserted i s st) = i"
| "outcome_request_id (Existing i s st) = i"

fun outcome_session :: "enqueue_outcome \<Rightarrow> session_id" where
  "outcome_session (Inserted i s st) = s"
| "outcome_session (Existing i s st) = s"

fun outcome_status :: "enqueue_outcome \<Rightarrow> request_status" where
  "outcome_status (Inserted i s st) = st"
| "outcome_status (Existing i s st) = st"

record lease_token =
  lt_session :: session_id
  lt_worker :: worker_id
  lt_turn_seq :: nat

record claimed_prompt =
  cp_request_id :: prompt_request_id
  cp_content :: string

record claimed_session =
  cs_session :: session_id
  cs_org_id :: org_id
  cs_created_by_user_id :: user_id
  cs_receiver_agent_id :: agent_id
  cs_prompts :: "claimed_prompt list"
  cs_lease :: lease_token
  cs_traceparent :: "string option"
  cs_kind_payload :: request_kind_payload

record claim_receipt =
  cr_lease :: lease_token
  cr_ids :: "prompt_request_id list"
  cr_acting_user_id :: user_id

definition receipt :: "claimed_session \<Rightarrow> claim_receipt" where
  "receipt c = \<lparr>cr_lease = cs_lease c, cr_ids = map cp_request_id (cs_prompts c),
                cr_acting_user_id = cs_created_by_user_id c\<rparr>"

record request_status_view =
  sv_request_id :: prompt_request_id
  sv_session :: session_id
  sv_status :: request_status
  sv_cancellation_requested :: bool
  sv_failure_reason :: "failure_reason option"

text \<open>\<open>PgPromptQueue\<close>: its caps and lease timing (the pool and clock are arguments).\<close>

record queue_cfg =
  q_timing :: lease_timing
  q_pending_cap :: nat
  q_max_attempts :: nat

definition MAX_PENDING_PER_SESSION :: nat where
  "MAX_PENDING_PER_SESSION = 32"

definition MAX_DAG_TURNS :: nat where
  "MAX_DAG_TURNS = 64"

definition queue_new :: queue_cfg where
  "queue_new = \<lparr>q_timing = \<lparr>ttl = LEASE_TTL, heartbeat_interval = LEASE_HEARTBEAT_INTERVAL\<rparr>,
     q_pending_cap = MAX_PENDING_PER_SESSION, q_max_attempts = MAX_ATTEMPTS\<rparr>"

definition deadline :: "queue_cfg \<Rightarrow> instant \<Rightarrow> instant" where
  "deadline q now = now + int (ttl (q_timing q))"

section \<open>Enqueue (pg\_queue.rs)\<close>

text \<open>Constraint violations a statement can raise, by SQLSTATE class.\<close>

datatype sql_error = ForeignKey | Violation string

definition agent_fk_ok :: "db \<Rightarrow> participant \<Rightarrow> bool" where
  "agent_fk_ok d p = (case participant_agent_id p of None \<Rightarrow> True | Some a \<Rightarrow> a \<in> set (agents d))"

definition parent_org_ok :: "db \<Rightarrow> session_row \<Rightarrow> bool" where
  "parent_org_ok d row =
     (case ses_parent_session_id row of
        None \<Rightarrow> True
      | Some p \<Rightarrow> (case session_of d p of None \<Rightarrow> False | Some r \<Rightarrow> ses_org_id r = ses_org_id row))"

definition same_pair :: "session_row \<Rightarrow> session_row \<Rightarrow> bool" where
  "same_pair r s \<longleftrightarrow> ses_org_id r = ses_org_id s \<and> ses_root_request_id r = ses_root_request_id s \<and>
     ses_participant_a r = ses_participant_a s \<and> ses_participant_b r = ses_participant_b s"

text \<open>\<open>INSERT INTO sessions\<close> with the table's trigger, policy, keys and foreign keys.\<close>

definition insert_session :: "scope \<Rightarrow> session_row \<Rightarrow> db \<Rightarrow> (sql_error, unit) outcome \<times> db" where
  "insert_session sc row d =
     (if \<not> parent_org_ok d row then (Err (Violation ''sessions_enforce_parent_org''), d)
      else if \<not> visible sc d (ses_org_id row) then (Err (Violation ''row-level security''), d)
      else if \<exists>r \<in> set (sessions d). ses_id r = ses_id row \<or> same_pair r row
           then (Err (Violation ''unique''), d)
      else if \<not> agent_fk_ok d (ses_participant_a row) \<or> \<not> agent_fk_ok d (ses_participant_b row)
           then (Err ForeignKey, d)
      else (Ok (), d\<lparr>sessions := sessions d @ [row]\<rparr>))"

definition create_session_row ::
  "scope \<Rightarrow> prompt_request_id \<Rightarrow> participant \<Rightarrow> participant \<Rightarrow> session_id option \<Rightarrow> org_id \<Rightarrow>
   user_id \<Rightarrow> instant \<Rightarrow> session_id \<Rightarrow> db \<Rightarrow> (prompt_error, session_id) outcome \<times> db" where
  "create_session_row sc root sender receiver parent org user now new_id d =
     (case canonical_pair sender receiver of
        None \<Rightarrow> (Err SelfSession, d)
      | Some (a, b) \<Rightarrow>
          (case insert_session sc
                  \<lparr>ses_id = new_id, ses_created_at = now, ses_org_id = org,
                   ses_created_by_user_id = user, ses_parent_session_id = parent,
                   ses_root_request_id = root, ses_participant_a = a, ses_participant_b = b\<rparr> d of
             (Ok _, d') \<Rightarrow> (Ok new_id, d')
           | (Err ForeignKey, _) \<Rightarrow> (Err (Backend ''agent_id FK violation creating session''), d)
           | (Err (Violation m), _) \<Rightarrow> (Err (DbErr m), d)
           | (Panic m, _) \<Rightarrow> (Panic m, d)))"

record session_resolution =
  sr_session :: session_id
  sr_root_request_id :: prompt_request_id
  sr_is_new_session :: bool

definition resolve_session ::
  "scope \<Rightarrow> new_prompt_request \<Rightarrow> participant \<Rightarrow> prompt_request_id \<Rightarrow> instant \<Rightarrow> session_id \<Rightarrow> db \<Rightarrow>
   (prompt_error, session_resolution) outcome \<times> db" where
  "resolve_session sc req receiver request_id now new_sid d =
     (case np_session req of
        Some s \<Rightarrow>
          (case find (\<lambda>r. ses_id r = s \<and> visible sc d (ses_org_id r)) (sessions d) of
             None \<Rightarrow> (Err (SessionNotFound s), d)
           | Some row \<Rightarrow>
               (Ok \<lparr>sr_session = s, sr_root_request_id = ses_root_request_id row,
                    sr_is_new_session = False\<rparr>, d))
      | None \<Rightarrow>
          tx_bind (create_session_row sc request_id (np_sender req) receiver (np_parent_session req)
                     (np_org_id req) (np_created_by_user_id req) now new_sid d)
            (\<lambda>s d'. (Ok \<lparr>sr_session = s, sr_root_request_id = request_id,
                           sr_is_new_session = True\<rparr>, d')))"

definition read_idempotent :: "scope \<Rightarrow> org_id \<Rightarrow> string \<Rightarrow> db \<Rightarrow> enqueue_outcome option" where
  "read_idempotent sc org key d =
     map_option (\<lambda>r. Existing (pr_id r) (pr_session_id r) (pr_status r))
       (find (\<lambda>r. pr_org_id r = org \<and> pr_idempotency_key r = key \<and> visible sc d (pr_org_id r))
          (prompt_requests d))"

definition pending_count :: "db \<Rightarrow> session_id \<Rightarrow> nat" where
  "pending_count d s =
     length (filter (\<lambda>r. pr_session_id r = s \<and> pr_status r = Pending) (prompt_requests d))"

definition enforce_pending_cap :: "scope \<Rightarrow> session_id \<Rightarrow> nat \<Rightarrow> db \<Rightarrow> (prompt_error, unit) outcome" where
  "enforce_pending_cap sc s cap d =
     (if cap \<le> length (filter (\<lambda>r. pr_session_id r = s \<and> pr_status r = Pending \<and>
                                   visible sc d (pr_org_id r)) (prompt_requests d))
      then Err (PendingCapExceeded s cap) else Ok ())"

definition request_row ::
  "new_prompt_request \<Rightarrow> prompt_request_id \<Rightarrow> session_id \<Rightarrow> prompt_request_id \<Rightarrow> string option \<Rightarrow>
   instant \<Rightarrow> prompt_request" where
  "request_row req i s root tp now =
     \<lparr>pr_id = i, pr_session_id = s, pr_org_id = np_org_id req, pr_content = np_content req,
      pr_idempotency_key = np_idempotency_key req, pr_status = Pending, pr_attempts = 0,
      pr_turn_seq = 0, pr_cancellation_requested = False, pr_failure_reason = None,
      pr_sender = sender_from_participant (np_sender req),
      pr_receiver_agent_id = np_receiver_agent_id req, pr_root_request_id = root,
      pr_traceparent = tp, pr_kind = payload_kind (np_kind_payload req),
      pr_kind_payload = np_kind_payload req, pr_created_at = now, pr_updated_at = now\<rparr>"

text \<open>\<open>INSERT INTO prompt_requests\<close> with the table's trigger, policy, keys and foreign keys.\<close>

definition insert_prompt_request ::
  "scope \<Rightarrow> new_prompt_request \<Rightarrow> prompt_request_id \<Rightarrow> session_id \<Rightarrow> prompt_request_id \<Rightarrow>
   string option \<Rightarrow> instant \<Rightarrow> db \<Rightarrow> (prompt_error, unit) outcome \<times> db" where
  "insert_prompt_request sc req i s root tp now d =
     (let row = request_row req i s root tp now in
      if (case session_of d s of None \<Rightarrow> True | Some r \<Rightarrow> ses_org_id r \<noteq> np_org_id req)
      then (Err (DbErr ''prompt_requests_enforce_org''), d)
      else if \<not> visible sc d (np_org_id req) then (Err (DbErr ''row-level security''), d)
      else if \<exists>r \<in> set (prompt_requests d). pr_id r = i \<or>
                 pr_org_id r = np_org_id req \<and> pr_idempotency_key r = np_idempotency_key req
           then (Err (DbErr ''unique''), d)
      else if \<not> agent_fk_ok d (np_sender req) \<or> np_receiver_agent_id req \<notin> set (agents d)
           then (Err (DbErr ''foreign key''), d)
      else (Ok (), d\<lparr>prompt_requests := prompt_requests d @ [row]\<rparr>))"

definition seed_dag_row ::
  "prompt_request_id \<Rightarrow> org_id \<Rightarrow> instant \<Rightarrow> db \<Rightarrow> (prompt_error, unit) outcome \<times> db" where
  "seed_dag_row root org now d =
     (if \<exists>r \<in> set (prompt_request_dags d). dag_root r = root then (Err (DbErr ''unique''), d)
      else (Ok (), d\<lparr>prompt_request_dags := prompt_request_dags d @
              [\<lparr>dag_root = root, dag_org_id = org, dag_turns_used = 0, dag_turns_cap = MAX_DAG_TURNS,
                dag_created_at = now\<rparr>]\<rparr>))"

definition enqueue_receiver :: "new_prompt_request \<Rightarrow> participant" where
  "enqueue_receiver req =
     (case payload_kind (np_kind_payload req) of
        Normal \<Rightarrow> Agent (np_receiver_agent_id req)
      | Reflection \<Rightarrow> System
      | Resolution \<Rightarrow> System)"

definition enqueue_in_tx ::
  "queue_cfg \<Rightarrow> scope \<Rightarrow> new_prompt_request \<Rightarrow> instant \<Rightarrow> prompt_request_id \<Rightarrow> session_id \<Rightarrow>
   string option \<Rightarrow> db \<Rightarrow> (prompt_error, enqueue_outcome) outcome \<times> db" where
  "enqueue_in_tx q sc req now request_id new_sid tp d =
     (if payload_kind (np_kind_payload req) = Normal \<and> np_sender req = enqueue_receiver req
      then (Err SelfSession, d)
      else case read_idempotent sc (np_org_id req) (np_idempotency_key req) d of
        Some existing \<Rightarrow> (Ok existing, d)
      | None \<Rightarrow>
          tx_bind (resolve_session sc req (enqueue_receiver req) request_id now new_sid d)
            (\<lambda>sr d1. tx_bind (enforce_pending_cap sc (sr_session sr) (q_pending_cap q) d1, d1)
            (\<lambda>_ d2. tx_bind (insert_prompt_request sc req request_id (sr_session sr)
                               (sr_root_request_id sr) tp now d2)
            (\<lambda>_ d3. tx_bind (if sr_is_new_session sr
                             then seed_dag_row (sr_root_request_id sr) (np_org_id req) now d3
                             else (Ok (), d3))
            (\<lambda>_ d4. (Ok (Inserted request_id (sr_session sr) Pending), d4))))))"

definition enqueue where
  "enqueue q req now request_id new_sid tp d =
     run_tx (enqueue_in_tx q Privileged req now request_id new_sid tp) d"

definition enqueue_for_user where
  "enqueue_for_user q acting_user_id req now request_id new_sid tp d =
     run_tx (enqueue_in_tx q (AsUser acting_user_id)
               (req\<lparr>np_created_by_user_id := acting_user_id\<rparr>) now request_id new_sid tp) d"

section \<open>Claim (pg\_queue.rs)\<close>

definition orphaned :: "session_lease \<Rightarrow> prompt_request \<Rightarrow> bool" where
  "orphaned l r \<longleftrightarrow> pr_session_id r = sl_session_id l \<and> pr_status r = Processing \<and>
     pr_turn_seq r = sl_turn_seq l"

definition reset_row :: "queue_cfg \<Rightarrow> instant \<Rightarrow> prompt_request \<Rightarrow> prompt_request" where
  "reset_row q now r =
     (if q_max_attempts q \<le> pr_attempts r
      then r\<lparr>pr_status := Failed, pr_failure_reason := Some Poison, pr_updated_at := now\<rparr>
      else r\<lparr>pr_status := Pending, pr_failure_reason := None, pr_updated_at := now\<rparr>)"

definition reset_orphans :: "queue_cfg \<Rightarrow> instant \<Rightarrow> db \<Rightarrow> db" where
  "reset_orphans q now d =
     (let expired = filter (\<lambda>l. sl_leased_until l \<le> now) (session_leases d)
      in d\<lparr>session_leases := delete_where (\<lambda>l. sl_leased_until l \<le> now) (session_leases d),
           prompt_requests :=
             fold (\<lambda>l. update_where (orphaned l) (reset_row q now)) expired (prompt_requests d)\<rparr>)"

definition live_lease :: "db \<Rightarrow> instant \<Rightarrow> session_id \<Rightarrow> bool" where
  "live_lease d now s \<longleftrightarrow>
     (\<exists>l \<in> set (session_leases d). sl_session_id l = s \<and> now < sl_leased_until l)"

definition memory_job_in_flight :: "db \<Rightarrow> instant \<Rightarrow> agent_id \<Rightarrow> bool" where
  "memory_job_in_flight d now a \<longleftrightarrow>
     (\<exists>r \<in> set (prompt_requests d). live_lease d now (pr_session_id r) \<and>
        pr_receiver_agent_id r = a \<and> pr_status r = Processing \<and> pr_kind r \<noteq> Normal)"

definition eligible :: "db \<Rightarrow> instant \<Rightarrow> prompt_request \<Rightarrow> bool" where
  "eligible d now r \<longleftrightarrow>
     session_of d (pr_session_id r) \<noteq> None \<and> pr_status r = Pending \<and>
     \<not> live_lease d now (pr_session_id r) \<and>
     (pr_kind r = Normal \<or> \<not> memory_job_in_flight d now (pr_receiver_agent_id r))"

definition next_candidate :: "db \<Rightarrow> instant \<Rightarrow> (session_id \<times> org_id \<times> user_id) option" where
  "next_candidate d now =
     (case first_min pr_created_at (filter (eligible d now) (prompt_requests d)) of
        None \<Rightarrow> None
      | Some r \<Rightarrow>
          map_option (\<lambda>s. (ses_id s, ses_org_id s, ses_created_by_user_id s))
            (session_of d (pr_session_id r)))"

definition i64_max :: nat where
  "i64_max = 2 ^ 63 - 1"

definition seq_of :: "db \<Rightarrow> session_id \<Rightarrow> nat" where
  "seq_of d s = (case find (\<lambda>r. ts_session_id r = s) (session_turn_seq d) of
                   None \<Rightarrow> 0 | Some r \<Rightarrow> ts_next_seq r)"

definition bump_turn_seq :: "session_id \<Rightarrow> org_id \<Rightarrow> db \<Rightarrow> (prompt_error, nat) outcome \<times> db" where
  "bump_turn_seq s org d =
     (case find (\<lambda>r. ts_session_id r = s) (session_turn_seq d) of
        None \<Rightarrow>
          (Ok 1, d\<lparr>session_turn_seq := session_turn_seq d @
                     [\<lparr>ts_session_id = s, ts_org_id = org, ts_next_seq = 1\<rparr>]\<rparr>)
      | Some r \<Rightarrow>
          if i64_max \<le> ts_next_seq r then (Err (DbErr ''bigint out of range''), d)
          else (Ok (ts_next_seq r + 1),
                d\<lparr>session_turn_seq :=
                     update_where (\<lambda>t. ts_session_id t = s)
                       (\<lambda>t. t\<lparr>ts_next_seq := ts_next_seq t + 1\<rparr>) (session_turn_seq d)\<rparr>))"

definition try_take_lease ::
  "session_id \<Rightarrow> org_id \<Rightarrow> worker_id \<Rightarrow> nat \<Rightarrow> instant \<Rightarrow> instant \<Rightarrow> db \<Rightarrow> bool \<times> db" where
  "try_take_lease s org w seq until now d =
     (case find (\<lambda>l. sl_session_id l = s) (session_leases d) of
        None \<Rightarrow>
          (True, d\<lparr>session_leases := session_leases d @
             [\<lparr>sl_session_id = s, sl_org_id = org, sl_worker_id = w, sl_turn_seq = seq,
               sl_leased_until = until\<rparr>]\<rparr>)
      | Some l \<Rightarrow>
          if sl_leased_until l \<le> now
          then (True, d\<lparr>session_leases :=
                  update_where (\<lambda>l. sl_session_id l = s)
                    (\<lambda>l. l\<lparr>sl_worker_id := w, sl_turn_seq := seq, sl_leased_until := until\<rparr>)
                    (session_leases d)\<rparr>)
          else (False, d))"

definition drainable :: "session_id \<Rightarrow> prompt_request \<Rightarrow> bool" where
  "drainable s r \<longleftrightarrow> pr_session_id r = s \<and> pr_status r = Pending"

definition drain_row :: "nat \<Rightarrow> instant \<Rightarrow> prompt_request \<Rightarrow> prompt_request" where
  "drain_row seq now r =
     r\<lparr>pr_status := Processing, pr_turn_seq := seq, pr_attempts := pr_attempts r + 1,
       pr_updated_at := now\<rparr>"

definition drain_pending :: "session_id \<Rightarrow> nat \<Rightarrow> instant \<Rightarrow> db \<Rightarrow> prompt_request list \<times> db" where
  "drain_pending s seq now d =
     (map (drain_row seq now) (filter (drainable s) (prompt_requests d)),
      d\<lparr>prompt_requests := update_where (drainable s) (drain_row seq now) (prompt_requests d)\<rparr>)"

fun parse_prompts :: "prompt_request list \<Rightarrow> (prompt_error, claimed_prompt list) outcome" where
  "parse_prompts [] = Ok []"
| "parse_prompts (r # rs) =
     and_then (map_err ParseErr (prompt_try_from (pr_content r)))
       (\<lambda>c. and_then (parse_prompts rs)
              (\<lambda>ps. Ok (\<lparr>cp_request_id = pr_id r, cp_content = c\<rparr> # ps)))"

definition first_traceparent :: "prompt_request list \<Rightarrow> string option" where
  "first_traceparent rs =
     (case find (\<lambda>r. pr_traceparent r \<noteq> None) rs of None \<Rightarrow> None | Some r \<Rightarrow> pr_traceparent r)"

text \<open>The assertion loop over \<open>drained[1..]\<close>: the message of the first assertion that fails.\<close>

fun check_batch :: "prompt_request \<Rightarrow> prompt_request list \<Rightarrow> string option" where
  "check_batch r0 [] = None"
| "check_batch r0 (r # rs) =
     (if pr_receiver_agent_id r \<noteq> pr_receiver_agent_id r0
      then Some ''drained prompts for one session must share receiver_agent_id''
      else if payload_kind (pr_kind_payload r) \<noteq> payload_kind (pr_kind_payload r0)
      then Some ''drained prompts for one session must share kind''
      else check_batch r0 rs)"

definition build_claimed_session ::
  "session_id \<Rightarrow> org_id \<Rightarrow> user_id \<Rightarrow> worker_id \<Rightarrow> nat \<Rightarrow> prompt_request list \<Rightarrow>
   (prompt_error, claimed_session) outcome" where
  "build_claimed_session s org user w seq drained =
     (case drained of
        [] \<Rightarrow> Panic ''caller checks drained.is_empty() before assembly''
      | r0 # rest \<Rightarrow>
          (case check_batch r0 rest of
             Some m \<Rightarrow> Panic m
           | None \<Rightarrow>
               and_then (parse_prompts drained)
                 (\<lambda>ps. Ok \<lparr>cs_session = s, cs_org_id = org, cs_created_by_user_id = user,
                           cs_receiver_agent_id = pr_receiver_agent_id r0, cs_prompts = ps,
                           cs_lease = \<lparr>lt_session = s, lt_worker = w, lt_turn_seq = seq\<rparr>,
                           cs_traceparent = first_traceparent drained,
                           cs_kind_payload = pr_kind_payload r0\<rparr>)))"

definition lease_matches :: "lease_token \<Rightarrow> session_lease \<Rightarrow> bool" where
  "lease_matches t l \<longleftrightarrow> sl_session_id l = lt_session t \<and> sl_worker_id l = lt_worker t \<and>
     sl_turn_seq l = lt_turn_seq t"

definition release :: "lease_token \<Rightarrow> db \<Rightarrow> (prompt_error, unit) outcome \<times> db" where
  "release t d = (Ok (), d\<lparr>session_leases := delete_where (lease_matches t) (session_leases d)\<rparr>)"

text \<open>
  A claim is three database steps that other workers interleave with: the orphan sweep, a plain
  \<open>SELECT\<close> for a candidate, and the statements that take it. The upsert of the turn number locks
  the row of the session until the commit, so these last statements run as one (\<open>claim_tx\<close>); the
  candidate they are given may come from a scan that is out of date, which is why
  \<open>try_take_lease\<close> looks at the lease again. \<open>None\<close> is the lost race.
\<close>

definition claim_tx ::
  "queue_cfg \<Rightarrow> worker_id \<Rightarrow> instant \<Rightarrow> session_id \<Rightarrow> org_id \<Rightarrow> db \<Rightarrow>
   (prompt_error, (nat \<times> prompt_request list) option) outcome \<times> db" where
  "claim_tx q w now s org d =
     (case bump_turn_seq s org d of
        (Err e, _) \<Rightarrow> (Err e, d)
      | (Panic m, _) \<Rightarrow> (Panic m, d)
      | (Ok seq, d1) \<Rightarrow>
          (case try_take_lease s org w seq (deadline q now) now d1 of
             (False, d2) \<Rightarrow> (Ok None, d2)
           | (True, d2) \<Rightarrow> (case drain_pending s seq now d2 of (drained, d3) \<Rightarrow> (Ok (Some (seq, drained)), d3))))"

text \<open>What the caller makes of it: an empty batch gives the lease back, in a transaction of its own.\<close>

definition claim_candidate ::
  "queue_cfg \<Rightarrow> worker_id \<Rightarrow> instant \<Rightarrow> session_id \<Rightarrow> org_id \<Rightarrow> user_id \<Rightarrow> db \<Rightarrow>
   (prompt_error, claimed_session option) outcome \<times> db" where
  "claim_candidate q w now s org user d =
     (case claim_tx q w now s org d of
        (Err e, d1) \<Rightarrow> (Err e, d1)
      | (Panic m, d1) \<Rightarrow> (Panic m, d1)
      | (Ok None, d1) \<Rightarrow> (Ok None, d1)
      | (Ok (Some (seq, drained)), d1) \<Rightarrow>
          if drained = []
          then (Ok None, snd (release \<lparr>lt_session = s, lt_worker = w, lt_turn_seq = seq\<rparr> d1))
          else (and_then (build_claimed_session s org user w seq drained) (\<lambda>c. Ok (Some c)), d1))"

definition claim_in_tx ::
  "queue_cfg \<Rightarrow> worker_id \<Rightarrow> instant \<Rightarrow> db \<Rightarrow> (prompt_error, claimed_session option) outcome \<times> db" where
  "claim_in_tx q w now d =
     (case next_candidate d now of
        None \<Rightarrow> (Ok None, d)
      | Some (s, org, user) \<Rightarrow> claim_candidate q w now s org user d)"

text \<open>A claim that nobody interrupts.\<close>

definition claim_next_session ::
  "queue_cfg \<Rightarrow> worker_id \<Rightarrow> instant \<Rightarrow> db \<Rightarrow> (prompt_error, claimed_session option) outcome \<times> db" where
  "claim_next_session q w now d = claim_in_tx q w now (reset_orphans q now d)"

section \<open>Finalise, cancel, status, heartbeat (pg\_queue.rs)\<close>

datatype finalisation = FDone | FFailed failure_reason

fun finalisation_status :: "finalisation \<Rightarrow> request_status" where
  "finalisation_status FDone = Done"
| "finalisation_status (FFailed _) = Failed"

fun finalisation_reason :: "finalisation \<Rightarrow> failure_reason option" where
  "finalisation_reason FDone = None"
| "finalisation_reason (FFailed r) = Some r"

definition finalisable :: "claim_receipt \<Rightarrow> prompt_request \<Rightarrow> bool" where
  "finalisable rc r \<longleftrightarrow> pr_id r \<in> set (cr_ids rc) \<and> pr_session_id r = lt_session (cr_lease rc) \<and>
     pr_turn_seq r = lt_turn_seq (cr_lease rc)"

definition finalise_row :: "finalisation \<Rightarrow> instant \<Rightarrow> prompt_request \<Rightarrow> prompt_request" where
  "finalise_row f now r =
     r\<lparr>pr_status := finalisation_status f, pr_failure_reason := finalisation_reason f,
       pr_updated_at := now\<rparr>"

definition finalise :: "claim_receipt \<Rightarrow> finalisation \<Rightarrow> instant \<Rightarrow> db \<Rightarrow> (prompt_error, unit) outcome \<times> db" where
  "finalise rc f now d =
     (if \<exists>l \<in> set (session_leases d). lease_matches (cr_lease rc) l
      then (Ok (), d\<lparr>prompt_requests :=
              update_where (finalisable rc) (finalise_row f now) (prompt_requests d)\<rparr>)
      else (Err (LeaseStale (lt_session (cr_lease rc))), d))"

definition mark_done where
  "mark_done rc now d = finalise rc FDone now d"

definition mark_failed where
  "mark_failed rc reason now d = finalise rc (FFailed reason) now d"

definition request_cancellation ::
  "prompt_request_id \<Rightarrow> instant \<Rightarrow> db \<Rightarrow> (prompt_error, unit) outcome \<times> db" where
  "request_cancellation i now d =
     (if rows_affected (\<lambda>r. pr_id r = i) (prompt_requests d) = 0 then (Err (RequestNotFound i), d)
      else (Ok (), d\<lparr>prompt_requests :=
              update_where (\<lambda>r. pr_id r = i)
                (\<lambda>r. r\<lparr>pr_cancellation_requested := True, pr_updated_at := now\<rparr>)
                (prompt_requests d)\<rparr>))"

definition status_view :: "prompt_request \<Rightarrow> request_status_view" where
  "status_view r = \<lparr>sv_request_id = pr_id r, sv_session = pr_session_id r, sv_status = pr_status r,
     sv_cancellation_requested = pr_cancellation_requested r,
     sv_failure_reason = pr_failure_reason r\<rparr>"

definition status :: "prompt_request_id \<Rightarrow> db \<Rightarrow> (prompt_error, request_status_view) outcome" where
  "status i d = (case request_of d i of None \<Rightarrow> Err (RequestNotFound i) | Some r \<Rightarrow> Ok (status_view r))"

definition statuses :: "prompt_request_id list \<Rightarrow> db \<Rightarrow> (prompt_error, request_status_view list) outcome" where
  "statuses ids d =
     (if ids = [] then Ok []
      else Ok (map status_view (filter (\<lambda>r. pr_id r \<in> set ids) (prompt_requests d))))"

definition heartbeat ::
  "queue_cfg \<Rightarrow> lease_token \<Rightarrow> instant \<Rightarrow> db \<Rightarrow> (prompt_error, unit) outcome \<times> db" where
  "heartbeat q t now d =
     (if rows_affected (lease_matches t) (session_leases d) = 0
      then (Err (LeaseStale (lt_session t)), d)
      else (Ok (), d\<lparr>session_leases :=
              update_where (lease_matches t) (\<lambda>l. l\<lparr>sl_leased_until := deadline q now\<rparr>)
                (session_leases d)\<rparr>))"

end
