(* ===== verification/Queue_Lemmas.thy ===== *)
theory Queue_Lemmas
  imports Prompt_Queue
begin

text \<open>
  What each queue operation does to the database, as rewriting and elimination rules: the
  orphan sweep as one \<open>UPDATE\<close>, the two shapes a claim can take, the one shape a successful
  insert can take. The invariant proofs and the worker's proofs rest on these.
\<close>

lemmas queue_defs = finalise_def request_cancellation_def heartbeat_def release_def
  mark_done_def mark_failed_def

lemma ball_update_where [table_intros]:
  assumes "\<And>r. r \<in> set rows \<Longrightarrow> \<not> P r \<Longrightarrow> Q r" and "\<And>r. r \<in> set rows \<Longrightarrow> P r \<Longrightarrow> Q (f r)"
  shows "\<forall>r \<in> set (update_where P f rows). Q r"
  using assms by (auto simp: row_simps)

lemma bex_update_where:
  assumes "r \<in> set rows" and "P r \<Longrightarrow> Q (f r)" and "\<not> P r \<Longrightarrow> Q r"
  shows "\<exists>r' \<in> set (update_where P f rows). Q r'"
  using assms by (intro bexI [where x = "if P r then f r else r"]) (auto simp: update_where_def)

section \<open>The orphan sweep\<close>

definition orphan_in :: "db \<Rightarrow> instant \<Rightarrow> prompt_request \<Rightarrow> bool" where
  "orphan_in d now r \<longleftrightarrow>
     (\<exists>l \<in> set (session_leases d). sl_leased_until l \<le> now \<and> orphaned l r)"

lemma reset_row_not_orphaned [simp]: "\<not> orphaned l (reset_row q now r)"
  by (simp add: orphaned_def reset_row_def)

lemma reset_row_fields [simp]:
  "pr_id (reset_row q now r) = pr_id r"
  "pr_session_id (reset_row q now r) = pr_session_id r"
  "pr_org_id (reset_row q now r) = pr_org_id r"
  "pr_idempotency_key (reset_row q now r) = pr_idempotency_key r"
  "pr_attempts (reset_row q now r) = pr_attempts r"
  "pr_turn_seq (reset_row q now r) = pr_turn_seq r"
  "pr_root_request_id (reset_row q now r) = pr_root_request_id r"
  "pr_kind (reset_row q now r) = pr_kind r"
  "pr_kind_payload (reset_row q now r) = pr_kind_payload r"
  "pr_receiver_agent_id (reset_row q now r) = pr_receiver_agent_id r"
  "pr_content (reset_row q now r) = pr_content r"
  "pr_created_at (reset_row q now r) = pr_created_at r"
  by (simp_all add: reset_row_def)

lemma fold_reset:
  "fold (\<lambda>l. update_where (orphaned l) (reset_row q now)) ls rows =
   update_where (\<lambda>r. \<exists>l \<in> set ls. orphaned l r) (reset_row q now) rows"
proof (induction ls arbitrary: rows)
  case Nil
  then show ?case by (simp add: row_simps)
next
  case (Cons l ls)
  then show ?case by (auto simp: update_where_def)
qed

lemma reset_orphans_eq:
  "reset_orphans q now d =
     d\<lparr>session_leases := filter (\<lambda>l. now < sl_leased_until l) (session_leases d),
       prompt_requests := update_where (orphan_in d now) (reset_row q now) (prompt_requests d)\<rparr>"
proof -
  have "(\<lambda>r. \<exists>l \<in> set (filter (\<lambda>l. sl_leased_until l \<le> now) (session_leases d)). orphaned l r) =
        orphan_in d now"
    by (auto simp: orphan_in_def fun_eq_iff)
  then show ?thesis by (simp add: reset_orphans_def fold_reset delete_where_def not_le)
qed

lemma reset_orphans_tables [simp]:
  "sessions (reset_orphans q now d) = sessions d"
  "session_turn_seq (reset_orphans q now d) = session_turn_seq d"
  "prompt_request_dags (reset_orphans q now d) = prompt_request_dags d"
  "session_messages (reset_orphans q now d) = session_messages d"
  "response_streams (reset_orphans q now d) = response_streams d"
  "response_chunks (reset_orphans q now d) = response_chunks d"
  "agents (reset_orphans q now d) = agents d"
  "org_members (reset_orphans q now d) = org_members d"
  by (simp_all add: reset_orphans_eq)

lemma reset_orphans_leases [simp]:
  "session_leases (reset_orphans q now d) = filter (\<lambda>l. now < sl_leased_until l) (session_leases d)"
  by (simp add: reset_orphans_eq)

lemma reset_orphans_requests:
  "prompt_requests (reset_orphans q now d) =
     update_where (orphan_in d now) (reset_row q now) (prompt_requests d)"
  by (simp add: reset_orphans_eq)

lemma session_of_cong: "sessions d = sessions d' \<Longrightarrow> session_of d = session_of d'"
  by (simp add: session_of_def fun_eq_iff)

lemma seq_of_cong: "session_turn_seq d = session_turn_seq d' \<Longrightarrow> seq_of d = seq_of d'"
  by (simp add: seq_of_def fun_eq_iff)

section \<open>Claims\<close>

text \<open>The database a successful claim of session \<open>s\<close> leaves behind.\<close>

definition claimed_db ::
  "queue_cfg \<Rightarrow> worker_id \<Rightarrow> instant \<Rightarrow> session_id \<Rightarrow> org_id \<Rightarrow> db \<Rightarrow> db" where
  "claimed_db q w now s org d =
     d\<lparr>session_turn_seq := session_turn_seq (snd (bump_turn_seq s org d)),
       session_leases := session_leases d @
         [\<lparr>sl_session_id = s, sl_org_id = org, sl_worker_id = w, sl_turn_seq = Suc (seq_of d s),
           sl_leased_until = deadline q now\<rparr>],
       prompt_requests :=
         update_where (drainable s) (drain_row (Suc (seq_of d s)) now) (prompt_requests d)\<rparr>"

lemma drain_row_fields [simp]:
  "pr_id (drain_row seq now r) = pr_id r"
  "pr_session_id (drain_row seq now r) = pr_session_id r"
  "pr_org_id (drain_row seq now r) = pr_org_id r"
  "pr_idempotency_key (drain_row seq now r) = pr_idempotency_key r"
  "pr_status (drain_row seq now r) = Processing"
  "pr_turn_seq (drain_row seq now r) = seq"
  "pr_attempts (drain_row seq now r) = Suc (pr_attempts r)"
  "pr_root_request_id (drain_row seq now r) = pr_root_request_id r"
  "pr_failure_reason (drain_row seq now r) = pr_failure_reason r"
  "pr_kind (drain_row seq now r) = pr_kind r"
  "pr_kind_payload (drain_row seq now r) = pr_kind_payload r"
  "pr_receiver_agent_id (drain_row seq now r) = pr_receiver_agent_id r"
  "pr_content (drain_row seq now r) = pr_content r"
  by (simp_all add: drain_row_def)

lemma next_candidate_SomeD:
  assumes "next_candidate d now = Some (s, org, user)"
  obtains r row where "r \<in> set (prompt_requests d)" "eligible d now r" "pr_session_id r = s"
    "session_of d s = Some row" "ses_org_id row = org" "ses_created_by_user_id row = user"
    "\<And>r'. r' \<in> set (prompt_requests d) \<Longrightarrow> eligible d now r' \<Longrightarrow> pr_created_at r \<le> pr_created_at r'"
proof -
  from assms obtain r row where
    fm: "first_min pr_created_at (filter (eligible d now) (prompt_requests d)) = Some r"
    and so: "session_of d (pr_session_id r) = Some row"
    and eqs: "ses_id row = s" "ses_org_id row = org" "ses_created_by_user_id row = user"
    by (auto simp: next_candidate_def split: option.splits)
  from session_of_SomeD [OF so] eqs have "pr_session_id r = s" by simp
  moreover from first_min_in [OF fm] have "r \<in> set (prompt_requests d)" "eligible d now r" by auto
  moreover from first_min_le [OF fm]
  have "\<And>r'. r' \<in> set (prompt_requests d) \<Longrightarrow> eligible d now r' \<Longrightarrow> pr_created_at r \<le> pr_created_at r'"
    by simp
  ultimately show thesis using so eqs that by blast
qed

lemma next_candidate_None_iff:
  "next_candidate d now = None \<longleftrightarrow> (\<forall>r \<in> set (prompt_requests d). \<not> eligible d now r)"
proof
  assume none: "next_candidate d now = None"
  show "\<forall>r \<in> set (prompt_requests d). \<not> eligible d now r"
  proof (rule ccontr)
    assume "\<not> ?thesis"
    then obtain m where m: "first_min pr_created_at (filter (eligible d now) (prompt_requests d)) = Some m"
      by (metis (no_types, lifting) filter_empty_conv first_min_None not_None_eq)
    with first_min_in [OF m] have "eligible d now m" by auto
    with m none show False by (auto simp: next_candidate_def eligible_def split: option.splits)
  qed
next
  assume "\<forall>r \<in> set (prompt_requests d). \<not> eligible d now r"
  then have "filter (eligible d now) (prompt_requests d) = []" by (simp add: filter_empty_conv)
  then show "next_candidate d now = None" by (simp add: next_candidate_def)
qed

lemma bump_turn_seq_Ok:
  "bump_turn_seq s org d = (Ok n, d') \<Longrightarrow>
     n = Suc (seq_of d s) \<and> d' = d\<lparr>session_turn_seq := session_turn_seq d'\<rparr>"
  by (auto simp: bump_turn_seq_def seq_of_def split: option.splits if_splits)

lemma bump_turn_seq_not_Panic: "bump_turn_seq s org d \<noteq> (Panic m, d')"
  by (auto simp: bump_turn_seq_def split: option.splits if_splits)

lemma seq_of_bump:
  assumes "bump_turn_seq s org d = (Ok n, d')" and "session_turn_seq e = session_turn_seq d'"
  shows "seq_of e t = (if t = s then Suc (seq_of d s) else seq_of d t)"
proof -
  have "seq_of e = seq_of d'" using assms(2) by (rule seq_of_cong)
  moreover have "seq_of d' t = (if t = s then Suc (seq_of d s) else seq_of d t)"
  proof (cases "find (\<lambda>r. ts_session_id r = s) (session_turn_seq d)")
    case None
    with assms(1) show ?thesis
      by (cases "t = s") (auto simp: bump_turn_seq_def seq_of_def split: option.splits)
  next
    case (Some r)
    then have d': "session_turn_seq d' =
        update_where (\<lambda>t. ts_session_id t = s) (\<lambda>t. t\<lparr>ts_next_seq := ts_next_seq t + 1\<rparr>) (session_turn_seq d)"
      using assms(1) by (auto simp: bump_turn_seq_def split: if_splits)
    have "ts_session_id r = s" using find_SomeD [OF Some] by simp
    with Some d' show ?thesis
      by (auto simp: seq_of_def find_update_where split: option.splits dest: find_SomeD)
  qed
  ultimately show ?thesis by simp
qed

lemma bump_turn_seq_below_max:
  assumes "seq_of d s < i64_max"
  shows "\<exists>d'. bump_turn_seq s org d = (Ok (Suc (seq_of d s)), d')"
  using assms by (auto simp: bump_turn_seq_def seq_of_def split: option.splits)

lemma bump_turn_seq_overflow:
  assumes "\<not> seq_of d s < i64_max"
  shows "bump_turn_seq s org d = (Err (DbErr ''bigint out of range''), d)"
  using assms by (auto simp: bump_turn_seq_def seq_of_def i64_max_def split: option.splits)

lemma eligible_no_lease:
  assumes "\<forall>l \<in> set (session_leases d). now < sl_leased_until l" and "eligible d now r"
  shows "\<forall>l \<in> set (session_leases d). sl_session_id l \<noteq> pr_session_id r"
  using assms by (auto simp: eligible_def live_lease_def)

lemma claim_in_tx_cases:
  assumes live: "\<forall>l \<in> set (session_leases d). now < sl_leased_until l"
  obtains
    (none) "next_candidate d now = None" "claim_in_tx q w now d = (Ok None, d)"
  | (overflow) s org user where "next_candidate d now = Some (s, org, user)" "\<not> seq_of d s < i64_max"
      "claim_in_tx q w now d = (Err (DbErr ''bigint out of range''), d)"
  | (claimed) s org user where "next_candidate d now = Some (s, org, user)"
      "\<forall>l \<in> set (session_leases d). sl_session_id l \<noteq> s"
      "filter (drainable s) (prompt_requests d) \<noteq> []"
      "seq_of d s < i64_max"
      "claim_in_tx q w now d =
         (and_then (build_claimed_session s org user w (Suc (seq_of d s))
             (map (drain_row (Suc (seq_of d s)) now) (filter (drainable s) (prompt_requests d))))
            (\<lambda>c. Ok (Some c)),
          claimed_db q w now s org d)"
proof (cases "next_candidate d now")
  case None
  then show ?thesis using none by (simp add: claim_in_tx_def)
next
  case (Some cand)
  then obtain s org user where nc: "next_candidate d now = Some (s, org, user)" by (cases cand) auto
  then obtain r where r: "r \<in> set (prompt_requests d)" "eligible d now r" "pr_session_id r = s"
    by (rule next_candidate_SomeD)
  have noL: "\<forall>l \<in> set (session_leases d). sl_session_id l \<noteq> s"
    using eligible_no_lease [OF live r(2)] r(3) by simp
  then have findN: "find (\<lambda>l. sl_session_id l = s) (session_leases d) = None"
    by (simp add: find_None_iff)
  have dr: "filter (drainable s) (prompt_requests d) \<noteq> []"
    using r by (auto simp: filter_empty_conv drainable_def eligible_def)
  show ?thesis
  proof (cases "seq_of d s < i64_max")
    case False
    then show ?thesis using nc bump_turn_seq_overflow [OF False]
      by (intro overflow [OF nc]) (simp_all add: claim_in_tx_def claim_candidate_def claim_tx_def)
  next
    case True
    then obtain d1 where b: "bump_turn_seq s org d = (Ok (Suc (seq_of d s)), d1)"
      using bump_turn_seq_below_max by blast
    have d1: "d1 = d\<lparr>session_turn_seq := session_turn_seq d1\<rparr>" using bump_turn_seq_Ok [OF b] by simp
    then have t: "prompt_requests d1 = prompt_requests d" "session_leases d1 = session_leases d"
      by (metis db.select_convs db.surjective db.update_convs(4))+
    have db: "d1\<lparr>session_leases := L, prompt_requests := P\<rparr> =
        d\<lparr>session_turn_seq := session_turn_seq d1, session_leases := L, prompt_requests := P\<rparr>" for L P
      by (subst d1) simp
    show ?thesis
      by (rule claimed [OF nc noL dr True])
         (simp add: claim_in_tx_def claim_candidate_def claim_tx_def nc b try_take_lease_def t findN drain_pending_def dr
            claimed_db_def db filter_empty_conv [symmetric])
  qed
qed

text \<open>The transaction that takes a candidate, in any state: the leases it leaves and its three outcomes.\<close>

definition taken_leases :: "queue_cfg \<Rightarrow> worker_id \<Rightarrow> instant \<Rightarrow> session_id \<Rightarrow> org_id \<Rightarrow> db \<Rightarrow> session_lease list" where
  "taken_leases q w now s org d =
     (if \<exists>l \<in> set (session_leases d). sl_session_id l = s
      then update_where (\<lambda>l. sl_session_id l = s)
             (\<lambda>l. l\<lparr>sl_worker_id := w, sl_turn_seq := Suc (seq_of d s), sl_leased_until := deadline q now\<rparr>) (session_leases d)
      else session_leases d @
             [\<lparr>sl_session_id = s, sl_org_id = org, sl_worker_id = w, sl_turn_seq = Suc (seq_of d s),
               sl_leased_until = deadline q now\<rparr>])"

definition taken_db :: "queue_cfg \<Rightarrow> worker_id \<Rightarrow> instant \<Rightarrow> session_id \<Rightarrow> org_id \<Rightarrow> db \<Rightarrow> db" where
  "taken_db q w now s org d = (claimed_db q w now s org d)\<lparr>session_leases := taken_leases q w now s org d\<rparr>"

lemma claim_tx_cases:
  obtains
    (overflow) "\<not> seq_of d s < i64_max" "claim_tx q w now s org d = (Err (DbErr ''bigint out of range''), d)"
  | (lost) l where "seq_of d s < i64_max" "l \<in> set (session_leases d)" "sl_session_id l = s" "now < sl_leased_until l"
      "claim_tx q w now s org d = (Ok None, d\<lparr>session_turn_seq := session_turn_seq (snd (bump_turn_seq s org d))\<rparr>)"
  | (taken) "seq_of d s < i64_max" "\<And>l. find (\<lambda>l. sl_session_id l = s) (session_leases d) = Some l \<Longrightarrow> sl_leased_until l \<le> now"
      "claim_tx q w now s org d =
         (Ok (Some (Suc (seq_of d s), map (drain_row (Suc (seq_of d s)) now) (filter (drainable s) (prompt_requests d)))),
          taken_db q w now s org d)"
proof (cases "seq_of d s < i64_max")
  case False
  then show ?thesis using bump_turn_seq_overflow [OF False] by (intro overflow) (simp_all add: claim_tx_def)
next
  case True
  then obtain d1 where b: "bump_turn_seq s org d = (Ok (Suc (seq_of d s)), d1)"
    using bump_turn_seq_below_max by blast
  have d1: "d1 = d\<lparr>session_turn_seq := session_turn_seq d1\<rparr>" using bump_turn_seq_Ok [OF b] by simp
  then have t: "prompt_requests d1 = prompt_requests d" "session_leases d1 = session_leases d"
    by (metis db.select_convs db.surjective db.update_convs(4))+
  have db: "d1\<lparr>session_leases := L, prompt_requests := P\<rparr> =
      d\<lparr>session_turn_seq := session_turn_seq d1, session_leases := L, prompt_requests := P\<rparr>" for L P
    by (subst d1) simp
  show ?thesis
  proof (cases "find (\<lambda>l. sl_session_id l = s) (session_leases d)")
    case None
    then have none: "\<not> (\<exists>l \<in> set (session_leases d). sl_session_id l = s)" by (simp add: find_None_iff)
    show ?thesis
      by (rule taken [OF True])
         (use None none in \<open>simp_all add: claim_tx_def b try_take_lease_def t drain_pending_def taken_db_def taken_leases_def
            claimed_db_def db\<close>)
  next
    case (Some l)
    then have l: "l \<in> set (session_leases d)" "sl_session_id l = s" by (auto dest: find_SomeD)
    show ?thesis
    proof (cases "sl_leased_until l \<le> now")
      case expired: True
      show ?thesis
        by (rule taken [OF True])
           (use Some l expired in \<open>auto simp: claim_tx_def b try_take_lease_def t drain_pending_def taken_db_def taken_leases_def
              claimed_db_def db\<close>)
    next
      case False
      then show ?thesis
        by (intro lost [OF True l]) (use Some d1 in \<open>simp_all add: claim_tx_def b try_take_lease_def t\<close>)
    qed
  qed
qed

lemma taken_db_claimed: "\<forall>l \<in> set (session_leases d). sl_session_id l \<noteq> s \<Longrightarrow> taken_db q w now s org d = claimed_db q w now s org d"
  by (auto simp: taken_db_def taken_leases_def claimed_db_def)

section \<open>Successful enqueues\<close>

lemma insert_session_Ok:
  "insert_session sc row d = (Ok u, d') \<longleftrightarrow>
     d' = d\<lparr>sessions := sessions d @ [row]\<rparr> \<and> parent_org_ok d row \<and> visible sc d (ses_org_id row) \<and>
     (\<forall>r \<in> set (sessions d). ses_id r \<noteq> ses_id row \<and> \<not> same_pair r row) \<and>
     agent_fk_ok d (ses_participant_a row) \<and> agent_fk_ok d (ses_participant_b row)"
  by (auto simp: insert_session_def)

lemma create_session_row_Ok:
  assumes "create_session_row sc root sender receiver par org user now new_id d = (Ok s, d')"
  obtains row where "s = new_id" "ses_id row = new_id" "ses_org_id row = org"
    "ses_root_request_id row = root" "ses_created_by_user_id row = user"
    "ses_parent_session_id row = par"
    "canonical_pair sender receiver = Some (ses_participant_a row, ses_participant_b row)"
    "d' = d\<lparr>sessions := sessions d @ [row]\<rparr>" "\<forall>r \<in> set (sessions d). ses_id r \<noteq> new_id"
    "visible sc d org"
proof -
  obtain a b where ab: "canonical_pair sender receiver = Some (a, b)"
    using assms by (auto simp: create_session_row_def split: option.splits)
  let ?row = "\<lparr>ses_id = new_id, ses_created_at = now, ses_org_id = org,
    ses_created_by_user_id = user, ses_parent_session_id = par, ses_root_request_id = root,
    ses_participant_a = a, ses_participant_b = b\<rparr>"
  from assms ab obtain u where ins: "insert_session sc ?row d = (Ok u, d')" and s: "s = new_id"
    by (auto simp: create_session_row_def split: prod.splits outcome.splits sql_error.splits)
  show thesis
    by (rule that [of ?row]) (use ins s ab in \<open>auto simp: insert_session_Ok\<close>)
qed

lemma visible_cong: "org_members d = org_members e \<Longrightarrow> visible sc d org = visible sc e org"
  by (cases sc) auto

lemma enqueue_in_tx_cases:
  assumes "enqueue_in_tx q sc req now i ns tp d = (Ok out, d')"
  obtains
    (existing) r where "r \<in> set (prompt_requests d)" "pr_org_id r = np_org_id req"
      "pr_idempotency_key r = np_idempotency_key req"
      "out = Existing (pr_id r) (pr_session_id r) (pr_status r)" "d' = d"
      "visible sc d (np_org_id req)"
  | (inserted) s root sext dext where "out = Inserted i s Pending"
      "d' = d\<lparr>sessions := sessions d @ sext,
              prompt_requests := prompt_requests d @ [request_row req i s root tp now],
              prompt_request_dags := prompt_request_dags d @ dext\<rparr>"
      "\<forall>r \<in> set (prompt_requests d). pr_id r \<noteq> i \<and>
          \<not> (pr_org_id r = np_org_id req \<and> pr_idempotency_key r = np_idempotency_key req)"
      "visible sc d (np_org_id req)"
      "np_receiver_agent_id req \<in> set (agents d)"
      "(\<exists>row. np_session req = Some s \<and> sext = [] \<and> dext = [] \<and> row \<in> set (sessions d) \<and> ses_id row = s \<and>
          ses_root_request_id row = root \<and> (\<exists>row'. session_of d s = Some row' \<and> ses_org_id row' = np_org_id req)) \<or>
       (\<exists>row. np_session req = None \<and> s = ns \<and> root = i \<and> sext = [row] \<and> ses_id row = ns \<and>
          ses_org_id row = np_org_id req \<and> ses_root_request_id row = i \<and>
          ses_created_by_user_id row = np_created_by_user_id req \<and>
          (\<forall>r \<in> set (sessions d). ses_id r \<noteq> ns) \<and>
          (\<forall>r \<in> set (prompt_request_dags d). dag_root r \<noteq> i) \<and>
          dext = [\<lparr>dag_root = i, dag_org_id = np_org_id req, dag_turns_used = 0,
                   dag_turns_cap = MAX_DAG_TURNS, dag_created_at = now\<rparr>])"
proof (cases "read_idempotent sc (np_org_id req) (np_idempotency_key req) d")
  case (Some ex)
  with assms show ?thesis
    by (auto simp: enqueue_in_tx_def read_idempotent_def split: if_splits dest!: find_SomeD
          intro: existing)
next
  case None
  from assms None obtain sr d1 d2 where
    rs: "resolve_session sc req (enqueue_receiver req) i now ns d = (Ok sr, d1)"
    and ip: "insert_prompt_request sc req i (sr_session sr) (sr_root_request_id sr) tp now d1 = (Ok (), d2)"
    and sd: "(if sr_is_new_session sr then seed_dag_row (sr_root_request_id sr) (np_org_id req) now d2
              else (Ok (), d2)) = (Ok (), d')"
    and out: "out = Inserted i (sr_session sr) Pending"
    by (auto simp: enqueue_in_tx_def tx_bind_Ok_iff enforce_pending_cap_def split: if_splits)
  from ip have
    d2: "d2 = d1\<lparr>prompt_requests := prompt_requests d1 @
            [request_row req i (sr_session sr) (sr_root_request_id sr) tp now]\<rparr>"
    and so: "\<exists>row'. session_of d1 (sr_session sr) = Some row' \<and> ses_org_id row' = np_org_id req"
    and vis: "visible sc d1 (np_org_id req)"
    and fresh: "\<forall>r \<in> set (prompt_requests d1). pr_id r \<noteq> i \<and>
          \<not> (pr_org_id r = np_org_id req \<and> pr_idempotency_key r = np_idempotency_key req)"
    and ag: "np_receiver_agent_id req \<in> set (agents d1)"
    by (auto simp: insert_prompt_request_def Let_def split: if_splits option.splits)
  show ?thesis
  proof (cases "np_session req")
    case (Some s)
    with rs have sr: "sr_session sr = s" "\<not> sr_is_new_session sr" "d1 = d"
      and row: "\<exists>row \<in> set (sessions d). ses_id row = s \<and> ses_root_request_id row = sr_root_request_id sr"
      by (auto simp: resolve_session_def split: option.splits dest!: find_SomeD)
    show ?thesis
      by (rule inserted [where s = s and sext = "[]" and root = "sr_root_request_id sr" and dext = "[]"])
         (use out d2 sd sr fresh vis ag so row Some in auto)
  next
    case None
    with rs obtain row where sr: "sr_session sr = ns" "sr_root_request_id sr = i" "sr_is_new_session sr"
      and d1: "d1 = d\<lparr>sessions := sessions d @ [row]\<rparr>"
      and row: "ses_id row = ns" "ses_org_id row = np_org_id req" "ses_root_request_id row = i"
        "ses_created_by_user_id row = np_created_by_user_id req"
        "\<forall>r \<in> set (sessions d). ses_id r \<noteq> ns"
      by (auto simp: resolve_session_def tx_bind_Ok_iff elim!: create_session_row_Ok)
    let ?dag = "\<lparr>dag_root = i, dag_org_id = np_org_id req, dag_turns_used = 0,
                   dag_turns_cap = MAX_DAG_TURNS, dag_created_at = now\<rparr>"
    from sd sr d1 d2 have d': "d' = d2\<lparr>prompt_request_dags := prompt_request_dags d @ [?dag]\<rparr>"
      and nodag: "\<forall>r \<in> set (prompt_request_dags d). dag_root r \<noteq> i"
      by (auto simp: seed_dag_row_def split: if_splits)
    have "visible sc d1 (np_org_id req) = visible sc d (np_org_id req)"
      by (rule visible_cong) (simp add: d1)
    then show ?thesis
      by (intro inserted [where s = ns and sext = "[row]" and root = i and dext = "[?dag]"])
         (use out d2 d' d1 sr fresh vis ag row nodag None in auto)
  qed
qed

end
