(* ===== verification/Dag_Budget.thy ===== *)
theory Dag_Budget
  imports Queue_Lemmas
begin

text \<open>
  The DAG turn budget of \<open>src/runtime/dag.rs\<close>: \<open>bump_or_fail\<close> in its privileged and tenant
  forms, and the quiescence test. The budget row is seeded by \<open>enqueue\<close> with
  \<open>MAX_DAG_TURNS\<close>; the theory shows that exactly the remaining budget many bumps can succeed.
\<close>

record budget_bumped =
  bb_turns_used :: nat
  bb_turns_cap :: nat

definition u32_or_invariant :: "nat \<Rightarrow> (prompt_error, nat) outcome" where
  "u32_or_invariant raw = (if raw < 2 ^ 32 then Ok raw else Panic ''fits in u32'')"

definition bump_or_fail_in_tx ::
  "scope \<Rightarrow> prompt_request_id \<Rightarrow> db \<Rightarrow> (prompt_error, budget_bumped) outcome \<times> db" where
  "bump_or_fail_in_tx sc root d =
     (let hit = (\<lambda>r. dag_root r = root \<and> dag_turns_used r < dag_turns_cap r \<and>
                     visible sc d (dag_org_id r)) in
      case find hit (prompt_request_dags d) of
        Some r \<Rightarrow>
          (and_then (u32_or_invariant (dag_turns_used r + 1))
             (\<lambda>used. and_then (u32_or_invariant (dag_turns_cap r))
                (\<lambda>cap. Ok \<lparr>bb_turns_used = used, bb_turns_cap = cap\<rparr>)),
           d\<lparr>prompt_request_dags :=
               update_where hit (\<lambda>r. r\<lparr>dag_turns_used := dag_turns_used r + 1\<rparr>)
                 (prompt_request_dags d)\<rparr>)
      | None \<Rightarrow>
          (case find (\<lambda>r. dag_root r = root \<and> visible sc d (dag_org_id r)) (prompt_request_dags d) of
             Some r \<Rightarrow>
               (and_then (u32_or_invariant (dag_turns_used r))
                  (\<lambda>used. and_then (u32_or_invariant (dag_turns_cap r))
                     (\<lambda>cap. Err (DagBudgetExceeded root used cap))), d)
           | None \<Rightarrow> (Err (DagNotFound root), d)))"

definition bump_or_fail :: "prompt_request_id \<Rightarrow> db \<Rightarrow> (prompt_error, budget_bumped) outcome \<times> db" where
  "bump_or_fail root d = bump_or_fail_in_tx Privileged root d"

definition bump_or_fail_for_user ::
  "user_id \<Rightarrow> prompt_request_id \<Rightarrow> db \<Rightarrow> (prompt_error, budget_bumped) outcome \<times> db" where
  "bump_or_fail_for_user u root d = bump_or_fail_in_tx (AsUser u) root d"

definition quiescent :: "prompt_request_id \<Rightarrow> db \<Rightarrow> (prompt_error, bool) outcome" where
  "quiescent root d =
     Ok (\<not> (\<exists>r \<in> set (prompt_requests d). pr_root_request_id r = root \<and>
               (pr_status r = Pending \<or> pr_status r = Processing)))"

section \<open>The budget row\<close>

definition dag_of :: "db \<Rightarrow> prompt_request_id \<Rightarrow> dag_row option" where
  "dag_of d root = find (\<lambda>r. dag_root r = root) (prompt_request_dags d)"

lemma dag_tables:
  "d' = snd (bump_or_fail_in_tx sc root d) \<Longrightarrow> d' = d\<lparr>prompt_request_dags := prompt_request_dags d'\<rparr>"
  by (auto simp: bump_or_fail_in_tx_def Let_def split: option.splits)

lemma find_conj_unique:
  assumes "distinct (map g rows)"
  shows "find (\<lambda>r. g r = k \<and> P r) rows =
     (case find (\<lambda>r. g r = k) rows of None \<Rightarrow> None | Some r \<Rightarrow> if P r then Some r else None)"
  using assms by (induction rows) (auto split: option.splits dest!: find_SomeD)

lemma update_where_conj_unique:
  assumes "distinct (map g rows)" "find (\<lambda>r. g r = k) rows = Some r" "P r" "\<And>r. g (f r) = g r"
  shows "find (\<lambda>r. g r = k) (update_where (\<lambda>r. g r = k \<and> P r) f rows) = Some (f r)"
  using assms by (simp add: find_update_where) (use find_SomeD [OF assms(2)] in simp)

text \<open>
  One bump on a visible row: below the cap it takes one unit, at the cap it fails and
  changes nothing.
\<close>

lemma bump_step:
  assumes "distinct (map dag_root (prompt_request_dags d))" and "dag_of d root = Some r"
    and "visible sc d (dag_org_id r)" and "dag_turns_cap r < 2 ^ 32"
  shows "dag_turns_used r < dag_turns_cap r \<Longrightarrow>
     \<exists>d'. bump_or_fail_in_tx sc root d =
            (Ok \<lparr>bb_turns_used = Suc (dag_turns_used r), bb_turns_cap = dag_turns_cap r\<rparr>, d') \<and>
          dag_of d' root = Some (r\<lparr>dag_turns_used := Suc (dag_turns_used r)\<rparr>) \<and>
          map dag_root (prompt_request_dags d') = map dag_root (prompt_request_dags d) \<and>
          org_members d' = org_members d"
    and "dag_turns_used r = dag_turns_cap r \<Longrightarrow>
     bump_or_fail_in_tx sc root d = (Err (DagBudgetExceeded root (dag_turns_used r) (dag_turns_cap r)), d)"
proof -
  note uniq = find_conj_unique [OF assms(1)]
  show "\<exists>d'. bump_or_fail_in_tx sc root d =
            (Ok \<lparr>bb_turns_used = Suc (dag_turns_used r), bb_turns_cap = dag_turns_cap r\<rparr>, d') \<and>
          dag_of d' root = Some (r\<lparr>dag_turns_used := Suc (dag_turns_used r)\<rparr>) \<and>
          map dag_root (prompt_request_dags d') = map dag_root (prompt_request_dags d) \<and>
          org_members d' = org_members d"
    if "dag_turns_used r < dag_turns_cap r"
    using that assms update_where_conj_unique [OF assms(1) assms(2) [unfolded dag_of_def],
        of "\<lambda>r. dag_turns_used r < dag_turns_cap r \<and> visible sc d (dag_org_id r)"
           "\<lambda>r. r\<lparr>dag_turns_used := Suc (dag_turns_used r)\<rparr>"]
    by (simp add: bump_or_fail_in_tx_def Let_def uniq dag_of_def u32_or_invariant_def map_update_where)
  show "bump_or_fail_in_tx sc root d =
          (Err (DagBudgetExceeded root (dag_turns_used r) (dag_turns_cap r)), d)"
    if "dag_turns_used r = dag_turns_cap r"
    using that assms
    by (simp add: bump_or_fail_in_tx_def Let_def uniq dag_of_def u32_or_invariant_def)
qed

text \<open>\<open>n\<close> bumps in a row, keeping their results.\<close>

fun bumps :: "nat \<Rightarrow> scope \<Rightarrow> prompt_request_id \<Rightarrow> db \<Rightarrow> (prompt_error, budget_bumped) outcome list \<times> db" where
  "bumps 0 sc root d = ([], d)"
| "bumps (Suc n) sc root d =
     (case bump_or_fail_in_tx sc root d of
        (r, d') \<Rightarrow> (case bumps n sc root d' of (rs, d'') \<Rightarrow> (r # rs, d'')))"

lemma bumps_grant:
  assumes "distinct (map dag_root (prompt_request_dags d))" and "dag_of d root = Some r"
    and "visible sc d (dag_org_id r)" and "dag_turns_cap r < 2 ^ 32"
    and "dag_turns_used r \<le> dag_turns_cap r"
  shows "length (filter is_Ok (fst (bumps n sc root d))) = min n (dag_turns_cap r - dag_turns_used r)"
  using assms
proof (induction n arbitrary: d r)
  case 0
  then show ?case by simp
next
  case (Suc n)
  show ?case
  proof (cases "dag_turns_used r < dag_turns_cap r")
    case True
    with bump_step(1) [OF Suc.prems(1-4) True] obtain d' where
      b: "bump_or_fail_in_tx sc root d =
            (Ok \<lparr>bb_turns_used = Suc (dag_turns_used r), bb_turns_cap = dag_turns_cap r\<rparr>, d')"
      and d': "dag_of d' root = Some (r\<lparr>dag_turns_used := Suc (dag_turns_used r)\<rparr>)"
        "map dag_root (prompt_request_dags d') = map dag_root (prompt_request_dags d)"
        "org_members d' = org_members d" by blast
    have v: "visible sc d' (dag_org_id r)"
      using Suc.prems(3) visible_cong [OF d'(3), of sc "dag_org_id r"] by simp
    have "length (filter is_Ok (fst (bumps n sc root d'))) =
            min n (dag_turns_cap r - Suc (dag_turns_used r))"
      using Suc.IH [of d' "r\<lparr>dag_turns_used := Suc (dag_turns_used r)\<rparr>"] Suc.prems d' v True by simp
    with b True show ?thesis
      by (cases "bumps n sc root d'") (simp add: min_def, linarith?)
  next
    case False
    with Suc.prems(5) have eq: "dag_turns_used r = dag_turns_cap r" by simp
    with bump_step(2) [OF Suc.prems(1-4) eq] Suc.IH [OF Suc.prems] show ?thesis
      by (cases "bumps n sc root d") simp
  qed
qed

lemma quiescent_iff:
  "quiescent root d = Ok True \<longleftrightarrow>
     (\<forall>r \<in> set (prompt_requests d). pr_root_request_id r = root \<longrightarrow> is_terminal (pr_status r))"
  by (auto simp: quiescent_def elim: is_terminal.elims) (metis is_terminal.simps request_status.exhaust)+

text \<open>C13. The budget caps a conversation tree: of any number of \<open>send_message\<close> bumps on a DAG the
  acting user may see, exactly the remaining budget many succeed, every other one fails.\<close>

theorem dag_budget_exact:
  assumes "distinct (map dag_root (prompt_request_dags d))" and "dag_of d root = Some r"
    and "visible (AsUser u) d (dag_org_id r)" and "dag_turns_cap r < 2 ^ 32"
    and "dag_turns_used r \<le> dag_turns_cap r"
  shows "length (filter is_Ok (fst (bumps n (AsUser u) root d))) =
           min n (dag_turns_cap r - dag_turns_used r)"
  by (rule bumps_grant [OF assms])

definition budget_example :: db where
  "budget_example = empty_db\<lparr>org_members := [(7, 3)],
     prompt_request_dags := [\<lparr>dag_root = 1, dag_org_id = 3, dag_turns_used = 62,
       dag_turns_cap = MAX_DAG_TURNS, dag_created_at = 0\<rparr>]\<rparr>"

theorem dag_budget_exact_witness:
  "length (filter is_Ok (fst (bumps 5 (AsUser 7) 1 budget_example))) = 2"
proof -
  have "length (filter is_Ok (fst (bumps 5 (AsUser 7) 1 budget_example))) = min 5 (64 - 62)"
    using dag_budget_exact [of budget_example 1
        "\<lparr>dag_root = 1, dag_org_id = 3, dag_turns_used = 62, dag_turns_cap = MAX_DAG_TURNS,
          dag_created_at = 0\<rparr>" 7 5]
    by (simp add: budget_example_def dag_of_def MAX_DAG_TURNS_def empty_db_def)
  then show ?thesis by simp
qed

end
