(* ===== verification/Relay_Systems.thy ===== *)
theory Relay_Systems
  imports Main
begin

text \<open>
  Two interfaces every stateful component of the development offers, with what a client
  derives from them. \<open>preserving\<close> is an invariant kept by a step relation. \<open>fenced\<close> is a
  fencing counter: a token is handed out with a number above everything seen so far, so a
  token that was lost once can never become valid again. The components interpret them on
  their own step relations.
\<close>

locale preserving =
  fixes step :: "'s \<Rightarrow> 's \<Rightarrow> bool" and inv :: "'s \<Rightarrow> bool"
  assumes step_inv: "inv s \<Longrightarrow> step s s' \<Longrightarrow> inv s'"
begin

lemma run_inv: "step\<^sup>*\<^sup>* s s' \<Longrightarrow> inv s \<Longrightarrow> inv s'"
  by (induction rule: rtranclp_induct) (auto intro: step_inv)

lemma run_stable:
  assumes "step\<^sup>*\<^sup>* s s'" and "inv s" and "P s"
    and "\<And>a b. inv a \<Longrightarrow> step a b \<Longrightarrow> P a \<Longrightarrow> P b"
  shows "P s'"
proof -
  from assms(1) have "inv s' \<and> P s'"
    by (induction rule: rtranclp_induct) (use assms(2-) step_inv in blast)+
  then show ?thesis ..
qed

end

locale fenced = preserving step inv
  for step :: "'s \<Rightarrow> 's \<Rightarrow> bool" and inv :: "'s \<Rightarrow> bool" +
  fixes counter :: "'s \<Rightarrow> 'k \<Rightarrow> nat"
    and holds :: "'s \<Rightarrow> 't \<Rightarrow> bool"
    and key :: "'t \<Rightarrow> 'k"
    and number :: "'t \<Rightarrow> nat"
  assumes counter_mono: "inv s \<Longrightarrow> step s s' \<Longrightarrow> counter s k \<le> counter s' k"
    and handed_out_fresh:
      "inv s \<Longrightarrow> step s s' \<Longrightarrow> holds s' t \<Longrightarrow> \<not> holds s t \<Longrightarrow> counter s (key t) < number t"
begin

definition lost :: "'s \<Rightarrow> 't \<Rightarrow> bool" where
  "lost s t \<longleftrightarrow> \<not> holds s t \<and> number t \<le> counter s (key t)"

lemma lost_step: "inv s \<Longrightarrow> step s s' \<Longrightarrow> lost s t \<Longrightarrow> lost s' t"
  using counter_mono [of s s' "key t"] handed_out_fresh [of s s' t] by (force simp: lost_def)

lemma lost_forever: "step\<^sup>*\<^sup>* s s' \<Longrightarrow> inv s \<Longrightarrow> lost s t \<Longrightarrow> lost s' t"
  by (rule run_stable) (auto intro: lost_step)

lemma not_held_again:
  assumes "step\<^sup>*\<^sup>* s s'" and "inv s" and "\<not> holds s t" and "number t \<le> counter s (key t)"
  shows "\<not> holds s' t"
  using lost_forever [OF assms(1,2)] assms(3,4) by (simp add: lost_def)

end

end
