(* ===== verification/Queue_Invariants.thy ===== *)
theory Queue_Invariants
  imports Dag_Budget Relay_Systems
begin

text \<open>
  The queue as a state machine: any number of workers, producers and HTTP handlers issuing the
  operations of \<open>PromptQueue\<close>, \<open>LeaseManager\<close> and \<open>DagBudget\<close> in any order, with
  any token or receipt, at any clock reading. The theory proves the invariant of its tables and
  the guarantees the trait documentation of \<open>src/runtime/queue.rs\<close> promises.
\<close>

section \<open>The invariant\<close>

definition keys_ok :: "db \<Rightarrow> bool" where
  "keys_ok d \<longleftrightarrow>
     distinct (map pr_id (prompt_requests d)) \<and>
     distinct (map (\<lambda>r. (pr_org_id r, pr_idempotency_key r)) (prompt_requests d)) \<and>
     distinct (map sl_session_id (session_leases d)) \<and>
     distinct (map ses_id (sessions d)) \<and>
     distinct (map dag_root (prompt_request_dags d))"

definition row_ok :: "queue_cfg \<Rightarrow> db \<Rightarrow> prompt_request \<Rightarrow> bool" where
  "row_ok q d r \<longleftrightarrow>
     pr_attempts r \<le> q_max_attempts q \<and>
     (pr_status r = Pending \<longrightarrow> pr_attempts r < q_max_attempts q) \<and>
     (pr_failure_reason r \<noteq> None \<longleftrightarrow> pr_status r = Failed) \<and>
     pr_attempts r \<le> pr_turn_seq r \<and>
     pr_turn_seq r \<le> seq_of d (pr_session_id r) \<and>
     pr_kind r = payload_kind (pr_kind_payload r) \<and>
     (\<exists>s \<in> set (sessions d). ses_id s = pr_session_id r \<and> ses_org_id s = pr_org_id r \<and>
        ses_root_request_id s = pr_root_request_id r)"

definition lease_ok :: "db \<Rightarrow> session_lease \<Rightarrow> bool" where
  "lease_ok d l \<longleftrightarrow>
     1 \<le> sl_turn_seq l \<and> sl_turn_seq l \<le> seq_of d (sl_session_id l) \<and>
     (\<forall>r \<in> set (prompt_requests d).
        pr_session_id r = sl_session_id l \<and> pr_status r = Pending \<longrightarrow> pr_turn_seq r < sl_turn_seq l)"

definition dag_ok :: "dag_row \<Rightarrow> bool" where
  "dag_ok g \<longleftrightarrow> dag_turns_used g \<le> dag_turns_cap g \<and> dag_turns_cap g = MAX_DAG_TURNS"

definition queue_inv :: "queue_cfg \<Rightarrow> db \<Rightarrow> bool" where
  "queue_inv q d \<longleftrightarrow> keys_ok d \<and>
     (\<forall>r \<in> set (prompt_requests d). row_ok q d r) \<and>
     (\<forall>l \<in> set (session_leases d). lease_ok d l) \<and>
     (\<forall>g \<in> set (prompt_request_dags d). dag_ok g)"

lemma queue_invI:
  assumes "keys_ok d" and "\<And>r. r \<in> set (prompt_requests d) \<Longrightarrow> row_ok q d r"
    and "\<And>l. l \<in> set (session_leases d) \<Longrightarrow> lease_ok d l"
    and "\<And>g. g \<in> set (prompt_request_dags d) \<Longrightarrow> dag_ok g"
  shows "queue_inv q d"
  using assms by (simp add: queue_inv_def)

lemma queue_invD:
  assumes "queue_inv q d"
  shows "keys_ok d" and "r \<in> set (prompt_requests d) \<Longrightarrow> row_ok q d r"
    and "l \<in> set (session_leases d) \<Longrightarrow> lease_ok d l"
    and "g \<in> set (prompt_request_dags d) \<Longrightarrow> dag_ok g"
  using assms by (simp_all add: queue_inv_def)

lemma row_ok_mono:
  assumes "row_ok q d r" and "\<And>s. seq_of d s \<le> seq_of d' s" and "set (sessions d) \<subseteq> set (sessions d')"
  shows "row_ok q d' r"
  using assms(1) assms(2) [of "pr_session_id r"] assms(3) by (fastforce simp: row_ok_def)

lemma seq_of_update [simp]:
  "seq_of (d\<lparr>session_leases := ls\<rparr>) = seq_of d"
  "seq_of (d\<lparr>prompt_requests := rs\<rparr>) = seq_of d"
  "seq_of (d\<lparr>sessions := ss\<rparr>) = seq_of d"
  "seq_of (d\<lparr>prompt_request_dags := gs\<rparr>) = seq_of d"
  by (simp_all add: seq_of_def fun_eq_iff)

lemma empty_db_inv: "queue_inv q empty_db"
  by (simp add: queue_inv_def keys_ok_def empty_db_def)

section \<open>Every operation keeps it\<close>

lemma reset_row_status:
  "pr_status (reset_row q now r) = (if q_max_attempts q \<le> pr_attempts r then Failed else Pending)"
  "pr_failure_reason (reset_row q now r) = (if q_max_attempts q \<le> pr_attempts r then Some Poison else None)"
  by (simp_all add: reset_row_def)

lemma row_ok_reset: "row_ok q d r \<Longrightarrow> row_ok q d (reset_row q now r)"
  by (auto simp: row_ok_def reset_row_status)

lemma row_ok_drain:
  assumes "row_ok q d r" and "pr_status r = Pending" and "seq = Suc (seq_of d (pr_session_id r))"
    and "\<And>s. seq_of d' s = (if s = pr_session_id r then seq else seq_of d s)"
    and "sessions d' = sessions d"
  shows "row_ok q d' (drain_row seq now r)"
  using assms by (auto simp: row_ok_def)

lemma live_not_orphan:
  assumes "keys_ok d" and "l \<in> set (session_leases d)" and "now < sl_leased_until l"
    and "sl_session_id l = pr_session_id r"
  shows "\<not> orphan_in d now r"
proof
  assume "orphan_in d now r"
  then obtain l' where "l' \<in> set (session_leases d)" "sl_leased_until l' \<le> now"
    "sl_session_id l' = sl_session_id l"
    using assms(4) by (auto simp: orphan_in_def orphaned_def)
  with assms show False by (auto simp: keys_ok_def dest: distinct_map_eqD)
qed

lemma not_orphan_kept:
  "r \<in> set (prompt_requests d) \<Longrightarrow> \<not> orphan_in d now r \<Longrightarrow> r \<in> set (prompt_requests (reset_orphans q now d))"
  by (force simp: reset_orphans_requests row_simps)

lemma inv_reset_orphans:
  assumes "queue_inv q d"
  shows "queue_inv q (reset_orphans q now d)"
proof (rule queue_invI)
  let ?d = "reset_orphans q now d"
  note k = queue_invD(1) [OF assms]
  have sq: "seq_of ?d = seq_of d" by (rule seq_of_cong) simp
  show "keys_ok ?d"
    using k by (auto simp: keys_ok_def reset_orphans_requests map_update_where intro: distinct_map_filter)
  show "row_ok q ?d r" if "r \<in> set (prompt_requests ?d)" for r
  proof -
    have "row_ok q d r"
      using that queue_invD(2) [OF assms] row_ok_reset by (auto simp: reset_orphans_requests row_simps)
    then show ?thesis by (rule row_ok_mono) (simp_all add: sq)
  qed
  show "lease_ok ?d l" if "l \<in> set (session_leases ?d)" for l
  proof -
    from that have l: "l \<in> set (session_leases d)" "now < sl_leased_until l" by auto
    have "\<And>r. pr_session_id r = sl_session_id l \<Longrightarrow> \<not> orphan_in d now r"
      using live_not_orphan [OF k l] by simp
    with queue_invD(3) [OF assms l(1)] show ?thesis
      by (auto simp: lease_ok_def sq reset_orphans_requests row_simps)
  qed
  show "dag_ok g" if "g \<in> set (prompt_request_dags ?d)" for g
    using that queue_invD(4) [OF assms] by simp
qed

lemma seq_of_claimed_db:
  assumes "seq_of d s < i64_max"
  shows "seq_of (claimed_db q w now s org d) t = (if t = s then Suc (seq_of d s) else seq_of d t)"
proof -
  from bump_turn_seq_below_max [OF assms] obtain d' where
    b: "bump_turn_seq s org d = (Ok (Suc (seq_of d s)), d')" by blast
  show ?thesis by (rule seq_of_bump [OF b]) (simp add: claimed_db_def b)
qed

lemma seq_of_taken_db:
  "seq_of d s < i64_max \<Longrightarrow> seq_of (taken_db q w now s org d) t = (if t = s then Suc (seq_of d s) else seq_of d t)"
  by (simp add: taken_db_def seq_of_claimed_db)

lemma in_taken_leases:
  assumes "l \<in> set (taken_leases q w now s org d)"
  shows "if sl_session_id l = s then sl_worker_id l = w \<and> sl_turn_seq l = Suc (seq_of d s) else l \<in> set (session_leases d)"
  using assms by (auto simp: taken_leases_def row_simps split: if_splits)

lemma inv_taken_db:
  assumes inv: "queue_inv q d" and lt: "seq_of d s < i64_max"
  shows "queue_inv q (taken_db q w now s org d)"
proof (rule queue_invI)
  let ?d = "taken_db q w now s org d"
  let ?f = "drain_row (Suc (seq_of d s)) now"
  note sq = seq_of_taken_db [OF lt, of q w now org]
  have rows: "prompt_requests ?d = update_where (drainable s) ?f (prompt_requests d)"
    and ls: "session_leases ?d = taken_leases q w now s org d"
    and ses: "sessions ?d = sessions d" and dags: "prompt_request_dags ?d = prompt_request_dags d"
    by (simp_all add: taken_db_def claimed_db_def)
  have "distinct (map sl_session_id (taken_leases q w now s org d))"
    using queue_invD(1) [OF inv] by (auto simp: keys_ok_def taken_leases_def map_update_where)
  then show "keys_ok ?d"
    using queue_invD(1) [OF inv] by (simp add: keys_ok_def rows ls ses dags map_update_where)
  show "row_ok q ?d r" if "r \<in> set (prompt_requests ?d)" for r
  proof -
    from that obtain p where p: "p \<in> set (prompt_requests d)"
      and r: "r = (if drainable s p then ?f p else p)" by (auto simp: rows row_simps)
    from queue_invD(2) [OF inv p] have ok: "row_ok q d p" .
    show ?thesis
    proof (cases "drainable s p")
      case True
      then have s: "pr_session_id p = s" and pend: "pr_status p = Pending"
        by (simp_all add: drainable_def)
      have "row_ok q ?d (?f p)"
        by (rule row_ok_drain [OF ok pend]) (simp_all add: s sq ses)
      with True r show ?thesis by simp
    next
      case False
      with r ok show ?thesis by (auto simp: sq ses intro: row_ok_mono)
    qed
  qed
  show "lease_ok ?d l" if "l \<in> set (session_leases ?d)" for l
  proof (cases "sl_session_id l = s")
    case False
    with in_taken_leases [OF that [unfolded ls]] have "l \<in> set (session_leases d)" by simp
    from queue_invD(3) [OF inv this] False show ?thesis
      by (auto simp: lease_ok_def sq rows row_simps drainable_def)
  next
    case True
    with in_taken_leases [OF that [unfolded ls]] have "sl_turn_seq l = Suc (seq_of d s)" by simp
    with True show ?thesis by (auto simp: lease_ok_def sq rows row_simps drainable_def)
  qed
  show "dag_ok g" if "g \<in> set (prompt_request_dags ?d)" for g
    using that queue_invD(4) [OF inv] by (simp add: dags)
qed

lemma seq_of_lost:
  assumes "seq_of d s < i64_max"
  shows "seq_of (d\<lparr>session_turn_seq := session_turn_seq (snd (bump_turn_seq s org d))\<rparr>) t = (if t = s then Suc (seq_of d s) else seq_of d t)"
proof -
  from bump_turn_seq_below_max [OF assms] obtain d' where
    b: "bump_turn_seq s org d = (Ok (Suc (seq_of d s)), d')" by blast
  show ?thesis by (rule seq_of_bump [OF b]) (simp add: b)
qed

lemma inv_claim_tx:
  assumes inv: "queue_inv q d" and tx: "claim_tx q w now s org d = (res, d')"
  shows "queue_inv q d'"
proof (cases rule: claim_tx_cases [where d = d and s = s and q = q and w = w and now = now and org = org])
  case overflow
  with inv tx show ?thesis by simp
next
  case (lost l)
  with tx have d': "d' = d\<lparr>session_turn_seq := session_turn_seq (snd (bump_turn_seq s org d))\<rparr>" by simp
  have sq: "seq_of d t \<le> seq_of d' t" for t by (simp add: d' seq_of_lost [OF lost(1)])
  have "row_ok q d' r" if "r \<in> set (prompt_requests d)" for r
    by (rule row_ok_mono [of q d]) (use queue_invD(2) [OF inv that] sq in \<open>simp_all add: d'\<close>)
  moreover have "lease_ok d' l" if "l \<in> set (session_leases d)" for l
    using queue_invD(3) [OF inv that] sq [of "sl_session_id l"] by (auto simp: lease_ok_def d' intro: order_trans)
  ultimately show ?thesis using queue_invD(1,4) [OF inv]
    by (intro queue_invI) (simp_all add: d' keys_ok_def)
next
  case taken
  with tx have "d' = taken_db q w now s org d" by simp
  with inv_taken_db [OF inv taken(1)] show ?thesis by simp
qed

lemma inv_enqueue_in_tx:
  assumes inv: "queue_inv q d" and pos: "0 < q_max_attempts q"
    and enq: "enqueue_in_tx q sc req now i ns tp d = (Ok out, d')"
  shows "queue_inv q d'"
  using enq
proof (cases rule: enqueue_in_tx_cases)
  case (existing r)
  with inv show ?thesis by simp
next
  case (inserted s root sext dext)
  note k = queue_invD(1) [OF inv]
  have sq: "seq_of d' = seq_of d" by (rule seq_of_cong) (simp add: inserted(2))
  have fresh: "\<forall>r \<in> set (prompt_requests d). pr_id r \<noteq> i"
    "\<forall>r \<in> set (prompt_requests d). (pr_org_id r, pr_idempotency_key r) \<noteq> (np_org_id req, np_idempotency_key req)"
    using inserted(3) by auto
  have own: "\<exists>row \<in> set (sessions d'). ses_id row = s \<and> ses_org_id row = np_org_id req \<and>
      ses_root_request_id row = root"
    using inserted(6) k unfolding inserted(2)
    by (auto simp: keys_ok_def dest!: session_of_SomeD dest: distinct_map_eqD)
  have dags: "\<forall>g \<in> set dext. dag_ok g" using inserted(6) by (auto simp: dag_ok_def)
  show ?thesis
  proof (rule queue_invI)
    show "keys_ok d'"
      using k fresh inserted(6) by (auto simp: keys_ok_def inserted(2) request_row_def)
    show "row_ok q d' r" if "r \<in> set (prompt_requests d')" for r
    proof (cases "r \<in> set (prompt_requests d)")
      case True
      from queue_invD(2) [OF inv True] show ?thesis
        by (rule row_ok_mono) (auto simp: sq inserted(2))
    next
      case False
      with that have "r = request_row req i s root tp now" by (simp add: inserted(2))
      with own pos show ?thesis by (simp add: row_ok_def request_row_def)
    qed
    show "lease_ok d' l" if "l \<in> set (session_leases d')" for l
    proof -
      from that have "lease_ok d l" using queue_invD(3) [OF inv] by (simp add: inserted(2))
      then show ?thesis by (auto simp: lease_ok_def sq inserted(2) request_row_def)
    qed
    show "dag_ok g" if "g \<in> set (prompt_request_dags d')" for g
      using that dags queue_invD(4) [OF inv] by (auto simp: inserted(2))
  qed
qed

lemma finalisable_not_Pending:
  assumes "queue_inv q d" and "l \<in> set (session_leases d)" and "lease_matches (cr_lease rc) l"
    and "r \<in> set (prompt_requests d)" and "finalisable rc r"
  shows "pr_status r \<noteq> Pending"
  using queue_invD(3) [OF assms(1,2)] assms(3-) by (force simp: lease_ok_def lease_matches_def finalisable_def)

lemma finalise_row_fields [simp]:
  "pr_id (finalise_row f now r) = pr_id r"
  "pr_session_id (finalise_row f now r) = pr_session_id r"
  "pr_org_id (finalise_row f now r) = pr_org_id r"
  "pr_idempotency_key (finalise_row f now r) = pr_idempotency_key r"
  "pr_attempts (finalise_row f now r) = pr_attempts r"
  "pr_turn_seq (finalise_row f now r) = pr_turn_seq r"
  "pr_root_request_id (finalise_row f now r) = pr_root_request_id r"
  "pr_kind (finalise_row f now r) = pr_kind r"
  "pr_kind_payload (finalise_row f now r) = pr_kind_payload r"
  "pr_status (finalise_row f now r) = finalisation_status f"
  "pr_failure_reason (finalise_row f now r) = finalisation_reason f"
  by (simp_all add: finalise_row_def)

lemma finalisation_consistent [simp]:
  "finalisation_status f \<noteq> Pending" "is_terminal (finalisation_status f)"
  "finalisation_reason f \<noteq> None \<longleftrightarrow> finalisation_status f = Failed"
  by (cases f; simp)+

text \<open>An \<open>UPDATE\<close> of request rows that leaves keys, counters and pending rows alone.\<close>

lemma inv_update_rows:
  assumes inv: "queue_inv q d"
    and d': "d' = d\<lparr>prompt_requests := update_where P f (prompt_requests d)\<rparr>"
    and keys: "\<And>r. pr_id (f r) = pr_id r" "\<And>r. pr_org_id (f r) = pr_org_id r"
      "\<And>r. pr_idempotency_key (f r) = pr_idempotency_key r"
      "\<And>r. pr_session_id (f r) = pr_session_id r" "\<And>r. pr_turn_seq (f r) = pr_turn_seq r"
    and pend: "\<And>r. pr_status (f r) = Pending \<Longrightarrow> pr_status r = Pending"
    and ok: "\<And>r. r \<in> set (prompt_requests d) \<Longrightarrow> P r \<Longrightarrow> row_ok q d r \<Longrightarrow> row_ok q d (f r)"
  shows "queue_inv q d'"
proof (rule queue_invI)
  have sq: "seq_of d' = seq_of d" by (rule seq_of_cong) (simp add: d')
  show "keys_ok d'" using queue_invD(1) [OF inv] by (simp add: keys_ok_def d' map_update_where keys)
  show "row_ok q d' r" if "r \<in> set (prompt_requests d')" for r
  proof -
    have "row_ok q d r" using that queue_invD(2) [OF inv] ok by (auto simp: d' row_simps)
    then show ?thesis by (rule row_ok_mono) (simp_all add: sq d')
  qed
  show "lease_ok d' l" if "l \<in> set (session_leases d')" for l
    using that queue_invD(3) [OF inv, of l] by (auto simp: lease_ok_def sq d' row_simps keys dest: pend)
  show "dag_ok g" if "g \<in> set (prompt_request_dags d')" for g
    using that queue_invD(4) [OF inv] by (simp add: d')
qed

lemma inv_finalise:
  assumes "queue_inv q d" and "finalise rc f now d = (res, d')"
  shows "queue_inv q d'"
proof (cases "\<exists>l \<in> set (session_leases d). lease_matches (cr_lease rc) l")
  case True
  with assms(2) have d': "d' = d\<lparr>prompt_requests :=
      update_where (finalisable rc) (finalise_row f now) (prompt_requests d)\<rparr>"
    by (simp add: finalise_def)
  show ?thesis
    by (rule inv_update_rows [OF assms(1) d']) (use finalisation_consistent(3) in \<open>auto simp: row_ok_def\<close>)
next
  case False
  with assms show ?thesis by (simp add: finalise_def)
qed

lemma inv_cancel:
  assumes "queue_inv q d" and "request_cancellation i now d = (res, d')"
  shows "queue_inv q d'"
proof (cases "rows_affected (\<lambda>r. pr_id r = i) (prompt_requests d) = 0")
  case True
  with assms show ?thesis unfolding request_cancellation_def by (simp del: rows_affected_0)
next
  case False
  with assms(2) have d': "d' = d\<lparr>prompt_requests := update_where (\<lambda>r. pr_id r = i)
      (\<lambda>r. r\<lparr>pr_cancellation_requested := True, pr_updated_at := now\<rparr>) (prompt_requests d)\<rparr>"
    unfolding request_cancellation_def by (simp del: rows_affected_0)
  show ?thesis by (rule inv_update_rows [OF assms(1) d']) (auto simp: row_ok_def)
qed

text \<open>A change of the lease table that hands out no new token.\<close>

lemma inv_leases_subset:
  assumes inv: "queue_inv q d" and d': "d' = d\<lparr>session_leases := ls\<rparr>"
    and "distinct (map sl_session_id ls)"
    and sub: "\<And>l. l \<in> set ls \<Longrightarrow> \<exists>l' \<in> set (session_leases d). sl_session_id l' = sl_session_id l \<and>
                 sl_turn_seq l' = sl_turn_seq l"
  shows "queue_inv q d'"
proof (rule queue_invI)
  have sq: "seq_of d' = seq_of d" by (rule seq_of_cong) (simp add: d')
  show "keys_ok d'" using queue_invD(1) [OF inv] assms(3) by (simp add: keys_ok_def d')
  show "row_ok q d' r" if "r \<in> set (prompt_requests d')" for r
    by (rule row_ok_mono [of q d]) (use that queue_invD(2) [OF inv] in \<open>simp_all add: sq d'\<close>)
  show "lease_ok d' l" if l: "l \<in> set (session_leases d')" for l
  proof -
    from sub [of l] l obtain l' where l': "l' \<in> set (session_leases d)"
      "sl_session_id l' = sl_session_id l" "sl_turn_seq l' = sl_turn_seq l" by (auto simp: d')
    with queue_invD(3) [OF inv l'(1)] show ?thesis by (simp add: lease_ok_def sq d')
  qed
  show "dag_ok g" if "g \<in> set (prompt_request_dags d')" for g
    using that queue_invD(4) [OF inv] by (simp add: d')
qed

lemma inv_heartbeat:
  assumes "queue_inv q d" and "heartbeat q' t now d = (res, d')"
  shows "queue_inv q d'"
proof (cases "rows_affected (lease_matches t) (session_leases d) = 0")
  case True
  with assms show ?thesis unfolding heartbeat_def by (simp del: rows_affected_0)
next
  case False
  with assms(2) have d': "d' = d\<lparr>session_leases := update_where (lease_matches t)
      (\<lambda>l. l\<lparr>sl_leased_until := deadline q' now\<rparr>) (session_leases d)\<rparr>"
    unfolding heartbeat_def by (simp del: rows_affected_0)
  show ?thesis
    by (rule inv_leases_subset [OF assms(1) d'])
       (use queue_invD(1) [OF assms(1)] in
         \<open>auto simp: keys_ok_def map_update_where row_simps split: if_splits\<close>)
qed

lemma inv_release:
  assumes "queue_inv q d" and "release t d = (res, d')"
  shows "queue_inv q d'"
  by (rule inv_leases_subset [OF assms(1), where ls = "delete_where (lease_matches t) (session_leases d)"])
     (use assms queue_invD(1) [OF assms(1)] in
       \<open>auto simp: release_def keys_ok_def intro: distinct_map_delete_where\<close>)

lemma inv_bump:
  assumes inv: "queue_inv q d" and "bump_or_fail_in_tx sc root d = (res, d')"
  shows "queue_inv q d'"
proof -
  from assms(2) have d': "d' = d\<lparr>prompt_request_dags := prompt_request_dags d'\<rparr>"
    using dag_tables [of d' sc root d] by simp
  have sq: "seq_of d' = seq_of d" by (rule seq_of_cong) (subst d', simp)
  have same: "prompt_requests d' = prompt_requests d" "session_leases d' = session_leases d"
    "sessions d' = sessions d"
    by (subst d', simp)+
  have dags: "map dag_root (prompt_request_dags d') = map dag_root (prompt_request_dags d)"
    "\<forall>g \<in> set (prompt_request_dags d'). dag_ok g"
    using assms(2) queue_invD(4) [OF inv]
    by (force simp: bump_or_fail_in_tx_def Let_def row_simps dag_ok_def split: option.splits if_splits)+
  show ?thesis
  proof (rule queue_invI)
    show "keys_ok d'" using queue_invD(1) [OF inv] by (simp add: keys_ok_def same dags)
    show "row_ok q d' r" if "r \<in> set (prompt_requests d')" for r
      by (rule row_ok_mono [of q d]) (use that queue_invD(2) [OF inv] in \<open>simp_all add: sq same\<close>)
    show "lease_ok d' l" if "l \<in> set (session_leases d')" for l
      using that queue_invD(3) [OF inv, of l] by (simp add: lease_ok_def sq same)
  qed (use dags in blast)
qed


section \<open>The queue as a state machine\<close>

text \<open>
  One step is one transaction of a trait method, whatever it returns: a failing or panicking claim
  has still run its transactions. A claim is a sweep step, a scan that changes nothing, a take step
  and, for an empty batch, a release step; other callers come in between, so a take step may use any
  session as its candidate. Nothing ties the caller to the token it presents.
\<close>

inductive queue_step :: "queue_cfg \<Rightarrow> db \<Rightarrow> db \<Rightarrow> bool" for q where
  enqueue_step: "enqueue q req now i ns tp d = (res, d') \<Longrightarrow> queue_step q d d'"
| enqueue_for_user_step: "enqueue_for_user q u req now i ns tp d = (res, d') \<Longrightarrow> queue_step q d d'"
| sweep_step: "queue_step q d (reset_orphans q now d)"
| take_step: "claim_tx q w now s org d = (cres, d') \<Longrightarrow> queue_step q d d'"
| mark_done_step: "mark_done rc now d = (ures, d') \<Longrightarrow> queue_step q d d'"
| mark_failed_step: "mark_failed rc reason now d = (ures, d') \<Longrightarrow> queue_step q d d'"
| cancel_step: "request_cancellation i now d = (ures, d') \<Longrightarrow> queue_step q d d'"
| heartbeat_step: "heartbeat q t now d = (ures, d') \<Longrightarrow> queue_step q d d'"
| release_step: "release t d = (ures, d') \<Longrightarrow> queue_step q d d'"
| dag_bump_step: "bump_or_fail_in_tx sc root d = (bres, d') \<Longrightarrow> queue_step q d d'"

lemma run_tx_cases:
  assumes "run_tx f d = (res, d')"
  obtains (commit) v where "f d = (Ok v, d')" | (rollback) "d' = d"
  using assms by (auto simp: run_tx_def split: prod.splits outcome.splits)

lemma queue_step_inv:
  assumes "0 < q_max_attempts q" and "queue_step q d d'" and "queue_inv q d"
  shows "queue_inv q d'"
  using assms(2)
proof cases
  case (enqueue_step req now i ns tp res)
  then show ?thesis unfolding enqueue_def
    by (cases rule: run_tx_cases) (use assms inv_enqueue_in_tx in blast)+
next
  case (enqueue_for_user_step u req now i ns tp res)
  then show ?thesis unfolding enqueue_for_user_def
    by (cases rule: run_tx_cases) (use assms inv_enqueue_in_tx in blast)+
next
  case (sweep_step now)
  then show ?thesis using inv_reset_orphans [OF assms(3)] by simp
next
  case (take_step w now s org cres)
  then show ?thesis by (rule inv_claim_tx [OF assms(3)])
next
  case (mark_done_step rc now ures)
  then show ?thesis unfolding mark_done_def by (rule inv_finalise [OF assms(3)])
next
  case (mark_failed_step rc reason now ures)
  then show ?thesis unfolding mark_failed_def by (rule inv_finalise [OF assms(3)])
next
  case (cancel_step i now ures)
  then show ?thesis by (rule inv_cancel [OF assms(3)])
next
  case (heartbeat_step t now ures)
  then show ?thesis by (rule inv_heartbeat [OF assms(3)])
next
  case (release_step t ures)
  then show ?thesis by (rule inv_release [OF assms(3)])
next
  case (dag_bump_step sc root bres)
  then show ?thesis by (rule inv_bump [OF assms(3)])
qed

lemma no_attempts_default: "0 < q_max_attempts queue_new"
  by (simp add: queue_new_def MAX_ATTEMPTS_def)

text \<open>An uninterrupted claim is a run of such steps.\<close>

lemma claim_candidate_run:
  assumes "claim_candidate q w now s org user d = (res, d')"
  shows "(queue_step q)\<^sup>*\<^sup>* d d'"
proof -
  obtain r d1 where tx: "claim_tx q w now s org d = (r, d1)" by fastforce
  have one: "queue_step q d d1" using tx by (rule take_step)
  have "d' = d1 \<or> (\<exists>t. d' = snd (release t d1))"
    using assms tx by (auto simp: claim_candidate_def split: outcome.splits option.splits if_splits)
  moreover have "queue_step q d1 (snd (release t d1))" for t by (rule release_step) (rule prod.collapse [symmetric])
  ultimately show ?thesis using one by (metis converse_rtranclp_into_rtranclp r_into_rtranclp)
qed

lemma claim_run:
  assumes "claim_next_session q w now d = (res, d')"
  shows "(queue_step q)\<^sup>*\<^sup>* d d'"
proof (rule converse_rtranclp_into_rtranclp)
  show "queue_step q d (reset_orphans q now d)" by (rule sweep_step)
  show "(queue_step q)\<^sup>*\<^sup>* (reset_orphans q now d) d'"
    using assms claim_candidate_run
    by (auto simp: claim_next_session_def claim_in_tx_def split: option.splits)
qed

text \<open>What each step does to the lease table: only taking a candidate puts a new token there.\<close>

lemma claim_leases:
  assumes "claim_tx q w now s org d = (res, d')" and "l \<in> set (session_leases d')"
  shows "l \<in> set (session_leases d) \<or>
         (sl_turn_seq l = Suc (seq_of d (sl_session_id l)) \<and> sl_worker_id l = w)"
proof (cases rule: claim_tx_cases [where d = d and s = s and q = q and w = w and now = now and org = org])
  case taken
  with assms(1) have "d' = taken_db q w now s org d" by simp
  with assms(2) have "l \<in> set (taken_leases q w now s org d)" by (simp add: taken_db_def)
  from in_taken_leases [OF this] show ?thesis by (auto split: if_splits)
qed (use assms in auto)

lemma claim_seq_mono:
  assumes "claim_tx q w now s org d = (res, d')"
  shows "seq_of d t \<le> seq_of d' t"
proof (cases rule: claim_tx_cases [where d = d and s = s and q = q and w = w and now = now and org = org])
  case (lost l)
  with assms show ?thesis by (auto simp: seq_of_lost)
next
  case taken
  with assms show ?thesis by (auto simp: seq_of_taken_db)
qed (use assms in auto)

lemma enqueue_in_tx_leases:
  assumes "enqueue_in_tx q sc req now i ns tp d = (Ok out, d')"
  shows "session_leases d' = session_leases d \<and> session_turn_seq d' = session_turn_seq d"
  using assms by (cases rule: enqueue_in_tx_cases) auto

definition same_tokens :: "session_lease list \<Rightarrow> session_lease list \<Rightarrow> bool" where
  "same_tokens ls' ls \<longleftrightarrow>
     (\<forall>l \<in> set ls'. \<exists>l' \<in> set ls. sl_session_id l' = sl_session_id l \<and>
        sl_worker_id l' = sl_worker_id l \<and> sl_turn_seq l' = sl_turn_seq l)"

lemma same_tokens_subset: "set ls' \<subseteq> set ls \<Longrightarrow> same_tokens ls' ls"
  unfolding same_tokens_def by blast

lemma same_tokens_update: "same_tokens (update_where P (\<lambda>l. l\<lparr>sl_leased_until := x\<rparr>) ls) ls"
  by (induction ls) (auto simp: same_tokens_def)

lemma step_no_claim:
  assumes "queue_step q d d'"
  shows "(\<exists>w now s org res. claim_tx q w now s org d = (res, d')) \<or>
     session_turn_seq d' = session_turn_seq d \<and>
     same_tokens (session_leases d') (session_leases d)"
  using assms
proof cases
  case (enqueue_step req now i ns tp res)
  then show ?thesis unfolding enqueue_def
    by (cases rule: run_tx_cases) (auto dest!: enqueue_in_tx_leases intro: same_tokens_subset)
next
  case (enqueue_for_user_step u req now i ns tp res)
  then show ?thesis unfolding enqueue_for_user_def
    by (cases rule: run_tx_cases) (auto dest!: enqueue_in_tx_leases intro: same_tokens_subset)
next
  case (heartbeat_step t now ures)
  then show ?thesis
    by (auto simp: heartbeat_def intro: same_tokens_subset same_tokens_update split: if_splits)
next
  case (dag_bump_step sc root bres)
  then have "d' = d\<lparr>prompt_request_dags := prompt_request_dags d'\<rparr>"
    using dag_tables [of d' sc root d] by simp
  then have "session_turn_seq d' = session_turn_seq d" "session_leases d' = session_leases d"
    by (metis db.select_convs(3,4) db.surjective db.update_convs(5))+
  then show ?thesis by (simp add: same_tokens_subset)
qed (auto simp: queue_defs intro: same_tokens_subset split: if_splits)

definition holds :: "db \<Rightarrow> lease_token \<Rightarrow> bool" where
  "holds d t \<longleftrightarrow> (\<exists>l \<in> set (session_leases d). lease_matches t l)"

lemma queue_fenced:
  assumes "0 < q_max_attempts q"
  shows "fenced (queue_step q) (queue_inv q) seq_of holds lt_session lt_turn_seq"
proof (unfold_locales, goal_cases)
  case (1 s s')
  then show ?case using queue_step_inv [OF assms] by blast
next
  case (2 s s' k)
  then show ?case using step_no_claim claim_seq_mono seq_of_cong by (metis order_refl)
next
  case (3 s s' t)
  from step_no_claim [OF 3(2)] show ?case
  proof
    assume "\<exists>w now k org res. claim_tx q w now k org s = (res, s')"
    with claim_leases 3(3,4) show ?thesis by (fastforce simp: holds_def lease_matches_def)
  next
    assume "session_turn_seq s' = session_turn_seq s \<and>
     same_tokens (session_leases s') (session_leases s)"
    with 3(3,4) show ?thesis by (fastforce simp: holds_def lease_matches_def same_tokens_def)
  qed
qed

interpretation production: fenced "queue_step queue_new" "queue_inv queue_new" seq_of holds lt_session lt_turn_seq
  by (rule queue_fenced [OF no_attempts_default])

end
