(* ===== verification/Queue_Guarantees.thy ===== *)
theory Queue_Guarantees
  imports Queue_Invariants
begin

text \<open>
  The promises of \<open>PromptQueue\<close> and \<open>LeaseManager\<close> (\<open>src/runtime/queue.rs\<close>), stated
  over the Postgres model: the invariant in every reachable state, fencing of superseded
  workers, one lease per session, what a claim hands out, crash recovery and the poison cap,
  idempotent enqueue, tenant isolation, and the serialisation of memory jobs per agent.
\<close>

section \<open>Rows over a run\<close>

text \<open>A later row of the same request: identity, addressing and kind never change.\<close>

definition same_request :: "prompt_request \<Rightarrow> prompt_request \<Rightarrow> bool" where
  "same_request r r' \<longleftrightarrow>
     pr_id r' = pr_id r \<and> pr_session_id r' = pr_session_id r \<and> pr_org_id r' = pr_org_id r \<and>
     pr_idempotency_key r' = pr_idempotency_key r \<and> pr_root_request_id r' = pr_root_request_id r \<and>
     pr_kind r' = pr_kind r"

definition row_next :: "prompt_request \<Rightarrow> prompt_request \<Rightarrow> bool" where
  "row_next r r' \<longleftrightarrow> same_request r r' \<and>
     (is_terminal (pr_status r) \<longrightarrow> is_terminal (pr_status r') \<and> pr_attempts r' = pr_attempts r \<and>
        pr_turn_seq r' = pr_turn_seq r)"

lemma row_next_refl [simp]: "row_next r r"
  by (simp add: row_next_def same_request_def)

lemma row_next_same: "r \<in> set rows \<Longrightarrow> \<exists>r' \<in> set rows. row_next r r'"
  by (intro bexI) simp_all

lemma row_next_finalise: "row_next r (finalise_row f now r)"
  by (simp add: row_next_def same_request_def)

lemma row_next_cancel: "row_next r (r\<lparr>pr_cancellation_requested := True, pr_updated_at := now\<rparr>)"
  by (simp add: row_next_def same_request_def)

lemma row_next_update:
  assumes "r \<in> set rows" and "P r \<Longrightarrow> row_next r (f r)"
  shows "\<exists>r' \<in> set (update_where P f rows). row_next r r'"
  using assms(1) by (rule bex_update_where) (use assms(2) in simp_all)

lemma row_next_trans: "row_next r r' \<Longrightarrow> row_next r' r'' \<Longrightarrow> row_next r r''"
  by (auto simp: row_next_def same_request_def)

lemma row_next_sweep:
  assumes "r \<in> set (prompt_requests d)"
  shows "\<exists>r' \<in> set (prompt_requests (reset_orphans q now d)). row_next r r'"
  unfolding reset_orphans_requests
  by (rule row_next_update [OF assms]) (auto simp: row_next_def same_request_def orphan_in_def orphaned_def)

lemma row_next_take:
  assumes "r \<in> set (prompt_requests d)" and "claim_tx q w now s org d = (res, d')"
  shows "\<exists>r' \<in> set (prompt_requests d'). row_next r r'"
proof (cases rule: claim_tx_cases [where d = d and s = s and q = q and w = w and now = now and org = org])
  case taken
  with assms(2) have "prompt_requests d' = update_where (drainable s) (drain_row (Suc (seq_of d s)) now) (prompt_requests d)"
    by (auto simp: taken_db_def claimed_db_def)
  moreover have "drainable s r \<Longrightarrow> row_next r (drain_row (Suc (seq_of d s)) now r)"
    by (auto simp: row_next_def same_request_def drainable_def)
  ultimately show ?thesis using row_next_update [OF assms(1)] by simp
qed (use assms row_next_same [OF assms(1)] in auto)

lemma row_next_enqueue:
  assumes "r \<in> set (prompt_requests d)" and "enqueue_in_tx q sc req now i ns tp d = (Ok out, d')"
  shows "\<exists>r' \<in> set (prompt_requests d'). row_next r r'"
proof -
  have "r \<in> set (prompt_requests d')"
    using assms(2) by (cases rule: enqueue_in_tx_cases) (use assms(1) in auto)
  then show ?thesis by (rule row_next_same)
qed

lemma row_next_step:
  assumes "queue_step q d d'" and "r \<in> set (prompt_requests d)"
  shows "\<exists>r' \<in> set (prompt_requests d'). row_next r r'"
  using assms(1)
proof cases
  case (enqueue_step req now i ns tp res)
  then show ?thesis unfolding enqueue_def
    by (cases rule: run_tx_cases) (use row_next_enqueue assms(2) in \<open>blast intro: row_next_refl\<close>)+
next
  case (enqueue_for_user_step u req now i ns tp res)
  then show ?thesis unfolding enqueue_for_user_def
    by (cases rule: run_tx_cases) (use row_next_enqueue assms(2) in \<open>blast intro: row_next_refl\<close>)+
next
  case (sweep_step now)
  then show ?thesis using row_next_sweep [OF assms(2)] by simp
next
  case (take_step w now s org cres)
  then show ?thesis by (rule row_next_take [OF assms(2)])
next
  case (dag_bump_step sc root bres)
  then have "d' = d\<lparr>prompt_request_dags := prompt_request_dags d'\<rparr>"
    using dag_tables [of d' sc root d] by simp
  then have "prompt_requests d' = prompt_requests d"
    by (metis db.select_convs(1) db.surjective db.update_convs(5))
  with assms(2) show ?thesis by (auto intro: row_next_refl)
qed (use assms(2) in \<open>auto simp: queue_defs split: if_splits
      intro!: row_next_update [OF assms(2)] intro: row_next_same row_next_finalise row_next_cancel\<close>)

lemma row_next_run:
  assumes "(queue_step q)\<^sup>*\<^sup>* d d'" and "r \<in> set (prompt_requests d)"
  shows "\<exists>r' \<in> set (prompt_requests d'). row_next r r'"
  using assms(1)
proof (induction rule: rtranclp_induct)
  case base
  with assms(2) show ?case by (auto intro: row_next_refl)
next
  case (step d1 d2)
  then obtain r1 where "r1 \<in> set (prompt_requests d1)" "row_next r r1" by blast
  with row_next_step [OF step.hyps(2)] row_next_trans show ?case by meson
qed


section \<open>What a successful claim did\<close>

text \<open>The one shape of a claim that hands out work, with everything a client reads off it.\<close>

lemma claim_SomeE:
  assumes "claim_next_session q w now d = (Ok (Some c), d')"
  obtains s org user drained r where
    "d' = claimed_db q w now s org (reset_orphans q now d)"
    "drained = filter (drainable s) (prompt_requests (reset_orphans q now d))"
    "build_claimed_session s org user w (Suc (seq_of d s))
       (map (drain_row (Suc (seq_of d s)) now) drained) = Ok c"
    "cs_session c = s" "cs_org_id c = org" "cs_created_by_user_id c = user"
    "cs_lease c = \<lparr>lt_session = s, lt_worker = w, lt_turn_seq = Suc (seq_of d s)\<rparr>"
    "seq_of d s < i64_max"
    "\<forall>l \<in> set (session_leases d). now < sl_leased_until l \<longrightarrow> sl_session_id l \<noteq> s"
    "r \<in> set drained" "eligible (reset_orphans q now d) now r"
    "\<And>r'. r' \<in> set (prompt_requests (reset_orphans q now d)) \<Longrightarrow>
        eligible (reset_orphans q now d) now r' \<Longrightarrow> pr_created_at r \<le> pr_created_at r'"
proof -
  let ?d = "reset_orphans q now d"
  have live: "\<forall>l \<in> set (session_leases ?d). now < sl_leased_until l" by simp
  have sq: "seq_of ?d = seq_of d" by (rule seq_of_cong) simp
  from live show thesis
  proof (cases rule: claim_in_tx_cases [where q = q and w = w])
    case (claimed s org user)
    from claimed(1) obtain r where r: "r \<in> set (prompt_requests ?d)" "eligible ?d now r"
      "pr_session_id r = s"
      "\<And>r'. r' \<in> set (prompt_requests ?d) \<Longrightarrow> eligible ?d now r' \<Longrightarrow> pr_created_at r \<le> pr_created_at r'"
      by (rule next_candidate_SomeD) blast
    from claimed(5) assms have b: "build_claimed_session s org user w (Suc (seq_of d s))
       (map (drain_row (Suc (seq_of d s)) now) (filter (drainable s) (prompt_requests ?d))) = Ok c"
      and d': "d' = claimed_db q w now s org ?d"
      by (auto simp: claim_next_session_def sq)
    from b have "cs_session c = s" "cs_org_id c = org" "cs_created_by_user_id c = user"
      "cs_lease c = \<lparr>lt_session = s, lt_worker = w, lt_turn_seq = Suc (seq_of d s)\<rparr>"
      by (auto simp: build_claimed_session_def split: list.splits option.splits)
    moreover have "r \<in> set (filter (drainable s) (prompt_requests ?d))"
      using r by (simp add: drainable_def eligible_def)
    ultimately show thesis
      by (intro that [OF d' refl b]) (use claimed(2,4) r sq in auto)
  qed (use assms in \<open>auto simp: claim_next_session_def\<close>)
qed

lemma parse_prompts_Ok:
  "parse_prompts rows = Ok ps \<Longrightarrow>
     map cp_request_id ps = map pr_id rows \<and>
     (\<forall>p \<in> set ps. \<exists>r \<in> set rows. pr_id r = cp_request_id p \<and>
        prompt_try_from (pr_content r) = Ok (cp_content p))"
  by (induction rows arbitrary: ps) fastforce+

lemma build_claimed_session_Ok:
  assumes "build_claimed_session s org user w seq drained = Ok c"
  shows "parse_prompts drained = Ok (cs_prompts c)"
    and "\<forall>r \<in> set drained. pr_receiver_agent_id r = cs_receiver_agent_id c \<and>
           payload_kind (pr_kind_payload r) = payload_kind (cs_kind_payload c)"
proof -
  from assms obtain r0 rest where dr: "drained = r0 # rest" and cb: "check_batch r0 rest = None"
    by (auto simp: build_claimed_session_def split: list.splits option.splits)
  from cb have "\<forall>r \<in> set rest. pr_receiver_agent_id r = pr_receiver_agent_id r0 \<and>
      payload_kind (pr_kind_payload r) = payload_kind (pr_kind_payload r0)"
    by (induction rest) (auto split: if_splits)
  with assms dr cb show "parse_prompts drained = Ok (cs_prompts c)"
    and "\<forall>r \<in> set drained. pr_receiver_agent_id r = cs_receiver_agent_id c \<and>
           payload_kind (pr_kind_payload r) = payload_kind (cs_kind_payload c)"
    by (auto simp: build_claimed_session_def)
qed


lemma enqueue_in_tx_row:
  assumes "enqueue_in_tx q sc req now i ns tp d = (Ok out, d')"
  obtains r where "r \<in> set (prompt_requests d')" "pr_org_id r = np_org_id req"
    "pr_idempotency_key r = np_idempotency_key req" "pr_id r = outcome_request_id out"
    "pr_session_id r = outcome_session out"
  using assms
proof (cases rule: enqueue_in_tx_cases)
  case (existing r)
  then show ?thesis by (intro that [of r]) simp_all
next
  case (inserted s root sext dext)
  then show ?thesis
    by (intro that [of "request_row req i s root tp now"]) (simp_all add: request_row_def)
qed

lemma enqueue_in_tx_again:
  assumes "queue_inv queue_new d" and "enqueue_in_tx queue_new sc req now i ns tp d = (Ok out, d1)"
    and "(queue_step queue_new)\<^sup>*\<^sup>* d1 d2" and "visible sc' d2 (np_org_id req)"
    and "np_org_id req' = np_org_id req" and "np_idempotency_key req' = np_idempotency_key req"
    and "\<not> (payload_kind (np_kind_payload req') = Normal \<and> np_sender req' = enqueue_receiver req')"
  shows "\<exists>st. enqueue_in_tx queue_new sc' req' now' i' ns' tp' d2 =
           (Ok (Existing (outcome_request_id out) (outcome_session out) st), d2)"
proof -
  note e = assms(2)
  have "queue_inv queue_new d1" by (rule inv_enqueue_in_tx [OF assms(1) no_attempts_default e])
  then have inv2: "queue_inv queue_new d2" by (rule production.run_inv [OF assms(3)])
  from e obtain r where r: "r \<in> set (prompt_requests d1)" "pr_org_id r = np_org_id req"
    "pr_idempotency_key r = np_idempotency_key req" "pr_id r = outcome_request_id out"
    "pr_session_id r = outcome_session out"
    by (rule enqueue_in_tx_row)
  from row_next_run [OF assms(3) r(1)] obtain r2 where
    r2: "r2 \<in> set (prompt_requests d2)" "same_request r r2" by (auto simp: row_next_def)
  let ?key = "\<lambda>r. (pr_org_id r, pr_idempotency_key r)"
  have k: "find (\<lambda>p. ?key p = ?key r2) (prompt_requests d2) = Some r2"
    using queue_invD(1) [OF inv2] r2(1) by (intro find_Some_iff_distinct) (auto simp: keys_ok_def)
  have eq: "(\<lambda>p. pr_org_id p = np_org_id req' \<and> pr_idempotency_key p = np_idempotency_key req' \<and>
      visible sc' d2 (pr_org_id p)) = (\<lambda>p. ?key p = ?key r2)"
    using r r2(2) assms(4,5,6) by (auto simp: same_request_def fun_eq_iff)
  have "read_idempotent sc' (np_org_id req') (np_idempotency_key req') d2 =
          Some (Existing (outcome_request_id out) (outcome_session out) (pr_status r2))"
    unfolding read_idempotent_def eq using k r r2(2) by (simp add: same_request_def)
  with assms(7) show ?thesis by (auto simp: enqueue_in_tx_def)
qed

lemma enqueue_again:
  assumes "queue_inv queue_new d" and "enqueue queue_new req now i ns tp d = (Ok out, d1)"
    and "(queue_step queue_new)\<^sup>*\<^sup>* d1 d2"
    and "np_org_id req' = np_org_id req" and "np_idempotency_key req' = np_idempotency_key req"
    and "\<not> (payload_kind (np_kind_payload req') = Normal \<and> np_sender req' = enqueue_receiver req')"
  shows "\<exists>st. enqueue queue_new req' now' i' ns' tp' d2 =
           (Ok (Existing (outcome_request_id out) (outcome_session out) st), d2)"
  using enqueue_in_tx_again [OF assms(1) _ assms(3) _ assms(4-6), of Privileged now i ns tp out Privileged now' i' ns' tp']
    assms(2) by (auto simp: enqueue_def)

section \<open>Guarantees\<close>

text \<open>C1. In every state the queue can reach from empty tables (for any agents and memberships),
  whatever calls any number of workers and producers made: ids, idempotency keys per
  organisation, leases per session and DAG roots are unique; no request was handed out more than
  \<open>MAX_ATTEMPTS\<close> times; exactly the failed requests carry a failure reason; every lease
  carries an issued turn number above those of the pending rows of its session; every request
  belongs to a session of its organisation and tree; no DAG is over budget.\<close>

theorem queue_invariant_reachable:
  assumes "(queue_step queue_new)\<^sup>*\<^sup>* (empty_db\<lparr>agents := ags, org_members := ms\<rparr>) d"
  shows "queue_inv queue_new d"
  by (rule production.run_inv [OF assms]) (simp add: queue_inv_def keys_ok_def empty_db_def)

text \<open>C2. Fencing: once a worker's token is off the lease table (released, or reclaimed after
  expiry) no sequence of queue calls makes it valid again: its \<open>mark_done\<close>,
  \<open>mark_failed\<close> and \<open>heartbeat\<close> report \<open>LeaseStale\<close> and change nothing.\<close>

theorem superseded_worker_is_fenced:
  assumes "queue_inv queue_new d" and "\<not> holds d t" and "lt_turn_seq t \<le> seq_of d (lt_session t)"
    and "(queue_step queue_new)\<^sup>*\<^sup>* d d'" and "cr_lease rc = t"
  shows "mark_done rc now d' = (Err (LeaseStale (lt_session t)), d') \<and>
     mark_failed rc reason now d' = (Err (LeaseStale (lt_session t)), d') \<and>
     heartbeat queue_new t now d' = (Err (LeaseStale (lt_session t)), d')"
proof -
  from production.not_held_again [OF assms(4,1-3)] have
    "\<forall>l \<in> set (session_leases d'). \<not> lease_matches t l" by (simp add: holds_def)
  with assms(5) show ?thesis by (simp add: queue_defs)
qed

lemma in_taken_db_leases:
  assumes "keys_ok d" and "holds (taken_db q w now s org d) t" and "lt_session t = s"
  shows "t = \<lparr>lt_session = s, lt_worker = w, lt_turn_seq = Suc (seq_of d s)\<rparr>"
proof -
  from assms(2) obtain l where l: "l \<in> set (taken_leases q w now s org d)" "lease_matches t l"
    by (auto simp: holds_def taken_db_def)
  with assms(3) have "sl_session_id l = s" by (simp add: lease_matches_def)
  with in_taken_leases [OF l(1)] l(2) assms(3) show ?thesis
    by (intro lease_token.equality) (simp_all add: lease_matches_def)
qed

lemma taken_db_holds: "holds (taken_db q w now s org d) \<lparr>lt_session = s, lt_worker = w, lt_turn_seq = Suc (seq_of d s)\<rparr>"
  by (auto simp: holds_def taken_db_def taken_leases_def lease_matches_def intro!: bex_update_where)

lemma find_lease: "keys_ok d \<Longrightarrow> l \<in> set (session_leases d) \<Longrightarrow> find (\<lambda>k. sl_session_id k = sl_session_id l) (session_leases d) = Some l"
  unfolding keys_ok_def by (rule find_Some_iff_distinct) simp_all

text \<open>C3. One worker per session, however claims race: when the statements that take a session run, on whatever candidate a
  scan, possibly out of date, has named, they get it only if no lease of the session is live at that moment, not even one
  taken after the scan; then the worker's token, with a turn number never issued before, is on the lease table, it is the only
  one that is valid for the session, and whoever held an expired lease of the session has lost it. If a lease is live the
  race is lost, every lease and every request stays as it was.\<close>

theorem claim_is_exclusive:
  assumes "queue_inv q d" and "claim_tx q w now s org d = (Ok res, d')"
  shows "case res of
     Some (seq, drained) \<Rightarrow> \<not> live_lease d now s \<and> seq_of d s < seq \<and>
       holds d' \<lparr>lt_session = s, lt_worker = w, lt_turn_seq = seq\<rparr> \<and>
       (\<forall>t. holds d' t \<and> lt_session t = s \<longrightarrow> t = \<lparr>lt_session = s, lt_worker = w, lt_turn_seq = seq\<rparr>) \<and>
       (\<forall>t. holds d t \<and> lt_session t = s \<longrightarrow> \<not> holds d' t)
   | None \<Rightarrow> live_lease d now s \<and> session_leases d' = session_leases d \<and> prompt_requests d' = prompt_requests d"
proof (cases rule: claim_tx_cases [where d = d and s = s and q = q and w = w and now = now and org = org])
  case (lost l)
  with assms(2) show ?thesis by (auto simp: live_lease_def)
next
  case taken
  note k = queue_invD(1) [OF assms(1)]
  let ?t = "\<lparr>lt_session = s, lt_worker = w, lt_turn_seq = Suc (seq_of d s)\<rparr>"
  from assms(2) taken(3) obtain drained where res: "res = Some (Suc (seq_of d s), drained)" and d': "d' = taken_db q w now s org d"
    by auto
  have "\<not> live_lease d now s"
    using find_lease [OF k] taken(2) by (fastforce simp: live_lease_def)
  moreover have only: "\<forall>t. holds d' t \<and> lt_session t = s \<longrightarrow> t = ?t"
    using in_taken_db_leases [OF k] unfolding d' by blast
  moreover have old: "\<not> holds d ?t"
  proof
    assume "holds d ?t"
    then obtain l where "l \<in> set (session_leases d)" "sl_session_id l = s" "sl_turn_seq l = Suc (seq_of d s)"
      by (auto simp: holds_def lease_matches_def)
    with queue_invD(3) [OF assms(1), of l] show False by (simp add: lease_ok_def)
  qed
  moreover have "\<forall>t. holds d t \<and> lt_session t = s \<longrightarrow> \<not> holds d' t"
  proof (intro allI impI notI)
    fix t assume t: "holds d t \<and> lt_session t = s" and "holds d' t"
    with only have "t = ?t" by blast
    with t old show False by simp
  qed
  moreover have "holds d' ?t" unfolding d' by (rule taken_db_holds)
  ultimately show ?thesis unfolding res by simp
qed (use assms in simp)

text \<open>C11. A claim drains its session: the prompts handed out are exactly the session's pending
  rows after the orphan sweep, in table order and with their stored content; those rows become
  \<open>Processing\<close> under the new turn number with one more attempt, every other row keeps what
  the sweep left; and one of them is itself eligible (its session is under no live lease, and a memory job
  does not wait for another one of its agent) with no older eligible request anywhere.\<close>

theorem claim_drains_oldest_session:
  assumes "claim_next_session q w now d = (Ok (Some c), d')"
  shows "map cp_request_id (cs_prompts c) =
           map pr_id (filter (drainable (cs_session c)) (prompt_requests (reset_orphans q now d))) \<and>
     (\<forall>p \<in> set (cs_prompts c). \<exists>r \<in> set (prompt_requests (reset_orphans q now d)).
        drainable (cs_session c) r \<and> pr_id r = cp_request_id p \<and> pr_content r = cp_content p) \<and>
     prompt_requests d' =
           map (\<lambda>r. if drainable (cs_session c) r
                    then r\<lparr>pr_status := Processing, pr_turn_seq := Suc (seq_of d (cs_session c)),
                           pr_attempts := Suc (pr_attempts r), pr_updated_at := now\<rparr>
                    else r) (prompt_requests (reset_orphans q now d)) \<and>
     (\<exists>r \<in> set (prompt_requests (reset_orphans q now d)). drainable (cs_session c) r \<and>
           eligible (reset_orphans q now d) now r \<and>
           (\<forall>r' \<in> set (prompt_requests (reset_orphans q now d)).
              eligible (reset_orphans q now d) now r' \<longrightarrow> pr_created_at r \<le> pr_created_at r'))"
  using assms
proof (rule claim_SomeE)
  fix s org user drained r
  let ?d = "reset_orphans q now d"
  assume d': "d' = claimed_db q w now s org ?d"
    and drained: "drained = filter (drainable s) (prompt_requests ?d)"
    and b: "build_claimed_session s org user w (Suc (seq_of d s))
       (map (drain_row (Suc (seq_of d s)) now) drained) = Ok c"
    and c: "cs_session c = s"
    and r: "r \<in> set drained" "eligible ?d now r"
      "\<And>r'. r' \<in> set (prompt_requests ?d) \<Longrightarrow> eligible ?d now r' \<Longrightarrow> pr_created_at r \<le> pr_created_at r'"
  have sq: "seq_of ?d = seq_of d" by (rule seq_of_cong) simp
  from parse_prompts_Ok [OF build_claimed_session_Ok(1) [OF b]]
  have ids: "map cp_request_id (cs_prompts c) = map pr_id drained"
    and body: "\<forall>p \<in> set (cs_prompts c). \<exists>r \<in> set drained. pr_id r = cp_request_id p \<and> pr_content r = cp_content p"
    by (auto simp: prompt_try_from_def split: if_splits)
  have "prompt_requests d' =
           map (\<lambda>r. if drainable s r
                    then r\<lparr>pr_status := Processing, pr_turn_seq := Suc (seq_of d s),
                           pr_attempts := Suc (pr_attempts r), pr_updated_at := now\<rparr>
                    else r) (prompt_requests ?d)"
    by (simp add: d' claimed_db_def update_where_def drain_row_def sq)
  moreover have "\<exists>r \<in> set (prompt_requests ?d). drainable s r \<and> eligible ?d now r \<and>
      (\<forall>r' \<in> set (prompt_requests ?d). eligible ?d now r' \<longrightarrow> pr_created_at r \<le> pr_created_at r')"
    using r drained by auto
  ultimately show ?thesis using ids body c drained by auto
qed

text \<open>C6. A worker that crashed loses its turn and nothing else: at the first claim after its
  lease ran out, each row of the turn is offered again while it has attempts left and is failed
  as poison once it has used them all.\<close>

theorem crashed_turn_is_recovered:
  assumes "r \<in> set (prompt_requests d)" and "l \<in> set (session_leases d)" and "orphaned l r"
    and "sl_leased_until l \<le> now" and "claim_next_session q w now d = (res, d')"
  shows "\<exists>r' \<in> set (prompt_requests d'). pr_id r' = pr_id r \<and>
     (if q_max_attempts q \<le> pr_attempts r
      then pr_status r' = Failed \<and> pr_failure_reason r' = Some Poison \<and> pr_attempts r' = pr_attempts r
      else pr_status r' = Pending \<and> pr_attempts r' = pr_attempts r \<or>
           pr_status r' = Processing \<and> pr_attempts r' = Suc (pr_attempts r) \<and>
           pr_turn_seq r' = Suc (seq_of d (pr_session_id r)))"
proof -
  let ?d = "reset_orphans q now d"
  let ?p = "reset_row q now r"
  have live: "\<forall>l \<in> set (session_leases ?d). now < sl_leased_until l" by simp
  have sq: "seq_of ?d = seq_of d" by (rule seq_of_cong) simp
  have "orphan_in d now r" using assms(2-4) by (auto simp: orphan_in_def)
  then have p: "?p \<in> set (prompt_requests ?d)"
    using assms(1) by (force simp: reset_orphans_requests row_simps)
  from live show ?thesis
  proof (cases rule: claim_in_tx_cases [where q = q and w = w])
    case (claimed s org user)
    from claimed(5) assms(5) have "d' = claimed_db q w now s org ?d"
      by (simp add: claim_next_session_def)
    then have "prompt_requests d' =
        update_where (drainable s) (drain_row (Suc (seq_of d s)) now) (prompt_requests ?d)"
      by (simp add: claimed_db_def sq)
    then have "(if drainable s ?p then drain_row (Suc (seq_of d s)) now ?p else ?p)
        \<in> set (prompt_requests d')"
      using p by (auto simp: set_update_where)
    then show ?thesis
      by (rule rev_bexI) (auto simp: reset_row_status drainable_def)
  qed (use assms(5) p in \<open>auto simp: claim_next_session_def reset_row_status intro!: rev_bexI [OF p]\<close>)
qed


text \<open>C7. Enqueue is idempotent for good: once a request is accepted under a key, every later
  enqueue with that organisation and key (by any caller that is not sending to itself, with any
  content) returns that same request and session and changes nothing, whatever happened to the
  queue in between.\<close>

theorem enqueue_is_idempotent:
  assumes "queue_inv queue_new d" and "enqueue queue_new req now i ns tp d = (Ok out, d1)"
    and "(queue_step queue_new)\<^sup>*\<^sup>* d1 d2"
    and "np_org_id req' = np_org_id req" and "np_idempotency_key req' = np_idempotency_key req"
    and "\<not> (payload_kind (np_kind_payload req') = Normal \<and> np_sender req' = enqueue_receiver req')"
  shows "\<exists>st. enqueue queue_new req' now' i' ns' tp' d2 =
           (Ok (Existing (outcome_request_id out) (outcome_session out) st), d2)"
  by (rule enqueue_again [OF assms])

text \<open>C12. A finished request stays finished: no sequence of queue calls (late finalisations, orphan
  sweeps, further claims) makes a \<open>Done\<close> or \<open>Failed\<close> request runnable again, and its
  attempt and turn counters are frozen.\<close>

theorem terminal_is_final:
  assumes "(queue_step q)\<^sup>*\<^sup>* d d'" and "r \<in> set (prompt_requests d)" and "is_terminal (pr_status r)"
  shows "\<exists>r' \<in> set (prompt_requests d'). pr_id r' = pr_id r \<and> is_terminal (pr_status r') \<and>
     pr_attempts r' = pr_attempts r \<and> pr_turn_seq r' = pr_turn_seq r"
  using row_next_run [OF assms(1,2)] assms(3) by (fastforce simp: row_next_def same_request_def)

text \<open>Tenant isolation on the write path: a user who is not a member of the organisation a
  request names cannot enqueue it, whatever session it points to; the call fails and the
  transaction leaves no trace.\<close>

theorem outsider_cannot_enqueue:
  assumes "(u, np_org_id req) \<notin> set (org_members d)"
  shows "\<not> is_Ok (fst (enqueue_for_user q u req now i ns tp d)) \<and>
     snd (enqueue_for_user q u req now i ns tp d) = d"
proof -
  obtain res d' where e: "enqueue_for_user q u req now i ns tp d = (res, d')" by fastforce
  have "\<not> is_Ok res"
  proof
    assume "is_Ok res"
    with e obtain out where
      tx: "enqueue_in_tx q (AsUser u) (req\<lparr>np_created_by_user_id := u\<rparr>) now i ns tp d = (Ok out, d')"
      by (auto simp: enqueue_for_user_def is_Ok_iff)
    from tx have "visible (AsUser u) d (np_org_id req)"
      by (cases rule: enqueue_in_tx_cases) simp_all
    with assms show False by simp
  qed
  with e run_tx_rollback show ?thesis by (auto simp: enqueue_for_user_def)
qed

text \<open>Memory jobs of one agent run one at a time as long as claims do not race: an uninterrupted claim that hands out a
  reflection or a resolution is made while no other session with a live lease is processing one for that
  agent.\<close>

theorem memory_jobs_serialised:
  assumes "queue_inv q d" and "claim_next_session q w now d = (Ok (Some c), d')"
    and "payload_kind (cs_kind_payload c) \<noteq> Normal"
    and "r \<in> set (prompt_requests d)" and "pr_receiver_agent_id r = cs_receiver_agent_id c"
    and "pr_status r = Processing" and "pr_kind r \<noteq> Normal"
  shows "\<not> live_lease d now (pr_session_id r)"
  using assms(2)
proof (rule claim_SomeE)
  fix s org user drained p
  let ?d = "reset_orphans q now d"
  assume b: "build_claimed_session s org user w (Suc (seq_of d s))
       (map (drain_row (Suc (seq_of d s)) now) drained) = Ok c"
    and drained: "drained = filter (drainable s) (prompt_requests ?d)"
    and p: "p \<in> set drained" "eligible ?d now p"
  have "row_ok q ?d p" using p(1) drained queue_invD(2) [OF inv_reset_orphans [OF assms(1)]] by auto
  moreover from build_claimed_session_Ok(2) [OF b] p(1)
  have "pr_receiver_agent_id p = cs_receiver_agent_id c"
    "payload_kind (pr_kind_payload p) = payload_kind (cs_kind_payload c)" by auto
  ultimately have nm: "\<not> memory_job_in_flight ?d now (cs_receiver_agent_id c)"
    using p(2) assms(3) by (auto simp: eligible_def row_ok_def)
  have ll: "live_lease ?d now = live_lease d now" by (auto simp: live_lease_def fun_eq_iff)
  show ?thesis
  proof
    assume lv: "live_lease d now (pr_session_id r)"
    then have "\<not> orphan_in d now r"
      using live_not_orphan [OF queue_invD(1) [OF assms(1)]] by (auto simp: live_lease_def)
    then have "r \<in> set (prompt_requests ?d)" by (rule not_orphan_kept [OF assms(4)])
    with nm lv ll assms(5-7) show False by (auto simp: memory_job_in_flight_def)
  qed
qed

text \<open>No work is overlooked: a claim comes back empty exactly when no request is eligible,
  i.e. after the orphan sweep every pending request is under a live lease or waits for a memory
  job of its agent.\<close>

theorem claim_empty_iff_nothing_eligible:
  "fst (claim_next_session q w now d) = Ok None \<longleftrightarrow>
     (\<forall>r \<in> set (prompt_requests (reset_orphans q now d)). \<not> eligible (reset_orphans q now d) now r)"
proof -
  let ?d = "reset_orphans q now d"
  have live: "\<forall>l \<in> set (session_leases ?d). now < sl_leased_until l" by simp
  have "and_then r (\<lambda>c. Ok (Some c)) \<noteq> Ok None" for r :: "(prompt_error, claimed_session) outcome" by simp
  moreover from live have "fst (claim_next_session q w now d) = Ok None \<longleftrightarrow> next_candidate ?d now = None"
    by (cases rule: claim_in_tx_cases [where q = q and w = w]) (auto simp: claim_next_session_def)
  ultimately show ?thesis by (simp add: next_candidate_None_iff)
qed


text \<open>While a worker heartbeats in time nobody takes its turn: a claim at any instant before
  the lease runs out leaves the token valid and every row the turn is processing untouched.\<close>

theorem live_lease_protects_turn:
  assumes "queue_inv q d" and "l \<in> set (session_leases d)" and "lease_matches t l"
    and "now < sl_leased_until l" and "claim_next_session q w now d = (res, d')"
    and "r \<in> set (prompt_requests d)" and "pr_session_id r = lt_session t" and "pr_status r = Processing"
  shows "holds d' t \<and> r \<in> set (prompt_requests d')"
proof -
  let ?d = "reset_orphans q now d"
  have live: "\<forall>l \<in> set (session_leases ?d). now < sl_leased_until l" by simp
  have l: "l \<in> set (session_leases ?d)" using assms(2,4) by simp
  have "\<not> orphan_in d now r"
    by (rule live_not_orphan [OF queue_invD(1) [OF assms(1)] assms(2,4)])
       (use assms(3,7) in \<open>simp add: lease_matches_def\<close>)
  then have r: "r \<in> set (prompt_requests ?d)" by (rule not_orphan_kept [OF assms(6)])
  from live show ?thesis
  proof (cases rule: claim_in_tx_cases [where q = q and w = w])
    case (claimed s org user)
    from claimed(5) assms(5) have d': "d' = claimed_db q w now s org ?d"
      by (simp add: claim_next_session_def)
    from assms(8) have "\<not> drainable s r" by (simp add: drainable_def)
    with r have "r \<in> set (prompt_requests d')" by (force simp: d' claimed_db_def row_simps)
    moreover have "l \<in> set (session_leases d')" using l by (simp add: d' claimed_db_def)
    ultimately show ?thesis using assms(3) by (auto simp: holds_def)
  qed (use assms(3,5) l r in \<open>auto simp: claim_next_session_def holds_def\<close>)
qed

section \<open>Where the code falls short\<close>

lemma check_batch_None:
  "check_batch r0 rest = None \<longleftrightarrow> (\<forall>r \<in> set rest. pr_receiver_agent_id r = pr_receiver_agent_id r0 \<and>
     payload_kind (pr_kind_payload r) = payload_kind (pr_kind_payload r0))"
  by (induction rest) auto

lemma build_claimed_session_mixed:
  assumes "r \<in> set drained" "r' \<in> set drained" "pr_receiver_agent_id r \<noteq> pr_receiver_agent_id r'"
  shows "is_Panic (build_claimed_session s org user w seq drained)"
proof -
  from assms(1) obtain r0 rest where dr: "drained = r0 # rest" by (cases drained) auto
  with assms have "check_batch r0 rest \<noteq> None" unfolding check_batch_None by force
  with dr show ?thesis by (auto simp: build_claimed_session_def)
qed

text \<open>A session between two agents can hold pending rows for both of them. A claim that picks
  such a session panics after it has committed: the whole batch is \<open>Processing\<close>, with one
  attempt used up, under a lease whose owner never received it.\<close>

theorem mixed_batch_claim_panics:
  assumes "next_candidate (reset_orphans q now d) now = Some (s, org, user)" and "seq_of d s < i64_max"
    and "r \<in> set (prompt_requests (reset_orphans q now d))" and "drainable s r"
    and "r' \<in> set (prompt_requests (reset_orphans q now d))" and "drainable s r'"
    and "pr_receiver_agent_id r \<noteq> pr_receiver_agent_id r'"
  shows "is_Panic (fst (claim_next_session q w now d)) \<and>
     holds (snd (claim_next_session q w now d))
       \<lparr>lt_session = s, lt_worker = w, lt_turn_seq = Suc (seq_of d s)\<rparr> \<and>
     r\<lparr>pr_status := Processing, pr_turn_seq := Suc (seq_of d s), pr_attempts := Suc (pr_attempts r),
       pr_updated_at := now\<rparr> \<in> set (prompt_requests (snd (claim_next_session q w now d)))"
proof -
  let ?d = "reset_orphans q now d"
  have live: "\<forall>l \<in> set (session_leases ?d). now < sl_leased_until l" by simp
  have sq: "seq_of ?d = seq_of d" by (rule seq_of_cong) simp
  let ?drained = "map (drain_row (Suc (seq_of d s)) now) (filter (drainable s) (prompt_requests ?d))"
  have "is_Panic (build_claimed_session s org user w (Suc (seq_of d s)) ?drained)"
    by (rule build_claimed_session_mixed
          [of "drain_row (Suc (seq_of d s)) now r" _ "drain_row (Suc (seq_of d s)) now r'"])
       (use assms(3-7) in auto)
  then obtain m where m: "build_claimed_session s org user w (Suc (seq_of d s)) ?drained = Panic m"
    by (cases "build_claimed_session s org user w (Suc (seq_of d s)) ?drained") auto
  from live have eq: "claim_next_session q w now d = (Panic m, claimed_db q w now s org ?d)"
    by (cases rule: claim_in_tx_cases [where q = q and w = w])
       (use assms(1,2) m in \<open>auto simp: claim_next_session_def sq\<close>)
  have "drain_row (Suc (seq_of d s)) now r \<in> set (prompt_requests (claimed_db q w now s org ?d))"
    using assms(3,4) by (force simp: claimed_db_def sq row_simps)
  then show ?thesis
    by (simp add: eq holds_def claimed_db_def lease_matches_def sq drain_row_def)
qed

text \<open>Memory jobs of one agent are kept apart by the candidate scan only. Two workers that scan before either has taken its
  candidate both get one: two reflections or resolutions of one agent then run under live leases at once.\<close>

lemma claim_tx_unleased:
  assumes "\<forall>l \<in> set (session_leases d). sl_session_id l \<noteq> s" and "seq_of d s < i64_max"
  shows "\<exists>x. claim_tx q w now s org d = (Ok (Some x), claimed_db q w now s org d)"
  by (cases rule: claim_tx_cases [where d = d and s = s and q = q and w = w and now = now and org = org])
     (use assms taken_db_claimed [OF assms(1)] in auto)

theorem memory_jobs_can_overlap:
  assumes "r1 \<in> set (prompt_requests d)" and "r2 \<in> set (prompt_requests d)"
    and "pr_session_id r1 = s1" and "pr_session_id r2 = s2" and "s1 \<noteq> s2" and "eligible d now r1" and "eligible d now r2"
    and "\<forall>l \<in> set (session_leases d). sl_session_id l \<noteq> s1 \<and> sl_session_id l \<noteq> s2"
    and "seq_of d s1 < i64_max" and "seq_of d s2 < i64_max" and "now < deadline q now"
  shows "\<exists>x1 d1 x2 d2. claim_tx q w1 now s1 o1 d = (Ok (Some x1), d1) \<and> claim_tx q w2 now s2 o2 d1 = (Ok (Some x2), d2) \<and>
     live_lease d2 now s1 \<and> live_lease d2 now s2 \<and>
     (\<exists>n1 n2. drain_row n1 now r1 \<in> set (prompt_requests d2) \<and> drain_row n2 now r2 \<in> set (prompt_requests d2))"
proof -
  let ?d1 = "claimed_db q w1 now s1 o1 d"
  let ?d2 = "claimed_db q w2 now s2 o2 ?d1"
  have sq: "seq_of ?d1 s2 = seq_of d s2" using seq_of_claimed_db [OF assms(9), of q w1 now o1 s2] assms(5) by simp
  have noL: "\<forall>l \<in> set (session_leases ?d1). sl_session_id l \<noteq> s2" using assms(5,8) by (simp add: claimed_db_def)
  have noL1: "\<forall>l \<in> set (session_leases d). sl_session_id l \<noteq> s1" using assms(8) by simp
  from claim_tx_unleased [OF noL1 assms(9), of q w1 now o1] obtain x1 where
    c1: "claim_tx q w1 now s1 o1 d = (Ok (Some x1), ?d1)" by blast
  from claim_tx_unleased [OF noL, of q w2 now o2] assms(10) sq obtain x2 where
    c2: "claim_tx q w2 now s2 o2 ?d1 = (Ok (Some x2), ?d2)" by auto
  have p: "pr_status r1 = Pending" "pr_status r2 = Pending" using assms(6,7) by (simp_all add: eligible_def)
  have "drain_row (Suc (seq_of d s1)) now r1 \<in> set (prompt_requests ?d1)" "r2 \<in> set (prompt_requests ?d1)"
    using assms(1-5) p by (force simp: claimed_db_def row_simps drainable_def)+
  then have "drain_row (Suc (seq_of d s1)) now r1 \<in> set (prompt_requests ?d2)"
    "drain_row (Suc (seq_of ?d1 s2)) now r2 \<in> set (prompt_requests ?d2)"
    using assms(3-5) p by (force simp: claimed_db_def [of q w2] row_simps drainable_def)+
  moreover have "live_lease ?d2 now s1" "live_lease ?d2 now s2" using assms(11) by (auto simp: live_lease_def claimed_db_def)
  ultimately show ?thesis using c1 c2 by blast
qed

text \<open>A row whose turn has lost its lease without being finalised.\<close>

definition stranded :: "prompt_request \<Rightarrow> db \<Rightarrow> bool" where
  "stranded r d \<longleftrightarrow>
     (\<exists>p \<in> set (prompt_requests d). same_request r p \<and> pr_status p = Processing \<and>
        pr_turn_seq p = pr_turn_seq r) \<and>
     (\<forall>l \<in> set (session_leases d). \<not> (sl_session_id l = pr_session_id r \<and> sl_turn_seq l = pr_turn_seq r))"

lemma stranded_row_kept:
  assumes "queue_step q d d'" and "p \<in> set (prompt_requests d)" and "pr_status p = Processing"
    and "\<forall>l \<in> set (session_leases d). \<not> (sl_session_id l = pr_session_id p \<and> sl_turn_seq l = pr_turn_seq p)"
  shows "\<exists>p' \<in> set (prompt_requests d'). same_request p p' \<and> pr_status p' = Processing \<and>
           pr_turn_seq p' = pr_turn_seq p"
proof -
  have same: "\<exists>p' \<in> set rows. same_request p p' \<and> pr_status p' = Processing \<and> pr_turn_seq p' = pr_turn_seq p"
    if "p \<in> set rows" for rows
    using that assms(3) by (intro bexI [OF _ that]) (simp add: same_request_def)
  have fin: "p \<in> set (prompt_requests d')" if "finalise rc f now d = (res, d')" for rc f now res
    using that assms(2,4) by (force simp: finalise_def row_simps finalisable_def lease_matches_def split: if_splits)
  from assms(1) show ?thesis
  proof cases
    case (enqueue_step req now i ns tp res)
    then have "p \<in> set (prompt_requests d')" unfolding enqueue_def
      by (cases rule: run_tx_cases) (use assms(2) in \<open>auto elim: enqueue_in_tx_cases\<close>)
    then show ?thesis by (rule same)
  next
    case (enqueue_for_user_step u req now i ns tp res)
    then have "p \<in> set (prompt_requests d')" unfolding enqueue_for_user_def
      by (cases rule: run_tx_cases) (use assms(2) in \<open>auto elim: enqueue_in_tx_cases\<close>)
    then show ?thesis by (rule same)
  next
    case (sweep_step now)
    have "\<not> orphan_in d now p" using assms(4) by (auto simp: orphan_in_def orphaned_def)
    then have "p \<in> set (prompt_requests (reset_orphans q now d))" by (rule not_orphan_kept [OF assms(2)])
    with sweep_step same show ?thesis by simp
  next
    case (take_step w now s org cres)
    have "p \<in> set (prompt_requests d')"
      by (cases rule: claim_tx_cases [where d = d and s = s and q = q and w = w and now = now and org = org])
         (use take_step assms(2,3) in \<open>force simp: taken_db_def claimed_db_def row_simps drainable_def\<close>)+
    then show ?thesis by (rule same)
  next
    case (cancel_step i now ures)
    then show ?thesis using same [OF assms(2)] assms(3)
      by (auto simp: request_cancellation_def same_request_def split: if_splits
            intro!: bex_update_where [OF assms(2)])
  next
    case (dag_bump_step sc root bres)
    then have "d' = d\<lparr>prompt_request_dags := prompt_request_dags d'\<rparr>"
      using dag_tables [of d' sc root d] by simp
    then have "prompt_requests d' = prompt_requests d"
      by (metis db.select_convs(1) db.surjective db.update_convs(5))
    with assms(2) same show ?thesis by simp
  qed (use fin same assms(2) in \<open>auto simp: mark_done_def mark_failed_def heartbeat_def release_def split: if_splits\<close>)
qed


lemma stranded_step:
  assumes "queue_inv q d" and "queue_step q d d'" and "stranded r d"
  shows "stranded r d'"
proof -
  from assms(3) obtain p where p: "p \<in> set (prompt_requests d)" "same_request r p"
    "pr_status p = Processing" "pr_turn_seq p = pr_turn_seq r"
    and no: "\<forall>l \<in> set (session_leases d). \<not> (sl_session_id l = pr_session_id p \<and> sl_turn_seq l = pr_turn_seq p)"
    by (auto simp: stranded_def same_request_def)
  from stranded_row_kept [OF assms(2) p(1,3) no] obtain p' where
    "p' \<in> set (prompt_requests d')" "same_request p p'" "pr_status p' = Processing"
    "pr_turn_seq p' = pr_turn_seq p" by blast
  moreover have "\<forall>l \<in> set (session_leases d').
      \<not> (sl_session_id l = pr_session_id p \<and> sl_turn_seq l = pr_turn_seq p)"
    using step_no_claim [OF assms(2)]
  proof
    assume "\<exists>w now s org res. claim_tx q w now s org d = (res, d')"
    with claim_leases no queue_invD(2) [OF assms(1) p(1)] show ?thesis
      by (fastforce simp: row_ok_def)
  next
    assume "session_turn_seq d' = session_turn_seq d \<and> same_tokens (session_leases d') (session_leases d)"
    with no show ?thesis by (auto simp: same_tokens_def)
  qed
  ultimately show ?thesis using p(2,4) by (auto simp: stranded_def same_request_def)
qed

text \<open>C14. A request whose turn lost its lease while it was still \<open>Processing\<close> (the worker
  releases the lease even when \<open>mark_done\<close> or \<open>mark_failed\<close> failed) is never looked at
  again: the orphan sweep only follows expired leases, so the row stays \<open>Processing\<close> forever
  and its conversation tree never becomes quiescent.\<close>

theorem released_turn_is_stranded:
  assumes "queue_inv queue_new d" and "r \<in> set (prompt_requests d)" and "pr_status r = Processing"
    and "lt_session t = pr_session_id r" and "lt_turn_seq t = pr_turn_seq r" and "holds d t"
    and "release t d = (Ok (), d1)" and "(queue_step queue_new)\<^sup>*\<^sup>* d1 d2"
  shows "(\<exists>r' \<in> set (prompt_requests d2). pr_id r' = pr_id r \<and> pr_status r' = Processing) \<and>
     quiescent (pr_root_request_id r) d2 = Ok False"
proof -
  note k = queue_invD(1) [OF assms(1)]
  have "sl_session_id l \<noteq> pr_session_id r \<or> sl_turn_seq l \<noteq> pr_turn_seq r"
    if "l \<in> set (session_leases d1)" for l
  proof -
    from assms(6) obtain l' where l': "l' \<in> set (session_leases d)" "lease_matches t l'"
      by (auto simp: holds_def)
    from that assms(7) have "l \<in> set (session_leases d)" "\<not> lease_matches t l"
      by (auto simp: release_def)
    with l' k assms(4) show ?thesis
      by (auto simp: keys_ok_def lease_matches_def dest: distinct_map_eqD)
  qed
  then have "stranded r d1"
    using assms(2,3,7) by (auto simp: stranded_def release_def same_request_def)
  moreover have "queue_inv queue_new d1" by (rule inv_release [OF assms(1,7)])
  ultimately have "stranded r d2"
    by (intro production.run_stable [OF assms(8), of "stranded r"]) (auto intro: stranded_step)
  then obtain p where p: "p \<in> set (prompt_requests d2)" "same_request r p" "pr_status p = Processing"
    by (auto simp: stranded_def)
  then have "quiescent (pr_root_request_id r) d2 = Ok False"
    by (auto simp: quiescent_def same_request_def)
  with p show ?thesis by (auto simp: same_request_def)
qed

end
