(* ===== verification/Queue_Examples.thy ===== *)
theory Queue_Examples
  imports Queue_Guarantees
begin

text \<open>
  A small run of the queue, evaluated, and the guarantees of \<open>Queue_Guarantees\<close> applied to
  it: organisation 3 with member 7 and agents 1 and 2; request 10 opens session 20 at time 100;
  worker 5 claims it at 101 and crashes, worker 6 claims it again at 200.
\<close>

definition example_start :: db where
  "example_start = empty_db\<lparr>agents := [1, 2], org_members := [(7, 3)]\<rparr>"

definition example_req :: new_prompt_request where
  "example_req = new_prompt_request_normal None Human 1 None ''hi'' ''k1'' 3 7"

definition example_queued :: db where
  "example_queued = snd (enqueue queue_new example_req 100 10 20 None example_start)"

definition example_claimed :: db where
  "example_claimed = snd (claim_next_session queue_new 5 101 example_queued)"

definition example_claim :: claimed_session where
  "example_claim =
     \<lparr>cs_session = 20, cs_org_id = 3, cs_created_by_user_id = 7, cs_receiver_agent_id = 1,
      cs_prompts = [\<lparr>cp_request_id = 10, cp_content = ''hi''\<rparr>],
      cs_lease = \<lparr>lt_session = 20, lt_worker = 5, lt_turn_seq = 1\<rparr>,
      cs_traceparent = None, cs_kind_payload = PNormal\<rparr>"

definition example_reclaimed :: db where
  "example_reclaimed = snd (claim_next_session queue_new 6 200 example_claimed)"

definition example_row :: prompt_request where
  "example_row = hd (prompt_requests example_claimed)"

definition example_lease :: session_lease where
  "example_lease = hd (session_leases example_claimed)"

definition example_done :: db where
  "example_done = snd (mark_done (receipt example_claim) 110 example_claimed)"

lemma example_enqueue:
  "enqueue queue_new example_req 100 10 20 None example_start = (Ok (Inserted 10 20 Pending), example_queued)"
proof -
  have "fst (enqueue queue_new example_req 100 10 20 None example_start) = Ok (Inserted 10 20 Pending)"
    by code_simp
  then show ?thesis by (simp add: example_queued_def prod_eq_iff)
qed

lemma example_claims:
  "claim_next_session queue_new 5 101 example_queued = (Ok (Some example_claim), example_claimed)"
proof -
  have "fst (claim_next_session queue_new 5 101 example_queued) = Ok (Some example_claim)" by code_simp
  then show ?thesis by (simp add: example_claimed_def prod_eq_iff)
qed

lemma example_reclaims:
  "\<exists>c. claim_next_session queue_new 6 200 example_claimed = (Ok (Some c), example_reclaimed)"
proof -
  have "is_Ok (fst (claim_next_session queue_new 6 200 example_claimed)) \<and>
     fst (claim_next_session queue_new 6 200 example_claimed) \<noteq> Ok None" by code_simp
  then show ?thesis by (auto simp: example_reclaimed_def prod_eq_iff is_Ok_iff)
qed

lemma example_start_inv: "queue_inv queue_new example_start"
  by (simp add: example_start_def queue_inv_def keys_ok_def empty_db_def)

lemma example_run: "(queue_step queue_new)\<^sup>*\<^sup>* example_queued example_claimed"
  using claim_run [OF example_claims] .

lemma example_full_run: "(queue_step queue_new)\<^sup>*\<^sup>* example_start example_claimed"
  using queue_step.enqueue_step [OF example_enqueue] example_run
  by (rule converse_rtranclp_into_rtranclp)

lemma example_inv: "queue_inv queue_new example_queued" "queue_inv queue_new example_claimed"
  "queue_inv queue_new example_reclaimed"
proof -
  show q: "queue_inv queue_new example_queued"
    using production.step_inv [OF example_start_inv queue_step.enqueue_step [OF example_enqueue]] .
  then show c: "queue_inv queue_new example_claimed" by (rule production.run_inv [OF example_run])
  from example_reclaims show "queue_inv queue_new example_reclaimed"
    using production.run_inv [OF claim_run c] by blast
qed

section \<open>The guarantees on the run\<close>

theorem queue_invariant_reachable_witness: "queue_inv queue_new example_claimed"
  by (rule queue_invariant_reachable [where ags = "[1, 2]" and ms = "[(7, 3)]"])
     (use example_full_run in \<open>simp add: example_start_def\<close>)

theorem superseded_worker_is_fenced_witness:
  "mark_done (receipt example_claim) 210 (snd (heartbeat queue_new
      \<lparr>lt_session = 20, lt_worker = 6, lt_turn_seq = 2\<rparr> 205 example_reclaimed)) =
   (Err (LeaseStale 20), snd (heartbeat queue_new
      \<lparr>lt_session = 20, lt_worker = 6, lt_turn_seq = 2\<rparr> 205 example_reclaimed))"
proof -
  let ?d' = "snd (heartbeat queue_new \<lparr>lt_session = 20, lt_worker = 6, lt_turn_seq = 2\<rparr> 205 example_reclaimed)"
  have "queue_step queue_new example_reclaimed ?d'"
    by (rule queue_step.heartbeat_step) (rule prod.collapse [symmetric])
  then have run: "(queue_step queue_new)\<^sup>*\<^sup>* example_reclaimed ?d'" by blast
  have lost: "\<not> holds example_reclaimed \<lparr>lt_session = 20, lt_worker = 5, lt_turn_seq = 1\<rparr>" by code_simp
  have seq: "1 \<le> seq_of example_reclaimed 20" by code_simp
  from superseded_worker_is_fenced
    [OF example_inv(3) lost _ run, where rc = "receipt example_claim" and now = 210] seq
  show ?thesis by (simp add: receipt_def example_claim_def)
qed

text \<open>Worker 6 takes the session over after the lease has run out and before any sweep, on a candidate from an old scan.\<close>

theorem claim_is_exclusive_witness:
  "holds (snd (claim_tx queue_new 6 200 20 3 example_claimed)) \<lparr>lt_session = 20, lt_worker = 6, lt_turn_seq = 2\<rparr> \<and>
   holds example_claimed (cs_lease example_claim) \<and>
   \<not> holds (snd (claim_tx queue_new 6 200 20 3 example_claimed)) (cs_lease example_claim)"
proof -
  let ?r = "claim_tx queue_new 6 200 20 3 example_claimed"
  have r: "fst ?r = Ok (Some (2, []))" by code_simp
  then have tx: "?r = (Ok (Some (2, [])), snd ?r)" by (metis prod.collapse)
  have "holds example_claimed (cs_lease example_claim)" "lt_session (cs_lease example_claim) = 20" by code_simp+
  with claim_is_exclusive [OF example_inv(2) tx] show ?thesis by simp
qed

theorem claim_drains_oldest_session_witness:
  "map cp_request_id (cs_prompts example_claim) =
     map pr_id (filter (drainable 20) (prompt_requests (reset_orphans queue_new 101 example_queued)))"
  using claim_drains_oldest_session [OF example_claims] by (simp add: example_claim_def)

theorem crashed_turn_is_recovered_witness:
  "\<exists>r' \<in> set (prompt_requests example_reclaimed). pr_id r' = 10 \<and>
     (pr_status r' = Pending \<or> pr_status r' = Processing)"
proof -
  obtain c where c: "claim_next_session queue_new 6 200 example_claimed = (Ok (Some c), example_reclaimed)"
    using example_reclaims by blast
  have h: "example_row \<in> set (prompt_requests example_claimed)"
    "example_lease \<in> set (session_leases example_claimed)" "orphaned example_lease example_row"
    "sl_leased_until example_lease \<le> 200"
    by code_simp+
  have v: "pr_id example_row = 10" "\<not> q_max_attempts queue_new \<le> pr_attempts example_row" by code_simp+
  from crashed_turn_is_recovered [OF h c] v show ?thesis by auto
qed

theorem enqueue_is_idempotent_witness:
  "\<exists>st. enqueue queue_new (example_req\<lparr>np_content := ''again''\<rparr>) 150 11 21 None example_claimed =
     (Ok (Existing 10 20 st), example_claimed)"
  using enqueue_is_idempotent [OF example_start_inv example_enqueue example_run,
      of "example_req\<lparr>np_content := ''again''\<rparr>" 150 11 21 None]
  by (simp add: example_req_def new_prompt_request_normal_def enqueue_receiver_def)

theorem terminal_is_final_witness:
  "\<exists>r' \<in> set (prompt_requests (snd (claim_next_session queue_new 6 200 example_done))).
     pr_id r' = 10 \<and> is_terminal (pr_status r')"
proof -
  have run: "(queue_step queue_new)\<^sup>*\<^sup>* example_done (snd (claim_next_session queue_new 6 200 example_done))"
    by (rule claim_run, rule prod.collapse [symmetric])
  have r: "hd (prompt_requests example_done) \<in> set (prompt_requests example_done)"
    "is_terminal (pr_status (hd (prompt_requests example_done)))"
    "pr_id (hd (prompt_requests example_done)) = 10" by code_simp+
  show ?thesis using terminal_is_final [OF run r(1,2)] r(3) by auto
qed

theorem outsider_cannot_enqueue_witness:
  "\<not> is_Ok (fst (enqueue_for_user queue_new 8 example_req 100 10 20 None example_start)) \<and>
   snd (enqueue_for_user queue_new 8 example_req 100 10 20 None example_start) = example_start"
  by (rule outsider_cannot_enqueue) code_simp

theorem claim_empty_iff_nothing_eligible_witness:
  "fst (claim_next_session queue_new 6 102 example_claimed) = Ok None"
proof -
  have "\<forall>r \<in> set (prompt_requests (reset_orphans queue_new 102 example_claimed)).
      \<not> eligible (reset_orphans queue_new 102 example_claimed) 102 r" by code_simp
  then show ?thesis by (simp only: claim_empty_iff_nothing_eligible)
qed

theorem live_lease_protects_turn_witness:
  "holds (snd (claim_next_session queue_new 6 110 example_claimed)) (cs_lease example_claim) \<and>
   example_row \<in> set (prompt_requests (snd (claim_next_session queue_new 6 110 example_claimed)))"
proof -
  have h: "example_lease \<in> set (session_leases example_claimed)"
    "lease_matches (cs_lease example_claim) example_lease" "110 < sl_leased_until example_lease"
    "example_row \<in> set (prompt_requests example_claimed)"
    "pr_session_id example_row = lt_session (cs_lease example_claim)" "pr_status example_row = Processing"
    by code_simp+
  show ?thesis
    by (rule live_lease_protects_turn [OF example_inv(2) h(1-3) prod.collapse [symmetric] h(4-6)])
qed


section \<open>Memory jobs, mixed batches and stranded rows\<close>

definition example_reflection :: "session_id \<Rightarrow> string \<Rightarrow> new_prompt_request" where
  "example_reflection s k =
     (new_prompt_request_normal None (Agent 1) 1 None ''reflect'' k 3 7)\<lparr>np_kind_payload := PReflection s 10\<rparr>"

definition example_memory :: db where
  "example_memory =
     snd (claim_next_session queue_new 5 101
       (snd (enqueue queue_new (example_reflection 20 ''m1'') 100 10 20 None example_start)))"

theorem memory_jobs_serialised_witness:
  "\<not> live_lease example_memory 200 (pr_session_id (hd (prompt_requests example_memory)))"
proof -
  let ?r = "hd (prompt_requests example_memory)"
  let ?res = "claim_next_session queue_new 6 200 example_memory"
  let ?c = "case fst ?res of Ok (Some c) \<Rightarrow> c"
  have inv: "queue_inv queue_new example_memory" by code_simp
  have c: "?res = (Ok (Some ?c), snd ?res)" by code_simp
  have h: "payload_kind (cs_kind_payload ?c) \<noteq> Normal" "?r \<in> set (prompt_requests example_memory)"
    "pr_receiver_agent_id ?r = cs_receiver_agent_id ?c" "pr_status ?r = Processing" "pr_kind ?r \<noteq> Normal"
    by code_simp+
  show ?thesis by (rule memory_jobs_serialised [OF inv c h])
qed

text \<open>Agent 1 writes to agent 2, and agent 2 answers into the same session before it is claimed.\<close>

definition example_mixed :: db where
  "example_mixed =
     snd (enqueue queue_new (new_prompt_request_normal (Some 20) (Agent 2) 1 None ''re'' ''k2'' 3 7) 101 11 21 None
       (snd (enqueue queue_new (new_prompt_request_normal None (Agent 1) 2 None ''hi'' ''k1'' 3 7) 100 10 20 None
          example_start)))"

theorem mixed_batch_claim_panics_witness:
  "is_Panic (fst (claim_next_session queue_new 5 102 example_mixed)) \<and>
   holds (snd (claim_next_session queue_new 5 102 example_mixed))
     \<lparr>lt_session = 20, lt_worker = 5, lt_turn_seq = Suc (seq_of example_mixed 20)\<rparr>"
proof -
  let ?rows = "prompt_requests (reset_orphans queue_new 102 example_mixed)"
  have c: "next_candidate (reset_orphans queue_new 102 example_mixed) 102 = Some (20, 3, 7)" by code_simp
  have h: "seq_of example_mixed 20 < i64_max" "?rows ! 0 \<in> set ?rows" "drainable 20 (?rows ! 0)"
    "?rows ! 1 \<in> set ?rows" "drainable 20 (?rows ! 1)"
    "pr_receiver_agent_id (?rows ! 0) \<noteq> pr_receiver_agent_id (?rows ! 1)"
    by code_simp+
  from mixed_batch_claim_panics [OF c h] show ?thesis by blast
qed

theorem released_turn_is_stranded_witness:
  "quiescent 10 (snd (claim_next_session queue_new 6 200 (snd (release (cs_lease example_claim) example_claimed)))) =
     Ok False"
proof -
  let ?d1 = "snd (release (cs_lease example_claim) example_claimed)"
  let ?d2 = "snd (claim_next_session queue_new 6 200 ?d1)"
  have run: "(queue_step queue_new)\<^sup>*\<^sup>* ?d1 ?d2"
    by (rule claim_run, rule prod.collapse [symmetric])
  have h: "example_row \<in> set (prompt_requests example_claimed)" "pr_status example_row = Processing"
    "lt_session (cs_lease example_claim) = pr_session_id example_row"
    "lt_turn_seq (cs_lease example_claim) = pr_turn_seq example_row"
    "holds example_claimed (cs_lease example_claim)" "pr_root_request_id example_row = 10"
    by code_simp+
  have rel: "release (cs_lease example_claim) example_claimed = (Ok (), ?d1)" by (simp add: release_def)
  from released_turn_is_stranded [OF example_inv(2) h(1-5) rel run] h(6) show ?thesis by simp
qed

end
