(* ===== verification/Schedule_Types.thy ===== *)
theory Schedule_Types
  imports Relay_Types
begin

text \<open>
  The domain types of \<open>src/scheduling/types.rs\<close>: task names and prompts, weekdays and their
  bitset, times of day with their wire format, and the computation of the next fire instant.
  The calendar is chrono's: a date is its day number (day 0 is 1970-01-01, a Thursday), and
  what \<open>chrono_tz\<close> knows about a zone is the parameter \<open>tzdb\<close>: the local date of an
  instant and the instants of a wall-clock time. \<open>civil_time\<close> states what the code relies
  on; the development's instance is UTC, the code's \<open>DEFAULT_RECURRING_TIMEZONE\<close>.
  Instants count seconds.
\<close>

unbundle bit_operations_syntax

section \<open>Names and prompts\<close>

definition SCHEDULED_TASK_NAME_MAX_LEN :: nat where
  "SCHEDULED_TASK_NAME_MAX_LEN = 200"

definition scheduled_task_name_try_from :: "string \<Rightarrow> (parse_error, string) outcome" where
  "scheduled_task_name_try_from raw =
     (if raw = [] then Err (Empty ''scheduled_task_name'')
      else if SCHEDULED_TASK_NAME_MAX_LEN < length raw
           then Err (TooLong ''scheduled_task_name'' SCHEDULED_TASK_NAME_MAX_LEN (length raw))
      else Ok raw)"

definition scheduled_prompt_try_from :: "string \<Rightarrow> (parse_error, string) outcome" where
  "scheduled_prompt_try_from raw =
     (if trim raw = [] then Err (Empty ''scheduled_prompt'')
      else if PROMPT_MAX_BYTES < length raw
           then Err (TooLong ''scheduled_prompt'' PROMPT_MAX_BYTES (length raw))
      else Ok raw)"

section \<open>Weekdays\<close>

datatype weekday = Mon | Tue | Wed | Thu | Fri | Sat | Sun

definition weekday_all :: "weekday list" where
  "weekday_all = [Mon, Tue, Wed, Thu, Fri, Sat, Sun]"

fun weekday_str :: "weekday \<Rightarrow> string" where
  "weekday_str Mon = ''mon''"
| "weekday_str Tue = ''tue''"
| "weekday_str Wed = ''wed''"
| "weekday_str Thu = ''thu''"
| "weekday_str Fri = ''fri''"
| "weekday_str Sat = ''sat''"
| "weekday_str Sun = ''sun''"

fun weekday_bit :: "weekday \<Rightarrow> nat" where
  "weekday_bit Mon = 0"
| "weekday_bit Tue = 1"
| "weekday_bit Wed = 2"
| "weekday_bit Thu = 3"
| "weekday_bit Fri = 4"
| "weekday_bit Sat = 5"
| "weekday_bit Sun = 6"

type_synonym weekdays = "8 word"

definition WEEKDAYS_ALL :: weekdays where
  "WEEKDAYS_ALL = 0b01111111"

definition WORKDAYS :: weekdays where
  "WORKDAYS = 0b00011111"

definition WEEKENDS :: weekdays where
  "WEEKENDS = 0b01100000"

definition weekdays_insert :: "weekday \<Rightarrow> weekdays \<Rightarrow> weekdays" where
  "weekdays_insert w bits = bits OR push_bit (weekday_bit w) 1"

definition weekdays_try_from_iter :: "weekday list \<Rightarrow> (parse_error, weekdays) outcome" where
  "weekdays_try_from_iter ws =
     (let bits = fold weekdays_insert ws 0 in
      if bits = 0 then Err (Empty ''weekdays'') else Ok bits)"

definition weekdays_is_empty :: "weekdays \<Rightarrow> bool" where
  "weekdays_is_empty bits \<longleftrightarrow> bits = 0"

definition weekdays_contains :: "weekdays \<Rightarrow> weekday \<Rightarrow> bool" where
  "weekdays_contains bits w \<longleftrightarrow> bits AND push_bit (weekday_bit w) 1 \<noteq> 0"

definition weekdays_iter :: "weekdays \<Rightarrow> weekday list" where
  "weekdays_iter bits = filter (weekdays_contains bits) weekday_all"

section \<open>Times of day\<close>

record time_of_day =
  tod_hour :: nat
  tod_minute :: nat

definition time_of_day_try_new :: "nat \<Rightarrow> nat \<Rightarrow> (parse_error, time_of_day) outcome" where
  "time_of_day_try_new hour minute =
     (if 23 < hour then Err (OutOfRange ''time_of_day.hour'' ''0..=23'')
      else if 59 < minute then Err (OutOfRange ''time_of_day.minute'' ''0..=59'')
      else Ok \<lparr>tod_hour = hour, tod_minute = minute\<rparr>)"

definition digit :: "nat \<Rightarrow> char" where
  "digit n = char_of (48 + n)"

definition digit_value :: "char \<Rightarrow> nat option" where
  "digit_value c = (if 48 \<le> byte c \<and> byte c < 58 then Some (byte c - 48) else None)"

text \<open>Decimal digits of a number, and the standard library's formatting of an \<open>i64\<close>.\<close>

fun show_nat :: "nat \<Rightarrow> string" where
  "show_nat n = (if n < 10 then [digit n] else show_nat (n div 10) @ [digit (n mod 10)])"

declare show_nat.simps [simp del]

definition show_int :: "int \<Rightarrow> string" where
  "show_int i = (if i < 0 then CHR ''-'' # show_nat (nat (- i)) else show_nat (nat i))"

text \<open>\<open>{:02}\<close>.\<close>

definition show2 :: "nat \<Rightarrow> string" where
  "show2 n = (if n < 10 then CHR ''0'' # show_nat n else show_nat n)"

definition time_of_day_display :: "time_of_day \<Rightarrow> string" where
  "time_of_day_display t = show2 (tod_hour t) @ '':'' @ show2 (tod_minute t)"

text \<open>\<open>str::parse::<u8>\<close>: an optional \<open>+\<close>, then at least one digit and nothing else, below 256.\<close>

fun digits_value :: "nat \<Rightarrow> string \<Rightarrow> nat option" where
  "digits_value acc [] = Some acc"
| "digits_value acc (c # cs) =
     (case digit_value c of
        None \<Rightarrow> None
      | Some v \<Rightarrow> if acc * 10 + v < 256 then digits_value (acc * 10 + v) cs else None)"

definition parse_u8 :: "string \<Rightarrow> nat option" where
  "parse_u8 s =
     (let body = (case s of CHR ''+'' # r \<Rightarrow> r | _ \<Rightarrow> s) in
      if body = [] then None else digits_value 0 body)"

datatype tod_parse_error = NotHHMM | BadHour | BadMinute | OutOfDay parse_error

definition time_of_day_parse :: "string \<Rightarrow> (tod_parse_error, time_of_day) outcome" where
  "time_of_day_parse raw =
     (if length raw \<noteq> 5 \<or> raw ! 2 \<noteq> CHR '':'' then Err NotHHMM
      else case parse_u8 (take 2 raw) of
        None \<Rightarrow> Err BadHour
      | Some hour \<Rightarrow>
          (case parse_u8 (drop 3 raw) of
             None \<Rightarrow> Err BadMinute
           | Some minute \<Rightarrow> map_err OutOfDay (time_of_day_try_new hour minute)))"

section \<open>Fire instants\<close>

type_synonym day = int

text \<open>\<open>MappedLocalTime\<close>, already converted to UTC instants.\<close>

datatype mapped_local_time = LNone | LSingle instant | LAmbiguous instant instant

record tzdb =
  tz_local_date :: "string \<Rightarrow> instant \<Rightarrow> day"
  tz_resolve :: "string \<Rightarrow> day \<Rightarrow> nat \<Rightarrow> nat \<Rightarrow> mapped_local_time"

text \<open>\<open>Weekday::from_chrono(date.weekday())\<close>; day 0 is a Thursday.\<close>

definition weekday_of :: "day \<Rightarrow> weekday" where
  "weekday_of d = weekday_all ! nat ((d + 3) mod 7)"

datatype schedule_spec =
    Once (run_at: instant)
  | Recurring (spec_weekdays: weekdays) (spec_time: time_of_day) (spec_tz: string)

text \<open>The instant a matched day stands for: the earlier one where the wall clock repeats.\<close>

fun fire_instant :: "mapped_local_time \<Rightarrow> instant option" where
  "fire_instant LNone = None"
| "fire_instant (LSingle t) = Some t"
| "fire_instant (LAmbiguous t _) = Some t"

definition day_fire :: "tzdb \<Rightarrow> weekdays \<Rightarrow> time_of_day \<Rightarrow> string \<Rightarrow> day \<Rightarrow> instant option" where
  "day_fire z ws t tz d =
     (if weekdays_contains ws (weekday_of d)
      then fire_instant (tz_resolve z tz d (tod_hour t) (tod_minute t)) else None)"

text \<open>The \<open>while offset <= 8\<close> loop, from a given offset on.\<close>

function recurring_from ::
  "tzdb \<Rightarrow> instant \<Rightarrow> weekdays \<Rightarrow> time_of_day \<Rightarrow> string \<Rightarrow> day \<Rightarrow> int \<Rightarrow> instant option" where
  "recurring_from z now ws t tz today off =
     (if 8 < off then None
      else case day_fire z ws t tz (today + off) of
        Some u \<Rightarrow> if now < u then Some u else recurring_from z now ws t tz today (off + 1)
      | None \<Rightarrow> recurring_from z now ws t tz today (off + 1))"
  by pat_completeness auto
termination
  by (relation "measure (\<lambda>(z, now, ws, t, tz, today, off). nat (9 - off))") auto

declare recurring_from.simps [simp del]

definition next_recurring ::
  "tzdb \<Rightarrow> instant \<Rightarrow> weekdays \<Rightarrow> time_of_day \<Rightarrow> string \<Rightarrow> instant option" where
  "next_recurring z now ws t tz = recurring_from z now ws t tz (tz_local_date z tz now) 0"

fun next_after :: "tzdb \<Rightarrow> schedule_spec \<Rightarrow> instant \<Rightarrow> instant option" where
  "next_after z (Once at) now = (if now < at then Some at else None)"
| "next_after z (Recurring ws t tz) now =
     (if weekdays_is_empty ws then None else next_recurring z now ws t tz)"


section \<open>Weekday sets\<close>

lemma mem_weekday_all [simp]: "w \<in> set weekday_all"
  by (cases w) (simp_all add: weekday_all_def)

interpretation weekday: str_enum weekday_all weekday_str
proof
  show "v \<in> set weekday_all" for v by simp
  show "inj weekday_str"
  proof (rule injI)
    fix v w :: weekday assume "weekday_str v = weekday_str w"
    then show "v = w" by (cases v; cases w) simp_all
  qed
qed

lemma contains_iff_bit: "weekdays_contains bits w \<longleftrightarrow> bit bits (weekday_bit w)"
  by (simp add: weekdays_contains_def bit_iff_and_push_bit_not_eq_0)

lemma weekday_bit_lt: "weekday_bit w < 7"
  by (cases w) simp_all

lemma weekday_bit_inj [simp]: "weekday_bit v = weekday_bit w \<longleftrightarrow> v = w"
  by (cases v; cases w; simp)

lemma bit_insert:
  "bit (weekdays_insert v bits) n \<longleftrightarrow> bit bits n \<or> n = weekday_bit v"
  using weekday_bit_lt [of v]
  by (auto simp: weekdays_insert_def bit_or_iff bit_exp_iff push_bit_eq_mult)

lemma bit_fold_insert:
  "bit (fold weekdays_insert ws bits) n \<longleftrightarrow> bit bits n \<or> (\<exists>w \<in> set ws. n = weekday_bit w)"
  by (induction ws arbitrary: bits) (auto simp: bit_insert)

lemma weekday_of_bit: "n < 7 \<Longrightarrow> \<exists>w. weekday_bit w = n"
proof -
  assume "n < 7"
  then have "n \<in> {0, 1, 2, 3, 4, 5, 6}" by auto
  then show ?thesis using weekday_bit.simps by blast
qed

text \<open>A set of days with no stray bit is the set of its members.\<close>

lemma fold_iter:
  assumes "\<not> bit bits 7"
  shows "fold weekdays_insert (weekdays_iter bits) 0 = bits"
proof (rule bit_word_eqI)
  fix n assume "n < LENGTH(8)"
  then have n: "n < 8" by simp
  have "bit (fold weekdays_insert (weekdays_iter bits) 0) n \<longleftrightarrow>
      (\<exists>w. bit bits (weekday_bit w) \<and> n = weekday_bit w)"
    by (auto simp: bit_fold_insert weekdays_iter_def contains_iff_bit)
  also have "\<dots> \<longleftrightarrow> bit bits n"
  proof (cases "n = 7")
    case True
    then show ?thesis using assms weekday_bit_lt by (metis less_irrefl)
  next
    case False
    with n weekday_of_bit [of n] show ?thesis by auto
  qed
  finally show "bit (fold weekdays_insert (weekdays_iter bits) 0) n \<longleftrightarrow> bit bits n" .
qed

text \<open>The weekday bitset is a set: parsing a list of days accepts exactly the non-empty lists,
  the result contains exactly the listed days, and serialising a parsed set and parsing it again
  gives it back.\<close>

theorem weekdays_roundtrip:
  "(case weekdays_try_from_iter ws of
      Ok bits \<Rightarrow> ws \<noteq> [] \<and> set (weekdays_iter bits) = set ws \<and> weekdays_try_from_iter (weekdays_iter bits) = Ok bits
    | _ \<Rightarrow> ws = [])"
proof -
  let ?b = "fold weekdays_insert ws 0"
  have nb: "bit ?b n \<longleftrightarrow> (\<exists>w \<in> set ws. n = weekday_bit w)" for n by (simp add: bit_fold_insert)
  have "\<not> bit ?b 7" using weekday_bit_lt by (auto simp: nb dest: less_not_refl3)
  then have rt: "fold weekdays_insert (weekdays_iter ?b) 0 = ?b" by (rule fold_iter)
  have mem: "set (weekdays_iter ?b) = set ws" by (auto simp: weekdays_iter_def contains_iff_bit nb)
  have "?b = 0 \<longleftrightarrow> ws = []"
  proof
    assume "?b = 0"
    then have "\<not> bit ?b n" for n by simp
    with nb show "ws = []" by (metis list.set_intros(1) neq_Nil_conv)
  qed simp
  with rt mem show ?thesis by (simp add: weekdays_try_from_iter_def Let_def)
qed

section \<open>Decimal formatting\<close>

lemma show_nat_snoc: "10 \<le> n \<Longrightarrow> show_nat n = show_nat (n div 10) @ [digit (n mod 10)]"
  by (subst show_nat.simps) simp

lemma show_nat_digit: "n < 10 \<Longrightarrow> show_nat n = [digit n]"
  by (subst show_nat.simps) simp

lemma digit_value_digit [simp]: "n < 10 \<Longrightarrow> digit_value (digit n) = Some n"
  by (simp add: digit_value_def digit_def)

lemma digit_inj: "m < 10 \<Longrightarrow> n < 10 \<Longrightarrow> digit m = digit n \<longleftrightarrow> m = n"
  using digit_value_digit by (metis option.inject)

lemma show_nat_not_Nil [simp]: "show_nat n \<noteq> []"
  by (subst show_nat.simps) simp

lemma show_nat_inj: "show_nat m = show_nat n \<Longrightarrow> m = n"
proof (induction m arbitrary: n rule: less_induct)
  case (less m)
  show ?case
  proof (cases "m < 10")
    case True
    show ?thesis
    proof (cases "n < 10")
      case True
      with \<open>m < 10\<close> less.prems show ?thesis by (simp add: show_nat_digit digit_inj)
    next
      case False
      with \<open>m < 10\<close> less.prems have "show_nat (n div 10) = []" by (simp add: show_nat_digit show_nat_snoc)
      then show ?thesis by simp
    qed
  next
    case False
    show ?thesis
    proof (cases "n < 10")
      case True
      with False less.prems have "show_nat (m div 10) = []" by (simp add: show_nat_digit show_nat_snoc)
      then show ?thesis by simp
    next
      case n: False
      with False less.prems have "show_nat (m div 10) = show_nat (n div 10)" "m mod 10 = n mod 10"
        by (simp_all add: show_nat_snoc digit_inj)
      with less.IH [of "m div 10" "n div 10"] False have "m div 10 = n div 10" by simp
      with \<open>m mod 10 = n mod 10\<close> show ?thesis by (metis div_mult_mod_eq)
    qed
  qed
qed

lemma show_nat_no_minus: "show_nat n \<noteq> CHR ''-'' # xs"
proof (induction n arbitrary: xs rule: less_induct)
  case (less n)
  have d: "digit k \<noteq> CHR ''-''" if "k < 10" for k
    using digit_value_digit [OF that] by (auto simp: digit_value_def)
  show ?case
  proof (cases "n < 10")
    case True
    with d show ?thesis by (simp add: show_nat_digit)
  next
    case False
    with less.IH [of "n div 10"] show ?thesis by (auto simp: show_nat_snoc append_eq_Cons_conv)
  qed
qed

lemma show_int_inj: "show_int i = show_int j \<Longrightarrow> i = j"
  by (auto simp: show_int_def show_nat_no_minus show_nat_no_minus [symmetric] dest: show_nat_inj split: if_splits)

lemma length_show_nat: "n < 10 ^ k \<Longrightarrow> 0 < k \<Longrightarrow> length (show_nat n) \<le> k"
proof (induction k arbitrary: n)
  case (Suc k)
  then show ?case
    by (cases "n < 10"; cases k) (auto simp: show_nat_digit show_nat_snoc)
qed simp

end
