(* ===== verification/Schedule_Next.thy ===== *)
theory Schedule_Next
  imports Schedule_Types
begin

text \<open>
  When a schedule fires next. \<open>civil_time\<close> is what \<open>next_recurring\<close> relies on from
  \<open>chrono_tz\<close>: the local date never runs backwards, and a wall-clock time of a day resolves
  to instants of that local day. Under it \<open>next_after\<close> returns the least fire instant after
  now among all days, and never gives up on a wall-clock time that exists every day. Without
  the last condition it does give up: the window of nine candidate days is one day short for a
  weekly schedule that meets a gap.
\<close>

section \<open>The candidate loop\<close>

lemma recurring_from_step:
  "recurring_from z now ws t tz today off =
     (if 8 < off then None
      else if \<exists>u. day_fire z ws t tz (today + off) = Some u \<and> now < u
           then day_fire z ws t tz (today + off)
      else recurring_from z now ws t tz today (off + 1))"
  by (subst recurring_from.simps) (auto split: option.splits)

text \<open>Induction over the offsets that are left.\<close>

lemma recurring_induct:
  assumes "\<And>off. 8 < off \<Longrightarrow> P off" and "\<And>off. off \<le> 8 \<Longrightarrow> P (off + 1) \<Longrightarrow> P off"
  shows "P (off :: int)"
proof (induction "nat (9 - off)" arbitrary: off)
  case 0
  then show ?case by (simp add: assms(1))
next
  case (Suc n)
  from Suc(2) have "off \<le> 8" "n = nat (9 - (off + 1))" by simp_all
  with Suc(1) assms(2) show ?case by blast
qed

lemma recurring_from_Some:
  "recurring_from z now ws t tz today off = Some u \<Longrightarrow>
     \<exists>k. off \<le> k \<and> day_fire z ws t tz (today + k) = Some u \<and> now < u \<and>
       (\<forall>j v. off \<le> j \<and> j < k \<and> day_fire z ws t tz (today + j) = Some v \<longrightarrow> v \<le> now)"
proof (induction off rule: recurring_induct)
  case (1 off)
  then show ?case by (simp add: recurring_from_step [of z now ws t tz today off])
next
  case (2 off)
  show ?case
  proof (cases "\<exists>u. day_fire z ws t tz (today + off) = Some u \<and> now < u")
    case True
    with 2 show ?thesis
      by (intro exI [of _ off]) (auto simp: recurring_from_step [of z now ws t tz today off])
  next
    case False
    with 2 obtain k where k: "off + 1 \<le> k" "day_fire z ws t tz (today + k) = Some u" "now < u"
      "\<forall>j v. off + 1 \<le> j \<and> j < k \<and> day_fire z ws t tz (today + j) = Some v \<longrightarrow> v \<le> now"
      by (auto simp: recurring_from_step [of z now ws t tz today off])
    have "v \<le> now" if "off \<le> j" "j < k" "day_fire z ws t tz (today + j) = Some v" for j v
    proof (cases "j = off")
      case True
      with that(3) False show ?thesis by (simp add: not_less)
    next
      case False
      with that(1) have "off + 1 \<le> j" by simp
      with that k(4) show ?thesis by blast
    qed
    with k show ?thesis by (intro exI [of _ k]) auto
  qed
qed

lemma recurring_from_None:
  "recurring_from z now ws t tz today off = None \<Longrightarrow> off \<le> k \<Longrightarrow> k \<le> 8 \<Longrightarrow>
   day_fire z ws t tz (today + k) = Some v \<Longrightarrow> v \<le> now"
proof (induction off rule: recurring_induct)
  case (2 off)
  then have no: "\<not> (\<exists>u. day_fire z ws t tz (today + off) = Some u \<and> now < u)"
    and rec: "recurring_from z now ws t tz today (off + 1) = None"
    by (auto simp: recurring_from_step [of z now ws t tz today off] split: if_splits)
  show ?case
  proof (cases "k = off")
    case True
    with no 2 show ?thesis by auto
  next
    case False
    with 2 rec show ?thesis by auto
  qed
qed simp

section \<open>Civil time\<close>

locale civil_time =
  fixes z :: tzdb and tz :: string
  assumes date_mono: "u \<le> v \<Longrightarrow> tz_local_date z tz u \<le> tz_local_date z tz v"
    and fire_on_day: "fire_instant (tz_resolve z tz d h m) = Some u \<Longrightarrow> tz_local_date z tz u = d"
begin

lemma day_fire_date: "day_fire z ws t tz d = Some u \<Longrightarrow> tz_local_date z tz u = d"
  by (auto simp: day_fire_def dest: fire_on_day split: if_splits)

lemma day_fire_less: "day_fire z ws t tz d = Some u \<Longrightarrow> day_fire z ws t tz d' = Some u' \<Longrightarrow> d < d' \<Longrightarrow> u < u'"
  using date_mono [of u' u] day_fire_date [of ws t d u] day_fire_date [of ws t d' u'] by linarith

lemma later_day_fires_later: "day_fire z ws t tz d = Some u \<Longrightarrow> tz_local_date z tz now < d \<Longrightarrow> now < u"
  using date_mono [of u now] day_fire_date [of ws t d u] by linarith

lemma next_recurring_least:
  assumes "next_recurring z now ws t tz = Some u"
  shows "now < u \<and> (\<exists>d. day_fire z ws t tz d = Some u) \<and>
     (\<forall>d v. day_fire z ws t tz d = Some v \<and> now < v \<longrightarrow> u \<le> v)"
proof -
  let ?today = "tz_local_date z tz now"
  obtain k where k: "0 \<le> k" "day_fire z ws t tz (?today + k) = Some u" "now < u"
    "\<And>j v. 0 \<le> j \<Longrightarrow> j < k \<Longrightarrow> day_fire z ws t tz (?today + j) = Some v \<Longrightarrow> v \<le> now"
    using recurring_from_Some [OF assms [unfolded next_recurring_def]] by auto
  have "u \<le> v" if v: "day_fire z ws t tz d = Some v" "now < v" for d v
  proof (rule ccontr)
    assume "\<not> u \<le> v"
    then have "\<not> ?today + k < d" using day_fire_less [OF k(2) v(1)] by linarith
    moreover have "d \<noteq> ?today + k" using v(1) k(2) \<open>\<not> u \<le> v\<close> by auto
    moreover have "?today \<le> d" using date_mono [of now v] v day_fire_date by force
    ultimately have "v \<le> now" using k(4) [of "d - ?today" v] v(1) by simp
    with v(2) show False by simp
  qed
  with k show ?thesis by blast
qed

lemma next_recurring_exists:
  assumes "\<not> weekdays_is_empty ws" and "\<not> bit ws 7"
    and no_gap: "\<And>d. tz_resolve z tz d (tod_hour t) (tod_minute t) \<noteq> LNone"
  shows "next_recurring z now ws t tz \<noteq> None"
proof
  let ?today = "tz_local_date z tz now"
  assume none: "next_recurring z now ws t tz = None"
  from assms(1) obtain n where n: "bit ws n"
    by (metis bit_eq_iff bit_0_eq bot_apply weekdays_is_empty_def bot_bool_def)
  then have "n < 8" using bit_imp_le_length [OF n] by simp
  with n assms(2) have "n < 7" by (cases "n = 7") auto
  define k where "k = 1 + (int n - (?today + 4)) mod 7"
  have "0 \<le> (int n - (?today + 4)) mod 7" "(int n - (?today + 4)) mod 7 < 7" by simp_all
  then have k: "1 \<le> k" "k \<le> 8" by (simp_all add: k_def)
  have "(?today + k + 3) mod 7 = int n"
  proof -
    have "?today + k + 3 = ?today + 4 + (int n - (?today + 4)) mod 7" by (simp add: k_def)
    then have "(?today + k + 3) mod 7 = (?today + 4 + (int n - (?today + 4))) mod 7"
      by (simp only: mod_add_right_eq)
    with \<open>n < 7\<close> show ?thesis by simp
  qed
  then have "weekday_of (?today + k) = weekday_all ! n" by (simp add: weekday_of_def)
  moreover have "weekday_bit (weekday_all ! n) = n"
  proof -
    from \<open>n < 7\<close> have "n \<in> {0, 1, 2, 3, 4, 5, 6}" by auto
    then show ?thesis by (auto simp: weekday_all_def)
  qed
  ultimately have c: "weekdays_contains ws (weekday_of (?today + k))" using n by (simp add: contains_iff_bit)
  obtain u where u: "day_fire z ws t tz (?today + k) = Some u"
    using c no_gap [of "?today + k"]
    by (cases "tz_resolve z tz (?today + k) (tod_hour t) (tod_minute t)") (auto simp: day_fire_def)
  have "u \<le> now" by (rule recurring_from_None [OF none [unfolded next_recurring_def] _ k(2) u]) (use k in simp)
  moreover have "now < u" by (rule later_day_fires_later [OF u]) (use k in simp)
  ultimately show False by simp
qed

end


section \<open>UTC\<close>

definition utc :: tzdb where
  "utc = \<lparr>tz_local_date = (\<lambda>_ u. u div 86400),
          tz_resolve = (\<lambda>_ d h m. if h < 24 \<and> m < 60
             then LSingle (d * 86400 + (int h * 3600 + int m * 60)) else LNone)\<rparr>"

interpretation utc: civil_time utc tz
proof
  show "tz_local_date utc tz u \<le> tz_local_date utc tz v" if "u \<le> v" for u v
    using that by (simp add: utc_def zdiv_mono1)
  show "tz_local_date utc tz u = d" if "fire_instant (tz_resolve utc tz d h m) = Some u" for d h m u
  proof -
    let ?x = "int h * 3600 + int m * 60"
    from that have hm: "h < 24" "m < 60" and u: "u = d * 86400 + ?x"
      by (auto simp: utc_def split: if_splits)
    from hm have "?x div 86400 = 0" by (intro div_pos_pos_trivial) auto
    then have "u div 86400 = d" unfolding u by (subst div_mult_self3) simp_all
    then show ?thesis by (simp add: utc_def)
  qed
qed

section \<open>Guarantees\<close>

text \<open>C17. \<open>next_after\<close> is the schedule's next fire: whatever the zone's rules (as long as its
  local date does not run backwards), the instant it returns is after now, is a fire of the
  schedule, and no fire after now comes before it.\<close>

theorem next_after_is_least:
  assumes "civil_time z tz" and "next_after z (Recurring ws t tz) now = Some u"
  shows "now < u \<and> (\<exists>d. day_fire z ws t tz d = Some u) \<and>
     (\<forall>d v. day_fire z ws t tz d = Some v \<and> now < v \<longrightarrow> u \<le> v)"
proof -
  from assms(2) have "next_recurring z now ws t tz = Some u" by (simp split: if_splits)
  then show ?thesis by (rule civil_time.next_recurring_least [OF assms(1)])
qed

text \<open>1 January 1970 was a Thursday: at noon, the next workday fire at 09:30 UTC is on Friday.\<close>

theorem next_after_is_least_witness:
  "(43200 :: int) < 120600 \<and>
   (\<exists>d. day_fire utc WORKDAYS \<lparr>tod_hour = 9, tod_minute = 30\<rparr> ''UTC'' d = Some 120600) \<and> (120600 :: int) \<le> 379800"
proof -
  have "next_after utc (Recurring WORKDAYS \<lparr>tod_hour = 9, tod_minute = 30\<rparr> ''UTC'') 43200 = Some 120600"
    by code_simp
  moreover have "day_fire utc WORKDAYS \<lparr>tod_hour = 9, tod_minute = 30\<rparr> ''UTC'' 4 = Some 379800" by code_simp
  ultimately show ?thesis using next_after_is_least [OF utc.civil_time_axioms] by fastforce
qed

text \<open>A recurring schedule whose wall-clock time exists every day never runs dry: with at least
  one weekday set, \<open>next_after\<close> always finds a next fire.\<close>

theorem recurring_never_exhausted:
  assumes "civil_time z tz" and "weekdays_try_from_iter days = Ok ws"
    and "\<forall>d. tz_resolve z tz d (tod_hour t) (tod_minute t) \<noteq> LNone"
  shows "\<exists>u. next_after z (Recurring ws t tz) now = Some u"
proof -
  from assms(2) have ws: "ws = fold weekdays_insert days 0" "ws \<noteq> 0"
    by (auto simp: weekdays_try_from_iter_def Let_def split: if_splits)
  have "\<not> bit ws 7" unfolding ws using weekday_bit_lt by (auto simp: bit_fold_insert dest: less_not_refl3)
  with civil_time.next_recurring_exists [OF assms(1), of ws t now] assms(3) ws(2)
  show ?thesis by (auto simp: weekdays_is_empty_def)
qed

theorem recurring_never_exhausted_witness:
  "\<exists>u. next_after utc (Recurring WEEKENDS \<lparr>tod_hour = 2, tod_minute = 30\<rparr> ''UTC'') 0 = Some u"
proof -
  have "weekdays_try_from_iter [Sat, Sun] = Ok WEEKENDS" by code_simp
  from recurring_never_exhausted [OF utc.civil_time_axioms this] show ?thesis
    by (simp add: utc_def)
qed

text \<open>A weekly schedule dies on a clock change: computed on a day it has just fired, when the
  next occurrence a week later falls into the hour a spring-forward skips, \<open>next_after\<close>
  returns nothing although the schedule has fires after it.\<close>

theorem weekly_schedule_dies_in_gap:
  assumes "weekdays_try_from_iter [weekday_of (tz_local_date z tz now)] = Ok ws"
    and "day_fire z ws t tz (tz_local_date z tz now) = Some u" and "u \<le> now"
    and "tz_resolve z tz (tz_local_date z tz now + 7) (tod_hour t) (tod_minute t) = LNone"
    and "day_fire z ws t tz (tz_local_date z tz now + 14) = Some v" and "now < v"
  shows "next_after z (Recurring ws t tz) now = None"
proof -
  let ?today = "tz_local_date z tz now"
  from assms(1) have bits: "bit ws n \<longleftrightarrow> n = weekday_bit (weekday_of ?today)" for n
    by (auto simp: weekdays_try_from_iter_def Let_def bit_insert split: if_splits)
  have days: "weekday_of (?today + k) = weekday_of ?today \<Longrightarrow> k mod 7 = 0" for k
  proof -
    assume "weekday_of (?today + k) = weekday_of ?today"
    moreover have "distinct weekday_all" "length weekday_all = 7" by (simp_all add: weekday_all_def)
    moreover have "nat ((x + 3) mod 7) < 7" for x :: int by simp
    ultimately have "(?today + k + 3) mod 7 = (?today + 3) mod 7"
      by (auto simp: weekday_of_def nth_eq_iff_index_eq)
    then have "(?today + k + 3 - (?today + 3)) mod 7 = 0" by (metis mod_eq_dvd_iff dvd_imp_mod_0)
    then show "k mod 7 = 0" by simp
  qed
  have none: "day_fire z ws t tz (?today + k) = None" if "1 \<le> k" "k \<le> 8" for k
  proof (cases "k = 7")
    case True
    then show ?thesis using assms(4) by (simp add: day_fire_def)
  next
    case False
    with that have "k mod 7 \<noteq> 0" by presburger
    with days [of k] show ?thesis by (auto simp: day_fire_def contains_iff_bit bits)
  qed
  have "recurring_from z now ws t tz ?today off = None" if "1 \<le> off" for off
    using that by (induction off rule: recurring_induct) (auto simp: recurring_from_step none)
  then have "next_recurring z now ws t tz = None"
    using assms(2,3) by (simp add: next_recurring_def recurring_from_step [of z now ws t tz ?today 0])
  then show ?thesis by simp
qed


text \<open>UTC with the hour from 02:00 to 03:00 missing on day 10, a Sunday.\<close>

definition spring_forward :: tzdb where
  "spring_forward = utc\<lparr>tz_resolve := (\<lambda>tz d h m. if d = 10 \<and> h = 2 then LNone else tz_resolve utc tz d h m)\<rparr>"

theorem weekly_schedule_dies_in_gap_witness:
  "next_after spring_forward (Recurring 0b01000000 \<lparr>tod_hour = 2, tod_minute = 30\<rparr> ''Zone'') 268260 = None"
proof -
  have h: "weekdays_try_from_iter [weekday_of (tz_local_date spring_forward ''Zone'' 268260)] = Ok 0b01000000"
    "day_fire spring_forward 0b01000000 \<lparr>tod_hour = 2, tod_minute = 30\<rparr> ''Zone''
       (tz_local_date spring_forward ''Zone'' 268260) = Some 268200"
    "(268200 :: int) \<le> 268260"
    "tz_resolve spring_forward ''Zone'' (tz_local_date spring_forward ''Zone'' 268260 + 7) 2 30 = LNone"
    "day_fire spring_forward 0b01000000 \<lparr>tod_hour = 2, tod_minute = 30\<rparr> ''Zone''
       (tz_local_date spring_forward ''Zone'' 268260 + 14) = Some 1477800"
    "(268260 :: int) < 1477800"
    by code_simp+
  show ?thesis by (rule weekly_schedule_dies_in_gap [OF h(1-3) _ h(5,6)]) (use h(4) in simp)
qed

section \<open>The wire format of a time of day\<close>

lemma parse_show2: "n < 100 \<Longrightarrow> parse_u8 (show2 n) = Some n \<and> length (show2 n) = 2"
proof -
  have "\<forall>n \<in> set [0..<100]. parse_u8 (show2 n) = Some n \<and> length (show2 n) = 2" by code_simp
  then show "n < 100 \<Longrightarrow> ?thesis" by simp
qed

text \<open>A time of day survives its wire format: what is printed as \<open>HH:MM\<close> parses back to the
  same time.\<close>

theorem time_of_day_roundtrip:
  assumes "time_of_day_try_new h m = Ok t"
  shows "length (time_of_day_display t) = 5 \<and> time_of_day_parse (time_of_day_display t) = Ok t"
proof -
  from assms have t: "t = \<lparr>tod_hour = h, tod_minute = m\<rparr>" "h < 100" "m < 100"
    by (auto simp: time_of_day_try_new_def split: if_splits)
  note p = parse_show2 [OF t(2)] parse_show2 [OF t(3)]
  from p have "length (time_of_day_display t) = 5" "time_of_day_display t ! 2 = CHR '':''"
    "take 2 (time_of_day_display t) = show2 h" "drop 3 (time_of_day_display t) = show2 m"
    by (simp_all add: time_of_day_display_def t(1) nth_append)
  with p assms show ?thesis by (simp add: time_of_day_parse_def)
qed

theorem time_of_day_roundtrip_witness:
  "time_of_day_parse (time_of_day_display \<lparr>tod_hour = 7, tod_minute = 5\<rparr>) = Ok \<lparr>tod_hour = 7, tod_minute = 5\<rparr>"
proof -
  have "time_of_day_try_new 7 5 = Ok \<lparr>tod_hour = 7, tod_minute = 5\<rparr>" by (simp add: time_of_day_try_new_def)
  from time_of_day_roundtrip [OF this] show ?thesis by simp
qed

text \<open>The parser takes more than the zero-padded form it documents: a plus sign is read as padding.\<close>

lemma time_of_day_accepts_plus: "time_of_day_parse ''+7:+5'' = Ok \<lparr>tod_hour = 7, tod_minute = 5\<rparr>"
  by code_simp

text \<open>A prompt the scheduling tools accept is one the queue accepts.\<close>

lemma scheduled_prompt_is_prompt:
  "scheduled_prompt_try_from raw = Ok p \<longleftrightarrow> prompt_try_from raw = Ok p"
  by (auto simp: scheduled_prompt_try_from_def prompt_try_from_def)

interpretation scheduled_prompt: smart_string scheduled_prompt_try_from PROMPT_MAX_BYTES
  by unfold_locales (auto simp: scheduled_prompt_try_from_def split: if_splits)

end
