(* ===== verification/Scheduler.thy ===== *)
theory Scheduler
  imports Schedule_Next Queue_Guarantees
begin

text \<open>
  The scheduled-task store (\<open>src/scheduling/pg_store.rs\<close>) and the scheduler's tick
  (\<open>src/scheduling/scheduler.rs\<close>). The store's table sits beside the queue's database; each
  store call and each enqueue is one transaction on its own side. The text form the \<open>uuid\<close>
  crate gives an identifier is the parameter \<open>show_uuid\<close>; nothing is assumed of it.
\<close>

section \<open>Data\<close>

datatype task_state = Active | TDone | TCancelled

fun task_state_str :: "task_state \<Rightarrow> string" where
  "task_state_str Active = ''active''"
| "task_state_str TDone = ''done''"
| "task_state_str TCancelled = ''cancelled''"

type_synonym task_id = uuid

record task_row =
  t_id :: task_id
  t_owner_agent_id :: agent_id
  t_org_id :: org_id
  t_created_by_user_id :: user_id
  t_name :: string
  t_prompt :: string
  t_schedule :: schedule_spec
  t_next_run_at :: "instant option"
  t_last_fired_at :: "instant option"
  t_last_request_id :: "prompt_request_id option"
  t_state :: task_state
  t_created_at :: instant
  t_updated_at :: instant

record new_task =
  nt_owner_agent_id :: agent_id
  nt_org_id :: org_id
  nt_created_by_user_id :: user_id
  nt_name :: string
  nt_prompt :: string
  nt_schedule :: schedule_spec
  nt_next_run_at :: "instant option"

datatype task_error =
    TNotFound task_id
  | PerAgentCapExceeded agent_id nat
  | TParse parse_error
  | TQueue prompt_error
  | TDecode
  | TDb string

record sched_state =
  ss_db :: db
  ss_tasks :: "task_row list"
  ss_agent_org :: "(agent_id \<times> org_id) list"

definition MAX_SCHEDULED_TASKS_PER_AGENT :: nat where
  "MAX_SCHEDULED_TASKS_PER_AGENT = 50"

definition SCHEDULED_TASK_BATCH_LIMIT :: nat where
  "SCHEDULED_TASK_BATCH_LIMIT = 20"

section \<open>The store (pg\_store.rs)\<close>

text \<open>Decoding the JSON column: the smart constructors of the schedule's parts run again.\<close>

fun decode_schedule :: "schedule_spec \<Rightarrow> (task_error, schedule_spec) outcome" where
  "decode_schedule (Once at) = Ok (Once at)"
| "decode_schedule (Recurring ws t tz) =
     (if weekdays_is_empty ws then Err TDecode
      else case time_of_day_try_new (tod_hour t) (tod_minute t) of
        Ok _ \<Rightarrow> Ok (Recurring ws t tz) | _ \<Rightarrow> Err TDecode)"

definition row_to_record :: "task_row \<Rightarrow> (task_error, task_row) outcome" where
  "row_to_record r =
     and_then (map_err TParse (scheduled_task_name_try_from (t_name r)))
       (\<lambda>name. and_then (map_err TParse (scheduled_prompt_try_from (t_prompt r)))
       (\<lambda>prompt. and_then (decode_schedule (t_schedule r))
       (\<lambda>schedule. Ok (r\<lparr>t_name := name, t_prompt := prompt, t_schedule := schedule\<rparr>))))"

fun rows_to_records :: "task_row list \<Rightarrow> (task_error, task_row list) outcome" where
  "rows_to_records [] = Ok []"
| "rows_to_records (r # rs) =
     and_then (row_to_record r) (\<lambda>x. and_then (rows_to_records rs) (\<lambda>xs. Ok (x # xs)))"

definition active_count :: "scope \<Rightarrow> agent_id \<Rightarrow> sched_state \<Rightarrow> nat" where
  "active_count sc owner s =
     length (filter (\<lambda>r. t_owner_agent_id r = owner \<and> t_state r = Active \<and>
                         visible sc (ss_db s) (t_org_id r)) (ss_tasks s))"

definition task_of_payload :: "new_task \<Rightarrow> task_id \<Rightarrow> instant \<Rightarrow> task_row" where
  "task_of_payload p i now =
     \<lparr>t_id = i, t_owner_agent_id = nt_owner_agent_id p, t_org_id = nt_org_id p,
      t_created_by_user_id = nt_created_by_user_id p, t_name = nt_name p, t_prompt = nt_prompt p,
      t_schedule = nt_schedule p, t_next_run_at = nt_next_run_at p, t_last_fired_at = None,
      t_last_request_id = None, t_state = Active, t_created_at = now, t_updated_at = now\<rparr>"

text \<open>\<open>INSERT INTO scheduled_tasks\<close> with its trigger (the owner's organisation), policy and key.\<close>

definition create_in_tx ::
  "scope \<Rightarrow> new_task \<Rightarrow> task_id \<Rightarrow> instant \<Rightarrow> sched_state \<Rightarrow>
   (task_error, task_row) outcome \<times> sched_state" where
  "create_in_tx sc p i now s =
     (let owner = nt_owner_agent_id p; row = task_of_payload p i now in
      if MAX_SCHEDULED_TASKS_PER_AGENT \<le> active_count sc owner s
      then (Err (PerAgentCapExceeded owner MAX_SCHEDULED_TASKS_PER_AGENT), s)
      else if map_of (ss_agent_org s) owner \<noteq> Some (nt_org_id p)
           then (Err (TDb ''scheduled_tasks_enforce_org''), s)
      else if \<not> visible sc (ss_db s) (nt_org_id p) then (Err (TDb ''row-level security''), s)
      else if \<exists>r \<in> set (ss_tasks s). t_id r = i then (Err (TDb ''unique''), s)
      else case row_to_record row of
        Ok r \<Rightarrow> (Ok r, s\<lparr>ss_tasks := ss_tasks s @ [row]\<rparr>)
      | Err e \<Rightarrow> (Err e, s)
      | Panic m \<Rightarrow> (Panic m, s))"

definition create where
  "create p i now s = create_in_tx Privileged p i now s"

definition create_for_user where
  "create_for_user u p i now s = create_in_tx (AsUser u) (p\<lparr>nt_created_by_user_id := u\<rparr>) i now s"

definition cancel_in_tx ::
  "scope \<Rightarrow> task_id \<Rightarrow> agent_id \<Rightarrow> instant \<Rightarrow> sched_state \<Rightarrow> (task_error, unit) outcome \<times> sched_state" where
  "cancel_in_tx sc task owner now s =
     (case find (\<lambda>r. t_id r = task \<and> t_owner_agent_id r = owner \<and> visible sc (ss_db s) (t_org_id r))
             (ss_tasks s) of
        None \<Rightarrow> (Err (TNotFound task), s)
      | Some r \<Rightarrow>
          if t_state r \<noteq> Active then (Ok (), s)
          else (Ok (), s\<lparr>ss_tasks :=
                  update_where (\<lambda>r. t_id r = task \<and> visible sc (ss_db s) (t_org_id r))
                    (\<lambda>r. r\<lparr>t_state := TCancelled, t_next_run_at := None, t_updated_at := now\<rparr>)
                    (ss_tasks s)\<rparr>))"

definition cancel where
  "cancel task owner now s = cancel_in_tx Privileged task owner now s"

definition cancel_for_user where
  "cancel_for_user u task owner now s = cancel_in_tx (AsUser u) task owner now s"

definition list_for_agent :: "agent_id \<Rightarrow> sched_state \<Rightarrow> (task_error, task_row list) outcome" where
  "list_for_agent owner s =
     rows_to_records (take MAX_SCHEDULED_TASKS_PER_AGENT (sort_key t_created_at
       (filter (\<lambda>r. t_owner_agent_id r = owner \<and> t_state r = Active) (ss_tasks s))))"

definition due :: "instant \<Rightarrow> task_row \<Rightarrow> bool" where
  "due now r \<longleftrightarrow> t_state r = Active \<and> (case t_next_run_at r of None \<Rightarrow> False | Some t \<Rightarrow> t \<le> now)"

definition claim_due :: "instant \<Rightarrow> nat \<Rightarrow> sched_state \<Rightarrow> (task_error, task_row list) outcome" where
  "claim_due now limit s =
     rows_to_records (take limit (sort_key (\<lambda>r. the (t_next_run_at r)) (filter (due now) (ss_tasks s))))"

definition record_fired ::
  "task_id \<Rightarrow> prompt_request_id \<Rightarrow> instant \<Rightarrow> instant option \<Rightarrow> instant \<Rightarrow> sched_state \<Rightarrow>
   (task_error, unit) outcome \<times> sched_state" where
  "record_fired task request fired_at next now s =
     (Ok (), s\<lparr>ss_tasks :=
        update_where (\<lambda>r. t_id r = task)
          (\<lambda>r. r\<lparr>t_last_fired_at := Some fired_at, t_last_request_id := Some request,
                 t_next_run_at := next, t_state := (if next \<noteq> None then Active else TDone),
                 t_updated_at := now\<rparr>)
          (ss_tasks s)\<rparr>)"

section \<open>The scheduler (scheduler.rs)\<close>

definition sched_key :: "(uuid \<Rightarrow> string) \<Rightarrow> task_id \<Rightarrow> instant \<Rightarrow> string" where
  "sched_key show_uuid i fire_at = ''sched-'' @ show_uuid i @ ''-'' @ show_int fire_at"

definition fire_request :: "(uuid \<Rightarrow> string) \<Rightarrow> task_row \<Rightarrow> instant \<Rightarrow> (task_error, new_prompt_request) outcome" where
  "fire_request show_uuid task fire_at =
     and_then (map_err TParse (prompt_try_from (t_prompt task)))
       (\<lambda>prompt. and_then (map_err TParse (idempotency_key_try_from (sched_key show_uuid (t_id task) fire_at)))
       (\<lambda>key. Ok (new_prompt_request_normal None Human (t_owner_agent_id task) None prompt key
                    (t_org_id task) (t_created_by_user_id task))))"

text \<open>
  \<open>fire\<close>: \<open>now\<close> is the tick's clock reading, \<open>clk\<close> the queue's and the store's; \<open>rid\<close>
  and \<open>sid\<close> are the identifiers the enqueue mints.
\<close>

definition fire ::
  "queue_cfg \<Rightarrow> tzdb \<Rightarrow> (uuid \<Rightarrow> string) \<Rightarrow> task_row \<Rightarrow> instant \<Rightarrow> instant \<Rightarrow> prompt_request_id \<Rightarrow>
   session_id \<Rightarrow> string option \<Rightarrow> sched_state \<Rightarrow> (task_error, unit) outcome \<times> sched_state" where
  "fire q z show_uuid task now clk rid sid tp s =
     (let fire_at = (case t_next_run_at task of Some t \<Rightarrow> t | None \<Rightarrow> now) in
      case fire_request show_uuid task fire_at of
        Err e \<Rightarrow> (Err e, s)
      | Panic m \<Rightarrow> (Panic m, s)
      | Ok req \<Rightarrow>
          (case enqueue q req clk rid sid tp (ss_db s) of
             (Err e, d) \<Rightarrow> (Err (TQueue e), s\<lparr>ss_db := d\<rparr>)
           | (Panic m, d) \<Rightarrow> (Panic m, s\<lparr>ss_db := d\<rparr>)
           | (Ok out, d) \<Rightarrow>
               record_fired (t_id task) (outcome_request_id out) fire_at
                 (next_after z (t_schedule task) now) clk (s\<lparr>ss_db := d\<rparr>)))"

text \<open>The loop of \<open>tick\<close>: errors are logged and the next task is fired.\<close>

fun fire_all ::
  "queue_cfg \<Rightarrow> tzdb \<Rightarrow> (uuid \<Rightarrow> string) \<Rightarrow> instant \<Rightarrow> instant \<Rightarrow>
   (task_id \<Rightarrow> prompt_request_id \<times> session_id) \<Rightarrow> string option \<Rightarrow> task_row list \<Rightarrow> sched_state \<Rightarrow>
   (task_error, unit) outcome \<times> sched_state" where
  "fire_all q z show_uuid now clk ids tp [] s = (Ok (), s)"
| "fire_all q z show_uuid now clk ids tp (task # rest) s =
     (case fire q z show_uuid task now clk (fst (ids (t_id task))) (snd (ids (t_id task))) tp s of
        (Panic m, s') \<Rightarrow> (Panic m, s')
      | (_, s') \<Rightarrow> fire_all q z show_uuid now clk ids tp rest s')"

definition tick ::
  "queue_cfg \<Rightarrow> tzdb \<Rightarrow> (uuid \<Rightarrow> string) \<Rightarrow> instant \<Rightarrow> instant \<Rightarrow>
   (task_id \<Rightarrow> prompt_request_id \<times> session_id) \<Rightarrow> string option \<Rightarrow> sched_state \<Rightarrow>
   (task_error, unit) outcome \<times> sched_state" where
  "tick q z show_uuid now clk ids tp s =
     (case claim_due now SCHEDULED_TASK_BATCH_LIMIT s of
        Err e \<Rightarrow> (Err e, s)
      | Panic m \<Rightarrow> (Panic m, s)
      | Ok tasks \<Rightarrow> fire_all q z show_uuid now clk ids tp tasks s)"

section \<open>Lemmas\<close>

lemma row_to_record_Ok: "row_to_record r = Ok r' \<Longrightarrow> r' = r"
  by (cases "t_schedule r")
     (auto simp: row_to_record_def scheduled_task_name_try_from_def scheduled_prompt_try_from_def
        split: if_splits outcome.splits)

lemma rows_to_records_Ok: "rows_to_records rs = Ok xs \<Longrightarrow> xs = rs"
  by (induction rs arbitrary: xs) (auto dest: row_to_record_Ok)

lemma next_after_later: "next_after z spec now = Some u \<Longrightarrow> now < u"
  by (cases spec) (auto simp: next_recurring_def dest: recurring_from_Some split: if_splits)

lemma idempotency_key_id: "idempotency_key_try_from k = Ok x \<Longrightarrow> x = k"
  by (auto simp: idempotency_key_try_from_def split: if_splits)

lemma fire_request_Ok:
  assumes "fire_request show_uuid task at = Ok req"
  shows "np_org_id req = t_org_id task" "np_idempotency_key req = sched_key show_uuid (t_id task) at"
    "np_created_by_user_id req = t_created_by_user_id task"
    "\<not> (payload_kind (np_kind_payload req) = Normal \<and> np_sender req = enqueue_receiver req)"
  using assms
  by (auto simp: fire_request_def new_prompt_request_normal_def enqueue_receiver_def dest: idempotency_key_id)

lemma fire_OkE:
  assumes "fire q z show_uuid task now clk rid sid tp s = (Ok (), s')"
  obtains req out d where
    "fire_request show_uuid task (case t_next_run_at task of Some t \<Rightarrow> t | None \<Rightarrow> now) = Ok req"
    "enqueue q req clk rid sid tp (ss_db s) = (Ok out, d)"
    "s' = s\<lparr>ss_db := d, ss_tasks := update_where (\<lambda>r. t_id r = t_id task)
        (\<lambda>r. r\<lparr>t_last_fired_at := Some (case t_next_run_at task of Some t \<Rightarrow> t | None \<Rightarrow> now),
               t_last_request_id := Some (outcome_request_id out),
               t_next_run_at := next_after z (t_schedule task) now,
               t_state := (if next_after z (t_schedule task) now \<noteq> None then Active else TDone),
               t_updated_at := clk\<rparr>) (ss_tasks s)\<rparr>"
  using assms
  by (auto simp: fire_def Let_def record_fired_def split: outcome.splits prod.splits)

section \<open>Guarantees\<close>

text \<open>A claim of due tasks is fair: it returns at most the batch limit, only active tasks whose
  time has come, and leaves out a due task only for a full batch of tasks that were due no
  later.\<close>

theorem claim_due_earliest_first:
  assumes "claim_due now limit s = Ok batch"
  shows "length batch \<le> limit \<and> (\<forall>r \<in> set batch. r \<in> set (ss_tasks s) \<and> due now r) \<and>
     (\<forall>r \<in> set (ss_tasks s). due now r \<and> r \<notin> set batch \<longrightarrow>
        length batch = limit \<and> (\<forall>b \<in> set batch. the (t_next_run_at b) \<le> the (t_next_run_at r)))"
proof -
  let ?key = "\<lambda>r. the (t_next_run_at r)"
  let ?rows = "sort_key ?key (filter (due now) (ss_tasks s))"
  from assms have b: "batch = take limit ?rows" by (auto simp: claim_due_def dest: rows_to_records_Ok)
  have sorted: "sorted (map ?key ?rows)" by simp
  have rows: "set ?rows = {r \<in> set (ss_tasks s). due now r}" by auto
  have late: "length batch = limit \<and> (\<forall>x \<in> set batch. ?key x \<le> ?key r)"
    if r: "r \<in> set (ss_tasks s)" "due now r" "r \<notin> set batch" for r
  proof -
    have "set ?rows = set (take limit ?rows) \<union> set (drop limit ?rows)"
      by (simp only: set_append [symmetric] append_take_drop_id)
    with r rows b have "r \<in> set (drop limit ?rows)" by blast
    moreover from this have "limit < length ?rows" by (metis drop_all empty_iff list.set(1) not_le)
    moreover have "sorted (map ?key (take limit ?rows @ drop limit ?rows))" using sorted by simp
    ultimately show ?thesis unfolding b map_append sorted_append by auto
  qed
  have "\<forall>r \<in> set batch. r \<in> set (ss_tasks s) \<and> due now r"
    using rows set_take_subset [of limit ?rows] unfolding b by blast
  moreover have "length batch \<le> limit" by (simp add: b)
  ultimately show ?thesis using late by blast
qed

text \<open>A task fires once per due time even if the scheduler dies between the enqueue and the
  bookkeeping: firing the same task row again, after any further queue activity, finds the
  prompt already enqueued, adds nothing to the queue and records the original request.\<close>

theorem refire_does_not_duplicate:
  assumes "queue_inv queue_new (ss_db s)" and "t_next_run_at task = Some at"
    and "fire_request show_uuid task at = Ok req"
    and "enqueue queue_new req clk rid sid tp (ss_db s) = (Ok out, d1)"
    and "(queue_step queue_new)\<^sup>*\<^sup>* d1 (ss_db s2)"
  shows "\<exists>s3. fire queue_new z show_uuid task now clk' rid' sid' tp' s2 = (Ok (), s3) \<and>
     ss_db s3 = ss_db s2 \<and>
     (\<forall>r \<in> set (ss_tasks s3). t_id r = t_id task \<longrightarrow> t_last_request_id r = Some (outcome_request_id out))"
proof -
  from enqueue_again [OF assms(1,4,5) refl refl fire_request_Ok(4) [OF assms(3)]] obtain st where
    "enqueue queue_new req clk' rid' sid' tp' (ss_db s2) =
       (Ok (Existing (outcome_request_id out) (outcome_session out) st), ss_db s2)" by blast
  then show ?thesis
    using assms(2,3) by (auto simp: fire_def record_fired_def update_where_def)
qed

text \<open>Firing makes progress: after a successful fire the task is no longer due at the tick's
  time, either because its next run lies in the future or because it is done.\<close>

theorem fired_task_not_due:
  assumes "fire q z show_uuid task now clk rid sid tp s = (Ok (), s')"
  shows "\<forall>r \<in> set (ss_tasks s'). t_id r = t_id task \<longrightarrow> \<not> due now r"
  using assms
proof (rule fire_OkE)
qed (auto simp: due_def row_simps split: option.splits if_splits dest: next_after_later)

text \<open>Creating a task respects the cap: an accepted task is one of at most
  \<open>MAX_SCHEDULED_TASKS_PER_AGENT\<close> active tasks of its owner that the creator can see.\<close>

theorem create_respects_cap:
  assumes "create_in_tx sc p i now s = (Ok r, s')"
  shows "active_count sc (nt_owner_agent_id p) s' = active_count sc (nt_owner_agent_id p) s + 1 \<and>
     active_count sc (nt_owner_agent_id p) s' \<le> MAX_SCHEDULED_TASKS_PER_AGENT"
  using assms
  by (auto simp: create_in_tx_def Let_def active_count_def task_of_payload_def split: if_splits outcome.splits)

text \<open>A cancellation that arrives while the task is being fired is lost: the scheduler's
  bookkeeping writes the state without looking at it, so a cancelled recurring task is active
  again with a next run.\<close>

theorem cancel_during_fire_is_lost:
  assumes "distinct (map t_id (ss_tasks s))" and "r \<in> set (ss_tasks s)" and "t_state r = Active"
    and "cancel (t_id r) (t_owner_agent_id r) now s = (Ok (), s1)"
    and "next_after z (t_schedule r) now' = Some u"
    and "record_fired (t_id r) rid at (next_after z (t_schedule r) now') now' s1 = (Ok (), s2)"
  shows "(\<forall>x \<in> set (ss_tasks s1). t_id x = t_id r \<longrightarrow> t_state x = TCancelled) \<and>
     (\<exists>x \<in> set (ss_tasks s2). t_id x = t_id r \<and> t_state x = Active \<and> t_next_run_at x = Some u)"
proof -
  have "find (\<lambda>x. t_id x = t_id r \<and> t_owner_agent_id x = t_owner_agent_id r) (ss_tasks s) = Some r"
    using find_conj_unique [OF assms(1), of "t_id r" "\<lambda>x. t_owner_agent_id x = t_owner_agent_id r"]
      find_Some_iff_distinct [OF assms(1,2)] by simp
  with assms(3,4) have s1: "ss_tasks s1 = update_where (\<lambda>x. t_id x = t_id r)
      (\<lambda>x. x\<lparr>t_state := TCancelled, t_next_run_at := None, t_updated_at := now\<rparr>) (ss_tasks s)"
    by (auto simp: cancel_def cancel_in_tx_def)
  from assms(5,6) s1 have s2: "ss_tasks s2 = update_where (\<lambda>x. t_id x = t_id r)
      (\<lambda>x. x\<lparr>t_last_fired_at := Some at, t_last_request_id := Some rid, t_next_run_at := Some u,
             t_state := Active, t_updated_at := now'\<rparr>) (ss_tasks s1)"
    by (auto simp: record_fired_def)
  have "\<exists>x \<in> set (ss_tasks s1). t_id x = t_id r"
    unfolding s1 by (rule bex_update_where [OF assms(2)]) simp_all
  then obtain x where x: "x \<in> set (ss_tasks s1)" "t_id x = t_id r" by blast
  then have "\<exists>x \<in> set (ss_tasks s2). t_id x = t_id r \<and> t_state x = Active \<and> t_next_run_at x = Some u"
    unfolding s2 by (intro bex_update_where [OF x(1)]) (simp_all add: x(2))
  moreover have "\<forall>x \<in> set (ss_tasks s1). t_id x = t_id r \<longrightarrow> t_state x = TCancelled"
    unfolding s1 by (auto simp: row_simps)
  ultimately show ?thesis by blast
qed


section \<open>A task on the run\<close>

text \<open>Agent 1 of organisation 3 has a task that runs on workdays at 09:30 UTC, next on Friday
  2 January 1970; the scheduler ticks a minute late.\<close>

definition sample_task :: task_row where
  "sample_task =
     \<lparr>t_id = 40, t_owner_agent_id = 1, t_org_id = 3, t_created_by_user_id = 7, t_name = ''report'',
      t_prompt = ''write it'', t_schedule = Recurring WORKDAYS \<lparr>tod_hour = 9, tod_minute = 30\<rparr> ''UTC'',
      t_next_run_at = Some 120600, t_last_fired_at = None, t_last_request_id = None, t_state = Active,
      t_created_at = 0, t_updated_at = 0\<rparr>"

definition sample_state :: sched_state where
  "sample_state = \<lparr>ss_db = empty_db\<lparr>agents := [1], org_members := [(7, 3)]\<rparr>, ss_tasks = [sample_task],
                  ss_agent_org = [(1, 3)]\<rparr>"

definition sample_fired :: "(task_error, unit) outcome \<times> sched_state" where
  "sample_fired = fire queue_new utc show_nat sample_task 120660 120660 50 60 None sample_state"

theorem claim_due_earliest_first_witness:
  "claim_due 120660 20 sample_state = Ok [sample_task] \<and> due 120660 sample_task"
proof -
  have c: "claim_due 120660 20 sample_state = Ok [sample_task]" by code_simp
  from claim_due_earliest_first [OF c] c show ?thesis by simp
qed

lemma sample_fired_Ok: "sample_fired = (Ok (), snd sample_fired)"
  by code_simp

theorem fired_task_not_due_witness:
  "map t_id (ss_tasks (snd sample_fired)) = [40] \<and> \<not> due 120660 (hd (ss_tasks (snd sample_fired)))"
proof -
  have ids: "map t_id (ss_tasks (snd sample_fired)) = [40]" by code_simp
  then obtain r where "ss_tasks (snd sample_fired) = [r]" "t_id r = 40" by auto
  with ids fired_task_not_due [OF sample_fired_Ok [unfolded sample_fired_def]] show ?thesis
    by (simp add: sample_fired_def sample_task_def)
qed

theorem refire_does_not_duplicate_witness:
  "\<exists>s3. fire queue_new utc show_nat sample_task 120720 120720 51 61 None
      (sample_state\<lparr>ss_db := ss_db (snd sample_fired)\<rparr>) = (Ok (), s3) \<and> ss_db s3 = ss_db (snd sample_fired)"
proof -
  let ?req = "new_prompt_request_normal None Human 1 None ''write it'' ''sched-40-120600'' 3 7"
  have inv: "queue_inv queue_new (ss_db sample_state)" by code_simp
  have req: "fire_request show_nat sample_task 120600 = Ok ?req" by code_simp
  have enq: "enqueue queue_new ?req 120660 50 60 None (ss_db sample_state) =
      (Ok (Inserted 50 60 Pending), ss_db (snd sample_fired))" by code_simp
  have at: "t_next_run_at sample_task = Some 120600" by (simp add: sample_task_def)
  have run: "(queue_step queue_new)\<^sup>*\<^sup>* (ss_db (snd sample_fired))
      (ss_db (sample_state\<lparr>ss_db := ss_db (snd sample_fired)\<rparr>))" by simp
  from refire_does_not_duplicate [OF inv at req enq run, of utc 120720 120720 51 61 None]
  show ?thesis by auto
qed

theorem create_respects_cap_witness:
  "active_count Privileged 1 (snd (create_in_tx Privileged
      \<lparr>nt_owner_agent_id = 1, nt_org_id = 3, nt_created_by_user_id = 7, nt_name = ''n'', nt_prompt = ''p'',
       nt_schedule = Once 500, nt_next_run_at = Some 500\<rparr> 41 100 sample_state)) \<le> 50"
proof -
  let ?p = "\<lparr>nt_owner_agent_id = 1, nt_org_id = 3, nt_created_by_user_id = 7, nt_name = ''n'', nt_prompt = ''p'',
       nt_schedule = Once 500, nt_next_run_at = Some 500\<rparr>"
  let ?res = "create_in_tx Privileged ?p 41 100 sample_state"
  have "?res = (Ok (task_of_payload ?p 41 100), snd ?res)" by code_simp
  from create_respects_cap [OF this] show ?thesis by (simp add: MAX_SCHEDULED_TASKS_PER_AGENT_def)
qed

theorem cancel_during_fire_is_lost_witness:
  "\<exists>x \<in> set (ss_tasks (snd (record_fired 40 50 120600 (Some 379800) 120660
       (snd (cancel 40 1 120655 sample_state))))). t_id x = 40 \<and> t_state x = Active"
proof -
  let ?s1 = "snd (cancel 40 1 120655 sample_state)"
  let ?s2 = "snd (record_fired 40 50 120600 (Some 379800) 120660 ?s1)"
  have h: "distinct (map t_id (ss_tasks sample_state))" "sample_task \<in> set (ss_tasks sample_state)"
    "t_state sample_task = Active" "cancel (t_id sample_task) (t_owner_agent_id sample_task) 120655 sample_state = (Ok (), ?s1)"
    "next_after utc (t_schedule sample_task) 120660 = Some 379800"
    "record_fired (t_id sample_task) 50 120600 (next_after utc (t_schedule sample_task) 120660) 120660 ?s1 = (Ok (), ?s2)"
    by code_simp+
  from cancel_during_fire_is_lost [OF h] show ?thesis by (auto simp: sample_task_def)
qed

end
