(* ===== verification/Ttl_Cache.thy ===== *)
theory Ttl_Cache
  imports Relay_Prelude Relay_Systems "HOL-Library.AList"
begin

text \<open>
  The bounded TTL cache of \<open>src/cache.rs\<close>. A \<open>HashMap\<close> is an association list whose order
  is the (arbitrary) iteration order of the map; monotonic \<open>Instant\<close>s are natural numbers, so
  subtraction saturates as \<open>saturating_duration_since\<close> does. The epoch is the \<open>u64\<close> counter
  without its wrap-around. Each definition is one critical section, so a
  \<open>get_or_load\<close> in flight and a two-step \<open>invalidate\<close> can interleave; the second half of the
  theory proves that they may do so freely: after an invalidation has returned, no lookup sees
  a value from before it.
\<close>

record 'v cache_entry =
  ce_value :: 'v
  ce_fetched_at :: nat

record ('k, 'v) ttl_cache =
  tc_state :: "('k \<times> 'v cache_entry) list"
  tc_epoch :: nat
  tc_cap :: nat
  tc_ttl :: nat

definition cache_new :: "nat \<Rightarrow> nat \<Rightarrow> (unit, ('k, 'v) ttl_cache) outcome" where
  "cache_new cap ttl =
     (if cap = 0 then Panic ''cap must be > 0''
      else if ttl = 0 then Panic ''ttl must be > 0''
      else Ok \<lparr>tc_state = [], tc_epoch = 0, tc_cap = cap, tc_ttl = ttl\<rparr>)"

definition expired :: "nat \<Rightarrow> nat \<Rightarrow> 'v cache_entry \<Rightarrow> bool" where
  "expired now ttl e \<longleftrightarrow> ttl \<le> now - ce_fetched_at e"

definition lookup_fresh :: "('k, 'v) ttl_cache \<Rightarrow> 'k \<Rightarrow> nat \<Rightarrow> 'v option" where
  "lookup_fresh c k now =
     (case map_of (tc_state c) k of
        None \<Rightarrow> None
      | Some e \<Rightarrow> if expired now (tc_ttl c) e then None else Some (ce_value e))"

text \<open>The scan of \<open>evict_one\<close>: it stops at the first expired entry, else keeps the oldest.\<close>

fun evict_scan ::
  "nat \<Rightarrow> nat \<Rightarrow> ('k \<times> nat) option \<Rightarrow> ('k \<times> 'v cache_entry) list \<Rightarrow> 'k option" where
  "evict_scan now ttl oldest [] = map_option fst oldest"
| "evict_scan now ttl oldest ((k, e) # rest) =
     (if expired now ttl e then Some k
      else evict_scan now ttl
        (case oldest of
           None \<Rightarrow> Some (k, ce_fetched_at e)
         | Some (k', ts) \<Rightarrow> if ce_fetched_at e < ts then Some (k, ce_fetched_at e) else oldest)
        rest)"

definition evict_one :: "nat \<Rightarrow> nat \<Rightarrow> ('k \<times> 'v cache_entry) list \<Rightarrow> ('k \<times> 'v cache_entry) list" where
  "evict_one now ttl m =
     (case evict_scan now ttl None m of None \<Rightarrow> m | Some k \<Rightarrow> AList.delete k m)"

definition insert_if_epoch ::
  "'k \<Rightarrow> 'v \<Rightarrow> nat \<Rightarrow> nat \<Rightarrow> ('k, 'v) ttl_cache \<Rightarrow> (unit, unit) outcome \<times> ('k, 'v) ttl_cache" where
  "insert_if_epoch k v now started_at_epoch c =
     (if tc_epoch c \<noteq> started_at_epoch then (Ok (), c)
      else let full = tc_cap c \<le> length (tc_state c) \<and> map_of (tc_state c) k = None;
               m = (if full then evict_one now (tc_ttl c) (tc_state c) else tc_state c)
           in if full \<and> \<not> length m < tc_cap c then (Panic ''eviction made room'', c\<lparr>tc_state := m\<rparr>)
              else (Ok (), c\<lparr>tc_state := AList.update k \<lparr>ce_value = v, ce_fetched_at = now\<rparr> m\<rparr>))"

definition bump_epoch :: "('k, 'v) ttl_cache \<Rightarrow> ('k, 'v) ttl_cache" where
  "bump_epoch c = c\<lparr>tc_epoch := tc_epoch c + 1\<rparr>"

definition clear_entries :: "('k, 'v) ttl_cache \<Rightarrow> ('k, 'v) ttl_cache" where
  "clear_entries c = c\<lparr>tc_state := []\<rparr>"

definition remove_entry :: "'k \<Rightarrow> ('k, 'v) ttl_cache \<Rightarrow> ('k, 'v) ttl_cache" where
  "remove_entry k c = c\<lparr>tc_state := AList.delete k (tc_state c)\<rparr>"

definition clear :: "('k, 'v) ttl_cache \<Rightarrow> ('k, 'v) ttl_cache" where
  "clear c = clear_entries (bump_epoch c)"

definition invalidate :: "'k \<Rightarrow> ('k, 'v) ttl_cache \<Rightarrow> ('k, 'v) ttl_cache" where
  "invalidate k c = remove_entry k (bump_epoch c)"

definition cache_len :: "('k, 'v) ttl_cache \<Rightarrow> nat" where
  "cache_len c = length (tc_state c)"

text \<open>\<open>get_or_load\<close> when nothing interleaves; \<open>load\<close> is the caller's loader.\<close>

definition get_or_load ::
  "'k \<Rightarrow> ('e, 'v) outcome \<Rightarrow> nat \<Rightarrow> nat \<Rightarrow> ('k, 'v) ttl_cache \<Rightarrow> ('e, 'v) outcome \<times> ('k, 'v) ttl_cache" where
  "get_or_load k load now now_after c =
     (case lookup_fresh c k now of
        Some v \<Rightarrow> (Ok v, c)
      | None \<Rightarrow>
          (case load of
             Err e \<Rightarrow> (Err e, c)
           | Panic m \<Rightarrow> (Panic m, c)
           | Ok v \<Rightarrow>
               (case insert_if_epoch k v now_after (tc_epoch c) c of
                  (Panic m, c') \<Rightarrow> (Panic m, c')
                | (_, c') \<Rightarrow> (Ok v, c'))))"

section \<open>Size\<close>

definition cache_ok :: "('k, 'v) ttl_cache \<Rightarrow> bool" where
  "cache_ok c \<longleftrightarrow> distinct (map fst (tc_state c)) \<and> length (tc_state c) \<le> tc_cap c \<and> 0 < tc_cap c"

lemma evict_scan_in:
  "evict_scan now ttl oldest m = Some k \<Longrightarrow> k \<in> fst ` set m \<or> (\<exists>ts. oldest = Some (k, ts))"
  by (induction now ttl oldest m rule: evict_scan.induct) (fastforce split: if_splits option.splits)+

lemma evict_scan_Some: "oldest \<noteq> None \<or> m \<noteq> [] \<Longrightarrow> evict_scan now ttl oldest m \<noteq> None"
  by (induction now ttl oldest m rule: evict_scan.induct) (auto split: option.splits)

lemma length_delete:
  assumes "distinct (map fst m)" and "k \<in> fst ` set m"
  shows "Suc (length (AList.delete k m)) = length m"
  using assms by (induction m) (auto simp: delete_idem)

lemma length_evict_one:
  assumes "distinct (map fst m)" and "m \<noteq> []"
  shows "Suc (length (evict_one now ttl m)) = length m"
proof -
  obtain k where k: "evict_scan now ttl None m = Some k"
    using evict_scan_Some [of None m now ttl] assms(2) by blast
  with evict_scan_in [OF k] have "k \<in> fst ` set m" by simp
  with k assms(1) show ?thesis by (simp add: evict_one_def length_delete)
qed

lemma distinct_evict_one: "distinct (map fst m) \<Longrightarrow> distinct (map fst (evict_one now ttl m))"
  by (simp add: evict_one_def distinct_delete split: option.splits)

lemma length_update: "length (AList.update k v m) = (if k \<in> fst ` set m then length m else Suc (length m))"
  by (induction m) auto

lemma insert_ok:
  assumes "cache_ok c"
  obtains m where "insert_if_epoch k v now e c =
      (Ok (), if tc_epoch c = e then c\<lparr>tc_state := AList.update k \<lparr>ce_value = v, ce_fetched_at = now\<rparr> m\<rparr> else c)"
    "cache_ok (snd (insert_if_epoch k v now e c))" "map_of m \<subseteq>\<^sub>m map_of (tc_state c)"
proof -
  let ?full = "tc_cap c \<le> length (tc_state c) \<and> map_of (tc_state c) k = None"
  define m where "m = (if ?full then evict_one now (tc_ttl c) (tc_state c) else tc_state c)"
  from assms have d: "distinct (map fst (tc_state c))" and l: "length (tc_state c) \<le> tc_cap c" and p: "0 < tc_cap c"
    by (simp_all add: cache_ok_def)
  have full: "length m < tc_cap c" if ?full
  proof -
    from that p have "tc_state c \<noteq> []" by auto
    from length_evict_one [OF d this, of now "tc_ttl c"] that l show ?thesis by (simp add: m_def)
  qed
  have dm: "distinct (map fst m)" using d by (simp add: m_def distinct_evict_one)
  have sub: "map_of m \<subseteq>\<^sub>m map_of (tc_state c)"
    by (auto simp: m_def evict_one_def map_le_def delete_conv' split: option.splits)
  have eq: "insert_if_epoch k v now e c =
      (Ok (), if tc_epoch c = e then c\<lparr>tc_state := AList.update k \<lparr>ce_value = v, ce_fetched_at = now\<rparr> m\<rparr> else c)"
    using full unfolding insert_if_epoch_def Let_def m_def [symmetric] by auto
  have "length (AList.update k \<lparr>ce_value = v, ce_fetched_at = now\<rparr> m) \<le> tc_cap c"
  proof (cases ?full)
    case True
    with full show ?thesis by (simp add: length_update)
  next
    case False
    then show ?thesis using l by (auto simp: length_update m_def map_of_eq_None_iff)
  qed
  with dm p l d have "cache_ok (snd (insert_if_epoch k v now e c))"
    unfolding eq by (simp add: cache_ok_def distinct_update)
  then show thesis by (intro that [OF eq _ sub])
qed


section \<open>Loads and invalidations in flight\<close>

text \<open>
  The world around one cache: the source of truth its loaders read, the loads in flight (the
  epoch each read before it started, and the value once it has one), and the invalidations
  in flight. A writer first changes the source and then calls \<open>invalidate\<close> or \<open>clear\<close>
  (\<open>None\<close>), which bumps the epoch and then, in its own critical section, drops entries.
\<close>

record ('k, 'v) load =
  ld_key :: 'k
  ld_epoch :: nat
  ld_value :: "'v option"

record ('k, 'v) world =
  w_cache :: "('k, 'v) ttl_cache"
  w_src :: "'k \<Rightarrow> 'v"
  w_loads :: "('k, 'v) load list"
  w_unbumped :: "'k option list"
  w_bumped :: "'k option list"

definition covers :: "'k option \<Rightarrow> 'k \<Rightarrow> bool" where
  "covers i k \<longleftrightarrow> i = None \<or> i = Some k"

definition in_flight :: "'k option list \<Rightarrow> 'k \<Rightarrow> bool" where
  "in_flight is k \<longleftrightarrow> (\<exists>i \<in> set is. covers i k)"

fun drop_entries :: "'k option \<Rightarrow> ('k, 'v) ttl_cache \<Rightarrow> ('k, 'v) ttl_cache" where
  "drop_entries None c = clear_entries c"
| "drop_entries (Some k) c = remove_entry k c"

inductive cache_step :: "('k, 'v) world \<Rightarrow> ('k, 'v) world \<Rightarrow> bool" where
  load_miss: "lookup_fresh (w_cache w) k now = None \<Longrightarrow>
     cache_step w (w\<lparr>w_loads := \<lparr>ld_key = k, ld_epoch = tc_epoch (w_cache w), ld_value = None\<rparr> # w_loads w\<rparr>)"
| load_read: "w_loads w = xs @ l # ys \<Longrightarrow> ld_value l = None \<Longrightarrow>
     cache_step w (w\<lparr>w_loads := xs @ l\<lparr>ld_value := Some (w_src w (ld_key l))\<rparr> # ys\<rparr>)"
| load_fail: "w_loads w = xs @ l # ys \<Longrightarrow> cache_step w (w\<lparr>w_loads := xs @ ys\<rparr>)"
| load_finish: "w_loads w = xs @ l # ys \<Longrightarrow> ld_value l = Some v \<Longrightarrow>
     insert_if_epoch (ld_key l) v now (ld_epoch l) (w_cache w) = (res, c') \<Longrightarrow>
     cache_step w (w\<lparr>w_cache := c', w_loads := xs @ ys\<rparr>)"
| write_src: "(\<And>k. \<not> covers i k \<Longrightarrow> src' k = w_src w k) \<Longrightarrow>
     cache_step w (w\<lparr>w_src := src', w_unbumped := i # w_unbumped w\<rparr>)"
| inval_bump: "w_unbumped w = xs @ i # ys \<Longrightarrow>
     cache_step w (w\<lparr>w_cache := bump_epoch (w_cache w), w_unbumped := xs @ ys, w_bumped := i # w_bumped w\<rparr>)"
| inval_drop: "w_bumped w = xs @ i # ys \<Longrightarrow>
     cache_step w (w\<lparr>w_cache := drop_entries i (w_cache w), w_bumped := xs @ ys\<rparr>)"

definition coherent :: "('k, 'v) world \<Rightarrow> bool" where
  "coherent w \<longleftrightarrow> cache_ok (w_cache w) \<and>
     (\<forall>k e. map_of (tc_state (w_cache w)) k = Some e \<longrightarrow>
        ce_value e = w_src w k \<or> in_flight (w_unbumped w) k \<or> in_flight (w_bumped w) k) \<and>
     (\<forall>l \<in> set (w_loads w). ld_epoch l \<le> tc_epoch (w_cache w) \<and>
        (\<forall>v. ld_value l = Some v \<longrightarrow>
           v = w_src w (ld_key l) \<or> in_flight (w_unbumped w) (ld_key l) \<or> ld_epoch l < tc_epoch (w_cache w)))"

lemma in_flight_simps [simp]:
  "in_flight [] k \<longleftrightarrow> False" "in_flight (i # is) k \<longleftrightarrow> covers i k \<or> in_flight is k"
  "in_flight (xs @ ys) k \<longleftrightarrow> in_flight xs k \<or> in_flight ys k"
  by (auto simp: in_flight_def)

lemma drop_entries_lookup:
  "map_of (tc_state (drop_entries i c)) k = (if covers i k then None else map_of (tc_state c) k)"
  by (cases i) (auto simp: clear_entries_def remove_entry_def covers_def delete_conv')

lemma drop_entries_fields [simp]:
  "tc_epoch (drop_entries i c) = tc_epoch c" "tc_ttl (drop_entries i c) = tc_ttl c"
  by (cases i; simp add: clear_entries_def remove_entry_def)+

lemma drop_entries_ok: "cache_ok c \<Longrightarrow> cache_ok (drop_entries i c)"
  using length_delete_le [where al = "tc_state c"] distinct_delete [where al = "tc_state c"]
  by (cases i) (auto simp: cache_ok_def clear_entries_def remove_entry_def intro: le_trans)

lemma coherent_finish:
  assumes "coherent w" and "w_loads w = xs @ l # ys" and "ld_value l = Some v"
    and "insert_if_epoch (ld_key l) v now (ld_epoch l) (w_cache w) = (res, c')"
  shows "coherent (w\<lparr>w_cache := c', w_loads := xs @ ys\<rparr>)"
proof -
  let ?k = "ld_key l"
  from assms(1) have ok: "cache_ok (w_cache w)" by (simp add: coherent_def)
  from insert_ok [OF ok, where k = ?k and v = v and now = now and e = "ld_epoch l"] assms(4) obtain m where
    c': "c' = (if tc_epoch (w_cache w) = ld_epoch l
        then (w_cache w)\<lparr>tc_state := AList.update ?k \<lparr>ce_value = v, ce_fetched_at = now\<rparr> m\<rparr> else w_cache w)"
    and ok': "cache_ok c'" and sub: "map_of m \<subseteq>\<^sub>m map_of (tc_state (w_cache w))" by auto
  have ep: "tc_epoch c' = tc_epoch (w_cache w)" by (simp add: c')
  have val: "ce_value e = w_src w k \<or> in_flight (w_unbumped w) k \<or> in_flight (w_bumped w) k"
    if e: "map_of (tc_state c') k = Some e" for k e
  proof (cases "tc_epoch (w_cache w) = ld_epoch l \<and> k = ?k")
    case True
    with e have "ce_value e = v" by (auto simp: c' update_conv')
    with True assms(1-3) show ?thesis by (auto simp: coherent_def)
  next
    case False
    with e sub have "map_of (tc_state (w_cache w)) k = Some e"
      by (auto simp: c' update_conv' map_le_def dom_def split: if_splits)
    with assms(1) show ?thesis by (auto simp: coherent_def)
  qed
  show ?thesis using assms(1,2) ok' val by (auto simp: coherent_def ep)
qed

lemma coherent_step:
  assumes "coherent w" and "cache_step w w'"
  shows "coherent w'"
  using assms(2)
proof cases
  case (load_finish xs l ys v now res c')
  then show ?thesis using coherent_finish [OF assms(1)] by blast
next
  case (inval_bump xs i ys)
  with assms(1) show ?thesis by (fastforce simp: coherent_def bump_epoch_def cache_ok_def)
next
  case (inval_drop xs i ys)
  with assms(1) show ?thesis
    by (auto simp: coherent_def drop_entries_lookup drop_entries_ok split: if_splits)
next
  case (write_src i src')
  with assms(1) show ?thesis unfolding coherent_def by (auto, (metis)+)
next
  case (load_read xs l ys)
  with assms(1) show ?thesis by (auto simp: coherent_def)
qed (use assms(1) in \<open>auto simp: coherent_def\<close>)

interpretation cache: preserving cache_step coherent
  by unfold_locales (rule coherent_step)


section \<open>Guarantees\<close>

definition world_start :: "nat \<Rightarrow> nat \<Rightarrow> ('k \<Rightarrow> 'v) \<Rightarrow> ('k, 'v) world" where
  "world_start cap ttl src = \<lparr>w_cache = \<lparr>tc_state = [], tc_epoch = 0, tc_cap = cap, tc_ttl = ttl\<rparr>,
     w_src = src, w_loads = [], w_unbumped = [], w_bumped = []\<rparr>"

lemma world_start_coherent: "0 < cap \<Longrightarrow> coherent (world_start cap ttl src)"
  by (simp add: world_start_def coherent_def cache_ok_def)

text \<open>C9. Fresh after invalidate: however loads, writes and invalidations interleave, once every
  invalidation of a key has returned a lookup of the key yields the current value of the source
  or misses; a load that raced the invalidation cannot put an older value back.\<close>

theorem cache_fresh_after_invalidate:
  assumes "0 < cap" and "cache_step\<^sup>*\<^sup>* (world_start cap ttl src) w"
    and "\<not> in_flight (w_unbumped w) k" and "\<not> in_flight (w_bumped w) k"
    and "lookup_fresh (w_cache w) k now = Some v"
  shows "v = w_src w k"
proof -
  have "coherent w" by (rule cache.run_inv [OF assms(2) world_start_coherent [OF assms(1)]])
  with assms(3-5) show ?thesis
    by (auto simp: coherent_def lookup_fresh_def split: option.splits if_splits)
qed

text \<open>The cache never grows past its cap, under any interleaving, and the assertion that an
  eviction made room never fires.\<close>

theorem cache_bounded:
  assumes "0 < cap" and "cache_step\<^sup>*\<^sup>* (world_start cap ttl src) w"
  shows "cache_len (w_cache w) \<le> tc_cap (w_cache w) \<and>
     \<not> is_Panic (fst (insert_if_epoch k v now e (w_cache w)))"
proof -
  have ok: "cache_ok (w_cache w)"
    using cache.run_inv [OF assms(2) world_start_coherent [OF assms(1)]] by (simp add: coherent_def)
  from insert_ok [OF ok, where k = k and v = v and now = now and e = e] have
    "fst (insert_if_epoch k v now e (w_cache w)) = Ok ()" by force
  with ok show ?thesis by (simp add: cache_ok_def cache_len_def)
qed

text \<open>One load of key 5 races a write and its invalidation, and loses.\<close>

definition race_src :: "nat \<Rightarrow> nat" where
  "race_src k = 10"

definition race_world ::
  "nat \<Rightarrow> (nat \<times> nat cache_entry) list \<Rightarrow> (nat \<Rightarrow> nat) \<Rightarrow> (nat, nat) load list \<Rightarrow> nat option list \<Rightarrow> nat option list \<Rightarrow>
   (nat, nat) world" where
  "race_world ep st src ls ub b = \<lparr>w_cache = \<lparr>tc_state = st, tc_epoch = ep, tc_cap = 1, tc_ttl = 60\<rparr>,
     w_src = src, w_loads = ls, w_unbumped = ub, w_bumped = b\<rparr>"

definition race_load :: "nat \<Rightarrow> nat option \<Rightarrow> (nat, nat) load" where
  "race_load e v = \<lparr>ld_key = 5, ld_epoch = e, ld_value = v\<rparr>"

abbreviation race_new :: "nat \<Rightarrow> nat" where
  "race_new \<equiv> race_src(5 := 11)"

abbreviation race_end :: "(nat, nat) world" where
  "race_end \<equiv> race_world 1 [(5, \<lparr>ce_value = 11, ce_fetched_at = 7\<rparr>)] race_new [] [] []"

lemma race_run: "cache_step\<^sup>*\<^sup>* (world_start 1 60 race_src) race_end"
proof -
  note defs = race_world_def race_load_def world_start_def lookup_fresh_def bump_epoch_def remove_entry_def
    insert_if_epoch_def covers_def race_src_def
  have "cache_step (world_start 1 60 race_src) (race_world 0 [] race_src [race_load 0 None] [] [])"
    using cache_step.load_miss [of "world_start 1 60 race_src" 5 1] by (simp add: defs)
  moreover have "cache_step (race_world 0 [] race_src [race_load 0 None] [] [])
      (race_world 0 [] race_src [race_load 0 (Some 10)] [] [])"
    using cache_step.load_read [of "race_world 0 [] race_src [race_load 0 None] [] []" "[]" "race_load 0 None" "[]"]
    by (simp add: defs)
  moreover have "cache_step (race_world 0 [] race_src [race_load 0 (Some 10)] [] [])
      (race_world 0 [] race_new [race_load 0 (Some 10)] [Some 5] [])"
    using cache_step.write_src [of "Some 5" race_new "race_world 0 [] race_src [race_load 0 (Some 10)] [] []"]
    by (simp add: defs)
  moreover have "cache_step (race_world 0 [] race_new [race_load 0 (Some 10)] [Some 5] [])
      (race_world 1 [] race_new [race_load 0 (Some 10)] [] [Some 5])"
    using cache_step.inval_bump [of "race_world 0 [] race_new [race_load 0 (Some 10)] [Some 5] []" "[]" "Some 5" "[]"]
    by (simp add: defs)
  moreover have "cache_step (race_world 1 [] race_new [race_load 0 (Some 10)] [] [Some 5])
      (race_world 1 [] race_new [race_load 0 (Some 10)] [] [])"
    using cache_step.inval_drop [of "race_world 1 [] race_new [race_load 0 (Some 10)] [] [Some 5]" "[]" "Some 5" "[]"]
    by (simp add: defs)
  moreover have "cache_step (race_world 1 [] race_new [race_load 0 (Some 10)] [] []) (race_world 1 [] race_new [] [] [])"
    using cache_step.load_finish [of "race_world 1 [] race_new [race_load 0 (Some 10)] [] []" "[]"
        "race_load 0 (Some 10)" "[]" 10] by (simp add: defs)
  moreover have "cache_step (race_world 1 [] race_new [] [] []) (race_world 1 [] race_new [race_load 1 None] [] [])"
    using cache_step.load_miss [of "race_world 1 [] race_new [] [] []" 5 1] by (simp add: defs)
  moreover have "cache_step (race_world 1 [] race_new [race_load 1 None] [] [])
      (race_world 1 [] race_new [race_load 1 (Some 11)] [] [])"
    using cache_step.load_read [of "race_world 1 [] race_new [race_load 1 None] [] []" "[]" "race_load 1 None" "[]"]
    by (simp add: defs)
  moreover have "cache_step (race_world 1 [] race_new [race_load 1 (Some 11)] [] []) race_end"
    using cache_step.load_finish [of "race_world 1 [] race_new [race_load 1 (Some 11)] [] []" "[]"
        "race_load 1 (Some 11)" "[]" 11 7] by (simp add: defs)
  ultimately show ?thesis by (meson converse_rtranclp_into_rtranclp rtranclp.rtrancl_refl)
qed

theorem cache_fresh_after_invalidate_witness:
  "lookup_fresh (w_cache race_end) 5 9 = Some 11 \<and> 11 = w_src race_end 5"
proof -
  have l: "lookup_fresh (w_cache race_end) 5 9 = Some 11"
    by (simp add: race_world_def lookup_fresh_def expired_def)
  from cache_fresh_after_invalidate [OF _ race_run _ _ l] l show ?thesis by (simp add: race_world_def)
qed

theorem cache_bounded_witness:
  "cache_len (w_cache race_end) \<le> 1 \<and> \<not> is_Panic (fst (insert_if_epoch 6 12 8 1 (w_cache race_end)))"
  using cache_bounded [OF _ race_run, of 6 12 8 1] by (simp add: race_world_def)

end
