(* ===== verification/Rate_Limiter.thy ===== *)
theory Rate_Limiter
  imports Relay_Types "HOL-Library.AList"
begin

text \<open>
  The per-user limiter of \<open>src/mcp/rate_limit.rs\<close>. The bucket map is an association list in
  its iteration order; monotonic \<open>Instant\<close>s are natural numbers of seconds, so
  \<open>checked_sub(WINDOW)\<close> fails below 60. The guarantees: no minute has more than
  \<open>MCP_TEST_CONNECT_PER_MIN\<close> admissions of one user as long as its bucket is not evicted, and
  the map stays within \<open>MCP_TEST_CONNECT_BUCKETS_MAX\<close>.
\<close>

definition WINDOW :: nat where
  "WINDOW = 60"

definition MCP_TEST_CONNECT_PER_MIN :: nat where
  "MCP_TEST_CONNECT_PER_MIN = 10"

definition MCP_TEST_CONNECT_BUCKETS_MAX :: nat where
  "MCP_TEST_CONNECT_BUCKETS_MAX = 4096"

record bucket =
  b_samples :: "nat list"
  b_last_touched :: nat

type_synonym buckets = "(user_id \<times> bucket) list"

text \<open>The \<open>while front() < cutoff { pop_front() }\<close> loop.\<close>

definition prune :: "nat \<Rightarrow> nat list \<Rightarrow> nat list" where
  "prune now samples = (if now < WINDOW then samples else dropWhile (\<lambda>t. t < now - WINDOW) samples)"

definition evict_lru :: "user_id \<Rightarrow> buckets \<Rightarrow> buckets" where
  "evict_lru user m =
     (case first_min (\<lambda>(_, b). b_last_touched b) (filter (\<lambda>(u, _). u \<noteq> user) m) of
        None \<Rightarrow> m
      | Some (v, _) \<Rightarrow> AList.delete v m)"

definition try_admit :: "nat \<Rightarrow> user_id \<Rightarrow> buckets \<Rightarrow> (unit, bool) outcome \<times> buckets" where
  "try_admit now user m =
     (let old = (case map_of m user of Some b \<Rightarrow> b_samples b | None \<Rightarrow> []);
          samples = prune now old;
          touched = AList.update user \<lparr>b_samples = samples, b_last_touched = now\<rparr> m in
      if MCP_TEST_CONNECT_PER_MIN < length samples then (Panic ''samples.len() <= MCP_TEST_CONNECT_PER_MIN'', touched)
      else if MCP_TEST_CONNECT_PER_MIN \<le> length samples then (Ok False, touched)
      else let m' = AList.update user \<lparr>b_samples = samples @ [now], b_last_touched = now\<rparr> m
           in (Ok True, if MCP_TEST_CONNECT_BUCKETS_MAX < length m' then evict_lru user m' else m'))"

text \<open>A run of calls, with the admissions it granted.\<close>

fun admissions :: "(nat \<times> user_id) list \<Rightarrow> buckets \<Rightarrow> (nat \<times> user_id) list \<times> buckets" where
  "admissions [] m = ([], m)"
| "admissions ((now, u) # calls) m =
     (case try_admit now u m of
        (r, m') \<Rightarrow> (case admissions calls m' of
           (as, m'') \<Rightarrow> ((if r = Ok True then [(now, u)] else []) @ as, m'')))"

section \<open>The bucket map\<close>

definition buckets_ok :: "buckets \<Rightarrow> bool" where
  "buckets_ok m \<longleftrightarrow> distinct (map fst m) \<and> length m \<le> MCP_TEST_CONNECT_BUCKETS_MAX \<and>
     (\<forall>(u, b) \<in> set m. length (b_samples b) \<le> MCP_TEST_CONNECT_PER_MIN)"

lemma length_prune: "length (prune now s) \<le> length s"
  by (simp add: prune_def length_dropWhile_le)

lemma alist_length_update: "length (AList.update k v m) = (if k \<in> fst ` set m then length m else Suc (length m))"
  by (induction m) auto

lemma set_alist_update: "distinct (map fst m) \<Longrightarrow> set (AList.update k v m) = {(k, v)} \<union> {x \<in> set m. fst x \<noteq> k}"
  by (induction m) (auto simp: image_iff)

lemma alist_length_delete:
  "distinct (map fst m) \<Longrightarrow> k \<in> fst ` set m \<Longrightarrow> Suc (length (AList.delete k m)) = length m"
  by (induction m) (auto simp: delete_idem)

lemma set_delete_subset: "set (AList.delete k m) \<subseteq> set m"
  by (auto simp: AList.delete_eq)

lemma evict_lru_ok:
  assumes d: "distinct (map fst m)" and len: "length m \<le> Suc MCP_TEST_CONNECT_BUCKETS_MAX"
    and over: "MCP_TEST_CONNECT_BUCKETS_MAX < length m"
  shows "distinct (map fst (evict_lru u m)) \<and> length (evict_lru u m) \<le> MCP_TEST_CONNECT_BUCKETS_MAX \<and>
     set (evict_lru u m) \<subseteq> set m"
proof -
  let ?others = "filter (\<lambda>(v, _). v \<noteq> u) m"
  have "length (filter (\<lambda>(v, _). v = u) m) \<le> 1"
    using d by (induction m) (auto simp: filter_empty_conv image_iff split: prod.splits)
  moreover have "length m = length (filter (\<lambda>(v, _). v = u) m) + length ?others"
    using sum_length_filter_compl [of "\<lambda>(v, _). v = u" m] by (simp add: case_prod_unfold)
  ultimately have "?others \<noteq> []" using over by (auto simp: MCP_TEST_CONNECT_BUCKETS_MAX_def)
  then obtain v b where v: "first_min (\<lambda>(_, b). b_last_touched b) ?others = Some (v, b)"
    by (metis first_min_None not_None_eq surj_pair)
  then have "v \<in> fst ` set m" using first_min_in [OF v] by (force)
  with d len v show ?thesis
    using alist_length_delete [OF d, of v] distinct_delete [OF d, of v] set_delete_subset [of v m]
    by (simp add: evict_lru_def)
qed

lemma try_admit_ok:
  assumes "buckets_ok m" and "try_admit now u m = (r, m')"
  shows "buckets_ok m' \<and> \<not> is_Panic r"
proof -
  let ?old = "case map_of m u of Some b \<Rightarrow> b_samples b | None \<Rightarrow> []"
  let ?s = "prune now ?old"
  from assms(1) have d: "distinct (map fst m)" and l: "length m \<le> MCP_TEST_CONNECT_BUCKETS_MAX"
    and b: "\<And>v x. (v, x) \<in> set m \<Longrightarrow> length (b_samples x) \<le> MCP_TEST_CONNECT_PER_MIN"
    by (auto simp: buckets_ok_def)
  have "length ?old \<le> MCP_TEST_CONNECT_PER_MIN"
    using b by (auto split: option.splits dest: map_of_SomeD)
  then have s: "length ?s \<le> MCP_TEST_CONNECT_PER_MIN" using length_prune le_trans by blast
  have upd: "buckets_ok (AList.update u x m) \<or>
      MCP_TEST_CONNECT_BUCKETS_MAX < length (AList.update u x m) \<and>
      length (AList.update u x m) \<le> Suc MCP_TEST_CONNECT_BUCKETS_MAX"
    if "length (b_samples x) \<le> MCP_TEST_CONNECT_PER_MIN" for x
    using d l b that by (auto simp: buckets_ok_def alist_length_update set_alist_update distinct_update)
  have small: "\<forall>(v, y) \<in> set (AList.update u x m). length (b_samples y) \<le> MCP_TEST_CONNECT_PER_MIN"
    if "length (b_samples x) \<le> MCP_TEST_CONNECT_PER_MIN" for x
    using d b that by (auto simp: set_alist_update)
  show ?thesis
  proof (cases "length ?s < MCP_TEST_CONNECT_PER_MIN")
    case True
    let ?x = "\<lparr>b_samples = ?s @ [now], b_last_touched = now\<rparr>"
    from True have len: "length (b_samples ?x) \<le> MCP_TEST_CONNECT_PER_MIN" by simp
    have d': "distinct (map fst (AList.update u ?x m))" using d by (rule distinct_update)
    from True assms(2) have m': "r = Ok True" "m' = (if MCP_TEST_CONNECT_BUCKETS_MAX < length (AList.update u ?x m)
        then evict_lru u (AList.update u ?x m) else AList.update u ?x m)"
      by (auto simp: try_admit_def Let_def)
    show ?thesis
    proof (cases "MCP_TEST_CONNECT_BUCKETS_MAX < length (AList.update u ?x m)")
      case over: True
      have "length (AList.update u ?x m) \<le> Suc MCP_TEST_CONNECT_BUCKETS_MAX"
        using l by (simp add: alist_length_update)
      from evict_lru_ok [OF d' this over, of u] small [OF len] m' over show ?thesis
        unfolding buckets_ok_def by (auto dest!: subsetD)
    next
      case False
      with upd [OF len] m' show ?thesis by auto
    qed
  next
    case False
    with s have eq: "length ?s = MCP_TEST_CONNECT_PER_MIN" by simp
    let ?x = "\<lparr>b_samples = ?s, b_last_touched = now\<rparr>"
    from eq assms(2) have m': "r = Ok False" "m' = AList.update u ?x m" by (auto simp: try_admit_def Let_def)
    have "map_of m u \<noteq> None"
      using eq by (cases "map_of m u") (auto simp: prune_def MCP_TEST_CONNECT_PER_MIN_def split: if_splits)
    then have "u \<in> fst ` set m" by (simp add: map_of_eq_None_iff)
    with l have "\<not> MCP_TEST_CONNECT_BUCKETS_MAX < length (AList.update u ?x m)" by (simp add: alist_length_update)
    with upd [of ?x] eq m' show ?thesis by auto
  qed
qed


section \<open>Admissions of one user\<close>

definition admit_times :: "user_id \<Rightarrow> (nat \<times> user_id) list \<Rightarrow> nat list" where
  "admit_times u as = map fst (filter (\<lambda>(_, v). v = u) as)"

definition samples_of :: "buckets \<Rightarrow> user_id \<Rightarrow> nat list" where
  "samples_of m u = (case map_of m u of Some b \<Rightarrow> b_samples b | None \<Rightarrow> [])"

text \<open>Among any eleven admissions in a row, the last is more than a minute after the first.\<close>

definition spaced :: "nat list \<Rightarrow> bool" where
  "spaced as \<longleftrightarrow> (\<forall>i. i + MCP_TEST_CONNECT_PER_MIN < length as \<longrightarrow>
     as ! i + WINDOW < as ! (i + MCP_TEST_CONNECT_PER_MIN))"

lemma spaced_snoc:
  assumes "spaced (old @ recent)" and "length recent < MCP_TEST_CONNECT_PER_MIN"
    and "\<forall>p \<in> set old. p + WINDOW < now"
  shows "spaced (old @ recent @ [now])"
  unfolding spaced_def
proof (intro allI impI)
  fix i assume i: "i + MCP_TEST_CONNECT_PER_MIN < length (old @ recent @ [now])"
  show "(old @ recent @ [now]) ! i + WINDOW < (old @ recent @ [now]) ! (i + MCP_TEST_CONNECT_PER_MIN)"
  proof (cases "i + MCP_TEST_CONNECT_PER_MIN < length (old @ recent)")
    case True
    with assms(1) show ?thesis by (auto simp: spaced_def nth_append simp flip: append_assoc)
  next
    case False
    with i have e: "i + MCP_TEST_CONNECT_PER_MIN = length old + length recent" by simp
    with assms(2) have "i < length old" by linarith
    moreover from this assms(3) have "old ! i + WINDOW < now" by simp
    ultimately show ?thesis by (simp add: nth_append e)
  qed
qed

lemma try_admit_no_evict:
  assumes "buckets_ok m" and "finite U" and "card U \<le> MCP_TEST_CONNECT_BUCKETS_MAX" and "fst ` set m \<subseteq> U"
    and "v \<in> U" and "try_admit now v m = (r, m')"
  shows "fst ` set m' \<subseteq> U" "r = Ok True \<longleftrightarrow> length (prune now (samples_of m v)) < MCP_TEST_CONNECT_PER_MIN"
    "samples_of m' u = (if u = v then prune now (samples_of m v) @ (if r = Ok True then [now] else []) else samples_of m u)"
proof -
  have keys: "fst ` set (AList.update v x m) \<subseteq> U" for x 
    using assms(4,5) unfolding set_map [symmetric] update_keys by (auto split: if_splits)
  have "length (AList.update v x m) \<le> card U" for x
  proof -
    have "distinct (map fst (AList.update v x m))" using assms(1) by (simp add: buckets_ok_def distinct_update)
    then have "length (AList.update v x m) = card (fst ` set (AList.update v x m))"
      by (metis distinct_card length_map set_map)
    also have "\<dots> \<le> card U" by (rule card_mono [OF assms(2) keys])
    finally show ?thesis .
  qed
  then have "\<not> MCP_TEST_CONNECT_BUCKETS_MAX < length (AList.update v x m)" for x
    using assms(3) by (meson le_trans not_le)
  moreover have "\<not> is_Panic r" using try_admit_ok [OF assms(1,6)] by simp
  ultimately show "fst ` set m' \<subseteq> U"
    "r = Ok True \<longleftrightarrow> length (prune now (samples_of m v)) < MCP_TEST_CONNECT_PER_MIN"
    "samples_of m' u = (if u = v then prune now (samples_of m v) @ (if r = Ok True then [now] else []) else samples_of m u)"
    using assms(6) keys
    by (auto simp: try_admit_def Let_def samples_of_def update_conv' split: if_splits)
qed

lemma prune_split:
  obtains gone where "s = gone @ prune now s" "\<forall>t \<in> set gone. t + WINDOW < now"
proof (cases "now < WINDOW")
  case True
  then show ?thesis by (intro that [of "[]"]) (simp_all add: prune_def)
next
  case False
  let ?p = "\<lambda>t. t < now - WINDOW"
  have "\<forall>t \<in> set (takeWhile ?p s). t + WINDOW < now" by (auto dest: set_takeWhileD)
  with False show ?thesis by (intro that [of "takeWhile ?p s"]) (simp_all add: prune_def)
qed

lemma admissions_spaced:
  assumes "buckets_ok m" and "finite U" and "card U \<le> MCP_TEST_CONNECT_BUCKETS_MAX" and "fst ` set m \<subseteq> U"
    and "snd ` set calls \<subseteq> U" and "sorted (map fst calls)"
    and "spaced (old @ samples_of m u)" and "\<forall>p \<in> set old. \<forall>c \<in> set calls. p + WINDOW < fst c"
  shows "spaced (old @ samples_of m u @ admit_times u (fst (admissions calls m)))"
  using assms
proof (induction calls arbitrary: m old)
  case Nil
  then show ?case by (simp add: admit_times_def)
next
  case (Cons c calls)
  obtain now v where c: "c = (now, v)" by (cases c)
  obtain r m' where adm: "try_admit now v m = (r, m')" by fastforce
  note a = try_admit_no_evict [OF Cons.prems(1-4) _ adm]
  have v: "v \<in> U" using Cons.prems(5) c by simp
  have ok: "buckets_ok m'" using try_admit_ok [OF Cons.prems(1) adm] by simp
  have rest: "snd ` set calls \<subseteq> U" "sorted (map fst calls)" "\<forall>c \<in> set calls. now \<le> fst c"
    using Cons.prems(5,6) c by auto
  note IH = Cons.IH [OF ok Cons.prems(2,3) a(1) [OF v] rest(1,2)]
  show ?case
  proof (cases "v = u")
    case False
    have sm: "samples_of m' u = samples_of m u" using a(3) [OF v, of u] False by simp
    have "admit_times u (fst (admissions (c # calls) m)) = admit_times u (fst (admissions calls m'))"
      using False by (simp add: c adm admit_times_def split: prod.splits)
    with IH [of old] Cons.prems(7,8) show ?thesis by (simp add: sm)
  next
    case True
    obtain gone where g: "samples_of m u = gone @ prune now (samples_of m u)" "\<forall>t \<in> set gone. t + WINDOW < now"
      by (rule prune_split)
    let ?old = "old @ gone"
    have oldlt: "\<forall>p \<in> set ?old. p + WINDOW < now" using Cons.prems(8) g(2) c by auto
    then have far: "\<forall>p \<in> set ?old. \<forall>c \<in> set calls. p + WINDOW < fst c" using rest(3) by fastforce
    have sm: "samples_of m' u = prune now (samples_of m u) @ (if r = Ok True then [now] else [])"
      using a(3) [OF v, of u] True by simp
    have sp: "spaced (?old @ prune now (samples_of m u))" using Cons.prems(7) g(1) by simp
    have "spaced (?old @ samples_of m' u)"
    proof (cases "r = Ok True")
      case adm: True
      with a(2) [OF v] \<open>v = u\<close> have "length (prune now (samples_of m u)) < MCP_TEST_CONNECT_PER_MIN" by simp
      from spaced_snoc [OF sp this oldlt] adm show ?thesis by (simp add: sm)
    qed (use sp sm in simp)
    from IH [OF this far] have
      "spaced (?old @ samples_of m' u @ admit_times u (fst (admissions calls m')))" .
    moreover have "admit_times u (fst (admissions (c # calls) m)) =
        (if r = Ok True then [now] else []) @ admit_times u (fst (admissions calls m'))"
    proof -
      from adm True have "try_admit now u m = (r, m')" by simp
      then show ?thesis by (cases "admissions calls m'") (simp add: c True admit_times_def)
    qed
    moreover have "old @ samples_of m u = ?old @ prune now (samples_of m u)"
      unfolding append_assoc using g(1) by (rule arg_cong)
    ultimately show ?thesis unfolding sm append_assoc [symmetric] by (simp only: append_assoc)
  qed
qed


section \<open>Guarantees\<close>

text \<open>C16. Over any run of calls by at most \<open>MCP_TEST_CONNECT_BUCKETS_MAX\<close> users, a user is admitted
  at most \<open>MCP_TEST_CONNECT_PER_MIN\<close> times in any minute: the eleventh admission after a given
  one comes more than sixty seconds later.\<close>

theorem rate_limit_per_minute:
  assumes "sorted (map fst calls)" and "card (snd ` set calls) \<le> MCP_TEST_CONNECT_BUCKETS_MAX"
    and "i + MCP_TEST_CONNECT_PER_MIN < length (admit_times u (fst (admissions calls [])))"
  shows "admit_times u (fst (admissions calls [])) ! i + WINDOW <
     admit_times u (fst (admissions calls [])) ! (i + MCP_TEST_CONNECT_PER_MIN)"
proof -
  have "spaced ([] @ samples_of [] u @ admit_times u (fst (admissions calls [])))"
    by (rule admissions_spaced [where U = "snd ` set calls"])
       (use assms in \<open>auto simp: buckets_ok_def samples_of_def spaced_def\<close>)
  with assms(3) show ?thesis by (simp add: samples_of_def spaced_def)
qed

text \<open>Eleven calls in eleven seconds and one a minute later: the eleventh is refused.\<close>

definition burst :: "(nat \<times> user_id) list" where
  "burst = map (\<lambda>i. (100 + i, 7)) [0..<11] @ [(165, 7)]"

theorem rate_limit_per_minute_witness:
  "admit_times 7 (fst (admissions burst [])) = [100, 101, 102, 103, 104, 105, 106, 107, 108, 109, 165] \<and>
   admit_times 7 (fst (admissions burst [])) ! 0 + WINDOW < admit_times 7 (fst (admissions burst [])) ! (0 + MCP_TEST_CONNECT_PER_MIN)"
proof -
  have t: "admit_times 7 (fst (admissions burst [])) = [100, 101, 102, 103, 104, 105, 106, 107, 108, 109, 165]"
    by code_simp
  have c: "sorted (map fst burst)" "snd ` set burst = {7}" by code_simp+
  have "0 + MCP_TEST_CONNECT_PER_MIN < length (admit_times 7 (fst (admissions burst [])))"
    by (simp add: t MCP_TEST_CONNECT_PER_MIN_def)
  from rate_limit_per_minute [OF c(1) _ this] show ?thesis
    by (simp add: t c(2) MCP_TEST_CONNECT_BUCKETS_MAX_def)
qed

text \<open>The limiter's memory is bounded: starting from an empty map, after every call the map has
  at most \<open>MCP_TEST_CONNECT_BUCKETS_MAX\<close> buckets of at most \<open>MCP_TEST_CONNECT_PER_MIN\<close>
  samples, and its assertion never fires.\<close>

theorem rate_limiter_bounded:
  "buckets_ok (snd (admissions calls [])) \<and>
   \<not> is_Panic (fst (try_admit now u (snd (admissions calls []))))"
proof -
  have "buckets_ok m \<Longrightarrow> buckets_ok (snd (admissions calls m))" for m
  proof (induction calls arbitrary: m)
    case (Cons c calls)
    obtain r m' where adm: "try_admit (fst c) (snd c) m = (r, m')" by fastforce
    then have "buckets_ok m'" using try_admit_ok [OF Cons.prems] by blast
    with adm Cons.IH [of m'] show ?case by (cases c; cases "admissions calls m'") simp
  qed simp
  from this [of "[]"] have ok: "buckets_ok (snd (admissions calls []))" by (simp add: buckets_ok_def)
  obtain r m' where "try_admit now u (snd (admissions calls [])) = (r, m')" by fastforce
  with try_admit_ok [OF ok this] ok show ?thesis by simp
qed

end
