(* ===== verification/Session_Store.thy ===== *)
theory Session_Store
  imports Queue_Invariants
begin

text \<open>
  The session store: \<open>src/session/pg_store.rs\<close> and the default methods of
  \<open>src/session/traits.rs\<close>. Sessions are found or created per canonical pair of participants
  within a conversation tree; messages are appended under a cap with consecutive sequence
  numbers; a snapshot renders the messages from the viewer's side.
\<close>

definition MAX_MESSAGES_PER_SESSION :: nat where
  "MAX_MESSAGES_PER_SESSION = 512"

record session_tenancy =
  sten_org_id :: org_id
  sten_created_by_user_id :: user_id

record caller =
  cal_user_id :: user_id
  cal_org_id :: org_id

section \<open>Finding or creating a session\<close>

text \<open>\<open>map_agent_fk\<close>: a foreign key failure becomes \<open>AgentNotFound\<close> with the nil id.\<close>

definition nil_agent :: agent_id where
  "nil_agent = 0"

definition resolve_or_create_for_pair_inner ::
  "scope \<Rightarrow> prompt_request_id \<Rightarrow> participant \<Rightarrow> participant \<Rightarrow> session_id option \<Rightarrow> org_id \<Rightarrow> user_id \<Rightarrow>
   instant \<Rightarrow> session_id \<Rightarrow> db \<Rightarrow> (session_error, session_id) outcome \<times> db" where
  "resolve_or_create_for_pair_inner sc root p1 p2 parent org user now new_id d =
     (case canonical_pair p1 p2 of
        None \<Rightarrow> (Err SSelfSession, d)
      | Some (a, b) \<Rightarrow>
          (let row = \<lparr>ses_id = new_id, ses_created_at = now, ses_org_id = org,
                      ses_created_by_user_id = user, ses_parent_session_id = parent,
                      ses_root_request_id = root, ses_participant_a = a, ses_participant_b = b\<rparr> in
           if \<not> parent_org_ok d row then (Err (SDb ''sessions_enforce_parent_org''), d)
           else if \<not> visible sc d org then (Err (SDb ''row-level security''), d)
           else case find (\<lambda>r. same_pair r row) (sessions d) of
             Some r \<Rightarrow> (Ok (ses_id r), d)
           | None \<Rightarrow>
               if \<exists>r \<in> set (sessions d). ses_id r = new_id then (Err (SDb ''unique''), d)
               else if \<not> agent_fk_ok d a \<or> \<not> agent_fk_ok d b then (Err (AgentNotFound nil_agent), d)
               else (Ok new_id, d\<lparr>sessions := sessions d @ [row]\<rparr>)))"

definition resolve_or_create_for_pair where
  "resolve_or_create_for_pair root a b parent org user now new_id d =
     run_tx (resolve_or_create_for_pair_inner Privileged root a b parent org user now new_id) d"

definition resolve_or_create_for_pair_for_user where
  "resolve_or_create_for_pair_for_user c root a b parent now new_id d =
     run_tx (resolve_or_create_for_pair_inner (AsUser (cal_user_id c)) root a b parent (cal_org_id c)
               (cal_user_id c) now new_id) d"

section \<open>Appending\<close>

definition sender_fk_ok :: "db \<Rightarrow> message_sender \<Rightarrow> bool" where
  "sender_fk_ok d s = (case sender_agent_id s of None \<Rightarrow> True | Some a \<Rightarrow> a \<in> set (agents d))"

definition next_msg_seq :: "message_row list \<Rightarrow> nat" where
  "next_msg_seq rows = (if rows = [] then 0 else Max (set (map msg_seq rows)) + 1)"

definition append_row ::
  "nat \<Rightarrow> scope \<Rightarrow> session_id \<Rightarrow> message_sender \<Rightarrow> participant \<Rightarrow> chat_message \<Rightarrow> prompt_request_id \<Rightarrow>
   instant \<Rightarrow> db \<Rightarrow> (session_error, unit) outcome \<times> db" where
  "append_row cap sc i sender receiver message request now d =
     (case find (\<lambda>r. ses_id r = i \<and> visible sc d (ses_org_id r)) (sessions d) of
        None \<Rightarrow> (Err (SNotFound i), d)
      | Some locked \<Rightarrow>
          (let rows = filter (\<lambda>m. msg_session_id m = i \<and> visible sc d (msg_org_id m)) (session_messages d);
               seq = next_msg_seq rows in
           if cap \<le> length rows then (Err (MessageCapExceeded i cap), d)
           else if \<exists>m \<in> set (session_messages d). msg_session_id m = i \<and> msg_seq m = seq
                then (Err (SDb ''unique''), d)
           else if \<not> sender_fk_ok d sender \<or> \<not> agent_fk_ok d receiver \<or> request_of d request = None
                then (Err (AgentNotFound nil_agent), d)
           else (Ok (), d\<lparr>session_messages := session_messages d @
                   [\<lparr>msg_session_id = i, msg_seq = seq, msg_sender = sender, msg_receiver = receiver,
                     msg_body = message, msg_request_id = request, msg_created_at = now,
                     msg_org_id = ses_org_id locked\<rparr>]\<rparr>)))"

definition append_msg where
  "append_msg i sender receiver message request now d =
     run_tx (append_row MAX_MESSAGES_PER_SESSION Privileged i sender receiver message request now) d"

definition append_for_user where
  "append_for_user u i sender receiver message request now d =
     run_tx (append_row MAX_MESSAGES_PER_SESSION (AsUser u) i sender receiver message request now) d"

definition append_system_nudge where
  "append_system_nudge i receiver note request now d =
     run_tx (append_row MAX_MESSAGES_PER_SESSION Privileged i SSystem receiver (User [UText note]) request now) d"

definition append_system_nudge_for_user where
  "append_system_nudge_for_user u i receiver note request now d =
     run_tx (append_row MAX_MESSAGES_PER_SESSION (AsUser u) i SSystem receiver (User [UText note]) request now) d"

section \<open>Rendering for a viewer\<close>

definition tool_result_text :: "tool_result \<Rightarrow> string" where
  "tool_result_text r = ''[tool-result '' @ tr_call_id r @ '': '' @ tr_output r @ '']''"

definition tool_call_text :: "tool_call \<Rightarrow> string" where
  "tool_call_text c = ''[tool-call '' @ tc_name c @ ''('' @ tc_input c @ '')]''"

fun user_to_text :: "user_content \<Rightarrow> string" where
  "user_to_text (UText t) = t"
| "user_to_text (UToolResult r) = tool_result_text r"

fun assistant_to_text :: "assistant_content \<Rightarrow> string" where
  "assistant_to_text (AText t) = t"
| "assistant_to_text (AReasoning t) = t"
| "assistant_to_text (AToolCall c) = tool_call_text c"

definition retag_other_side_user_blocks ::
  "user_content list \<Rightarrow> participant \<Rightarrow> participant \<Rightarrow> user_content list" where
  "retag_other_side_user_blocks blocks receiver viewer =
     (if receiver = viewer then blocks else map (\<lambda>b. UText (user_to_text b)) blocks)"

definition user_to_assistant_blocks :: "user_content list \<Rightarrow> assistant_content list" where
  "user_to_assistant_blocks = map (\<lambda>b. AText (user_to_text b))"

definition assistant_to_user_blocks :: "assistant_content list \<Rightarrow> user_content list" where
  "assistant_to_user_blocks = map (\<lambda>b. UText (assistant_to_text b))"

fun is_self :: "message_sender \<Rightarrow> participant \<Rightarrow> bool" where
  "is_self SHuman Human = True"
| "is_self (SAgent a) (Agent v) = (a = v)"
| "is_self _ _ = False"

fun map_message_for_viewer ::
  "chat_message \<Rightarrow> message_sender \<Rightarrow> participant \<Rightarrow> participant \<Rightarrow> chat_message" where
  "map_message_for_viewer (Assistant blocks) sender receiver viewer =
     (if is_self sender viewer then Assistant blocks else User (assistant_to_user_blocks blocks))"
| "map_message_for_viewer (User blocks) sender receiver viewer =
     (if is_self sender viewer then Assistant (user_to_assistant_blocks blocks)
      else User (retag_other_side_user_blocks blocks receiver viewer))"

section \<open>Reading\<close>

definition session_rows :: "session_id \<Rightarrow> db \<Rightarrow> message_row list" where
  "session_rows i d = sort_key msg_seq (filter (\<lambda>m. msg_session_id m = i) (session_messages d))"

definition render :: "participant \<Rightarrow> message_row \<Rightarrow> chat_message" where
  "render viewer m = map_message_for_viewer (msg_body m) (msg_sender m) (msg_receiver m) viewer"

definition snapshot :: "session_id \<Rightarrow> participant \<Rightarrow> db \<Rightarrow> (session_error, chat_message list) outcome" where
  "snapshot i viewer d =
     (case session_of d i of
        None \<Rightarrow> Err (SNotFound i)
      | Some _ \<Rightarrow> Ok (map (render viewer) (session_rows i d)))"

text \<open>\<open>ORDER BY seq DESC LIMIT limit\<close>, then \<open>reverse\<close>.\<close>

definition snapshot_window ::
  "session_id \<Rightarrow> participant \<Rightarrow> nat \<Rightarrow> nat option \<Rightarrow> db \<Rightarrow> (session_error, (nat \<times> chat_message) list) outcome" where
  "snapshot_window i viewer limit before_seq d =
     (case session_of d i of
        None \<Rightarrow> Err (SNotFound i)
      | Some _ \<Rightarrow>
          (let cursor = (case before_seq of Some b \<Rightarrow> b | None \<Rightarrow> i64_max);
               newest = take limit (rev (filter (\<lambda>m. msg_seq m < cursor) (session_rows i d))) in
           Ok (map (\<lambda>m. (msg_seq m, render viewer m)) (rev newest))))"

definition participants :: "session_id \<Rightarrow> db \<Rightarrow> (session_error, participant \<times> participant) outcome" where
  "participants i d =
     (case session_of d i of
        None \<Rightarrow> Err (SNotFound i)
      | Some r \<Rightarrow> Ok (ses_participant_a r, ses_participant_b r))"

definition parent :: "session_id \<Rightarrow> db \<Rightarrow> (session_error, session_id option) outcome" where
  "parent i d =
     (case session_of d i of None \<Rightarrow> Err (SNotFound i) | Some r \<Rightarrow> Ok (ses_parent_session_id r))"

definition root_request_id :: "session_id \<Rightarrow> db \<Rightarrow> (session_error, prompt_request_id) outcome" where
  "root_request_id i d =
     (case session_of d i of None \<Rightarrow> Err (SNotFound i) | Some r \<Rightarrow> Ok (ses_root_request_id r))"

definition tenancy :: "session_id \<Rightarrow> db \<Rightarrow> (session_error, session_tenancy) outcome" where
  "tenancy i d =
     (case session_of d i of
        None \<Rightarrow> Err (SNotFound i)
      | Some r \<Rightarrow> Ok \<lparr>sten_org_id = ses_org_id r, sten_created_by_user_id = ses_created_by_user_id r\<rparr>)"

text \<open>The default method of the trait: three calls.\<close>

definition parent_history_default ::
  "session_id \<Rightarrow> participant \<Rightarrow> db \<Rightarrow> (session_error, chat_message list) outcome" where
  "parent_history_default i viewer d =
     and_then (parent i d)
       (\<lambda>p. case p of
              None \<Rightarrow> Ok []
            | Some par \<Rightarrow>
                and_then (participants par d)
                  (\<lambda>(a, b). if viewer \<noteq> a \<and> viewer \<noteq> b then Ok [] else snapshot par viewer d))"

text \<open>The Postgres override: one joined query.\<close>

definition parent_history_for_viewer ::
  "session_id \<Rightarrow> participant \<Rightarrow> db \<Rightarrow> (session_error, chat_message list) outcome" where
  "parent_history_for_viewer i viewer d =
     (let parents = concat (map (\<lambda>cur. filter (\<lambda>s. ses_id s = the (ses_parent_session_id cur) \<and>
                        (ses_participant_a s = viewer \<or> ses_participant_b s = viewer)) (sessions d))
                      (filter (\<lambda>cur. ses_id cur = i \<and> ses_parent_session_id cur \<noteq> None) (sessions d)));
          rows = concat (map (\<lambda>m. map (\<lambda>_. m) (filter (\<lambda>s. msg_session_id m = ses_id s) parents))
                   (session_messages d)) in
      Ok (map (render viewer) (sort_key msg_seq rows)))"

text \<open>\<open>DELETE FROM sessions\<close> with the cascades of the schema.\<close>

definition delete_session :: "session_id \<Rightarrow> db \<Rightarrow> (session_error, unit) outcome \<times> db" where
  "delete_session i d =
     (if rows_affected (\<lambda>r. ses_id r = i) (sessions d) = 0 then (Err (SNotFound i), d)
      else let gone = map pr_id (filter (\<lambda>r. pr_session_id r = i) (prompt_requests d)) in
        (Ok (), d\<lparr>sessions := update_where (\<lambda>r. ses_parent_session_id r = Some i)
                      (\<lambda>r. r\<lparr>ses_parent_session_id := None\<rparr>) (delete_where (\<lambda>r. ses_id r = i) (sessions d)),
                  session_messages := delete_where (\<lambda>m. msg_session_id m = i \<or> msg_request_id m \<in> set gone)
                      (session_messages d),
                  prompt_requests := delete_where (\<lambda>r. pr_session_id r = i) (prompt_requests d),
                  session_leases := delete_where (\<lambda>l. sl_session_id l = i) (session_leases d),
                  session_turn_seq := delete_where (\<lambda>t. ts_session_id t = i) (session_turn_seq d),
                  prompt_request_dags := delete_where (\<lambda>g. dag_root g \<in> set gone) (prompt_request_dags d),
                  response_streams := delete_where (\<lambda>s. st_request_id s \<in> set gone) (response_streams d),
                  response_chunks := delete_where (\<lambda>c. ch_request_id c \<in> set gone) (response_chunks d)\<rparr>))"


section \<open>The message log\<close>

definition msg_log :: "session_id \<Rightarrow> db \<Rightarrow> message_row list" where
  "msg_log i d = filter (\<lambda>m. msg_session_id m = i) (session_messages d)"

text \<open>Each session's messages are numbered from 0 in the order they were written, up to the cap,
  and carry their session's organisation.\<close>

definition messages_ok :: "db \<Rightarrow> bool" where
  "messages_ok d \<longleftrightarrow> distinct (map ses_id (sessions d)) \<and>
     (\<forall>m \<in> set (session_messages d). \<exists>s \<in> set (sessions d). ses_id s = msg_session_id m \<and> ses_org_id s = msg_org_id m) \<and>
     (\<forall>i \<in> set (map msg_session_id (session_messages d)).
        map msg_seq (msg_log i d) = [0..<length (msg_log i d)] \<and> length (msg_log i d) \<le> MAX_MESSAGES_PER_SESSION)"

lemma msg_log_seqs:
  assumes "messages_ok d"
  shows "map msg_seq (msg_log i d) = [0..<length (msg_log i d)]" "length (msg_log i d) \<le> MAX_MESSAGES_PER_SESSION"
proof -
  have "map msg_seq (msg_log i d) = [0..<length (msg_log i d)] \<and> length (msg_log i d) \<le> MAX_MESSAGES_PER_SESSION"
  proof (cases "i \<in> set (map msg_session_id (session_messages d))")
    case True
    with assms show ?thesis unfolding messages_ok_def by blast
  next
    case False
    then have "msg_log i d = []" by (auto simp: msg_log_def filter_empty_conv)
    then show ?thesis by simp
  qed
  then show "map msg_seq (msg_log i d) = [0..<length (msg_log i d)]" "length (msg_log i d) \<le> MAX_MESSAGES_PER_SESSION"
    by blast+
qed

lemma session_rows_log:
  assumes "messages_ok d"
  shows "session_rows i d = msg_log i d"
  using msg_log_seqs(1) [OF assms, of i] unfolding session_rows_def msg_log_def [symmetric]
  by (intro sorted_sort_id sort_key_id_if_sorted) simp

lemma visible_log:
  assumes "messages_ok d" and "find (\<lambda>r. ses_id r = i \<and> visible sc d (ses_org_id r)) (sessions d) = Some s"
  shows "filter (\<lambda>m. msg_session_id m = i \<and> visible sc d (msg_org_id m)) (session_messages d) = msg_log i d"
proof -
  from find_SomeD [OF assms(2)] have s: "s \<in> set (sessions d)" "ses_id s = i" "visible sc d (ses_org_id s)" by auto
  have "visible sc d (msg_org_id m)" if "m \<in> set (session_messages d)" "msg_session_id m = i" for m
  proof -
    from assms(1) that obtain s' where "s' \<in> set (sessions d)" "ses_id s' = i" "ses_org_id s' = msg_org_id m"
      unfolding messages_ok_def by blast
    moreover from assms(1) have "distinct (map ses_id (sessions d))" by (simp add: messages_ok_def)
    ultimately have "s' = s" using s by (auto intro: distinct_map_eqD [of ses_id "sessions d"])
    moreover note \<open>ses_org_id s' = msg_org_id m\<close>
    ultimately show ?thesis using s(3) by simp
  qed
  then show ?thesis unfolding msg_log_def by (intro filter_cong) auto
qed

lemma next_msg_seq_log:
  assumes "map msg_seq rows = [0..<length rows]"
  shows "next_msg_seq rows = length rows"
proof (cases "rows = []")
  case False
  have "set (map msg_seq rows) = {0..<length rows}" unfolding assms by simp
  moreover have "Max {0..<length rows} = length rows - 1"
    by (rule Max_eqI) (use False in auto)
  ultimately show ?thesis using False by (simp add: next_msg_seq_def)
qed (simp add: next_msg_seq_def)

lemma append_row_OkE:
  assumes "messages_ok d" and "append_row cap sc i sender receiver message request now d = (Ok (), d')"
  obtains m s where "d' = d\<lparr>session_messages := session_messages d @ [m]\<rparr>"
    "msg_session_id m = i" "msg_seq m = length (msg_log i d)" "msg_sender m = sender" "msg_receiver m = receiver"
    "msg_body m = message" "msg_request_id m = request" "s \<in> set (sessions d)" "ses_id s = i"
    "msg_org_id m = ses_org_id s" "length (msg_log i d) < cap"
proof -
  from assms(2) obtain s where
    f: "find (\<lambda>r. ses_id r = i \<and> visible sc d (ses_org_id r)) (sessions d) = Some s"
    by (cases "find (\<lambda>r. ses_id r = i \<and> visible sc d (ses_org_id r)) (sessions d)") (auto simp: append_row_def)
  note log = visible_log [OF assms(1) f] next_msg_seq_log [OF msg_log_seqs(1) [OF assms(1)]]
  let ?m = "\<lparr>msg_session_id = i, msg_seq = length (msg_log i d), msg_sender = sender, msg_receiver = receiver,
             msg_body = message, msg_request_id = request, msg_created_at = now, msg_org_id = ses_org_id s\<rparr>"
  from assms(2) f have "d' = d\<lparr>session_messages := session_messages d @ [?m]\<rparr>" "length (msg_log i d) < cap"
    by (auto simp: append_row_def Let_def log split: if_splits)
  with find_SomeD [OF f] show thesis by (intro that [of ?m s]) auto
qed

lemma append_messages_ok:
  assumes "messages_ok d" and "append_row MAX_MESSAGES_PER_SESSION sc i sender receiver message request now d = (Ok (), d')"
  shows "messages_ok d'"
proof -
  from assms(2) obtain m s where m: "d' = d\<lparr>session_messages := session_messages d @ [m]\<rparr>"
    "msg_session_id m = i" "msg_seq m = length (msg_log i d)" "s \<in> set (sessions d)" "ses_id s = i"
    "msg_org_id m = ses_org_id s" "length (msg_log i d) < MAX_MESSAGES_PER_SESSION"
    by (rule append_row_OkE [OF assms(1)])
  have "map msg_seq (msg_log j d') = [0..<length (msg_log j d')] \<and> length (msg_log j d') \<le> MAX_MESSAGES_PER_SESSION" for j
    using msg_log_seqs [OF assms(1), of j] m(2,3,7) by (auto simp: m(1) msg_log_def)
  then show ?thesis using assms(1) m(2,4-6) unfolding messages_ok_def by (auto simp: m(1))
qed

lemma concat_map_Nil [simp]: "concat (map (\<lambda>_. []) xs) = []"
  by (induction xs) simp_all

lemma filter_key_unique:
  assumes "distinct (map g rows)" and "r \<in> set rows"
  shows "filter (\<lambda>x. g x = g r \<and> P x) rows = (if P r then [r] else [])"
  using assms
proof (induction rows)
  case (Cons a rows)
  show ?case
  proof (cases "g a = g r")
    case True
    with Cons.prems have "a = r" "\<forall>x \<in> set rows. g x \<noteq> g r" by (auto simp: image_iff)
    then show ?thesis by (auto simp: filter_empty_conv)
  next
    case False
    with Cons show ?thesis by auto
  qed
qed simp

section \<open>Guarantees\<close>

text \<open>C15. A history is append-only and ordered: after a successful append the snapshot for any viewer
  is the one before it followed by the new message as that viewer sees it, the new message's
  number is the count of messages before it, and the history stays within its cap.\<close>

theorem append_extends_snapshot:
  assumes "messages_ok d" and "snapshot i viewer d = Ok history"
    and "append_for_user u i sender receiver message request now d = (Ok (), d')"
  shows "messages_ok d' \<and>
     snapshot i viewer d' = Ok (history @ [map_message_for_viewer message sender receiver viewer]) \<and>
     length history < MAX_MESSAGES_PER_SESSION"
proof -
  from assms(3) have a: "append_row MAX_MESSAGES_PER_SESSION (AsUser u) i sender receiver message request now d = (Ok (), d')"
    by (simp add: append_for_user_def)
  from append_messages_ok [OF assms(1) a] have ok: "messages_ok d'" .
  from a obtain m s where m: "d' = d\<lparr>session_messages := session_messages d @ [m]\<rparr>"
    "msg_session_id m = i" "msg_sender m = sender" "msg_receiver m = receiver" "msg_body m = message"
    "length (msg_log i d) < MAX_MESSAGES_PER_SESSION"
    by (rule append_row_OkE [OF assms(1)])
  have log: "msg_log i d' = msg_log i d @ [m]" using m(1,2) by (simp add: msg_log_def)
  have so: "session_of d' i = session_of d i" using m(1) by (simp add: session_of_def)
  from assms(2) have h: "history = map (render viewer) (msg_log i d)" "session_of d i \<noteq> None"
    by (auto simp: snapshot_def session_rows_log [OF assms(1)] split: option.splits)
  then have "snapshot i viewer d' = Ok (history @ [render viewer m])"
    by (auto simp: snapshot_def session_rows_log [OF ok] log so split: option.splits)
  with ok h m show ?thesis by (simp add: render_def)
qed

text \<open>Tool traffic stays on its own side: in what a viewer sees, tool calls appear only in
  messages the viewer wrote, and tool results only in messages addressed to the viewer by
  somebody else; everything the other side did shows up as text.\<close>

theorem viewer_sees_own_tool_traffic:
  "(case map_message_for_viewer message sender receiver viewer of
      Assistant blocks \<Rightarrow> is_self sender viewer
    | User blocks \<Rightarrow> (if receiver = viewer \<and> message = User blocks then \<not> is_self sender viewer
                     else list_all (\<lambda>b. case b of UText _ \<Rightarrow> True | UToolResult _ \<Rightarrow> False) blocks))"
  by (cases message)
     (auto simp: assistant_to_user_blocks_def retag_other_side_user_blocks_def list_all_iff)

text \<open>The one-query parent history is the trait's three-call definition: for every session that
  exists, with its parent's row in place, both return the same messages.\<close>

theorem parent_history_refines_default:
  assumes "messages_ok d" and "session_of d i = Some s"
    and "\<forall>p. ses_parent_session_id s = Some p \<longrightarrow> session_of d p \<noteq> None"
  shows "parent_history_for_viewer i viewer d = parent_history_default i viewer d"
proof -
  note uniq = filter_key_unique [of ses_id "sessions d"]
  have dist: "distinct (map ses_id (sessions d))" using assms(1) by (simp add: messages_ok_def)
  from session_of_SomeD [OF assms(2)] have s: "s \<in> set (sessions d)" "ses_id s = i" by auto
  have cur: "filter (\<lambda>cur. ses_id cur = i \<and> ses_parent_session_id cur \<noteq> None) (sessions d) =
      (if ses_parent_session_id s \<noteq> None then [s] else [])"
    using uniq [OF dist s(1), of "\<lambda>c. ses_parent_session_id c \<noteq> None"] s(2) by simp
  show ?thesis
  proof (cases "ses_parent_session_id s")
    case None
    then show ?thesis using assms(2) cur
      by (simp add: parent_history_for_viewer_def parent_history_default_def parent_def)
  next
    case (Some p)
    with assms(3) obtain ps where ps: "session_of d p = Some ps" by auto
    from session_of_SomeD [OF ps] have p: "ps \<in> set (sessions d)" "ses_id ps = p" by auto
    let ?P = "\<lambda>x. ses_participant_a x = viewer \<or> ses_participant_b x = viewer"
    have par: "filter (\<lambda>x. ses_id x = p \<and> ?P x) (sessions d) = (if ?P ps then [ps] else [])"
      using uniq [OF dist p(1), of ?P] p(2) by simp
    have one: "concat (map (\<lambda>m. map (\<lambda>_. m) (filter (\<lambda>x. msg_session_id m = ses_id x) [ps])) ms) =
        filter (\<lambda>m. msg_session_id m = p) ms" for ms
      using p(2) by (induction ms) auto
    show ?thesis
      using Some ps assms(2) cur par one [of "session_messages d"] p(2)
      by (auto simp: parent_history_for_viewer_def parent_history_default_def parent_def participants_def
          snapshot_def session_rows_def Let_def)
  qed
qed

text \<open>One session per pair: whoever asks first, the same two participants in the same tree and
  organisation, named in either order, always get the same session, and asking again changes
  nothing.\<close>

theorem pair_session_unique:
  assumes "resolve_or_create_for_pair root a b par org user now i d = (Ok s, d')"
    and "\<forall>p. par' = Some p \<longrightarrow> (\<exists>r. session_of d' p = Some r \<and> ses_org_id r = org)"
  shows "resolve_or_create_for_pair root b a par' org user' now' i' d' = (Ok s, d')"
proof -
  from assms(1) obtain x y where pair: "canonical_pair a b = Some (x, y)"
    by (auto simp: resolve_or_create_for_pair_def resolve_or_create_for_pair_inner_def split: option.splits)
  then have pair': "canonical_pair b a = Some (x, y)" by (simp add: canonical_pair_swap)
  let ?same = "\<lambda>r. ses_org_id r = org \<and> ses_root_request_id r = root \<and>
      ses_participant_a r = x \<and> ses_participant_b r = y"
  have "\<exists>r. find ?same (sessions d') = Some r \<and> ses_id r = s"
    using assms(1) pair
    by (auto simp: resolve_or_create_for_pair_def resolve_or_create_for_pair_inner_def Let_def same_pair_def
        split: if_splits option.splits)
  with pair' assms(2) show ?thesis
    by (auto simp: resolve_or_create_for_pair_def resolve_or_create_for_pair_inner_def Let_def same_pair_def
        run_tx_def parent_org_ok_def split: option.splits)
qed


text \<open>Paging through a history: the window before sequence number \<open>c\<close> is exactly the slice of
  the full snapshot that ends before position \<open>c\<close>, at most \<open>limit\<close> messages long, with
  its positions.\<close>

theorem window_is_slice:
  assumes "messages_ok d" and "snapshot i viewer d = Ok history" and "c \<le> length history"
  shows "snapshot_window i viewer limit (Some c) d = Ok (map (\<lambda>k. (k, history ! k)) [c - limit..<c])"
proof -
  let ?log = "msg_log i d"
  from assms(2) have h: "history = map (render viewer) ?log" and so: "session_of d i \<noteq> None"
    by (auto simp: snapshot_def session_rows_log [OF assms(1)] split: option.splits)
  have seq: "msg_seq (?log ! k) = k" if "k < length ?log" for k
    using msg_log_seqs(1) [OF assms(1), of i] that by (metis add_0 nth_map nth_upt)
  have c: "c \<le> length ?log" using assms(3) h by simp
  have before: "\<forall>m \<in> set (take c ?log). msg_seq m < c" using seq c by (auto simp: in_set_conv_nth)
  have after: "\<forall>m \<in> set (drop c ?log). \<not> msg_seq m < c" using seq by (auto simp: in_set_conv_nth)
  have "filter (\<lambda>m. msg_seq m < c) (take c ?log @ drop c ?log) = take c ?log"
    unfolding filter_append using before after by (simp add: filter_empty_conv filter_id_conv)
  then have f: "filter (\<lambda>m. msg_seq m < c) ?log = take c ?log" by simp
  have "map (\<lambda>m. (msg_seq m, render viewer m)) (drop (c - limit) (take c ?log)) =
      map (\<lambda>k. (k, history ! k)) [c - limit..<c]"
    by (rule nth_equalityI) (use c seq in \<open>auto simp: h\<close>)
  with f so c show ?thesis
    by (auto simp: snapshot_window_def session_rows_log [OF assms(1)] rev_take min_def split: option.splits)
qed

section \<open>A conversation\<close>

definition talk_start :: db where
  "talk_start = empty_db\<lparr>agents := [1, 2], org_members := [(7, 3)],
     sessions := [\<lparr>ses_id = 20, ses_created_at = 0, ses_org_id = 3, ses_created_by_user_id = 7,
                   ses_parent_session_id = None, ses_root_request_id = 10, ses_participant_a = Agent 1,
                   ses_participant_b = Human\<rparr>],
     prompt_requests := [request_row (new_prompt_request_normal (Some 20) Human 1 None ''hi'' ''k'' 3 7) 10 20 10 None 0]\<rparr>"

definition talk :: db where
  "talk = snd (append_for_user 7 20 SHuman (Agent 1) (User [UText ''hi'']) 10 1 talk_start)"

theorem append_extends_snapshot_witness:
  "snapshot 20 Human talk = Ok [Assistant [AText ''hi'']]"
proof -
  have ok: "messages_ok talk_start" by code_simp
  have s: "snapshot 20 Human talk_start = Ok []" by code_simp
  have a: "append_for_user 7 20 SHuman (Agent 1) (User [UText ''hi'']) 10 1 talk_start = (Ok (), talk)"
    by code_simp
  from append_extends_snapshot [OF ok s a] show ?thesis by (simp add: user_to_assistant_blocks_def)
qed

theorem window_is_slice_witness:
  "snapshot_window 20 (Agent 1) 5 (Some 1) talk = Ok [(0, User [UText ''hi''])]"
proof -
  have ok: "messages_ok talk" by code_simp
  have s: "snapshot 20 (Agent 1) talk = Ok [User [UText ''hi'']]" by code_simp
  from window_is_slice [OF ok s, of 1 5] show ?thesis by simp
qed

theorem pair_session_unique_witness:
  "resolve_or_create_for_pair 10 (Agent 2) (Agent 1) None 3 7 6 31
     (snd (resolve_or_create_for_pair 10 (Agent 1) (Agent 2) (Some 20) 3 7 5 30 talk)) =
   (Ok 30, snd (resolve_or_create_for_pair 10 (Agent 1) (Agent 2) (Some 20) 3 7 5 30 talk))"
proof -
  let ?r = "resolve_or_create_for_pair 10 (Agent 1) (Agent 2) (Some 20) 3 7 5 30 talk"
  have "?r = (Ok 30, snd ?r)" by code_simp
  from pair_session_unique [OF this, of None] show ?thesis by simp
qed

theorem parent_history_refines_default_witness:
  "parent_history_for_viewer 30 (Agent 1) (snd (resolve_or_create_for_pair 10 (Agent 1) (Agent 2) (Some 20) 3 7 5 30 talk)) =
   Ok [User [UText ''hi'']]"
proof -
  let ?d = "snd (resolve_or_create_for_pair 10 (Agent 1) (Agent 2) (Some 20) 3 7 5 30 talk)"
  let ?s = "the (session_of ?d 30)"
  have h: "messages_ok ?d" "session_of ?d 30 = Some ?s" "ses_parent_session_id ?s = Some 20" "session_of ?d 20 \<noteq> None"
    by code_simp+
  have "parent_history_for_viewer 30 (Agent 1) ?d = parent_history_default 30 (Agent 1) ?d"
    by (rule parent_history_refines_default [OF h(1,2)]) (use h(3,4) in simp)
  moreover have "parent_history_default 30 (Agent 1) ?d = Ok [User [UText ''hi'']]" by code_simp
  ultimately show ?thesis by simp
qed

end
