(* ===== verification/Agent_Turn.thy ===== *)
theory Agent_Turn
  imports Session_Store Schedule_Types
begin

text \<open>
  The agent's turn loop: \<open>src/agent_core/core.rs\<close> and \<open>src/agent_core/turn.rs\<close>, with the
  mode sets of \<open>src/tools/modes.rs\<close> and the response helpers of \<open>src/provider/chat.rs\<close>.

  The agent holds trait objects (provider, session store, memory, hooks, tools, observer, call
  recorder, cancellation token). \<open>agent_ops\<close> is that set of handles over an arbitrary world
  \<open>'w\<close>: each operation may change the world, so nothing is assumed of the environment.
  Outcomes of \<open>tokio::select!\<close> and \<open>timeout\<close> are results the operation may have. The calls
  of one concurrent batch run in call order, which is the order \<open>join_all\<close> keeps for their
  results.
\<close>

unbundle bit_operations_syntax

section \<open>Errors, requests, responses\<close>

datatype agent_error =
    AProvider string
  | ASession session_error
  | AMemory string
  | AHook string
  | AHookDenied string
  | ProviderTimeout
  | ToolTimeout string
  | UnknownTool string
  | TooManyToolCalls nat
  | MaxTurnsExceeded nat
  | EmptyReply
  | ACancelled

record chat_request =
  rq_model :: string
  rq_system :: string
  rq_messages :: "chat_message list"
  rq_tools :: "string list"
  rq_max_output_tokens :: nat

fun tool_calls :: "assistant_content list \<Rightarrow> tool_call list" where
  "tool_calls [] = []"
| "tool_calls (AToolCall c # bs) = c # tool_calls bs"
| "tool_calls (_ # bs) = tool_calls bs"

fun text_from :: "string \<Rightarrow> assistant_content list \<Rightarrow> string" where
  "text_from out [] = out"
| "text_from out (AText t # bs) = text_from ((if out = [] then [] else out @ [CHR 0x0A]) @ t) bs"
| "text_from out (_ # bs) = text_from out bs"

definition response_text :: "assistant_content list \<Rightarrow> string" where
  "response_text content = text_from [] content"

record agent_reply =
  rep_final_text :: string
  rep_send_message_calls :: nat

definition delivered :: "agent_reply \<Rightarrow> bool" where
  "delivered r \<longleftrightarrow> 0 < rep_send_message_calls r"

section \<open>Modes (tools/modes.rs)\<close>

type_synonym modes = "8 word"

fun for_kind :: "request_kind \<Rightarrow> modes" where
  "for_kind Normal = 1"
| "for_kind Reflection = 2"
| "for_kind Resolution = 4"

definition modes_include :: "modes \<Rightarrow> request_kind \<Rightarrow> bool" where
  "modes_include m k \<longleftrightarrow> m AND for_kind k \<noteq> 0"

definition MODES_ALL :: modes where
  "MODES_ALL = 0b00000111"

section \<open>Handles\<close>

datatype send_result = SendOk "assistant_content list" | SendErr string | SendTimeout | SendCancelled

datatype exec_result = ExecOk string | ExecErr string | ExecTimeout | ExecCancelled

record tool_ctx =
  tx_session_id :: session_id
  tx_viewer :: participant
  tx_root_request_id :: prompt_request_id
  tx_request_id :: prompt_request_id
  tx_kind_payload :: request_kind_payload
  tx_acting_user_id :: user_id
  tx_org_id :: org_id

record tool_call_row =
  tcr_org_id :: org_id
  tcr_session_id :: session_id
  tcr_request_id :: prompt_request_id
  tcr_agent_id :: agent_id
  tcr_mcp_server_id :: "nat option"
  tcr_tool_name :: string
  tcr_is_error :: bool
  tcr_error_message :: "string option"

record 'w agent_ops =
  ao_cancelled :: "'w \<Rightarrow> bool"
  ao_send :: "chat_request \<Rightarrow> 'w \<Rightarrow> send_result \<times> 'w"
  ao_before_turn :: "session_id \<Rightarrow> nat \<Rightarrow> 'w \<Rightarrow> (agent_error, unit) outcome \<times> 'w"
  ao_after_turn :: "session_id \<Rightarrow> nat \<Rightarrow> assistant_content list \<Rightarrow> 'w \<Rightarrow> (agent_error, unit) outcome \<times> 'w"
  ao_before_tool :: "session_id \<Rightarrow> nat \<Rightarrow> tool_call \<Rightarrow> 'w \<Rightarrow> (agent_error, unit) outcome \<times> 'w"
  ao_after_tool :: "session_id \<Rightarrow> nat \<Rightarrow> tool_call \<Rightarrow> tool_result \<Rightarrow> 'w \<Rightarrow> (agent_error, unit) outcome \<times> 'w"
  ao_on_assistant :: "assistant_content \<Rightarrow> 'w \<Rightarrow> 'w"
  ao_on_tool_result :: "tool_result \<Rightarrow> 'w \<Rightarrow> 'w"
  ao_append_for_user :: "user_id \<Rightarrow> session_id \<Rightarrow> message_sender \<Rightarrow> participant \<Rightarrow> chat_message \<Rightarrow>
     prompt_request_id \<Rightarrow> 'w \<Rightarrow> (session_error, unit) outcome \<times> 'w"
  ao_snapshot :: "session_id \<Rightarrow> participant \<Rightarrow> 'w \<Rightarrow> (session_error, chat_message list) outcome \<times> 'w"
  ao_parent_history :: "session_id \<Rightarrow> participant \<Rightarrow> 'w \<Rightarrow> (session_error, chat_message list) outcome \<times> 'w"
  ao_participants :: "session_id \<Rightarrow> 'w \<Rightarrow> (session_error, participant \<times> participant) outcome \<times> 'w"
  ao_root_request_id :: "session_id \<Rightarrow> 'w \<Rightarrow> (session_error, prompt_request_id) outcome \<times> 'w"
  ao_system_prompt :: "session_id \<Rightarrow> participant \<Rightarrow> request_kind_payload \<Rightarrow> 'w \<Rightarrow> (agent_error, string) outcome \<times> 'w"
  ao_tool :: "request_kind \<Rightarrow> string \<Rightarrow> bool option"
  ao_specs :: "request_kind \<Rightarrow> string list"
  ao_execute :: "string \<Rightarrow> string \<Rightarrow> tool_ctx \<Rightarrow> 'w \<Rightarrow> exec_result \<times> 'w"
  ao_server_id :: "string \<Rightarrow> nat option"
  ao_record :: "tool_call_row \<Rightarrow> 'w \<Rightarrow> 'w"
  ao_not_participant :: "participant \<Rightarrow> session_id \<Rightarrow> string"
  ao_model :: string
  ao_max_output_tokens :: nat
  ao_max_turns :: nat

text \<open>The \<open>?\<close> operator over a world.\<close>

definition bindw :: "('e, 'a) outcome \<times> 'w \<Rightarrow> ('a \<Rightarrow> 'w \<Rightarrow> ('e, 'b) outcome \<times> 'w) \<Rightarrow> ('e, 'b) outcome \<times> 'w" where
  "bindw r f = (case r of (Ok x, w) \<Rightarrow> f x w | (Err e, w) \<Rightarrow> (Err e, w) | (Panic m, w) \<Rightarrow> (Panic m, w))"

definition lift_session :: "(session_error, 'a) outcome \<times> 'w \<Rightarrow> (agent_error, 'a) outcome \<times> 'w" where
  "lift_session r = (map_err ASession (fst r), snd r)"

section \<open>Tool batches (turn.rs)\<close>

datatype call_class = CSafe | CUnsafe | CUnknown

definition classify :: "bool option \<Rightarrow> call_class" where
  "classify resolved = (case resolved of Some True \<Rightarrow> CSafe | Some False \<Rightarrow> CUnsafe | None \<Rightarrow> CUnknown)"

text \<open>The inner \<open>while\<close>: the end of the run of safe calls that includes position \<open>j - 1\<close>.\<close>

function extend :: "bool list \<Rightarrow> nat \<Rightarrow> nat" where
  "extend classes j = (if j < length classes \<and> classes ! j then extend classes (j + 1) else j)"
  by pat_completeness auto
termination
  by (relation "measure (\<lambda>(cs, j). length cs - j)") auto

declare extend.simps [simp del]

lemma extend_ge: "j \<le> extend classes j"
  by (induction classes j rule: extend.induct) (subst extend.simps, auto)

text \<open>The outer \<open>while\<close>, from position \<open>i\<close> on: half-open ranges.\<close>

function plan_from :: "bool list \<Rightarrow> nat \<Rightarrow> (nat \<times> nat) list" where
  "plan_from classes i =
     (if i < length classes
      then let j = (if classes ! i then extend classes (i + 1) else i + 1) in (i, j) # plan_from classes j
      else [])"
  by pat_completeness auto
termination
proof (relation "measure (\<lambda>(cs, i). length cs - i)", simp, goal_cases)
  case (1 classes i x)
  then show ?case using extend_ge [of "i + 1" classes] by (auto split: if_splits)
qed

declare plan_from.simps [simp del]

definition plan_batches :: "bool list \<Rightarrow> (nat \<times> nat) list" where
  "plan_batches classes = plan_from classes 0"

definition MAX_TOOL_CALLS_PER_TURN :: nat where
  "MAX_TOOL_CALLS_PER_TURN = 16"

definition TOOL_RESULT_MAX_BYTES :: nat where
  "TOOL_RESULT_MAX_BYTES = 256 * 1024"

definition error_result :: "string \<Rightarrow> string \<Rightarrow> tool_result" where
  "error_result call_id message =
     \<lparr>tr_call_id = call_id,
      tr_output = (if TOOL_RESULT_MAX_BYTES < length message
                   then truncate_to_char_boundary message TOOL_RESULT_MAX_BYTES else message),
      tr_is_error = True\<rparr>"

text \<open>
  \<open>biased select!\<close>: a token already cancelled wins before the tool future is first polled, so
  the tool does not run; cancellation while the tool runs is the outcome \<open>ExecCancelled\<close>.
\<close>

definition run_one_tool ::
  "'w agent_ops \<Rightarrow> tool_call \<Rightarrow> bool option \<Rightarrow> request_kind \<Rightarrow> tool_ctx \<Rightarrow> 'w \<Rightarrow> tool_result \<times> 'w" where
  "run_one_tool ops call tool k tctx w =
     (case tool of
        None \<Rightarrow> (error_result (tc_id call)
                   (''unknown tool for kind='' @ request_kind_str k @ '': '' @ tc_name call), w)
      | Some _ \<Rightarrow>
          if ao_cancelled ops w then (error_result (tc_id call) ''cancelled'', w)
          else case ao_execute ops (tc_name call) (tc_input call) tctx w of (r, w') \<Rightarrow>
            (case r of
               ExecCancelled \<Rightarrow> error_result (tc_id call) ''cancelled''
             | ExecOk output \<Rightarrow>
                 if TOOL_RESULT_MAX_BYTES < length output
                 then error_result (tc_id call)
                        (''tool `'' @ tc_name call @ ''` returned '' @ show_nat (length output) @
                         '' bytes; cap is '' @ show_nat TOOL_RESULT_MAX_BYTES @ '' bytes'')
                 else \<lparr>tr_call_id = tc_id call, tr_output = output, tr_is_error = False\<rparr>
             | ExecErr e \<Rightarrow> error_result (tc_id call) e
             | ExecTimeout \<Rightarrow> error_result (tc_id call) (''tool `'' @ tc_name call @ ''` timed out''),
             w'))"

definition run_call_with_hooks ::
  "'w agent_ops \<Rightarrow> session_id \<Rightarrow> nat \<Rightarrow> tool_call \<Rightarrow> bool option \<Rightarrow> request_kind \<Rightarrow> tool_ctx \<Rightarrow> 'w \<Rightarrow>
   (agent_error, tool_result) outcome \<times> 'w" where
  "run_call_with_hooks ops sid turn call tool k tctx w =
     bindw (ao_before_tool ops sid turn call w) (\<lambda>_ w1.
     case run_one_tool ops call tool k tctx w1 of (result, w2) \<Rightarrow>
     bindw (ao_after_tool ops sid turn call result w2) (\<lambda>_ w3. (Ok result, w3)))"

definition record_tool_call :: "'w agent_ops \<Rightarrow> tool_ctx \<Rightarrow> tool_call \<Rightarrow> tool_result \<Rightarrow> 'w \<Rightarrow> 'w" where
  "record_tool_call ops tctx call result w =
     (case participant_agent_id (tx_viewer tctx) of
        None \<Rightarrow> w
      | Some aid \<Rightarrow>
          ao_record ops
            \<lparr>tcr_org_id = tx_org_id tctx, tcr_session_id = tx_session_id tctx,
             tcr_request_id = tx_request_id tctx, tcr_agent_id = aid,
             tcr_mcp_server_id = ao_server_id ops (tc_name call), tcr_tool_name = tc_name call,
             tcr_is_error = tr_is_error result,
             tcr_error_message =
               (if tr_is_error result then Some (clip_error_message (tr_output result)) else None)\<rparr> w)"

text \<open>\<open>join_all\<close> over one batch: every call of the batch runs, whatever the others return.\<close>

fun run_batch ::
  "'w agent_ops \<Rightarrow> session_id \<Rightarrow> nat \<Rightarrow> request_kind \<Rightarrow> tool_ctx \<Rightarrow> (tool_call \<times> bool option) list \<Rightarrow> 'w \<Rightarrow>
   (agent_error, tool_result) outcome list \<times> 'w" where
  "run_batch ops sid turn k tctx [] w = ([], w)"
| "run_batch ops sid turn k tctx ((call, tool) # cs) w =
     (case run_call_with_hooks ops sid turn call tool k tctx w of (r, w1) \<Rightarrow>
      case run_batch ops sid turn k tctx cs w1 of (rs, w2) \<Rightarrow> (r # rs, w2))"

text \<open>The merge step, in call order; the first error ends it.\<close>

fun merge_results ::
  "'w agent_ops \<Rightarrow> tool_ctx \<Rightarrow> (tool_call \<times> (agent_error, tool_result) outcome) list \<Rightarrow> 'w \<Rightarrow>
   (agent_error, tool_result list) outcome \<times> 'w" where
  "merge_results ops tctx [] w = (Ok [], w)"
| "merge_results ops tctx ((call, r) # rs) w =
     bindw (r, w) (\<lambda>result w1.
     bindw (merge_results ops tctx rs
              (record_tool_call ops tctx call result (ao_on_tool_result ops result w1)))
       (\<lambda>results w2. (Ok (result # results), w2)))"

fun run_batches ::
  "'w agent_ops \<Rightarrow> session_id \<Rightarrow> nat \<Rightarrow> request_kind \<Rightarrow> tool_ctx \<Rightarrow> (tool_call \<times> bool option) list \<Rightarrow>
   (nat \<times> nat) list \<Rightarrow> 'w \<Rightarrow> (agent_error, tool_result list) outcome \<times> 'w" where
  "run_batches ops sid turn k tctx cs [] w = (Ok [], w)"
| "run_batches ops sid turn k tctx cs ((i, j) # bs) w =
     (if ao_cancelled ops w then (Err ACancelled, w)
      else
        let batch = map (\<lambda>n. cs ! n) [i..<j] in
        case run_batch ops sid turn k tctx batch w of (rs, w1) \<Rightarrow>
        bindw (merge_results ops tctx (zip (map fst batch) rs) w1) (\<lambda>out w2.
        bindw (run_batches ops sid turn k tctx cs bs w2) (\<lambda>more w3. (Ok (out @ more), w3))))"

definition run_tools ::
  "'w agent_ops \<Rightarrow> session_id \<Rightarrow> nat \<Rightarrow> tool_call list \<Rightarrow> request_kind \<Rightarrow> tool_ctx \<Rightarrow> 'w \<Rightarrow>
   (agent_error, tool_result list) outcome \<times> 'w" where
  "run_tools ops sid turn calls k tctx w =
     (let cs = map (\<lambda>c. (c, ao_tool ops k (tc_name c))) calls;
          safe_flags = map (\<lambda>(c, t). classify t = CSafe) cs
      in run_batches ops sid turn k tctx cs (plan_batches safe_flags) w)"

section \<open>One turn\<close>

definition call_provider ::
  "'w agent_ops \<Rightarrow> chat_request \<Rightarrow> 'w \<Rightarrow> (agent_error, assistant_content list) outcome \<times> 'w" where
  "call_provider ops rq w =
     (if ao_cancelled ops w then (Err ACancelled, w)
      else case ao_send ops rq w of (r, w') \<Rightarrow>
        (case r of SendOk content \<Rightarrow> Ok content | SendErr e \<Rightarrow> Err (AProvider e)
         | SendTimeout \<Rightarrow> Err ProviderTimeout | SendCancelled \<Rightarrow> Err ACancelled, w'))"

definition build_chat_request ::
  "'w agent_ops \<Rightarrow> session_id \<Rightarrow> participant \<Rightarrow> request_kind_payload \<Rightarrow> 'w \<Rightarrow>
   (agent_error, chat_request) outcome \<times> 'w" where
  "build_chat_request ops sid viewer kp w =
     bindw (lift_session (ao_snapshot ops sid viewer w)) (\<lambda>own w1.
     if own = [] then (Panic ''session must contain at least the user prompt'', w1)
     else bindw (lift_session (ao_parent_history ops sid viewer w1)) (\<lambda>par w2.
     bindw (ao_system_prompt ops sid viewer kp w2) (\<lambda>sys w3.
       (Ok \<lparr>rq_model = ao_model ops, rq_system = sys, rq_messages = par @ own,
            rq_tools = ao_specs ops (payload_kind kp),
            rq_max_output_tokens = ao_max_output_tokens ops\<rparr>, w3))))"

definition send_one_turn ::
  "'w agent_ops \<Rightarrow> session_id \<Rightarrow> participant \<Rightarrow> request_kind_payload \<Rightarrow> 'w \<Rightarrow>
   (agent_error, assistant_content list) outcome \<times> 'w" where
  "send_one_turn ops sid viewer kp w =
     bindw (build_chat_request ops sid viewer kp w) (\<lambda>rq w1. call_provider ops rq w1)"

definition send_message_tool_name :: string where
  "send_message_tool_name = ''send_message''"

definition count_sends :: "tool_call list \<Rightarrow> nat" where
  "count_sends calls = length (filter (\<lambda>c. tc_name c = send_message_tool_name) calls)"

text \<open>The part of \<open>run_turn\<close> after the assistant message is persisted: a final answer is
  \<open>Some\<close>, a tool turn \<open>None\<close>; the counter of send attempts is returned with it.\<close>

definition run_turn_calls ::
  "'w agent_ops \<Rightarrow> session_id \<Rightarrow> nat \<Rightarrow> participant \<Rightarrow> prompt_request_id \<Rightarrow> prompt_request_id \<Rightarrow> caller \<Rightarrow>
   request_kind_payload \<Rightarrow> nat \<Rightarrow> assistant_content list \<Rightarrow> 'w \<Rightarrow>
   (agent_error, string option \<times> nat) outcome \<times> 'w" where
  "run_turn_calls ops sid turn viewer root req c kp sends content w =
     (let calls = tool_calls content in
      if calls = [] then
        (if response_text content = [] then (Err EmptyReply, w)
         else (Ok (Some (response_text content), sends), w))
      else if MAX_TOOL_CALLS_PER_TURN < length calls
      then (Err (TooManyToolCalls MAX_TOOL_CALLS_PER_TURN), w)
      else
        let tctx = \<lparr>tx_session_id = sid, tx_viewer = viewer, tx_root_request_id = root,
                    tx_request_id = req, tx_kind_payload = kp, tx_acting_user_id = cal_user_id c,
                    tx_org_id = cal_org_id c\<rparr> in
        bindw (run_tools ops sid turn calls (payload_kind kp) tctx w) (\<lambda>results w1.
        bindw (lift_session (ao_append_for_user ops (cal_user_id c) sid SSystem viewer
                 (User (map UToolResult results)) req w1)) (\<lambda>_ w2.
          (Ok (None, sends + count_sends calls), w2))))"

definition run_turn ::
  "'w agent_ops \<Rightarrow> session_id \<Rightarrow> nat \<Rightarrow> participant \<Rightarrow> participant \<Rightarrow> message_sender \<Rightarrow>
   prompt_request_id \<Rightarrow> prompt_request_id \<Rightarrow> caller \<Rightarrow> request_kind_payload \<Rightarrow> nat \<Rightarrow> 'w \<Rightarrow>
   (agent_error, string option \<times> nat) outcome \<times> 'w" where
  "run_turn ops sid turn viewer other sender root req c kp sends w =
     bindw (ao_before_turn ops sid turn w) (\<lambda>_ w1.
     bindw (send_one_turn ops sid viewer kp w1) (\<lambda>content w2.
     bindw (ao_after_turn ops sid turn content w2) (\<lambda>_ w3.
     bindw (lift_session (ao_append_for_user ops (cal_user_id c) sid sender other
              (Assistant content) req (fold (ao_on_assistant ops) content w3))) (\<lambda>_ w4.
     run_turn_calls ops sid turn viewer root req c kp sends content w4))))"

section \<open>The reply loop (core.rs)\<close>

definition counterpart ::
  "'w agent_ops \<Rightarrow> session_id \<Rightarrow> participant \<Rightarrow> 'w \<Rightarrow> (agent_error, participant) outcome \<times> 'w" where
  "counterpart ops sid viewer w =
     bindw (lift_session (ao_participants ops sid w)) (\<lambda>(a, b) w1.
     if a = viewer then (Ok b, w1)
     else if b = viewer then (Ok a, w1)
     else (Err (ASession (SBackend (ao_not_participant ops viewer sid))), w1))"

text \<open>\<open>for turn in 0..max_turns\<close>, with \<open>left\<close> turns still to run.\<close>

fun turns ::
  "'w agent_ops \<Rightarrow> session_id \<Rightarrow> participant \<Rightarrow> participant \<Rightarrow> prompt_request_id \<Rightarrow> prompt_request_id \<Rightarrow>
   caller \<Rightarrow> request_kind_payload \<Rightarrow> nat \<Rightarrow> nat \<Rightarrow> nat \<Rightarrow> 'w \<Rightarrow> (agent_error, agent_reply) outcome \<times> 'w" where
  "turns ops sid viewer other root req c kp 0 turn sends w =
     (Err (MaxTurnsExceeded (ao_max_turns ops)), w)"
| "turns ops sid viewer other root req c kp (Suc left) turn sends w =
     (if ao_cancelled ops w then (Err ACancelled, w)
      else bindw (run_turn ops sid turn viewer other (sender_from_participant viewer) root req c kp sends w)
        (\<lambda>(final, sends') w1.
           case final of
             Some text \<Rightarrow> (Ok \<lparr>rep_final_text = text, rep_send_message_calls = sends'\<rparr>, w1)
           | None \<Rightarrow> turns ops sid viewer other root req c kp left (turn + 1) sends' w1))"

definition run_loop ::
  "'w agent_ops \<Rightarrow> session_id \<Rightarrow> participant \<Rightarrow> participant \<Rightarrow> prompt_request_id \<Rightarrow> caller \<Rightarrow>
   request_kind_payload \<Rightarrow> 'w \<Rightarrow> (agent_error, agent_reply) outcome \<times> 'w" where
  "run_loop ops sid viewer other req c kp w =
     bindw (lift_session (ao_root_request_id ops sid w)) (\<lambda>root w1.
       turns ops sid viewer other root req c kp (ao_max_turns ops) 0 0 w1)"

definition reply ::
  "'w agent_ops \<Rightarrow> session_id \<Rightarrow> participant \<Rightarrow> string list \<Rightarrow> prompt_request_id \<Rightarrow> caller \<Rightarrow>
   request_kind_payload \<Rightarrow> 'w \<Rightarrow> (agent_error, agent_reply) outcome \<times> 'w" where
  "reply ops sid viewer prompts req c kp w =
     (if prompts = [] then (Panic ''reply requires at least one prompt'', w)
      else
        bindw (counterpart ops sid viewer w) (\<lambda>other w1.
        bindw (lift_session (ao_append_for_user ops (cal_user_id c) sid (sender_from_participant other)
                 viewer (User (map UText prompts)) req w1)) (\<lambda>_ w2.
        run_loop ops sid viewer other req c kp w2)))"

definition resume ::
  "'w agent_ops \<Rightarrow> session_id \<Rightarrow> participant \<Rightarrow> prompt_request_id \<Rightarrow> caller \<Rightarrow>
   request_kind_payload \<Rightarrow> 'w \<Rightarrow> (agent_error, agent_reply) outcome \<times> 'w" where
  "resume ops sid viewer req c kp w =
     bindw (counterpart ops sid viewer w) (\<lambda>other w1. run_loop ops sid viewer other req c kp w1)"

section \<open>Batches partition the calls\<close>

lemma extend_run:
  "j \<le> n \<Longrightarrow> n < extend classes j \<Longrightarrow> n < length classes \<and> classes ! n"
proof (induction classes j rule: extend.induct)
  case (1 classes j)
  then show ?case
    by (cases "n = j") (auto simp: extend.simps [of classes j] split: if_splits)
qed

lemma extend_le_length: "j \<le> length classes \<Longrightarrow> extend classes j \<le> length classes"
  by (induction classes j rule: extend.induct) (subst extend.simps, auto)

lemma extend_stop: "extend classes j < length classes \<Longrightarrow> \<not> classes ! extend classes j"
proof (induction classes j rule: extend.induct)
  case (1 classes j)
  then show ?case by (auto simp: extend.simps [of classes j] split: if_splits)
qed

text \<open>The end of the batch that starts at \<open>i\<close>.\<close>

definition batch_end :: "bool list \<Rightarrow> nat \<Rightarrow> nat" where
  "batch_end classes i = (if classes ! i then extend classes (i + 1) else i + 1)"

lemma plan_from_unfold:
  "plan_from classes i =
     (if i < length classes then (i, batch_end classes i) # plan_from classes (batch_end classes i) else [])"
  by (subst plan_from.simps) (simp add: batch_end_def Let_def)

lemma batch_end_gt: "i < batch_end classes i"
  using extend_ge [of "i + 1" classes] by (simp add: batch_end_def)

lemma batch_end_le: "i < length classes \<Longrightarrow> batch_end classes i \<le> length classes"
  using extend_le_length [of "i + 1" classes] by (simp add: batch_end_def)

lemma batch_end_safe:
  "batch_end classes i = i + 1 \<or> list_all (\<lambda>n. classes ! n) [i..<batch_end classes i]"
proof (cases "classes ! i")
  case True
  have "classes ! n" if "i \<le> n" "n < extend classes (i + 1)" for n
    using that extend_run [of "i + 1" n classes] True by (cases "n = i") auto
  then show ?thesis using True by (simp add: batch_end_def list_all_iff)
qed (simp add: batch_end_def)

lemma plan_from_covers:
  "i \<le> length classes \<Longrightarrow> concat (map (\<lambda>(i, j). [i..<j]) (plan_from classes i)) = [i..<length classes]"
proof (induction classes i rule: plan_from.induct)
  case (1 classes i)
  show ?case
  proof (cases "i < length classes")
    case True
    have "concat (map (\<lambda>(i, j). [i..<j]) (plan_from classes (batch_end classes i)))
          = [batch_end classes i..<length classes]"
      using 1(1) [OF True, of "batch_end classes i"] batch_end_le [OF True]
      by (simp add: batch_end_def)
    moreover have "[i..<length classes] = [i..<batch_end classes i] @ [batch_end classes i..<length classes]"
      using upt_add_eq_append [of i "batch_end classes i" "length classes - batch_end classes i"]
        batch_end_gt [of i classes] batch_end_le [OF True] by simp
    ultimately show ?thesis using True by (simp add: plan_from_unfold [of classes i])
  qed (use 1 in \<open>simp add: plan_from_unfold\<close>)
qed

lemma plan_from_batches:
  "list_all (\<lambda>(i, j). i < j \<and> (j = i + 1 \<or> list_all (\<lambda>n. classes ! n) [i..<j])) (plan_from classes i)"
proof (induction classes i rule: plan_from.induct)
  case (1 classes i)
  then show ?case
    using batch_end_gt [of i classes] batch_end_safe [of classes i]
    by (subst plan_from_unfold) (auto simp: batch_end_def split: if_splits)
qed

text \<open>The batches of one assistant turn cover the calls exactly once and in order, no batch is
  empty, and a batch of more than one call holds concurrency-safe calls only: an unsafe or unknown
  call always runs alone, between the batches before and after it.\<close>
theorem plan_batches_partition:
  "concat (map (\<lambda>(i, j). [i..<j]) (plan_batches classes)) = [0..<length classes] \<and>
   list_all (\<lambda>(i, j). i < j \<and> (j = i + 1 \<or> list_all (\<lambda>n. classes ! n) [i..<j])) (plan_batches classes)"
  using plan_from_covers [of 0 classes] plan_from_batches [of classes 0] by (simp add: plan_batches_def)

section \<open>Every tool call is answered\<close>

lemma bindw_OkE:
  assumes "bindw r f = (Ok y, w')"
  obtains x w where "r = (Ok x, w)" "f x w = (Ok y, w')"
  using assms by (auto simp: bindw_def split: prod.splits outcome.splits)

definition answers :: "tool_call \<Rightarrow> tool_result \<Rightarrow> bool" where
  "answers call r \<longleftrightarrow> tr_call_id r = tc_id call \<and> length (tr_output r) \<le> TOOL_RESULT_MAX_BYTES"

lemma answers_error_result [simp]: "answers call (error_result (tc_id call) m)"
  using back_to_boundary_le [of m "min TOOL_RESULT_MAX_BYTES (length m)"]
  by (auto simp: answers_def error_result_def truncate_to_char_boundary_def)

lemma run_one_tool_answers: "answers call (fst (run_one_tool ops call tool k tctx w))"
  by (auto simp: run_one_tool_def answers_def [of call "tool_result.make _ _ _"] tool_result.defs
           split: option.split prod.split exec_result.split)
     (auto simp: answers_def)

lemma run_call_with_hooks_answers:
  "run_call_with_hooks ops sid turn call tool k tctx w = (Ok r, w') \<Longrightarrow> answers call r"
  using run_one_tool_answers [of call ops tool k tctx]
  by (auto simp: run_call_with_hooks_def elim!: bindw_OkE split: prod.splits) (metis fst_conv)

lemma run_batch_answers:
  "run_batch ops sid turn k tctx cs w = (rs, w') \<Longrightarrow>
   list_all2 (\<lambda>(call, _) r. \<forall>x. r = Ok x \<longrightarrow> answers call x) cs rs"
proof (induction ops sid turn k tctx cs w arbitrary: rs w' rule: run_batch.induct)
  case (2 ops sid turn k tctx call tool cs w)
  then show ?case by (auto split: prod.splits dest: run_call_with_hooks_answers)
qed auto

lemma merge_results_answers:
  assumes "merge_results ops tctx (zip calls rs) w = (Ok out, w')"
    and "list_all2 (\<lambda>call r. \<forall>x. r = Ok x \<longrightarrow> answers call x) calls rs"
  shows "list_all2 answers calls out"
  using assms(2,1)
proof (induction calls rs arbitrary: w out w' rule: list_all2_induct)
  case (Cons call calls r rs)
  from Cons.prems obtain result more w2 where
    "r = Ok result" "out = result # more"
    "merge_results ops tctx (zip calls rs)
       (record_tool_call ops tctx call result (ao_on_tool_result ops result w)) = (Ok more, w2)"
    by (auto elim!: bindw_OkE)
  then show ?case using Cons.hyps(1) Cons.IH by auto
qed simp

lemma run_batches_answers:
  "run_batches ops sid turn k tctx cs bs w = (Ok out, w') \<Longrightarrow>
   list_all2 answers (map (\<lambda>n. fst (cs ! n)) (concat (map (\<lambda>(i, j). [i..<j]) bs))) out"
proof (induction ops sid turn k tctx cs bs w arbitrary: out w' rule: run_batches.induct)
  case (2 ops sid turn k tctx cs i j bs w)
  let ?batch = "map (\<lambda>n. cs ! n) [i..<j]"
  obtain rs w1 where batch: "run_batch ops sid turn k tctx ?batch w = (rs, w1)"
    by fastforce
  with 2(2) obtain xs ys w2 w3 where nc: "\<not> ao_cancelled ops w"
    and m: "merge_results ops tctx (zip (map fst ?batch) rs) w1 = (Ok xs, w2)"
    and r: "run_batches ops sid turn k tctx cs bs w2 = (Ok ys, w3)" and out: "out = xs @ ys"
    by (auto simp: Let_def elim!: bindw_OkE split: if_splits)
  have "list_all2 (\<lambda>call r. \<forall>x. r = Ok x \<longrightarrow> answers call x) (map fst ?batch) rs"
    using run_batch_answers [OF batch]
    by (auto simp: list_all2_map1 split_beta elim: list_all2_mono)
  then have "list_all2 answers (map fst ?batch) xs"
    using merge_results_answers [OF m] by blast
  moreover have "list_all2 answers (map (\<lambda>n. fst (cs ! n)) (concat (map (\<lambda>(i, j). [i..<j]) bs))) ys"
    using 2(1) [OF nc refl batch [symmetric] r] .
  ultimately show ?case using out by (auto intro: list_all2_appendI simp: comp_def)
qed simp

lemma run_tools_answers:
  assumes "run_tools ops sid turn calls k tctx w = (Ok results, w')"
  shows "list_all2 answers calls results"
proof -
  let ?cs = "map (\<lambda>c. (c, ao_tool ops k (tc_name c))) calls"
  let ?flags = "map (\<lambda>(c, t). classify t = CSafe) ?cs"
  have "run_batches ops sid turn k tctx ?cs (plan_batches ?flags) w = (Ok results, w')"
    using assms by (simp add: run_tools_def Let_def)
  then have "list_all2 answers (map (\<lambda>n. fst (?cs ! n)) [0..<length calls]) results"
    using run_batches_answers [of ops sid turn k tctx ?cs "plan_batches ?flags" w results w']
      plan_from_covers [of 0 ?flags] by (simp add: plan_batches_def)
  moreover have "map (\<lambda>n. fst (?cs ! n)) [0..<length calls] = calls"
    by (rule nth_equalityI) auto
  ultimately show ?thesis by simp
qed

section \<open>The trace of a run\<close>

text \<open>
  The provider calls and the appends of a run, in order. \<open>traced ops\<close> runs \<open>ops\<close> unchanged on
  the first component of the world and keeps the trace in the second one; \<open>reply_erase\<close> below
  shows that the trace does not influence the run.
\<close>

datatype event = Sent chat_request | Appended message_sender participant chat_message

definition keep :: "'x \<times> 'w \<Rightarrow> event list \<Rightarrow> 'x \<times> ('w \<times> event list)" where
  "keep r t = (fst r, (snd r, t))"

definition erase :: "'x \<times> ('w \<times> event list) \<Rightarrow> 'x \<times> 'w" where
  "erase r = (fst r, fst (snd r))"

definition traced :: "'w agent_ops \<Rightarrow> ('w \<times> event list) agent_ops" where
  "traced ops =
     \<lparr>ao_cancelled = (\<lambda>w. ao_cancelled ops (fst w)),
      ao_send = (\<lambda>rq w. keep (ao_send ops rq (fst w)) (snd w @ [Sent rq])),
      ao_before_turn = (\<lambda>s n w. keep (ao_before_turn ops s n (fst w)) (snd w)),
      ao_after_turn = (\<lambda>s n c w. keep (ao_after_turn ops s n c (fst w)) (snd w)),
      ao_before_tool = (\<lambda>s n c w. keep (ao_before_tool ops s n c (fst w)) (snd w)),
      ao_after_tool = (\<lambda>s n c r w. keep (ao_after_tool ops s n c r (fst w)) (snd w)),
      ao_on_assistant = (\<lambda>b w. (ao_on_assistant ops b (fst w), snd w)),
      ao_on_tool_result = (\<lambda>r w. (ao_on_tool_result ops r (fst w), snd w)),
      ao_append_for_user = (\<lambda>u s sender receiver m req w.
        case ao_append_for_user ops u s sender receiver m req (fst w) of
          (r, w') \<Rightarrow> (r, (w', if is_Ok r then snd w @ [Appended sender receiver m] else snd w))),
      ao_snapshot = (\<lambda>s v w. keep (ao_snapshot ops s v (fst w)) (snd w)),
      ao_parent_history = (\<lambda>s v w. keep (ao_parent_history ops s v (fst w)) (snd w)),
      ao_participants = (\<lambda>s w. keep (ao_participants ops s (fst w)) (snd w)),
      ao_root_request_id = (\<lambda>s w. keep (ao_root_request_id ops s (fst w)) (snd w)),
      ao_system_prompt = (\<lambda>s v kp w. keep (ao_system_prompt ops s v kp (fst w)) (snd w)),
      ao_tool = ao_tool ops,
      ao_specs = ao_specs ops,
      ao_execute = (\<lambda>n i ctx w. keep (ao_execute ops n i ctx (fst w)) (snd w)),
      ao_server_id = ao_server_id ops,
      ao_record = (\<lambda>row w. (ao_record ops row (fst w), snd w)),
      ao_not_participant = ao_not_participant ops,
      ao_model = ao_model ops,
      ao_max_output_tokens = ao_max_output_tokens ops,
      ao_max_turns = ao_max_turns ops\<rparr>"

lemma traced_sel [simp]:
  "ao_cancelled (traced ops) w = ao_cancelled ops (fst w)"
  "ao_send (traced ops) rq w = keep (ao_send ops rq (fst w)) (snd w @ [Sent rq])"
  "ao_before_turn (traced ops) s n w = keep (ao_before_turn ops s n (fst w)) (snd w)"
  "ao_after_turn (traced ops) s n c w = keep (ao_after_turn ops s n c (fst w)) (snd w)"
  "ao_before_tool (traced ops) s n tc w = keep (ao_before_tool ops s n tc (fst w)) (snd w)"
  "ao_after_tool (traced ops) s n tc tr w = keep (ao_after_tool ops s n tc tr (fst w)) (snd w)"
  "ao_on_assistant (traced ops) b w = (ao_on_assistant ops b (fst w), snd w)"
  "ao_on_tool_result (traced ops) tr w = (ao_on_tool_result ops tr (fst w), snd w)"
  "ao_snapshot (traced ops) s v w = keep (ao_snapshot ops s v (fst w)) (snd w)"
  "ao_parent_history (traced ops) s v w = keep (ao_parent_history ops s v (fst w)) (snd w)"
  "ao_participants (traced ops) s w = keep (ao_participants ops s (fst w)) (snd w)"
  "ao_root_request_id (traced ops) s w = keep (ao_root_request_id ops s (fst w)) (snd w)"
  "ao_system_prompt (traced ops) s v kp w = keep (ao_system_prompt ops s v kp (fst w)) (snd w)"
  "ao_tool (traced ops) = ao_tool ops"
  "ao_specs (traced ops) = ao_specs ops"
  "ao_execute (traced ops) nm i ctx w = keep (ao_execute ops nm i ctx (fst w)) (snd w)"
  "ao_server_id (traced ops) = ao_server_id ops"
  "ao_record (traced ops) row w = (ao_record ops row (fst w), snd w)"
  "ao_not_participant (traced ops) = ao_not_participant ops"
  "ao_model (traced ops) = ao_model ops"
  "ao_max_output_tokens (traced ops) = ao_max_output_tokens ops"
  "ao_max_turns (traced ops) = ao_max_turns ops"
  by (simp_all add: traced_def)

lemma traced_append:
  "ao_append_for_user (traced ops) u s sender receiver m req w =
     keep (ao_append_for_user ops u s sender receiver m req (fst w))
       (if is_Ok (fst (ao_append_for_user ops u s sender receiver m req (fst w)))
        then snd w @ [Appended sender receiver m] else snd w)"
  by (simp add: traced_def keep_def split: prod.split)

lemma bindw_keep:
  assumes "\<And>a w. f a (w, t) = keep (g a w) t"
  shows "bindw (keep r t) f = keep (bindw r g) t"
  using assms by (auto simp: bindw_def keep_def split: prod.split outcome.split)

lemma lift_session_keep [simp]: "lift_session (keep r t) = keep (lift_session r) t"
  by (simp add: lift_session_def keep_def)

lemma keep_sel [simp]: "fst (keep r t) = fst r" "snd (keep r t) = (snd r, t)"
  by (simp_all add: keep_def)

lemma keep_if: "(if b then keep x t else keep y t) = keep (if b then x else y) t"
  by simp

text \<open>Running tools leaves the trace as it is.\<close>

lemma run_one_tool_keep:
  "run_one_tool (traced ops) call tool k tctx (w, t) = keep (run_one_tool ops call tool k tctx w) t"
  by (auto simp: run_one_tool_def keep_def split: option.split prod.split exec_result.split)

lemma run_call_with_hooks_keep:
  "run_call_with_hooks (traced ops) sid turn call tool k tctx (w, t) =
     keep (run_call_with_hooks ops sid turn call tool k tctx w) t"
  unfolding run_call_with_hooks_def
  by (auto intro!: bindw_keep simp: run_one_tool_keep keep_def bindw_def split: prod.split outcome.split)

lemma record_tool_call_keep:
  "record_tool_call (traced ops) tctx call r (w, t) = (record_tool_call ops tctx call r w, t)"
  by (simp add: record_tool_call_def split: option.split)

lemma run_batch_keep:
  "run_batch (traced ops) sid turn k tctx cs (w, t) = keep (run_batch ops sid turn k tctx cs w) t"
proof (induction ops sid turn k tctx cs w rule: run_batch.induct)
  case (2 ops sid turn k tctx call tool cs w)
  then show ?case by (auto simp: run_call_with_hooks_keep keep_def split: prod.splits)
qed (simp add: keep_def)

lemma merge_results_keep:
  "merge_results (traced ops) tctx rs (w, t) = keep (merge_results ops tctx rs w) t"
proof (induction ops tctx rs w rule: merge_results.induct)
  case (2 ops tctx call r rs w)
  then show ?case
    by (cases r) (auto simp: bindw_def record_tool_call_keep keep_def split: prod.splits outcome.splits)
qed (simp add: keep_def)

lemma run_batches_keep:
  "run_batches (traced ops) sid turn k tctx cs bs (w, t) = keep (run_batches ops sid turn k tctx cs bs w) t"
proof (induction ops sid turn k tctx cs bs w rule: run_batches.induct)
  case (2 ops sid turn k tctx cs i j bs w)
  then show ?case
    by (auto simp: run_batch_keep merge_results_keep bindw_def keep_def Let_def
             split: prod.splits outcome.splits)
qed (simp add: keep_def)

lemma run_tools_keep:
  "run_tools (traced ops) sid turn calls k tctx (w, t) = keep (run_tools ops sid turn calls k tctx w) t"
  by (simp add: run_tools_def run_batches_keep Let_def)

text \<open>The trace does not influence the run.\<close>

lemma erase_keep [simp]: "erase (keep r t) = r"
  by (simp add: erase_def keep_def)

lemma erase_bindw:
  assumes "erase r = r'" and "\<And>a w t. erase (f a (w, t)) = g a w"
  shows "erase (bindw r f) = bindw r' g"
  using assms by (auto simp: bindw_def erase_def split: prod.split outcome.split)

lemma erase_if: "erase (if b then x else y) = (if b then erase x else erase y)"
  by simp

lemma erase_pair [simp]: "erase (r, (w, t)) = (r, w)"
  by (simp add: erase_def)

lemma build_chat_request_keep:
  "build_chat_request (traced ops) sid viewer kp (w, t) = keep (build_chat_request ops sid viewer kp w) t"
  unfolding build_chat_request_def
  by (auto intro!: bindw_keep simp: keep_if) (simp_all add: keep_def)

lemma send_one_turn_erase:
  "erase (send_one_turn (traced ops) sid viewer kp (w, t)) = send_one_turn ops sid viewer kp w"
  unfolding send_one_turn_def
  by (rule erase_bindw) (auto simp: build_chat_request_keep call_provider_def keep_def split: prod.split)

lemma fold_on_assistant_traced:
  "fold (ao_on_assistant (traced ops)) content (w, t) = (fold (ao_on_assistant ops) content w, t)"
  by (induction content arbitrary: w) auto

lemma run_turn_calls_erase:
  "erase (run_turn_calls (traced ops) sid turn viewer root req c kp sends content (w, t)) =
     run_turn_calls ops sid turn viewer root req c kp sends content w"
  unfolding run_turn_calls_def Let_def
  by (auto intro!: erase_bindw simp: run_tools_keep traced_append)

lemma run_turn_erase:
  "erase (run_turn (traced ops) sid turn viewer other sender root req c kp sends (w, t)) =
     run_turn ops sid turn viewer other sender root req c kp sends w"
  unfolding run_turn_def
  by (intro erase_bindw)
     (simp_all add: send_one_turn_erase run_turn_calls_erase traced_append fold_on_assistant_traced)

lemma turns_erase:
  "erase (turns (traced ops) sid viewer other root req c kp left turn sends (w, t)) =
     turns ops sid viewer other root req c kp left turn sends w"
proof (induction left arbitrary: turn sends w t)
  case (Suc left)
  show ?case
    unfolding turns.simps erase_if traced_sel fst_conv
    by (intro if_cong refl erase_bindw run_turn_erase) (auto simp: Suc.IH split: option.split)
qed simp

lemma counterpart_keep:
  "counterpart (traced ops) sid viewer (w, t) = keep (counterpart ops sid viewer w) t"
  unfolding counterpart_def by (auto intro!: bindw_keep) (auto simp: keep_def)

lemma run_loop_erase:
  "erase (run_loop (traced ops) sid viewer other req c kp (w, t)) = run_loop ops sid viewer other req c kp w"
  unfolding run_loop_def by (intro erase_bindw) (simp_all add: turns_erase)

lemma reply_erase:
  "erase (reply (traced ops) sid viewer prompts req c kp (w, t)) = reply ops sid viewer prompts req c kp w"
  unfolding reply_def erase_if erase_pair
  by (intro if_cong refl erase_bindw) (simp_all add: counterpart_keep traced_append run_loop_erase)

section \<open>The transcript a reply leaves\<close>

text \<open>
  A conversation of \<open>n\<close> turns that ends with the answer \<open>text\<close> and tries \<open>k\<close> sends: each
  turn is one provider call and one assistant message to the counterpart; every turn but the last
  has tool calls, answered in call order by one \<open>System\<close> message to the viewer.
\<close>

inductive conversation ::
  "participant \<Rightarrow> participant \<Rightarrow> nat \<Rightarrow> string \<Rightarrow> nat \<Rightarrow> event list \<Rightarrow> bool" for viewer other where
  final_turn:
    "tool_calls content = [] \<Longrightarrow> response_text content = text \<Longrightarrow> text \<noteq> [] \<Longrightarrow>
     conversation viewer other 1 text 0
       [Sent rq, Appended (sender_from_participant viewer) other (Assistant content)]"
| tool_turn:
    "tool_calls content \<noteq> [] \<Longrightarrow> length (tool_calls content) \<le> MAX_TOOL_CALLS_PER_TURN \<Longrightarrow>
     list_all2 answers (tool_calls content) results \<Longrightarrow>
     conversation viewer other n text k rest \<Longrightarrow>
     conversation viewer other (Suc n) text (count_sends (tool_calls content) + k)
       (Sent rq # Appended (sender_from_participant viewer) other (Assistant content) #
        Appended SSystem viewer (User (map UToolResult results)) # rest)"

lemma send_one_turn_trace:
  assumes "send_one_turn (traced ops) sid viewer kp (w, t) = (Ok content, (w', t'))"
  shows "\<exists>rq. t' = t @ [Sent rq]"
  using assms
  by (auto simp: send_one_turn_def build_chat_request_keep call_provider_def keep_def
           elim!: bindw_OkE split: if_splits prod.splits send_result.splits)

lemma append_trace:
  assumes "lift_session (ao_append_for_user (traced ops) u sid sender receiver m req (w, t)) = (Ok x, (w', t'))"
  shows "t' = t @ [Appended sender receiver m]"
  using assms by (auto simp: lift_session_def traced_append keep_def split: if_splits)

lemma run_turn_calls_trace:
  assumes "run_turn_calls (traced ops) sid turn viewer root req c kp sends content (w, t) = (Ok (f, s), (w', t'))"
  shows "(\<exists>text. f = Some text \<and> t' = t \<and> s = sends \<and> tool_calls content = [] \<and>
            text = response_text content \<and> text \<noteq> []) \<or>
         (\<exists>results. f = None \<and> t' = t @ [Appended SSystem viewer (User (map UToolResult results))] \<and>
            s = sends + count_sends (tool_calls content) \<and> tool_calls content \<noteq> [] \<and>
            length (tool_calls content) \<le> MAX_TOOL_CALLS_PER_TURN \<and>
            list_all2 answers (tool_calls content) results)"
  using assms unfolding run_turn_calls_def Let_def
  by (auto simp: run_tools_keep keep_def elim!: bindw_OkE dest!: append_trace split: if_splits)
     (metis prod.collapse run_tools_answers)

lemma run_turn_trace:
  assumes "run_turn (traced ops) sid turn viewer other sender root req c kp sends (w, t) = (Ok (f, s), (w', t'))"
  shows "\<exists>rq content. case f of
      Some text \<Rightarrow> t' = t @ [Sent rq, Appended sender other (Assistant content)] \<and> s = sends \<and>
        tool_calls content = [] \<and> text = response_text content \<and> text \<noteq> []
    | None \<Rightarrow> \<exists>results. t' = t @ [Sent rq, Appended sender other (Assistant content),
                               Appended SSystem viewer (User (map UToolResult results))] \<and>
        s = sends + count_sends (tool_calls content) \<and> tool_calls content \<noteq> [] \<and>
        length (tool_calls content) \<le> MAX_TOOL_CALLS_PER_TURN \<and> list_all2 answers (tool_calls content) results"
proof -
  from assms obtain content w2 t2 w3 u w4 t4 where
    send: "send_one_turn (traced ops) sid viewer kp (w3, t) = (Ok content, (w2, t2))" and
    app: "lift_session (ao_append_for_user (traced ops) (cal_user_id c) sid sender other (Assistant content)
            req (u, t2)) = (Ok (), (w4, t4))" and
    calls: "run_turn_calls (traced ops) sid turn viewer root req c kp sends content (w4, t4) = (Ok (f, s), (w', t'))"
    unfolding run_turn_def
    by (auto simp: keep_def fold_on_assistant_traced elim!: bindw_OkE)
  show ?thesis
    using send_one_turn_trace [OF send] append_trace [OF app] run_turn_calls_trace [OF calls]
    by (auto split: option.split)
qed

lemma turns_conversation:
  assumes "turns (traced ops) sid viewer other root req c kp left turn sends (w, t) = (Ok rep, (w', t'))"
  shows "\<exists>n k ev. t' = t @ ev \<and> n \<le> left \<and> rep_send_message_calls rep = sends + k \<and>
           conversation viewer other n (rep_final_text rep) k ev"
  using assms
proof (induction left arbitrary: turn sends w t)
  case (Suc left)
  then obtain f s w1 t1 where
    turn: "run_turn (traced ops) sid turn viewer other (sender_from_participant viewer) root req c kp sends (w, t)
             = (Ok (f, s), (w1, t1))" and
    rest: "(case f of Some text \<Rightarrow> (Ok \<lparr>rep_final_text = text, rep_send_message_calls = s\<rparr>, (w1, t1))
            | None \<Rightarrow> turns (traced ops) sid viewer other root req c kp left (turn + 1) s (w1, t1))
           = (Ok rep, (w', t'))"
    by (auto elim!: bindw_OkE split: if_splits)
  show ?case
  proof (cases f)
    case None
    with Suc.IH rest obtain n k ev where "t' = t1 @ ev" "n \<le> left" "rep_send_message_calls rep = s + k"
      "conversation viewer other n (rep_final_text rep) k ev" by auto blast
    moreover obtain rq content results where
      "t1 = t @ [Sent rq, Appended (sender_from_participant viewer) other (Assistant content),
                 Appended SSystem viewer (User (map UToolResult results))]"
      "s = sends + count_sends (tool_calls content)" "tool_calls content \<noteq> []"
      "length (tool_calls content) \<le> MAX_TOOL_CALLS_PER_TURN"
      "list_all2 answers (tool_calls content) results"
      using run_turn_trace [OF turn] None by auto
    ultimately show ?thesis
      using tool_turn [of content results viewer other n "rep_final_text rep" k ev rq]
      by (intro exI [of _ "Suc n"] exI [of _ "count_sends (tool_calls content) + k"]) auto
  next
    case (Some ans)
    then obtain rq content where
      "t1 = t @ [Sent rq, Appended (sender_from_participant viewer) other (Assistant content)]"
      "s = sends" "tool_calls content = []" "ans = response_text content" "ans \<noteq> []"
      using run_turn_trace [OF turn] by auto
    then show ?thesis
      using rest Some final_turn [of content ans viewer other rq]
      by (intro exI [of _ 1] exI [of _ 0]) auto
  qed
qed simp

text \<open>C8. A reply that succeeds leaves a well-formed transcript and is bounded. Seen as the sequence of
  its provider calls and appended messages, it is the prompt message from the counterpart followed
  by at most \<open>max_turns\<close> turns; every turn but the last carries between 1 and 16 tool calls, each
  answered by exactly one result of at most 256 KiB, in call order, in the next message; the last
  turn has no tool call and its non-empty text is the reply; the send counter is the number of
  \<open>send_message\<close> calls.\<close>
theorem reply_transcript:
  assumes "reply ops sid viewer prompts req c kp w = (Ok rep, w')"
  shows "\<exists>other n ev.
     reply (traced ops) sid viewer prompts req c kp (w, []) =
       (Ok rep, (w', Appended (sender_from_participant other) viewer (User (map UText prompts)) # ev)) \<and>
     n \<le> ao_max_turns ops \<and>
     conversation viewer other n (rep_final_text rep) (rep_send_message_calls rep) ev"
proof -
  obtain t where run: "reply (traced ops) sid viewer prompts req c kp (w, []) = (Ok rep, (w', t))"
    using assms reply_erase [of ops sid viewer prompts req c kp w "[]"]
    by (auto simp: erase_def) (metis prod.collapse)
  then obtain other root w1 t1 w2 w3 where
    app: "lift_session (ao_append_for_user (traced ops) (cal_user_id c) sid (sender_from_participant other)
            viewer (User (map UText prompts)) req (w1, [])) = (Ok (), (w2, t1))" and
    loop: "turns (traced ops) sid viewer other root req c kp (ao_max_turns ops) 0 0 (w3, t1) = (Ok rep, (w', t))"
    by (auto simp: reply_def run_loop_def counterpart_keep keep_def lift_session_def elim!: bindw_OkE split: if_splits)
  from turns_conversation [OF loop] append_trace [OF app] run show ?thesis by auto
qed

text \<open>A turn with more than 16 tool calls fails, but only after the assistant message was
  appended: the transcript is left with tool calls that no result answers, and no tool ran.\<close>
theorem oversized_turn_left_unanswered:
  assumes "ao_before_turn ops sid turn w = (Ok (), w1)"
    and "send_one_turn ops sid viewer kp w1 = (Ok content, w2)"
    and "ao_after_turn ops sid turn content w2 = (Ok (), w3)"
    and "ao_append_for_user ops (cal_user_id c) sid sender other (Assistant content) req
           (fold (ao_on_assistant ops) content w3) = (Ok (), w4)"
    and "MAX_TOOL_CALLS_PER_TURN < length (tool_calls content)"
  shows "run_turn ops sid turn viewer other sender root req c kp sends w =
           (Err (TooManyToolCalls MAX_TOOL_CALLS_PER_TURN), w4)"
  using assms by (auto simp: run_turn_def run_turn_calls_def bindw_def lift_session_def Let_def)

section \<open>Wiring the session store; a run\<close>

text \<open>The session handles of the application are the Postgres store; the other handles stay
  parameters. The second component of the world is the rest of the environment.\<close>

definition pg_store_ops :: "('e \<Rightarrow> instant) \<Rightarrow> (db \<times> 'e) agent_ops \<Rightarrow> (db \<times> 'e) agent_ops" where
  "pg_store_ops now ops = ops
     \<lparr>ao_append_for_user := (\<lambda>u s sender receiver m req (d, e).
        case append_for_user u s sender receiver m req (now e) d of (r, d') \<Rightarrow> (r, (d', e))),
      ao_snapshot := (\<lambda>s v (d, e). (snapshot s v d, (d, e))),
      ao_parent_history := (\<lambda>s v (d, e). (parent_history_for_viewer s v d, (d, e))),
      ao_participants := (\<lambda>s (d, e). (participants s d, (d, e))),
      ao_root_request_id := (\<lambda>s (d, e). (root_request_id s d, (d, e)))\<rparr>"

text \<open>A provider that plays a script of responses, one tool that answers with its input.\<close>

definition script_ops :: "(db \<times> assistant_content list list) agent_ops" where
  "script_ops = pg_store_ops (\<lambda>_. 5)
     \<lparr>ao_cancelled = (\<lambda>_. False),
      ao_send = (\<lambda>rq (d, s). case s of [] \<Rightarrow> (SendTimeout, (d, [])) | c # cs \<Rightarrow> (SendOk c, (d, cs))),
      ao_before_turn = (\<lambda>_ _ w. (Ok (), w)),
      ao_after_turn = (\<lambda>_ _ _ w. (Ok (), w)),
      ao_before_tool = (\<lambda>_ _ _ w. (Ok (), w)),
      ao_after_tool = (\<lambda>_ _ _ _ w. (Ok (), w)),
      ao_on_assistant = (\<lambda>_ w. w),
      ao_on_tool_result = (\<lambda>_ w. w),
      ao_append_for_user = (\<lambda>_ _ _ _ _ _ w. (Ok (), w)),
      ao_snapshot = (\<lambda>_ _ w. (Ok [], w)),
      ao_parent_history = (\<lambda>_ _ w. (Ok [], w)),
      ao_participants = (\<lambda>_ w. (Ok (Human, Human), w)),
      ao_root_request_id = (\<lambda>_ w. (Ok 0, w)),
      ao_system_prompt = (\<lambda>_ _ _ w. (Ok ''be brief'', w)),
      ao_tool = (\<lambda>_ n. if n = ''echo'' then Some True else None),
      ao_specs = (\<lambda>_. [''echo'']),
      ao_execute = (\<lambda>_ i _ w. (ExecOk i, w)),
      ao_server_id = (\<lambda>_. None),
      ao_record = (\<lambda>_ w. w),
      ao_not_participant = (\<lambda>_ _. ''not a participant''),
      ao_model = ''m'',
      ao_max_output_tokens = 4096,
      ao_max_turns = 12\<rparr>"

definition echo_call :: "string \<Rightarrow> tool_call" where
  "echo_call i = \<lparr>tc_id = i, tc_name = ''echo'', tc_input = ''x''\<rparr>"

definition script :: "assistant_content list list" where
  "script = [[AToolCall (echo_call ''a''),
              AToolCall \<lparr>tc_id = ''b'', tc_name = ''send_message'', tc_input = ''{}''\<rparr>],
             [AText ''done'']]"

definition script_run where
  "script_run = reply script_ops 20 (Agent 1) [''hi''] 10 \<lparr>cal_user_id = 7, cal_org_id = 3\<rparr> PNormal
     (talk_start, script)"

theorem reply_transcript_witness:
  "\<exists>other n ev.
     snd (snd (reply (traced script_ops) 20 (Agent 1) [''hi''] 10 \<lparr>cal_user_id = 7, cal_org_id = 3\<rparr> PNormal
            ((talk_start, script), []))) =
       Appended (sender_from_participant other) (Agent 1) (User [UText ''hi'']) # ev \<and> n \<le> 12 \<and>
     conversation (Agent 1) other n ''done'' 1 ev"
proof -
  have run: "reply script_ops 20 (Agent 1) [''hi''] 10 \<lparr>cal_user_id = 7, cal_org_id = 3\<rparr> PNormal
               (talk_start, script) =
             (Ok \<lparr>rep_final_text = ''done'', rep_send_message_calls = 1\<rparr>, snd script_run)"
    by code_simp
  have "ao_max_turns script_ops = 12" by code_simp
  then show ?thesis using reply_transcript [OF run] by (elim exE conjE) (intro exI conjI, auto)
qed

theorem oversized_turn_left_unanswered_witness:
  "\<exists>w. run_turn script_ops 20 0 (Agent 1) Human (SAgent 1) 10 10 \<lparr>cal_user_id = 7, cal_org_id = 3\<rparr> PNormal 0
      (talk, [replicate 17 (AToolCall (echo_call ''a''))]) = (Err (TooManyToolCalls 16), w) \<and>
     length (session_rows 20 (fst w)) = 2"
proof -
  let ?c = "\<lparr>cal_user_id = 7, cal_org_id = 3\<rparr>"
  let ?m = "replicate 17 (AToolCall (echo_call ''a''))"
  let ?w4 = "snd (ao_append_for_user script_ops 7 20 (SAgent 1) Human (Assistant ?m) 10 (talk, []))"
  have "ao_before_turn script_ops 20 0 (talk, [?m]) = (Ok (), (talk, [?m]))" by code_simp
  moreover have "send_one_turn script_ops 20 (Agent 1) PNormal (talk, [?m]) = (Ok ?m, (talk, []))" by code_simp
  moreover have "ao_after_turn script_ops 20 0 ?m (talk, []) = (Ok (), (talk, []))" by code_simp
  moreover have "ao_append_for_user script_ops (cal_user_id ?c) 20 (SAgent 1) Human (Assistant ?m) 10
      (fold (ao_on_assistant script_ops) ?m (talk, [])) = (Ok (), ?w4)" by code_simp
  moreover have "MAX_TOOL_CALLS_PER_TURN < length (tool_calls ?m)" by code_simp
  ultimately have "run_turn script_ops 20 0 (Agent 1) Human (SAgent 1) 10 10 ?c PNormal 0 (talk, [?m]) =
      (Err (TooManyToolCalls MAX_TOOL_CALLS_PER_TURN), ?w4)"
    by (rule oversized_turn_left_unanswered)
  moreover have "length (session_rows 20 (fst ?w4)) = 2" by code_simp
  ultimately show ?thesis by (auto simp: MAX_TOOL_CALLS_PER_TURN_def)
qed

end
