(* ===== verification/Response_Hub.thy ===== *)
theory Response_Hub
  imports Queue_Invariants Relay_Systems "HOL-Library.Sublist"
begin

text \<open>
  The response stream: \<open>src/runtime/response.rs\<close> (chunks) and \<open>src/runtime/pg_response.rs\<close> (the
  Postgres log with an in-process live tap). A publish commits the chunk to the log and then
  fans it out on a broadcast channel; a subscriber first attaches to the channel, then reads
  the backlog, and drops live items the backlog already had. The channels of
  \<open>tokio::sync::broadcast\<close> are a store of everything sent on them, a receiver is a position; a
  receiver that falls more than the buffer behind loses the items in between and is told so.
\<close>

section \<open>Chunks (response.rs)\<close>

fun chunk_is_terminal :: "response_chunk \<Rightarrow> bool" where
  "chunk_is_terminal (CDone _) = True"
| "chunk_is_terminal (CError _) = True"
| "chunk_is_terminal _ = False"

fun event_kind :: "response_chunk \<Rightarrow> string" where
  "event_kind (CText _) = ''text''"
| "event_kind (CReasoning _) = ''reasoning''"
| "event_kind (CToolCall _) = ''tool_call''"
| "event_kind (CToolResult _) = ''tool_result''"
| "event_kind (CAgentMessage _ _) = ''agent_message''"
| "event_kind (CDone _) = ''done''"
| "event_kind (CError _) = ''error''"
| "event_kind CStalled = ''stalled''"

fun weight :: "response_chunk \<Rightarrow> nat" where
  "weight (CText v) = length v"
| "weight (CReasoning v) = length v"
| "weight (CError r) = length r"
| "weight (CDone t) = length t"
| "weight (CAgentMessage _ c) = length c + 36"
| "weight (CToolCall c) = length (tc_id c) + length (tc_name c) + length (tc_input c)"
| "weight (CToolResult r) = length (tr_call_id r) + length (tr_output r)"
| "weight CStalled = 0"

definition from_failure :: "failure_reason \<Rightarrow> response_chunk" where
  "from_failure reason = CError (failure_display reason)"

record envelope =
  env_seq :: nat
  env_chunk :: response_chunk

datatype stream_event = Chunk envelope | Stalled

datatype response_error =
    RNotFound prompt_request_id
  | RLagged
  | RSequence string
  | RBackend string
  | RDb string

section \<open>Slots (pg_response.rs)\<close>

definition MAX_RESPONSE_SLOTS :: nat where
  "MAX_RESPONSE_SLOTS = 4096"

definition MAX_CHUNK_BUFFER_PER_REQUEST :: nat where
  "MAX_CHUNK_BUFFER_PER_REQUEST = 256"

text \<open>The sender half is the index of its channel in the store.\<close>

record stream_slot =
  sl_tx :: nat
  sl_closed :: bool

record hub =
  hb_slots :: "(prompt_request_id \<times> stream_slot) list"
  hb_order :: "prompt_request_id list"
  hb_chans :: "envelope list list"
  hb_slot_cap :: nat

definition hub_with_caps :: "nat \<Rightarrow> (unit, hub) outcome" where
  "hub_with_caps cap =
     (if cap = 0 then Panic ''invariant: slot_cap must be > 0''
      else Ok \<lparr>hb_slots = [], hb_order = [], hb_chans = [], hb_slot_cap = cap\<rparr>)"

definition slot_of :: "hub \<Rightarrow> prompt_request_id \<Rightarrow> stream_slot option" where
  "slot_of h i = map_of (hb_slots h) i"

text \<open>The oldest closed slot, else the oldest slot.\<close>

definition hub_evict_one :: "hub \<Rightarrow> hub" where
  "hub_evict_one h =
     (let victim = (case find (\<lambda>i. \<exists>s \<in> set_option (slot_of h i). sl_closed s) (hb_order h) of
                      Some i \<Rightarrow> Some i
                    | None \<Rightarrow> (case hb_order h of [] \<Rightarrow> None | i # _ \<Rightarrow> Some i)) in
      case victim of
        None \<Rightarrow> h
      | Some i \<Rightarrow> h\<lparr>hb_order := remove1 i (hb_order h),
                   hb_slots := filter (\<lambda>(j, _). j \<noteq> i) (hb_slots h)\<rparr>)"

definition touch_slot :: "prompt_request_id \<Rightarrow> hub \<Rightarrow> hub" where
  "touch_slot i h =
     (case slot_of h i of
        Some _ \<Rightarrow> h
      | None \<Rightarrow>
          (let h1 = (if hb_slot_cap h \<le> length (hb_slots h) then hub_evict_one h else h) in
           h1\<lparr>hb_slots := hb_slots h1 @ [(i, \<lparr>sl_tx = length (hb_chans h1), sl_closed = False\<rparr>)],
              hb_order := hb_order h1 @ [i],
              hb_chans := hb_chans h1 @ [[]]\<rparr>))"

definition set_closed :: "prompt_request_id \<Rightarrow> hub \<Rightarrow> hub" where
  "set_closed i h = h\<lparr>hb_slots := map (\<lambda>(j, s). (j, if j = i then s\<lparr>sl_closed := True\<rparr> else s)) (hb_slots h)\<rparr>"

text \<open>A receiver is the channel and the position from which it will read.\<close>

definition subscribe_live :: "prompt_request_id \<Rightarrow> hub \<Rightarrow> (nat \<times> nat \<times> bool) \<times> hub" where
  "subscribe_live i h =
     (let h1 = touch_slot i h; s = the (slot_of h1 i) in
      ((sl_tx s, length (hb_chans h1 ! sl_tx s), sl_closed s), h1))"

definition publish_sender :: "prompt_request_id \<Rightarrow> bool \<Rightarrow> hub \<Rightarrow> (response_error, nat) outcome \<times> hub" where
  "publish_sender i terminal h =
     (let h1 = touch_slot i h; s = the (slot_of h1 i) in
      if sl_closed s then (Err (RBackend ''stream already closed''), h1)
      else (Ok (sl_tx s), if terminal then set_closed i h1 else h1))"

definition mark_closed :: "prompt_request_id \<Rightarrow> hub \<Rightarrow> hub" where
  "mark_closed i h = set_closed i (touch_slot i h)"

section \<open>Publishing and closing\<close>

record persisted_chunk =
  pc_seq :: nat
  pc_envelope :: envelope
  pc_terminal :: bool

definition i32_max :: nat where
  "i32_max = 2 ^ 31 - 1"

text \<open>\<open>INSERT INTO prompt_response_streams ... ON CONFLICT (request_id) DO UPDATE\<close>.\<close>

definition upsert_stream ::
  "prompt_request_id \<Rightarrow> (stream_row \<Rightarrow> stream_row) \<Rightarrow> stream_row \<Rightarrow> stream_row list \<Rightarrow> stream_row list" where
  "upsert_stream i f new rows =
     (if \<exists>s \<in> set rows. st_request_id s = i then update_where (\<lambda>s. st_request_id s = i) f rows
      else rows @ [new])"

definition next_chunk_seq :: "prompt_request_id \<Rightarrow> db \<Rightarrow> nat" where
  "next_chunk_seq i d = (case find (\<lambda>s. st_request_id s = i) (response_streams d) of
                           None \<Rightarrow> 0 | Some s \<Rightarrow> st_next_seq s)"

text \<open>\<open>PUBLISH_CTE_SQL\<close>: the request row, the upsert of the stream row, the chunk row.\<close>

definition publish_in_tx ::
  "scope \<Rightarrow> prompt_request_id \<Rightarrow> response_chunk \<Rightarrow> instant \<Rightarrow> db \<Rightarrow>
   (response_error, persisted_chunk) outcome \<times> db" where
  "publish_in_tx sc i chunk now d =
     (let terminal = chunk_is_terminal chunk; seq = next_chunk_seq i d in
      case find (\<lambda>r. pr_id r = i \<and> visible sc d (pr_org_id r)) (prompt_requests d) of
        None \<Rightarrow> (Err (RBackend ''publish: request has no prompt_requests row''), d)
      | Some req \<Rightarrow>
          if i64_max \<le> seq then (Err (RDb ''bigint out of range''), d)
          else
            let streams = upsert_stream i
              (\<lambda>s. s\<lparr>st_next_seq := st_next_seq s + 1, st_closed := st_closed s \<or> terminal\<rparr>)
              \<lparr>st_request_id = i, st_org_id = pr_org_id req, st_next_seq = 1, st_closed = terminal\<rparr>
              (response_streams d) in
            (Ok \<lparr>pc_seq = seq, pc_envelope = \<lparr>env_seq = seq, env_chunk = chunk\<rparr>, pc_terminal = terminal\<rparr>,
             d\<lparr>response_streams := streams,
               response_chunks := response_chunks d @
                 [\<lparr>ch_request_id = i, ch_org_id = pr_org_id req, ch_seq = seq, ch_payload = chunk,
                   ch_bytes = min (weight chunk) i32_max, ch_is_terminal = terminal,
                   ch_created_at = now\<rparr>]\<rparr>))"

definition fanout_after_commit ::
  "prompt_request_id \<Rightarrow> persisted_chunk \<Rightarrow> hub \<Rightarrow> (response_error, nat) outcome \<times> hub" where
  "fanout_after_commit i p h =
     (case publish_sender i (pc_terminal p) h of
        (Ok tx, h1) \<Rightarrow> (Ok (pc_seq p), h1\<lparr>hb_chans := (hb_chans h1)[tx := hb_chans h1 ! tx @ [pc_envelope p]]\<rparr>)
      | (Err e, h1) \<Rightarrow> (Err e, h1)
      | (Panic m, h1) \<Rightarrow> (Panic m, h1))"

definition publish_scoped ::
  "scope \<Rightarrow> prompt_request_id \<Rightarrow> response_chunk \<Rightarrow> instant \<Rightarrow> db \<times> hub \<Rightarrow>
   (response_error, nat) outcome \<times> db \<times> hub" where
  "publish_scoped sc i chunk now w =
     (case run_tx (publish_in_tx sc i chunk now) (fst w) of
        (Ok p, d) \<Rightarrow> (case fanout_after_commit i p (snd w) of (r, h) \<Rightarrow> (r, d, h))
      | (Err e, d) \<Rightarrow> (Err e, d, snd w)
      | (Panic m, d) \<Rightarrow> (Panic m, d, snd w))"

definition publish where
  "publish = publish_scoped Privileged"

definition publish_for_user where
  "publish_for_user u = publish_scoped (AsUser u)"

definition close_in_tx :: "scope \<Rightarrow> prompt_request_id \<Rightarrow> db \<Rightarrow> (response_error, unit) outcome \<times> db" where
  "close_in_tx sc i d =
     (case find (\<lambda>r. pr_id r = i \<and> visible sc d (pr_org_id r)) (prompt_requests d) of
        None \<Rightarrow> (Ok (), d)
      | Some req \<Rightarrow>
          (Ok (), d\<lparr>response_streams := upsert_stream i (\<lambda>s. s\<lparr>st_closed := True\<rparr>)
             \<lparr>st_request_id = i, st_org_id = pr_org_id req, st_next_seq = 0, st_closed = True\<rparr>
             (response_streams d)\<rparr>))"

definition close_scoped ::
  "scope \<Rightarrow> prompt_request_id \<Rightarrow> db \<times> hub \<Rightarrow> (response_error, unit) outcome \<times> db \<times> hub" where
  "close_scoped sc i w =
     (case run_tx (close_in_tx sc i) (fst w) of
        (Ok _, d) \<Rightarrow> (Ok (), d, mark_closed i (snd w))
      | (Err e, d) \<Rightarrow> (Err e, d, snd w)
      | (Panic m, d) \<Rightarrow> (Panic m, d, snd w))"

definition close where
  "close = close_scoped Privileged"

definition close_for_user where
  "close_for_user u = close_scoped (AsUser u)"

section \<open>Subscribing\<close>

definition after_seq :: "nat option \<Rightarrow> nat \<Rightarrow> bool" where
  "after_seq since s = (case since of None \<Rightarrow> True | Some t \<Rightarrow> t < s)"

definition row_envelope :: "chunk_row \<Rightarrow> envelope" where
  "row_envelope c = \<lparr>env_seq = ch_seq c, env_chunk = ch_payload c\<rparr>"

text \<open>The backlog and the highest sequence number seen, \<open>since\<close> included.\<close>

definition read_backlog :: "prompt_request_id \<Rightarrow> nat option \<Rightarrow> db \<Rightarrow> envelope list \<times> nat option" where
  "read_backlog i since d =
     (let rows = sort_key ch_seq (filter (\<lambda>c. ch_request_id c = i \<and> after_seq since (ch_seq c)) (response_chunks d)) in
      (map row_envelope rows,
       fold (\<lambda>c m. Some (case m of None \<Rightarrow> ch_seq c | Some s \<Rightarrow> max s (ch_seq c))) rows since))"

text \<open>One poll of \<open>BroadcastStream\<close>: a receiver more than the buffer behind is told it lagged
  and continues with the oldest item the buffer still has.\<close>

definition recv :: "envelope list \<Rightarrow> nat \<Rightarrow> (stream_event \<times> nat) option" where
  "recv sent pos =
     (if length sent \<le> pos then None
      else if MAX_CHUNK_BUFFER_PER_REQUEST < length sent - pos
           then Some (Stalled, length sent - MAX_CHUNK_BUFFER_PER_REQUEST)
      else Some (Chunk (sent ! pos), pos + 1))"

definition filter_live :: "nat option \<Rightarrow> stream_event \<Rightarrow> bool" where
  "filter_live threshold ev = (case ev of Stalled \<Rightarrow> True | Chunk e \<Rightarrow> after_seq threshold (env_seq e))"

section \<open>Interleavings\<close>

text \<open>
  Publishers, closers and subscribers share the log and the hub. A publish is two steps (commit,
  then fan-out), a close too, and a subscription attaches to the channel before it reads the
  backlog; anything may happen in between. It then polls its receiver at any moment: \<open>su_pos\<close> is where
  the receiver started, \<open>su_cur\<close> where it is, \<open>su_out\<close> what the stream has yielded. \<open>hw_rejected\<close> collects the chunks whose fan-out found
  the slot closed. \<open>other\<close> is any change elsewhere in the database.
\<close>

record subscriber =
  su_request :: prompt_request_id
  su_since :: "nat option"
  su_tx :: nat
  su_pos :: nat
  su_backlog :: "(envelope list \<times> nat option) option"
  su_cur :: nat
  su_out :: "stream_event list"

record hub_world =
  hw_db :: db
  hw_hub :: hub
  hw_inflight :: "(prompt_request_id \<times> persisted_chunk) list"
  hw_rejected :: "(prompt_request_id \<times> envelope) list"
  hw_subs :: "subscriber list"

definition read_step :: "db \<Rightarrow> subscriber \<Rightarrow> subscriber" where
  "read_step d s =
     (let b = read_backlog (su_request s) (su_since s) d in s\<lparr>su_backlog := Some b, su_out := map Chunk (fst b)\<rparr>)"

definition poll_step :: "envelope list \<Rightarrow> subscriber \<Rightarrow> subscriber" where
  "poll_step sent s =
     (case su_backlog s of
        None \<Rightarrow> s
      | Some (_, threshold) \<Rightarrow>
          (case recv sent (su_cur s) of
             None \<Rightarrow> s
           | Some (ev, cur) \<Rightarrow>
               s\<lparr>su_cur := cur, su_out := su_out s @ (if filter_live threshold ev then [ev] else [])\<rparr>))"

inductive hub_step :: "hub_world \<Rightarrow> hub_world \<Rightarrow> bool" where
  commit:
    "run_tx (publish_in_tx sc i chunk now) (hw_db w) = (Ok p, d) \<Longrightarrow>
     hub_step w (w\<lparr>hw_db := d, hw_inflight := hw_inflight w @ [(i, p)]\<rparr>)"
| fanout:
    "(i, p) \<in> set (hw_inflight w) \<Longrightarrow> fanout_after_commit i p (hw_hub w) = (r, h) \<Longrightarrow>
     hub_step w (w\<lparr>hw_hub := h, hw_inflight := remove1 (i, p) (hw_inflight w),
                  hw_rejected := (if is_Ok r then hw_rejected w else (i, pc_envelope p) # hw_rejected w)\<rparr>)"
| close_commit:
    "run_tx (close_in_tx sc i) (hw_db w) = (Ok (), d) \<Longrightarrow> hub_step w (w\<lparr>hw_db := d\<rparr>)"
| close_mark:
    "hub_step w (w\<lparr>hw_hub := mark_closed i (hw_hub w)\<rparr>)"
| attach:
    "subscribe_live i (hw_hub w) = ((tx, pos, was_closed), h) \<Longrightarrow>
     hub_step w (w\<lparr>hw_hub := h, hw_subs := hw_subs w @
       [\<lparr>su_request = i, su_since = since, su_tx = tx, su_pos = pos, su_backlog = None, su_cur = pos, su_out = []\<rparr>]\<rparr>)"
| read:
    "k < length (hw_subs w) \<Longrightarrow> su_backlog (hw_subs w ! k) = None \<Longrightarrow>
     hub_step w (w\<lparr>hw_subs := (hw_subs w)[k := read_step (hw_db w) (hw_subs w ! k)]\<rparr>)"
| poll:
    "k < length (hw_subs w) \<Longrightarrow>
     hub_step w (w\<lparr>hw_subs := (hw_subs w)[k := poll_step (hb_chans (hw_hub w) ! su_tx (hw_subs w ! k)) (hw_subs w ! k)]\<rparr>)"
| other:
    "response_chunks d = response_chunks (hw_db w) \<Longrightarrow> response_streams d = response_streams (hw_db w) \<Longrightarrow>
     hub_step w (w\<lparr>hw_db := d\<rparr>)"

inductive_cases hub_stepE: "hub_step w w'"

text \<open>The chunks of a request in the log, the chunks a subscriber's stream has yielded, and what it would
  have yielded with an unbounded buffer once everything sent is read: its backlog, then the live items
  after it.\<close>

definition delivered :: "subscriber \<Rightarrow> envelope list" where
  "delivered s = List.map_filter (\<lambda>ev. case ev of Chunk e \<Rightarrow> Some e | Stalled \<Rightarrow> None) (su_out s)"

definition log_of :: "prompt_request_id \<Rightarrow> db \<Rightarrow> envelope list" where
  "log_of i d = map row_envelope (filter (\<lambda>c. ch_request_id c = i) (response_chunks d))"

definition received :: "hub_world \<Rightarrow> subscriber \<Rightarrow> envelope list" where
  "received w s =
     (case su_backlog s of
        None \<Rightarrow> []
      | Some (backlog, threshold) \<Rightarrow>
          backlog @ filter (\<lambda>e. after_seq threshold (env_seq e)) (drop (su_pos s) (hb_chans (hw_hub w) ! su_tx s)))"

section \<open>The log\<close>

definition log_ok :: "db \<Rightarrow> bool" where
  "log_ok d \<longleftrightarrow> (\<forall>i. map env_seq (log_of i d) = [0..<next_chunk_seq i d])"

lemma log_ok_seq_lt: "log_ok d \<Longrightarrow> e \<in> set (log_of i d) \<Longrightarrow> env_seq e < next_chunk_seq i d"
proof -
  assume "log_ok d" "e \<in> set (log_of i d)"
  then have "env_seq e \<in> set [0..<next_chunk_seq i d]"
    unfolding log_ok_def by (metis image_eqI set_map)
  then show ?thesis by simp
qed

lemma log_ok_distinct: "log_ok d \<Longrightarrow> distinct (map env_seq (log_of i d))"
  by (simp add: log_ok_def)

lemma find_upsert_stream:
  assumes "\<And>s. st_request_id (f s) = st_request_id s" and "st_request_id new = i"
  shows "find (\<lambda>s. st_request_id s = j) (upsert_stream i f new rows) =
     (case find (\<lambda>s. st_request_id s = j) rows of
        None \<Rightarrow> if j = i then Some new else None
      | Some s \<Rightarrow> Some (if j = i then f s else s))"
proof -
  have "find (\<lambda>s. st_request_id s = j) (update_where (\<lambda>s. st_request_id s = i) f rows) =
      map_option (if j = i then f else id) (find (\<lambda>s. st_request_id s = j) rows)"
    by (induction rows) (auto simp: assms(1))
  moreover have "(\<exists>s \<in> set rows. st_request_id s = i) \<longleftrightarrow> find (\<lambda>s. st_request_id s = i) rows \<noteq> None"
    by (auto simp: find_None_iff)
  ultimately show ?thesis
    using assms(2) by (cases "j = i") (auto simp: upsert_stream_def option.case_eq_if split: option.split)
qed

lemma next_chunk_seq_publish:
  assumes "publish_in_tx sc i chunk now d = (Ok p, d')"
  shows "next_chunk_seq j d' = (if j = i then next_chunk_seq i d + 1 else next_chunk_seq j d)"
  using assms
  by (auto simp: publish_in_tx_def next_chunk_seq_def Let_def find_upsert_stream
           split: option.splits if_splits)

lemma publish_in_tx_log:
  assumes "publish_in_tx sc i chunk now d = (Ok p, d')"
  shows "log_of j d' = (if j = i then log_of i d @ [pc_envelope p] else log_of j d) \<and>
         env_seq (pc_envelope p) = next_chunk_seq i d"
  using assms
  by (auto simp: publish_in_tx_def log_of_def row_envelope_def Let_def split: option.splits if_splits)

lemma publish_in_tx_log_ok:
  assumes "publish_in_tx sc i chunk now d = (Ok p, d')" and "log_ok d"
  shows "log_ok d'"
  unfolding log_ok_def
proof
  fix j
  show "map env_seq (log_of j d') = [0..<next_chunk_seq j d']"
    using assms(2) publish_in_tx_log [OF assms(1), of j] next_chunk_seq_publish [OF assms(1), of j]
    by (simp add: log_ok_def)
qed

lemma next_chunk_seq_close:
  assumes "close_in_tx sc i d = (Ok (), d')"
  shows "next_chunk_seq j d' = next_chunk_seq j d"
  using assms
  by (auto simp: close_in_tx_def next_chunk_seq_def find_upsert_stream split: option.splits if_splits)

lemma close_in_tx_log:
  "close_in_tx sc i d = (Ok (), d') \<Longrightarrow> response_chunks d' = response_chunks d"
  by (auto simp: close_in_tx_def split: option.splits)

lemma same_log: "response_chunks d' = response_chunks d \<Longrightarrow> log_of j d' = log_of j d"
  by (simp add: log_of_def)

section \<open>Channels\<close>

text \<open>Every slot has a channel of its own in the store.\<close>

definition chan_ok :: "hub \<Rightarrow> bool" where
  "chan_ok h \<longleftrightarrow>
     (\<forall>i s. slot_of h i = Some s \<longrightarrow> sl_tx s < length (hb_chans h)) \<and>
     (\<forall>i j s t. slot_of h i = Some s \<and> slot_of h j = Some t \<and> sl_tx s = sl_tx t \<longrightarrow> i = j)"

text \<open>What every operation but the send does to the hub: old channels keep their items, new ones
  are empty, and a slot keeps its channel or gets a new one.\<close>

definition evolves :: "hub \<Rightarrow> hub \<Rightarrow> bool" where
  "evolves h h' \<longleftrightarrow>
     length (hb_chans h) \<le> length (hb_chans h') \<and>
     (\<forall>tx < length (hb_chans h). hb_chans h' ! tx = hb_chans h ! tx) \<and>
     (\<forall>tx. length (hb_chans h) \<le> tx \<and> tx < length (hb_chans h') \<longrightarrow> hb_chans h' ! tx = []) \<and>
     (\<forall>i s'. slot_of h' i = Some s' \<longrightarrow>
        (\<exists>s. slot_of h i = Some s \<and> sl_tx s = sl_tx s') \<or> length (hb_chans h) \<le> sl_tx s')"

lemma map_of_filter_neq: "map_of (filter (\<lambda>(j, _). j \<noteq> i) xs) k = (if k = i then None else map_of xs k)"
  by (induction xs) auto

lemma map_of_map_closed:
  "map_of (map (\<lambda>(j, s). (j, if j = i then f s else s)) xs) k =
     map_option (\<lambda>s. if k = i then f s else s) (map_of xs k)"
  by (induction xs) auto

lemma slot_of_evict: "slot_of (hub_evict_one h) i = Some s \<Longrightarrow> slot_of h i = Some s"
  by (auto simp: hub_evict_one_def slot_of_def Let_def map_of_filter_neq
           split: option.splits list.splits if_splits)

lemma chans_evict [simp]: "hb_chans (hub_evict_one h) = hb_chans h"
  by (simp add: hub_evict_one_def Let_def split: option.split list.split)

lemma slot_of_set_closed:
  "slot_of (set_closed i h) j = map_option (\<lambda>s. if j = i then s\<lparr>sl_closed := True\<rparr> else s) (slot_of h j)"
  by (simp add: slot_of_def set_closed_def map_of_map_closed)

lemma chans_set_closed [simp]: "hb_chans (set_closed i h) = hb_chans h"
  by (simp add: set_closed_def)

lemma evolves_refl [simp]: "evolves h h"
  by (auto simp: evolves_def)

lemma evolves_trans:
  assumes ab: "evolves a b" and bc: "evolves b c"
  shows "evolves a c"
  unfolding evolves_def
proof (intro conjI allI impI)
  show "length (hb_chans a) \<le> length (hb_chans c)" using ab bc by (auto simp: evolves_def)
next
  fix tx assume "tx < length (hb_chans a)"
  then show "hb_chans c ! tx = hb_chans a ! tx" using ab bc by (auto simp: evolves_def)
next
  fix tx assume "length (hb_chans a) \<le> tx \<and> tx < length (hb_chans c)"
  then show "hb_chans c ! tx = []"
    using ab bc by (cases "tx < length (hb_chans b)") (auto simp: evolves_def)
next
  fix i s assume "slot_of c i = Some s"
  then consider "length (hb_chans b) \<le> sl_tx s" | t where "slot_of b i = Some t" "sl_tx t = sl_tx s"
    using bc unfolding evolves_def by blast
  then show "(\<exists>r. slot_of a i = Some r \<and> sl_tx r = sl_tx s) \<or> length (hb_chans a) \<le> sl_tx s"
  proof cases
    case 1
    with ab show ?thesis by (auto simp: evolves_def)
  next
    case (2 t)
    with ab show ?thesis unfolding evolves_def by metis
  qed
qed

lemma slot_of_set_closedE:
  assumes "slot_of (set_closed i h) j = Some s"
  obtains t where "slot_of h j = Some t" "sl_tx t = sl_tx s"
  using assms by (auto simp: slot_of_set_closed)

lemma evolves_set_closed: "evolves h (set_closed i h)"
  unfolding evolves_def by (auto elim!: slot_of_set_closedE)

lemma chan_ok_set_closed: "chan_ok h \<Longrightarrow> chan_ok (set_closed i h)"
  unfolding chan_ok_def chans_set_closed by (metis slot_of_set_closedE)

text \<open>A slot of the touched hub is an old one or the new, empty one for \<open>i\<close>.\<close>

lemma slot_of_touch:
  "slot_of (touch_slot i h) j = Some s \<Longrightarrow>
     slot_of h j = Some s \<or> (j = i \<and> slot_of h i = None \<and> sl_tx s = length (hb_chans h))"
  using slot_of_evict [of h j s]
  by (auto simp: touch_slot_def Let_def slot_of_def map_add_Some_iff split: option.splits if_splits)

lemma slot_of_touch_same: "slot_of (touch_slot i h) i \<noteq> None"
  by (cases "slot_of h i") (auto simp: touch_slot_def Let_def slot_of_def)

lemma chans_touch:
  "hb_chans (touch_slot i h) = hb_chans h @ (if slot_of h i = None then [[]] else [])"
  by (simp add: touch_slot_def Let_def split: option.split)

lemma evolves_touch: "evolves h (touch_slot i h)"
  unfolding evolves_def chans_touch using slot_of_touch [of i h] by (fastforce simp: nth_append)

lemma chan_ok_touch:
  assumes "chan_ok h"
  shows "chan_ok (touch_slot i h)"
proof -
  have lt: "sl_tx s < length (hb_chans h)" if "slot_of h j = Some s" for j s
    using assms that by (auto simp: chan_ok_def)
  show ?thesis
    unfolding chan_ok_def chans_touch
    using slot_of_touch [of i h] lt assms
    by (auto simp: chan_ok_def less_Suc_eq) (metis less_irrefl)+
qed

lemma publish_sender_evolves:
  assumes "publish_sender i terminal h = (r, h')" and "chan_ok h"
  shows "evolves h h' \<and> chan_ok h' \<and> (\<forall>tx. r = Ok tx \<longrightarrow> (\<exists>s. slot_of h' i = Some s \<and> sl_tx s = tx))"
proof -
  obtain s where s: "slot_of (touch_slot i h) i = Some s" using slot_of_touch_same by blast
  show ?thesis
    using assms s evolves_touch [of h i] chan_ok_touch [OF assms(2), of i]
      evolves_set_closed [of "touch_slot i h" i] chan_ok_set_closed [of "touch_slot i h" i]
    by (auto simp: publish_sender_def Let_def slot_of_set_closed intro: evolves_trans split: if_splits)
qed

lemma mark_closed_evolves: "chan_ok h \<Longrightarrow> evolves h (mark_closed i h) \<and> chan_ok (mark_closed i h)"
  by (auto simp: mark_closed_def intro: evolves_trans evolves_touch evolves_set_closed chan_ok_set_closed chan_ok_touch)

lemma subscribe_live_evolves:
  assumes "subscribe_live i h = ((tx, pos, c), h')" and "chan_ok h"
  shows "evolves h h' \<and> chan_ok h' \<and> pos = length (hb_chans h' ! tx) \<and>
     (\<exists>s. slot_of h' i = Some s \<and> sl_tx s = tx)"
  using assms slot_of_touch_same [of i h] evolves_touch [of h i] chan_ok_touch [OF assms(2), of i]
  by (auto simp: subscribe_live_def Let_def)

section \<open>The invariant of the interleavings\<close>

type_synonym chunk_log = "prompt_request_id \<Rightarrow> envelope list"

type_synonym flight = "(prompt_request_id \<times> persisted_chunk) list"

definition flight_ok :: "chunk_log \<Rightarrow> flight \<Rightarrow> bool" where
  "flight_ok log fl \<longleftrightarrow> distinct (map (\<lambda>(i, p). (i, env_seq (pc_envelope p))) fl) \<and>
     (\<forall>(i, p) \<in> set fl. pc_envelope p \<in> set (log i))"

text \<open>A channel carries chunks of its request's log, each once, and none that is still in flight.\<close>

definition hub_inv :: "chunk_log \<Rightarrow> flight \<Rightarrow> hub \<Rightarrow> bool" where
  "hub_inv log fl h \<longleftrightarrow> chan_ok h \<and> (\<forall>ch \<in> set (hb_chans h). distinct (map env_seq ch)) \<and>
     (\<forall>i s. slot_of h i = Some s \<longrightarrow> set (hb_chans h ! sl_tx s) \<subseteq> set (log i) \<and>
        (\<forall>p. (i, p) \<in> set fl \<longrightarrow> env_seq (pc_envelope p) \<notin> env_seq ` set (hb_chans h ! sl_tx s)))"

definition covered :: "flight \<Rightarrow> (prompt_request_id \<times> envelope) list \<Rightarrow> hub \<Rightarrow> subscriber \<Rightarrow> envelope \<Rightarrow> bool" where
  "covered fl rej h s e \<longleftrightarrow> e \<in> set (drop (su_pos s) (hb_chans h ! su_tx s)) \<or>
     (\<exists>p. (su_request s, p) \<in> set fl \<and> pc_envelope p = e) \<or> (su_request s, e) \<in> set rej"

definition attached_ok :: "chunk_log \<Rightarrow> hub \<Rightarrow> subscriber \<Rightarrow> bool" where
  "attached_ok log h s \<longleftrightarrow> su_tx s < length (hb_chans h) \<and> su_pos s \<le> length (hb_chans h ! su_tx s) \<and>
     set (hb_chans h ! su_tx s) \<subseteq> set (log (su_request s)) \<and>
     (\<forall>i t. slot_of h i = Some t \<and> sl_tx t = su_tx s \<longrightarrow> i = su_request s)"

text \<open>A backlog holds chunks after \<open>since\<close>; the chunks of the log it lacks come later than all of
  it, and while the slot still has the subscriber's channel each of them is on the channel, in
  flight or rejected.\<close>

definition backlog_ok ::
  "chunk_log \<Rightarrow> flight \<Rightarrow> (prompt_request_id \<times> envelope) list \<Rightarrow> hub \<Rightarrow> subscriber \<Rightarrow> envelope list \<Rightarrow> nat option \<Rightarrow> bool" where
  "backlog_ok log fl rej h s b threshold \<longleftrightarrow>
     distinct (map env_seq b) \<and>
     (\<forall>e \<in> set b. e \<in> set (log (su_request s)) \<and> after_seq (su_since s) (env_seq e)) \<and>
     (\<forall>n. after_seq threshold n \<longleftrightarrow> after_seq (su_since s) n \<and> (\<forall>x \<in> set b. env_seq x < n)) \<and>
     (\<forall>e \<in> set (log (su_request s)). after_seq (su_since s) (env_seq e) \<longrightarrow> e \<notin> set b \<longrightarrow>
        (\<forall>x \<in> set b. env_seq x < env_seq e)) \<and>
     (\<forall>t. slot_of h (su_request s) = Some t \<longrightarrow> sl_tx t = su_tx s \<longrightarrow>
        (\<forall>e \<in> set (log (su_request s)). after_seq (su_since s) (env_seq e) \<longrightarrow> e \<notin> set b \<longrightarrow> covered fl rej h s e))"

definition sub_ok ::
  "chunk_log \<Rightarrow> flight \<Rightarrow> (prompt_request_id \<times> envelope) list \<Rightarrow> hub \<Rightarrow> subscriber \<Rightarrow> bool" where
  "sub_ok log fl rej h s \<longleftrightarrow> attached_ok log h s \<and>
     (\<forall>b threshold. su_backlog s = Some (b, threshold) \<longrightarrow> backlog_ok log fl rej h s b threshold)"

definition hub_world_ok :: "hub_world \<Rightarrow> bool" where
  "hub_world_ok w \<longleftrightarrow> log_ok (hw_db w) \<and> flight_ok (\<lambda>i. log_of i (hw_db w)) (hw_inflight w) \<and>
     hub_inv (\<lambda>i. log_of i (hw_db w)) (hw_inflight w) (hw_hub w) \<and>
     (\<forall>s \<in> set (hw_subs w).
        sub_ok (\<lambda>i. log_of i (hw_db w)) (hw_inflight w) (hw_rejected w) (hw_hub w) s)"

text \<open>Evolution of the hub without a send.\<close>

lemma evolves_chan:
  "evolves h h' \<Longrightarrow> tx < length (hb_chans h) \<Longrightarrow> hb_chans h' ! tx = hb_chans h ! tx"
  by (simp add: evolves_def)

lemma evolves_slotE:
  assumes "evolves h h'" and "chan_ok h'" and "slot_of h' i = Some s'"
  obtains (old) s where "slot_of h i = Some s" "sl_tx s = sl_tx s'"
    | (new) "length (hb_chans h) \<le> sl_tx s'" "hb_chans h' ! sl_tx s' = []"
  using assms unfolding evolves_def chan_ok_def by (metis not_less)

lemma hub_inv_evolves:
  assumes inv: "hub_inv log fl h" and ev: "evolves h h'" and ok: "chan_ok h'"
  shows "hub_inv log fl h'"
  unfolding hub_inv_def
proof (intro conjI ballI allI impI ok)
  fix ch assume "ch \<in> set (hb_chans h')"
  then obtain tx where tx: "tx < length (hb_chans h')" "ch = hb_chans h' ! tx" by (auto simp: in_set_conv_nth)
  then show "distinct (map env_seq ch)"
    using inv ev by (cases "tx < length (hb_chans h)") (auto simp: hub_inv_def evolves_def)
next
  fix i s' assume s': "slot_of h' i = Some s'"
  have "set (hb_chans h' ! sl_tx s') \<subseteq> set (log i) \<and>
      (\<forall>p. (i, p) \<in> set fl \<longrightarrow> env_seq (pc_envelope p) \<notin> env_seq ` set (hb_chans h' ! sl_tx s'))"
    using ev ok s'
  proof (cases rule: evolves_slotE)
    case (old s)
    moreover have "sl_tx s < length (hb_chans h)" using old(1) inv unfolding hub_inv_def chan_ok_def by blast
    ultimately show ?thesis using inv evolves_chan [OF ev, of "sl_tx s"] unfolding hub_inv_def by metis
  qed simp
  then show "set (hb_chans h' ! sl_tx s') \<subseteq> set (log i)"
    "\<And>p. (i, p) \<in> set fl \<Longrightarrow> env_seq (pc_envelope p) \<notin> env_seq ` set (hb_chans h' ! sl_tx s')" by auto
qed

lemma sub_ok_evolves:
  assumes sub: "sub_ok log fl rej h s" and ev: "evolves h h'" and ok: "chan_ok h'"
  shows "sub_ok log fl rej h' s"
proof -
  have tx: "su_tx s < length (hb_chans h)" using sub by (auto simp: sub_ok_def attached_ok_def)
  have slot: "\<exists>t. slot_of h i = Some t \<and> sl_tx t = su_tx s" if "slot_of h' i = Some t'" "sl_tx t' = su_tx s" for i t'
    using ev ok that(1) by (cases rule: evolves_slotE) (use that(2) tx in auto)
  have att: "attached_ok log h' s"
    using sub ev tx slot evolves_chan [OF ev tx] unfolding sub_ok_def attached_ok_def evolves_def by fastforce
  have cov: "covered fl rej h' s e = covered fl rej h s e" for e
    by (simp add: covered_def evolves_chan [OF ev tx])
  have "backlog_ok log fl rej h' s b threshold" if "backlog_ok log fl rej h s b threshold" for b threshold
    using that slot [of "su_request s"] unfolding backlog_ok_def cov by blast
  with att sub show ?thesis by (auto simp: sub_ok_def)
qed

text \<open>Landing a chunk: it leaves the flight and is on the channel, or is rejected.\<close>

lemma flight_ok_remove1: "flight_ok log fl \<Longrightarrow> flight_ok log (remove1 x fl)"
  unfolding flight_ok_def
  by (metis (no_types, lifting) distinct_map distinct_remove1 inj_on_subset notin_set_remove1 set_remove1_subset)

lemma flight_ok_removed:
  assumes "flight_ok log fl" and "(i, p) \<in> set fl" and "(i, q) \<in> set (remove1 (i, p) fl)"
  shows "env_seq (pc_envelope q) \<noteq> env_seq (pc_envelope p)"
proof -
  have d: "distinct fl" and inj: "inj_on (\<lambda>(i, p). (i, env_seq (pc_envelope p))) (set fl)"
    using assms(1) by (auto simp: flight_ok_def distinct_map)
  have "(i, q) \<in> set fl" "(i, q) \<noteq> (i, p)"
    using assms(3) d by (auto dest: notin_set_remove1)
  then show ?thesis using inj assms(2) by (auto dest!: inj_onD [where x = "(i, q)" and y = "(i, p)"])
qed

lemma hub_inv_flight: "hub_inv log fl h \<Longrightarrow> set fl' \<subseteq> set fl \<Longrightarrow> hub_inv log fl' h"
  unfolding hub_inv_def by blast

lemma sub_ok_rejected:
  assumes "sub_ok log fl rej h s" and "(i, p) \<in> set fl"
  shows "sub_ok log (remove1 (i, p) fl) ((i, pc_envelope p) # rej) h s"
proof -
  have "covered (remove1 (i, p) fl) ((i, pc_envelope p) # rej) h s e" if "covered fl rej h s e" for e
    using that unfolding covered_def by (metis in_set_remove1 list.set_intros prod.inject)
  then show ?thesis using assms(1) unfolding sub_ok_def backlog_ok_def by blast
qed

definition send :: "nat \<Rightarrow> envelope \<Rightarrow> hub \<Rightarrow> hub" where
  "send tx e h = h\<lparr>hb_chans := (hb_chans h)[tx := hb_chans h ! tx @ [e]]\<rparr>"

lemma send_sel [simp]:
  "slot_of (send tx e h) = slot_of h" "length (hb_chans (send tx e h)) = length (hb_chans h)"
  "tx < length (hb_chans h) \<Longrightarrow> hb_chans (send tx e h) ! k = (if k = tx then hb_chans h ! tx @ [e] else hb_chans h ! k)"
  by (auto simp: send_def slot_of_def fun_eq_iff)

lemma hub_inv_send:
  assumes inv: "hub_inv log fl h" and fl: "flight_ok log fl" and p: "(i, p) \<in> set fl"
    and s: "slot_of h i = Some s"
  shows "hub_inv log (remove1 (i, p) fl) (send (sl_tx s) (pc_envelope p) h)"
proof -
  let ?e = "pc_envelope p" and ?tx = "sl_tx s"
  have tx: "?tx < length (hb_chans h)" and ok: "chan_ok h"
    using inv s by (auto simp: hub_inv_def chan_ok_def)
  have fresh: "env_seq ?e \<notin> env_seq ` set (hb_chans h ! ?tx)" using inv s p by (auto simp: hub_inv_def)
  have dist: "distinct (map env_seq ch)" if "ch \<in> set (hb_chans (send ?tx ?e h))" for ch
  proof -
    obtain k where k: "k < length (hb_chans h)" "ch = hb_chans (send ?tx ?e h) ! k"
      using \<open>ch \<in> _\<close> by (auto simp: in_set_conv_nth)
    have "distinct (map env_seq (hb_chans h ! k))" using inv k(1) unfolding hub_inv_def by (metis nth_mem)
    then show ?thesis using k(2) tx fresh by (auto split: if_splits)
  qed
  have slot: "set (hb_chans (send ?tx ?e h) ! sl_tx t) \<subseteq> set (log j) \<and>
      (\<forall>q. (j, q) \<in> set (remove1 (i, p) fl) \<longrightarrow>
         env_seq (pc_envelope q) \<notin> env_seq ` set (hb_chans (send ?tx ?e h) ! sl_tx t))"
    if t: "slot_of h j = Some t" for j t
  proof (cases "j = i")
    case True
    then have [simp]: "t = s" using t s by simp
    have "?e \<in> set (log i)" using fl p by (auto simp: flight_ok_def)
    moreover have "env_seq (pc_envelope q) \<noteq> env_seq ?e" if "(i, q) \<in> set (remove1 (i, p) fl)" for q
      using flight_ok_removed [OF fl p that] .
    moreover have "set (hb_chans h ! ?tx) \<subseteq> set (log i)"
      "\<And>q. (i, q) \<in> set (remove1 (i, p) fl) \<Longrightarrow> env_seq (pc_envelope q) \<notin> env_seq ` set (hb_chans h ! ?tx)"
      using inv s notin_set_remove1 unfolding hub_inv_def by fast+
    ultimately show ?thesis using True tx by auto
  next
    case False
    then have "sl_tx t \<noteq> ?tx" using ok s t unfolding chan_ok_def by metis
    then have "hb_chans (send ?tx ?e h) ! sl_tx t = hb_chans h ! sl_tx t" using tx by simp
    moreover have "set (remove1 (i, p) fl) \<subseteq> set fl" by (rule set_remove1_subset)
    ultimately show ?thesis using inv t unfolding hub_inv_def by (metis subsetD)
  qed
  have "chan_ok (send ?tx ?e h)" using ok by (simp add: chan_ok_def)
  with dist slot show ?thesis unfolding hub_inv_def by simp
qed

lemma sub_ok_send:
  assumes sub: "sub_ok log fl rej h s" and fl: "flight_ok log fl" and p: "(i, p) \<in> set fl"
    and t: "slot_of h i = Some t" and tx: "sl_tx t < length (hb_chans h)"
  shows "sub_ok log (remove1 (i, p) fl) rej (send (sl_tx t) (pc_envelope p) h) s"
proof -
  let ?h = "send (sl_tx t) (pc_envelope p) h" and ?fl = "remove1 (i, p) fl"
  have mine: "i = su_request s" if "sl_tx t = su_tx s"
    using sub t that unfolding sub_ok_def attached_ok_def by blast
  have e: "pc_envelope p \<in> set (log i)" using fl p by (auto simp: flight_ok_def)
  have att: "attached_ok log ?h s"
    using sub mine e tx by (auto simp: sub_ok_def attached_ok_def)
  have cov: "covered ?fl rej ?h s x"
    if "covered fl rej h s x" and u: "slot_of h (su_request s) = Some u" "sl_tx u = su_tx s" for x u
  proof -
    have pos: "su_pos s \<le> length (hb_chans h ! su_tx s)" using sub by (simp add: sub_ok_def attached_ok_def)
    have "su_tx s = sl_tx t" if "i = su_request s" using that t u by simp
    then have "x \<in> set (drop (su_pos s) (hb_chans ?h ! su_tx s))" if "(i, p) = (su_request s, q)" "pc_envelope q = x" for q
      using that tx pos by auto
    moreover have "set (drop (su_pos s) (hb_chans h ! su_tx s)) \<subseteq> set (drop (su_pos s) (hb_chans ?h ! su_tx s))"
      using tx by auto
    ultimately show ?thesis
      using \<open>covered fl rej h s x\<close> unfolding covered_def by (metis in_set_remove1 subsetD)
  qed
  have "backlog_ok log ?fl rej ?h s b threshold" if "backlog_ok log fl rej h s b threshold" for b threshold
    using that cov unfolding backlog_ok_def send_sel by blast
  with att sub show ?thesis by (auto simp: sub_ok_def)
qed

text \<open>Committing a chunk: it is above everything in the log and takes off.\<close>

lemma flight_ok_commit:
  assumes "flight_ok log fl" and "\<forall>x \<in> set (log i). env_seq x < env_seq (pc_envelope p)"
  shows "flight_ok (log(i := log i @ [pc_envelope p])) (fl @ [(i, p)])"
  using assms unfolding flight_ok_def by fastforce

lemma hub_inv_commit:
  assumes inv: "hub_inv log fl h" and top: "\<forall>x \<in> set (log i). env_seq x < env_seq (pc_envelope p)"
  shows "hub_inv (log(i := log i @ [pc_envelope p])) (fl @ [(i, p)]) h"
proof -
  have "env_seq (pc_envelope p) \<notin> env_seq ` set (hb_chans h ! sl_tx s)" if "slot_of h i = Some s" for s
    using inv top that unfolding hub_inv_def by fastforce
  then show ?thesis using inv unfolding hub_inv_def by (fastforce simp: fun_upd_def)
qed

lemma backlog_ok_commit:
  assumes ok: "backlog_ok log fl rej h s b threshold"
    and top: "\<forall>x \<in> set (log i). env_seq x < env_seq (pc_envelope p)"
  shows "backlog_ok (log(i := log i @ [pc_envelope p])) (fl @ [(i, p)]) rej h s b threshold"
proof -
  let ?log = "log(i := log i @ [pc_envelope p])" and ?fl = "fl @ [(i, p)]"
  have split: "e \<in> set (log (su_request s)) \<or> (i = su_request s \<and> e = pc_envelope p)"
    if "e \<in> set (?log (su_request s))" for e
    using that by (auto split: if_splits)
  have new: "\<forall>x \<in> set b. env_seq x < env_seq (pc_envelope p)" if "i = su_request s"
    using ok top that unfolding backlog_ok_def by blast
  have cov: "covered ?fl rej h s e" if "covered fl rej h s e \<or> (i = su_request s \<and> e = pc_envelope p)" for e
    using that unfolding covered_def by auto
  have "\<forall>e \<in> set (?log (su_request s)). after_seq (su_since s) (env_seq e) \<longrightarrow> e \<notin> set b \<longrightarrow>
        (\<forall>x \<in> set b. env_seq x < env_seq e)"
    using ok split new unfolding backlog_ok_def by metis
  moreover have "\<forall>t. slot_of h (su_request s) = Some t \<longrightarrow> sl_tx t = su_tx s \<longrightarrow>
        (\<forall>e \<in> set (?log (su_request s)). after_seq (su_since s) (env_seq e) \<longrightarrow> e \<notin> set b \<longrightarrow> covered ?fl rej h s e)"
    using ok split cov unfolding backlog_ok_def by metis
  moreover have "\<forall>e \<in> set b. e \<in> set (?log (su_request s)) \<and> after_seq (su_since s) (env_seq e)"
    using ok unfolding backlog_ok_def by auto
  ultimately show ?thesis using ok unfolding backlog_ok_def by blast
qed

lemma sub_ok_commit:
  assumes "sub_ok log fl rej h s" and "\<forall>x \<in> set (log i). env_seq x < env_seq (pc_envelope p)"
  shows "sub_ok (log(i := log i @ [pc_envelope p])) (fl @ [(i, p)]) rej h s"
  using assms(1) backlog_ok_commit [where log = log and i = i and p = p, OF _ assms(2)]
  unfolding sub_ok_def attached_ok_def by (auto simp: fun_upd_def)

text \<open>A new subscriber, and its backlog.\<close>

lemma attached_new:
  assumes "hub_inv log fl h" and "slot_of h i = Some t"
  shows "attached_ok log h \<lparr>su_request = i, su_since = since, su_tx = sl_tx t,
           su_pos = length (hb_chans h ! sl_tx t), su_backlog = None, su_cur = cur, su_out = out\<rparr>"
  using assms unfolding hub_inv_def chan_ok_def attached_ok_def by auto

lemma after_seq_fold:
  "after_seq (fold (\<lambda>c m. Some (case m of None \<Rightarrow> ch_seq c | Some s \<Rightarrow> max s (ch_seq c))) rows since) n \<longleftrightarrow>
     after_seq since n \<and> (\<forall>c \<in> set rows. ch_seq c < n)"
  by (induction rows arbitrary: since) (auto simp: after_seq_def split: option.splits)

lemma read_backlog_set:
  "set (fst (read_backlog i since d)) = {e \<in> set (log_of i d). after_seq since (env_seq e)}"
  by (auto simp: read_backlog_def log_of_def row_envelope_def Let_def)

lemma read_backlog_threshold:
  "after_seq (snd (read_backlog i since d)) n \<longleftrightarrow>
     after_seq since n \<and> (\<forall>x \<in> set (fst (read_backlog i since d)). env_seq x < n)"
  by (simp add: read_backlog_def Let_def after_seq_fold row_envelope_def)

lemma read_backlog_distinct:
  assumes "log_ok d"
  shows "distinct (map env_seq (fst (read_backlog i since d)))"
proof -
  have "map env_seq (log_of i d) = map ch_seq (filter (\<lambda>c. ch_request_id c = i) (response_chunks d))"
    by (simp add: log_of_def row_envelope_def comp_def)
  then have "distinct (map ch_seq (filter (\<lambda>c. ch_request_id c = i) (response_chunks d)))"
    using log_ok_distinct [OF assms, of i] by simp
  then have "distinct (map ch_seq (filter (\<lambda>c. after_seq since (ch_seq c))
      (filter (\<lambda>c. ch_request_id c = i) (response_chunks d))))"
    by (rule distinct_map_filter)
  then have "distinct (map ch_seq (filter (\<lambda>c. ch_request_id c = i \<and> after_seq since (ch_seq c)) (response_chunks d)))"
    by (simp add: conj_commute)
  then have "distinct (map ch_seq (sort_key ch_seq
      (filter (\<lambda>c. ch_request_id c = i \<and> after_seq since (ch_seq c)) (response_chunks d))))"
    by (simp add: distinct_map)
  then show ?thesis by (simp add: read_backlog_def Let_def row_envelope_def comp_def)
qed

lemma sub_ok_read:
  assumes "sub_ok (\<lambda>i. log_of i d) fl rej h s" and "log_ok d"
  shows "sub_ok (\<lambda>i. log_of i d) fl rej h (read_step d s)"
proof -
  have "backlog_ok (\<lambda>i. log_of i d) fl rej h (read_step d s)
      (fst (read_backlog (su_request s) (su_since s) d)) (snd (read_backlog (su_request s) (su_since s) d))"
    unfolding backlog_ok_def
    by (auto simp: read_step_def Let_def read_backlog_set read_backlog_threshold read_backlog_distinct [OF assms(2)])
  with assms(1) show ?thesis
    unfolding sub_ok_def attached_ok_def by (auto simp: read_step_def Let_def)
qed

lemma poll_step_sel [simp]:
  "su_request (poll_step sent s) = su_request s" "su_since (poll_step sent s) = su_since s" "su_tx (poll_step sent s) = su_tx s"
  "su_pos (poll_step sent s) = su_pos s" "su_backlog (poll_step sent s) = su_backlog s"
  by (simp_all add: poll_step_def split: option.split)

lemma sub_ok_poll: "sub_ok log fl rej h s \<Longrightarrow> sub_ok log fl rej h (poll_step sent s)"
  by (simp add: sub_ok_def attached_ok_def backlog_ok_def covered_def)

section \<open>Every chunk exactly once\<close>

lemma log_above:
  assumes "log_ok d" and "publish_in_tx sc i chunk now d = (Ok p, d')"
  shows "\<forall>x \<in> set (log_of i d). env_seq x < env_seq (pc_envelope p)"
  using log_ok_seq_lt [OF assms(1)] publish_in_tx_log [OF assms(2)] by simp

lemma hub_world_ok_commit:
  assumes ok: "hub_world_ok w" and tx: "run_tx (publish_in_tx sc i chunk now) (hw_db w) = (Ok p, d)"
  shows "hub_world_ok (w\<lparr>hw_db := d, hw_inflight := hw_inflight w @ [(i, p)]\<rparr>)"
proof -
  let ?log = "\<lambda>i. log_of i (hw_db w)"
  have pub: "publish_in_tx sc i chunk now (hw_db w) = (Ok p, d)" using tx by simp
  have log: "(\<lambda>j. log_of j d) = ?log(i := ?log i @ [pc_envelope p])"
    using publish_in_tx_log [OF pub] by (auto simp: fun_eq_iff)
  have top: "\<forall>x \<in> set (?log i). env_seq x < env_seq (pc_envelope p)"
    using log_above [OF _ pub] ok by (simp add: hub_world_ok_def)
  show ?thesis
    using ok flight_ok_commit [where log = ?log, OF _ top] hub_inv_commit [where log = ?log, OF _ top]
      sub_ok_commit [where log = ?log, OF _ top] publish_in_tx_log_ok [OF pub]
    by (auto simp: hub_world_ok_def log)
qed

text \<open>Steps that leave the log as it is.\<close>

lemma hub_world_ok_same_log:
  assumes "hub_world_ok w" and "response_chunks d = response_chunks (hw_db w)"
    and "\<And>i. next_chunk_seq i d = next_chunk_seq i (hw_db w)"
  shows "hub_world_ok (w\<lparr>hw_db := d\<rparr>)"
proof -
  have "(\<lambda>i. log_of i d) = (\<lambda>i. log_of i (hw_db w))" using assms(2) by (simp add: log_of_def)
  moreover have "log_ok d" using assms by (simp add: hub_world_ok_def log_ok_def log_of_def)
  ultimately show ?thesis using assms(1) by (simp add: hub_world_ok_def)
qed

lemma hub_world_ok_evolves:
  assumes "hub_world_ok w" and "evolves (hw_hub w) h" and "chan_ok h"
  shows "hub_world_ok (w\<lparr>hw_hub := h\<rparr>)"
  using assms by (auto simp: hub_world_ok_def intro: hub_inv_evolves sub_ok_evolves)

lemma hub_world_chan_ok: "hub_world_ok w \<Longrightarrow> chan_ok (hw_hub w)"
  by (simp add: hub_world_ok_def hub_inv_def)

lemma hub_world_ok_fanout:
  assumes ok: "hub_world_ok w" and p: "(i, p) \<in> set (hw_inflight w)"
    and fan: "fanout_after_commit i p (hw_hub w) = (r, h)"
  shows "hub_world_ok (w\<lparr>hw_hub := h, hw_inflight := remove1 (i, p) (hw_inflight w),
           hw_rejected := (if is_Ok r then hw_rejected w else (i, pc_envelope p) # hw_rejected w)\<rparr>)"
proof -
  obtain q h1 where pub: "publish_sender i (pc_terminal p) (hw_hub w) = (q, h1)" by fastforce
  note ev = publish_sender_evolves [OF pub hub_world_chan_ok [OF ok]]
  have ok1: "hub_world_ok (w\<lparr>hw_hub := h1\<rparr>)" using hub_world_ok_evolves [OF ok] ev by blast
  let ?log = "\<lambda>i. log_of i (hw_db w)" and ?fl = "hw_inflight w"
  have fl: "flight_ok ?log ?fl" and inv: "hub_inv ?log ?fl h1"
    and sub: "\<And>s. s \<in> set (hw_subs w) \<Longrightarrow> sub_ok ?log ?fl (hw_rejected w) h1 s"
    using ok1 by (auto simp: hub_world_ok_def)
  show ?thesis
  proof (cases q)
    case (Ok tx)
    then obtain t where t: "slot_of h1 i = Some t" "sl_tx t = tx" using ev by auto
    have h: "h = send tx (pc_envelope p) h1" "is_Ok r"
      using fan pub Ok by (auto simp: fanout_after_commit_def send_def)
    have "sl_tx t < length (hb_chans h1)" using inv t(1) by (auto simp: hub_inv_def chan_ok_def)
    then show ?thesis
      using ok h t flight_ok_remove1 [OF fl] hub_inv_send [OF inv fl p t(1)] sub_ok_send [OF sub fl p t(1)]
      by (auto simp: hub_world_ok_def)
  next
    case (Err e)
    then show ?thesis
      using ok fan pub flight_ok_remove1 [OF fl] hub_inv_flight [OF inv set_remove1_subset] sub_ok_rejected [OF sub p]
      by (auto simp: hub_world_ok_def fanout_after_commit_def)
  next
    case (Panic m)
    then show ?thesis
      using ok fan pub flight_ok_remove1 [OF fl] hub_inv_flight [OF inv set_remove1_subset] sub_ok_rejected [OF sub p]
      by (auto simp: hub_world_ok_def fanout_after_commit_def)
  qed
qed

lemma hub_world_ok_attach:
  assumes ok: "hub_world_ok w" and live: "subscribe_live i (hw_hub w) = ((tx, pos, c), h)"
  shows "hub_world_ok (w\<lparr>hw_hub := h, hw_subs := hw_subs w @
     [\<lparr>su_request = i, su_since = since, su_tx = tx, su_pos = pos, su_backlog = None, su_cur = pos, su_out = []\<rparr>]\<rparr>)"
proof -
  note ev = subscribe_live_evolves [OF live hub_world_chan_ok [OF ok]]
  have ok1: "hub_world_ok (w\<lparr>hw_hub := h\<rparr>)" using hub_world_ok_evolves [OF ok] ev by blast
  obtain t where t: "slot_of h i = Some t" "sl_tx t = tx" "pos = length (hb_chans h ! sl_tx t)" using ev by auto
  have "hub_inv (\<lambda>i. log_of i (hw_db w)) (hw_inflight w) h" using ok1 by (simp add: hub_world_ok_def)
  from attached_new [OF this t(1), of since] ok1 t show ?thesis
    by (auto simp: hub_world_ok_def sub_ok_def)
qed

lemma hub_world_ok_step:
  assumes "hub_world_ok w" and "hub_step w w'"
  shows "hub_world_ok w'"
  using assms(2,1)
proof (cases rule: hub_step.cases)
  case (close_commit sc i d)
  then show ?thesis
    using hub_world_ok_same_log [OF assms(1)] close_in_tx_log next_chunk_seq_close by auto
next
  case (close_mark i)
  then show ?thesis
    using assms(1) mark_closed_evolves [OF hub_world_chan_ok, of w i] hub_world_ok_evolves by blast
next
  case (read k)
  have "sub_ok (\<lambda>i. log_of i (hw_db w)) (hw_inflight w) (hw_rejected w) (hw_hub w) (read_step (hw_db w) (hw_subs w ! k))"
    using assms(1) read(2) by (intro sub_ok_read) (auto simp: hub_world_ok_def)
  then show ?thesis
    using assms(1) read(1) by (auto simp: hub_world_ok_def dest!: subsetD [OF set_update_subset_insert])
next
  case (poll k)
  then show ?thesis
    using assms(1) sub_ok_poll by (auto simp: hub_world_ok_def dest!: subsetD [OF set_update_subset_insert])
next
  case (other d)
  then show ?thesis
    using hub_world_ok_same_log [OF assms(1)] by (auto simp: next_chunk_seq_def)
qed (use hub_world_ok_commit hub_world_ok_fanout hub_world_ok_attach in blast)+

text \<open>What a subscriber has been given: its backlog, then a part of what it has read of the channel, all
  of it unless the stream has said \<open>Stalled\<close>.\<close>

definition polled_ok :: "hub \<Rightarrow> subscriber \<Rightarrow> bool" where
  "polled_ok h s \<longleftrightarrow> su_tx s < length (hb_chans h) \<and> su_pos s \<le> su_cur s \<and> su_cur s \<le> length (hb_chans h ! su_tx s) \<and>
     (case su_backlog s of
        None \<Rightarrow> su_out s = [] \<and> su_cur s = su_pos s
      | Some (b, threshold) \<Rightarrow>
          (\<exists>ys. subseq ys (drop (su_pos s) (take (su_cur s) (hb_chans h ! su_tx s))) \<and>
             delivered s = b @ filter (\<lambda>e. after_seq threshold (env_seq e)) ys \<and>
             (Stalled \<notin> set (su_out s) \<longrightarrow> ys = drop (su_pos s) (take (su_cur s) (hb_chans h ! su_tx s)))))"

lemma polled_okI:
  assumes "su_tx s < length (hb_chans h)" and "su_pos s \<le> su_cur s" and "su_cur s \<le> length (hb_chans h ! su_tx s)"
    and "su_backlog s = Some (b, threshold)" and "subseq ys (drop (su_pos s) (take (su_cur s) (hb_chans h ! su_tx s)))"
    and "delivered s = b @ filter (\<lambda>e. after_seq threshold (env_seq e)) ys"
    and "Stalled \<notin> set (su_out s) \<longrightarrow> ys = drop (su_pos s) (take (su_cur s) (hb_chans h ! su_tx s))"
  shows "polled_ok h s"
  using assms unfolding polled_ok_def by auto

lemma polled_ok_grown:
  assumes "polled_ok h s" and "length (hb_chans h) \<le> length (hb_chans h')" and "hb_chans h' ! su_tx s = hb_chans h ! su_tx s @ ext"
  shows "polled_ok h' s"
  using assms by (auto simp: polled_ok_def split: option.splits)

lemma delivered_append: "delivered (s\<lparr>su_cur := c, su_out := su_out s @ out\<rparr>) = delivered s @ delivered (s\<lparr>su_out := out\<rparr>)"
  by (simp add: delivered_def List.map_filter_def)

lemma delivered_Chunks: "su_out s = map Chunk es \<Longrightarrow> delivered s = es"
  by (simp add: delivered_def List.map_filter_def comp_def)

lemma delivered_Stalled: "delivered (s\<lparr>su_out := [Stalled]\<rparr>) = []"
  by (simp add: delivered_def List.map_filter_def)

lemma delivered_Nil: "delivered (s\<lparr>su_out := []\<rparr>) = []"
  by (simp add: delivered_def List.map_filter_def)

lemma polled_ok_read:
  assumes "polled_ok h s" and "su_backlog s = None"
  shows "polled_ok h (read_step d s)"
proof -
  obtain b threshold where b: "read_backlog (su_request s) (su_since s) d = (b, threshold)" by fastforce
  then have r: "read_step d s = s\<lparr>su_backlog := Some (b, threshold), su_out := map Chunk b\<rparr>" by (simp add: read_step_def)
  then have "delivered (read_step d s) = b" by (simp add: delivered_Chunks)
  with assms r show ?thesis by (auto simp: polled_ok_def intro!: exI [of _ "[]"])
qed

lemma recv_cases:
  obtains (none) "recv sent pos = None"
    | (stall) cur where "recv sent pos = Some (Stalled, cur)" "pos \<le> cur" "cur \<le> length sent"
    | (item) "recv sent pos = Some (Chunk (sent ! pos), Suc pos)" "pos < length sent"
proof (cases "length sent \<le> pos")
  case True
  then show ?thesis by (intro none) (simp add: recv_def)
next
  case False
  show ?thesis
  proof (cases "MAX_CHUNK_BUFFER_PER_REQUEST < length sent - pos")
    case True
    with False show ?thesis by (intro stall [of "length sent - MAX_CHUNK_BUFFER_PER_REQUEST"]) (simp_all add: recv_def)
  qed (use False item in \<open>simp add: recv_def\<close>)
qed

lemma polled_ok_poll:
  assumes ok: "polled_ok h s"
  shows "polled_ok h (poll_step (hb_chans h ! su_tx s) s)"
proof (cases "su_backlog s")
  case None
  then show ?thesis using ok by (simp add: poll_step_def)
next
  case (Some bt)
  obtain b threshold where bt: "bt = (b, threshold)" by (cases bt)
  let ?ch = "hb_chans h ! su_tx s" and ?P = "\<lambda>e. after_seq threshold (env_seq e)"
  let ?read = "\<lambda>cur. drop (su_pos s) (take cur ?ch)"
  from ok Some bt obtain ys where tx: "su_tx s < length (hb_chans h)" and pos: "su_pos s \<le> su_cur s" "su_cur s \<le> length ?ch"
    and sub: "subseq ys (?read (su_cur s))" and del: "delivered s = b @ filter ?P ys"
    and all: "Stalled \<notin> set (su_out s) \<Longrightarrow> ys = ?read (su_cur s)"
    by (auto simp: polled_ok_def)
  show ?thesis
  proof (cases rule: recv_cases [of ?ch "su_cur s"])
    case none
    then show ?thesis using ok by (simp add: poll_step_def Some bt)
  next
    case (stall cur)
    have "subseq ys (?read cur)"
    proof -
      have "take cur ?ch = take (su_cur s) ?ch @ take (cur - su_cur s) (drop (su_cur s) ?ch)"
        using stall(2) by (metis le_add_diff_inverse take_add)
      then have "?read cur = ?read (su_cur s) @ drop (su_pos s - length (take (su_cur s) ?ch)) (take (cur - su_cur s) (drop (su_cur s) ?ch))"
        by simp
      then show ?thesis using list_emb_append_mono [OF sub, of "[]"] by simp
    qed
    then show ?thesis
      using tx pos stall del unfolding polled_ok_def poll_step_def Some bt
      by (auto simp: filter_live_def delivered_append delivered_Stalled Some bt)
  next
    case item
    let ?e = "?ch ! su_cur s"
    have read: "?read (Suc (su_cur s)) = ?read (su_cur s) @ [?e]"
      using pos(1) item(2) by (simp add: take_Suc_conv_app_nth)
    have step: "poll_step ?ch s = s\<lparr>su_cur := Suc (su_cur s), su_out := su_out s @ (if ?P ?e then [Chunk ?e] else [])\<rparr>"
      using item(1) by (simp add: poll_step_def Some bt filter_live_def)
    have "delivered (poll_step ?ch s) = b @ filter ?P (ys @ [?e])"
      unfolding step delivered_append using del delivered_Chunks [of "s\<lparr>su_out := [Chunk ?e]\<rparr>" "[?e]"] delivered_Nil [of s] by simp
    moreover have "subseq (ys @ [?e]) (?read (Suc (su_cur s)))" unfolding read using sub by (simp add: list_emb_append_mono)
    moreover have "Stalled \<notin> set (su_out (poll_step ?ch s)) \<longrightarrow> ys @ [?e] = ?read (Suc (su_cur s))"
      unfolding read step using all by auto
    moreover have "su_cur (poll_step ?ch s) = Suc (su_cur s)" by (simp add: step)
    ultimately show ?thesis using tx pos item(2) by (intro polled_okI [where ys = "ys @ [?e]"]) (simp_all add: Some bt)
  qed
qed

lemma chans_grow:
  assumes ok: "hub_world_ok w" and step: "hub_step w w'"
  shows "length (hb_chans (hw_hub w)) \<le> length (hb_chans (hw_hub w')) \<and>
     (\<forall>tx < length (hb_chans (hw_hub w)). \<exists>ext. hb_chans (hw_hub w') ! tx = hb_chans (hw_hub w) ! tx @ ext)"
proof -
  note chan = hub_world_chan_ok [OF ok]
  have grow: "length (hb_chans h) \<le> length (hb_chans h') \<and> (\<forall>tx < length (hb_chans h). \<exists>ext. hb_chans h' ! tx = hb_chans h ! tx @ ext)"
    if "evolves h h'" for h h' using that by (auto simp: evolves_def)
  from step show ?thesis
  proof cases
    case (fanout i p r h)
    obtain q h1 where pub: "publish_sender i (pc_terminal p) (hw_hub w) = (q, h1)" by fastforce
    note ev = publish_sender_evolves [OF pub chan]
    show ?thesis
    proof (cases q)
      case (Ok tx)
      with ev obtain t where "slot_of h1 i = Some t" "sl_tx t = tx" and "chan_ok h1" by auto
      then have "tx < length (hb_chans h1)" by (auto simp: chan_ok_def)
      moreover have "h = send tx (pc_envelope p) h1" using fanout pub Ok by (auto simp: fanout_after_commit_def send_def)
      ultimately show ?thesis using fanout(1) ev by (auto simp: evolves_def)
    qed (use fanout pub ev grow in \<open>auto simp: fanout_after_commit_def\<close>)
  next
    case (close_mark i)
    then show ?thesis using mark_closed_evolves [OF chan, of i] grow by simp
  next
    case (attach i tx pos c h since)
    then show ?thesis using subscribe_live_evolves [OF attach(2) chan] grow by simp
  qed simp_all
qed

definition hub_world_inv :: "hub_world \<Rightarrow> bool" where
  "hub_world_inv w \<longleftrightarrow> hub_world_ok w \<and> (\<forall>s \<in> set (hw_subs w). polled_ok (hw_hub w) s)"

lemma polled_step:
  assumes inv: "hub_world_inv w" and step: "hub_step w w'" and s: "s' \<in> set (hw_subs w')"
  shows "polled_ok (hw_hub w') s'"
proof -
  have ok: "hub_world_ok w" and polled: "\<And>s. s \<in> set (hw_subs w) \<Longrightarrow> polled_ok (hw_hub w) s"
    using inv by (auto simp: hub_world_inv_def)
  have old: "polled_ok (hw_hub w') s" if "s \<in> set (hw_subs w)" for s
  proof -
    have "su_tx s < length (hb_chans (hw_hub w))" using polled [OF that] by (simp add: polled_ok_def)
    with chans_grow [OF ok step] obtain ext where "hb_chans (hw_hub w') ! su_tx s = hb_chans (hw_hub w) ! su_tx s @ ext" by blast
    with chans_grow [OF ok step] show ?thesis using polled_ok_grown [OF polled [OF that]] by blast
  qed
  from step show ?thesis
  proof cases
    case (attach i tx pos c h since)
    from subscribe_live_evolves [OF attach(2) hub_world_chan_ok [OF ok]] obtain t where
      "slot_of h i = Some t" "sl_tx t = tx" "pos = length (hb_chans h ! tx)" "chan_ok h" by auto
    then have "tx < length (hb_chans h)" by (auto simp: chan_ok_def)
    with attach s old \<open>pos = _\<close> show ?thesis by (auto simp: polled_ok_def)
  next
    case (read k)
    then have "s' = read_step (hw_db w) (hw_subs w ! k) \<or> s' \<in> set (hw_subs w)"
      using s by (auto dest!: subsetD [OF set_update_subset_insert])
    with read old polled polled_ok_read show ?thesis by auto
  next
    case (poll k)
    then have "s' = poll_step (hb_chans (hw_hub w) ! su_tx (hw_subs w ! k)) (hw_subs w ! k) \<or> s' \<in> set (hw_subs w)"
      using s by (auto dest!: subsetD [OF set_update_subset_insert])
    with poll old polled polled_ok_poll show ?thesis by auto
  qed (use s old in auto)
qed

interpretation hub: preserving hub_step hub_world_inv
  by unfold_locales (auto simp: hub_world_inv_def intro: hub_world_ok_step polled_step [unfolded hub_world_inv_def])

definition hub_start :: "db \<Rightarrow> nat \<Rightarrow> hub_world" where
  "hub_start d cap = \<lparr>hw_db = d, hw_hub = \<lparr>hb_slots = [], hb_order = [], hb_chans = [], hb_slot_cap = cap\<rparr>,
     hw_inflight = [], hw_rejected = [], hw_subs = []\<rparr>"

lemma hub_start_ok: "log_ok d \<Longrightarrow> hub_world_inv (hub_start d cap)"
  by (simp add: hub_world_inv_def hub_world_ok_def hub_start_def flight_ok_def hub_inv_def chan_ok_def slot_of_def)

lemma received_distinct:
  assumes "sub_ok log fl rej (hw_hub w) s" and "hub_inv log fl (hw_hub w)"
  shows "distinct (map env_seq (received w s))"
proof (cases "su_backlog s")
  case (Some bt)
  obtain b threshold where bt: "bt = (b, threshold)" by (cases bt)
  let ?ch = "hb_chans (hw_hub w) ! su_tx s"
  have "distinct (map env_seq ?ch)"
    using assms by (auto simp: sub_ok_def attached_ok_def hub_inv_def)
  then have "distinct (map env_seq (drop (su_pos s) ?ch))"
    by (metis distinct_drop drop_map)
  then have "distinct (map env_seq (filter (\<lambda>e. after_seq threshold (env_seq e)) (drop (su_pos s) ?ch)))"
    by (rule distinct_map_filter)
  moreover have "distinct (map env_seq b)" "\<forall>n. after_seq threshold n \<longrightarrow> (\<forall>x \<in> set b. env_seq x < n)"
    using assms(1) Some bt by (auto simp: sub_ok_def backlog_ok_def)
  ultimately show ?thesis using Some bt by (fastforce simp: received_def)
qed (simp add: received_def)

lemma received_complete:
  assumes ok: "sub_ok log fl rej (hw_hub w) s" and read: "su_backlog s \<noteq> None"
    and slot: "slot_of (hw_hub w) (su_request s) = Some t" "sl_tx t = su_tx s"
    and landed: "\<forall>p. (su_request s, p) \<notin> set fl" "\<forall>e. (su_request s, e) \<notin> set rej"
  shows "set (received w s) = {e \<in> set (log (su_request s)). after_seq (su_since s) (env_seq e)}"
proof -
  obtain b threshold where b: "su_backlog s = Some (b, threshold)" using read by auto
  then have bo: "backlog_ok log fl rej (hw_hub w) s b threshold" and at: "attached_ok log (hw_hub w) s"
    using ok by (auto simp: sub_ok_def)
  let ?live = "drop (su_pos s) (hb_chans (hw_hub w) ! su_tx s)"
  have live: "set ?live \<subseteq> set (log (su_request s))"
    using at set_drop_subset unfolding attached_ok_def by fastforce
  have cov: "e \<in> set ?live" if "e \<in> set (log (su_request s))" "after_seq (su_since s) (env_seq e)" "e \<notin> set b" for e
    using bo that slot landed unfolding backlog_ok_def covered_def by blast
  have thr: "after_seq threshold (env_seq e)" if "e \<in> set (log (su_request s))" "after_seq (su_since s) (env_seq e)" "e \<notin> set b" for e
    using bo that unfolding backlog_ok_def by blast
  have thr': "after_seq (su_since s) n" if "after_seq threshold n" for n
    using bo that unfolding backlog_ok_def by blast
  have sub: "\<forall>e \<in> set b. e \<in> set (log (su_request s)) \<and> after_seq (su_since s) (env_seq e)"
    using bo unfolding backlog_ok_def by blast
  show ?thesis using live cov thr thr' sub by (auto simp: received_def b)
qed

lemma received_sound:
  assumes ok: "sub_ok log fl rej (hw_hub w) s"
  shows "set (received w s) \<subseteq> {e \<in> set (log (su_request s)). after_seq (su_since s) (env_seq e)}"
proof (cases "su_backlog s")
  case (Some bt)
  obtain b threshold where bt: "bt = (b, threshold)" by (cases bt)
  then have bo: "backlog_ok log fl rej (hw_hub w) s b threshold" and at: "attached_ok log (hw_hub w) s"
    using ok Some by (auto simp: sub_ok_def)
  have "set (drop (su_pos s) (hb_chans (hw_hub w) ! su_tx s)) \<subseteq> set (log (su_request s))"
    using at set_drop_subset unfolding attached_ok_def by fastforce
  with bo show ?thesis unfolding backlog_ok_def by (auto simp: received_def Some bt)
qed (simp add: received_def)

text \<open>What has been delivered is part of that, and all of it once the receiver is at the end and was
  never told it lagged.\<close>

lemma delivered_received:
  assumes "polled_ok (hw_hub w) s" and "su_backlog s \<noteq> None"
  shows "subseq (delivered s) (received w s)"
    and "Stalled \<notin> set (su_out s) \<Longrightarrow> su_cur s = length (hb_chans (hw_hub w) ! su_tx s) \<Longrightarrow> delivered s = received w s"
proof -
  let ?ch = "hb_chans (hw_hub w) ! su_tx s"
  obtain b threshold where b: "su_backlog s = Some (b, threshold)" using assms(2) by auto
  with assms(1) obtain ys where sub: "subseq ys (drop (su_pos s) (take (su_cur s) ?ch))"
    and del: "delivered s = b @ filter (\<lambda>e. after_seq threshold (env_seq e)) ys"
    and all: "Stalled \<notin> set (su_out s) \<Longrightarrow> ys = drop (su_pos s) (take (su_cur s) ?ch)"
    by (auto simp: polled_ok_def)
  have "drop (su_pos s) ?ch = drop (su_pos s) (take (su_cur s) ?ch) @ drop (su_pos s - length (take (su_cur s) ?ch)) (drop (su_cur s) ?ch)"
    by (metis append_take_drop_id drop_append)
  then have "subseq ys (drop (su_pos s) ?ch)" using list_emb_append_mono [OF sub, of "[]"] by simp
  then show "subseq (delivered s) (received w s)"
    unfolding del received_def b by (simp add: list_emb_append_mono subseq_filter)
  show "delivered s = received w s" if "Stalled \<notin> set (su_out s)" "su_cur s = length ?ch"
    unfolding del received_def b using all [OF that(1)] that(2) by simp
qed

text \<open>C4. No chunk twice, none made up, none lost silently while the slot lives. However publishes, closes, evictions,
  subscriptions and polls interleave, a subscriber's stream yields no sequence number twice and only chunks of the request's log
  after its \<open>Last-Event-ID\<close>. It has yielded all of those once it has read everything on its channel, provided that it was
  never told \<open>Stalled\<close> (it fell more than the buffer behind), that its slot has not been evicted, and that no publish of the
  request is between commit and fan-out or was refused because the slot was closed.\<close>

theorem subscriber_exactly_once:
  assumes "log_ok d" and "hub_step\<^sup>*\<^sup>* (hub_start d cap) w" and "s \<in> set (hw_subs w)" and "su_backlog s \<noteq> None"
  shows "distinct (map env_seq (delivered s)) \<and>
    set (delivered s) \<subseteq> {e \<in> set (log_of (su_request s) (hw_db w)). after_seq (su_since s) (env_seq e)} \<and>
    (su_cur s = length (hb_chans (hw_hub w) ! su_tx s) \<and> Stalled \<notin> set (su_out s) \<and>
       (\<exists>t. slot_of (hw_hub w) (su_request s) = Some t \<and> sl_tx t = su_tx s) \<and>
       (\<forall>p. (su_request s, p) \<notin> set (hw_inflight w)) \<and> (\<forall>e. (su_request s, e) \<notin> set (hw_rejected w)) \<longrightarrow>
       set (delivered s) = {e \<in> set (log_of (su_request s) (hw_db w)). after_seq (su_since s) (env_seq e)})"
proof -
  let ?log = "\<lambda>i. log_of i (hw_db w)"
  have inv: "hub_world_inv w" using hub.run_inv [OF assms(2) hub_start_ok [OF assms(1)]] .
  then have ok: "sub_ok ?log (hw_inflight w) (hw_rejected w) (hw_hub w) s" "hub_inv ?log (hw_inflight w) (hw_hub w)"
    and polled: "polled_ok (hw_hub w) s"
    using assms(3) by (auto simp: hub_world_inv_def hub_world_ok_def)
  note del = delivered_received [OF polled assms(4)]
  have "subseq (map env_seq (delivered s)) (map env_seq (received w s))" using del(1) by (rule subseq_map)
  with received_distinct [OF ok] have "distinct (map env_seq (delivered s))" by (auto simp: subseq_conv_nths intro: distinct_nthsI)
  moreover have "set (delivered s) \<subseteq> set (received w s)" using del(1) by (auto elim: list_emb_set)
  ultimately show ?thesis
    using received_sound [OF ok(1)] received_complete [OF ok(1) assms(4)] del(2) by auto
qed

section \<open>A run\<close>

text \<open>Executable steps: each performs the step when it is enabled.\<close>

definition do_commit :: "prompt_request_id \<Rightarrow> response_chunk \<Rightarrow> hub_world \<Rightarrow> hub_world" where
  "do_commit i c w =
     (case run_tx (publish_in_tx Privileged i c 0) (hw_db w) of
        (Ok p, d) \<Rightarrow> w\<lparr>hw_db := d, hw_inflight := hw_inflight w @ [(i, p)]\<rparr>
      | _ \<Rightarrow> w)"

definition do_fanout :: "hub_world \<Rightarrow> hub_world" where
  "do_fanout w =
     (case hw_inflight w of
        [] \<Rightarrow> w
      | (i, p) # fl \<Rightarrow>
          (case fanout_after_commit i p (hw_hub w) of (r, h) \<Rightarrow>
             w\<lparr>hw_hub := h, hw_inflight := fl,
               hw_rejected := (if is_Ok r then hw_rejected w else (i, pc_envelope p) # hw_rejected w)\<rparr>))"

definition do_attach :: "prompt_request_id \<Rightarrow> nat option \<Rightarrow> hub_world \<Rightarrow> hub_world" where
  "do_attach i since w =
     (case subscribe_live i (hw_hub w) of ((tx, pos, c), h) \<Rightarrow>
        w\<lparr>hw_hub := h, hw_subs := hw_subs w @
          [\<lparr>su_request = i, su_since = since, su_tx = tx, su_pos = pos, su_backlog = None, su_cur = pos, su_out = []\<rparr>]\<rparr>)"

definition do_read :: "nat \<Rightarrow> hub_world \<Rightarrow> hub_world" where
  "do_read k w =
     (if k < length (hw_subs w) \<and> su_backlog (hw_subs w ! k) = None
      then w\<lparr>hw_subs := (hw_subs w)[k := read_step (hw_db w) (hw_subs w ! k)]\<rparr> else w)"

definition do_poll :: "nat \<Rightarrow> hub_world \<Rightarrow> hub_world" where
  "do_poll k w =
     (if k < length (hw_subs w)
      then w\<lparr>hw_subs := (hw_subs w)[k := poll_step (hb_chans (hw_hub w) ! su_tx (hw_subs w ! k)) (hw_subs w ! k)]\<rparr> else w)"

lemma do_commit_step: "hub_step\<^sup>*\<^sup>* w (do_commit i c w)"
  by (auto simp: do_commit_def split: prod.split outcome.split intro!: r_into_rtranclp hub_step.commit)

lemma do_fanout_step: "hub_step\<^sup>*\<^sup>* w (do_fanout w)"
proof (cases "hw_inflight w")
  case (Cons x fl)
  obtain i p where x: "x = (i, p)" by (cases x)
  obtain r h where f: "fanout_after_commit i p (hw_hub w) = (r, h)" by fastforce
  have "(i, p) \<in> set (hw_inflight w)" using Cons x by simp
  from hub_step.fanout [OF this f] show ?thesis
    using Cons x f by (auto simp: do_fanout_def intro!: r_into_rtranclp)
qed (simp add: do_fanout_def)

lemma do_attach_step: "hub_step\<^sup>*\<^sup>* w (do_attach i since w)"
  by (auto simp: do_attach_def split: prod.split intro!: r_into_rtranclp hub_step.attach)

lemma do_read_step: "hub_step\<^sup>*\<^sup>* w (do_read k w)"
  by (auto simp: do_read_def intro!: r_into_rtranclp hub_step.read)

lemma do_poll_step: "hub_step\<^sup>*\<^sup>* w (do_poll k w)"
  by (auto simp: do_poll_def intro!: r_into_rtranclp hub_step.poll)

lemmas do_runs = rtranclp_trans [OF _ do_commit_step] rtranclp_trans [OF _ do_fanout_step]
  rtranclp_trans [OF _ do_attach_step] rtranclp_trans [OF _ do_read_step] rtranclp_trans [OF _ do_poll_step]

definition hub_db :: db where
  "hub_db = empty_db\<lparr>prompt_requests :=
     [request_row (new_prompt_request_normal (Some 20) Human 1 None ''hi'' ''k'' 3 7) 10 20 10 None 0]\<rparr>"

text \<open>A chunk is committed before the subscriber attaches, one between attaching and reading, and
  one after it; the first two reach it through the backlog and on the channel. Then it polls three times.\<close>

definition hub_race :: hub_world where
  "hub_race = do_poll 0 (do_poll 0 (do_poll 0 (do_fanout (do_fanout (do_fanout (do_commit 10 (CText ''c'') (do_read 0
     (do_commit 10 (CText ''b'') (do_attach 10 None (do_commit 10 (CText ''a'') (hub_start hub_db 8)))))))))))"

lemma hub_race_reachable: "hub_step\<^sup>*\<^sup>* (hub_start hub_db 8) hub_race"
  unfolding hub_race_def by (intro do_runs rtranclp.rtrancl_refl)

theorem subscriber_exactly_once_witness:
  "distinct (map env_seq (delivered (hd (hw_subs hub_race)))) \<and>
   set (delivered (hd (hw_subs hub_race))) = set (log_of 10 (hw_db hub_race)) \<and>
   length (log_of 10 (hw_db hub_race)) = 3"
proof -
  let ?s = "hd (hw_subs hub_race)"
  have ok: "log_ok hub_db"
    by (simp add: log_ok_def log_of_def next_chunk_seq_def hub_db_def empty_db_def)
  have mem: "?s \<in> set (hw_subs hub_race)" "su_backlog ?s \<noteq> None" by code_simp+
  note once = subscriber_exactly_once [OF ok hub_race_reachable mem]
  have req: "su_request ?s = 10" "su_since ?s = None" by code_simp+
  have st: "slot_of (hw_hub hub_race) 10 = Some (the (slot_of (hw_hub hub_race) 10))"
    "sl_tx (the (slot_of (hw_hub hub_race) 10)) = su_tx ?s"
    "hw_inflight hub_race = []" "hw_rejected hub_race = []"
    "su_cur ?s = length (hb_chans (hw_hub hub_race) ! su_tx ?s)" "Stalled \<notin> set (su_out ?s)" by code_simp+
  have "set (delivered ?s) = {e \<in> set (log_of 10 (hw_db hub_race)). after_seq None (env_seq e)}"
    using once st req by auto
  moreover have "length (log_of 10 (hw_db hub_race)) = 3" by code_simp
  ultimately show ?thesis using once by (simp add: after_seq_def)
qed

end
