(* ===== verification/Worker.thy ===== *)
theory Worker
  imports Agent_Turn Response_Hub Dag_Budget
begin

text \<open>
  The worker: \<open>src/runtime/worker.rs\<close>. A worker claims a session from the queue, runs the agent
  on the claimed prompts under a turn timeout, retries a turn that delivered nothing, publishes
  the outcome on the response streams, finalises the claimed rows and releases the lease.

  The world is the database, the response hub and the rest of the environment. The agent
  registry, the memory store, the clock and \<open>tokio::time::timeout\<close> are handles: a timed-out turn
  may leave any world behind. The heartbeat and the cancellation watcher run beside the turn;
  what they and other workers do happens inside the agent's run, whose effect on the world is
  arbitrary.
\<close>

record 'e wk =
  wk_db :: db
  wk_hub :: hub
  wk_env :: 'e

record 'e worker_ops =
  wo_now :: "'e wk \<Rightarrow> instant"
  wo_agents_get :: "agent_id \<Rightarrow> 'e wk \<Rightarrow> (string, 'e wk agent_ops) outcome \<times> 'e wk"
  wo_timeout :: "('e wk \<Rightarrow> (agent_error, agent_reply) outcome \<times> 'e wk) \<Rightarrow> 'e wk \<Rightarrow>
     (agent_error, agent_reply) outcome option \<times> 'e wk"
  wo_show_agent_error :: "agent_error \<Rightarrow> string"
  wo_show_session_error :: "session_error \<Rightarrow> string"
  wo_show_prompt_error :: "prompt_error \<Rightarrow> string"
  wo_read_contradiction :: "contradiction_event_id \<Rightarrow> 'e wk \<Rightarrow> (string, bool option) outcome \<times> 'e wk"
  wo_resolve_no_action :: "user_id \<Rightarrow> contradiction_event_id \<Rightarrow> string \<Rightarrow> 'e wk \<Rightarrow> (string, unit) outcome \<times> 'e wk"
  wo_checkpoint :: "agent_id \<Rightarrow> session_id \<Rightarrow> prompt_request_id \<Rightarrow> session_id \<Rightarrow> user_id \<Rightarrow> 'e wk \<Rightarrow>
     (string, unit) outcome \<times> 'e wk"

definition MAX_PINGPONG_RETRIES :: nat where
  "MAX_PINGPONG_RETRIES = 2"

definition PINGPONG_NUDGE :: string where
  "PINGPONG_NUDGE = ''you produced text without calling send_message; the message was not delivered. Call send_message to communicate.''"

definition CONTRADICTION_REASON_MAX_BYTES :: nat where
  "CONTRADICTION_REASON_MAX_BYTES = 1024"

section \<open>Effects on the world\<close>

definition on_db :: "(db \<Rightarrow> 'r \<times> db) \<Rightarrow> 'e wk \<Rightarrow> 'r \<times> 'e wk" where
  "on_db f w = (case f (wk_db w) of (r, d) \<Rightarrow> (r, w\<lparr>wk_db := d\<rparr>))"

definition on_stream :: "(db \<times> hub \<Rightarrow> 'r \<times> db \<times> hub) \<Rightarrow> 'e wk \<Rightarrow> 'r \<times> 'e wk" where
  "on_stream f w = (case f (wk_db w, wk_hub w) of (r, d, h) \<Rightarrow> (r, w\<lparr>wk_db := d, wk_hub := h\<rparr>))"

lemma on_db_sel: "on_db f w = (fst (f (wk_db w)), w\<lparr>wk_db := snd (f (wk_db w))\<rparr>)"
  by (simp add: on_db_def split: prod.split)

text \<open>\<open>if let Err(e) = ... { warn!(...) }\<close>: the result is logged and dropped.\<close>

definition ignore :: "'r \<times> 'w \<Rightarrow> 'w" where
  "ignore r = snd r"

section \<open>Publishing the outcome of a claim\<close>

fun publish_failure_ids :: "'e worker_ops \<Rightarrow> user_id \<Rightarrow> failure_reason \<Rightarrow> prompt_request_id list \<Rightarrow> 'e wk \<Rightarrow> 'e wk" where
  "publish_failure_ids ops u reason [] w = w"
| "publish_failure_ids ops u reason (i # ids) w =
     (let w1 = ignore (on_stream (publish_for_user u i (from_failure reason) (wo_now ops w)) w);
          w2 = ignore (on_stream (close_for_user u i) w1) in
      publish_failure_ids ops u reason ids w2)"

definition publish_failure :: "'e worker_ops \<Rightarrow> claim_receipt \<Rightarrow> failure_reason \<Rightarrow> 'e wk \<Rightarrow> 'e wk" where
  "publish_failure ops rc reason w = publish_failure_ids ops (cr_acting_user_id rc) reason (cr_ids rc) w"

text \<open>The \<open>Done\<close> chunk of each request; a failed publish skips the close.\<close>

fun emit_done_ids :: "'e worker_ops \<Rightarrow> user_id \<Rightarrow> prompt_request_id list \<Rightarrow> 'e wk \<Rightarrow> 'e wk" where
  "emit_done_ids ops u [] w = w"
| "emit_done_ids ops u (i # ids) w =
     (case on_stream (publish_for_user u i (CDone []) (wo_now ops w)) w of (r, w1) \<Rightarrow>
        emit_done_ids ops u ids (if is_Ok r then ignore (on_stream (close_for_user u i) w1) else w1))"

definition maybe_emit_quiescence :: "'e worker_ops \<Rightarrow> claim_receipt \<Rightarrow> 'e wk \<Rightarrow> 'e wk" where
  "maybe_emit_quiescence ops rc w =
     (case root_request_id (lt_session (cr_lease rc)) (wk_db w) of
        Ok root \<Rightarrow>
          (case quiescent root (wk_db w) of
             Ok True \<Rightarrow> emit_done_ids ops (cr_acting_user_id rc) (cr_ids rc) w
           | _ \<Rightarrow> w)
      | _ \<Rightarrow> w)"

definition worker_finalise :: "'e worker_ops \<Rightarrow> claim_receipt \<Rightarrow> failure_reason \<Rightarrow> 'e wk \<Rightarrow> 'e wk" where
  "worker_finalise ops rc reason w =
     maybe_emit_quiescence ops rc (ignore (on_db (mark_failed rc reason (wo_now ops w)) w))"

definition handle_success :: "'e worker_ops \<Rightarrow> claim_receipt \<Rightarrow> agent_reply \<Rightarrow> 'e wk \<Rightarrow> 'e wk" where
  "handle_success ops rc rep w =
     maybe_emit_quiescence ops rc (ignore (on_db (mark_done rc (wo_now ops w)) w))"

definition fail_claim :: "'e worker_ops \<Rightarrow> claim_receipt \<Rightarrow> failure_reason \<Rightarrow> 'e wk \<Rightarrow> 'e wk" where
  "fail_claim ops rc reason w = worker_finalise ops rc reason (publish_failure ops rc reason w)"

fun agent_failure :: "'e worker_ops \<Rightarrow> agent_error \<Rightarrow> failure_reason" where
  "agent_failure ops ACancelled = Cancelled"
| "agent_failure ops ProviderTimeout = Timeout"
| "agent_failure ops (AHookDenied d) = Hook d"
| "agent_failure ops e = Provider (wo_show_agent_error ops e)"

definition handle_agent_error :: "'e worker_ops \<Rightarrow> claim_receipt \<Rightarrow> agent_error \<Rightarrow> 'e wk \<Rightarrow> 'e wk" where
  "handle_agent_error ops rc err w = fail_claim ops rc (agent_failure ops err) w"

section \<open>The observer\<close>

fun fanout_ids :: "'e worker_ops \<Rightarrow> user_id \<Rightarrow> response_chunk \<Rightarrow> prompt_request_id list \<Rightarrow> 'e wk \<Rightarrow> 'e wk" where
  "fanout_ids ops u chunk [] w = w"
| "fanout_ids ops u chunk (i # ids) w =
     fanout_ids ops u chunk ids (ignore (on_stream (publish_for_user u i chunk (wo_now ops w)) w))"

definition fanout_chunk :: "'e worker_ops \<Rightarrow> claim_receipt \<Rightarrow> response_chunk \<Rightarrow> 'e wk \<Rightarrow> 'e wk" where
  "fanout_chunk ops rc chunk w = fanout_ids ops (cr_acting_user_id rc) chunk (cr_ids rc) w"

fun assistant_chunk :: "assistant_content \<Rightarrow> response_chunk" where
  "assistant_chunk (AText s) = CText s"
| "assistant_chunk (AReasoning s) = CReasoning s"
| "assistant_chunk (AToolCall c) = CToolCall c"

definition observed :: "'e worker_ops \<Rightarrow> claim_receipt \<Rightarrow> 'e wk agent_ops \<Rightarrow> 'e wk agent_ops" where
  "observed ops rc agent = agent
     \<lparr>ao_on_assistant := (\<lambda>c. fanout_chunk ops rc (assistant_chunk c)),
      ao_on_tool_result := (\<lambda>r. fanout_chunk ops rc (CToolResult r))\<rparr>"

definition unobserved :: "'e wk agent_ops \<Rightarrow> 'e wk agent_ops" where
  "unobserved agent = agent\<lparr>ao_on_assistant := (\<lambda>_ w. w), ao_on_tool_result := (\<lambda>_ w. w)\<rparr>"

section \<open>Normal turns\<close>

definition any_cancelled :: "prompt_request_id list \<Rightarrow> db \<Rightarrow> bool" where
  "any_cancelled ids d =
     (case statuses ids d of
        Ok views \<Rightarrow> list_ex (\<lambda>v. sv_cancellation_requested v \<or> is_terminal (sv_status v)) views
      | _ \<Rightarrow> False)"

definition run_one_attempt ::
  "'e worker_ops \<Rightarrow> 'e wk agent_ops \<Rightarrow> session_id \<Rightarrow> participant \<Rightarrow> string list \<Rightarrow> prompt_request_id \<Rightarrow> caller \<Rightarrow>
   bool \<Rightarrow> 'e wk \<Rightarrow> (agent_error, agent_reply) outcome option \<times> 'e wk" where
  "run_one_attempt ops agent sid viewer prompts req c prompts_consumed w =
     wo_timeout ops
       (if prompts_consumed then resume agent sid viewer req c PNormal
        else reply agent sid viewer prompts req c PNormal) w"

definition inject_pingpong_nudge ::
  "'e worker_ops \<Rightarrow> claimed_session \<Rightarrow> prompt_request_id \<Rightarrow> user_id \<Rightarrow> 'e wk \<Rightarrow> (prompt_error, unit) outcome \<times> 'e wk" where
  "inject_pingpong_nudge ops claim req u w =
     (case on_db (append_system_nudge_for_user u (cs_session claim) (Agent (cs_receiver_agent_id claim))
                    PINGPONG_NUDGE req (wo_now ops w)) w of
        (r, w') \<Rightarrow> (map_err (\<lambda>e. Backend (''nudge: '' @ wo_show_session_error ops e)) r, w'))"

definition claim_caller :: "claimed_session \<Rightarrow> caller" where
  "claim_caller claim = \<lparr>cal_user_id = cs_created_by_user_id claim, cal_org_id = cs_org_id claim\<rparr>"

text \<open>The \<open>loop\<close> with \<open>left\<close> retries to go; a panic of the agent unwinds the worker task.\<close>

fun pingpong_loop ::
  "'e worker_ops \<Rightarrow> 'e wk agent_ops \<Rightarrow> claimed_session \<Rightarrow> string list \<Rightarrow> prompt_request_id \<Rightarrow> claim_receipt \<Rightarrow>
   nat \<Rightarrow> bool \<Rightarrow> 'e wk \<Rightarrow> (unit, unit) outcome \<times> 'e wk" where
  "pingpong_loop ops agent claim prompts req rc left consumed w =
     (case run_one_attempt ops agent (cs_session claim) (Agent (cs_receiver_agent_id claim)) prompts req
             (claim_caller claim) consumed w of
        (None, w1) \<Rightarrow> (Ok (), fail_claim ops rc Timeout w1)
      | (Some (Panic m), w1) \<Rightarrow> (Panic m, w1)
      | (Some (Err e), w1) \<Rightarrow> (Ok (), handle_agent_error ops rc e w1)
      | (Some (Ok rep), w1) \<Rightarrow>
          if rep_send_message_calls rep = 0 then
            (case left of
               0 \<Rightarrow> (Ok (), fail_claim ops rc NoEgress w1)
             | Suc left' \<Rightarrow>
                 (case inject_pingpong_nudge ops claim req (cs_created_by_user_id claim) w1 of
                    (Ok _, w2) \<Rightarrow> pingpong_loop ops agent claim prompts req rc left' True w2
                  | (Err e, w2) \<Rightarrow>
                      (Ok (), fail_claim ops rc (Unrecoverable (''nudge append: '' @ wo_show_prompt_error ops e)) w2)
                  | (Panic m, w2) \<Rightarrow> (Panic m, w2)))
          else (Ok (), handle_success ops rc rep w1))"

declare pingpong_loop.simps [simp del]

definition run_with_pingpong_guard ::
  "'e worker_ops \<Rightarrow> 'e wk agent_ops \<Rightarrow> claimed_session \<Rightarrow> string list \<Rightarrow> claim_receipt \<Rightarrow> 'e wk \<Rightarrow> (unit, unit) outcome \<times> 'e wk" where
  "run_with_pingpong_guard ops agent claim prompts rc w =
     (case cs_prompts claim of
        [] \<Rightarrow> (Panic ''invariant: claim drains at least one prompt'', w)
      | p # _ \<Rightarrow> pingpong_loop ops agent claim prompts (cp_request_id p) rc MAX_PINGPONG_RETRIES False w)"

section \<open>Background turns\<close>

definition no_action_reason :: "string \<Rightarrow> string" where
  "no_action_reason final_text =
     (let raw = trim final_text;
          raw1 = (if raw = [] then ''no-action (empty reply)'' else raw) in
      if CONTRADICTION_REASON_MAX_BYTES < length raw1
      then truncate_to_char_boundary raw1 CONTRADICTION_REASON_MAX_BYTES else raw1)"

definition resolution_reason_try_from :: "string \<Rightarrow> (parse_error, string) outcome" where
  "resolution_reason_try_from v =
     (if length v = 0 then Err (Empty ''resolution_reason'')
      else if CONTRADICTION_REASON_MAX_BYTES < length v
           then Err (TooLong ''resolution_reason'' CONTRADICTION_REASON_MAX_BYTES (length v))
      else Ok v)"

definition close_no_action_if_unresolved ::
  "'e worker_ops \<Rightarrow> contradiction_event_id \<Rightarrow> string \<Rightarrow> user_id \<Rightarrow> 'e wk \<Rightarrow> (unit, unit) outcome \<times> 'e wk" where
  "close_no_action_if_unresolved ops target final_text u w =
     (case wo_read_contradiction ops target w of
        (Ok (Some False), w1) \<Rightarrow>
          (case resolution_reason_try_from (no_action_reason final_text) of
             Ok reason \<Rightarrow> (Ok (), ignore (wo_resolve_no_action ops u target reason w1))
           | _ \<Rightarrow> (Panic ''invariant: 1..=cap enforced by trim+sentinel+truncate'', w1))
      | (Panic m, w1) \<Rightarrow> (Panic m, w1)
      | (_, w1) \<Rightarrow> (Ok (), w1))"

definition post_turn_for_kind ::
  "'e worker_ops \<Rightarrow> claimed_session \<Rightarrow> agent_reply \<Rightarrow> 'e wk \<Rightarrow> (unit, unit) outcome \<times> 'e wk" where
  "post_turn_for_kind ops claim rep w =
     (case cs_kind_payload claim of
        PNormal \<Rightarrow> (Ok (), w)
      | PReflection sid up_to \<Rightarrow>
          (Ok (), ignore (wo_checkpoint ops (cs_receiver_agent_id claim) sid up_to (cs_session claim)
                            (cs_created_by_user_id claim) w))
      | PResolution target \<Rightarrow>
          close_no_action_if_unresolved ops target (rep_final_text rep) (cs_created_by_user_id claim) w)"

definition run_background_kind ::
  "'e worker_ops \<Rightarrow> 'e wk agent_ops \<Rightarrow> claimed_session \<Rightarrow> string list \<Rightarrow> claim_receipt \<Rightarrow> 'e wk \<Rightarrow> (unit, unit) outcome \<times> 'e wk" where
  "run_background_kind ops agent claim prompts rc w =
     (case cs_prompts claim of
        [] \<Rightarrow> (Panic ''invariant: claim drains at least one prompt'', w)
      | p # _ \<Rightarrow>
          (case wo_timeout ops (reply agent (cs_session claim) (Agent (cs_receiver_agent_id claim)) prompts
                  (cp_request_id p) (claim_caller claim) (cs_kind_payload claim)) w of
             (None, w1) \<Rightarrow> (Ok (), worker_finalise ops rc Timeout w1)
           | (Some (Panic m), w1) \<Rightarrow> (Panic m, w1)
           | (Some (Err e), w1) \<Rightarrow> (Ok (), worker_finalise ops rc (Provider (wo_show_agent_error ops e)) w1)
           | (Some (Ok rep), w1) \<Rightarrow>
               post_turn_for_kind ops claim rep (ignore (on_db (mark_done rc (wo_now ops w1)) w1))))"

section \<open>Handling a claim\<close>

definition release_lease :: "claim_receipt \<Rightarrow> 'e wk \<Rightarrow> 'e wk" where
  "release_lease rc w = ignore (on_db (release (cr_lease rc)) w)"

definition handle_claim :: "'e worker_ops \<Rightarrow> claimed_session \<Rightarrow> 'e wk \<Rightarrow> (unit, unit) outcome \<times> 'e wk" where
  "handle_claim ops claim w =
     (let prompts = map cp_content (cs_prompts claim); rc = receipt claim in
      if any_cancelled (cr_ids rc) (wk_db w) then (Ok (), release_lease rc (fail_claim ops rc Cancelled w))
      else case wo_agents_get ops (cs_receiver_agent_id claim) w of
        (Panic m, w1) \<Rightarrow> (Panic m, w1)
      | (Err e, w1) \<Rightarrow> (Ok (), release_lease rc (fail_claim ops rc (Unrecoverable (''agent resolve: '' @ e)) w1))
      | (Ok agent, w1) \<Rightarrow>
          (case (if payload_kind (cs_kind_payload claim) = Normal
                 then run_with_pingpong_guard ops (observed ops rc agent) claim prompts rc w1
                 else run_background_kind ops (unobserved agent) claim prompts rc w1) of
             (Ok _, w2) \<Rightarrow> (Ok (), release_lease rc w2)
           | (r, w2) \<Rightarrow> (r, w2)))"

text \<open>One round of \<open>Worker::run\<close>: a claim and its handling. \<open>None\<close> tells the loop to idle.\<close>

definition worker_round ::
  "'e worker_ops \<Rightarrow> worker_id \<Rightarrow> 'e wk \<Rightarrow> (unit, unit option) outcome \<times> 'e wk" where
  "worker_round ops me w =
     (case on_db (claim_next_session queue_new me (wo_now ops w)) w of
        (Ok (Some claim), w1) \<Rightarrow>
          (case handle_claim ops claim w1 of
             (Ok _, w2) \<Rightarrow> (Ok (Some ()), w2) | (Err e, w2) \<Rightarrow> (Err e, w2) | (Panic m, w2) \<Rightarrow> (Panic m, w2))
      | (Ok None, w1) \<Rightarrow> (Ok None, w1)
      | (Err e, w1) \<Rightarrow> (Ok None, w1)
      | (Panic m, w1) \<Rightarrow> (Panic m, w1))"

section \<open>What publishing leaves alone\<close>

text \<open>Publishing and closing touch the response tables and the hub only.\<close>

definition same_queue :: "'e wk \<Rightarrow> 'e wk \<Rightarrow> bool" where
  "same_queue w w' \<longleftrightarrow> prompt_requests (wk_db w') = prompt_requests (wk_db w) \<and>
     session_leases (wk_db w') = session_leases (wk_db w) \<and> sessions (wk_db w') = sessions (wk_db w) \<and>
     org_members (wk_db w') = org_members (wk_db w) \<and> wk_env w' = wk_env w"

lemma same_queue_refl [simp]: "same_queue w w"
  by (simp add: same_queue_def)

lemma same_queue_trans [trans]: "same_queue a b \<Longrightarrow> same_queue b c \<Longrightarrow> same_queue a c"
  by (simp add: same_queue_def)

text \<open>The tables a publish or close does not write.\<close>

definition queue_tables where
  "queue_tables d = (prompt_requests d, session_leases d, sessions d, org_members d)"

lemma same_queue_iff:
  "same_queue w w' \<longleftrightarrow> queue_tables (wk_db w') = queue_tables (wk_db w) \<and> wk_env w' = wk_env w"
  by (auto simp: same_queue_def queue_tables_def)

lemma run_tx_snd: "snd (f d) = d' \<Longrightarrow> snd (run_tx f d) = d \<or> snd (run_tx f d) = d'"
  by (auto simp: run_tx_def split: prod.split outcome.split)

lemma publish_in_tx_tables: "queue_tables (snd (publish_in_tx sc i c now d)) = queue_tables d"
  by (simp add: publish_in_tx_def Let_def queue_tables_def split: option.split)

lemma close_in_tx_tables: "queue_tables (snd (close_in_tx sc i d)) = queue_tables d"
  by (simp add: close_in_tx_def queue_tables_def split: option.split)

lemma publish_same_queue: "same_queue w (snd (on_stream (publish_for_user u i c now) w))"
proof -
  have "queue_tables (fst (snd (publish_scoped sc i c now (d, h)))) = queue_tables d" for sc d h
  proof -
    obtain r d' where t: "run_tx (publish_in_tx sc i c now) d = (r, d')" by fastforce
    then have "queue_tables d' = queue_tables d"
      using run_tx_snd [OF refl, of "publish_in_tx sc i c now" d] publish_in_tx_tables [of sc i c now d]
      by auto
    then show ?thesis by (cases r) (auto simp: publish_scoped_def t split: prod.split)
  qed
  then show ?thesis
    by (auto simp: same_queue_iff on_stream_def publish_for_user_def split: prod.split) (metis fst_conv snd_conv)
qed

lemma close_same_queue: "same_queue w (snd (on_stream (close_for_user u i) w))"
proof -
  have "queue_tables (fst (snd (close_scoped sc i (d, h)))) = queue_tables d" for sc d h
  proof -
    obtain r d' where t: "run_tx (close_in_tx sc i) d = (r, d')" by fastforce
    then have "queue_tables d' = queue_tables d"
      using run_tx_snd [OF refl, of "close_in_tx sc i" d] close_in_tx_tables [of sc i d] by auto
    then show ?thesis by (cases r) (simp_all add: close_scoped_def t)
  qed
  then show ?thesis
    by (auto simp: same_queue_iff on_stream_def close_for_user_def split: prod.split) (metis fst_conv snd_conv)
qed

lemma publish_failure_same_queue: "same_queue w (publish_failure ops rc reason w)"
proof -
  have "same_queue w (publish_failure_ids ops u reason ids w)" for u ids
  proof (induction ids arbitrary: w)
    case (Cons i ids)
    then show ?case
      using same_queue_trans [OF same_queue_trans [OF publish_same_queue close_same_queue] Cons]
      by (simp add: ignore_def Let_def)
  qed simp
  then show ?thesis by (simp add: publish_failure_def)
qed

lemma emit_done_same_queue: "same_queue w (emit_done_ids ops u ids w)"
proof (induction ids arbitrary: w)
  case (Cons i ids)
  obtain r w1 where p: "on_stream (publish_for_user u i (CDone []) (wo_now ops w)) w = (r, w1)" by fastforce
  then have "same_queue w w1" using publish_same_queue [of w u i "CDone []" "wo_now ops w"] by simp
  moreover have "same_queue w1 (ignore (on_stream (close_for_user u i) w1))"
    by (simp add: ignore_def close_same_queue)
  ultimately show ?case using Cons p by (auto intro: same_queue_trans)
qed simp

lemma maybe_emit_same_queue: "same_queue w (maybe_emit_quiescence ops rc w)"
  by (auto simp: maybe_emit_quiescence_def emit_done_same_queue split: outcome.split bool.split)

section \<open>A handled claim is settled\<close>

text \<open>Every row of the claim has reached a terminal status.\<close>

definition settled :: "claim_receipt \<Rightarrow> db \<Rightarrow> bool" where
  "settled rc d \<longleftrightarrow> (\<forall>r \<in> set (prompt_requests d). finalisable rc r \<longrightarrow> is_terminal (pr_status r))"

lemma settled_cong: "same_queue w w' \<Longrightarrow> settled rc (wk_db w') = settled rc (wk_db w)"
  by (simp add: same_queue_def settled_def)

lemma holds_cong: "same_queue w w' \<Longrightarrow> holds (wk_db w') t = holds (wk_db w) t"
  by (simp add: same_queue_def holds_def)

lemma settled_publish [simp]:
  "settled rc (wk_db (maybe_emit_quiescence ops rc' w)) = settled rc (wk_db w)"
  "holds (wk_db (publish_failure ops rc' reason w)) t = holds (wk_db w) t"
  by (rule settled_cong [OF maybe_emit_same_queue], rule holds_cong [OF publish_failure_same_queue])

lemma finalise_settled:
  "holds d (cr_lease rc) \<Longrightarrow> settled rc (snd (finalise rc f now d))"
  by (auto simp: finalise_def holds_def settled_def finalise_row_def update_where_def finalisable_def)

lemma worker_finalise_settled:
  assumes "holds (wk_db w) (cr_lease rc)"
  shows "settled rc (wk_db (worker_finalise ops rc reason w))"
  using finalise_settled [OF assms, of "FFailed reason" "wo_now ops w"]
  by (simp add: worker_finalise_def ignore_def on_db_sel mark_failed_def)

lemma handle_success_settled:
  assumes "holds (wk_db w) (cr_lease rc)"
  shows "settled rc (wk_db (handle_success ops rc rep w))"
  using finalise_settled [OF assms, of FDone "wo_now ops w"]
  by (simp add: handle_success_def ignore_def on_db_sel mark_done_def)

lemma fail_claim_settled:
  assumes "holds (wk_db w) (cr_lease rc)"
  shows "settled rc (wk_db (fail_claim ops rc reason w))"
  unfolding fail_claim_def
  by (rule worker_finalise_settled) (use assms in simp)

lemma release_lease_settled:
  "settled rc (wk_db (release_lease rc w)) = settled rc (wk_db w)"
  "\<not> holds (wk_db (release_lease rc w)) (cr_lease rc)"
  by (auto simp: release_lease_def release_def on_db_def ignore_def settled_def holds_def)

text \<open>What the environment must not do while the claim is worked on: take the lease away during
  the agent's run, or touch the claimed rows in the memory bookkeeping after it.\<close>

definition undisturbed :: "'e worker_ops \<Rightarrow> claim_receipt \<Rightarrow> bool" where
  "undisturbed ops rc \<longleftrightarrow>
     (\<forall>f w. holds (wk_db w) (cr_lease rc) \<longrightarrow> holds (wk_db (snd (wo_timeout ops f w))) (cr_lease rc)) \<and>
     (\<forall>a w. holds (wk_db w) (cr_lease rc) \<longrightarrow> holds (wk_db (snd (wo_agents_get ops a w))) (cr_lease rc)) \<and>
     (\<forall>a s u s' v w. settled rc (wk_db w) \<longrightarrow> settled rc (wk_db (snd (wo_checkpoint ops a s u s' v w)))) \<and>
     (\<forall>e w. settled rc (wk_db w) \<longrightarrow> settled rc (wk_db (snd (wo_read_contradiction ops e w)))) \<and>
     (\<forall>u e r w. settled rc (wk_db w) \<longrightarrow> settled rc (wk_db (snd (wo_resolve_no_action ops u e r w))))"

lemma nudge_holds:
  assumes "inject_pingpong_nudge ops claim req u w = (r, w')"
  shows "holds (wk_db w') t = holds (wk_db w) t"
  using assms
  by (auto simp: inject_pingpong_nudge_def on_db_def append_system_nudge_for_user_def run_tx_def append_row_def
        holds_def Let_def split: prod.splits outcome.splits option.splits if_splits)

lemma pingpong_settled:
  assumes "undisturbed ops rc" and "holds (wk_db w) (cr_lease rc)"
    and "pingpong_loop ops agent claim prompts req rc left consumed w = (Ok (), w')"
  shows "settled rc (wk_db w')"
  using assms
proof (induction left arbitrary: consumed w)
  case (0 consumed w)
  obtain o1 w1 where run: "run_one_attempt ops agent (cs_session claim) (Agent (cs_receiver_agent_id claim))
      prompts req (claim_caller claim) consumed w = (o1, w1)" by fastforce
  have h: "holds (wk_db w1) (cr_lease rc)"
    using 0(1,2) run unfolding undisturbed_def run_one_attempt_def by (metis snd_conv)
  show ?case
    using 0(3) h fail_claim_settled [OF h] handle_success_settled [OF h]
    by (auto simp: pingpong_loop.simps [of ops agent claim prompts req rc 0 consumed w] run handle_agent_error_def
             split: option.splits outcome.splits if_splits)
next
  case (Suc left consumed w)
  obtain o1 w1 where run: "run_one_attempt ops agent (cs_session claim) (Agent (cs_receiver_agent_id claim))
      prompts req (claim_caller claim) consumed w = (o1, w1)" by fastforce
  have h: "holds (wk_db w1) (cr_lease rc)"
    using Suc.prems(1,2) run unfolding undisturbed_def run_one_attempt_def by (metis snd_conv)
  obtain r2 w2 where nudge: "inject_pingpong_nudge ops claim req (cs_created_by_user_id claim) w1 = (r2, w2)"
    by fastforce
  then have h2: "holds (wk_db w2) (cr_lease rc)" using h nudge_holds by metis
  show ?case
    using Suc.prems(3) fail_claim_settled [OF h] fail_claim_settled [OF h2] handle_success_settled [OF h]
      Suc.IH [OF Suc.prems(1) h2]
    by (auto simp: pingpong_loop.simps [of ops agent claim prompts req rc "Suc left" consumed w] run nudge
          handle_agent_error_def split: option.splits outcome.splits if_splits)
qed

lemma pingpong_no_error: "fst (pingpong_loop ops agent claim prompts req rc left consumed w) \<noteq> Err e"
proof (induction left arbitrary: consumed w)
  case 0
  show ?case
    by (subst pingpong_loop.simps) (simp split: prod.split option.split outcome.split)
next
  case (Suc left)
  then show ?case
    by (subst pingpong_loop.simps) (simp split: prod.split option.split outcome.split)
qed

lemma post_turn_settled:
  assumes "undisturbed ops rc" and "settled rc (wk_db w)" and "post_turn_for_kind ops claim rep w = (Ok (), w')"
  shows "settled rc (wk_db w')"
proof (cases "cs_kind_payload claim")
  case (PResolution target)
  obtain r1 w1 where rd: "wo_read_contradiction ops target w = (r1, w1)" by fastforce
  then have "settled rc (wk_db w1)" using assms(1,2) unfolding undisturbed_def by (metis snd_conv)
  then show ?thesis
    using assms(1,3) rd PResolution unfolding undisturbed_def
    by (auto simp: post_turn_for_kind_def close_no_action_if_unresolved_def ignore_def
             split: outcome.splits option.splits bool.splits)
qed (use assms in \<open>auto simp: post_turn_for_kind_def ignore_def undisturbed_def\<close>)

lemma background_settled:
  assumes "undisturbed ops rc" and "holds (wk_db w) (cr_lease rc)"
    and "run_background_kind ops agent claim prompts rc w = (Ok (), w')"
  shows "settled rc (wk_db w')"
proof (cases "cs_prompts claim")
  case (Cons p ps)
  obtain o1 w1 where run: "wo_timeout ops (reply agent (cs_session claim) (Agent (cs_receiver_agent_id claim)) prompts
      (cp_request_id p) (claim_caller claim) (cs_kind_payload claim)) w = (o1, w1)" by fastforce
  then have h: "holds (wk_db w1) (cr_lease rc)" using assms(1,2) unfolding undisturbed_def by (metis snd_conv)
  have d: "settled rc (wk_db (ignore (on_db (mark_done rc (wo_now ops w1)) w1)))"
    using finalise_settled [OF h, of FDone "wo_now ops w1"]
    by (simp add: ignore_def on_db_sel mark_done_def)
  show ?thesis
    using assms(3) run Cons worker_finalise_settled [OF h] post_turn_settled [OF assms(1) d]
    by (auto simp: run_background_kind_def split: option.splits outcome.splits)
qed (use assms(3) in \<open>simp add: run_background_kind_def\<close>)

lemma guard_settled:
  "undisturbed ops rc \<Longrightarrow> holds (wk_db w) (cr_lease rc) \<Longrightarrow>
   run_with_pingpong_guard ops agent claim prompts rc w = (Ok (), w') \<Longrightarrow> settled rc (wk_db w')"
  by (auto simp: run_with_pingpong_guard_def dest: pingpong_settled split: list.splits)

lemma guard_no_error: "fst (run_with_pingpong_guard ops agent claim prompts rc w) \<noteq> Err e"
  by (auto simp: run_with_pingpong_guard_def pingpong_no_error split: list.split)

lemma background_no_error: "fst (run_background_kind ops agent claim prompts rc w) \<noteq> Err e"
  by (auto simp: run_background_kind_def post_turn_for_kind_def close_no_action_if_unresolved_def
           split: list.split prod.split option.split outcome.split request_kind_payload.split bool.split)

text \<open>C5. A worker that finishes a claim settles it: whatever the agent answers, fails with or times
  out on, and for every kind of request, once the claim is handled each row it claimed is Done or
  Failed and the lease is released, provided nobody took the lease away meanwhile. The only other
  way out is a panic of the agent.\<close>
theorem worker_settles_claim:
  assumes "undisturbed ops (receipt claim)" and "holds (wk_db w) (cs_lease claim)"
  shows "case handle_claim ops claim w of
      (Ok _, w') \<Rightarrow> settled (receipt claim) (wk_db w') \<and> \<not> holds (wk_db w') (cs_lease claim)
    | (Err _, _) \<Rightarrow> False
    | (Panic _, _) \<Rightarrow> \<not> any_cancelled (cr_ids (receipt claim)) (wk_db w)"
proof -
  let ?rc = "receipt claim" and ?ps = "map cp_content (cs_prompts claim)"
  have l: "cr_lease ?rc = cs_lease claim" by (simp add: receipt_def)
  then have h: "holds (wk_db w) (cr_lease ?rc)" using assms(2) by simp
  have done_: "settled ?rc (wk_db v) \<Longrightarrow> settled ?rc (wk_db (release_lease ?rc v)) \<and>
      \<not> holds (wk_db (release_lease ?rc v)) (cs_lease claim)" for v
    using release_lease_settled [of ?rc v] l by simp
  show ?thesis
  proof (cases "any_cancelled (cr_ids ?rc) (wk_db w)")
    case True
    then show ?thesis using done_ [OF fail_claim_settled [OF h]] by (simp add: handle_claim_def Let_def)
  next
    case False
    obtain g w1 where get: "wo_agents_get ops (cs_receiver_agent_id claim) w = (g, w1)" by fastforce
    then have h1: "holds (wk_db w1) (cr_lease ?rc)" using assms(1) h unfolding undisturbed_def by (metis snd_conv)
    show ?thesis
    proof (cases g)
      case (Ok agent)
      let ?run = "if payload_kind (cs_kind_payload claim) = Normal
          then run_with_pingpong_guard ops (observed ops ?rc agent) claim ?ps ?rc w1
          else run_background_kind ops (unobserved agent) claim ?ps ?rc w1"
      obtain r w2 where run: "?run = (r, w2)" by fastforce
      have "\<forall>e. r \<noteq> Err e" using run guard_no_error [of ops] background_no_error [of ops]
        by (metis fst_conv)
      moreover have "settled ?rc (wk_db w2)" if "r = Ok ()"
        using run that guard_settled [OF assms(1) h1] background_settled [OF assms(1) h1] by metis
      ultimately show ?thesis
        using False get Ok run done_ [of w2] by (cases r) (simp_all add: handle_claim_def Let_def)
    next
      case (Err e)
      then show ?thesis
        using False get done_ [OF fail_claim_settled [OF h1]] by (simp add: handle_claim_def Let_def)
    qed (use False get in \<open>simp add: handle_claim_def Let_def\<close>)
  qed
qed

section \<open>The retry budget\<close>

text \<open>\<open>count\<close> is any counter in the environment that one agent run raises by at most one.\<close>

lemma nudge_env:
  "wk_env (snd (inject_pingpong_nudge ops claim req u w)) = wk_env w"
  by (simp add: inject_pingpong_nudge_def on_db_sel)

lemma fail_claim_env: "wk_env (fail_claim ops rc reason w) = wk_env w"
proof -
  have "wk_env (publish_failure ops rc reason w) = wk_env w" "\<And>v. wk_env (maybe_emit_quiescence ops rc v) = wk_env v"
    using publish_failure_same_queue maybe_emit_same_queue by (metis same_queue_def)+
  then show ?thesis by (simp add: fail_claim_def worker_finalise_def on_db_sel ignore_def)
qed

lemma handle_success_env: "wk_env (handle_success ops rc rep w) = wk_env w"
proof -
  have "\<And>v. wk_env (maybe_emit_quiescence ops rc v) = wk_env v"
    using maybe_emit_same_queue by (metis same_queue_def)
  then show ?thesis by (simp add: handle_success_def on_db_sel ignore_def)
qed

lemma pingpong_count:
  assumes "\<And>f w. count (wk_env (snd (wo_timeout ops f w))) \<le> count (wk_env w) + (1 :: nat)"
  shows "count (wk_env (snd (pingpong_loop ops agent claim prompts req rc left consumed w))) \<le> count (wk_env w) + left + 1"
proof (induction left arbitrary: consumed w)
  case (0 consumed w)
  obtain r w1 where run: "run_one_attempt ops agent (cs_session claim) (Agent (cs_receiver_agent_id claim))
      prompts req (claim_caller claim) consumed w = (r, w1)" by fastforce
  then have "count (wk_env w1) \<le> count (wk_env w) + 1"
    using assms unfolding run_one_attempt_def by (metis snd_conv)
  then show ?case
    by (subst pingpong_loop.simps)
       (simp add: run handle_agent_error_def fail_claim_env handle_success_env split: option.split outcome.split)
next
  case (Suc left consumed w)
  obtain r w1 where run: "run_one_attempt ops agent (cs_session claim) (Agent (cs_receiver_agent_id claim))
      prompts req (claim_caller claim) consumed w = (r, w1)" by fastforce
  obtain r2 w2 where nudge: "inject_pingpong_nudge ops claim req (cs_created_by_user_id claim) w1 = (r2, w2)"
    by fastforce
  have "count (wk_env w1) \<le> count (wk_env w) + 1" "wk_env w2 = wk_env w1"
    using run assms nudge nudge_env unfolding run_one_attempt_def by (metis snd_conv)+
  then show ?case
    using Suc.IH [of True w2]
    by (subst pingpong_loop.simps)
       (simp add: run nudge handle_agent_error_def fail_claim_env handle_success_env split: option.split outcome.split)
qed

text \<open>C18. The retry loop ends: however often the agent answers without calling \<open>send_message\<close>, a
  claim runs it at most \<open>MAX_PINGPONG_RETRIES\<close> + 1 times.\<close>
theorem pingpong_terminates:
  assumes "\<And>f w. count (wk_env (snd (wo_timeout ops f w))) \<le> count (wk_env w) + (1 :: nat)"
  shows "count (wk_env (snd (run_with_pingpong_guard ops agent claim prompts rc w))) \<le>
           count (wk_env w) + MAX_PINGPONG_RETRIES + 1"
  using pingpong_count [OF assms]
  by (auto simp: run_with_pingpong_guard_def split: list.split)

section \<open>A failed request that was the last of its DAG\<close>

lemma touch_present: "slot_of h i = Some t \<Longrightarrow> touch_slot i h = h"
  by (simp add: touch_slot_def)

lemma fanout_open:
  "slot_of h i = Some t \<Longrightarrow> \<not> sl_closed t \<Longrightarrow> pc_terminal p \<Longrightarrow>
   fanout_after_commit i p h = (Ok (pc_seq p), send (sl_tx t) (pc_envelope p) (set_closed i h))"
  by (simp add: fanout_after_commit_def publish_sender_def touch_present send_def)

lemma fanout_closed:
  "slot_of h i = Some t \<Longrightarrow> sl_closed t \<Longrightarrow> fanout_after_commit i p h = (Err (RBackend ''stream already closed''), h)"
  by (simp add: fanout_after_commit_def publish_sender_def touch_present)

text \<open>A publish always persists; whether it is fanned out depends on the slot.\<close>

lemma publish_persists:
  assumes "find (\<lambda>r. pr_id r = i \<and> visible (AsUser u) (wk_db w) (pr_org_id r)) (prompt_requests (wk_db w)) = Some req"
    and "next_chunk_seq i (wk_db w) < i64_max"
    and "on_stream (publish_for_user u i c now) w = (r, w')"
  shows "\<exists>p. log_of i (wk_db w') = log_of i (wk_db w) @ [\<lparr>env_seq = next_chunk_seq i (wk_db w), env_chunk = c\<rparr>] \<and>
     next_chunk_seq i (wk_db w') = next_chunk_seq i (wk_db w) + 1 \<and>
     pc_envelope p = \<lparr>env_seq = next_chunk_seq i (wk_db w), env_chunk = c\<rparr> \<and> pc_terminal p = chunk_is_terminal c \<and>
     fanout_after_commit i p (wk_hub w) = (r, wk_hub w')"
proof -
  obtain p d' where p: "publish_in_tx (AsUser u) i c now (wk_db w) = (Ok p, d')"
    "pc_envelope p = \<lparr>env_seq = next_chunk_seq i (wk_db w), env_chunk = c\<rparr>" "pc_terminal p = chunk_is_terminal c"
    using assms(1,2) by (simp add: publish_in_tx_def Let_def)
  have tx: "run_tx (publish_in_tx (AsUser u) i c now) (wk_db w) = (Ok p, d')" using p(1) by simp
  have "wk_db w' = d'" "fanout_after_commit i p (wk_hub w) = (r, wk_hub w')"
    using assms(3) unfolding on_stream_def publish_for_user_def publish_scoped_def fst_conv tx
    by (auto split: prod.splits)
  then show ?thesis
    using p publish_in_tx_log [OF p(1), of i] next_chunk_seq_publish [OF p(1), of i] by auto
qed

lemma close_keeps_log:
  assumes "on_stream (close_for_user u i) w = (r, w')" and "slot_of (wk_hub w) i = Some t"
  shows "log_of j (wk_db w') = log_of j (wk_db w) \<and> next_chunk_seq j (wk_db w') = next_chunk_seq j (wk_db w) \<and>
     wk_hub w' = set_closed i (wk_hub w)"
proof -
  obtain d' where c: "close_in_tx (AsUser u) i (wk_db w) = (Ok (), d')"
    by (cases "find (\<lambda>r. pr_id r = i \<and> visible (AsUser u) (wk_db w) (pr_org_id r)) (prompt_requests (wk_db w))")
       (simp_all add: close_in_tx_def)
  then have tx: "run_tx (close_in_tx (AsUser u) i) (wk_db w) = (Ok (), d')" by simp
  have "wk_db w' = d'" "wk_hub w' = mark_closed i (wk_hub w)"
    using assms(1) unfolding on_stream_def close_for_user_def close_scoped_def fst_conv tx by auto
  then show ?thesis
    using same_log [OF close_in_tx_log [OF c], of j] next_chunk_seq_close [OF c, of j] touch_present [OF assms(2)]
    by (simp add: mark_closed_def)
qed

text \<open>A request that fails as the last of its DAG gets two terminal chunks: the log ends with
  \<open>Error\<close> and then \<open>Done\<close>, because a publish is persisted before the closed flag is looked at.
  A live subscriber receives the \<open>Error\<close> only, a replay of the log both.\<close>
theorem failed_request_gets_done_too:
  assumes "cr_ids rc = [i]" and "holds (wk_db w) (cr_lease rc)"
    and "find (\<lambda>r. pr_id r = i \<and> visible (AsUser (cr_acting_user_id rc)) (wk_db w) (pr_org_id r))
           (prompt_requests (wk_db w)) = Some req"
    and "next_chunk_seq i (wk_db w) + 1 < i64_max"
    and "slot_of (wk_hub w) i = Some t" and "\<not> sl_closed t" and "sl_tx t < length (hb_chans (wk_hub w))"
    and "root_request_id (lt_session (cr_lease rc)) (wk_db w) = Ok root"
    and "\<forall>r \<in> set (prompt_requests (wk_db w)). pr_root_request_id r = root \<longrightarrow> is_terminal (pr_status r) \<or> finalisable rc r"
  shows "\<exists>n. let w' = fail_claim ops rc reason w in
     log_of i (wk_db w') = log_of i (wk_db w) @
       [\<lparr>env_seq = n, env_chunk = from_failure reason\<rparr>, \<lparr>env_seq = n + 1, env_chunk = CDone []\<rparr>] \<and>
     hb_chans (wk_hub w') ! sl_tx t = hb_chans (wk_hub w) ! sl_tx t @ [\<lparr>env_seq = n, env_chunk = from_failure reason\<rparr>]"
proof -
  let ?u = "cr_acting_user_id rc" and ?n = "next_chunk_seq i (wk_db w)"
  let ?e = "\<lparr>env_seq = ?n, env_chunk = from_failure reason\<rparr>"
  obtain r1 w1 where s1: "on_stream (publish_for_user ?u i (from_failure reason) (wo_now ops w)) w = (r1, w1)" by fastforce
  obtain r2 w2 where s2: "on_stream (close_for_user ?u i) w1 = (r2, w2)" by fastforce
  define w3 where "w3 = ignore (on_db (mark_failed rc reason (wo_now ops w2)) w2)"
  obtain r4 w4 where s4: "on_stream (publish_for_user ?u i (CDone []) (wo_now ops w3)) w3 = (r4, w4)" by fastforce
  have q1: "same_queue w w1" using publish_same_queue [of w ?u i "from_failure reason" "wo_now ops w"] s1 by simp
  have q2: "same_queue w w2" using same_queue_trans [OF q1] close_same_queue [of w1 ?u i] s2 by simp
  have tm: "chunk_is_terminal (from_failure reason)" by (simp add: from_failure_def)
  obtain p where p: "log_of i (wk_db w1) = log_of i (wk_db w) @ [?e]" "next_chunk_seq i (wk_db w1) = ?n + 1"
      "pc_envelope p = ?e" "pc_terminal p" "fanout_after_commit i p (wk_hub w) = (r1, wk_hub w1)"
    using publish_persists [OF assms(3) _ s1] assms(4) tm by auto
  have h1: "wk_hub w1 = send (sl_tx t) ?e (set_closed i (wk_hub w))"
    using p fanout_open [OF assms(5,6), of p] by simp
  have t1: "slot_of (wk_hub w1) i = Some (t\<lparr>sl_closed := True\<rparr>)"
    using assms(5) by (simp add: h1 slot_of_set_closed)
  note c2 = close_keeps_log [OF s2 t1]
  have t2: "slot_of (wk_hub w2) i = Some (t\<lparr>sl_closed := True\<rparr>)"
    using c2 t1 by (simp add: slot_of_set_closed)
  have w3: "log_of i (wk_db w3) = log_of i (wk_db w2)" "next_chunk_seq i (wk_db w3) = next_chunk_seq i (wk_db w2)"
    "wk_hub w3 = wk_hub w2" "session_of (wk_db w3) = session_of (wk_db w2)" "org_members (wk_db w3) = org_members (wk_db w2)"
    by (simp_all add: w3_def ignore_def on_db_sel mark_failed_def finalise_def log_of_def next_chunk_seq_def
          session_of_def fun_eq_iff)
  have rows3: "prompt_requests (wk_db w3) =
      update_where (finalisable rc) (finalise_row (FFailed reason) (wo_now ops w2)) (prompt_requests (wk_db w))"
    using assms(2) q2 by (auto simp: w3_def ignore_def on_db_sel mark_failed_def finalise_def holds_def same_queue_def)
  have quiet: "quiescent root (wk_db w3) = Ok True"
    using assms(9) by (auto simp: quiescent_def rows3 update_where_def finalise_row_def)
  have root: "root_request_id (lt_session (cr_lease rc)) (wk_db w3) = Ok root"
    using assms(8) w3 q2 by (simp add: root_request_id_def session_of_def same_queue_def)
  have "\<exists>req'. find (\<lambda>r. pr_id r = i \<and> visible (AsUser ?u) (wk_db w3) (pr_org_id r)) (prompt_requests (wk_db w3)) = Some req'"
  proof -
    let ?x = "if finalisable rc req then finalise_row (FFailed reason) (wo_now ops w2) req else req"
    have "req \<in> set (prompt_requests (wk_db w))" using find_SomeD [OF assms(3)] by simp
    then have "?x \<in> set (prompt_requests (wk_db w3))" unfolding rows3 update_where_def by auto
    moreover have "pr_id ?x = i \<and> visible (AsUser ?u) (wk_db w3) (pr_org_id ?x)"
      using find_SomeD [OF assms(3)] w3(5) q2 by (simp add: finalise_row_def same_queue_def)
    ultimately have "find (\<lambda>r. pr_id r = i \<and> visible (AsUser ?u) (wk_db w3) (pr_org_id r)) (prompt_requests (wk_db w3)) \<noteq> None"
      unfolding find_None_iff by blast
    then show ?thesis by blast
  qed
  then obtain req' where req': "find (\<lambda>r. pr_id r = i \<and> visible (AsUser ?u) (wk_db w3) (pr_org_id r)) (prompt_requests (wk_db w3)) = Some req'" ..
  have n3: "next_chunk_seq i (wk_db w3) = ?n + 1" using w3 c2 p by simp
  obtain p4 where p4: "log_of i (wk_db w4) = log_of i (wk_db w3) @ [\<lparr>env_seq = ?n + 1, env_chunk = CDone []\<rparr>]"
      "fanout_after_commit i p4 (wk_hub w3) = (r4, wk_hub w4)"
    using publish_persists [OF req' _ s4] assms(4) n3 by auto
  have h4: "r4 = Err (RBackend ''stream already closed'')" "wk_hub w4 = wk_hub w3"
    using p4(2) fanout_closed [of "wk_hub w3" i "t\<lparr>sl_closed := True\<rparr>" p4] t2 w3 by auto
  have "fail_claim ops rc reason w = w4"
    using assms(1) s1 s2 s4 quiet root h4(1)
    by (simp add: fail_claim_def publish_failure_def worker_finalise_def maybe_emit_quiescence_def ignore_def
          flip: w3_def [unfolded ignore_def])
  then show ?thesis
    using p4 h4 w3 c2 p h1 assms(7) by (intro exI [of _ ?n]) simp
qed

end
