(* ===== verification/Worker_Examples.thy ===== *)
theory Worker_Examples
  imports Worker
begin

text \<open>
  A worker on a concrete world: the session store on the world's database, a provider that plays
  a script, one claimed request. The runs are the witnesses of the properties of \<open>Worker\<close>.
\<close>

section \<open>The application's wiring\<close>

definition wk_sessions :: "('e wk \<Rightarrow> instant) \<Rightarrow> 'e wk agent_ops \<Rightarrow> 'e wk agent_ops" where
  "wk_sessions now ops = ops
     \<lparr>ao_append_for_user := (\<lambda>u s sender receiver m req w.
        on_db (append_for_user u s sender receiver m req (now w)) w),
      ao_snapshot := (\<lambda>s v w. (snapshot s v (wk_db w), w)),
      ao_parent_history := (\<lambda>s v w. (parent_history_for_viewer s v (wk_db w), w)),
      ao_participants := (\<lambda>s w. (participants s (wk_db w), w)),
      ao_root_request_id := (\<lambda>s w. (root_request_id s (wk_db w), w))\<rparr>"

record play =
  pl_script :: "assistant_content list list"
  pl_runs :: nat

definition bare_player :: "play wk agent_ops" where
  "bare_player =
     \<lparr>ao_cancelled = (\<lambda>_. False),
      ao_send = (\<lambda>rq w. case pl_script (wk_env w) of
                          [] \<Rightarrow> (SendTimeout, w)
                        | c # cs \<Rightarrow> (SendOk c, w\<lparr>wk_env := (wk_env w)\<lparr>pl_script := cs\<rparr>\<rparr>)),
      ao_before_turn = (\<lambda>_ _ w. (Ok (), w)),
      ao_after_turn = (\<lambda>_ _ _ w. (Ok (), w)),
      ao_before_tool = (\<lambda>_ _ _ w. (Ok (), w)),
      ao_after_tool = (\<lambda>_ _ _ _ w. (Ok (), w)),
      ao_on_assistant = (\<lambda>_ w. w),
      ao_on_tool_result = (\<lambda>_ w. w),
      ao_append_for_user = (\<lambda>_ _ _ _ _ _ w. (Ok (), w)),
      ao_snapshot = (\<lambda>_ _ w. (Ok [User []], w)),
      ao_parent_history = (\<lambda>_ _ w. (Ok [], w)),
      ao_participants = (\<lambda>_ w. (Ok (Agent 1, Human), w)),
      ao_root_request_id = (\<lambda>_ w. (Ok 0, w)),
      ao_system_prompt = (\<lambda>_ _ _ w. (Ok ''be brief'', w)),
      ao_tool = (\<lambda>_ _. Some True),
      ao_specs = (\<lambda>_. []),
      ao_execute = (\<lambda>_ i _ w. (ExecOk i, w)),
      ao_server_id = (\<lambda>_. None),
      ao_record = (\<lambda>_ w. w),
      ao_not_participant = (\<lambda>_ _. ''not a participant''),
      ao_model = ''m'',
      ao_max_output_tokens = 4096,
      ao_max_turns = 12\<rparr>"

definition player :: "play wk agent_ops" where
  "player = wk_sessions (\<lambda>_. 5) bare_player"

text \<open>A run that loses the lease counts as timed out; every run is counted.\<close>

definition bounded_run ::
  "(play wk \<Rightarrow> (agent_error, agent_reply) outcome \<times> play wk) \<Rightarrow> play wk \<Rightarrow>
   (agent_error, agent_reply) outcome option \<times> play wk" where
  "bounded_run f w =
     (let n = pl_runs (wk_env w) + 1; tick = (\<lambda>v. v\<lparr>wk_env := (wk_env v)\<lparr>pl_runs := n\<rparr>\<rparr>) in
      case f w of (r, w') \<Rightarrow>
        if session_leases (wk_db w') = session_leases (wk_db w) then (Some r, tick w') else (None, tick w))"

definition play_ops :: "play worker_ops" where
  "play_ops =
     \<lparr>wo_now = (\<lambda>_. 5),
      wo_agents_get = (\<lambda>a w. (if a = 1 then Ok player else Err ''unknown agent'', w)),
      wo_timeout = bounded_run,
      wo_show_agent_error = (\<lambda>_. ''agent error''),
      wo_show_session_error = (\<lambda>_. ''session error''),
      wo_show_prompt_error = (\<lambda>_. ''prompt error''),
      wo_read_contradiction = (\<lambda>_ w. (Ok None, w)),
      wo_resolve_no_action = (\<lambda>_ _ _ w. (Ok (), w)),
      wo_checkpoint = (\<lambda>_ _ _ _ _ w. (Ok (), w))\<rparr>"

lemma bounded_run_leases: "session_leases (wk_db (snd (bounded_run f w))) = session_leases (wk_db w)"
  by (simp add: bounded_run_def Let_def split: prod.split)

lemma bounded_run_count: "pl_runs (wk_env (snd (bounded_run f w))) = pl_runs (wk_env w) + 1"
  by (simp add: bounded_run_def Let_def split: prod.split)

lemma play_undisturbed: "undisturbed play_ops rc"
  by (simp add: undisturbed_def play_ops_def holds_def bounded_run_leases)

section \<open>A claim\<close>

definition play_claimed :: "(prompt_error, claimed_session option) outcome \<times> db" where
  "play_claimed = claim_next_session queue_new 9 1 talk_start"

definition play_claim :: claimed_session where
  "play_claim = (case fst play_claimed of Ok (Some c) \<Rightarrow> c | _ \<Rightarrow> undefined)"

definition play_world :: "assistant_content list list \<Rightarrow> play wk" where
  "play_world sc = \<lparr>wk_db = snd play_claimed,
     wk_hub = snd (subscribe_live 10 \<lparr>hb_slots = [], hb_order = [], hb_chans = [], hb_slot_cap = 8\<rparr>),
     wk_env = \<lparr>pl_script = sc, pl_runs = 0\<rparr>\<rparr>"

text \<open>An agent that only talks: three runs, two nudges, no delivery.\<close>

definition chatty :: "assistant_content list list" where
  "chatty = replicate 9 [AText ''hmm'']"

theorem worker_settles_claim_witness:
  "\<exists>w. handle_claim play_ops play_claim (play_world []) = (Ok (), w) \<and>
     map pr_status (prompt_requests (wk_db w)) = [Failed] \<and> settled (receipt play_claim) (wk_db w) \<and>
     \<not> holds (wk_db w) (cs_lease play_claim)"
proof -
  let ?w = "snd (handle_claim play_ops play_claim (play_world []))"
  have "holds (wk_db (play_world [])) (cs_lease play_claim)" by code_simp
  note s = worker_settles_claim [OF play_undisturbed this]
  have "fst (handle_claim play_ops play_claim (play_world [])) = Ok ()" by code_simp
  then have run: "handle_claim play_ops play_claim (play_world []) = (Ok (), ?w)" by (metis prod.collapse)
  have "map pr_status (prompt_requests (wk_db ?w)) = [Failed]" by code_simp
  then show ?thesis using s run by (metis (no_types, lifting) case_prod_conv outcome.simps(10))
qed

theorem pingpong_terminates_witness:
  "pl_runs (wk_env (snd (run_with_pingpong_guard play_ops bare_player play_claim [''hi''] (receipt play_claim)
     (play_world chatty)))) = 3 \<and> 3 \<le> 0 + MAX_PINGPONG_RETRIES + 1"
proof -
  have "pl_runs (wk_env (snd (wo_timeout play_ops f w))) \<le> pl_runs (wk_env w) + 1" for f w
    by (simp add: play_ops_def bounded_run_count)
  note b = pingpong_terminates [where count = pl_runs, OF this, of bare_player play_claim "[''hi'']" "receipt play_claim" "play_world chatty"]
  have r: "pl_runs (wk_env (snd (run_with_pingpong_guard play_ops bare_player play_claim [''hi''] (receipt play_claim)
     (play_world chatty)))) = 3" by code_simp
  have "pl_runs (wk_env (play_world chatty)) = 0" by (simp add: play_world_def)
  then show ?thesis using b r by simp
qed

theorem failed_request_gets_done_too_witness:
  "map env_chunk (log_of 10 (wk_db (fail_claim play_ops (receipt play_claim) NoEgress (play_world chatty)))) =
     [from_failure NoEgress, CDone []]"
proof -
  let ?w = "play_world chatty" and ?rc = "receipt play_claim"
  let ?req = "hd (prompt_requests (wk_db ?w))" and ?t = "\<lparr>sl_tx = 0, sl_closed = False\<rparr>"
  have h: "cr_ids ?rc = [10]" "holds (wk_db ?w) (cr_lease ?rc)"
    "find (\<lambda>r. pr_id r = 10 \<and> visible (AsUser (cr_acting_user_id ?rc)) (wk_db ?w) (pr_org_id r))
       (prompt_requests (wk_db ?w)) = Some ?req"
    "next_chunk_seq 10 (wk_db ?w) + 1 < i64_max"
    "slot_of (wk_hub ?w) 10 = Some ?t" "\<not> sl_closed ?t" "sl_tx ?t < length (hb_chans (wk_hub ?w))"
    "root_request_id (lt_session (cr_lease ?rc)) (wk_db ?w) = Ok 10"
    "\<forall>r \<in> set (prompt_requests (wk_db ?w)). pr_root_request_id r = 10 \<longrightarrow> is_terminal (pr_status r) \<or> finalisable ?rc r"
    by code_simp+
  have "log_of 10 (wk_db ?w) = []" by code_simp
  with failed_request_gets_done_too [OF h, of play_ops NoEgress] show ?thesis
    by (auto simp: Let_def)
qed

end
