(* ===== verification/Send_Message.thy ===== *)
theory Send_Message
  imports Worker Queue_Guarantees
begin

text \<open>
  The \<open>send_message\<close> tool: \<open>src/tools/system/send_message.rs\<close>. One call validates its input,
  resolves the receiver and the session with it, may append an opening note and the outbound
  message, spends one turn of the DAG budget, and then publishes to the human or enqueues for
  the agent. The steps are separate transactions; an error leaves the earlier ones in place.

  The agent directory is an argument, and so is how identifiers and errors of other components
  are printed.
\<close>

unbundle bit_operations_syntax

section \<open>Input and output\<close>

datatype receiver_input = ToHuman | ToAgent string

record send_input =
  si_receiver :: receiver_input
  si_content :: string
  si_context_summary :: "string option"

record send_output =
  so_session_id :: session_id
  so_request_id :: "prompt_request_id option"
  so_delivery :: string

datatype tool_error = InvalidInput string | TBackend string

datatype lookup_error = NameNotFound | LookupFailed string

definition CONTEXT_SUMMARY_MAX_BYTES :: nat where
  "CONTEXT_SUMMARY_MAX_BYTES = 4096"

text \<open>The directory, the printers, the clock and the fresh identifiers of a call.\<close>

record send_env =
  se_read_by_name :: "agent_id \<Rightarrow> string \<Rightarrow> (lookup_error, agent_id) outcome"
  se_show_uuid :: "uuid \<Rightarrow> string"
  se_show_participant :: "participant \<Rightarrow> string"
  se_show_parse_error :: "parse_error \<Rightarrow> string"
  se_show_session_error :: "session_error \<Rightarrow> string"
  se_show_prompt_error :: "prompt_error \<Rightarrow> string"
  se_show_response_error :: "response_error \<Rightarrow> string"
  se_now :: instant
  se_new_session :: session_id
  se_new_request :: prompt_request_id
  se_traceparent :: "string option"

type_synonym store = "db \<times> hub"

section \<open>The idempotency key\<close>

definition hex_digit :: "nat \<Rightarrow> char" where
  "hex_digit n = char_of (if n < 10 then 48 + n else 87 + n)"

text \<open>\<open>{:016x}\<close>: sixteen lower-case digits, most significant first.\<close>

definition hex16 :: "64 word \<Rightarrow> string" where
  "hex16 h = map (\<lambda>k. hex_digit (unat (drop_bit (4 * (15 - k)) h AND 15))) [0..<16]"

definition idempotency_key :: "send_env \<Rightarrow> tool_ctx \<Rightarrow> session_id \<Rightarrow> string \<Rightarrow> string" where
  "idempotency_key env ctx receiver_session content =
     ''send-msg:'' @ se_show_uuid env (tx_session_id ctx) @ '':'' @ se_show_uuid env receiver_session @ '':'' @
     hex16 (fnv1a64 content)"

definition outbound_chat_message :: "string \<Rightarrow> chat_message" where
  "outbound_chat_message content = User [UText content]"

section \<open>Validation\<close>

definition resolve_receiver :: "send_env \<Rightarrow> agent_id \<Rightarrow> receiver_input \<Rightarrow> (tool_error, participant) outcome" where
  "resolve_receiver env viewer raw =
     (case raw of
        ToHuman \<Rightarrow> Ok Human
      | ToAgent name \<Rightarrow>
          (case se_read_by_name env viewer name of
             Ok i \<Rightarrow> Ok (Agent i)
           | Err NameNotFound \<Rightarrow> Err (InvalidInput (''send_message: unknown agent name '' @ name))
           | Err (LookupFailed e) \<Rightarrow> Err (TBackend (''send_message: agent lookup: '' @ e))
           | Panic m \<Rightarrow> Panic m))"

definition validate ::
  "send_env \<Rightarrow> send_input \<Rightarrow> tool_ctx \<Rightarrow> (tool_error, string \<times> string option \<times> participant) outcome" where
  "validate env inp ctx =
     (case prompt_try_from (si_content inp) of
        Err e \<Rightarrow> Err (InvalidInput (se_show_parse_error env e))
      | Panic m \<Rightarrow> Panic m
      | Ok content \<Rightarrow>
          if (\<exists>s \<in> set_option (si_context_summary inp). CONTEXT_SUMMARY_MAX_BYTES < length s)
          then Err (InvalidInput (''context_summary exceeds cap ('' @ show_nat CONTEXT_SUMMARY_MAX_BYTES @ '' bytes)''))
          else case participant_agent_id (tx_viewer ctx) of
            None \<Rightarrow> Err (InvalidInput ''send_message: caller must be an agent'')
          | Some viewer \<Rightarrow>
              and_then (resolve_receiver env viewer (si_receiver inp))
                (\<lambda>receiver.
                   if receiver = tx_viewer ctx then Err (InvalidInput ''send_message: receiver equals caller'')
                   else if is_system receiver then Err (InvalidInput ''send_message: cannot deliver to System'')
                   else Ok (content, si_context_summary inp, receiver)))"

section \<open>Delivery\<close>

text \<open>The \<open>map_err\<close> of a store call into a backend error.\<close>

definition backend :: "string \<Rightarrow> ('e \<Rightarrow> string) \<Rightarrow> ('e, 'a) outcome \<times> 'w \<Rightarrow> (tool_error, 'a) outcome \<times> 'w" where
  "backend what sh r = (map_err (\<lambda>e. TBackend (''send_message: '' @ what @ '': '' @ sh e)) (fst r), snd r)"

definition in_db :: "(db \<Rightarrow> 'r \<times> db) \<Rightarrow> store \<Rightarrow> 'r \<times> store" where
  "in_db f w = (case f (fst w) of (r, d) \<Rightarrow> (r, (d, snd w)))"

definition maybe_append_opening_note ::
  "send_env \<Rightarrow> session_id \<Rightarrow> participant \<Rightarrow> participant \<Rightarrow> string \<Rightarrow> prompt_request_id \<Rightarrow> user_id \<Rightarrow> store \<Rightarrow>
   (tool_error, unit) outcome \<times> store" where
  "maybe_append_opening_note env rs receiver viewer summary req u w =
     (if trim summary = [] then (Ok (), w)
      else bindw (backend ''snapshot failed'' (se_show_session_error env) (snapshot rs receiver (fst w), w))
        (\<lambda>history w1.
           if history \<noteq> [] then (Ok (), w1)
           else backend ''opening note append failed'' (se_show_session_error env)
             (in_db (append_system_nudge_for_user u rs receiver
                (''[context from '' @ se_show_participant env viewer @ ''] '' @ trim summary) req (se_now env)) w1)))"

definition publish_to_human ::
  "send_env \<Rightarrow> tool_ctx \<Rightarrow> session_id \<Rightarrow> string \<Rightarrow> store \<Rightarrow> (tool_error, send_output) outcome \<times> store" where
  "publish_to_human env ctx rs content w =
     (case participant_agent_id (tx_viewer ctx) of
        None \<Rightarrow> (Panic ''invariant: validate() rejects non-agent callers'', w)
      | Some from_agent \<Rightarrow>
          bindw (backend ''publish to human failed'' (se_show_response_error env)
                   (publish_for_user (tx_acting_user_id ctx) (tx_request_id ctx)
                      (CAgentMessage from_agent content) (se_now env) w))
            (\<lambda>_ w1. (Ok \<lparr>so_session_id = rs, so_request_id = None, so_delivery = ''published''\<rparr>, w1)))"

definition agent_request ::
  "tool_ctx \<Rightarrow> session_id \<Rightarrow> agent_id \<Rightarrow> string \<Rightarrow> string \<Rightarrow> session_tenancy \<Rightarrow> new_prompt_request" where
  "agent_request ctx rs receiver content key ten =
     new_prompt_request_normal (Some rs) (tx_viewer ctx) receiver (Some (tx_session_id ctx)) content key
       (sten_org_id ten) (sten_created_by_user_id ten)"

definition enqueue_for_agent ::
  "send_env \<Rightarrow> tool_ctx \<Rightarrow> session_id \<Rightarrow> agent_id \<Rightarrow> string \<Rightarrow> session_tenancy \<Rightarrow> store \<Rightarrow>
   (tool_error, send_output) outcome \<times> store" where
  "enqueue_for_agent env ctx rs receiver content ten w =
     (case idempotency_key_try_from (idempotency_key env ctx rs content) of
        Err e \<Rightarrow> (Err (TBackend (''send_message: bad idempotency: '' @ se_show_parse_error env e)), w)
      | Panic m \<Rightarrow> (Panic m, w)
      | Ok key \<Rightarrow>
          if participant_agent_id (tx_viewer ctx) = None
          then (Panic ''invariant: validate() rejects non-agent callers'', w)
          else bindw (backend ''enqueue failed'' (se_show_prompt_error env)
                 (in_db (enqueue_for_user queue_new (tx_acting_user_id ctx)
                    (agent_request ctx rs receiver content key ten)
                    (se_now env) (se_new_request env) (se_new_session env) (se_traceparent env)) w))
            (\<lambda>out w1. (Ok \<lparr>so_session_id = rs, so_request_id = Some (outcome_request_id out),
                           so_delivery = ''queued''\<rparr>, w1)))"

text \<open>Spending a turn. A spent budget ends the root's stream with an error chunk, best effort.\<close>

definition spend_turn :: "send_env \<Rightarrow> tool_ctx \<Rightarrow> store \<Rightarrow> (tool_error, unit) outcome \<times> store" where
  "spend_turn env ctx w =
     (case in_db (bump_or_fail_for_user (tx_acting_user_id ctx) (tx_root_request_id ctx)) w of
        (Ok _, w1) \<Rightarrow> (Ok (), w1)
      | (Err (DagBudgetExceeded root used cap), w1) \<Rightarrow>
          (let u = tx_acting_user_id ctx; i = tx_root_request_id ctx;
               w2 = snd (publish_for_user u i (from_failure DagBudgetExceededReason) (se_now env) w1);
               w3 = snd (close_for_user u i w2) in
           (Err (InvalidInput (''send_message: dag budget exceeded: '' @
                   se_show_prompt_error env (DagBudgetExceeded root used cap))), w3))
      | (Err e, w1) \<Rightarrow> (Err (TBackend (''send_message: dag bump failed: '' @ se_show_prompt_error env e)), w1)
      | (Panic m, w1) \<Rightarrow> (Panic m, w1))"

definition deliver ::
  "send_env \<Rightarrow> tool_ctx \<Rightarrow> session_id \<Rightarrow> participant \<Rightarrow> string \<Rightarrow> session_tenancy \<Rightarrow> store \<Rightarrow>
   (tool_error, send_output) outcome \<times> store" where
  "deliver env ctx rs receiver content ten w =
     (case receiver of
        Human \<Rightarrow> publish_to_human env ctx rs content w
      | Agent i \<Rightarrow> enqueue_for_agent env ctx rs i content ten w
      | System \<Rightarrow> (Err (InvalidInput ''send_message: cannot deliver to System''), w))"

definition append_outbound ::
  "send_env \<Rightarrow> tool_ctx \<Rightarrow> session_id \<Rightarrow> participant \<Rightarrow> string \<Rightarrow> store \<Rightarrow> (tool_error, unit) outcome \<times> store" where
  "append_outbound env ctx rs receiver content w =
     (if receiver = Human \<and> rs \<noteq> tx_session_id ctx
      then backend ''append failed'' (se_show_session_error env)
             (in_db (append_for_user (tx_acting_user_id ctx) rs (sender_from_participant (tx_viewer ctx)) receiver
                (outbound_chat_message content) (tx_request_id ctx) (se_now env)) w)
      else (Ok (), w))"

definition opening_note ::
  "send_env \<Rightarrow> tool_ctx \<Rightarrow> session_id \<Rightarrow> participant \<Rightarrow> string option \<Rightarrow> store \<Rightarrow> (tool_error, unit) outcome \<times> store" where
  "opening_note env ctx rs receiver summary w =
     (case summary of
        None \<Rightarrow> (Ok (), w)
      | Some s \<Rightarrow> maybe_append_opening_note env rs receiver (tx_viewer ctx) s (tx_request_id ctx) (tx_acting_user_id ctx) w)"

definition receiver_session ::
  "send_env \<Rightarrow> tool_ctx \<Rightarrow> participant \<Rightarrow> session_tenancy \<Rightarrow> store \<Rightarrow> (tool_error, session_id) outcome \<times> store" where
  "receiver_session env ctx receiver ten w =
     backend ''session resolve failed'' (se_show_session_error env)
       (in_db (resolve_or_create_for_pair_for_user
          \<lparr>cal_user_id = tx_acting_user_id ctx, cal_org_id = sten_org_id ten\<rparr> (tx_root_request_id ctx)
          (tx_viewer ctx) receiver (Some (tx_session_id ctx)) (se_now env) (se_new_session env)) w)"

definition send_handle ::
  "send_env \<Rightarrow> send_input \<Rightarrow> tool_ctx \<Rightarrow> store \<Rightarrow> (tool_error, send_output) outcome \<times> store" where
  "send_handle env inp ctx w =
     bindw (validate env inp ctx, w) (\<lambda>(content, summary, receiver) w0.
     bindw (backend ''tenancy lookup failed'' (se_show_session_error env) (tenancy (tx_session_id ctx) (fst w0), w0)) (\<lambda>ten w1.
     bindw (receiver_session env ctx receiver ten w1) (\<lambda>rs w2.
     bindw (opening_note env ctx rs receiver summary w2) (\<lambda>_ w3.
     bindw (append_outbound env ctx rs receiver content w3) (\<lambda>_ w4.
     bindw (spend_turn env ctx w4) (\<lambda>_ w5.
     deliver env ctx rs receiver content ten w5))))))"

section \<open>Frames\<close>

lemma backend_Ok: "backend what sh r = (Ok x, w) \<longleftrightarrow> r = (Ok x, w)"
  by (cases r) (auto simp: backend_def)

lemma in_db_sel: "in_db f w = (fst (f (fst w)), (snd (f (fst w)), snd w))"
  by (simp add: in_db_def split: prod.split)

text \<open>A projection of the database a transaction's body keeps, the transaction keeps.\<close>

lemma run_tx_keeps: "g (snd (f d)) = g d \<Longrightarrow> g (snd (run_tx f d)) = g d"
  using run_tx_snd [OF refl, of f d] by auto

text \<open>What a delivery touches: the queue, the published chunks and the budget.\<close>

definition delivery_view where
  "delivery_view d = (prompt_requests d, response_chunks d, prompt_request_dags d, org_members d)"

definition transcript_view where
  "transcript_view d = (prompt_request_dags d, org_members d, session_messages d)"

lemma append_row_delivery: "delivery_view (snd (append_row cap sc i sender receiver m req now d)) = delivery_view d"
  by (simp add: append_row_def Let_def delivery_view_def split: option.split)

lemma append_delivery:
  "delivery_view (snd (append_for_user u i sender receiver m req now d)) = delivery_view d"
  "delivery_view (snd (append_system_nudge_for_user u i receiver note req now d)) = delivery_view d"
  by (simp_all add: append_for_user_def append_system_nudge_for_user_def run_tx_keeps append_row_delivery)

lemma resolve_pair_keeps:
  "transcript_view (snd (resolve_or_create_for_pair_for_user c root a b par now i d)) = transcript_view d"
  "delivery_view (snd (resolve_or_create_for_pair_for_user c root a b par now i d)) = delivery_view d"
proof -
  have "transcript_view (snd (resolve_or_create_for_pair_inner sc root a b par org u now i d)) = transcript_view d"
    "delivery_view (snd (resolve_or_create_for_pair_inner sc root a b par org u now i d)) = delivery_view d" for sc org u
    by (simp_all add: resolve_or_create_for_pair_inner_def Let_def transcript_view_def delivery_view_def split: option.split)
  then show "transcript_view (snd (resolve_or_create_for_pair_for_user c root a b par now i d)) = transcript_view d"
    "delivery_view (snd (resolve_or_create_for_pair_for_user c root a b par now i d)) = delivery_view d"
    by (simp_all add: resolve_or_create_for_pair_for_user_def run_tx_keeps)
qed

lemma receiver_session_keeps:
  "transcript_view (fst (snd (receiver_session env ctx receiver ten w))) = transcript_view (fst w)"
  "delivery_view (fst (snd (receiver_session env ctx receiver ten w))) = delivery_view (fst w)"
  by (simp_all add: receiver_session_def backend_def in_db_sel resolve_pair_keeps)

text \<open>A failed stage ends the composition with the state it left.\<close>

lemma bindw_cases:
  assumes "bindw r k = (res, w')"
  obtains (next_stage) x w1 where "r = (Ok x, w1)" "k x w1 = (res, w')"
  | (failed) "\<not> is_Ok res" "w' = snd r"
  using assms by (auto simp: bindw_def split: prod.splits outcome.splits)

lemma opening_note_keeps:
  "delivery_view (fst (snd (opening_note env ctx rs receiver summary w))) = delivery_view (fst w)"
proof -
  have "delivery_view (fst (snd (maybe_append_opening_note env rs receiver viewer s req u w))) = delivery_view (fst w)"
    for viewer s req u
    by (simp add: maybe_append_opening_note_def backend_def in_db_sel append_delivery bindw_def
             split: outcome.split prod.split)
  then show ?thesis by (simp add: opening_note_def split: option.split)
qed

lemma append_outbound_keeps:
  "delivery_view (fst (snd (append_outbound env ctx rs receiver content w))) = delivery_view (fst w)"
  by (simp add: append_outbound_def backend_def in_db_sel append_delivery)

lemma publish_tx_keeps:
  assumes "\<And>sc d. g (snd (publish_in_tx sc i c now d)) = g d"
  shows "g (fst (snd (publish_for_user u i c now w))) = g (fst w)"
proof -
  obtain r d' where run: "run_tx (publish_in_tx (AsUser u) i c now) (fst w) = (r, d')" by fastforce
  have "fst (snd (publish_scoped (AsUser u) i c now w)) = d'"
    unfolding publish_scoped_def run by (cases r) (simp_all split: prod.split)
  moreover have "g d' = g (fst w)"
    using run_tx_keeps [of g "publish_in_tx (AsUser u) i c now" "fst w", OF assms] run by simp
  ultimately show ?thesis by (simp add: publish_for_user_def)
qed

lemma publish_keeps_tables:
  "transcript_view (fst (snd (publish_for_user u i c now w))) = transcript_view (fst w)"
  "prompt_requests (fst (snd (publish_for_user u i c now w))) = prompt_requests (fst w)"
  by (rule publish_tx_keeps, simp add: publish_in_tx_def Let_def transcript_view_def split: option.split)+

lemma publish_chunks:
  "ch \<in> set (response_chunks (fst (snd (publish_for_user u i c now w)))) \<Longrightarrow>
   ch \<in> set (response_chunks (fst w)) \<or> ch_request_id ch = i \<and> ch_payload ch = c"
  by (auto simp: publish_for_user_def publish_scoped_def run_tx_def publish_in_tx_def Let_def
           split: prod.splits outcome.splits option.splits if_splits)

lemma close_keeps:
  "delivery_view (fst (snd (close_for_user u i w))) = delivery_view (fst w)"
  by (simp add: close_for_user_def close_scoped_def run_tx_def close_in_tx_def delivery_view_def split: option.split)

lemma enqueue_existing_session_keeps:
  "transcript_view (snd (enqueue_for_user q u (agent_request ctx rs a content key ten) now i ns tp d)) = transcript_view d"
proof (cases "enqueue_for_user q u (agent_request ctx rs a content key ten) now i ns tp d")
  case (Pair r d')
  show ?thesis
  proof (cases r)
    case (Ok out)
    with Pair have "enqueue_in_tx q (AsUser u) ((agent_request ctx rs a content key ten)\<lparr>np_created_by_user_id := u\<rparr>) now i ns tp d =
        (Ok out, d')"
      by (simp add: enqueue_for_user_def)
    then have "transcript_view d' = transcript_view d"
      by (cases rule: enqueue_in_tx_cases)
         (auto simp: transcript_view_def agent_request_def new_prompt_request_normal_def)
    with Pair show ?thesis by simp
  qed (use Pair in \<open>auto simp: enqueue_for_user_def dest: run_tx_rollback\<close>)
qed

lemma deliver_keeps:
  "transcript_view (fst (snd (deliver env ctx rs receiver content ten w))) = transcript_view (fst w)"
  by (cases receiver)
     (auto simp: deliver_def publish_to_human_def enqueue_for_agent_def backend_def bindw_def in_db_sel
        publish_keeps_tables enqueue_existing_session_keeps split: option.split outcome.split)

lemma spend_turn_Ok:
  "spend_turn env ctx w = (Ok x, w') \<Longrightarrow>
   \<exists>b. bump_or_fail_in_tx (AsUser (tx_acting_user_id ctx)) (tx_root_request_id ctx) (fst w) = (Ok b, fst w')"
  by (auto simp: spend_turn_def in_db_def bump_or_fail_for_user_def Let_def
           split: prod.splits outcome.splits prompt_error.splits)

text \<open>What a call with no turn left may publish: the failure, on the stream of the root.\<close>

definition only_budget_failure :: "prompt_request_id \<Rightarrow> db \<Rightarrow> db \<Rightarrow> bool" where
  "only_budget_failure root d d' \<longleftrightarrow>
     (\<forall>c \<in> set (response_chunks d') - set (response_chunks d).
        ch_request_id c = root \<and> ch_payload c = from_failure DagBudgetExceededReason)"

lemma spend_turn_exhausted:
  assumes "bump_or_fail_in_tx (AsUser (tx_acting_user_id ctx)) (tx_root_request_id ctx) (fst w) =
      (Err (DagBudgetExceeded root used cap), fst w)" and "spend_turn env ctx w = (res, w')"
  shows "\<not> is_Ok res" "prompt_requests (fst w') = prompt_requests (fst w)"
    "prompt_request_dags (fst w') = prompt_request_dags (fst w)"
    "only_budget_failure (tx_root_request_id ctx) (fst w) (fst w')"
proof -
  let ?u = "tx_acting_user_id ctx" and ?i = "tx_root_request_id ctx"
  let ?w2 = "snd (publish_for_user ?u ?i (from_failure DagBudgetExceededReason) (se_now env) w)"
  have w': "\<not> is_Ok res" "w' = snd (close_for_user ?u ?i ?w2)"
    using assms by (auto simp: spend_turn_def in_db_def bump_or_fail_for_user_def Let_def)
  have c: "delivery_view (fst w') = delivery_view (fst ?w2)" unfolding w'(2) by (rule close_keeps)
  note p = publish_keeps_tables [of ?u ?i "from_failure DagBudgetExceededReason" "se_now env" w]
  show "\<not> is_Ok res" by (rule w'(1))
  show "prompt_requests (fst w') = prompt_requests (fst w)" "prompt_request_dags (fst w') = prompt_request_dags (fst w)"
    using c p by (simp_all add: delivery_view_def transcript_view_def)
  show "only_budget_failure ?i (fst w) (fst w')"
    using c by (auto simp: only_budget_failure_def delivery_view_def dest: publish_chunks)
qed

lemma bump_transcript:
  "transcript_view (snd (bump_or_fail_in_tx sc root d)) =
     (prompt_request_dags (snd (bump_or_fail_in_tx sc root d)), org_members d, session_messages d)"
  by (simp add: bump_or_fail_in_tx_def Let_def transcript_view_def split: option.split)

lemma send_handle_stages:
  assumes "send_handle env inp ctx w = (Ok out, w')"
  obtains content summary receiver ten rs w2 w3 w4 w5 where
    "validate env inp ctx = Ok (content, summary, receiver)"
    "receiver_session env ctx receiver ten w = (Ok rs, w2)"
    "opening_note env ctx rs receiver summary w2 = (Ok (), w3)"
    "append_outbound env ctx rs receiver content w3 = (Ok (), w4)"
    "spend_turn env ctx w4 = (Ok (), w5)"
    "deliver env ctx rs receiver content ten w5 = (Ok out, w')"
  using assms unfolding send_handle_def
  by (auto simp: backend_Ok elim!: bindw_OkE)

text \<open>A call either stops before the budget is asked, having delivered nothing, or spends a turn
  and then delivers.\<close>

lemma send_handle_cases:
  assumes "send_handle env inp ctx w = (res, w')"
  obtains (stopped) "\<not> is_Ok res" "delivery_view (fst w') = delivery_view (fst w)"
  | (spent) content receiver ten rs w4 where "delivery_view (fst w4) = delivery_view (fst w)"
      "bindw (spend_turn env ctx w4) (\<lambda>_ w5. deliver env ctx rs receiver content ten w5) = (res, w')"
proof -
  let ?same = "\<lambda>w''. delivery_view (fst w'') = delivery_view (fst w)"
  have after_tenancy: thesis
    if v: "bindw (receiver_session env ctx receiver ten w) (\<lambda>rs w2.
      bindw (opening_note env ctx rs receiver summary w2) (\<lambda>_ w3.
      bindw (append_outbound env ctx rs receiver content w3) (\<lambda>_ w4.
      bindw (spend_turn env ctx w4) (\<lambda>_ w5. deliver env ctx rs receiver content ten w5)))) = (res, w')"
    for content summary receiver ten
    using v
  proof (cases rule: bindw_cases)
    case (next_stage rs w2)
    then have w2: "?same w2" using receiver_session_keeps(2) [of env ctx receiver ten w] by simp
    from next_stage(2) show thesis
    proof (cases rule: bindw_cases)
      case (next_stage x w3)
      then have w3: "?same w3" using w2 opening_note_keeps [of env ctx rs receiver summary w2] by simp
      from next_stage(2) show thesis
      proof (cases rule: bindw_cases)
        case (next_stage y w4)
        then have "?same w4" using w3 append_outbound_keeps [of env ctx rs receiver content w3] by simp
        then show thesis using next_stage(2) by (rule spent)
      qed (use stopped w3 append_outbound_keeps in metis)
    qed (use stopped w2 opening_note_keeps in metis)
  qed (use stopped receiver_session_keeps(2) in metis)
  from assms show thesis unfolding send_handle_def
  proof (cases rule: bindw_cases)
    case (next_stage v w0)
    then obtain content summary receiver where v: "v = (content, summary, receiver)" "w0 = w" by (cases v) auto
    from next_stage(2) show thesis unfolding v prod.case
      by (rule bindw_cases) (auto simp: backend_Ok backend_def stopped intro: after_tenancy)
  qed (use stopped in simp)
qed

lemma deliver_session: "deliver env ctx rs receiver content ten w = (Ok out, w') \<Longrightarrow> so_session_id out = rs"
  by (auto simp: deliver_def publish_to_human_def enqueue_for_agent_def elim!: bindw_OkE
           split: participant.splits option.splits outcome.splits if_splits)

section \<open>Guarantees\<close>


text \<open>Talking to the human in the session at hand leaves the transcript alone: when the message
  goes to the session the agent is in, which has a history, the call appends nothing to any
  session, so the agent's tool calls and their results stay next to each other.\<close>
theorem send_in_session_keeps_transcript:
  assumes "send_handle env inp ctx w = (Ok out, w')" and "so_session_id out = tx_session_id ctx"
    and "\<And>v. \<exists>m ms. snapshot (tx_session_id ctx) v (fst w) = Ok (m # ms)"
  shows "session_messages (fst w') = session_messages (fst w)"
proof -
  from assms(1) obtain content summary receiver ten rs w2 w3 w4 w5 b where
    s: "receiver_session env ctx receiver ten w = (Ok rs, w2)"
    "opening_note env ctx rs receiver summary w2 = (Ok (), w3)"
    "append_outbound env ctx rs receiver content w3 = (Ok (), w4)"
    "deliver env ctx rs receiver content ten w5 = (Ok out, w')"
    and b: "bump_or_fail_in_tx (AsUser (tx_acting_user_id ctx)) (tx_root_request_id ctx) (fst w4) = (Ok b, fst w5)"
    by (auto elim!: send_handle_stages dest!: spend_turn_Ok)
  have rs: "rs = tx_session_id ctx" using deliver_session [OF s(4)] assms(2) by simp
  have m2: "session_messages (fst w2) = session_messages (fst w)"
    using receiver_session_keeps(1) [of env ctx receiver ten w] s(1) by (simp add: transcript_view_def)
  obtain m ms where "snapshot rs receiver (fst w) = Ok (m # ms)" using assms(3) rs by blast
  then have "session_rows rs (fst w2) \<noteq> []"
    using m2 by (auto simp: snapshot_def session_rows_def split: option.splits)
  then have "snapshot rs receiver (fst w2) \<noteq> Ok []" by (auto simp: snapshot_def split: option.splits)
  then have "w3 = w2"
    using s(2) by (auto simp: opening_note_def maybe_append_opening_note_def backend_Ok elim!: bindw_OkE
                        split: option.splits if_splits)
  moreover have "w4 = w3" using s(3) rs by (simp add: append_outbound_def)
  moreover have "session_messages (fst w5) = session_messages (fst w4)"
    using bump_transcript [of "AsUser (tx_acting_user_id ctx)" "tx_root_request_id ctx" "fst w4"] b
    by (simp add: transcript_view_def)
  ultimately show ?thesis
    using deliver_keeps [of env ctx rs receiver content ten w5] s(4) m2 by (simp add: transcript_view_def)
qed

text \<open>A message an agent repeats is swallowed: once a text was enqueued for another agent, the
  same text from the same session to the same session is never enqueued again. However long
  ago the first one was answered, the call reports success with the old request and the
  queue stays as it is.\<close>
theorem repeated_message_is_swallowed:
  assumes "queue_inv queue_new (fst w)"
    and "enqueue_for_agent env ctx rs a content ten w = (Ok out, w1)"
    and "(queue_step queue_new)\<^sup>*\<^sup>* (fst w1) d2"
    and "(tx_acting_user_id ctx, sten_org_id ten) \<in> set (org_members d2)"
    and "tx_viewer ctx \<noteq> Agent a" and "se_show_uuid env' = se_show_uuid env"
  shows "enqueue_for_agent env' ctx rs a content ten (d2, h) = (Ok out, (d2, h))"
proof -
  let ?u = "tx_acting_user_id ctx"
  have key: "idempotency_key env' ctx rs content = idempotency_key env ctx rs content"
    using assms(6) by (simp add: idempotency_key_def)
  obtain k o1 where k: "idempotency_key_try_from (idempotency_key env ctx rs content) = Ok k"
      "participant_agent_id (tx_viewer ctx) \<noteq> None"
      "out = \<lparr>so_session_id = rs, so_request_id = Some (outcome_request_id o1), so_delivery = ''queued''\<rparr>"
    and e: "enqueue_in_tx queue_new (AsUser ?u) ((agent_request ctx rs a content k ten)\<lparr>np_created_by_user_id := ?u\<rparr>)
      (se_now env) (se_new_request env) (se_new_session env) (se_traceparent env) (fst w) = (Ok o1, fst w1)"
    using assms(2)
    by (auto simp: enqueue_for_agent_def backend_Ok in_db_def enqueue_for_user_def elim!: bindw_OkE
             split: outcome.splits if_splits prod.splits)
  let ?req = "(agent_request ctx rs a content k ten)\<lparr>np_created_by_user_id := ?u\<rparr>"
  have "\<exists>st. enqueue_in_tx queue_new (AsUser ?u) ?req (se_now env') (se_new_request env') (se_new_session env')
      (se_traceparent env') d2 = (Ok (Existing (outcome_request_id o1) (outcome_session o1) st), d2)"
    by (rule enqueue_in_tx_again [OF assms(1) e assms(3)])
       (use assms(4,5) in \<open>auto simp: agent_request_def new_prompt_request_normal_def enqueue_receiver_def\<close>)
  then obtain st where "enqueue_for_user queue_new ?u (agent_request ctx rs a content k ten) (se_now env')
      (se_new_request env') (se_new_session env') (se_traceparent env') d2 =
      (Ok (Existing (outcome_request_id o1) (outcome_session o1) st), d2)"
    by (auto simp: enqueue_for_user_def)
  then show ?thesis
    using k key by (simp add: enqueue_for_agent_def in_db_def backend_def bindw_def)
qed

end
