(* ===== verification/Send_Examples.thy ===== *)
theory Send_Examples
  imports Send_Message Queue_Examples
begin

text \<open>
  The \<open>send_message\<close> tool on a concrete store: agent 1, on turn in its session 20 with the human,
  writes to agent 2 and to the human. The runs are the witnesses of \<open>Send_Message\<close>.
\<close>

definition mail_env :: send_env where
  "mail_env = \<lparr>se_read_by_name = (\<lambda>_ n. if n = ''bob'' then Ok 2 else Err NameNotFound),
     se_show_uuid = show_nat, se_show_participant = (\<lambda>_. ''participant''), se_show_parse_error = (\<lambda>_. ''parse error''),
     se_show_session_error = (\<lambda>_. ''session error''), se_show_prompt_error = (\<lambda>_. ''prompt error''),
     se_show_response_error = (\<lambda>_. ''response error''), se_now = 105, se_new_session = 30, se_new_request = 40,
     se_traceparent = None\<rparr>"

definition mail_ctx :: tool_ctx where
  "mail_ctx = \<lparr>tx_session_id = 20, tx_viewer = Agent 1, tx_root_request_id = 10, tx_request_id = 10,
     tx_kind_payload = PNormal, tx_acting_user_id = 7, tx_org_id = 3\<rparr>"

definition mail_to_bob :: send_input where
  "mail_to_bob = \<lparr>si_receiver = ToAgent ''bob'', si_content = ''ping'', si_context_summary = Some ''about it''\<rparr>"

definition mail_to_human :: send_input where
  "mail_to_human = \<lparr>si_receiver = ToHuman, si_content = ''hello'', si_context_summary = Some ''about it''\<rparr>"

definition mail_store :: store where
  "mail_store = (snd (append_for_user 7 20 SHuman (Agent 1) (User [UText ''hi'']) 10 102 example_claimed),
     \<lparr>hb_slots = [], hb_order = [], hb_chans = [], hb_slot_cap = 8\<rparr>)"

definition mail_sent :: store where
  "mail_sent = snd (send_handle mail_env mail_to_bob mail_ctx mail_store)"

definition mail_tenancy :: session_tenancy where
  "mail_tenancy = \<lparr>sten_org_id = 3, sten_created_by_user_id = 7\<rparr>"

lemma send_to_bob:
  "send_handle mail_env mail_to_bob mail_ctx mail_store =
     (Ok \<lparr>so_session_id = 30, so_request_id = Some 40, so_delivery = ''queued''\<rparr>, mail_sent)"
proof -
  have "fst (send_handle mail_env mail_to_bob mail_ctx mail_store) =
    Ok \<lparr>so_session_id = 30, so_request_id = Some 40, so_delivery = ''queued''\<rparr>" by code_simp
  then show ?thesis by (simp add: mail_sent_def prod_eq_iff)
qed

text \<open>The same call when the budget is used up.\<close>

definition mail_broke :: store where
  "mail_broke = ((fst mail_store)\<lparr>prompt_request_dags :=
     map (\<lambda>r. r\<lparr>dag_turns_used := dag_turns_cap r\<rparr>) (prompt_request_dags (fst mail_store))\<rparr>, snd mail_store)"


theorem send_in_session_keeps_transcript_witness:
  "session_messages (fst (snd (send_handle mail_env mail_to_human mail_ctx mail_store))) = session_messages (fst mail_store) \<and>
   length (response_chunks (fst (snd (send_handle mail_env mail_to_human mail_ctx mail_store)))) = 1"
proof -
  let ?o = "\<lparr>so_session_id = 20, so_request_id = None, so_delivery = ''published''\<rparr>"
  have "fst (send_handle mail_env mail_to_human mail_ctx mail_store) = Ok ?o" by code_simp
  then have s: "send_handle mail_env mail_to_human mail_ctx mail_store =
      (Ok ?o, snd (send_handle mail_env mail_to_human mail_ctx mail_store))" by (simp add: prod_eq_iff)
  have "session_rows 20 (fst mail_store) \<noteq> []" "session_of (fst mail_store) 20 \<noteq> None" "tx_session_id mail_ctx = 20"
    by code_simp+
  then have "\<exists>m ms. snapshot (tx_session_id mail_ctx) v (fst mail_store) = Ok (m # ms)" for v
    by (auto simp: snapshot_def neq_Nil_conv)
  with send_in_session_keeps_transcript [OF s] \<open>tx_session_id mail_ctx = 20\<close>
  have "session_messages (fst (snd (send_handle mail_env mail_to_human mail_ctx mail_store))) = session_messages (fst mail_store)"
    by simp
  moreover have "length (response_chunks (fst (snd (send_handle mail_env mail_to_human mail_ctx mail_store)))) = 1"
    by code_simp
  ultimately show ?thesis by blast
qed

definition mail_first :: store where
  "mail_first = snd (enqueue_for_agent mail_env mail_ctx 30 2 ''ping'' mail_tenancy
     (snd (receiver_session mail_env mail_ctx (Agent 2) mail_tenancy mail_store)))"

text \<open>Worker 8 has taken up the first message when the second one comes.\<close>

definition mail_taken :: db where
  "mail_taken = snd (claim_next_session queue_new 8 106 (fst mail_first))"

theorem repeated_message_is_swallowed_witness:
  "enqueue_for_agent (mail_env\<lparr>se_now := 900, se_new_request := 41\<rparr>) mail_ctx 30 2 ''ping'' mail_tenancy
     (mail_taken, snd mail_store) =
   (Ok \<lparr>so_session_id = 30, so_request_id = Some 40, so_delivery = ''queued''\<rparr>, (mail_taken, snd mail_store))"
proof -
  let ?out = "\<lparr>so_session_id = 30, so_request_id = Some 40, so_delivery = ''queued''\<rparr>"
  let ?w = "snd (receiver_session mail_env mail_ctx (Agent 2) mail_tenancy mail_store)"
  have inv: "queue_inv queue_new (fst ?w)" by code_simp
  have "fst (enqueue_for_agent mail_env mail_ctx 30 2 ''ping'' mail_tenancy ?w) = Ok ?out" by code_simp
  then have e: "enqueue_for_agent mail_env mail_ctx 30 2 ''ping'' mail_tenancy ?w = (Ok ?out, mail_first)"
    by (simp add: mail_first_def prod_eq_iff)
  have "map_option cs_session (case fst (claim_next_session queue_new 8 106 (fst mail_first)) of Ok c \<Rightarrow> c | _ \<Rightarrow> None) = Some 30"
    by code_simp
  then obtain c where "claim_next_session queue_new 8 106 (fst mail_first) = (Ok (Some c), mail_taken)"
    by (cases "claim_next_session queue_new 8 106 (fst mail_first)") (auto simp: mail_taken_def split: outcome.splits)
  then have run: "(queue_step queue_new)\<^sup>*\<^sup>* (fst mail_first) mail_taken"
    by (rule claim_run)
  have "(tx_acting_user_id mail_ctx, sten_org_id mail_tenancy) \<in> set (org_members mail_taken)" "tx_viewer mail_ctx \<noteq> Agent 2"
    by code_simp+
  then show ?thesis
    by (rule repeated_message_is_swallowed [OF inv e run]) simp
qed

end
