(* ===== verification/Memory_Types.thy ===== *)
theory Memory_Types
  imports Session_Store Schedule_Types
begin

text \<open>
  The data of the memory subsystem: \<open>src/memory/types.rs\<close>, \<open>src/memory/limits.rs\<close> and the types of
  \<open>src/memory/store.rs\<close>. A memory row carries its embedding as a value of a type parameter; what
  an embedding is and how two of them compare belongs to the provider and to pgvector.
\<close>

section \<open>Kinds, states, sources\<close>

type_synonym memory_id = nat
type_synonym memory_event_id = nat
type_synonym validation_event_id = nat

datatype memory_kind = Identity | OtherKind | Collaborator | Procedure | Open

fun memory_kind_str :: "memory_kind \<Rightarrow> string" where
  "memory_kind_str Identity = ''self''"
| "memory_kind_str OtherKind = ''other''"
| "memory_kind_str Collaborator = ''collaborator''"
| "memory_kind_str Procedure = ''procedure''"
| "memory_kind_str Open = ''open''"

fun display_label :: "memory_kind \<Rightarrow> string" where
  "display_label Identity = ''Self''"
| "display_label OtherKind = ''Other''"
| "display_label Collaborator = ''Collaborator''"
| "display_label Procedure = ''Procedure''"
| "display_label Open = ''Open''"

datatype memory_state = Core | Validated | Held | Tentative

fun memory_state_str :: "memory_state \<Rightarrow> string" where
  "memory_state_str Core = ''core''"
| "memory_state_str Validated = ''validated''"
| "memory_state_str Held = ''held''"
| "memory_state_str Tentative = ''tentative''"

fun priority :: "memory_state \<Rightarrow> nat" where
  "priority Core = 4"
| "priority Validated = 3"
| "priority Held = 2"
| "priority Tentative = 1"

datatype mutation_source = Turn prompt_request_id | Operator | Librarian

fun source_turn :: "mutation_source \<Rightarrow> prompt_request_id option" where
  "source_turn (Turn i) = Some i"
| "source_turn Operator = None"
| "source_turn Librarian = None"

definition bypasses_pin :: "mutation_source \<Rightarrow> bool" where
  "bypasses_pin s \<longleftrightarrow> s = Operator"

datatype mutation_kind = MWriteKind | MUpdateKind | MForgetKind

section \<open>Smart constructors\<close>

definition MEMORY_CONTENT_MAX_BYTES :: nat where
  "MEMORY_CONTENT_MAX_BYTES = 4096"

definition VALIDATION_EVIDENCE_MAX_BYTES :: nat where
  "VALIDATION_EVIDENCE_MAX_BYTES = 1024"

definition MAX_MEMORIES_PER_AGENT :: nat where
  "MAX_MEMORIES_PER_AGENT = 1024"

definition MAX_EVENTS_PER_PAGE :: nat where
  "MAX_EVENTS_PER_PAGE = 1024"

definition MAX_SIMILAR_PAIRS_PER_AGENT :: nat where
  "MAX_SIMILAR_PAIRS_PER_AGENT = 256"

definition memory_content_try_from :: "string \<Rightarrow> (parse_error, string) outcome" where
  "memory_content_try_from raw =
     (if trim raw = [] then Err (Empty ''memory_content'')
      else if MEMORY_CONTENT_MAX_BYTES < length raw
      then Err (TooLong ''memory_content'' MEMORY_CONTENT_MAX_BYTES (length raw))
      else Ok raw)"

definition memory_evidence_try_from :: "string \<Rightarrow> (parse_error, string) outcome" where
  "memory_evidence_try_from value =
     (if length value = 0 then Err (Empty ''memory_evidence'')
      else if VALIDATION_EVIDENCE_MAX_BYTES < length value
      then Err (TooLong ''memory_evidence'' VALIDATION_EVIDENCE_MAX_BYTES (length value))
      else Ok value)"

section \<open>Handles\<close>

text \<open>\<open>str::parse::<u32>\<close>: an optional \<open>+\<close>, then at least one digit and nothing else, without overflow.\<close>

fun digits_below :: "nat \<Rightarrow> nat \<Rightarrow> string \<Rightarrow> nat option" where
  "digits_below lim acc [] = Some acc"
| "digits_below lim acc (c # cs) =
     (case digit_value c of
        None \<Rightarrow> None
      | Some v \<Rightarrow> if acc * 10 + v < lim then digits_below lim (acc * 10 + v) cs else None)"

definition parse_u32 :: "string \<Rightarrow> nat option" where
  "parse_u32 s =
     (let body = (case s of CHR ''+'' # r \<Rightarrow> r | _ \<Rightarrow> s) in
      if body = [] then None else digits_below (2 ^ 32) 0 body)"

type_synonym memory_handle = nat

definition MEMORY_HANDLE_MAX :: nat where
  "MEMORY_HANDLE_MAX = 9999"

definition memory_handle_try_from :: "nat \<Rightarrow> (parse_error, memory_handle) outcome" where
  "memory_handle_try_from n =
     (if n = 0 \<or> MEMORY_HANDLE_MAX < n then Err (OutOfRange ''memory_handle'' ''1..=9999'') else Ok n)"

definition strip_prefix :: "string \<Rightarrow> string \<Rightarrow> string option" where
  "strip_prefix p s = (if take (length p) s = p then Some (drop (length p) s) else None)"

definition memory_handle_parse :: "string \<Rightarrow> (parse_error, memory_handle) outcome" where
  "memory_handle_parse raw =
     (case strip_prefix ''M-'' raw of
        None \<Rightarrow> Err (Malformed ''memory_handle'' ''expected `M-<n>` form'')
      | Some digits \<Rightarrow>
          (case parse_u32 digits of
             None \<Rightarrow> Err (Malformed ''memory_handle'' ''non-numeric handle suffix'')
           | Some n \<Rightarrow> memory_handle_try_from n))"

definition memory_handle_display :: "memory_handle \<Rightarrow> string" where
  "memory_handle_display h = ''M-'' @ show_nat h"

section \<open>Rows, events, mutations\<close>

record memory_row =
  mm_id :: memory_id
  mm_agent_id :: agent_id
  mm_org_id :: org_id
  mm_kind :: memory_kind
  mm_content :: string
  mm_state :: memory_state
  mm_pinned :: bool
  mm_source_turn_id :: "prompt_request_id option"
  mm_created_at :: instant
  mm_last_validated_at :: instant
  mm_last_accessed_at :: instant
  mm_access_count :: nat

datatype memory_event_payload =
    PWrite (pw_content: string) (pw_kind: memory_kind) (pw_state: memory_state) (pw_pinned: bool)
  | PUpdate (pu_before: string) (pu_after: string) (pu_kind: memory_kind) (pu_state: memory_state) (pu_pinned: bool)
  | PForget (pf_before: string)

fun payload_mutation :: "memory_event_payload \<Rightarrow> mutation_kind" where
  "payload_mutation (PWrite _ _ _ _) = MWriteKind"
| "payload_mutation (PUpdate _ _ _ _ _) = MUpdateKind"
| "payload_mutation (PForget _) = MForgetKind"

record memory_event =
  me_id :: memory_event_id
  me_agent_id :: agent_id
  me_org_id :: org_id
  me_target :: memory_id
  me_source :: mutation_source
  me_created_at :: instant
  me_payload :: memory_event_payload

datatype memory_mutation =
    MWrite agent_id memory_kind string memory_state bool mutation_source
  | MUpdate agent_id memory_id string memory_state mutation_source
  | MForget agent_id memory_id mutation_source

record mutation_outcome =
  mo_event_id :: memory_event_id
  mo_memory_id :: memory_id
  mo_row :: "memory_row option"

record contradiction_event_row =
  ce_id :: contradiction_event_id
  ce_agent_id :: agent_id
  ce_org_id :: org_id
  ce_memory_a :: memory_id
  ce_memory_b :: memory_id
  ce_reason :: string
  ce_created_at :: instant
  ce_resolved_at :: "instant option"
  ce_resolution_event_id :: "memory_event_id option"
  ce_resolution_reason :: "string option"

datatype resolution_outcome = Mutation memory_event_id | NoAction string

datatype validation_source = ExternalConfirmation | OperatorEndorsement

datatype validation_origin = AgentOrigin prompt_request_id | OperatorOrigin

fun origin_source :: "validation_origin \<Rightarrow> validation_source" where
  "origin_source (AgentOrigin _) = ExternalConfirmation"
| "origin_source OperatorOrigin = OperatorEndorsement"

fun origin_mutation_source :: "validation_origin \<Rightarrow> mutation_source" where
  "origin_mutation_source (AgentOrigin i) = Turn i"
| "origin_mutation_source OperatorOrigin = Operator"

record validation_event_row =
  ve_id :: validation_event_id
  ve_agent_id :: agent_id
  ve_org_id :: org_id
  ve_memory_id :: memory_id
  ve_source :: validation_source
  ve_detail :: "string option"
  ve_created_at :: instant

record search_filter =
  sf_kinds :: "memory_kind list option"
  sf_min_state :: "memory_state option"

datatype memory_store_error =
    MNotFound memory_id
  | EventNotFound memory_event_id
  | ContradictionNotFound contradiction_event_id
  | WrongAgent memory_id agent_id
  | PinnedImmutable memory_id
  | MParse parse_error
  | MDb string
  | MProvider string

end
