(* ===== verification/Memory_Store.thy ===== *)
theory Memory_Store
  imports Memory_Types Complex_Main
begin

text \<open>
  The Postgres memory store: \<open>src/memory/pg_store.rs\<close>. Every mutation appends an event to the journal
  \<open>memory_events\<close> and changes the materialized table \<open>agent_memories\<close> in the same transaction.

  The tables of the runtime are the field \<open>md_core\<close>; the store reads the organisation memberships
  and the prompt requests there, and the organisation of an agent from \<open>md_agent_orgs\<close>. Fresh
  identifiers and the clock are arguments, the embedding provider and the vector operator of
  pgvector are parameters (\<open>vec_ops\<close>); similarities are rationals, without \<open>NaN\<close>. The constraints
  of the schema that the statements can run into are branches that return a database error.
\<close>

section \<open>Tables\<close>

record 'v memory_trow =
  mt_row :: memory_row
  mt_embedding :: "'v option"

record 'v mem_db =
  md_core :: db
  md_agent_orgs :: "(agent_id \<times> org_id) list"
  agent_memories :: "'v memory_trow list"
  memory_events :: "memory_event list"
  contradiction_events :: "contradiction_event_row list"
  validation_events :: "validation_event_row list"

record 'v vec_ops =
  vo_embed :: "string \<Rightarrow> (string, 'v) outcome"
  vo_is_empty :: "'v \<Rightarrow> bool"
  vo_distance :: "'v \<Rightarrow> 'v \<Rightarrow> rat"
  vo_narrow :: "rat \<Rightarrow> rat"

type_synonym ('v, 'a) mem_result = "(memory_store_error, 'a) outcome \<times> 'v mem_db"

abbreviation mt_id :: "'v memory_trow \<Rightarrow> memory_id" where
  "mt_id t \<equiv> mm_id (mt_row t)"

definition mem_visible :: "scope \<Rightarrow> 'v mem_db \<Rightarrow> org_id \<Rightarrow> bool" where
  "mem_visible sc m org = visible sc (md_core m) org"

text \<open>\<open>SELECT org_id FROM agents WHERE id = $2\<close> under the scope's row level security.\<close>

definition agent_org :: "scope \<Rightarrow> 'v mem_db \<Rightarrow> agent_id \<Rightarrow> org_id option" where
  "agent_org sc m agent =
     (case map_of (md_agent_orgs m) agent of
        None \<Rightarrow> None
      | Some org \<Rightarrow> if mem_visible sc m org then Some org else None)"

definition update_memories ::
  "(memory_row \<Rightarrow> bool) \<Rightarrow> ('v memory_trow \<Rightarrow> 'v memory_trow) \<Rightarrow> 'v mem_db \<Rightarrow> 'v mem_db" where
  "update_memories P f m = m\<lparr>agent_memories := update_where (\<lambda>t. P (mt_row t)) f (agent_memories m)\<rparr>"

text \<open>\<open>DELETE FROM agent_memories\<close>; the validation events of a deleted row go with it.\<close>

definition delete_memories :: "(memory_row \<Rightarrow> bool) \<Rightarrow> 'v mem_db \<Rightarrow> 'v mem_db" where
  "delete_memories P m =
     (let gone = map mt_id (filter (\<lambda>t. P (mt_row t)) (agent_memories m)) in
      m\<lparr>agent_memories := delete_where (\<lambda>t. P (mt_row t)) (agent_memories m),
        validation_events := delete_where (\<lambda>v. ve_memory_id v \<in> set gone) (validation_events m)\<rparr>)"

section \<open>Decoding\<close>

definition decode_memory_row :: "'v memory_trow \<Rightarrow> (memory_store_error, memory_row) outcome" where
  "decode_memory_row t =
     and_then (map_err MParse (memory_content_try_from (mm_content (mt_row t)))) (\<lambda>_. Ok (mt_row t))"

fun payload_contents :: "memory_event_payload \<Rightarrow> string list" where
  "payload_contents (PWrite c _ _ _) = [c]"
| "payload_contents (PUpdate b a _ _ _) = [b, a]"
| "payload_contents (PForget b) = [b]"

fun decode_all :: "('r \<Rightarrow> ('e, 'a) outcome) \<Rightarrow> 'r list \<Rightarrow> ('e, 'a list) outcome" where
  "decode_all f [] = Ok []"
| "decode_all f (r # rs) = and_then (f r) (\<lambda>x. and_then (decode_all f rs) (\<lambda>xs. Ok (x # xs)))"

definition decode_memory_event :: "memory_event \<Rightarrow> (memory_store_error, memory_event) outcome" where
  "decode_memory_event e =
     and_then (decode_all (\<lambda>c. map_err MParse (memory_content_try_from c)) (payload_contents (me_payload e)))
       (\<lambda>_. Ok e)"

section \<open>The journal\<close>

text \<open>The label check on \<open>memory_events.kind\<close>, as the schema's migrations leave it.\<close>

fun events_kind_check :: "memory_event_payload \<Rightarrow> bool" where
  "events_kind_check (PWrite _ k _ _) = (k \<in> {Identity, OtherKind, Procedure, Open})"
| "events_kind_check (PUpdate _ _ k _ _) = (k \<in> {Identity, OtherKind, Procedure, Open})"
| "events_kind_check (PForget _) = True"

definition source_fk_ok :: "mutation_source \<Rightarrow> 'v mem_db \<Rightarrow> bool" where
  "source_fk_ok s m \<longleftrightarrow> (case source_turn s of None \<Rightarrow> True | Some i \<Rightarrow> i \<in> set (map pr_id (prompt_requests (md_core m))))"

definition insert_event ::
  "scope \<Rightarrow> memory_event_id \<Rightarrow> agent_id \<Rightarrow> memory_id \<Rightarrow> mutation_source \<Rightarrow> instant \<Rightarrow> memory_event_payload \<Rightarrow>
   'v mem_db \<Rightarrow> ('v, unit) mem_result" where
  "insert_event sc eid agent target source now payload m =
     (case agent_org sc m agent of
        None \<Rightarrow> (Err (MDb ''memory_events.agent_id references missing agent''), m)
      | Some org \<Rightarrow>
          if \<not> events_kind_check payload then (Err (MDb ''memory_events_kind_check''), m)
          else if \<not> source_fk_ok source m then (Err (MDb ''memory_events_source_turn_id_fkey''), m)
          else if eid \<in> set (map me_id (memory_events m)) then (Err (MDb ''memory_events_pkey''), m)
          else (Ok (), m\<lparr>memory_events := memory_events m @
                 [\<lparr>me_id = eid, me_agent_id = agent, me_org_id = org, me_target = target, me_source = source,
                   me_created_at = now, me_payload = payload\<rparr>]\<rparr>))"

definition lock_existing ::
  "scope \<Rightarrow> agent_id \<Rightarrow> memory_id \<Rightarrow> mutation_source \<Rightarrow> 'v mem_db \<Rightarrow> (memory_store_error, memory_row) outcome" where
  "lock_existing sc agent target source m =
     (case find (\<lambda>t. mt_id t = target \<and> mem_visible sc m (mm_org_id (mt_row t))) (agent_memories m) of
        None \<Rightarrow> Err (MNotFound target)
      | Some t \<Rightarrow> and_then (decode_memory_row t)
          (\<lambda>r. if mm_agent_id r \<noteq> agent then Err (WrongAgent target agent)
                else if mm_pinned r \<and> \<not> bypasses_pin source then Err (PinnedImmutable target)
                else Ok r))"

text \<open>A statement that returns the one row with an id.\<close>

definition returning ::
  "scope \<Rightarrow> memory_id \<Rightarrow> 'v mem_db \<Rightarrow> (memory_store_error, memory_row) outcome" where
  "returning sc target m =
     (case find (\<lambda>t. mt_id t = target \<and> mem_visible sc m (mm_org_id (mt_row t))) (agent_memories m) of
        None \<Rightarrow> Err (MDb ''no rows returned'')
      | Some t \<Rightarrow> decode_memory_row t)"

definition new_row ::
  "memory_id \<Rightarrow> agent_id \<Rightarrow> org_id \<Rightarrow> memory_kind \<Rightarrow> string \<Rightarrow> memory_state \<Rightarrow> bool \<Rightarrow> prompt_request_id option \<Rightarrow>
   instant \<Rightarrow> 'v option \<Rightarrow> 'v memory_trow" where
  "new_row i agent org mk content state pinned turn now emb =
     \<lparr>mt_row = \<lparr>mm_id = i, mm_agent_id = agent, mm_org_id = org, mm_kind = mk, mm_content = content, mm_state = state,
        mm_pinned = pinned, mm_source_turn_id = turn, mm_created_at = now, mm_last_validated_at = now,
        mm_last_accessed_at = now, mm_access_count = 0\<rparr>, mt_embedding = emb\<rparr>"

definition insert_memory ::
  "scope \<Rightarrow> memory_id \<Rightarrow> agent_id \<Rightarrow> memory_kind \<Rightarrow> string \<Rightarrow> memory_state \<Rightarrow> bool \<Rightarrow> mutation_source \<Rightarrow>
   instant \<Rightarrow> 'v option \<Rightarrow> 'v mem_db \<Rightarrow> ('v, unit) mem_result" where
  "insert_memory sc i agent mk content state pinned source now emb m =
     (case agent_org sc m agent of
        None \<Rightarrow> (Err (MDb ''agent_memories.agent_id references missing agent''), m)
      | Some org \<Rightarrow>
          if \<not> source_fk_ok source m then (Err (MDb ''agent_memories_source_turn_id_fkey''), m)
          else if i \<in> set (map mt_id (agent_memories m)) then (Err (MDb ''agent_memories_pkey''), m)
          else (Ok (), m\<lparr>agent_memories := agent_memories m @
                 [new_row i agent org mk content state pinned (source_turn source) now emb]\<rparr>))"

section \<open>Mutations\<close>

definition apply_write where
  "apply_write sc agent mk content state pinned source emb now mid eid m =
     tx_bind (insert_event sc eid agent mid source now (PWrite content mk state pinned) m) (\<lambda>_ m1.
     tx_bind (insert_memory sc mid agent mk content state pinned source now (Some emb) m1) (\<lambda>_ m2.
     tx_bind (returning sc mid m2, m2) (\<lambda>r m3.
       (Ok \<lparr>mo_event_id = eid, mo_memory_id = mid, mo_row = Some r\<rparr>, m3))))"

definition set_content :: "string \<Rightarrow> memory_state \<Rightarrow> 'v memory_trow \<Rightarrow> 'v memory_trow" where
  "set_content content state t = t\<lparr>mt_row := (mt_row t)\<lparr>mm_content := content, mm_state := state\<rparr>\<rparr>"

definition apply_update where
  "apply_update sc agent target content state source emb now eid m =
     tx_bind (lock_existing sc agent target source m, m) (\<lambda>prior m1.
     tx_bind (insert_event sc eid agent target source now
                (PUpdate (mm_content prior) content (mm_kind prior) state (mm_pinned prior)) m1) (\<lambda>_ m2.
     let m3 = update_memories (\<lambda>r. mm_id r = target)
                (\<lambda>t. (set_content content state t)\<lparr>mt_embedding := Some emb\<rparr>) m2 in
     tx_bind (returning sc target m3, m3) (\<lambda>r m4.
       (Ok \<lparr>mo_event_id = eid, mo_memory_id = target, mo_row = Some r\<rparr>, m4))))"

definition apply_forget where
  "apply_forget sc agent target source now eid m =
     tx_bind (lock_existing sc agent target source m, m) (\<lambda>prior m1.
     tx_bind (insert_event sc eid agent target source now (PForget (mm_content prior)) m1) (\<lambda>_ m2.
       (Ok \<lparr>mo_event_id = eid, mo_memory_id = target, mo_row = None\<rparr>,
        delete_memories (\<lambda>r. mm_id r = target) m2)))"

fun embed_for_mutation :: "'v vec_ops \<Rightarrow> memory_mutation \<Rightarrow> (memory_store_error, 'v option) outcome" where
  "embed_for_mutation vo (MWrite _ _ content _ _ _) = and_then (map_err MProvider (vo_embed vo content)) (\<lambda>v. Ok (Some v))"
| "embed_for_mutation vo (MUpdate _ _ content _ _) = and_then (map_err MProvider (vo_embed vo content)) (\<lambda>v. Ok (Some v))"
| "embed_for_mutation vo (MForget _ _ _) = Ok None"

fun apply_in_tx ::
  "scope \<Rightarrow> memory_mutation \<Rightarrow> 'v option \<Rightarrow> instant \<Rightarrow> memory_id \<Rightarrow> memory_event_id \<Rightarrow> 'v mem_db \<Rightarrow>
   ('v, mutation_outcome) mem_result" where
  "apply_in_tx sc (MWrite agent mk content state pinned source) emb now mid eid m =
     (case emb of
        None \<Rightarrow> (Panic ''invariant: Write produced an embedding above'', m)
      | Some v \<Rightarrow> apply_write sc agent mk content state pinned source v now mid eid m)"
| "apply_in_tx sc (MUpdate agent target content state source) emb now mid eid m =
     (case emb of
        None \<Rightarrow> (Panic ''invariant: Update produced an embedding above'', m)
      | Some v \<Rightarrow> apply_update sc agent target content state source v now eid m)"
| "apply_in_tx sc (MForget agent target source) emb now mid eid m = apply_forget sc agent target source now eid m"

definition apply_scoped where
  "apply_scoped vo sc mutation now mid eid m =
     tx_bind (embed_for_mutation vo mutation, m) (\<lambda>emb. run_tx (apply_in_tx sc mutation emb now mid eid))"

definition mem_apply where
  "mem_apply vo mutation now mid eid m = apply_scoped vo Privileged mutation now mid eid m"

definition apply_for_user where
  "apply_for_user vo u mutation now mid eid m = apply_scoped vo (AsUser u) mutation now mid eid m"

section \<open>Reading\<close>

definition list_memories :: "agent_id \<Rightarrow> 'v mem_db \<Rightarrow> (memory_store_error, memory_row list) outcome" where
  "list_memories agent m =
     (let rows = take (MAX_MEMORIES_PER_AGENT + 1)
                   (sort_key (\<lambda>t. mm_created_at (mt_row t)) (sort_key mt_id
                      (filter (\<lambda>t. mm_agent_id (mt_row t) = agent) (agent_memories m)))) in
      if MAX_MEMORIES_PER_AGENT < length rows then Panic ''invariant: per-agent memory cap overshot''
      else decode_all decode_memory_row rows)"

definition get_memory :: "memory_id \<Rightarrow> 'v mem_db \<Rightarrow> (memory_store_error, memory_row option) outcome" where
  "get_memory i m =
     (case find (\<lambda>t. mt_id t = i) (agent_memories m) of
        None \<Rightarrow> Ok None
      | Some t \<Rightarrow> and_then (decode_memory_row t) (\<lambda>r. Ok (Some r)))"

text \<open>\<open>ORDER BY created_at ASC, id ASC\<close>.\<close>

definition journal :: "agent_id \<Rightarrow> 'v mem_db \<Rightarrow> memory_event list" where
  "journal agent m =
     sort_key me_created_at (sort_key me_id (filter (\<lambda>e. me_agent_id e = agent) (memory_events m)))"

definition list_events :: "agent_id \<Rightarrow> 'v mem_db \<Rightarrow> (memory_store_error, memory_event list) outcome" where
  "list_events agent m = decode_all decode_memory_event (take MAX_EVENTS_PER_PAGE (journal agent m))"

definition search_by_embedding ::
  "'v vec_ops \<Rightarrow> agent_id \<Rightarrow> 'v \<Rightarrow> nat \<Rightarrow> search_filter \<Rightarrow> 'v mem_db \<Rightarrow>
   (memory_store_error, (memory_row \<times> rat) list) outcome" where
  "search_by_embedding vo agent query k sf m =
     (if vo_is_empty vo query \<or> k = 0 then Ok []
      else let kinds = (case sf_kinds sf of None \<Rightarrow> [] | Some ks \<Rightarrow> ks);
               hit = (\<lambda>t. mm_agent_id (mt_row t) = agent \<and> mt_embedding t \<noteq> None \<and>
                       (kinds = [] \<or> mm_kind (mt_row t) \<in> set kinds) \<and>
                       (case sf_min_state sf of None \<Rightarrow> True | Some st \<Rightarrow> priority st \<le> priority (mm_state (mt_row t))));
               dist = (\<lambda>t. vo_distance vo (the (mt_embedding t)) query) in
        decode_all (\<lambda>t. if \<bar>1 - dist t\<bar> \<le> 2 then and_then (decode_memory_row t) (\<lambda>r. Ok (r, vo_narrow vo (1 - dist t)))
                        else Panic ''invariant: cosine similarity in [-1, 1]'')
          (take (min k MAX_MEMORIES_PER_AGENT) (sort_key dist (filter hit (agent_memories m)))))"

record pair_candidate =
  pc_a :: memory_row
  pc_b :: memory_row
  pc_similarity :: rat

definition similar_pairs ::
  "'v vec_ops \<Rightarrow> agent_id \<Rightarrow> rat \<Rightarrow> nat \<Rightarrow> 'v mem_db \<Rightarrow> (memory_store_error, pair_candidate list) outcome" where
  "similar_pairs vo agent threshold max_pairs m =
     (let base = filter (\<lambda>t. mm_agent_id (mt_row t) = agent \<and> mt_embedding t \<noteq> None) (agent_memories m);
          sim = (\<lambda>(a, b). 1 - vo_distance vo (the (mt_embedding a)) (the (mt_embedding b)));
          joined = filter (\<lambda>(a, b). mt_id a < mt_id b \<and> threshold \<le> sim (a, b)) (List.product base base) in
      decode_all (\<lambda>(a, b). and_then (decode_memory_row a) (\<lambda>ra. and_then (decode_memory_row b) (\<lambda>rb.
            if \<bar>sim (a, b)\<bar> \<le> 2 then Ok \<lparr>pc_a = ra, pc_b = rb, pc_similarity = vo_narrow vo (sim (a, b))\<rparr>
            else Panic ''invariant: cosine similarity in [-1, 1]'')))
        (take (min max_pairs MAX_SIMILAR_PAIRS_PER_AGENT) (sort_key (\<lambda>p. - sim p) joined)))"

section \<open>Replay\<close>

definition apply_replay :: "agent_id \<Rightarrow> memory_event \<Rightarrow> 'v mem_db \<Rightarrow> ('v, unit) mem_result" where
  "apply_replay agent e m =
     (case me_payload e of
        PWrite content mk state pinned \<Rightarrow>
          insert_memory Privileged (me_target e) agent mk content state pinned (me_source e) (me_created_at e) None m
      | PUpdate _ after _ state pinned \<Rightarrow>
          (Ok (), update_memories (\<lambda>r. mm_id r = me_target e)
             (\<lambda>t. t\<lparr>mt_row := (mt_row t)\<lparr>mm_content := after, mm_state := state, mm_pinned := pinned\<rparr>\<rparr>) m)
      | PForget _ \<Rightarrow> (Ok (), delete_memories (\<lambda>r. mm_id r = me_target e) m))"

fun replay_all :: "agent_id \<Rightarrow> memory_event list \<Rightarrow> 'v mem_db \<Rightarrow> ('v, unit) mem_result" where
  "replay_all agent [] m = (Ok (), m)"
| "replay_all agent (e # es) m =
     tx_bind (decode_memory_event e, m) (\<lambda>ev m1.
     tx_bind (apply_replay agent ev m1) (\<lambda>_. replay_all agent es))"

definition restore_embeddings :: "(memory_id \<times> 'v) list \<Rightarrow> 'v mem_db \<Rightarrow> 'v mem_db" where
  "restore_embeddings snap m =
     fold (\<lambda>(i, v). update_memories (\<lambda>r. mm_id r = i) (\<lambda>t. t\<lparr>mt_embedding := Some v\<rparr>)) snap m"

definition embedding_snapshot :: "agent_id \<Rightarrow> 'v mem_db \<Rightarrow> (memory_id \<times> 'v) list" where
  "embedding_snapshot agent m =
     map (\<lambda>t. (mt_id t, the (mt_embedding t)))
       (filter (\<lambda>t. mm_agent_id (mt_row t) = agent \<and> mt_embedding t \<noteq> None) (agent_memories m))"

definition rebuild_materialized :: "agent_id \<Rightarrow> 'v mem_db \<Rightarrow> ('v, unit) mem_result" where
  "rebuild_materialized agent =
     run_tx (\<lambda>m.
       let snap = embedding_snapshot agent m;
           m1 = delete_memories (\<lambda>r. mm_agent_id r = agent) m in
       tx_bind (replay_all agent (journal agent m1) m1) (\<lambda>_ m2. (Ok (), restore_embeddings snap m2)))"

section \<open>Lifecycle sweeps\<close>

definition set_state :: "memory_state \<Rightarrow> 'v memory_trow \<Rightarrow> 'v memory_trow" where
  "set_state st t = t\<lparr>mt_row := (mt_row t)\<lparr>mm_state := st\<rparr>\<rparr>"

text \<open>The loop of \<open>decay_validated\<close> and \<open>mature_tentative\<close>: journal and set \<open>held\<close>.\<close>

fun hold_rows ::
  "(nat \<Rightarrow> memory_event_id) \<Rightarrow> instant \<Rightarrow> 'v memory_trow list \<Rightarrow> nat \<Rightarrow> 'v mem_db \<Rightarrow> ('v, nat) mem_result" where
  "hold_rows fresh now [] n m = (Ok n, m)"
| "hold_rows fresh now (t # ts) n m =
     tx_bind (decode_memory_row t, m) (\<lambda>r m1.
     tx_bind (insert_event Privileged (fresh n) (mm_agent_id r) (mm_id r) Librarian now
                (PUpdate (mm_content r) (mm_content r) (mm_kind r) Held (mm_pinned r)) m1) (\<lambda>_ m2.
       hold_rows fresh now ts (n + 1) (update_memories (\<lambda>q. mm_id q = mm_id r) (set_state Held) m2)))"

definition decayed :: "agent_id \<Rightarrow> instant \<Rightarrow> memory_row \<Rightarrow> bool" where
  "decayed agent cutoff r \<longleftrightarrow> mm_agent_id r = agent \<and> mm_state r = Validated \<and> \<not> mm_pinned r \<and> mm_last_validated_at r < cutoff"

definition decay_validated :: "agent_id \<Rightarrow> instant \<Rightarrow> instant \<Rightarrow> (nat \<Rightarrow> memory_event_id) \<Rightarrow> 'v mem_db \<Rightarrow> ('v, nat) mem_result" where
  "decay_validated agent cutoff now fresh =
     run_tx (\<lambda>m. hold_rows fresh now (filter (\<lambda>t. decayed agent cutoff (mt_row t)) (agent_memories m)) 0 m)"

definition contradicted :: "'v mem_db \<Rightarrow> memory_id \<Rightarrow> bool" where
  "contradicted m i \<longleftrightarrow>
     (\<exists>c \<in> set (contradiction_events m). ce_resolved_at c = None \<and> (ce_memory_a c = i \<or> ce_memory_b c = i))"

definition matured :: "'v mem_db \<Rightarrow> agent_id \<Rightarrow> instant \<Rightarrow> memory_row \<Rightarrow> bool" where
  "matured m agent cutoff r \<longleftrightarrow> mm_agent_id r = agent \<and> mm_state r = Tentative \<and> \<not> mm_pinned r \<and>
     mm_created_at r < cutoff \<and> \<not> contradicted m (mm_id r)"

definition mature_tentative :: "agent_id \<Rightarrow> instant \<Rightarrow> instant \<Rightarrow> (nat \<Rightarrow> memory_event_id) \<Rightarrow> 'v mem_db \<Rightarrow> ('v, nat) mem_result" where
  "mature_tentative agent cutoff now fresh =
     run_tx (\<lambda>m. hold_rows fresh now (filter (\<lambda>t. matured m agent cutoff (mt_row t)) (agent_memories m)) 0 m)"

fun evict_rows ::
  "(nat \<Rightarrow> memory_event_id) \<Rightarrow> agent_id \<Rightarrow> instant \<Rightarrow> 'v memory_trow list \<Rightarrow> nat \<Rightarrow> 'v mem_db \<Rightarrow>
   ('v, memory_id list) mem_result" where
  "evict_rows fresh agent now [] n m = (Ok [], m)"
| "evict_rows fresh agent now (t # ts) n m =
     tx_bind (decode_memory_row t, m) (\<lambda>r m1.
     tx_bind (insert_event Privileged (fresh n) agent (mm_id r) Librarian now (PForget (mm_content r)) m1) (\<lambda>_ m2.
     tx_bind (evict_rows fresh agent now ts (n + 1) (delete_memories (\<lambda>q. mm_id q = mm_id r) m2)) (\<lambda>is m3.
       (Ok (mm_id r # is), m3))))"

text \<open>\<open>ORDER BY state rank, last_accessed_at, access_count\<close> as stable sorts, last key first.\<close>

definition eviction_order :: "'v memory_trow list \<Rightarrow> 'v memory_trow list" where
  "eviction_order ts =
     sort_key (\<lambda>t. priority (mm_state (mt_row t)))
       (sort_key (\<lambda>t. mm_last_accessed_at (mt_row t)) (sort_key (\<lambda>t. mm_access_count (mt_row t)) ts))"

definition evict_overflow ::
  "agent_id \<Rightarrow> nat \<Rightarrow> instant \<Rightarrow> (nat \<Rightarrow> memory_event_id) \<Rightarrow> 'v mem_db \<Rightarrow> ('v, memory_id list) mem_result" where
  "evict_overflow agent quota now fresh =
     run_tx (\<lambda>m.
       let total = length (filter (\<lambda>t. mm_agent_id (mt_row t) = agent) (agent_memories m)) in
       if total \<le> quota then (Ok [], m)
       else evict_rows fresh agent now
              (take (total - quota)
                 (eviction_order (filter (\<lambda>t. mm_agent_id (mt_row t) = agent \<and> \<not> mm_pinned (mt_row t)) (agent_memories m))))
              0 m)"

section \<open>Validation and access\<close>

fun validated_state :: "memory_state \<Rightarrow> memory_state" where
  "validated_state Tentative = Held"
| "validated_state Held = Validated"
| "validated_state Validated = Validated"
| "validated_state Core = Core"

definition detail_check :: "string option \<Rightarrow> bool" where
  "detail_check det \<longleftrightarrow> (case det of None \<Rightarrow> True | Some s \<Rightarrow> 1 \<le> length s \<and> length s \<le> 1024)"

definition insert_validation where
  "insert_validation sc vid agent memory src det now m =
     (case agent_org sc m agent of
        None \<Rightarrow> (Err (MDb ''validation_events.agent_id references missing agent''), m)
      | Some org \<Rightarrow>
          if \<not> detail_check det then (Err (MDb ''validation_events_detail_check''), m)
          else if vid \<in> set (map ve_id (validation_events m)) then (Err (MDb ''validation_events_pkey''), m)
          else (Ok (), m\<lparr>validation_events := validation_events m @
                 [\<lparr>ve_id = vid, ve_agent_id = agent, ve_org_id = org, ve_memory_id = memory, ve_source = src,
                   ve_detail = det, ve_created_at = now\<rparr>]\<rparr>))"

definition record_validation_in_tx where
  "record_validation_in_tx sc agent memory origin det now vid eid m =
     (let src = origin_mutation_source origin in
      tx_bind (lock_existing sc agent memory src m, m) (\<lambda>prior m1.
      tx_bind (insert_validation sc vid agent memory (origin_source origin) det now m1) (\<lambda>_ m2.
      let st = validated_state (mm_state prior) in
      tx_bind (insert_event sc eid agent memory src now
                 (PUpdate (mm_content prior) (mm_content prior) (mm_kind prior) st (mm_pinned prior)) m2) (\<lambda>_ m3.
      let m4 = update_memories (\<lambda>r. mm_id r = memory)
                 (\<lambda>t. t\<lparr>mt_row := (mt_row t)\<lparr>mm_state := st, mm_last_validated_at := now\<rparr>\<rparr>) m3 in
      (returning sc memory m4, m4)))))"

definition record_validation where
  "record_validation agent memory origin det now vid eid =
     run_tx (record_validation_in_tx Privileged agent memory origin det now vid eid)"

definition record_validation_for_user where
  "record_validation_for_user u agent memory origin det now vid eid =
     run_tx (record_validation_in_tx (AsUser u) agent memory origin det now vid eid)"

definition record_access_in_tx :: "scope \<Rightarrow> memory_id list \<Rightarrow> instant \<Rightarrow> 'v mem_db \<Rightarrow> ('v, unit) mem_result" where
  "record_access_in_tx sc ids now m =
     (let hit = (\<lambda>r. mm_id r \<in> set ids \<and> mem_visible sc m (mm_org_id r)) in
      if ids = [] then (Ok (), m)
      else if MAX_MEMORIES_PER_AGENT < length ids then (Panic ''invariant: record_access batch'', m)
      else if (\<exists>t \<in> set (agent_memories m). hit (mt_row t) \<and> i64_max \<le> mm_access_count (mt_row t))
      then (Err (MDb ''bigint out of range''), m)
      else (Ok (), update_memories hit
              (\<lambda>t. t\<lparr>mt_row := (mt_row t)\<lparr>mm_last_accessed_at := now, mm_access_count := mm_access_count (mt_row t) + 1\<rparr>\<rparr>) m))"

definition record_access where
  "record_access ids now = run_tx (record_access_in_tx Privileged ids now)"

definition record_access_for_user where
  "record_access_for_user u ids now = run_tx (record_access_in_tx (AsUser u) ids now)"

section \<open>Contradictions\<close>

definition reason_check :: "string \<Rightarrow> bool" where
  "reason_check s \<longleftrightarrow> 1 \<le> length s \<and> length s \<le> 1024"

definition record_contradiction ::
  "agent_id \<Rightarrow> memory_id \<Rightarrow> memory_id \<Rightarrow> string \<Rightarrow> instant \<Rightarrow> contradiction_event_id \<Rightarrow> 'v mem_db \<Rightarrow>
   ('v, contradiction_event_id) mem_result" where
  "record_contradiction agent a b reason now cid =
     run_tx (\<lambda>m.
       let (lo, hi) = (if a < b then (a, b) else (b, a));
           open_rows = filter (\<lambda>c. ce_agent_id c = agent \<and> ce_memory_a c = lo \<and> ce_memory_b c = hi \<and>
                                  ce_resolved_at c = None) (contradiction_events m) in
       case first_min (\<lambda>c. - ce_created_at c) open_rows of
         Some c \<Rightarrow> (Ok (ce_id c), m)
       | None \<Rightarrow>
           (case agent_org Privileged m agent of
              None \<Rightarrow> (Err (MDb ''contradiction_events.agent_id references missing agent''), m)
            | Some org \<Rightarrow>
                if \<not> reason_check reason then (Err (MDb ''contradiction_events_reason_check''), m)
                else if lo = hi then (Err (MDb ''contradiction_events_distinct''), m)
                else if cid \<in> set (map ce_id (contradiction_events m)) then (Err (MDb ''contradiction_events_pkey''), m)
                else (Ok cid, m\<lparr>contradiction_events := contradiction_events m @
                       [\<lparr>ce_id = cid, ce_agent_id = agent, ce_org_id = org, ce_memory_a = lo, ce_memory_b = hi,
                         ce_reason = reason, ce_created_at = now, ce_resolved_at = None,
                         ce_resolution_event_id = None, ce_resolution_reason = None\<rparr>]\<rparr>)))"

definition unresolved_contradictions :: "agent_id \<Rightarrow> 'v mem_db \<Rightarrow> contradiction_event_row list" where
  "unresolved_contradictions agent m =
     take MAX_SIMILAR_PAIRS_PER_AGENT
       (sort_key ce_created_at
          (filter (\<lambda>c. ce_agent_id c = agent \<and> ce_resolved_at c = None) (contradiction_events m)))"

definition read_contradiction :: "contradiction_event_id \<Rightarrow> 'v mem_db \<Rightarrow> contradiction_event_row option" where
  "read_contradiction i m = find (\<lambda>c. ce_id c = i) (contradiction_events m)"

definition resolution_columns_ok :: "'v mem_db \<Rightarrow> memory_event_id option \<Rightarrow> string option \<Rightarrow> bool" where
  "resolution_columns_ok m ev reason \<longleftrightarrow>
     (case ev of None \<Rightarrow> True | Some e \<Rightarrow> e \<in> set (map me_id (memory_events m))) \<and>
     (case reason of None \<Rightarrow> True | Some s \<Rightarrow> reason_check s)"

definition resolve_contradiction_in_tx ::
  "scope \<Rightarrow> contradiction_event_id \<Rightarrow> resolution_outcome \<Rightarrow> instant \<Rightarrow> 'v mem_db \<Rightarrow> ('v, unit) mem_result" where
  "resolve_contradiction_in_tx sc i outc now m =
     (let (ev, reason) = (case outc of Mutation e \<Rightarrow> (Some e, None) | NoAction s \<Rightarrow> (None, Some s));
          seen = (\<lambda>c. ce_id c = i \<and> mem_visible sc m (ce_org_id c));
          hit = (\<lambda>c. seen c \<and> ce_resolved_at c = None) in
      if rows_affected hit (contradiction_events m) = 0
      then (if (\<exists>c \<in> set (contradiction_events m). seen c) then (Ok (), m) else (Err (ContradictionNotFound i), m))
      else if \<not> resolution_columns_ok m ev reason then (Err (MDb ''contradiction_events constraint''), m)
      else (Ok (), m\<lparr>contradiction_events := update_where hit
              (\<lambda>c. c\<lparr>ce_resolved_at := Some now, ce_resolution_event_id := ev, ce_resolution_reason := reason\<rparr>)
              (contradiction_events m)\<rparr>))"

definition resolve_contradiction where
  "resolve_contradiction i outc now = run_tx (resolve_contradiction_in_tx Privileged i outc now)"

definition resolve_contradiction_for_user where
  "resolve_contradiction_for_user u i outc now = run_tx (resolve_contradiction_in_tx (AsUser u) i outc now)"

section \<open>Operator: revert and pin\<close>

definition load_event :: "agent_id \<Rightarrow> memory_event_id \<Rightarrow> 'v mem_db \<Rightarrow> (memory_store_error, memory_event) outcome" where
  "load_event agent eid m =
     (case find (\<lambda>e. me_id e = eid \<and> me_agent_id e = agent) (memory_events m) of
        None \<Rightarrow> Err (EventNotFound eid)
      | Some e \<Rightarrow> decode_memory_event e)"

definition revert_write where
  "revert_write agent target inv_id now m =
     tx_bind (lock_existing Privileged agent target Operator m, m) (\<lambda>prior m1.
     tx_bind (insert_event Privileged inv_id agent target Operator now (PForget (mm_content prior)) m1) (\<lambda>_ m2.
       (Ok (), delete_memories (\<lambda>r. mm_id r = target) m2)))"

definition revert_update where
  "revert_update agent target inv_id now bef mk state pinned m =
     tx_bind (lock_existing Privileged agent target Operator m, m) (\<lambda>prior m1.
     tx_bind (insert_event Privileged inv_id agent target Operator now
                (PUpdate (mm_content prior) bef mk state pinned) m1) (\<lambda>_ m2.
       (Ok (), update_memories (\<lambda>r. mm_id r = target)
          (\<lambda>t. t\<lparr>mt_row := (mt_row t)\<lparr>mm_content := bef, mm_state := state, mm_pinned := pinned\<rparr>\<rparr>) m2)))"

fun payload_attrs :: "memory_event_payload \<Rightarrow> (memory_kind \<times> memory_state \<times> bool) option" where
  "payload_attrs (PWrite _ k st p) = Some (k, st, p)"
| "payload_attrs (PUpdate _ _ k st p) = Some (k, st, p)"
| "payload_attrs (PForget _) = None"

text \<open>\<open>ORDER BY created_at DESC, id DESC LIMIT 1\<close>.\<close>

definition restore_attrs_for ::
  "agent_id \<Rightarrow> memory_id \<Rightarrow> 'v mem_db \<Rightarrow> (memory_store_error, memory_kind \<times> memory_state \<times> bool) outcome" where
  "restore_attrs_for agent target m =
     (case rev (filter (\<lambda>e. me_target e = target \<and> payload_attrs (me_payload e) \<noteq> None) (journal agent m)) of
        [] \<Rightarrow> Err (MNotFound target)
      | e # _ \<Rightarrow> Ok (the (payload_attrs (me_payload e))))"

definition revert_forget where
  "revert_forget agent target inv_id now bef m =
     tx_bind (restore_attrs_for agent target m, m) (\<lambda>(mk, state, pinned) m1.
     tx_bind (insert_event Privileged inv_id agent target Operator now (PWrite bef mk state pinned) m1) (\<lambda>_ m2.
       if target \<in> set (map mt_id (agent_memories m2)) then (Ok (), m2)
       else insert_memory Privileged target agent mk bef state pinned Operator now None m2))"

definition revert_in_tx where
  "revert_in_tx agent e inv_id now m =
     (case me_payload e of
        PWrite _ _ _ _ \<Rightarrow> revert_write agent (me_target e) inv_id now m
      | PUpdate bef _ mk state pinned \<Rightarrow> revert_update agent (me_target e) inv_id now bef mk state pinned m
      | PForget bef \<Rightarrow> revert_forget agent (me_target e) inv_id now bef m)"

definition revert_event ::
  "agent_id \<Rightarrow> memory_event_id \<Rightarrow> memory_event_id \<Rightarrow> instant \<Rightarrow> 'v mem_db \<Rightarrow> ('v, memory_row option) mem_result" where
  "revert_event agent eid inv_id now m =
     tx_bind (run_tx (\<lambda>m. tx_bind (load_event agent eid m, m) (\<lambda>e m1.
                tx_bind (revert_in_tx agent e inv_id now m1) (\<lambda>_ m2. (Ok (me_target e), m2)))) m)
       (\<lambda>target m3. (get_memory target m3, m3))"

definition set_pinned ::
  "agent_id \<Rightarrow> memory_id \<Rightarrow> bool \<Rightarrow> memory_event_id \<Rightarrow> instant \<Rightarrow> 'v mem_db \<Rightarrow> ('v, memory_row) mem_result" where
  "set_pinned agent memory pinned eid now m =
     tx_bind (run_tx (\<lambda>m. tx_bind (lock_existing Privileged agent memory Operator m, m) (\<lambda>prior m1.
        tx_bind (insert_event Privileged eid agent memory Operator now
                   (PUpdate (mm_content prior) (mm_content prior) (mm_kind prior) (mm_state prior) pinned) m1) (\<lambda>_ m2.
          (Ok (), update_memories (\<lambda>r. mm_id r = memory)
             (\<lambda>t. t\<lparr>mt_row := (mt_row t)\<lparr>mm_pinned := pinned\<rparr>\<rparr>) m2)))) m)
       (\<lambda>_ m3. (returning Privileged memory m3, m3))"

end
