(* ===== verification/Memory_Journal.thy ===== *)
theory Memory_Journal
  imports Memory_Store Relay_Systems "HOL-Library.Multiset"
begin

text \<open>
  The journal is the source of truth: the materialized table is a projection of the event log.
  The abstract store is the log alone; \<open>projected\<close> folds the events of one memory into what its
  row shows. Every operation of \<open>Memory_Store\<close> refines appending events to the log, so in every
  reachable state the table shows the projection and a rebuild reproduces it.
\<close>

section \<open>The abstract store\<close>

text \<open>What a row shows, without its clocks and its access counter.\<close>

record memory_view =
  vw_agent :: agent_id
  vw_org :: org_id
  vw_kind :: memory_kind
  vw_content :: string
  vw_state :: memory_state
  vw_pinned :: bool
  vw_turn :: "prompt_request_id option"
  vw_created_at :: instant

definition row_view :: "memory_row \<Rightarrow> memory_view" where
  "row_view r = \<lparr>vw_agent = mm_agent_id r, vw_org = mm_org_id r, vw_kind = mm_kind r, vw_content = mm_content r,
     vw_state = mm_state r, vw_pinned = mm_pinned r, vw_turn = mm_source_turn_id r, vw_created_at = mm_created_at r\<rparr>"

fun effect_on :: "memory_event \<Rightarrow> memory_event_payload \<Rightarrow> memory_view option \<Rightarrow> memory_view option" where
  "effect_on e (PWrite c k st p) v =
     Some \<lparr>vw_agent = me_agent_id e, vw_org = me_org_id e, vw_kind = k, vw_content = c, vw_state = st, vw_pinned = p,
       vw_turn = source_turn (me_source e), vw_created_at = me_created_at e\<rparr>"
| "effect_on e (PUpdate _ a _ st p) v = map_option (\<lambda>w. w\<lparr>vw_content := a, vw_state := st, vw_pinned := p\<rparr>) v"
| "effect_on e (PForget _) v = None"

definition effect :: "memory_event \<Rightarrow> memory_view option \<Rightarrow> memory_view option" where
  "effect e v = effect_on e (me_payload e) v"

abbreviation events_on :: "memory_id \<Rightarrow> memory_event list \<Rightarrow> memory_event list" where
  "events_on i es \<equiv> filter (\<lambda>e. me_target e = i) es"

definition projected :: "memory_event list \<Rightarrow> memory_id \<Rightarrow> memory_view option" where
  "projected es i = fold effect (events_on i es) None"

definition view_of :: "'v mem_db \<Rightarrow> memory_id \<Rightarrow> memory_view option" where
  "view_of m i = map_option (\<lambda>t. row_view (mt_row t)) (find (\<lambda>t. mt_id t = i) (agent_memories m))"

definition embedding_of :: "'v mem_db \<Rightarrow> memory_id \<Rightarrow> 'v option" where
  "embedding_of m i = Option.bind (find (\<lambda>t. mt_id t = i) (agent_memories m)) mt_embedding"

section \<open>The invariant\<close>

text \<open>A write happens only while the memory does not exist.\<close>

fun writes_fresh :: "memory_view option \<Rightarrow> memory_event list \<Rightarrow> bool" where
  "writes_fresh v [] = True"
| "writes_fresh v (e # es) = ((payload_mutation (me_payload e) = MWriteKind \<longrightarrow> v = None) \<and> writes_fresh (effect e v) es)"

definition event_ok :: "'v mem_db \<Rightarrow> memory_event \<Rightarrow> bool" where
  "event_ok m e \<longleftrightarrow> map_of (md_agent_orgs m) (me_agent_id e) = Some (me_org_id e) \<and>
     source_fk_ok (me_source e) m \<and> decode_memory_event e = Ok e"

definition row_ids_ok :: "'v mem_db \<Rightarrow> bool" where
  "row_ids_ok m \<longleftrightarrow> distinct (map mt_id (agent_memories m))"

definition log_inv :: "'v mem_db \<Rightarrow> bool" where
  "log_inv m \<longleftrightarrow>
     (\<forall>e \<in> set (memory_events m). event_ok m e) \<and>
     (\<forall>i. writes_fresh None (events_on i (memory_events m)) \<and>
          sorted_wrt (<) (map me_created_at (events_on i (memory_events m)))) \<and>
     (\<forall>e \<in> set (memory_events m). \<forall>e' \<in> set (memory_events m). me_target e = me_target e' \<longrightarrow> me_agent_id e = me_agent_id e')"

definition mem_inv :: "'v mem_db \<Rightarrow> bool" where
  "mem_inv m \<longleftrightarrow> row_ids_ok m \<and> log_inv m \<and> view_of m = projected (memory_events m)"

section \<open>The table\<close>

lemma view_of_update:
  assumes "\<And>t. mt_id (f t) = mt_id t"
  shows "view_of (update_memories (\<lambda>r. mm_id r = i) f m) =
    (view_of m)(i := map_option (\<lambda>t. row_view (mt_row (f t))) (find (\<lambda>t. mt_id t = i) (agent_memories m)))"
proof
  fix j
  have "find (\<lambda>t. mt_id t = j) (update_where (\<lambda>t. mt_id t = i) f (agent_memories m)) =
      map_option (\<lambda>t. if mt_id t = i then f t else t) (find (\<lambda>t. mt_id t = j) (agent_memories m))"
    by (rule find_update_where) (simp add: assms)
  then show "view_of (update_memories (\<lambda>r. mm_id r = i) f m) j =
      ((view_of m)(i := map_option (\<lambda>t. row_view (mt_row (f t))) (find (\<lambda>t. mt_id t = i) (agent_memories m)))) j"
    by (auto simp: view_of_def update_memories_def find_None_iff option.map_comp comp_def dest: find_SomeD intro!: option.map_cong0)
qed

lemma find_delete_where: "find Q (delete_where P rows) = find (\<lambda>r. Q r \<and> \<not> P r) rows"
  by (induction rows) (auto simp: delete_where_def)

lemma view_of_delete:
  "view_of (delete_memories (\<lambda>r. mm_id r = i) m) = (view_of m)(i := None)"
proof
  fix j
  have "find (\<lambda>t. mt_id t = j \<and> mt_id t \<noteq> i) (agent_memories m) =
      (if j = i then None else find (\<lambda>t. mt_id t = j) (agent_memories m))"
    by (auto simp: find_None_iff intro!: find_cong)
  then show "view_of (delete_memories (\<lambda>r. mm_id r = i) m) j = ((view_of m)(i := None)) j"
    by (simp add: view_of_def delete_memories_def Let_def find_delete_where)
qed

lemma find_snoc: "find P (xs @ [x]) = (case find P xs of None \<Rightarrow> (if P x then Some x else None) | Some y \<Rightarrow> Some y)"
  by (induction xs) auto

lemma view_of_insert:
  assumes "view_of m (mt_id t) = None"
  shows "view_of (m\<lparr>agent_memories := agent_memories m @ [t]\<rparr>) = (view_of m)(mt_id t := Some (row_view (mt_row t)))"
  using assms by (auto simp: view_of_def fun_eq_iff find_snoc split: option.split)

lemma view_of_None: "view_of m i = None \<longleftrightarrow> i \<notin> set (map mt_id (agent_memories m))"
  by (auto simp: view_of_def find_None_iff)

lemma view_of_cong: "agent_memories m' = agent_memories m \<Longrightarrow> view_of m' = view_of m"
  by (simp add: view_of_def fun_eq_iff)

lemma projected_snoc: "projected (es @ [e]) = (projected es)(me_target e := effect e (projected es (me_target e)))"
  by (auto simp: projected_def fun_eq_iff)

section \<open>Appending an event\<close>

lemma writes_fresh_append:
  "writes_fresh v (es @ es') \<longleftrightarrow> writes_fresh v es \<and> writes_fresh (fold effect es v) es'"
  by (induction es arbitrary: v) auto

definition made_event where
  "made_event eid agent org target source now p =
     \<lparr>me_id = eid, me_agent_id = agent, me_org_id = org, me_target = target, me_source = source,
      me_created_at = now, me_payload = p\<rparr>"

lemma insert_event_OkE:
  assumes "insert_event sc eid agent target source now p m = (Ok x, m1)"
  obtains org where "map_of (md_agent_orgs m) agent = Some org" "source_fk_ok source m" "mem_visible sc m org"
    "events_kind_check p"
    "m1 = m\<lparr>memory_events := memory_events m @ [made_event eid agent org target source now p]\<rparr>"
  using assms
  by (auto simp: insert_event_def agent_org_def made_event_def split: option.splits if_splits)

definition content_ok :: "string \<Rightarrow> bool" where
  "content_ok c \<longleftrightarrow> memory_content_try_from c = Ok c"

lemma decode_memory_event_Ok_iff:
  "decode_memory_event e = Ok e' \<longleftrightarrow> e' = e \<and> (\<forall>c \<in> set (payload_contents (me_payload e)). content_ok c)"
proof -
  have "(\<exists>xs. decode_all (\<lambda>c. map_err MParse (memory_content_try_from c)) cs = Ok xs) \<longleftrightarrow> (\<forall>c \<in> set cs. content_ok c)" for cs
    by (induction cs) (auto simp: content_ok_def memory_content_try_from_def)
  then show ?thesis by (auto simp: decode_memory_event_def)
qed

lemma decode_memory_row_Ok_iff: "decode_memory_row t = Ok r \<longleftrightarrow> r = mt_row t \<and> content_ok (mm_content (mt_row t))"
  by (auto simp: decode_memory_row_def content_ok_def memory_content_try_from_def)

lemma event_ok_cong:
  "md_core m' = md_core m \<Longrightarrow> md_agent_orgs m' = md_agent_orgs m \<Longrightarrow> event_ok m' e = event_ok m e"
  by (simp add: event_ok_def source_fk_ok_def split: option.split)

lemma log_inv_cong:
  "md_core m' = md_core m \<Longrightarrow> md_agent_orgs m' = md_agent_orgs m \<Longrightarrow> memory_events m' = memory_events m \<Longrightarrow> log_inv m' = log_inv m"
  by (simp add: log_inv_def event_ok_cong [of m' m])

text \<open>An event on \<open>target\<close> at \<open>now\<close> comes after every earlier one, and from the same agent.\<close>

definition later_on :: "memory_id \<Rightarrow> agent_id \<Rightarrow> instant \<Rightarrow> 'v mem_db \<Rightarrow> bool" where
  "later_on target agent now m \<longleftrightarrow>
     (\<forall>e \<in> set (memory_events m). me_target e = target \<longrightarrow> me_created_at e < now \<and> me_agent_id e = agent)"

lemma log_inv_snoc:
  assumes inv: "log_inv m" and later: "later_on target agent now m"
    and org: "map_of (md_agent_orgs m) agent = Some org" "source_fk_ok source m"
    and c: "\<forall>c \<in> set (payload_contents p). content_ok c"
    and w: "payload_mutation p = MWriteKind \<Longrightarrow> projected (memory_events m) target = None"
  shows "log_inv (m\<lparr>memory_events := memory_events m @ [made_event eid agent org target source now p]\<rparr>)"
proof -
  let ?e = "made_event eid agent org target source now p"
  let ?m = "m\<lparr>memory_events := memory_events m @ [?e]\<rparr>"
  have e: "me_target ?e = target" "me_agent_id ?e = agent" "me_created_at ?e = now" "me_payload ?e = p" "me_org_id ?e = org"
    "me_source ?e = source"
    by (simp_all add: made_event_def)
  have ok: "event_ok ?m e = event_ok m e" for e by (rule event_ok_cong) simp_all
  have new: "event_ok ?m ?e" unfolding ok using org c by (simp add: event_ok_def decode_memory_event_Ok_iff e)
  have ord: "writes_fresh None (events_on i (memory_events ?m)) \<and>
      sorted_wrt (<) (map me_created_at (events_on i (memory_events ?m)))" for i
  proof (cases "i = target")
    case True
    from inv have "writes_fresh None (events_on target (memory_events m))"
      "sorted_wrt (<) (map me_created_at (events_on target (memory_events m)))" by (auto simp: log_inv_def)
    moreover have "\<forall>a \<in> set (map me_created_at (events_on target (memory_events m))). a < now"
      using later by (auto simp: later_on_def)
    ultimately show ?thesis using w True
      by (simp add: writes_fresh_append sorted_wrt_append e) (simp add: projected_def)
  next
    case False
    with inv show ?thesis by (simp add: log_inv_def e)
  qed
  have own: "me_agent_id x = me_agent_id y"
    if "x \<in> set (memory_events ?m)" "y \<in> set (memory_events ?m)" "me_target x = me_target y" for x y
  proof -
    have old: "me_agent_id z = agent" if "z \<in> set (memory_events m)" "me_target z = target" for z
      using later that by (auto simp: later_on_def)
    have both: "me_agent_id x = me_agent_id y" if "x \<in> set (memory_events m)" "y \<in> set (memory_events m)"
      using inv that \<open>me_target x = me_target y\<close> unfolding log_inv_def by blast
    have "x \<in> set (memory_events m) \<or> x = ?e" "y \<in> set (memory_events m) \<or> y = ?e" using that(1,2) by auto
    then show ?thesis using both old [of x] old [of y] that(3) e by metis
  qed
  have "\<forall>x \<in> set (memory_events m). event_ok ?m x" unfolding ok using inv unfolding log_inv_def by blast
  with new have all: "\<forall>x \<in> set (memory_events ?m). event_ok ?m x" by simp
  show ?thesis unfolding log_inv_def [of ?m] using all ord own by blast
qed

text \<open>The step every operation is made of: one event, and the table changes as the event says.\<close>

lemma inv_event:
  assumes inv: "mem_inv m" and ins: "insert_event sc eid agent target source now p m = (Ok x, m1)"
    and later: "later_on target agent now m"
    and c: "\<forall>c \<in> set (payload_contents p). content_ok c"
    and w: "payload_mutation p = MWriteKind \<Longrightarrow> view_of m target = None"
    and same: "md_core m2 = md_core m" "md_agent_orgs m2 = md_agent_orgs m" "memory_events m2 = memory_events m1"
    and ids: "row_ids_ok m2"
    and view: "\<And>org. map_of (md_agent_orgs m) agent = Some org \<Longrightarrow>
      view_of m2 = (view_of m)(target := effect (made_event eid agent org target source now p) (view_of m target))"
  shows "mem_inv m2"
proof -
  from ins obtain org where org: "map_of (md_agent_orgs m) agent = Some org" "source_fk_ok source m"
    and m1: "m1 = m\<lparr>memory_events := memory_events m @ [made_event eid agent org target source now p]\<rparr>"
    by (rule insert_event_OkE)
  have v: "view_of m = projected (memory_events m)" and l: "log_inv m" using inv by (simp_all add: mem_inv_def)
  have "log_inv m1" unfolding m1 using log_inv_snoc [OF l later org c] w v by simp
  then have "log_inv m2" using same m1 by (subst log_inv_cong [of m2 m1]) simp_all
  moreover have "view_of m2 = projected (memory_events m2)"
    using view [OF org(1)] same(3) m1 v by (simp add: projected_snoc made_event_def)
  ultimately show ?thesis using ids by (simp add: mem_inv_def)
qed

section \<open>Changes of one row\<close>

lemma mem_inv_cong:
  "md_core m' = md_core m \<Longrightarrow> md_agent_orgs m' = md_agent_orgs m \<Longrightarrow> memory_events m' = memory_events m \<Longrightarrow>
   agent_memories m' = agent_memories m \<Longrightarrow> mem_inv m' = mem_inv m"
  by (simp add: mem_inv_def log_inv_cong [of m' m] row_ids_ok_def view_of_cong [of m' m])

definition live :: "'v mem_db \<Rightarrow> memory_id \<Rightarrow> 'v memory_trow \<Rightarrow> bool" where
  "live m i t \<longleftrightarrow> find (\<lambda>t. mt_id t = i) (agent_memories m) = Some t"

lemma live_in: "live m i t \<Longrightarrow> t \<in> set (agent_memories m) \<and> mt_id t = i"
  by (auto simp: live_def dest: find_SomeD)

lemma live_iff: "row_ids_ok m \<Longrightarrow> live m i t \<longleftrightarrow> t \<in> set (agent_memories m) \<and> mt_id t = i"
  unfolding live_def row_ids_ok_def
  by (auto dest: find_SomeD intro: find_Some_iff_distinct)

lemma live_view: "live m i t \<Longrightarrow> view_of m i = Some (row_view (mt_row t))"
  by (simp add: live_def view_of_def)

lemma live_cong: "agent_memories m' = agent_memories m \<Longrightarrow> live m' i t = live m i t"
  by (simp add: live_def)

lemma fold_effect_agent:
  "fold effect es v0 = Some v \<Longrightarrow>
   (\<exists>e \<in> set es. me_agent_id e = vw_agent v) \<or> (\<exists>w. v0 = Some w \<and> vw_agent w = vw_agent v)"
proof (induction es arbitrary: v0)
  case (Cons e es)
  then have "(\<exists>e \<in> set es. me_agent_id e = vw_agent v) \<or> (\<exists>w. effect e v0 = Some w \<and> vw_agent w = vw_agent v)" by simp
  then show ?case by (cases "me_payload e") (auto simp: effect_def)
qed simp

lemma same_agent:
  "log_inv m \<Longrightarrow> e \<in> set (memory_events m) \<Longrightarrow> e' \<in> set (memory_events m) \<Longrightarrow> me_target e = me_target e' \<Longrightarrow>
   me_agent_id e = me_agent_id e'"
  unfolding log_inv_def by blast

lemma live_events_agent:
  assumes "mem_inv m" and "live m i t" and "e \<in> set (memory_events m)" and "me_target e = i"
  shows "me_agent_id e = mm_agent_id (mt_row t)"
proof -
  have "fold effect (events_on i (memory_events m)) None = Some (row_view (mt_row t))"
    using assms(1) live_view [OF assms(2)] by (simp add: mem_inv_def projected_def)
  from fold_effect_agent [OF this] obtain e' where "e' \<in> set (memory_events m)" "me_target e' = i"
    "me_agent_id e' = mm_agent_id (mt_row t)"
    by (auto simp: row_view_def)
  with same_agent [of m e e'] assms(1,3,4) show ?thesis by (simp add: mem_inv_def)
qed

text \<open>A clock that is past every event of the journal.\<close>

definition past_journal :: "instant \<Rightarrow> 'v mem_db \<Rightarrow> bool" where
  "past_journal now m \<longleftrightarrow> (\<forall>e \<in> set (memory_events m). me_created_at e < now)"

lemma later_on_live:
  assumes "mem_inv m" and "live m i t" and "\<And>e. e \<in> set (memory_events m) \<Longrightarrow> me_target e = i \<Longrightarrow> me_created_at e < now"
  shows "later_on i (mm_agent_id (mt_row t)) now m"
  using assms live_events_agent [OF assms(1,2)] by (auto simp: later_on_def)

lemma row_ids_update: "row_ids_ok m \<Longrightarrow> (\<And>t. mt_id (f t) = mt_id t) \<Longrightarrow> row_ids_ok (update_memories P f m)"
  by (simp add: row_ids_ok_def update_memories_def distinct_map_update_where)

lemma row_ids_delete: "row_ids_ok m \<Longrightarrow> row_ids_ok (delete_memories P m)"
  by (simp add: row_ids_ok_def delete_memories_def Let_def delete_where_def distinct_map_filter)

lemma update_memories_sel [simp]:
  "md_core (update_memories P f m) = md_core m" "md_agent_orgs (update_memories P f m) = md_agent_orgs m"
  "memory_events (update_memories P f m) = memory_events m"
  "contradiction_events (update_memories P f m) = contradiction_events m"
  by (simp_all add: update_memories_def)

lemma delete_memories_sel [simp]:
  "md_core (delete_memories P m) = md_core m" "md_agent_orgs (delete_memories P m) = md_agent_orgs m"
  "memory_events (delete_memories P m) = memory_events m"
  "contradiction_events (delete_memories P m) = contradiction_events m"
  by (simp_all add: delete_memories_def Let_def)

lemma insert_event_tables:
  assumes "insert_event sc eid agent target source now p m = (Ok x, m1)"
  shows "agent_memories m1 = agent_memories m" "md_core m1 = md_core m" "md_agent_orgs m1 = md_agent_orgs m"
    "contradiction_events m1 = contradiction_events m" "validation_events m1 = validation_events m"
  using assms by (auto elim!: insert_event_OkE)

lemma inv_rewrite:
  assumes inv: "mem_inv m" and live: "live m target t" and own: "mm_agent_id (mt_row t) = agent"
    and time: "\<And>e. e \<in> set (memory_events m) \<Longrightarrow> me_target e = target \<Longrightarrow> me_created_at e < now"
    and ins: "insert_event sc eid agent target source now (PUpdate b a k st p) m = (Ok x, m1)"
    and c: "content_ok b" "content_ok a"
    and f: "\<And>t. mt_id (f t) = mt_id t"
      "row_view (mt_row (f t)) = (row_view (mt_row t))\<lparr>vw_content := a, vw_state := st, vw_pinned := p\<rparr>"
  shows "mem_inv (update_memories (\<lambda>r. mm_id r = target) f m1)"
proof (rule inv_event [OF inv ins])
  note t = insert_event_tables [OF ins]
  show "later_on target agent now m" using later_on_live [OF inv live time] own by simp
  have "row_ids_ok m1" using inv t by (simp add: mem_inv_def row_ids_ok_def)
  then show "row_ids_ok (update_memories (\<lambda>r. mm_id r = target) f m1)" by (rule row_ids_update) (rule f(1))
  show "view_of (update_memories (\<lambda>r. mm_id r = target) f m1) =
      (view_of m)(target := effect (made_event eid agent org target source now (PUpdate b a k st p)) (view_of m target))" for org
    using live live_view [OF live] f(2) t
    by (simp add: view_of_update [OF f(1)] view_of_cong [OF t(1)] live_def effect_def made_event_def)
qed (use c insert_event_tables [OF ins] in auto)

lemma inv_erase:
  assumes inv: "mem_inv m" and live: "live m target t" and own: "mm_agent_id (mt_row t) = agent"
    and time: "\<And>e. e \<in> set (memory_events m) \<Longrightarrow> me_target e = target \<Longrightarrow> me_created_at e < now"
    and ins: "insert_event sc eid agent target source now (PForget b) m = (Ok x, m1)" and c: "content_ok b"
  shows "mem_inv (delete_memories (\<lambda>r. mm_id r = target) m1)"
proof (rule inv_event [OF inv ins])
  note t = insert_event_tables [OF ins]
  show "later_on target agent now m" using later_on_live [OF inv live time] own by simp
  have "row_ids_ok m1" using inv t by (simp add: mem_inv_def row_ids_ok_def)
  then show "row_ids_ok (delete_memories (\<lambda>r. mm_id r = target) m1)" by (rule row_ids_delete)
  show "view_of (delete_memories (\<lambda>r. mm_id r = target) m1) =
      (view_of m)(target := effect (made_event eid agent org target source now (PForget b)) (view_of m target))" for org
    by (simp add: view_of_delete view_of_cong [OF t(1)] effect_def made_event_def)
qed (use c insert_event_tables [OF ins] in auto)

lemma inv_mint:
  assumes inv: "mem_inv m" and fresh: "view_of m target = None" and later: "later_on target agent now m"
    and ins: "insert_event sc eid agent target source now (PWrite c k st p) m = (Ok x, m1)"
    and row: "insert_memory sc' target agent k c st p source now emb m1 = (Ok y, m2)" and c: "content_ok c"
  shows "mem_inv m2"
proof (rule inv_event [OF inv ins later])
  note t = insert_event_tables [OF ins]
  from row obtain org where org: "map_of (md_agent_orgs m) agent = Some org" "target \<notin> set (map mt_id (agent_memories m))"
    and m2: "m2 = m1\<lparr>agent_memories := agent_memories m1 @ [new_row target agent org k c st p (source_turn source) now emb]\<rparr>"
    using t by (auto simp: insert_memory_def agent_org_def split: option.splits if_splits)
  show "md_core m2 = md_core m" "md_agent_orgs m2 = md_agent_orgs m" "memory_events m2 = memory_events m1"
    using m2 t by simp_all
  show "row_ids_ok m2" using inv m2 org(2) t by (simp add: mem_inv_def row_ids_ok_def new_row_def)
  show "view_of m2 = (view_of m)(target := effect (made_event eid agent o' target source now (PWrite c k st p)) (view_of m target))"
    if "map_of (md_agent_orgs m) agent = Some o'" for o'
  proof -
    have "view_of m1 (mt_id (new_row target agent org k c st p (source_turn source) now emb)) = None"
      using fresh by (simp add: view_of_cong [OF t(1)] new_row_def)
    from view_of_insert [OF this] show ?thesis
      using that org(1) by (simp add: m2 view_of_cong [OF t(1)] new_row_def row_view_def effect_def made_event_def)
  qed
qed (use c fresh in auto)

section \<open>Every operation keeps the invariant\<close>

lemma mem_inv_ids: "mem_inv m \<Longrightarrow> row_ids_ok m"
  by (simp add: mem_inv_def)

lemma find_visible_live:
  assumes "row_ids_ok m" and "find (\<lambda>t. mt_id t = i \<and> Q t) (agent_memories m) = Some t"
  shows "live m i t \<and> Q t"
  using find_SomeD [OF assms(2)] assms(1) by (auto simp: live_iff)

lemma lock_existing_OkE:
  assumes "lock_existing sc agent target source m = Ok r" and "row_ids_ok m"
  obtains t where "live m target t" "r = mt_row t" "mm_agent_id r = agent" "content_ok (mm_content r)"
    "mm_pinned r \<Longrightarrow> source = Operator" "mem_visible sc m (mm_org_id r)"
  using assms
  by (auto simp: lock_existing_def decode_memory_row_Ok_iff bypasses_pin_def dest: find_visible_live
           split: option.splits if_splits)

lemma past_target: "past_journal now m \<Longrightarrow> e \<in> set (memory_events m) \<Longrightarrow> me_target e = i \<Longrightarrow> me_created_at e < now"
  by (simp add: past_journal_def)

definition fresh_memory :: "memory_id \<Rightarrow> 'v mem_db \<Rightarrow> bool" where
  "fresh_memory i m \<longleftrightarrow> i \<notin> me_target ` set (memory_events m)"

lemma fresh_memory_view: "mem_inv m \<Longrightarrow> fresh_memory i m \<Longrightarrow> view_of m i = None"
proof -
  assume "mem_inv m" "fresh_memory i m"
  moreover from this(2) have "events_on i (memory_events m) = []" by (auto simp: fresh_memory_def filter_empty_conv)
  ultimately show ?thesis by (simp add: mem_inv_def projected_def)
qed

lemma later_on_fresh: "fresh_memory i m \<Longrightarrow> later_on i agent now m"
  by (auto simp: fresh_memory_def later_on_def)

fun mutation_contents :: "memory_mutation \<Rightarrow> string list" where
  "mutation_contents (MWrite _ _ c _ _ _) = [c]"
| "mutation_contents (MUpdate _ _ c _ _) = [c]"
| "mutation_contents (MForget _ _ _) = []"

lemma inv_apply_write:
  assumes "mem_inv m" "fresh_memory mid m" "content_ok c"
    and "apply_write sc agent k c st p source emb now mid eid m = (Ok out, m')"
  shows "mem_inv m'"
  using assms inv_mint [OF assms(1) fresh_memory_view [OF assms(1,2)] later_on_fresh [OF assms(2)] _ _ assms(3)]
  by (auto simp: apply_write_def tx_bind_Ok_iff)

lemma inv_apply_update:
  assumes inv: "mem_inv m" and past: "past_journal now m" and c: "content_ok c"
    and ok: "apply_update sc agent target c st source emb now eid m = (Ok out, m')"
  shows "mem_inv m'"
proof -
  from ok obtain r m1 x where lock: "lock_existing sc agent target source m = Ok r"
    and ins: "insert_event sc eid agent target source now (PUpdate (mm_content r) c (mm_kind r) st (mm_pinned r)) m = (Ok x, m1)"
    and m': "m' = update_memories (\<lambda>r. mm_id r = target) (\<lambda>t. (set_content c st t)\<lparr>mt_embedding := Some emb\<rparr>) m1"
    by (auto simp: apply_update_def Let_def tx_bind_Ok_iff)
  from lock_existing_OkE [OF lock mem_inv_ids [OF inv]] obtain t where
    t: "live m target t" "r = mt_row t" "mm_agent_id r = agent" "content_ok (mm_content r)" by metis
  show ?thesis unfolding m'
    by (rule inv_rewrite [OF inv t(1) _ past_target [OF past] ins t(4) c])
       (use t in \<open>simp_all add: set_content_def row_view_def\<close>)
qed

lemma inv_apply_forget:
  assumes inv: "mem_inv m" and past: "past_journal now m"
    and ok: "apply_forget sc agent target source now eid m = (Ok out, m')"
  shows "mem_inv m'"
proof -
  from ok obtain r m1 x where lock: "lock_existing sc agent target source m = Ok r"
    and ins: "insert_event sc eid agent target source now (PForget (mm_content r)) m = (Ok x, m1)"
    and m': "m' = delete_memories (\<lambda>r. mm_id r = target) m1"
    by (auto simp: apply_forget_def tx_bind_Ok_iff)
  from lock_existing_OkE [OF lock mem_inv_ids [OF inv]] obtain t where
    t: "live m target t" "r = mt_row t" "mm_agent_id r = agent" "content_ok (mm_content r)" by metis
  show ?thesis unfolding m'
    by (rule inv_erase [OF inv t(1) _ past_target [OF past] ins t(4)]) (use t in simp)
qed

lemma inv_apply_scoped:
  assumes "mem_inv m" "past_journal now m" "fresh_memory mid m" "\<forall>c \<in> set (mutation_contents mu). content_ok c"
    and "apply_scoped vo sc mu now mid eid m = (Ok out, m')"
  shows "mem_inv m'"
proof -
  from assms(5) obtain emb where "apply_in_tx sc mu emb now mid eid m = (Ok out, m')"
    by (auto simp: apply_scoped_def tx_bind_Ok_iff)
  with assms(1-4) show ?thesis
    by (cases mu) (auto intro: inv_apply_write inv_apply_update inv_apply_forget split: option.splits)
qed

text \<open>The two sweeps walk over rows with different ids, so the shared timestamp orders nothing.\<close>

lemma live_update_other:
  "live m i t \<Longrightarrow> i \<noteq> j \<Longrightarrow> (\<And>t. mt_id (f t) = mt_id t) \<Longrightarrow> live (update_memories (\<lambda>r. mm_id r = j) f m) i t"
  by (auto simp: live_def update_memories_def find_update_where dest: find_SomeD)

lemma live_delete_other: "live m i t \<Longrightarrow> i \<noteq> j \<Longrightarrow> live (delete_memories (\<lambda>r. mm_id r = j) m) i t"
proof -
  assume a: "live m i t" "i \<noteq> j"
  have "find (\<lambda>t. mt_id t = i \<and> mt_id t \<noteq> j) (agent_memories m) = find (\<lambda>t. mt_id t = i) (agent_memories m)"
    using a(2) by (intro find_cong) auto
  with a show ?thesis by (simp add: live_def delete_memories_def Let_def find_delete_where)
qed

definition sweepable :: "'v mem_db \<Rightarrow> instant \<Rightarrow> 'v memory_trow list \<Rightarrow> bool" where
  "sweepable m now ts \<longleftrightarrow> distinct (map mt_id ts) \<and>
     (\<forall>t \<in> set ts. live m (mt_id t) t \<and> (\<forall>e \<in> set (memory_events m). me_target e = mt_id t \<longrightarrow> me_created_at e < now))"

lemma sweepable_step:
  assumes "sweepable m now (t # ts)" and "insert_event sc eid agent (mt_id t) source now p m = (Ok x, m1)"
    and "memory_events m2 = memory_events m1"
    and "\<And>i u. live m1 i u \<Longrightarrow> i \<noteq> mt_id t \<Longrightarrow> live m2 i u"
  shows "sweepable m2 now ts"
proof -
  from assms(2) obtain org where m1: "m1 = m\<lparr>memory_events := memory_events m @ [made_event eid agent org (mt_id t) source now p]\<rparr>"
    by (rule insert_event_OkE)
  have "mt_id t \<notin> mt_id ` set ts" using assms(1) by (simp add: sweepable_def)
  then have ne: "mt_id u \<noteq> mt_id t" if "u \<in> set ts" for u using that by (metis imageI)
  have "live m2 (mt_id u) u" if "u \<in> set ts" for u
  proof -
    have "live m (mt_id u) u" using that assms(1) by (auto simp: sweepable_def)
    with ne [OF that] show ?thesis using assms(4) live_cong [OF insert_event_tables(1) [OF assms(2)]] by blast
  qed
  moreover have "me_created_at e < now" if "u \<in> set ts" "e \<in> set (memory_events m2)" "me_target e = mt_id u" for u e
  proof -
    have "e \<in> set (memory_events m)" using that(2,3) ne [OF that(1)] by (auto simp: assms(3) m1 made_event_def)
    then show ?thesis using that(1,3) assms(1) by (auto simp: sweepable_def)
  qed
  ultimately show ?thesis using assms(1) by (simp add: sweepable_def)
qed

lemma inv_hold_rows:
  assumes "mem_inv m" and "sweepable m now ts" and "hold_rows fresh now ts n m = (Ok k, m')"
  shows "mem_inv m'"
  using assms
proof (induction ts arbitrary: n m)
  case (Cons t ts)
  let ?r = "mt_row t"
  from Cons.prems(3) obtain m1 x where c: "content_ok (mm_content ?r)"
    and ins: "insert_event Privileged (fresh n) (mm_agent_id ?r) (mm_id ?r) Librarian now
                (PUpdate (mm_content ?r) (mm_content ?r) (mm_kind ?r) Held (mm_pinned ?r)) m = (Ok x, m1)"
    and rest: "hold_rows fresh now ts (n + 1) (update_memories (\<lambda>q. mm_id q = mm_id ?r) (set_state Held) m1) = (Ok k, m')"
    by (auto simp: tx_bind_Ok_iff decode_memory_row_Ok_iff)
  have live: "live m (mt_id t) t" and time: "\<And>e. e \<in> set (memory_events m) \<Longrightarrow> me_target e = mt_id t \<Longrightarrow> me_created_at e < now"
    using Cons.prems(2) by (auto simp: sweepable_def)
  have "mem_inv (update_memories (\<lambda>q. mm_id q = mm_id ?r) (set_state Held) m1)"
    by (rule inv_rewrite [OF Cons.prems(1) live refl time ins c c]) (simp_all add: set_state_def row_view_def)
  moreover have "sweepable (update_memories (\<lambda>q. mm_id q = mm_id ?r) (set_state Held) m1) now ts"
    by (rule sweepable_step [OF Cons.prems(2) ins]) (simp_all add: live_update_other set_state_def)
  ultimately show ?case using rest by (rule Cons.IH)
qed simp

lemma inv_evict_rows:
  assumes "mem_inv m" and "sweepable m now ts" and "\<forall>t \<in> set ts. mm_agent_id (mt_row t) = agent"
    and "evict_rows fresh agent now ts n m = (Ok k, m')"
  shows "mem_inv m'"
  using assms
proof (induction ts arbitrary: n m k)
  case (Cons t ts)
  let ?r = "mt_row t"
  from Cons.prems(4) obtain m1 x gone where c: "content_ok (mm_content ?r)"
    and ins: "insert_event Privileged (fresh n) agent (mm_id ?r) Librarian now (PForget (mm_content ?r)) m = (Ok x, m1)"
    and rest: "evict_rows fresh agent now ts (n + 1) (delete_memories (\<lambda>q. mm_id q = mm_id ?r) m1) = (Ok gone, m')"
    by (auto simp: tx_bind_Ok_iff decode_memory_row_Ok_iff)
  have live: "live m (mt_id t) t" and own: "mm_agent_id ?r = agent"
    and time: "\<And>e. e \<in> set (memory_events m) \<Longrightarrow> me_target e = mt_id t \<Longrightarrow> me_created_at e < now"
    using Cons.prems(2,3) by (auto simp: sweepable_def)
  have "mem_inv (delete_memories (\<lambda>q. mm_id q = mm_id ?r) m1)"
    by (rule inv_erase [OF Cons.prems(1) live own time ins c])
  moreover have "sweepable (delete_memories (\<lambda>q. mm_id q = mm_id ?r) m1) now ts"
    by (rule sweepable_step [OF Cons.prems(2) ins]) (simp_all add: live_delete_other)
  ultimately show ?case using Cons.prems(3) rest by (intro Cons.IH) auto
qed simp

lemma sweepable_subset:
  assumes "mem_inv m" "past_journal now m" "set ts \<subseteq> set (agent_memories m)" "distinct (map mt_id ts)"
  shows "sweepable m now ts"
  using assms by (auto simp: sweepable_def live_iff mem_inv_ids past_journal_def)

lemma sweepable_filter:
  "mem_inv m \<Longrightarrow> past_journal now m \<Longrightarrow> sweepable m now (filter P (agent_memories m))"
  by (rule sweepable_subset) (auto dest!: mem_inv_ids simp: row_ids_ok_def intro: distinct_map_filter)

lemma inv_decay:
  "mem_inv m \<Longrightarrow> past_journal now m \<Longrightarrow> decay_validated agent cutoff now fresh m = (Ok k, m') \<Longrightarrow> mem_inv m'"
  by (auto simp: decay_validated_def intro: inv_hold_rows sweepable_filter)

lemma inv_mature:
  "mem_inv m \<Longrightarrow> past_journal now m \<Longrightarrow> mature_tentative agent cutoff now fresh m = (Ok k, m') \<Longrightarrow> mem_inv m'"
  by (auto simp: mature_tentative_def intro: inv_hold_rows sweepable_filter)

lemma eviction_order_mset: "mset (eviction_order ts) = mset ts"
  by (simp add: eviction_order_def)

lemma eviction_order_take:
  "set (take n (eviction_order ts)) \<subseteq> set ts" "distinct (map f ts) \<Longrightarrow> distinct (map f (take n (eviction_order ts)))"
proof -
  have s: "set (eviction_order ts) = set ts" by (simp add: eviction_order_def)
  then show "set (take n (eviction_order ts)) \<subseteq> set ts" by (auto dest: in_set_takeD)
  assume "distinct (map f ts)"
  then have "distinct (map f (eviction_order ts))"
    using eviction_order_mset [of ts] by (metis mset_eq_imp_distinct_iff mset_map)
  then show "distinct (map f (take n (eviction_order ts)))" by (simp add: distinct_take take_map [symmetric])
qed

lemma inv_evict:
  assumes "mem_inv m" "past_journal now m" "evict_overflow agent quota now fresh m = (Ok gone, m')"
  shows "mem_inv m'"
proof -
  let ?ts = "filter (\<lambda>t. mm_agent_id (mt_row t) = agent \<and> \<not> mm_pinned (mt_row t)) (agent_memories m)"
  have d: "distinct (map mt_id ?ts)"
    using mem_inv_ids [OF assms(1)] by (simp add: row_ids_ok_def distinct_map_filter)
  have "sweepable m now (take n (eviction_order ?ts))" for n
    using eviction_order_take(1) [of n ?ts] eviction_order_take(2) [OF d]
    by (intro sweepable_subset [OF assms(1,2)]) auto
  then show ?thesis
    using assms(1,3) eviction_order_take(1) [where ts = ?ts]
    by (auto simp: evict_overflow_def Let_def split: if_splits intro!: inv_evict_rows [of m now])
qed

lemma view_of_same:
  assumes "\<And>t. row_view (mt_row (f t)) = row_view (mt_row t)" and "\<And>t. mt_id (f t) = mt_id t"
  shows "view_of (update_memories P f m) = view_of m"
  by (auto simp: fun_eq_iff view_of_def update_memories_def find_update_where assms option.map_comp comp_def intro!: option.map_cong0)

lemma inv_access:
  assumes inv: "mem_inv m" and ok: "record_access_in_tx sc ids now m = (Ok x, m')"
  shows "mem_inv m'"
proof -
  let ?f = "\<lambda>t. t\<lparr>mt_row := (mt_row t)\<lparr>mm_last_accessed_at := now, mm_access_count := mm_access_count (mt_row t) + 1\<rparr>\<rparr>"
  have "mem_inv (update_memories P ?f m)" for P
    using inv view_of_same [of ?f P m] row_ids_update [of m ?f P] log_inv_cong [of "update_memories P ?f m" m]
    by (simp add: mem_inv_def row_view_def)
  with inv ok show ?thesis by (auto simp: record_access_in_tx_def Let_def split: if_splits)
qed

lemma inv_validation:
  assumes inv: "mem_inv m" and past: "past_journal now m"
    and ok: "record_validation_in_tx sc agent memory origin det now vid eid m = (Ok r', m')"
  shows "mem_inv m'"
proof -
  let ?src = "origin_mutation_source origin"
  from ok obtain r m1 m2 x y where lock: "lock_existing sc agent memory ?src m = Ok r"
    and val: "insert_validation sc vid agent memory (origin_source origin) det now m = (Ok x, m1)"
    and ins: "insert_event sc eid agent memory ?src now
       (PUpdate (mm_content r) (mm_content r) (mm_kind r) (validated_state (mm_state r)) (mm_pinned r)) m1 = (Ok y, m2)"
    and m': "m' = update_memories (\<lambda>r. mm_id r = memory)
       (\<lambda>t. t\<lparr>mt_row := (mt_row t)\<lparr>mm_state := validated_state (mm_state r), mm_last_validated_at := now\<rparr>\<rparr>) m2"
    by (auto simp: record_validation_in_tx_def Let_def tx_bind_Ok_iff)
  from lock_existing_OkE [OF lock mem_inv_ids [OF inv]] obtain t where
    t: "live m memory t" "r = mt_row t" "mm_agent_id r = agent" "content_ok (mm_content r)" by metis
  have tabs: "md_core m1 = md_core m" "md_agent_orgs m1 = md_agent_orgs m" "memory_events m1 = memory_events m"
    "agent_memories m1 = agent_memories m"
    using val by (auto simp: insert_validation_def split: option.splits if_splits)
  have inv1: "mem_inv m1" and live1: "live m1 memory t" and past1: "past_journal now m1"
    using inv t(1) past by (simp_all add: mem_inv_cong [OF tabs] live_cong [OF tabs(4)] past_journal_def tabs)
  show ?thesis unfolding m'
    by (rule inv_rewrite [OF inv1 live1 _ past_target [OF past1] ins t(4) t(4)]) (use t in \<open>simp_all add: row_view_def\<close>)
qed

definition journal_tables where
  "journal_tables m = (md_core m, md_agent_orgs m, memory_events m, agent_memories m)"

lemma mem_inv_tables: "journal_tables m' = journal_tables m \<Longrightarrow> mem_inv m \<Longrightarrow> mem_inv m'"
  using mem_inv_cong [of m' m] by (simp add: journal_tables_def)

lemma record_contradiction_tables:
  "record_contradiction agent a b reason now cid m = (Ok x, m') \<Longrightarrow> journal_tables m' = journal_tables m"
  by (auto simp: record_contradiction_def Let_def journal_tables_def split: prod.splits option.splits if_splits)

lemma resolve_contradiction_tables:
  "resolve_contradiction_in_tx sc i outc now m = (Ok x, m') \<Longrightarrow> journal_tables m' = journal_tables m"
  by (auto simp: resolve_contradiction_in_tx_def Let_def journal_tables_def split: prod.splits if_splits)

lemma inv_set_pinned:
  assumes inv: "mem_inv m" and past: "past_journal now m" and ok: "set_pinned agent memory p eid now m = (res, m')"
  shows "mem_inv m'"
proof -
  let ?tx = "\<lambda>m. tx_bind (lock_existing Privileged agent memory Operator m, m) (\<lambda>prior m1.
        tx_bind (insert_event Privileged eid agent memory Operator now
                   (PUpdate (mm_content prior) (mm_content prior) (mm_kind prior) (mm_state prior) p) m1) (\<lambda>_ m2.
          (Ok (), update_memories (\<lambda>r. mm_id r = memory) (\<lambda>t. t\<lparr>mt_row := (mt_row t)\<lparr>mm_pinned := p\<rparr>\<rparr>) m2)))"
  have good: "mem_inv m2" if "?tx m = (Ok (), m2)" for m2
  proof -
    from that obtain r m1 x where lock: "lock_existing Privileged agent memory Operator m = Ok r"
      and ins: "insert_event Privileged eid agent memory Operator now
        (PUpdate (mm_content r) (mm_content r) (mm_kind r) (mm_state r) p) m = (Ok x, m1)"
      and m2: "m2 = update_memories (\<lambda>r. mm_id r = memory) (\<lambda>t. t\<lparr>mt_row := (mt_row t)\<lparr>mm_pinned := p\<rparr>\<rparr>) m1"
      by (auto simp: tx_bind_Ok_iff)
    from lock_existing_OkE [OF lock mem_inv_ids [OF inv]] obtain t where
      t: "live m memory t" "r = mt_row t" "mm_agent_id r = agent" "content_ok (mm_content r)" by metis
    show ?thesis unfolding m2
      by (rule inv_rewrite [OF inv t(1) _ past_target [OF past] ins t(4) t(4)]) (use t in \<open>simp_all add: row_view_def\<close>)
  qed
  obtain r m2 where run: "run_tx ?tx m = (r, m2)" by fastforce
  have "mem_inv m2"
  proof (cases r)
    case (Ok x)
    with run good show ?thesis by simp
  next
    case (Err e)
    with run run_tx_rollback [OF run] inv show ?thesis by simp
  next
    case (Panic e)
    with run run_tx_rollback [OF run] inv show ?thesis by simp
  qed
  moreover have "m' = m2" using ok unfolding set_pinned_def run by (cases r) simp_all
  ultimately show ?thesis by simp
qed

lemma load_event_Ok:
  "load_event agent eid m = Ok e \<Longrightarrow> e \<in> set (memory_events m) \<and> me_id e = eid \<and> me_agent_id e = agent \<and>
     (\<forall>c \<in> set (payload_contents (me_payload e)). content_ok c)"
  by (auto simp: load_event_def decode_memory_event_Ok_iff dest: find_SomeD split: option.splits)

lemma later_on_loaded:
  assumes "mem_inv m" "past_journal now m" "e \<in> set (memory_events m)"
  shows "later_on (me_target e) (me_agent_id e) now m"
proof -
  have "me_agent_id x = me_agent_id e" if "x \<in> set (memory_events m)" "me_target x = me_target e" for x
    using same_agent [OF _ that(1) assms(3) that(2)] assms(1) by (simp add: mem_inv_def)
  then show ?thesis using assms(2) unfolding later_on_def past_journal_def by blast
qed

text \<open>A revert keeps the invariant, unless it restores a memory that is there.\<close>

lemma inv_revert_in_tx:
  assumes inv: "mem_inv m" and past: "past_journal now m" and load: "load_event agent eid m = Ok e"
    and dead: "payload_mutation (me_payload e) = MForgetKind \<Longrightarrow> view_of m (me_target e) = None"
    and ok: "revert_in_tx agent e inv_id now m = (Ok x, m')"
  shows "mem_inv m'"
proof (cases "me_payload e")
  case (PWrite c k st p)
  then obtain r m1 y where lock: "lock_existing Privileged agent (me_target e) Operator m = Ok r"
    and ins: "insert_event Privileged inv_id agent (me_target e) Operator now (PForget (mm_content r)) m = (Ok y, m1)"
    and m': "m' = delete_memories (\<lambda>r. mm_id r = me_target e) m1"
    using ok by (auto simp: revert_in_tx_def revert_write_def tx_bind_Ok_iff)
  from lock_existing_OkE [OF lock mem_inv_ids [OF inv]] obtain t where
    t: "live m (me_target e) t" "r = mt_row t" "mm_agent_id r = agent" "content_ok (mm_content r)" by metis
  show ?thesis unfolding m' by (rule inv_erase [OF inv t(1) _ past_target [OF past] ins t(4)]) (use t in simp)
next
  case (PUpdate b a k st p)
  then obtain r m1 y where lock: "lock_existing Privileged agent (me_target e) Operator m = Ok r"
    and ins: "insert_event Privileged inv_id agent (me_target e) Operator now (PUpdate (mm_content r) b k st p) m = (Ok y, m1)"
    and m': "m' = update_memories (\<lambda>r. mm_id r = me_target e)
          (\<lambda>t. t\<lparr>mt_row := (mt_row t)\<lparr>mm_content := b, mm_state := st, mm_pinned := p\<rparr>\<rparr>) m1"
    using ok by (auto simp: revert_in_tx_def revert_update_def tx_bind_Ok_iff)
  have b: "content_ok b" using load_event_Ok [OF load] PUpdate by simp
  from lock_existing_OkE [OF lock mem_inv_ids [OF inv]] obtain t where
    t: "live m (me_target e) t" "r = mt_row t" "mm_agent_id r = agent" "content_ok (mm_content r)" by metis
  show ?thesis unfolding m'
    by (rule inv_rewrite [OF inv t(1) _ past_target [OF past] ins t(4) b]) (use t in \<open>simp_all add: row_view_def\<close>)
next
  case (PForget b)
  have v: "view_of m (me_target e) = None" using dead PForget by simp
  from PForget obtain k st p m1 y where
    ins: "insert_event Privileged inv_id agent (me_target e) Operator now (PWrite b k st p) m = (Ok y, m1)"
    and row: "(if me_target e \<in> set (map mt_id (agent_memories m1)) then (Ok (), m1)
       else insert_memory Privileged (me_target e) agent k b st p Operator now None m1) = (Ok x, m')"
    using ok by (auto simp: revert_in_tx_def revert_forget_def tx_bind_Ok_iff)
  have e: "e \<in> set (memory_events m)" "me_agent_id e = agent" "content_ok b" using load_event_Ok [OF load] PForget by auto
  have "me_target e \<notin> set (map mt_id (agent_memories m1))"
    using v insert_event_tables(1) [OF ins] by (simp add: view_of_None)
  with row have "insert_memory Privileged (me_target e) agent k b st p Operator now None m1 = (Ok x, m')" by simp
  with later_on_loaded [OF inv past e(1)] e(2,3) show ?thesis by (intro inv_mint [OF inv v _ ins]) auto
qed

section \<open>Rebuilding\<close>

lemma embedding_of_update:
  assumes "\<And>t. mt_id (f t) = mt_id t"
  shows "embedding_of (update_memories (\<lambda>r. mm_id r = i) f m) j =
    (if j = i then Option.bind (find (\<lambda>t. mt_id t = i) (agent_memories m)) (\<lambda>t. mt_embedding (f t)) else embedding_of m j)"
proof -
  have "find (\<lambda>t. mt_id t = j) (update_where (\<lambda>t. mt_id t = i) f (agent_memories m)) =
      map_option (\<lambda>t. if mt_id t = i then f t else t) (find (\<lambda>t. mt_id t = j) (agent_memories m))"
    by (rule find_update_where) (simp add: assms)
  then show ?thesis
    by (cases "find (\<lambda>t. mt_id t = j) (agent_memories m)") (auto simp: embedding_of_def update_memories_def dest: find_SomeD)
qed

lemma embedding_of_delete:
  "embedding_of (delete_memories (\<lambda>r. mm_id r = i) m) j = (if j = i then None else embedding_of m j)"
proof -
  have "find (\<lambda>t. mt_id t = j \<and> mt_id t \<noteq> i) (agent_memories m) =
      (if j = i then None else find (\<lambda>t. mt_id t = j) (agent_memories m))"
    by (auto simp: find_None_iff intro!: find_cong)
  then show ?thesis by (simp add: embedding_of_def delete_memories_def Let_def find_delete_where)
qed

text \<open>One replayed event has the effect of the event on its target, and no embedding to give.\<close>

definition base_tables where
  "base_tables m = (md_core m, md_agent_orgs m, memory_events m, contradiction_events m)"

lemma apply_replay_effect:
  assumes "row_ids_ok m" and "event_ok m e" and "me_agent_id e = agent"
    and "payload_mutation (me_payload e) = MWriteKind \<Longrightarrow> view_of m (me_target e) = None"
  obtains m' where "apply_replay agent e m = (Ok (), m')" "row_ids_ok m'" "base_tables m' = base_tables m"
    "view_of m' = (view_of m)(me_target e := effect e (view_of m (me_target e)))"
    "\<And>j. embedding_of m j = None \<Longrightarrow> embedding_of m' j = None"
    "\<And>j. j \<noteq> me_target e \<Longrightarrow> embedding_of m' j = embedding_of m j"
proof (cases "me_payload e")
  case (PWrite c k st p)
  let ?t = "new_row (me_target e) agent (me_org_id e) k c st p (source_turn (me_source e)) (me_created_at e) None"
  let ?m = "m\<lparr>agent_memories := agent_memories m @ [?t]\<rparr>"
  have v: "view_of m (me_target e) = None" using assms(4) PWrite by simp
  have i: "mt_id ?t = me_target e" by (simp add: new_row_def)
  have "apply_replay agent e m = (Ok (), ?m)"
    using assms(2,3) v PWrite
    by (simp add: apply_replay_def insert_memory_def agent_org_def mem_visible_def event_ok_def view_of_None)
  moreover have "row_ids_ok ?m" using assms(1) v by (simp add: row_ids_ok_def view_of_None i)
  moreover have "view_of ?m = (view_of m)(me_target e := effect e (view_of m (me_target e)))"
    using view_of_insert [of m ?t] v assms(3) by (simp add: i effect_def PWrite) (simp add: new_row_def row_view_def)
  moreover have "embedding_of ?m j = embedding_of m j" for j
    by (auto simp: embedding_of_def find_snoc new_row_def split: option.split)
  ultimately show ?thesis by (intro that [of ?m]) (simp_all add: base_tables_def)
next
  case (PUpdate b a k st p)
  let ?f = "\<lambda>t. t\<lparr>mt_row := (mt_row t)\<lparr>mm_content := a, mm_state := st, mm_pinned := p\<rparr>\<rparr>"
  let ?m = "update_memories (\<lambda>r. mm_id r = me_target e) ?f m"
  have "apply_replay agent e m = (Ok (), ?m)" using PUpdate by (simp add: apply_replay_def)
  moreover have "view_of ?m = (view_of m)(me_target e := effect e (view_of m (me_target e)))"
    using PUpdate view_of_update [of ?f "me_target e" m]
    by (simp add: effect_def) (simp add: view_of_def option.map_comp comp_def row_view_def)
  moreover have "embedding_of ?m j = embedding_of m j" for j
    using embedding_of_update [of ?f "me_target e" m j] by (simp add: embedding_of_def)
  ultimately show ?thesis
    using row_ids_update [OF assms(1), of ?f] by (intro that [of ?m]) (simp_all add: base_tables_def)
next
  case (PForget b)
  let ?m = "delete_memories (\<lambda>r. mm_id r = me_target e) m"
  have "apply_replay agent e m = (Ok (), ?m)" using PForget by (simp add: apply_replay_def)
  then show ?thesis
    using PForget row_ids_delete [OF assms(1)] embedding_of_delete [of "me_target e" m]
    by (intro that [of ?m]) (simp_all add: base_tables_def view_of_delete effect_def)
qed

lemma base_tables_event_ok: "base_tables m' = base_tables m \<Longrightarrow> event_ok m' = event_ok m"
  using event_ok_cong [of m' m] by (auto simp: base_tables_def fun_eq_iff)

lemma replay_all_effect:
  assumes "row_ids_ok m" and "\<forall>e \<in> set es. event_ok m e \<and> me_agent_id e = agent"
    and "\<And>i. writes_fresh (view_of m i) (events_on i es)"
  obtains m' where "replay_all agent es m = (Ok (), m')" "row_ids_ok m'" "base_tables m' = base_tables m"
    "\<And>i. view_of m' i = fold effect (events_on i es) (view_of m i)"
    "\<And>j. embedding_of m j = None \<Longrightarrow> embedding_of m' j = None"
    "\<And>j. events_on j es = [] \<Longrightarrow> embedding_of m' j = embedding_of m j"
  using assms
proof (induction es arbitrary: m thesis)
  case Nil
  show ?case by (rule Nil.prems(1) [of m]) (use Nil.prems(2) in simp_all)
next
  case (Cons e es)
  have e: "event_ok m e" "me_agent_id e = agent" using Cons.prems(3) by auto
  have fresh: "payload_mutation (me_payload e) = MWriteKind \<Longrightarrow> view_of m (me_target e) = None"
    using Cons.prems(4) [of "me_target e"] by simp
  obtain m1 where m1: "apply_replay agent e m = (Ok (), m1)" "row_ids_ok m1" "base_tables m1 = base_tables m"
    "view_of m1 = (view_of m)(me_target e := effect e (view_of m (me_target e)))"
    "\<And>j. embedding_of m j = None \<Longrightarrow> embedding_of m1 j = None"
    "\<And>j. j \<noteq> me_target e \<Longrightarrow> embedding_of m1 j = embedding_of m j"
    using apply_replay_effect [OF Cons.prems(2) e fresh] by metis
  have "\<forall>e \<in> set es. event_ok m1 e \<and> me_agent_id e = agent"
    using Cons.prems(3) by (simp add: base_tables_event_ok [OF m1(3)])
  moreover have "writes_fresh (view_of m1 i) (events_on i es)" for i
    using Cons.prems(4) [of i] by (simp add: m1(4) split: if_splits)
  ultimately obtain m2 where m2: "replay_all agent es m1 = (Ok (), m2)" "row_ids_ok m2" "base_tables m2 = base_tables m1"
    "\<And>i. view_of m2 i = fold effect (events_on i es) (view_of m1 i)"
    "\<And>j. embedding_of m1 j = None \<Longrightarrow> embedding_of m2 j = None"
    "\<And>j. events_on j es = [] \<Longrightarrow> embedding_of m2 j = embedding_of m1 j"
    using Cons.IH [OF _ m1(2)] by metis
  show ?case
  proof (rule Cons.prems(1) [of m2])
    show "replay_all agent (e # es) m = (Ok (), m2)" using e(1) m1(1) m2(1) by (simp add: event_ok_def)
    show "view_of m2 i = fold effect (events_on i (e # es)) (view_of m i)" for i using m2(4) by (simp add: m1(4))
    show "embedding_of m2 j = embedding_of m j" if "events_on j (e # es) = []" for j
      using that m2(6) [of j] m1(6) [of j] by (auto split: if_splits)
  qed (use m1 m2 in simp_all)
qed

definition set_embedding :: "memory_id \<Rightarrow> 'v \<Rightarrow> 'v mem_db \<Rightarrow> 'v mem_db" where
  "set_embedding i v = update_memories (\<lambda>r. mm_id r = i) (\<lambda>t. t\<lparr>mt_embedding := Some v\<rparr>)"

lemma set_embedding_effect:
  "row_ids_ok m \<Longrightarrow> row_ids_ok (set_embedding i v m)" "base_tables (set_embedding i v m) = base_tables m"
  "view_of (set_embedding i v m) = view_of m"
  "embedding_of (set_embedding i v m) j = (if j = i then (if view_of m i = None then None else Some v) else embedding_of m j)"
proof -
  let ?f = "\<lambda>t. t\<lparr>mt_embedding := Some v\<rparr>"
  show "row_ids_ok m \<Longrightarrow> row_ids_ok (set_embedding i v m)" using row_ids_update [of m ?f] by (simp add: set_embedding_def)
  show "base_tables (set_embedding i v m) = base_tables m" by (simp add: set_embedding_def base_tables_def)
  show "view_of (set_embedding i v m) = view_of m" unfolding set_embedding_def by (rule view_of_same) simp_all
  show "embedding_of (set_embedding i v m) j = (if j = i then (if view_of m i = None then None else Some v) else embedding_of m j)"
    using embedding_of_update [of ?f i m j]
    by (cases "find (\<lambda>t. mt_id t = i) (agent_memories m)") (simp_all add: view_of_def set_embedding_def)
qed

lemma restore_embeddings_simps:
  "restore_embeddings [] m = m" "restore_embeddings ((i, v) # snap) m = restore_embeddings snap (set_embedding i v m)"
  by (simp_all add: restore_embeddings_def set_embedding_def)

lemma restore_embeddings_effect:
  assumes "row_ids_ok m" and "distinct (map fst snap)"
  shows "row_ids_ok (restore_embeddings snap m) \<and> base_tables (restore_embeddings snap m) = base_tables m \<and>
    view_of (restore_embeddings snap m) = view_of m \<and>
    embedding_of (restore_embeddings snap m) j =
       (case map_of snap j of Some v \<Rightarrow> if view_of m j = None then None else Some v | None \<Rightarrow> embedding_of m j)"
  using assms
proof (induction snap arbitrary: m)
  case (Cons p snap)
  obtain i v where p: "p = (i, v)" by fastforce
  have "map_of snap i = None" using Cons.prems(2) by (simp add: p map_of_eq_None_iff)
  with Cons.IH [OF set_embedding_effect(1) [OF Cons.prems(1)]] Cons.prems(2) show ?case
    by (auto simp: p restore_embeddings_simps set_embedding_effect split: option.splits)
qed (simp add: restore_embeddings_simps)

text \<open>Replay order is journal order: on one memory the timestamps grow, so the ids decide nothing.\<close>

lemma sort_key_strict:
  assumes "sorted_wrt (<) (map f xs)" and "mset ys = mset xs"
  shows "sort_key f ys = xs"
proof (rule sort_key_inj_key_eq)
  have "inj_on f (set xs)" using assms(1) by (simp add: strict_sorted_iff distinct_map)
  then show "inj_on f (set ys)" using assms(2) by (metis set_mset_mset)
qed (use assms in \<open>simp_all add: strict_sorted_iff\<close>)

lemma journal_on:
  assumes "log_inv m"
  shows "events_on i (journal agent m) = events_on i (filter (\<lambda>e. me_agent_id e = agent) (memory_events m))"
proof -
  let ?es = "filter (\<lambda>e. me_agent_id e = agent) (memory_events m)"
  let ?xs = "events_on i ?es"
  have sorted: "sorted_wrt (<) (map me_created_at (events_on i (memory_events m)))" using assms by (simp add: log_inv_def)
  have x: "?xs = filter (\<lambda>e. me_agent_id e = agent) (events_on i (memory_events m))"
    by (simp add: conj_commute)
  from sorted have s: "sorted_wrt (<) (map me_created_at ?xs)"
    unfolding x sorted_wrt_map by (rule sorted_wrt_filter)
  have "events_on i (journal agent m) = sort_key me_created_at (sort_key me_id ?xs)"
    by (simp add: journal_def filter_sort)
  also have "\<dots> = ?xs"
    by (rule sort_key_strict [OF s]) simp
  finally show ?thesis .
qed

lemma find_conj_distinct:
  "distinct (map k rows) \<Longrightarrow>
   find (\<lambda>t. k t = i \<and> Q t) rows = (case find (\<lambda>t. k t = i) rows of Some t \<Rightarrow> if Q t then Some t else None | None \<Rightarrow> None)"
proof (induction rows)
  case (Cons t rows)
  have "k u \<noteq> k t" if "u \<in> set rows" for u using Cons.prems that by (metis distinct.simps(2) image_eqI list.set_map list.simps(9))
  then have "find (\<lambda>u. k u = k t \<and> Q u) rows = None" unfolding find_None_iff by blast
  then show ?case using Cons by (cases "k t = i") auto
qed simp

lemma view_of_delete_agent:
  assumes "row_ids_ok m"
  shows "view_of (delete_memories (\<lambda>r. mm_agent_id r = agent) m) i =
      (case view_of m i of Some v \<Rightarrow> if vw_agent v = agent then None else Some v | None \<Rightarrow> None)"
    "embedding_of (delete_memories (\<lambda>r. mm_agent_id r = agent) m) i =
      (case view_of m i of Some v \<Rightarrow> if vw_agent v = agent then None else embedding_of m i | None \<Rightarrow> None)"
proof -
  have "find (\<lambda>t. mt_id t = i \<and> mm_agent_id (mt_row t) \<noteq> agent) (agent_memories m) =
      (case find (\<lambda>t. mt_id t = i) (agent_memories m) of
         Some t \<Rightarrow> if mm_agent_id (mt_row t) = agent then None else Some t | None \<Rightarrow> None)"
    using find_conj_distinct [of mt_id "agent_memories m" i] assms
    by (simp add: row_ids_ok_def split: option.split)
  then show "view_of (delete_memories (\<lambda>r. mm_agent_id r = agent) m) i =
      (case view_of m i of Some v \<Rightarrow> if vw_agent v = agent then None else Some v | None \<Rightarrow> None)"
    "embedding_of (delete_memories (\<lambda>r. mm_agent_id r = agent) m) i =
      (case view_of m i of Some v \<Rightarrow> if vw_agent v = agent then None else embedding_of m i | None \<Rightarrow> None)"
    by (auto simp: view_of_def embedding_of_def delete_memories_def Let_def find_delete_where row_view_def split: option.split)
qed

lemma journal_events: "set (journal agent m) = {e \<in> set (memory_events m). me_agent_id e = agent}"
  by (auto simp: journal_def)

text \<open>An agent's part of a memory's events is all of them, or none.\<close>

definition own_on :: "agent_id \<Rightarrow> memory_id \<Rightarrow> 'v mem_db \<Rightarrow> memory_event list" where
  "own_on agent i m = events_on i (filter (\<lambda>e. me_agent_id e = agent) (memory_events m))"

lemma own_on_cases:
  assumes "log_inv m"
  shows "own_on agent i m = (if \<exists>e \<in> set (memory_events m). me_target e = i \<and> me_agent_id e = agent
    then events_on i (memory_events m) else [])"
proof (cases "\<exists>e \<in> set (memory_events m). me_target e = i \<and> me_agent_id e = agent")
  case True
  then obtain e where e: "e \<in> set (memory_events m)" "me_target e = i" "me_agent_id e = agent" by blast
  have "me_agent_id x = agent" if "x \<in> set (memory_events m)" "me_target x = i" for x
    using same_agent [OF assms that(1) e(1)] e that by simp
  then have "own_on agent i m = events_on i (memory_events m)"
    unfolding own_on_def filter_filter by (intro filter_cong) auto
  then show ?thesis using True by simp
next
  case False
  then show ?thesis by (auto simp: own_on_def filter_empty_conv)
qed

lemma own_on_fresh: "log_inv m \<Longrightarrow> writes_fresh None (own_on agent i m)"
proof -
  assume log: "log_inv m"
  then have "writes_fresh None (events_on i (memory_events m))" unfolding log_inv_def by blast
  then show ?thesis unfolding own_on_cases [OF log] by simp
qed

lemma own_on_dead: "mem_inv m \<Longrightarrow> view_of m i = None \<Longrightarrow> fold effect (own_on agent i m) None = None"
  using own_on_cases [of m agent i] by (auto simp: mem_inv_def projected_def split: if_splits)

lemma own_on_live:
  assumes "mem_inv m" and "view_of m i = Some v"
  shows "own_on agent i m = (if vw_agent v = agent then events_on i (memory_events m) else [])"
proof -
  from assms(2) obtain t where t: "live m i t" "v = row_view (mt_row t)" by (auto simp: view_of_def live_def)
  have a: "me_agent_id e = vw_agent v" if "e \<in> set (memory_events m)" "me_target e = i" for e
    using live_events_agent [OF assms(1) t(1) that] t(2) by (simp add: row_view_def)
  have "fold effect (events_on i (memory_events m)) None = Some v" using assms by (simp add: mem_inv_def projected_def)
  then have "events_on i (memory_events m) \<noteq> []" by auto
  then obtain e where "e \<in> set (memory_events m)" "me_target e = i" by (auto simp: filter_empty_conv)
  with a own_on_cases [of m agent i] assms(1) show ?thesis by (auto simp: mem_inv_def)
qed

lemma view_embedding: "view_of m j = None \<Longrightarrow> embedding_of m j = None"
  by (simp add: view_of_def embedding_of_def)

lemma snapshot_lookup:
  assumes "row_ids_ok m"
  shows "map_of (embedding_snapshot agent m) j =
    (case view_of m j of Some v \<Rightarrow> if vw_agent v = agent then embedding_of m j else None | None \<Rightarrow> None)"
proof -
  have "map_of (map (\<lambda>t. (mt_id t, the (mt_embedding t))) (filter P ts)) j =
      map_option (\<lambda>t. the (mt_embedding t)) (find (\<lambda>t. mt_id t = j \<and> P t) ts)" for P and ts :: "'a memory_trow list"
    by (induction ts) auto
  moreover have "find (\<lambda>t. mt_id t = j \<and> mm_agent_id (mt_row t) = agent \<and> mt_embedding t \<noteq> None) (agent_memories m) =
      (case find (\<lambda>t. mt_id t = j) (agent_memories m) of
         Some t \<Rightarrow> if mm_agent_id (mt_row t) = agent \<and> mt_embedding t \<noteq> None then Some t else None | None \<Rightarrow> None)"
    using assms by (intro find_conj_distinct) (simp add: row_ids_ok_def)
  ultimately show ?thesis unfolding embedding_snapshot_def
    by (auto simp: view_of_def embedding_of_def row_view_def split: option.split)
qed

lemma rebuild_effect:
  assumes inv: "mem_inv m"
  obtains m' where "rebuild_materialized agent m = (Ok (), m')" "mem_inv m'" "view_of m' = view_of m"
    "embedding_of m' = embedding_of m" "base_tables m' = base_tables m"
proof -
  let ?snap = "embedding_snapshot agent m"
  let ?m1 = "delete_memories (\<lambda>r. mm_agent_id r = agent) m" and ?own = "\<lambda>i. own_on agent i m"
  have ids: "row_ids_ok m" and log: "log_inv m" using inv by (simp_all add: mem_inv_def)
  have log1: "log_inv ?m1" using log by (subst log_inv_cong [of ?m1 m]) simp_all
  have own: "events_on i (journal agent ?m1) = ?own i" for i using journal_on [OF log1] by (simp only: own_on_def delete_memories_sel)
  note v1 = view_of_delete_agent [OF ids]
  have ok: "\<forall>e \<in> set (journal agent ?m1). event_ok ?m1 e \<and> me_agent_id e = agent"
    using log1 by (auto simp: journal_events log_inv_def)
  have fresh: "writes_fresh (view_of ?m1 i) (events_on i (journal agent ?m1))" for i
    using own_on_fresh [OF log, of agent i] own_on_live [OF inv, of i _ agent] unfolding own
    by (cases "view_of m i") (simp_all add: v1 split: if_splits)
  obtain m2 where m2: "replay_all agent (journal agent ?m1) ?m1 = (Ok (), m2)" "row_ids_ok m2" "base_tables m2 = base_tables ?m1"
    "\<And>i. view_of m2 i = fold effect (?own i) (view_of ?m1 i)"
    "\<And>j. embedding_of ?m1 j = None \<Longrightarrow> embedding_of m2 j = None" "\<And>j. ?own j = [] \<Longrightarrow> embedding_of m2 j = embedding_of ?m1 j"
    using replay_all_effect [OF row_ids_delete [OF ids] ok fresh] own by metis
  let ?m' = "restore_embeddings ?snap m2"
  have d: "distinct (map fst ?snap)" using ids by (simp add: embedding_snapshot_def row_ids_ok_def comp_def distinct_map_filter)
  note r = restore_embeddings_effect [OF m2(2) d]
  have base: "base_tables ?m' = base_tables m" using r m2(3) by (simp add: base_tables_def)
  have view2: "view_of m2 i = view_of m i" for i
  proof (cases "view_of m i")
    case None
    then show ?thesis using own_on_dead [OF inv None] by (simp add: m2(4) v1)
  next
    case (Some v)
    then have "fold effect (events_on i (memory_events m)) None = Some v" using inv by (simp add: mem_inv_def projected_def)
    then show ?thesis using own_on_live [OF inv Some, of agent] Some by (simp add: m2(4) v1)
  qed
  have view: "view_of ?m' = view_of m" using r view2 by (simp add: fun_eq_iff)
  have snap: "map_of ?snap j = (case view_of m j of Some v \<Rightarrow> if vw_agent v = agent then embedding_of m j else None | None \<Rightarrow> None)" for j
    by (rule snapshot_lookup [OF ids])
  have emb: "embedding_of ?m' j = embedding_of m j" for j
  proof (cases "view_of m j")
    case None
    then have "embedding_of ?m1 j = None" "embedding_of m j = None" by (simp_all add: v1 view_embedding)
    then show ?thesis using r None by (simp add: snap m2(5))
  next
    case (Some v)
    show ?thesis
    proof (cases "vw_agent v = agent")
      case True
      then have "embedding_of ?m1 j = None" using Some by (simp add: v1)
      then show ?thesis using r Some True view2 [of j] m2(5) by (cases "embedding_of m j") (simp_all add: snap)
    next
      case False
      then have "?own j = []" using own_on_live [OF inv Some] by simp
      then show ?thesis using r Some False by (simp add: snap m2(6) v1)
    qed
  qed
  have "mem_inv ?m'"
    using r view inv base log_inv_cong [of ?m' m] by (simp add: mem_inv_def base_tables_def)
  moreover have "rebuild_materialized agent m = (Ok (), ?m')"
    using m2(1) by (simp add: rebuild_materialized_def Let_def)
  moreover have "embedding_of ?m' = embedding_of m" using emb by (rule ext)
  ultimately show ?thesis using view base that by metis
qed

section \<open>Reachable states\<close>

text \<open>Any operation of the store, at a clock past the journal, with fresh identifiers and
  contents that passed \<open>MemoryContent\<close>; and any change of the runtime's tables that loses no request.\<close>

inductive mem_step :: "'v mem_db \<Rightarrow> 'v mem_db \<Rightarrow> bool" where
  apply_step: "past_journal now m \<Longrightarrow> fresh_memory mid m \<Longrightarrow> \<forall>c \<in> set (mutation_contents mu). content_ok c \<Longrightarrow>
    apply_scoped vo sc mu now mid eid m = (Ok out, m') \<Longrightarrow> mem_step m m'"
| validate_step: "past_journal now m \<Longrightarrow>
    run_tx (record_validation_in_tx sc agent memory origin det now vid eid) m = (Ok r, m') \<Longrightarrow> mem_step m m'"
| access_step: "run_tx (record_access_in_tx sc ids now) m = (Ok (), m') \<Longrightarrow> mem_step m m'"
| decay_step: "past_journal now m \<Longrightarrow> decay_validated agent cutoff now fresh m = (Ok n, m') \<Longrightarrow> mem_step m m'"
| mature_step: "past_journal now m \<Longrightarrow> mature_tentative agent cutoff now fresh m = (Ok n, m') \<Longrightarrow> mem_step m m'"
| evict_step: "past_journal now m \<Longrightarrow> evict_overflow agent quota now fresh m = (Ok gone, m') \<Longrightarrow> mem_step m m'"
| pin_step: "past_journal now m \<Longrightarrow> set_pinned agent memory p eid now m = (res, m') \<Longrightarrow> mem_step m m'"
| revert_step: "past_journal now m \<Longrightarrow> load_event agent eid m = Ok e \<Longrightarrow>
    (payload_mutation (me_payload e) = MForgetKind \<Longrightarrow> view_of m (me_target e) = None) \<Longrightarrow>
    revert_event agent eid inv_id now m = (res, m') \<Longrightarrow> mem_step m m'"
| contradiction_step: "record_contradiction agent a b reason now cid m = (Ok x, m') \<Longrightarrow> mem_step m m'"
| resolve_step: "run_tx (resolve_contradiction_in_tx sc i outc now) m = (Ok (), m') \<Longrightarrow> mem_step m m'"
| rebuild_step: "rebuild_materialized agent m = (res, m') \<Longrightarrow> mem_step m m'"
| core_step: "set (map pr_id (prompt_requests (md_core m))) \<subseteq> set (map pr_id (prompt_requests d)) \<Longrightarrow>
    mem_step m (m\<lparr>md_core := d\<rparr>)"

lemma inv_revert_event:
  assumes inv: "mem_inv m" and past: "past_journal now m" and load: "load_event agent eid m = Ok e"
    and dead: "payload_mutation (me_payload e) = MForgetKind \<Longrightarrow> view_of m (me_target e) = None"
    and ok: "revert_event agent eid inv_id now m = (res, m')"
  shows "mem_inv m'"
proof -
  let ?tx = "\<lambda>m. tx_bind (load_event agent eid m, m) (\<lambda>e m1.
                tx_bind (revert_in_tx agent e inv_id now m1) (\<lambda>_ m2. (Ok (me_target e), m2)))"
  obtain r m2 where run: "run_tx ?tx m = (r, m2)" by fastforce
  have "mem_inv m2"
  proof (cases r)
    case (Ok x)
    with run load obtain y where "revert_in_tx agent e inv_id now m = (Ok y, m2)" by (auto simp: tx_bind_Ok_iff)
    then show ?thesis using inv_revert_in_tx [OF inv past load] dead by blast
  next
    case (Err e)
    with run run_tx_rollback [OF run] inv show ?thesis by simp
  next
    case (Panic e)
    with run run_tx_rollback [OF run] inv show ?thesis by simp
  qed
  moreover have "m' = m2" using ok unfolding revert_event_def run by (cases r) simp_all
  ultimately show ?thesis by simp
qed

lemma inv_core:
  assumes "mem_inv m" and "set (map pr_id (prompt_requests (md_core m))) \<subseteq> set (map pr_id (prompt_requests d))"
  shows "mem_inv (m\<lparr>md_core := d\<rparr>)"
proof -
  let ?m = "m\<lparr>md_core := d\<rparr>"
  have "event_ok ?m e" if "event_ok m e" for e
    using that assms(2) by (auto simp: event_ok_def source_fk_ok_def split: option.splits)
  then have ok: "\<forall>e \<in> set (memory_events ?m). event_ok ?m e" using assms(1) unfolding mem_inv_def log_inv_def by simp
  have log: "log_inv m" using assms(1) by (simp add: mem_inv_def)
  have ev: "memory_events ?m = memory_events m" by simp
  have "log_inv ?m" unfolding log_inv_def [of ?m] using ok log [unfolded log_inv_def] unfolding ev by blast
  then show ?thesis using assms(1) view_of_cong [of ?m m] by (simp add: mem_inv_def row_ids_ok_def)
qed

interpretation memory: preserving "mem_step :: 'v mem_db \<Rightarrow> 'v mem_db \<Rightarrow> bool" mem_inv
proof
  fix m m' :: "'v mem_db"
  assume inv: "mem_inv m" and "mem_step m m'"
  from this(2) show "mem_inv m'"
  proof cases
    case contradiction_step
    then show ?thesis using mem_inv_tables [OF record_contradiction_tables inv] by simp
  next
    case resolve_step
    then show ?thesis using mem_inv_tables [OF resolve_contradiction_tables inv] by simp
  next
    case (core_step d)
    then show ?thesis using inv_core [OF inv] by simp
  next
    case (rebuild_step agent res)
    then show ?thesis using rebuild_effect [OF inv, of agent] by (metis prod.inject)
  qed (use inv in \<open>auto intro: inv_apply_scoped inv_validation inv_access inv_decay inv_mature inv_evict inv_set_pinned
         inv_revert_event\<close>)
qed

definition mem_start :: "db \<Rightarrow> (agent_id \<times> org_id) list \<Rightarrow> 'v mem_db" where
  "mem_start d orgs = \<lparr>md_core = d, md_agent_orgs = orgs, agent_memories = [], memory_events = [],
     contradiction_events = [], validation_events = []\<rparr>"

lemma mem_start_inv: "mem_inv (mem_start d orgs)"
  by (simp add: mem_start_def mem_inv_def log_inv_def row_ids_ok_def fun_eq_iff view_of_def projected_def)


end
