(* ===== verification/Memory_Guarantees.thy ===== *)
theory Memory_Guarantees
  imports Memory_Journal
begin

text \<open>
  What the memory store guarantees and where it falls short: pinned memories are out of reach of
  agents and of the librarian, mutations stay inside the tenant, eviction takes the weakest rows;
  and the operations after which the journal can no longer be replayed. The last section holds
  a concrete run with the witnesses.
\<close>

section \<open>Which memories an operation journals\<close>

definition grows :: "memory_id set \<Rightarrow> 'v mem_db \<Rightarrow> 'v mem_db \<Rightarrow> bool" where
  "grows T m m' \<longleftrightarrow> (\<exists>es. memory_events m' = memory_events m @ es \<and> me_target ` set es \<subseteq> T)"

lemma grows_refl: "memory_events m' = memory_events m \<Longrightarrow> grows T m m'"
  by (auto simp: grows_def)

lemma grows_trans: "grows T m m1 \<Longrightarrow> grows T m1 m' \<Longrightarrow> grows T m m'"
  by (auto simp: grows_def image_Un)

lemma grows_mono: "grows S m m' \<Longrightarrow> S \<subseteq> T \<Longrightarrow> grows T m m'"
  by (auto simp: grows_def)

lemma insert_event_grows: "insert_event sc eid agent target source now p m = (Ok x, m1) \<Longrightarrow> grows {target} m m1"
  by (auto simp: grows_def made_event_def elim!: insert_event_OkE)

lemma grows_view:
  assumes "mem_inv m" "mem_inv m'" "grows T m m'" "i \<notin> T"
  shows "view_of m' i = view_of m i"
proof -
  from assms(3) obtain es where es: "memory_events m' = memory_events m @ es" "me_target ` set es \<subseteq> T"
    by (auto simp: grows_def)
  then have "events_on i es = []" using assms(4) by (auto simp: filter_empty_conv)
  then show ?thesis using assms(1,2) es(1) by (simp add: mem_inv_def projected_def)
qed

lemma hold_rows_grows: "hold_rows fresh now ts n m = (Ok k, m') \<Longrightarrow> grows (mt_id ` set ts) m m'"
proof (induction ts arbitrary: n m)
  case (Cons t ts)
  then obtain m1 x where "insert_event Privileged (fresh n) (mm_agent_id (mt_row t)) (mt_id t) Librarian now
      (PUpdate (mm_content (mt_row t)) (mm_content (mt_row t)) (mm_kind (mt_row t)) Held (mm_pinned (mt_row t))) m = (Ok x, m1)"
    and rest: "grows (mt_id ` set ts) (update_memories (\<lambda>q. mm_id q = mt_id t) (set_state Held) m1) m'"
    by (auto simp: tx_bind_Ok_iff decode_memory_row_Ok_iff)
  from insert_event_grows [OF this(1)] have "grows (mt_id ` set (t # ts)) m m1" by (rule grows_mono) simp
  moreover from rest have "grows (mt_id ` set (t # ts)) m1 m'" by (auto simp: grows_def)
  ultimately show ?case by (rule grows_trans)
qed (simp add: grows_refl)

lemma evict_rows_grows: "evict_rows fresh agent now ts n m = (Ok gone, m') \<Longrightarrow> grows (mt_id ` set ts) m m'"
proof (induction ts arbitrary: n m gone)
  case (Cons t ts)
  then obtain m1 x where "insert_event Privileged (fresh n) agent (mt_id t) Librarian now (PForget (mm_content (mt_row t))) m = (Ok x, m1)"
    and rest: "grows (mt_id ` set ts) (delete_memories (\<lambda>q. mm_id q = mt_id t) m1) m'"
    by (auto simp: tx_bind_Ok_iff decode_memory_row_Ok_iff)
  from insert_event_grows [OF this(1)] have "grows (mt_id ` set (t # ts)) m m1" by (rule grows_mono) simp
  moreover from rest have "grows (mt_id ` set (t # ts)) m1 m'" by (auto simp: grows_def)
  ultimately show ?case by (rule grows_trans)
qed (simp add: grows_refl)

section \<open>Pinned memories\<close>

fun mutation_src :: "memory_mutation \<Rightarrow> mutation_source" where
  "mutation_src (MWrite _ _ _ _ _ s) = s"
| "mutation_src (MUpdate _ _ _ _ s) = s"
| "mutation_src (MForget _ _ s) = s"

definition pinned_at :: "'v mem_db \<Rightarrow> memory_id \<Rightarrow> bool" where
  "pinned_at m i \<longleftrightarrow> (\<exists>v. view_of m i = Some v \<and> vw_pinned v)"

text \<open>The steps nobody but the operator can take are left out: pins, reverts, operator mutations
  and endorsements.\<close>

inductive auto_step :: "'v mem_db \<Rightarrow> 'v mem_db \<Rightarrow> bool" where
  auto_apply: "past_journal now m \<Longrightarrow> fresh_memory mid m \<Longrightarrow> \<forall>c \<in> set (mutation_contents mu). content_ok c \<Longrightarrow>
    mutation_src mu \<noteq> Operator \<Longrightarrow> apply_scoped vo sc mu now mid eid m = (Ok out, m') \<Longrightarrow> auto_step m m'"
| auto_validate: "past_journal now m \<Longrightarrow>
    run_tx (record_validation_in_tx sc agent memory (AgentOrigin turn) det now vid eid) m = (Ok r, m') \<Longrightarrow> auto_step m m'"
| auto_access: "run_tx (record_access_in_tx sc ids now) m = (Ok (), m') \<Longrightarrow> auto_step m m'"
| auto_decay: "past_journal now m \<Longrightarrow> decay_validated agent cutoff now fresh m = (Ok n, m') \<Longrightarrow> auto_step m m'"
| auto_mature: "past_journal now m \<Longrightarrow> mature_tentative agent cutoff now fresh m = (Ok n, m') \<Longrightarrow> auto_step m m'"
| auto_evict: "past_journal now m \<Longrightarrow> evict_overflow agent quota now fresh m = (Ok gone, m') \<Longrightarrow> auto_step m m'"
| auto_contradiction: "record_contradiction agent a b reason now cid m = (Ok x, m') \<Longrightarrow> auto_step m m'"
| auto_resolve: "run_tx (resolve_contradiction_in_tx sc i outc now) m = (Ok (), m') \<Longrightarrow> auto_step m m'"
| auto_rebuild: "rebuild_materialized agent m = (res, m') \<Longrightarrow> auto_step m m'"
| auto_core: "set (map pr_id (prompt_requests (md_core m))) \<subseteq> set (map pr_id (prompt_requests d)) \<Longrightarrow>
    auto_step m (m\<lparr>md_core := d\<rparr>)"

lemma auto_step_mem: "auto_step m m' \<Longrightarrow> mem_step m m'"
  by (induction rule: auto_step.induct) (erule (3) mem_step.intros | erule (2) mem_step.intros | erule (1) mem_step.intros | erule mem_step.intros)+

lemma lock_unpinned:
  assumes "lock_existing sc agent target source m = Ok r" "row_ids_ok m" "source \<noteq> Operator"
  shows "\<not> pinned_at m target"
  using assms by (auto elim!: lock_existing_OkE simp: pinned_at_def row_view_def dest!: live_view)

lemma unpinned_rows:
  assumes "row_ids_ok m" "t \<in> set (agent_memories m)" "\<not> mm_pinned (mt_row t)"
  shows "\<not> pinned_at m (mt_id t)"
proof -
  have "live m (mt_id t) t" using assms(1,2) by (simp add: live_iff)
  from live_view [OF this] assms(3) show ?thesis by (simp add: pinned_at_def row_view_def)
qed

lemma auto_step_grows:
  assumes inv: "mem_inv m" and step: "auto_step m m'"
  shows "grows {i. \<not> pinned_at m i} m m'"
  using step
proof cases
  case (auto_apply now mid mu vo sc eid out)
  note ids = mem_inv_ids [OF inv]
  from auto_apply obtain emb where tx: "apply_in_tx sc mu emb now mid eid m = (Ok out, m')"
    by (auto simp: apply_scoped_def tx_bind_Ok_iff)
  have mid: "\<not> pinned_at m mid" using fresh_memory_view [OF inv auto_apply(2)] by (simp add: pinned_at_def)
  show ?thesis
  proof (cases mu)
    case (MWrite agent k c st p source)
    then obtain v m1 x where "insert_event sc eid agent mid source now (PWrite c k st p) m = (Ok x, m1)"
      "memory_events m' = memory_events m1"
      using tx by (auto simp: apply_write_def tx_bind_Ok_iff insert_memory_def split: option.splits if_splits)
    from insert_event_grows [OF this(1)] this(2) mid show ?thesis by (auto simp: grows_def)
  next
    case (MUpdate agent target c st source)
    then obtain r m1 x where lock: "lock_existing sc agent target source m = Ok r"
      and "insert_event sc eid agent target source now (PUpdate (mm_content r) c (mm_kind r) st (mm_pinned r)) m = (Ok x, m1)"
      "memory_events m' = memory_events m1"
      using tx by (auto simp: apply_update_def Let_def tx_bind_Ok_iff split: option.splits)
    from insert_event_grows [OF this(2)] this(3) lock_unpinned [OF lock ids] auto_apply(4) MUpdate show ?thesis
      by (auto simp: grows_def)
  next
    case (MForget agent target source)
    then obtain r m1 x where lock: "lock_existing sc agent target source m = Ok r"
      and "insert_event sc eid agent target source now (PForget (mm_content r)) m = (Ok x, m1)"
      "memory_events m' = memory_events m1"
      using tx by (auto simp: apply_forget_def tx_bind_Ok_iff)
    from insert_event_grows [OF this(2)] this(3) lock_unpinned [OF lock ids] auto_apply(4) MForget show ?thesis
      by (auto simp: grows_def)
  qed
next
  case (auto_validate now sc agent memory turn det vid eid r)
  then obtain p m1 m2 x y where lock: "lock_existing sc agent memory (Turn turn) m = Ok p"
    and val: "insert_validation sc vid agent memory ExternalConfirmation det now m = (Ok x, m1)"
    and "insert_event sc eid agent memory (Turn turn) now
       (PUpdate (mm_content p) (mm_content p) (mm_kind p) (validated_state (mm_state p)) (mm_pinned p)) m1 = (Ok y, m2)"
    and "memory_events m' = memory_events m2"
    by (auto simp: record_validation_in_tx_def Let_def tx_bind_Ok_iff)
  moreover from val have "memory_events m1 = memory_events m"
    by (auto simp: insert_validation_def split: option.splits if_splits)
  ultimately show ?thesis
    using insert_event_grows [of sc eid agent memory "Turn turn"] lock_unpinned [OF lock mem_inv_ids [OF inv]]
    by (fastforce simp: grows_def)
next
  case (auto_decay now agent cutoff fresh n)
  then have "grows (mt_id ` set (filter (\<lambda>t. decayed agent cutoff (mt_row t)) (agent_memories m))) m m'"
    unfolding decay_validated_def run_tx_Ok_iff by (intro hold_rows_grows)
  then show ?thesis by (rule grows_mono) (auto simp: decayed_def dest: unpinned_rows [OF mem_inv_ids [OF inv]])
next
  case (auto_mature now agent cutoff fresh n)
  then have "grows (mt_id ` set (filter (\<lambda>t. matured m agent cutoff (mt_row t)) (agent_memories m))) m m'"
    unfolding mature_tentative_def run_tx_Ok_iff by (intro hold_rows_grows)
  then show ?thesis by (rule grows_mono) (auto simp: matured_def dest: unpinned_rows [OF mem_inv_ids [OF inv]])
next
  case (auto_evict now agent quota fresh gone)
  let ?ts = "filter (\<lambda>t. mm_agent_id (mt_row t) = agent \<and> \<not> mm_pinned (mt_row t)) (agent_memories m)"
  have sub: "mt_id ` set (take n (eviction_order ?ts)) \<subseteq> {i. \<not> pinned_at m i}" for n
    using eviction_order_take(1) [of n ?ts] unpinned_rows [OF mem_inv_ids [OF inv]] by auto
  from auto_evict consider "m' = m" | n where "grows (mt_id ` set (take n (eviction_order ?ts))) m m'"
    by (auto simp: evict_overflow_def Let_def split: if_splits intro: evict_rows_grows)
  then show ?thesis using grows_mono [OF _ sub] by cases (auto simp: grows_refl)
next
  case auto_contradiction
  then show ?thesis using record_contradiction_tables by (fastforce simp: journal_tables_def intro: grows_refl)
next
  case auto_resolve
  then show ?thesis using resolve_contradiction_tables by (fastforce simp: journal_tables_def intro: grows_refl)
next
  case (auto_rebuild agent res)
  obtain m2 where "rebuild_materialized agent m = (Ok (), m2)" "base_tables m2 = base_tables m"
    by (rule rebuild_effect [OF inv, of agent])
  with auto_rebuild show ?thesis by (intro grows_refl) (simp add: base_tables_def)
qed (auto simp: record_access_in_tx_def Let_def intro: grows_refl split: if_splits)

text \<open>C20. Pinned memories are out of reach of everyone but the operator: under any sequence of agent
  mutations, agent validations, librarian sweeps, accesses and rebuilds a pinned memory stays,
  with its content, state and pin.\<close>
theorem pinned_memory_survives:
  assumes "mem_inv m" and "auto_step\<^sup>*\<^sup>* m m'" and "view_of m i = Some v" and "vw_pinned v"
  shows "view_of m' i = Some v"
  using assms(2)
proof (induction rule: rtranclp_induct)
  case base
  show ?case by (rule assms(3))
next
  case (step a b)
  have inv: "mem_inv a"
    using memory.run_inv [OF mono_rtranclp [rule_format, OF auto_step_mem step(1)] assms(1)] .
  then have "mem_inv b" using memory.step_inv auto_step_mem [OF step(2)] by blast
  from grows_view [OF inv this auto_step_grows [OF inv step(2)], of i] step.IH assms(4) show ?case
    by (simp add: pinned_at_def)
qed

section \<open>Tenancy\<close>

fun mutation_agent :: "memory_mutation \<Rightarrow> agent_id" where
  "mutation_agent (MWrite a _ _ _ _ _) = a"
| "mutation_agent (MUpdate a _ _ _ _) = a"
| "mutation_agent (MForget a _ _) = a"

lemma apply_in_tx_event:
  assumes "apply_in_tx sc mu emb now mid eid m = (Ok out, m')"
  obtains m1 p x where "insert_event sc eid (mutation_agent mu) (mo_memory_id out) (mutation_src mu) now p m = (Ok x, m1)"
    "memory_events m' = memory_events m1" "mo_event_id out = eid"
proof (cases mu)
  case (MWrite agent k c st p source)
  then obtain m1 x where "insert_event sc eid agent mid source now (PWrite c k st p) m = (Ok x, m1)"
    "memory_events m' = memory_events m1" "mo_event_id out = eid" "mo_memory_id out = mid"
    using assms by (auto simp: apply_write_def tx_bind_Ok_iff insert_memory_def split: option.splits if_splits)
  with MWrite that show ?thesis by simp
next
  case (MUpdate agent target c st source)
  then obtain r :: memory_row and m1 x where "insert_event sc eid agent target source now (PUpdate (mm_content r) c (mm_kind r) st (mm_pinned r)) m = (Ok x, m1)"
    "memory_events m' = memory_events m1" "mo_event_id out = eid" "mo_memory_id out = target"
    using assms by (auto simp: apply_update_def Let_def tx_bind_Ok_iff split: option.splits)
  with MUpdate that show ?thesis by simp
next
  case (MForget agent target source)
  then obtain r :: memory_row and m1 x where "insert_event sc eid agent target source now (PForget (mm_content r)) m = (Ok x, m1)"
    "memory_events m' = memory_events m1" "mo_event_id out = eid" "mo_memory_id out = target"
    using assms by (auto simp: apply_forget_def tx_bind_Ok_iff)
  with MForget that show ?thesis by simp
qed

fun mutation_target :: "memory_mutation \<Rightarrow> memory_id option" where
  "mutation_target (MWrite _ _ _ _ _ _) = None"
| "mutation_target (MUpdate _ i _ _ _) = Some i"
| "mutation_target (MForget _ i _) = Some i"

text \<open>The memory a mutation names is the agent's own and in an organisation the caller sees.\<close>

lemma apply_in_tx_target:
  assumes "row_ids_ok m" and "apply_in_tx sc mu emb now mid eid m = (Ok out, m')" and "mutation_target mu = Some i"
  shows "mo_memory_id out = i \<and>
    (\<exists>v. view_of m i = Some v \<and> vw_agent v = mutation_agent mu \<and> mem_visible sc m (vw_org v))"
proof -
  obtain r where out: "mo_memory_id out = i" and r: "lock_existing sc (mutation_agent mu) i (mutation_src mu) m = Ok r"
    using assms(2,3)
    by (cases mu) (auto simp: apply_update_def apply_forget_def Let_def tx_bind_Ok_iff split: option.splits)
  obtain t where "live m i t" "r = mt_row t" "mm_agent_id r = mutation_agent mu" "mem_visible sc m (mm_org_id r)"
    using lock_existing_OkE [OF r assms(1)] by metis
  then show ?thesis using out live_view [of m i t] by (simp add: row_view_def)
qed

lemma apply_in_tx_new:
  assumes "apply_in_tx sc mu emb now mid eid m = (Ok out, m')" and "mutation_target mu = None"
  shows "mo_memory_id out = mid \<and> view_of m mid = None"
proof -
  from assms(2) obtain agent k c st p source where mu: "mu = MWrite agent k c st p source" by (cases mu) auto
  with assms(1) obtain v m1 m2 where ins: "insert_event sc eid agent mid source now (PWrite c k st p) m = (Ok (), m1)"
    and row: "insert_memory sc mid agent k c st p source now (Some v) m1 = (Ok (), m2)" and out: "mo_memory_id out = mid"
    by (auto simp: apply_write_def tx_bind_Ok_iff split: option.splits)
  have "mid \<notin> set (map mt_id (agent_memories m1))" using row by (auto simp: insert_memory_def split: option.splits if_splits)
  then show ?thesis using out by (simp add: view_of_None insert_event_tables(1) [OF ins])
qed

text \<open>C21. A mutation on behalf of a user stays in the user's organisations. When it succeeds, the agent
  belongs to an organisation the user is a member of; a write takes an id no memory had, and an
  update or forget hits a memory that was the agent's own, in an organisation of the user;
  exactly one event was journaled, for that agent, organisation and memory; and no other memory
  shows anything new.\<close>
theorem mutation_stays_in_tenant:
  assumes "mem_inv m" and "past_journal now m" and "fresh_memory mid m" and "\<forall>c \<in> set (mutation_contents mu). content_ok c"
    and "apply_for_user vo u mu now mid eid m = (Ok out, m')"
  shows "\<exists>org e. (u, org) \<in> set (org_members (md_core m)) \<and> map_of (md_agent_orgs m) (mutation_agent mu) = Some org \<and>
    (case mutation_target mu of
       None \<Rightarrow> mo_memory_id out = mid \<and> view_of m mid = None
     | Some i \<Rightarrow> mo_memory_id out = i \<and>
         (\<exists>v. view_of m i = Some v \<and> vw_agent v = mutation_agent mu \<and> (u, vw_org v) \<in> set (org_members (md_core m)))) \<and>
    memory_events m' = memory_events m @ [e] \<and>
    me_agent_id e = mutation_agent mu \<and> me_org_id e = org \<and> me_id e = mo_event_id out \<and> me_target e = mo_memory_id out \<and>
    view_of m' = (view_of m)(mo_memory_id out := effect e (view_of m (mo_memory_id out)))"
proof -
  from assms(5) obtain emb where tx: "apply_in_tx (AsUser u) mu emb now mid eid m = (Ok out, m')"
    by (auto simp: apply_for_user_def apply_scoped_def tx_bind_Ok_iff)
  from apply_in_tx_event [OF tx] obtain m1 p x where ins: "insert_event (AsUser u) eid (mutation_agent mu) (mo_memory_id out) (mutation_src mu) now p m = (Ok x, m1)"
    and ev: "memory_events m' = memory_events m1" "mo_event_id out = eid" by blast
  from ins obtain org where org: "mem_visible (AsUser u) m org" "map_of (md_agent_orgs m) (mutation_agent mu) = Some org"
    and m1: "m1 = m\<lparr>memory_events := memory_events m @
      [made_event eid (mutation_agent mu) org (mo_memory_id out) (mutation_src mu) now p]\<rparr>"
    by (rule insert_event_OkE)
  let ?e = "made_event eid (mutation_agent mu) org (mo_memory_id out) (mutation_src mu) now p"
  have inv': "mem_inv m'"
    using inv_apply_scoped [OF assms(1-4)] assms(5) by (simp add: apply_for_user_def)
  have evs: "memory_events m' = memory_events m @ [?e]" using ev m1 by simp
  then have view: "view_of m' = (view_of m)(mo_memory_id out := effect ?e (view_of m (mo_memory_id out)))"
    using assms(1) inv' by (simp add: mem_inv_def projected_snoc made_event_def)
  have "case mutation_target mu of
       None \<Rightarrow> mo_memory_id out = mid \<and> view_of m mid = None
     | Some i \<Rightarrow> mo_memory_id out = i \<and>
         (\<exists>v. view_of m i = Some v \<and> vw_agent v = mutation_agent mu \<and> (u, vw_org v) \<in> set (org_members (md_core m)))"
    using apply_in_tx_new [OF tx] apply_in_tx_target [OF _ tx] assms(1)
    by (auto simp: mem_inv_def mem_visible_def split: option.split)
  then show ?thesis using org evs ev(2) view by (intro exI [of _ org] exI [of _ ?e]) (simp add: mem_visible_def made_event_def)
qed

section \<open>Eviction\<close>

definition lex_key :: "('a \<Rightarrow> 'k::linorder) \<Rightarrow> ('a \<Rightarrow> 'a \<Rightarrow> bool) \<Rightarrow> 'a \<Rightarrow> 'a \<Rightarrow> bool" where
  "lex_key f R x y \<longleftrightarrow> f x < f y \<or> f x = f y \<and> R x y"

text \<open>A stable sort refines the order the list already has.\<close>

lemma insort_key_lex:
  "sorted_wrt (lex_key f R) zs \<Longrightarrow> \<forall>z \<in> set zs. R x z \<Longrightarrow> sorted_wrt (lex_key f R) (insort_key f x zs)"
  by (induction zs) (auto simp: lex_key_def set_insort_key)

lemma sort_key_lex: "sorted_wrt R xs \<Longrightarrow> sorted_wrt (lex_key f R) (sort_key f xs)"
  by (induction xs) (auto intro: insort_key_lex)

definition weaker :: "'v memory_trow \<Rightarrow> 'v memory_trow \<Rightarrow> bool" where
  "weaker t u \<longleftrightarrow> lex_key (\<lambda>t. priority (mm_state (mt_row t)))
     (lex_key (\<lambda>t. mm_last_accessed_at (mt_row t)) (lex_key (\<lambda>t. mm_access_count (mt_row t)) (\<lambda>_ _. True))) t u"

lemma eviction_order_sorted: "sorted_wrt weaker (eviction_order ts)"
proof -
  have "sorted_wrt (\<lambda>_ _. True) ts" by (induction ts) auto
  then show ?thesis unfolding eviction_order_def weaker_def by (intro sort_key_lex)
qed

lemma evict_rows_effect:
  assumes "evict_rows fresh agent now ts n m = (Ok gone, m')"
  shows "gone = map mt_id ts \<and> agent_memories m' = filter (\<lambda>t. mt_id t \<notin> set gone) (agent_memories m)"
  using assms
proof (induction ts arbitrary: n m gone)
  case (Cons t ts)
  then obtain m1 x rest where ins: "insert_event Privileged (fresh n) agent (mt_id t) Librarian now (PForget (mm_content (mt_row t))) m = (Ok x, m1)"
    and rec: "evict_rows fresh agent now ts (n + 1) (delete_memories (\<lambda>q. mm_id q = mt_id t) m1) = (Ok rest, m')"
    and g: "gone = mt_id t # rest"
    by (auto simp: tx_bind_Ok_iff decode_memory_row_Ok_iff)
  from Cons.IH [OF rec] show ?case
    by (simp add: g delete_memories_def Let_def delete_where_def insert_event_tables(1) [OF ins] conj_commute)
qed simp

lemma length_filter_split: "length (filter P xs) = length (filter (\<lambda>x. P x \<and> Q x) xs) + length (filter (\<lambda>x. P x \<and> \<not> Q x) xs)"
  by (induction xs) auto

text \<open>Eviction takes the weakest memories and no more than needed: it removes exactly the rows it
  reports, none of them pinned, each weaker than every unpinned row of the agent that stays (lower
  state, or longer unused, or used less), and leaves the agent within the quota unless what is
  left is pinned.\<close>
theorem eviction_takes_weakest:
  assumes "mem_inv m" and "evict_overflow agent quota now fresh m = (Ok gone, m')"
  shows "agent_memories m' = filter (\<lambda>t. mt_id t \<notin> set gone) (agent_memories m) \<and>
    (\<forall>t \<in> set (agent_memories m). mt_id t \<in> set gone \<longrightarrow> mm_agent_id (mt_row t) = agent \<and> \<not> mm_pinned (mt_row t) \<and>
       (\<forall>u \<in> set (agent_memories m'). mm_agent_id (mt_row u) = agent \<and> \<not> mm_pinned (mt_row u) \<longrightarrow> weaker t u)) \<and>
    length gone = min (length (filter (\<lambda>t. mm_agent_id (mt_row t) = agent) (agent_memories m)) - quota)
                      (length (filter (\<lambda>t. mm_agent_id (mt_row t) = agent \<and> \<not> mm_pinned (mt_row t)) (agent_memories m)))"
proof -
  let ?own = "filter (\<lambda>t. mm_agent_id (mt_row t) = agent) (agent_memories m)"
  let ?ts = "filter (\<lambda>t. mm_agent_id (mt_row t) = agent \<and> \<not> mm_pinned (mt_row t)) (agent_memories m)"
  let ?k = "length ?own - quota"
  let ?out = "take ?k (eviction_order ?ts)"
  have set: "set (eviction_order ?ts) = set ?ts" and len: "length (eviction_order ?ts) = length ?ts"
    by (simp_all add: eviction_order_def)
  have eff: "gone = map mt_id ?out \<and> agent_memories m' = filter (\<lambda>t. mt_id t \<notin> set gone) (agent_memories m)"
  proof (cases "length ?own \<le> quota")
    case True
    then show ?thesis using assms(2) by (auto simp: evict_overflow_def Let_def)
  next
    case False
    then have "evict_rows fresh agent now ?out 0 m = (Ok gone, m')" using assms(2) by (simp add: evict_overflow_def Let_def)
    then show ?thesis by (rule evict_rows_effect)
  qed
  have ids: "t = u" if "t \<in> set (agent_memories m)" "u \<in> set (agent_memories m)" "mt_id t = mt_id u" for t u
    using mem_inv_ids [OF assms(1)] that unfolding row_ids_ok_def by (rule distinct_map_eqD)
  have out: "t \<in> set ?out" if t: "t \<in> set (agent_memories m)" and g: "mt_id t \<in> set gone" for t
  proof -
    from g obtain u where u: "u \<in> set ?out" "mt_id u = mt_id t" using eff by auto
    then have "u \<in> set (agent_memories m)" using eviction_order_take(1) [of ?k ?ts] by auto
    with ids [OF t _ u(2) [symmetric]] u(1) show ?thesis by simp
  qed
  have weak: "weaker t u" if t: "t \<in> set ?out" and u: "u \<in> set (agent_memories m')" "mm_agent_id (mt_row u) = agent" "\<not> mm_pinned (mt_row u)" for t u
  proof -
    have "u \<in> set (eviction_order ?ts)" "u \<notin> set ?out" using u eff set by auto
    moreover have "set (eviction_order ?ts) = set ?out \<union> set (drop ?k (eviction_order ?ts))"
      by (simp only: set_append [symmetric] append_take_drop_id)
    ultimately have "u \<in> set (drop ?k (eviction_order ?ts))" by blast
    moreover have "sorted_wrt weaker (?out @ drop ?k (eviction_order ?ts))" using eviction_order_sorted by simp
    ultimately show ?thesis using t unfolding sorted_wrt_append by blast
  qed
  have own: "mm_agent_id (mt_row t) = agent \<and> \<not> mm_pinned (mt_row t)" if "t \<in> set ?out" for t
    using that eviction_order_take(1) [of ?k ?ts] by auto
  have "length gone = min ?k (length ?ts)" using eff len by simp
  moreover have "agent_memories m' = filter (\<lambda>t. mt_id t \<notin> set gone) (agent_memories m)" using eff ..
  moreover have "\<forall>t \<in> set (agent_memories m). mt_id t \<in> set gone \<longrightarrow> mm_agent_id (mt_row t) = agent \<and> \<not> mm_pinned (mt_row t) \<and>
       (\<forall>u \<in> set (agent_memories m'). mm_agent_id (mt_row u) = agent \<and> \<not> mm_pinned (mt_row u) \<longrightarrow> weaker t u)"
  proof (intro ballI impI)
    fix t
    assume "t \<in> set (agent_memories m)" "mt_id t \<in> set gone"
    from out [OF this] have "t \<in> set ?out" .
    then show "mm_agent_id (mt_row t) = agent \<and> \<not> mm_pinned (mt_row t) \<and>
       (\<forall>u \<in> set (agent_memories m'). mm_agent_id (mt_row u) = agent \<and> \<not> mm_pinned (mt_row u) \<longrightarrow> weaker t u)"
      using own weak by blast
  qed
  ultimately show ?thesis by argo
qed

section \<open>Where the journal and the table part\<close>

lemma replay_all_conflict:
  assumes "row_ids_ok m" and "\<forall>e \<in> set es. event_ok m e \<and> me_agent_id e = agent"
    and "\<not> writes_fresh (view_of m i) (events_on i es)"
  shows "fst (replay_all agent es m) = Err (MDb ''agent_memories_pkey'')"
  using assms
proof (induction es arbitrary: m)
  case (Cons e es)
  have e: "event_ok m e" "me_agent_id e = agent" using Cons.prems(2) by auto
  then have step: "replay_all agent (e # es) m = tx_bind (apply_replay agent e m) (\<lambda>_. replay_all agent es)"
    by (simp add: event_ok_def)
  show ?case
  proof (cases "payload_mutation (me_payload e) = MWriteKind \<and> view_of m (me_target e) \<noteq> None")
    case True
    then obtain c k st p where "me_payload e = PWrite c k st p" by (cases "me_payload e") auto
    moreover have "me_target e \<in> mt_id ` set (agent_memories m)" using True by (auto simp: view_of_None)
    ultimately have "apply_replay agent e m = (Err (MDb ''agent_memories_pkey''), m)"
      using e by (simp add: apply_replay_def insert_memory_def agent_org_def mem_visible_def event_ok_def)
    then show ?thesis unfolding step by simp
  next
    case False
    then obtain m1 where m1: "apply_replay agent e m = (Ok (), m1)" "row_ids_ok m1" "base_tables m1 = base_tables m"
      "view_of m1 = (view_of m)(me_target e := effect e (view_of m (me_target e)))"
      using apply_replay_effect [OF Cons.prems(1) e] by metis
    have "\<not> writes_fresh (view_of m1 i) (events_on i es)"
      using Cons.prems(3) False by (auto simp: m1(4) split: if_splits)
    moreover have "\<forall>e \<in> set es. event_ok m1 e \<and> me_agent_id e = agent"
      using Cons.prems(2) by (simp add: base_tables_event_ok [OF m1(3)])
    ultimately show ?thesis unfolding step using Cons.IH [OF m1(2)] m1(1) by simp
  qed
qed simp

text \<open>Restoring a forgotten memory twice ruins its journal: the second revert of the same forget
  succeeds, leaves the table as it is and journals one more write, after which a rebuild of the agent
  fails with a duplicate key, for good.\<close>
theorem second_restore_breaks_rebuild:
  assumes "mem_inv m" and "past_journal now m" and "load_event agent eid m = Ok e"
    and "me_payload e = PForget bef" and "view_of m (me_target e) \<noteq> None"
    and "revert_event agent eid inv_id now m = (Ok out, m')"
  shows "view_of m' = view_of m \<and> rebuild_materialized agent m' = (Err (MDb ''agent_memories_pkey''), m')"
proof -
  let ?i = "me_target e"
  note le = load_event_Ok [OF assms(3)]
  from assms(3,4,6) obtain k st p m1 x y where
    ins: "insert_event Privileged inv_id agent ?i Operator now (PWrite bef k st p) m = (Ok x, m1)"
    and row: "(if ?i \<in> set (map mt_id (agent_memories m1)) then (Ok (), m1)
       else insert_memory Privileged ?i agent k bef st p Operator now None m1) = (Ok y, m')"
    by (auto simp: revert_event_def revert_in_tx_def revert_forget_def tx_bind_Ok_iff)
  note t = insert_event_tables [OF ins]
  have m': "m' = m1" using row assms(5) by (simp add: t view_of_None split: if_splits)
  from ins obtain org where org: "map_of (md_agent_orgs m) agent = Some org" "source_fk_ok Operator m"
    and m1: "m1 = m\<lparr>memory_events := memory_events m @ [made_event inv_id agent org ?i Operator now (PWrite bef k st p)]\<rparr>"
    by (rule insert_event_OkE)
  let ?e = "made_event inv_id agent org ?i Operator now (PWrite bef k st p)"
  let ?m0 = "delete_memories (\<lambda>r. mm_agent_id r = agent) m'"
  have view: "view_of m' = view_of m" by (simp add: m' view_of_cong [OF t(1)])
  have ids: "row_ids_ok m'" using mem_inv_ids [OF assms(1)] by (simp add: m' row_ids_ok_def t)
  have log: "log_inv m" using assms(1) by (simp add: mem_inv_def)
  have own: "me_agent_id z = agent" if "z \<in> set (memory_events m)" "me_target z = ?i" for z
    using same_agent [OF log that(1), of e] that(2) le by simp
  have dead: "view_of ?m0 ?i = None"
  proof -
    obtain tr where tr: "live m ?i tr" using assms(5) by (auto simp: view_of_def live_def)
    have "mm_agent_id (mt_row tr) = agent" using live_events_agent [OF assms(1) tr] le by metis
    then show ?thesis using view_of_delete_agent(1) [OF ids] live_view [OF tr] view by (simp add: row_view_def)
  qed
  have evs: "events_on ?i (journal agent ?m0) = events_on ?i (memory_events m) @ [?e]"
  proof -
    let ?xs = "events_on ?i (memory_events m) @ [?e]"
    have "events_on ?i (filter (\<lambda>z. me_agent_id z = agent) (memory_events m)) = events_on ?i (memory_events m)"
      unfolding filter_filter using own by (intro filter_cong) auto
    then have sub: "events_on ?i (filter (\<lambda>z. me_agent_id z = agent) (memory_events ?m0)) = ?xs"
      by (simp add: m' m1 made_event_def del: filter_filter)
    have "sorted_wrt (<) (map me_created_at (events_on ?i (memory_events m)))" using log by (simp add: log_inv_def)
    then have s: "sorted_wrt (<) (map me_created_at ?xs)"
      using assms(2) by (auto simp: sorted_wrt_append past_journal_def made_event_def)
    have "events_on ?i (journal agent ?m0) = sort_key me_created_at (sort_key me_id ?xs)"
      unfolding journal_def filter_sort sub ..
    also have "\<dots> = ?xs" by (rule sort_key_strict [OF s]) simp
    finally show ?thesis .
  qed
  have "fold effect (events_on ?i (memory_events m)) None \<noteq> None"
    using assms(1,5) by (simp add: mem_inv_def projected_def)
  then have clash: "\<not> writes_fresh (view_of ?m0 ?i) (events_on ?i (journal agent ?m0))"
    unfolding evs dead by (simp add: writes_fresh_append made_event_def)
  have tabs: "md_core ?m0 = md_core m" "md_agent_orgs ?m0 = md_agent_orgs m" by (simp_all add: m' m1)
  have "event_ok m ?e" using org le assms(4) by (simp add: event_ok_def decode_memory_event_Ok_iff made_event_def)
  moreover have "\<forall>z \<in> set (memory_events m). event_ok m z" using log unfolding log_inv_def by blast
  moreover have "set (memory_events ?m0) = insert ?e (set (memory_events m))" by (auto simp: m' m1)
  ultimately have ok: "\<forall>z \<in> set (journal agent ?m0). event_ok ?m0 z \<and> me_agent_id z = agent"
    unfolding journal_events event_ok_cong [OF tabs] by auto
  from replay_all_conflict [OF row_ids_delete [OF ids] ok clash]
  have "fst (replay_all agent (journal agent ?m0) ?m0) = Err (MDb ''agent_memories_pkey'')" .
  then have "rebuild_materialized agent m' = (Err (MDb ''agent_memories_pkey''), m')"
    by (cases "replay_all agent (journal agent ?m0) ?m0") (simp add: rebuild_materialized_def Let_def run_tx_def)
  with view show ?thesis by simp
qed

text \<open>The store's cap on an agent's memories is checked by readers and by nobody who writes: once an
  agent has as many memories as the cap allows, one more successful write makes every later listing
  of its memories panic.\<close>
theorem write_past_cap_breaks_list:
  assumes "length (filter (\<lambda>t. mm_agent_id (mt_row t) = agent) (agent_memories m)) = MAX_MEMORIES_PER_AGENT"
    and "mem_apply vo (MWrite agent mk content state pinned source) now mid eid m = (Ok out, m')"
  shows "list_memories agent m' = Panic ''invariant: per-agent memory cap overshot''"
proof -
  from assms(2) obtain v m1 x org where
    ins: "insert_event Privileged eid agent mid source now (PWrite content mk state pinned) m = (Ok x, m1)"
    and "agent_memories m' = agent_memories m1 @ [new_row mid agent org mk content state pinned (source_turn source) now (Some v)]"
    by (auto simp: mem_apply_def apply_scoped_def apply_write_def insert_memory_def tx_bind_Ok_iff split: option.splits if_splits)
  then have "length (filter (\<lambda>t. mm_agent_id (mt_row t) = agent) (agent_memories m')) = MAX_MEMORIES_PER_AGENT + 1"
    using assms(1) insert_event_tables(1) [OF ins] by (simp add: new_row_def)
  then show ?thesis by (simp add: list_memories_def Let_def)
qed

text \<open>No memory of the kind \<open>Collaborator\<close> can be written: the journal's label check does not know the kind.\<close>

lemma collaborator_write_fails:
  "fst (apply_scoped vo sc (MWrite agent Collaborator content state pinned source) now mid eid m) \<noteq> Ok out"
  by (auto simp: apply_scoped_def apply_write_def insert_event_def tx_bind_def split: prod.splits outcome.splits option.splits if_splits)

text \<open>Reverting a pin does not unpin: a reverted update gets the attributes it had set itself.\<close>

lemma revert_update_attrs:
  assumes "mem_inv m" and "load_event agent eid m = Ok e" and "me_payload e = PUpdate b a k st p"
    and "revert_event agent eid inv_id now m = (Ok out, m')" and "past_journal now m"
  shows "\<exists>v. view_of m' (me_target e) = Some v \<and> vw_content v = b \<and> vw_state v = st \<and> vw_pinned v = p"
proof -
  from assms(2-4) obtain r m1 x where lock: "lock_existing Privileged agent (me_target e) Operator m = Ok r"
    and ins: "insert_event Privileged inv_id agent (me_target e) Operator now (PUpdate (mm_content r) b k st p) m = (Ok x, m1)"
    and m': "m' = update_memories (\<lambda>r. mm_id r = me_target e)
          (\<lambda>t. t\<lparr>mt_row := (mt_row t)\<lparr>mm_content := b, mm_state := st, mm_pinned := p\<rparr>\<rparr>) m1"
    by (auto simp: revert_event_def revert_in_tx_def revert_update_def tx_bind_Ok_iff)
  from lock_existing_OkE [OF lock mem_inv_ids [OF assms(1)]] obtain t where "live m (me_target e) t" by metis
  then have "live m1 (me_target e) t" by (simp add: live_cong [OF insert_event_tables(1) [OF ins]])
  then show ?thesis unfolding m' by (subst view_of_update) (simp_all add: live_def row_view_def)
qed

end
