(* ===== verification/Memory_Examples.thy ===== *)
theory Memory_Examples
  imports Memory_Guarantees Queue_Examples
begin

text \<open>
  A run of the memory store: agent 1 of organisation 3 writes a note in the turn of request 10, the
  operator pins another, forgets the first and restores it. The runs are the witnesses of
  \<open>Memory_Journal\<close> and \<open>Memory_Guarantees\<close>. The embedding of a text is the text.
\<close>

definition note_ops :: "string vec_ops" where
  "note_ops = \<lparr>vo_embed = Ok, vo_is_empty = (\<lambda>v. v = []), vo_distance = (\<lambda>a b. if a = b then 0 else 1), vo_narrow = id\<rparr>"

definition notes0 :: "string mem_db" where
  "notes0 = mem_start example_claimed [(1, 3)]"

definition note1 :: memory_mutation where
  "note1 = MWrite 1 Identity ''terse'' Tentative False (Turn 10)"

definition note2 :: memory_mutation where
  "note2 = MWrite 1 Procedure ''ask first'' Core True Operator"

definition notes1 where "notes1 = snd (apply_for_user note_ops 7 note1 200 31 101 notes0)"
definition notes2 where "notes2 = snd (mem_apply note_ops note2 201 32 102 notes1)"
definition notes3 where "notes3 = snd (mem_apply note_ops (MForget 1 31 Operator) 202 0 103 notes2)"
definition notes4 where "notes4 = snd (revert_event 1 103 104 203 notes3)"
definition notes5 where "notes5 = snd (revert_event 1 103 105 204 notes4)"

definition out1 :: mutation_outcome where
  "out1 = (case fst (apply_for_user note_ops 7 note1 200 31 101 notes0) of Ok out \<Rightarrow> out | _ \<Rightarrow> undefined)"

definition forgot :: memory_event where
  "forgot = made_event 103 1 3 31 Operator 202 (PForget ''terse'')"

lemma Ok_eta: "is_Ok (fst r) \<Longrightarrow> \<exists>x. r = (Ok x, snd r)"
  by (cases r) (auto simp: is_Ok_iff)

lemma notes1_run: "apply_for_user note_ops 7 note1 200 31 101 notes0 = (Ok out1, notes1)"
proof -
  have "is_Ok (fst (apply_for_user note_ops 7 note1 200 31 101 notes0))" by code_simp
  then obtain x where x: "apply_for_user note_ops 7 note1 200 31 101 notes0 = (Ok x, notes1)"
    using Ok_eta notes1_def by metis
  then have "out1 = x" by (simp add: out1_def)
  with x show ?thesis by simp
qed

lemma notes_guards:
  "past_journal 200 notes0" "fresh_memory 31 notes0" "\<forall>c \<in> set (mutation_contents note1). content_ok c"
  "past_journal 201 notes1" "fresh_memory 32 notes1" "\<forall>c \<in> set (mutation_contents note2). content_ok c"
  "past_journal 202 notes2" "fresh_memory 0 notes2"
  "past_journal 203 notes3" "past_journal 204 notes4"
  by code_simp+

lemma notes_reachable: "mem_step\<^sup>*\<^sup>* notes0 notes4"
proof -
  have "mem_step notes0 notes1"
    using mem_step.apply_step [OF notes_guards(1-3)] notes1_run by (simp add: apply_for_user_def)
  moreover have "mem_step notes1 notes2"
  proof -
    have "is_Ok (fst (mem_apply note_ops note2 201 32 102 notes1))" by code_simp
    from Ok_eta [OF this] show ?thesis
      using mem_step.apply_step [OF notes_guards(4-6)] by (auto simp: mem_apply_def notes2_def)
  qed
  moreover have "mem_step notes2 notes3"
  proof -
    have "is_Ok (fst (mem_apply note_ops (MForget 1 31 Operator) 202 0 103 notes2))" by code_simp
    from Ok_eta [OF this] show ?thesis
      using mem_step.apply_step [OF notes_guards(7,8), of "MForget 1 31 Operator"] by (auto simp: mem_apply_def notes3_def)
  qed
  moreover have "mem_step notes3 notes4"
  proof -
    have load: "load_event 1 103 notes3 = Ok forgot" and dead: "view_of notes3 (me_target forgot) = None"
      by code_simp+
    have "revert_event 1 103 104 203 notes3 = (fst (revert_event 1 103 104 203 notes3), notes4)"
      by (simp add: notes4_def)
    then show ?thesis by (rule mem_step.revert_step [OF notes_guards(9) load dead])
  qed
  ultimately show ?thesis by (meson rtranclp.rtrancl_refl converse_rtranclp_into_rtranclp)
qed

lemma notes_inv: "mem_inv notes4"
  using memory.run_inv [OF notes_reachable [unfolded notes0_def] mem_start_inv] .


theorem mutation_stays_in_tenant_witness:
  "\<exists>org e. (7, org) \<in> set (org_members (md_core notes0)) \<and> map_of (md_agent_orgs notes0) 1 = Some org \<and>
     memory_events notes1 = memory_events notes0 @ [e] \<and> me_agent_id e = 1 \<and> me_org_id e = org"
  using mutation_stays_in_tenant [OF _ notes_guards(1-3) notes1_run] mem_start_inv
  by (auto simp: notes0_def note1_def)

text \<open>The librarian evicts for a quota of one: the pinned note stays, the other goes.\<close>

definition evicted where "evicted = evict_overflow 1 1 205 (\<lambda>k. 110 + k) notes4"

lemma evicted_run: "evict_overflow 1 1 205 (\<lambda>k. 110 + k) notes4 = (Ok [31], snd evicted)"
proof -
  have "fst evicted = Ok [31]" by code_simp
  then show ?thesis by (simp add: evicted_def prod_eq_iff)
qed

theorem eviction_takes_weakest_witness:
  "map mt_id (agent_memories (snd evicted)) = [32] \<and> length [31::memory_id] = min (2 - 1) 1"
proof -
  have "map mt_id (filter (\<lambda>t. mt_id t \<notin> {31}) (agent_memories notes4)) = [32]" by code_simp
  with eviction_takes_weakest [OF notes_inv evicted_run] show ?thesis by auto
qed

theorem pinned_memory_survives_witness:
  "map_option vw_content (view_of (snd evicted) 32) = Some ''ask first''"
proof -
  have p: "past_journal 205 notes4" by code_simp
  have v: "view_of notes4 32 = Some (the (view_of notes4 32))" "vw_pinned (the (view_of notes4 32))"
    "vw_content (the (view_of notes4 32)) = ''ask first''" by code_simp+
  have "auto_step notes4 (snd evicted)" by (rule auto_step.auto_evict [OF p evicted_run])
  then have "auto_step\<^sup>*\<^sup>* notes4 (snd evicted)" by blast
  from pinned_memory_survives [OF notes_inv this v(1,2)] v(3) show ?thesis by simp
qed

theorem second_restore_breaks_rebuild_witness:
  "view_of notes5 = view_of notes4 \<and> rebuild_materialized 1 notes5 = (Err (MDb ''agent_memories_pkey''), notes5)"
proof -
  have load: "load_event 1 103 notes4 = Ok forgot" and f: "me_payload forgot = PForget ''terse''"
    and l: "view_of notes4 (me_target forgot) \<noteq> None" and "is_Ok (fst (revert_event 1 103 105 204 notes4))"
    by code_simp+
  then obtain x where "revert_event 1 103 105 204 notes4 = (Ok x, notes5)" using Ok_eta notes5_def by metis
  from second_restore_breaks_rebuild [OF notes_inv notes_guards(10) load f l this] show ?thesis .
qed

text \<open>An agent with exactly as many memories as the cap allows.\<close>

definition full_row :: "nat \<Rightarrow> string memory_trow" where
  "full_row i = new_row i 1 3 OtherKind ''fact'' Held False None 100 (Some ''fact'')"

definition full_notes :: "string mem_db" where
  "full_notes = notes0\<lparr>agent_memories := map full_row [0..<MAX_MEMORIES_PER_AGENT]\<rparr>"

lemma full_row_sel: "mt_id (full_row i) = i" "mm_agent_id (mt_row (full_row i)) = 1"
  by (simp_all add: full_row_def new_row_def)

theorem write_past_cap_breaks_list_witness:
  "list_memories 1 (snd (mem_apply note_ops note2 201 2000 102 full_notes)) = Panic ''invariant: per-agent memory cap overshot''"
proof -
  have n: "length (filter (\<lambda>t. mm_agent_id (mt_row t) = 1) (agent_memories full_notes)) = MAX_MEMORIES_PER_AGENT"
    by (simp add: full_notes_def full_row_sel comp_def)
  have "find (\<lambda>t. mt_id t = 2000) (map full_row [0..<1024]) = None"
    by (auto simp: find_None_iff full_row_sel)
  moreover have "content_ok ''ask first''" by code_simp
  ultimately have "is_Ok (fst (mem_apply note_ops note2 201 2000 102 full_notes))"
    by (simp add: mem_apply_def apply_scoped_def note2_def note_ops_def apply_write_def insert_event_def agent_org_def
      mem_visible_def full_notes_def notes0_def mem_start_def source_fk_ok_def insert_memory_def full_row_sel comp_def
      returning_def find_snoc new_row_def decode_memory_row_def content_ok_def MAX_MEMORIES_PER_AGENT_def)
  then obtain x where "mem_apply note_ops note2 201 2000 102 full_notes = (Ok x, snd (mem_apply note_ops note2 201 2000 102 full_notes))"
    using Ok_eta by metis
  from write_past_cap_breaks_list [OF n this [unfolded note2_def]] show ?thesis by (simp add: note2_def)
qed

end
