(* ===== verification/Memory_Compose.thy ===== *)
theory Memory_Compose
  imports Memory_Store
begin

text \<open>
  The memory section of the system prompt: \<open>src/memory/composer.rs\<close>, the load path of
  \<open>src/memory/loader.rs\<close> behind its cache, and the assembly of the system prompt in
  \<open>src/memory/agent.rs\<close>. A handle map is an association list; the grouping by kind is a function
  from kinds to the entries in the order they were pushed.
\<close>

section \<open>Layers\<close>

definition STABLE_LAYER_MAX_BYTES :: nat where
  "STABLE_LAYER_MAX_BYTES = 4096"

definition CONTEXTUAL_LAYER_MAX_BYTES :: nat where
  "CONTEXTUAL_LAYER_MAX_BYTES = 4096"

definition CONTEXTUAL_TOP_K :: nat where
  "CONTEXTUAL_TOP_K = 16"

definition RENDER_LINE_OVERHEAD_BYTES :: nat where
  "RENDER_LINE_OVERHEAD_BYTES = 32"

definition KIND_ORDER :: "memory_kind list" where
  "KIND_ORDER = [Identity, OtherKind, Collaborator, Procedure, Open]"

definition line_cost :: "memory_row \<Rightarrow> nat" where
  "line_cost r = length (mm_content r) + RENDER_LINE_OVERHEAD_BYTES"

fun trim_from :: "nat \<Rightarrow> nat \<Rightarrow> memory_row list \<Rightarrow> memory_row list" where
  "trim_from budget used [] = []"
| "trim_from budget used (r # rs) =
     (if budget < used + line_cost r then [] else r # trim_from budget (used + line_cost r) rs)"

definition trim_to_budget :: "memory_row list \<Rightarrow> nat \<Rightarrow> memory_row list" where
  "trim_to_budget rows budget = trim_from budget 0 rows"

text \<open>Sorted by state, then by age, both descending: two layer sorts.\<close>

definition select_stable_layer :: "memory_row list \<Rightarrow> memory_row list" where
  "select_stable_layer rows =
     trim_to_budget
       (sort_key (\<lambda>r. 4 - priority (mm_state r)) (sort_key (\<lambda>r. - mm_created_at r)
          (filter (\<lambda>r. mm_pinned r \<or> mm_kind r = Identity) rows)))
       STABLE_LAYER_MAX_BYTES"

section \<open>Rendering\<close>

definition newline :: string where
  "newline = [CHR 10]"

definition MEMORY_TAG_OPEN :: string where
  "MEMORY_TAG_OPEN = ''<memory>'' @ newline"

definition MEMORY_TAG_CLOSE :: string where
  "MEMORY_TAG_CLOSE = newline @ ''</memory>''"

record memory_section =
  sec_text :: string
  sec_handles :: "(memory_handle \<times> memory_id) list"

definition section_empty :: memory_section where
  "section_empty = \<lparr>sec_text = [], sec_handles = []\<rparr>"

definition section_is_empty :: "memory_section \<Rightarrow> bool" where
  "section_is_empty s \<longleftrightarrow> sec_text s = []"

definition resolve_handle :: "memory_section \<Rightarrow> memory_handle \<Rightarrow> memory_id option" where
  "resolve_handle s h = map_of (sec_handles s) h"

text \<open>Minting the next handle; the counter is a \<open>u32\<close>.\<close>

definition mint :: "string \<Rightarrow> nat \<Rightarrow> (unit, memory_handle \<times> nat) outcome" where
  "mint msg n =
     (case memory_handle_try_from n of
        Ok h \<Rightarrow> if n + 1 < 2 ^ 32 then Ok (h, n + 1) else Panic ''invariant: handle counter cannot overflow''
      | _ \<Rightarrow> Panic msg)"

fun bind_reserved_from :: "nat \<Rightarrow> memory_id list \<Rightarrow> (unit, (memory_handle \<times> memory_id) list \<times> nat) outcome" where
  "bind_reserved_from n [] = Ok ([], n)"
| "bind_reserved_from n (i # ids) =
     and_then (mint ''invariant: reserved handle count under cap'' n) (\<lambda>(h, n').
     and_then (bind_reserved_from n' ids) (\<lambda>(hs, n''). Ok ((h, i) # hs, n'')))"

definition bind_reserved_handles where
  "bind_reserved_handles reserved = bind_reserved_from 1 reserved"

fun mint_rows :: "memory_id list \<Rightarrow> nat \<Rightarrow> memory_row list \<Rightarrow> (unit, (memory_handle \<times> memory_row) list) outcome" where
  "mint_rows reserved n [] = Ok []"
| "mint_rows reserved n (r # rs) =
     (if mm_id r \<in> set reserved then mint_rows reserved n rs
      else and_then (mint ''invariant: handle count under cap (per-agent quota enforces it)'' n) (\<lambda>(h, n').
           and_then (mint_rows reserved n' rs) (\<lambda>es. Ok ((h, r) # es))))"

definition render_entry :: "memory_handle \<times> memory_row \<Rightarrow> string" where
  "render_entry = (\<lambda>(h, r). ''- ['' @ memory_handle_display h @ '', '' @ memory_state_str (mm_state r) @ ''] '' @
     mm_content r @ newline)"

definition render_kind :: "(memory_handle \<times> memory_row) list \<Rightarrow> memory_kind \<Rightarrow> string" where
  "render_kind entries k =
     (case filter (\<lambda>(h, r). mm_kind r = k) entries of
        [] \<Rightarrow> []
      | es \<Rightarrow> newline @ ''### '' @ display_label k @ newline @ concat (map render_entry es))"

definition memory_intro :: string where
  "memory_intro = ''## Memory'' @ newline @
     ''Facts you previously remembered. Each entry has an `M-NN` handle '' @ [CHR 0xE2, CHR 0x80, CHR 0x94] @
     '' pass it to `memory_update`, `memory_forget`, or `memory_validate` to revise the entry. '' @
     ''Use `recall` to search for memories not listed below.'' @ newline"

definition render_text :: "(memory_handle \<times> memory_row) list \<Rightarrow> string" where
  "render_text entries = MEMORY_TAG_OPEN @ memory_intro @ concat (map (render_kind entries) KIND_ORDER) @ MEMORY_TAG_CLOSE"

definition render_section :: "memory_row list \<Rightarrow> memory_row list \<Rightarrow> memory_id list \<Rightarrow> (unit, memory_section) outcome" where
  "render_section layer contextual reserved =
     and_then (bind_reserved_handles reserved) (\<lambda>(hs, n).
     and_then (mint_rows reserved n (layer @ contextual)) (\<lambda>entries.
       Ok \<lparr>sec_text = (if entries = [] then [] else render_text entries),
           sec_handles = hs @ map (\<lambda>(h, r). (h, mm_id r)) entries\<rparr>))"

definition compose_memory_section ::
  "memory_row list \<Rightarrow> memory_row list \<Rightarrow> memory_id list \<Rightarrow> (unit, memory_section) outcome" where
  "compose_memory_section rows contextual reserved =
     (let layer = select_stable_layer rows;
          ids = map mm_id layer;
          trimmed = trim_to_budget (filter (\<lambda>r. mm_id r \<notin> set ids) contextual) CONTEXTUAL_LAYER_MAX_BYTES in
      render_section layer trimmed reserved)"

section \<open>Loading\<close>

definition join_lines :: "string list \<Rightarrow> string" where
  "join_lines ts = fold (\<lambda>t acc. (if acc = [] then acc else acc @ newline) @ t) ts []"

fun first_user_text :: "chat_message list \<Rightarrow> string option" where
  "first_user_text [] = None"
| "first_user_text (Assistant _ # ms) = first_user_text ms"
| "first_user_text (User blocks # ms) =
     (let out = join_lines (concat (map (\<lambda>b. case b of UText t \<Rightarrow> [t] | _ \<Rightarrow> []) blocks)) in
      if out = [] then first_user_text ms else Some out)"

definition resolve_reserved_pair :: "contradiction_event_id option \<Rightarrow> 'v mem_db \<Rightarrow> memory_id list" where
  "resolve_reserved_pair contradiction m =
     (case contradiction of
        None \<Rightarrow> []
      | Some i \<Rightarrow> (case read_contradiction i m of None \<Rightarrow> [] | Some c \<Rightarrow> [ce_memory_a c, ce_memory_b c]))"

definition contextual_filter :: search_filter where
  "contextual_filter = \<lparr>sf_kinds = Some [OtherKind, Collaborator, Procedure, Open], sf_min_state = None\<rparr>"

definition retrieve_contextual :: "'v vec_ops \<Rightarrow> agent_id \<Rightarrow> string \<Rightarrow> 'v mem_db \<Rightarrow> memory_row list" where
  "retrieve_contextual vo agent txt m =
     (case vo_embed vo txt of
        Ok query \<Rightarrow> (case search_by_embedding vo agent query CONTEXTUAL_TOP_K contextual_filter m of
                         Ok scored \<Rightarrow> map fst scored | _ \<Rightarrow> [])
      | _ \<Rightarrow> [])"

datatype memory_error = MEBackend string

fun payload_contradiction :: "request_kind_payload \<Rightarrow> contradiction_event_id option" where
  "payload_contradiction (PResolution i) = Some i"
| "payload_contradiction _ = None"

text \<open>The closure \<open>load\<close> hands to the session cache: it runs on a miss.\<close>

definition load_section ::
  "'v vec_ops \<Rightarrow> (memory_store_error \<Rightarrow> string) \<Rightarrow> session_id \<Rightarrow> agent_id \<Rightarrow> request_kind_payload \<Rightarrow> 'v mem_db \<Rightarrow>
   (memory_error, memory_section) outcome" where
  "load_section vo show_err sid agent payload m =
     and_then (map_err (\<lambda>e. MEBackend (show_err e)) (list_memories agent m)) (\<lambda>rows.
       let reserved = resolve_reserved_pair (payload_contradiction payload) m;
           opening = (case snapshot sid (Agent agent) (md_core m) of Ok snap \<Rightarrow> first_user_text snap | _ \<Rightarrow> None);
           contextual = (case opening of
                           Some t \<Rightarrow> if t = [] then [] else retrieve_contextual vo agent t m
                         | None \<Rightarrow> []) in
       case compose_memory_section rows contextual reserved of
         Ok s \<Rightarrow> Ok s
       | Err _ \<Rightarrow> Panic ''unreachable''
       | Panic msg \<Rightarrow> Panic msg)"

section \<open>The system prompt\<close>

definition tagged :: "string \<Rightarrow> string \<Rightarrow> string" where
  "tagged tag body = ''<'' @ tag @ ''>'' @ newline @ body @ newline @ ''</'' @ tag @ ''>''"

definition system_prompt :: "string \<Rightarrow> string \<Rightarrow> string \<Rightarrow> string \<Rightarrow> string \<Rightarrow> memory_section \<Rightarrow> string" where
  "system_prompt core agents_block role date directive sec =
     tagged ''core'' core @ newline @
     agents_block @ (if agents_block = [] then [] else newline) @
     tagged ''role'' role @ newline @
     tagged ''date'' date @ newline @
     tagged ''language'' directive @
     (if sec_text sec = [] then [] else newline) @ sec_text sec"

section \<open>Budgets and handles\<close>

abbreviation cost :: "memory_row list \<Rightarrow> nat" where
  "cost rows \<equiv> sum_list (map line_cost rows)"

lemma trim_from_cost: "used \<le> budget \<Longrightarrow> used + cost (trim_from budget used rows) \<le> budget"
  by (induction rows arbitrary: used) (auto simp: add.assoc [symmetric] not_less)

lemma trim_from_take: "\<exists>k. trim_from budget used rows = take k rows"
proof (induction rows arbitrary: used)
  case (Cons r rows)
  then obtain k where "trim_from budget (used + line_cost r) rows = take k rows" by blast
  then have "trim_from budget used (r # rows) = take (if budget < used + line_cost r then 0 else Suc k) (r # rows)" by simp
  then show ?case by blast
qed simp

lemma length_le_cost: "RENDER_LINE_OVERHEAD_BYTES * length rows \<le> cost rows"
  by (induction rows) (auto simp: line_cost_def)

lemma mint_Ok: "0 < n \<Longrightarrow> n \<le> MEMORY_HANDLE_MAX \<Longrightarrow> mint msg n = Ok (n, n + 1)"
  by (simp add: mint_def memory_handle_try_from_def MEMORY_HANDLE_MAX_def)

lemma upt_step: "[n..<n + Suc k] = n # [Suc n..<Suc n + k]"
  by (simp add: upt_conv_Cons del: upt_Suc)

lemma bind_reserved_Ok:
  "0 < n \<Longrightarrow> n + length ids \<le> MEMORY_HANDLE_MAX + 1 \<Longrightarrow>
   bind_reserved_from n ids = Ok (zip [n..<n + length ids] ids, n + length ids)"
proof (induction ids arbitrary: n)
  case (Cons i ids)
  then have "bind_reserved_from (Suc n) ids = Ok (zip [Suc n..<Suc n + length ids] ids, Suc n + length ids)" by simp
  moreover have "zip [n..<n + length (i # ids)] (i # ids) = (n, i) # zip [Suc n..<Suc n + length ids] ids"
    unfolding length_Cons upt_step zip_Cons_Cons ..
  ultimately show ?case using Cons.prems by (simp add: mint_Ok del: upt_Suc)
qed simp

lemma mint_rows_Ok:
  "0 < n \<Longrightarrow> n + length rows \<le> MEMORY_HANDLE_MAX + 1 \<Longrightarrow>
   mint_rows reserved n rows =
     Ok (let shown = filter (\<lambda>r. mm_id r \<notin> set reserved) rows in zip [n..<n + length shown] shown)"
proof (induction rows arbitrary: n)
  case (Cons r rows)
  show ?case
  proof (cases "mm_id r \<in> set reserved")
    case False
    let ?shown = "filter (\<lambda>r. mm_id r \<notin> set reserved) rows"
    have "mint_rows reserved (Suc n) rows = Ok (zip [Suc n..<Suc n + length ?shown] ?shown)"
      using Cons.IH [of "Suc n"] Cons.prems by (simp add: Let_def)
    moreover have "zip [n..<n + length (r # ?shown)] (r # ?shown) = (n, r) # zip [Suc n..<Suc n + length ?shown] ?shown"
      unfolding length_Cons upt_step zip_Cons_Cons ..
    ultimately show ?thesis using False Cons.prems by (simp add: mint_Ok Let_def del: upt_Suc)
  qed (use Cons in simp)
qed simp

lemma zip_upt_map: "length ids = length rows \<Longrightarrow> map (\<lambda>(h, r). (h, f r)) (zip ids rows) = zip ids (map f rows)"
  by (induction ids rows rule: list_induct2) auto

lemma zip_upt_append:
  "zip [1..<1 + length xs] xs @ zip [1 + length xs..<1 + length xs + length zs] (map f zs) =
     zip [1..<1 + length xs + length zs] (xs @ map f zs)"
proof -
  have "[1..<1 + length xs + length zs] = [1..<1 + length xs] @ [1 + length xs..<1 + length xs + length zs]"
    by (rule upt_add_eq_append) simp
  then show ?thesis by (simp del: upt_Suc)
qed

lemma render_section_Ok:
  assumes "length reserved + length layer + length contextual \<le> MEMORY_HANDLE_MAX"
  shows "render_section layer contextual reserved =
    (let shown = filter (\<lambda>r. mm_id r \<notin> set reserved) (layer @ contextual); n = length reserved in
     Ok \<lparr>sec_text = (if shown = [] then [] else render_text (zip [n + 1..<n + 1 + length shown] shown)),
         sec_handles = zip [1..<n + 1 + length shown] (reserved @ map mm_id shown)\<rparr>)"
proof -
  let ?shown = "filter (\<lambda>r. mm_id r \<notin> set reserved) (layer @ contextual)" and ?n = "length reserved"
  have "bind_reserved_handles reserved = Ok (zip [1..<1 + ?n] reserved, 1 + ?n)"
    unfolding bind_reserved_handles_def using assms by (intro bind_reserved_Ok) simp_all
  moreover have "mint_rows reserved (1 + ?n) (layer @ contextual) = Ok (zip [1 + ?n..<1 + ?n + length ?shown] ?shown)"
    using mint_rows_Ok [of "1 + ?n" "layer @ contextual" reserved] assms by (simp add: Let_def)
  moreover have "zip [1..<1 + ?n] reserved @ zip [1 + ?n..<1 + ?n + length ?shown] (map mm_id ?shown) =
      zip [1..<1 + ?n + length ?shown] (reserved @ map mm_id ?shown)"
    by (rule zip_upt_append)
  ultimately show ?thesis
    by (simp add: render_section_def Let_def zip_upt_map add.commute del: filter_append upt_Suc zip_append)
qed

lemma length_entry: "h \<le> MEMORY_HANDLE_MAX \<Longrightarrow> length (render_entry (h, r)) \<le> line_cost r"
proof -
  assume "h \<le> MEMORY_HANDLE_MAX"
  then have "length (show_nat h) \<le> 4" by (intro length_show_nat) (simp_all add: MEMORY_HANDLE_MAX_def)
  moreover have "length (memory_state_str (mm_state r)) \<le> 9" by (cases "mm_state r") simp_all
  ultimately show ?thesis
    by (simp add: render_entry_def memory_handle_display_def line_cost_def RENDER_LINE_OVERHEAD_BYTES_def newline_def)
qed

lemma length_render_kind:
  "length (render_kind entries k) \<le> 6 + length (display_label k) +
     length (concat (map render_entry (filter (\<lambda>(h, r). mm_kind r = k) entries)))"
  by (simp add: render_kind_def newline_def split: list.split)

lemma kinds_partition:
  "sum_list (map (\<lambda>k. length (concat (map render_entry (filter (\<lambda>(h, r). mm_kind r = k) entries)))) KIND_ORDER) =
     length (concat (map render_entry entries))"
proof (induction entries)
  case (Cons e entries)
  then show ?case by (cases e; cases "mm_kind (snd e)") (simp_all add: KIND_ORDER_def)
qed (simp add: KIND_ORDER_def)

lemma length_entries:
  "\<forall>h \<in> set (map fst entries). h \<le> MEMORY_HANDLE_MAX \<Longrightarrow>
   length (concat (map render_entry entries)) \<le> cost (map snd entries)"
proof (induction entries)
  case (Cons e entries)
  then show ?case using length_entry [of "fst e" "snd e"] by simp
qed simp

lemma length_render_text:
  assumes "\<forall>h \<in> set (map fst entries). h \<le> MEMORY_HANDLE_MAX"
  shows "length (render_text entries) \<le> cost (map snd entries) + 320"
proof -
  let ?len = "\<lambda>k. length (concat (map render_entry (filter (\<lambda>(h, r). mm_kind r = k) entries)))"
  have "length (concat (map (render_kind entries) KIND_ORDER)) \<le> 64 + sum_list (map ?len KIND_ORDER)"
    using length_render_kind [of entries Identity] length_render_kind [of entries OtherKind]
      length_render_kind [of entries Collaborator] length_render_kind [of entries Procedure] length_render_kind [of entries Open]
    by (simp add: KIND_ORDER_def)
  then have "length (concat (map (render_kind entries) KIND_ORDER)) \<le> 64 + cost (map snd entries)"
    using length_entries [OF assms] by (simp add: kinds_partition)
  moreover have "length (MEMORY_TAG_OPEN @ memory_intro @ MEMORY_TAG_CLOSE) \<le> 256" by code_simp
  ultimately show ?thesis by (simp add: render_text_def)
qed

lemma trim_to_budget_facts:
  shows trim_to_budget_cost: "cost (trim_to_budget rows budget) \<le> budget"
    and trim_to_budget_set: "set (trim_to_budget rows budget) \<subseteq> set rows"
    and trim_to_budget_distinct: "distinct (map mm_id rows) \<Longrightarrow> distinct (map mm_id (trim_to_budget rows budget))"
proof -
  obtain k where "trim_to_budget rows budget = take k rows"
    using trim_from_take [of budget 0 rows] by (auto simp: trim_to_budget_def)
  then show "set (trim_to_budget rows budget) \<subseteq> set rows"
    and "distinct (map mm_id rows) \<Longrightarrow> distinct (map mm_id (trim_to_budget rows budget))"
    by (simp_all add: set_take_subset take_map [symmetric])
  show "cost (trim_to_budget rows budget) \<le> budget"
    using trim_from_cost [of 0 budget rows] by (simp add: trim_to_budget_def)
qed

lemma distinct_map_filter_sort:
  "distinct (map mm_id rows) \<Longrightarrow> distinct (map mm_id (sort_key f (sort_key g (filter P rows))))"
  by (simp add: distinct_map inj_on_def)

lemma layer_facts:
  shows layer_cost: "cost (select_stable_layer rows) \<le> STABLE_LAYER_MAX_BYTES"
    and layer_set: "set (select_stable_layer rows) \<subseteq> {r \<in> set rows. mm_pinned r \<or> mm_kind r = Identity}"
    and layer_distinct: "distinct (map mm_id rows) \<Longrightarrow> distinct (map mm_id (select_stable_layer rows))"
proof -
  let ?sorted = "sort_key (\<lambda>r. 4 - priority (mm_state r)) (sort_key (\<lambda>r. - mm_created_at r)
    (filter (\<lambda>r. mm_pinned r \<or> mm_kind r = Identity) rows))"
  have layer: "select_stable_layer rows = trim_to_budget ?sorted STABLE_LAYER_MAX_BYTES" by (simp add: select_stable_layer_def)
  show "cost (select_stable_layer rows) \<le> STABLE_LAYER_MAX_BYTES" unfolding layer by (rule trim_to_budget_cost)
  show "set (select_stable_layer rows) \<subseteq> {r \<in> set rows. mm_pinned r \<or> mm_kind r = Identity}"
    using trim_to_budget_set [of ?sorted STABLE_LAYER_MAX_BYTES] by (auto simp: layer)
  show "distinct (map mm_id rows) \<Longrightarrow> distinct (map mm_id (select_stable_layer rows))"
    unfolding layer by (rule trim_to_budget_distinct) (rule distinct_map_filter_sort)
qed

lemma cost_filter: "cost (filter P rows) \<le> cost rows"
  by (induction rows) auto

lemma cost_append: "cost (xs @ ys) = cost xs + cost ys"
  by simp

lemma map_of_zip_upt:
  assumes "distinct ids" and "map_of (zip [1..<1 + length ids] ids) h = Some i" and "map_of (zip [1..<1 + length ids] ids) h' = Some i"
  shows "h = h'"
  using assms map_of_SomeD [OF assms(2)] map_of_SomeD [OF assms(3)]
  by (auto simp: set_zip distinct_conv_nth simp del: upt_Suc)

text \<open>C22. For every set of stored memories, every contextual result and every reserved pair, composing the memory section
  succeeds; the rendered text is at most the two layer budgets plus 320 bytes of framing; the handles are
  \<open>M-1\<close>, \<open>M-2\<close>, ... in order, the reserved pair first, each bound to a memory of the store or of the
  search result; and no memory has two handles, so that an update by handle hits the memory that was shown.
\<close>

theorem memory_section_sound:
  assumes "length reserved \<le> 2" and "distinct reserved"
    and "distinct (map mm_id rows)" and "distinct (map mm_id contextual)"
  shows "\<exists>s shown. compose_memory_section rows contextual reserved = Ok s \<and>
    length (sec_text s) \<le> STABLE_LAYER_MAX_BYTES + CONTEXTUAL_LAYER_MAX_BYTES + 320 \<and>
    sec_handles s = zip [1..<1 + length (reserved @ map mm_id shown)] (reserved @ map mm_id shown) \<and>
    set shown \<subseteq> set rows \<union> set contextual \<and>
    (\<forall>h h' i. resolve_handle s h = Some i \<and> resolve_handle s h' = Some i \<longrightarrow> h = h')"
proof -
  let ?layer = "select_stable_layer rows"
  let ?extra = "trim_to_budget (filter (\<lambda>r. mm_id r \<notin> set (map mm_id ?layer)) contextual) CONTEXTUAL_LAYER_MAX_BYTES"
  let ?shown = "filter (\<lambda>r. mm_id r \<notin> set reserved) (?layer @ ?extra)" and ?n = "length reserved"
  have costs: "cost ?layer \<le> 4096" "cost ?extra \<le> 4096"
    using layer_cost [of rows] trim_to_budget_cost [of _ CONTEXTUAL_LAYER_MAX_BYTES]
    by (simp_all add: STABLE_LAYER_MAX_BYTES_def CONTEXTUAL_LAYER_MAX_BYTES_def)
  then have few: "length ?layer \<le> 128" "length ?extra \<le> 128"
    using length_le_cost [of ?layer] length_le_cost [of ?extra] by (simp_all add: RENDER_LINE_OVERHEAD_BYTES_def)
  have few_shown: "length ?shown \<le> 256"
    using few length_filter_le [of "\<lambda>r. mm_id r \<notin> set reserved" "?layer @ ?extra"] by (simp del: filter_append)
  let ?s = "\<lparr>sec_text = (if ?shown = [] then [] else render_text (zip [?n + 1..<?n + 1 + length ?shown] ?shown)),
    sec_handles = zip [1..<?n + 1 + length ?shown] (reserved @ map mm_id ?shown)\<rparr>"
  have composed: "compose_memory_section rows contextual reserved = Ok ?s"
    unfolding compose_memory_section_def Let_def using few assms(1)
    by (subst render_section_Ok) (simp_all add: MEMORY_HANDLE_MAX_def Let_def del: filter_append upt_Suc)
  have "length (render_text (zip [?n + 1..<?n + 1 + length ?shown] ?shown)) \<le> cost ?shown + 320"
    using length_render_text [of "zip [?n + 1..<?n + 1 + length ?shown] ?shown"] few_shown assms(1)
    by (simp add: MEMORY_HANDLE_MAX_def del: filter_append upt_Suc)
  moreover have "cost ?shown \<le> 8192"
    using cost_filter [of "\<lambda>r. mm_id r \<notin> set reserved" "?layer @ ?extra"] costs unfolding cost_append by linarith
  ultimately have small: "length (sec_text ?s) \<le> STABLE_LAYER_MAX_BYTES + CONTEXTUAL_LAYER_MAX_BYTES + 320"
    by (simp add: STABLE_LAYER_MAX_BYTES_def CONTEXTUAL_LAYER_MAX_BYTES_def del: filter_append upt_Suc)
  have from_store: "set ?shown \<subseteq> set rows \<union> set contextual"
    using layer_set [of rows] trim_to_budget_set [of "filter (\<lambda>r. mm_id r \<notin> set (map mm_id ?layer)) contextual"] by fastforce
  have "distinct (map mm_id ?extra)" by (rule trim_to_budget_distinct) (simp add: assms distinct_map_filter)
  moreover have "set (map mm_id ?layer) \<inter> set (map mm_id ?extra) = {}"
    using trim_to_budget_set [of "filter (\<lambda>r. mm_id r \<notin> set (map mm_id ?layer)) contextual" CONTEXTUAL_LAYER_MAX_BYTES]
    by (fastforce simp: image_iff)
  ultimately have "distinct (map mm_id (?layer @ ?extra))" using layer_distinct [OF assms(3)] by simp
  then have "distinct (map mm_id ?shown)" by (rule distinct_map_filter)
  then have ids: "distinct (reserved @ map mm_id ?shown)" using assms(2) by auto
  have handles: "sec_handles ?s = zip [1..<1 + length (reserved @ map mm_id ?shown)] (reserved @ map mm_id ?shown)"
    by (simp del: filter_append upt_Suc)
  have "\<forall>h h' i. resolve_handle ?s h = Some i \<and> resolve_handle ?s h' = Some i \<longrightarrow> h = h'"
    unfolding resolve_handle_def handles using map_of_zip_upt [OF ids] by blast
  then show ?thesis using composed small from_store handles by blast
qed

definition shown_row :: memory_row where
  "shown_row = \<lparr>mm_id = 31, mm_agent_id = 1, mm_org_id = 3, mm_kind = Identity, mm_content = ''terse'', mm_state = Held,
     mm_pinned = False, mm_source_turn_id = None, mm_created_at = 100, mm_last_validated_at = 100,
     mm_last_accessed_at = 100, mm_access_count = 0\<rparr>"

theorem memory_section_sound_witness:
  "\<exists>s shown. compose_memory_section [shown_row] [] [7, 8] = Ok s \<and>
     length (sec_text s) \<le> STABLE_LAYER_MAX_BYTES + CONTEXTUAL_LAYER_MAX_BYTES + 320 \<and>
     sec_handles s = zip [1..<1 + length ([7, 8] @ map mm_id shown)] ([7, 8] @ map mm_id shown) \<and>
     set shown \<subseteq> {shown_row}"
  using memory_section_sound [of "[7, 8]" "[shown_row]" "[]"] by (simp del: upt_Suc) blast

end
