(* ===== verification/Memory_Librarian.thy ===== *)
theory Memory_Librarian
  imports Memory_Guarantees
begin

text \<open>
  The librarian, \<open>src/memory/librarian.rs\<close>: the mechanical sweep over one agent's memories and the
  tick that sweeps the agents in turn and enqueues a resolution turn for every open contradiction.

  Every store call takes its clock reading and the identifiers it mints from \<open>sweep_env\<close>, by the number of the
  step of the sweep and a counter inside it. The two similarity thresholds are the \<open>f32\<close> values nearest to
  the decimals of the source. Lists of agents and of organisation members are in the order of creation.
\<close>

section \<open>Limits\<close>

definition DEDUP_SIMILARITY_THRESHOLD :: rat where
  "DEDUP_SIMILARITY_THRESHOLD = 15938355 / 16777216"

definition CONTRADICTION_SIMILARITY_THRESHOLD :: rat where
  "CONTRADICTION_SIMILARITY_THRESHOLD = 14260634 / 16777216"

definition VALIDATION_DECAY :: int where
  "VALIDATION_DECAY = 60 * 60 * 24 * 30"

definition MATURATION_WINDOW :: int where
  "MATURATION_WINDOW = 60 * 60 * 24 * 7"

definition LIBRARIAN_BATCH_LIMIT :: nat where
  "LIBRARIAN_BATCH_LIMIT = 32"

section \<open>The sweep\<close>

definition a_wins :: "pair_candidate \<Rightarrow> bool" where
  "a_wins p =
     (case cmp (priority (mm_state (pc_a p))) (priority (mm_state (pc_b p))) of
        Greater \<Rightarrow> True
      | Less \<Rightarrow> False
      | Equal \<Rightarrow> (case cmp (mm_created_at (pc_a p)) (mm_created_at (pc_b p)) of
                     Less \<Rightarrow> True
                   | Greater \<Rightarrow> False
                   | Equal \<Rightarrow> mm_id (pc_a p) < mm_id (pc_b p)))"

definition pick_dedup_loser :: "pair_candidate \<Rightarrow> memory_row" where
  "pick_dedup_loser p = (if a_wins p then pc_b p else pc_a p)"

fun str_contains :: "string \<Rightarrow> string \<Rightarrow> bool" where
  "str_contains [] pat = (pat = [])"
| "str_contains (c # cs) pat = (take (length pat) (c # cs) = pat \<or> str_contains cs pat)"

definition to_ascii_lowercase :: "string \<Rightarrow> string" where
  "to_ascii_lowercase = map (\<lambda>c. let n = (of_char c :: nat) in if 65 \<le> n \<and> n \<le> 90 then char_of (n + 32) else c)"

definition negation_tokens :: "string list" where
  "negation_tokens =
     [''not '', ''n'' @ [CHR 39] @ ''t '', ''never '', '' no '', '' avoid '', '' forbid '', ''do not'',
      ''don'' @ [CHR 39] @ ''t'', ''shouldn'' @ [CHR 39] @ ''t'', ''won'' @ [CHR 39] @ ''t'']"

definition has_negation :: "string \<Rightarrow> bool" where
  "has_negation txt = list_ex (str_contains (to_ascii_lowercase txt)) negation_tokens"

definition contradicts :: "string \<Rightarrow> string \<Rightarrow> bool" where
  "contradicts a b \<longleftrightarrow> has_negation a \<noteq> has_negation b"

record librarian_sweep_report =
  lr_deduped :: nat
  lr_matured :: nat
  lr_demoted :: nat
  lr_evicted :: nat
  lr_contradictions_flagged :: nat

record sweep_env =
  sw_now :: "nat \<Rightarrow> nat \<Rightarrow> instant"
  sw_fresh :: "nat \<Rightarrow> nat \<Rightarrow> nat"

text \<open>The loop over the near duplicates; \<open>forgotten\<close> is the set the loop collects.\<close>

fun dedup_pairs ::
  "'v vec_ops \<Rightarrow> sweep_env \<Rightarrow> agent_id \<Rightarrow> nat \<Rightarrow> pair_candidate list \<Rightarrow> memory_id list \<Rightarrow> 'v mem_db \<Rightarrow>
   ('v, memory_id list) mem_result" where
  "dedup_pairs vo env agent k [] forgotten m = (Ok forgotten, m)"
| "dedup_pairs vo env agent k (p # ps) forgotten m =
     (if mm_id (pc_a p) \<in> set forgotten \<or> mm_id (pc_b p) \<in> set forgotten
      then dedup_pairs vo env agent (k + 1) ps forgotten m
      else let loser = pick_dedup_loser p in
           if mm_pinned loser then dedup_pairs vo env agent (k + 1) ps forgotten m
           else tx_bind (mem_apply vo (MForget agent (mm_id loser) Librarian) (sw_now env 0 k) 0 (sw_fresh env 0 k) m)
                  (\<lambda>_. dedup_pairs vo env agent (k + 1) ps (mm_id loser # forgotten)))"

text \<open>\<open>{:.3}\<close> of a float: the exact value rounded to three decimals, ties to even.\<close>

definition round_even :: "rat \<Rightarrow> int" where
  "round_even x =
     (let f = \<lfloor>x\<rfloor>; r = x - of_int f in
      if r < 1 / 2 then f else if 1 / 2 < r then f + 1 else if even f then f else f + 1)"

definition fixed3 :: "rat \<Rightarrow> string" where
  "fixed3 x =
     (let n = nat (round_even (\<bar>x\<bar> * 1000)); d = n mod 1000 in
      (if x < 0 then ''-'' else []) @ show_nat (n div 1000) @ ''.'' @
      show_nat (d div 100) @ show_nat (d div 10 mod 10) @ show_nat (d mod 10))"

definition flag_reason :: "rat \<Rightarrow> string" where
  "flag_reason sim = ''high embedding similarity ('' @ fixed3 sim @ '') with opposing textual cues''"

fun flag_pairs ::
  "sweep_env \<Rightarrow> agent_id \<Rightarrow> memory_id list \<Rightarrow> nat \<Rightarrow> pair_candidate list \<Rightarrow> nat \<Rightarrow> 'v mem_db \<Rightarrow> ('v, nat) mem_result" where
  "flag_pairs env agent forgotten k [] n m = (Ok n, m)"
| "flag_pairs env agent forgotten k (p # ps) n m =
     (if mm_id (pc_a p) \<in> set forgotten \<or> mm_id (pc_b p) \<in> set forgotten
         \<or> DEDUP_SIMILARITY_THRESHOLD \<le> pc_similarity p
         \<or> \<not> contradicts (mm_content (pc_a p)) (mm_content (pc_b p))
      then flag_pairs env agent forgotten (k + 1) ps n m
      else tx_bind (record_contradiction agent (mm_id (pc_a p)) (mm_id (pc_b p)) (flag_reason (pc_similarity p))
                      (sw_now env 4 k) (sw_fresh env 4 k) m)
             (\<lambda>_. flag_pairs env agent forgotten (k + 1) ps (n + 1)))"

definition run_librarian_sweep ::
  "'v vec_ops \<Rightarrow> sweep_env \<Rightarrow> agent_id \<Rightarrow> instant \<Rightarrow> 'v mem_db \<Rightarrow> ('v, librarian_sweep_report) mem_result" where
  "run_librarian_sweep vo env agent now m =
     tx_bind (similar_pairs vo agent DEDUP_SIMILARITY_THRESHOLD MAX_SIMILAR_PAIRS_PER_AGENT m, m) (\<lambda>pairs m0.
     tx_bind (dedup_pairs vo env agent 0 pairs [] m0) (\<lambda>forgotten m1.
     tx_bind (mature_tentative agent (now - MATURATION_WINDOW) (sw_now env 1 0) (sw_fresh env 1) m1) (\<lambda>matured_rows m2.
     tx_bind (decay_validated agent (now - VALIDATION_DECAY) (sw_now env 2 0) (sw_fresh env 2) m2) (\<lambda>demoted m3.
     tx_bind (evict_overflow agent MAX_MEMORIES_PER_AGENT (sw_now env 3 0) (sw_fresh env 3) m3) (\<lambda>evicted m4.
     tx_bind (similar_pairs vo agent CONTRADICTION_SIMILARITY_THRESHOLD MAX_SIMILAR_PAIRS_PER_AGENT m4, m4) (\<lambda>cpairs m5.
     tx_bind (flag_pairs env agent forgotten 0 cpairs 0 m5) (\<lambda>flagged m6.
       (Ok \<lparr>lr_deduped = length forgotten, lr_matured = matured_rows, lr_demoted = demoted,
            lr_evicted = length evicted, lr_contradictions_flagged = flagged\<rparr>, m6))))))))"

section \<open>The resolution prompt\<close>

record show_ops =
  sh_uuid :: "nat \<Rightarrow> string"
  sh_time :: "instant \<Rightarrow> string"

definition line :: "string \<Rightarrow> string" where
  "line s = s @ [CHR 10]"

definition render_pair_entry :: "show_ops \<Rightarrow> string \<Rightarrow> memory_id \<Rightarrow> memory_row option \<Rightarrow> string" where
  "render_pair_entry sh label i row =
     line (label @ '':'') @
     line (''  Id: '' @ sh_uuid sh i) @
     (case row of
        None \<Rightarrow> line (''  [no longer exists '' @ [CHR 0xE2, CHR 0x80, CHR 0x94] @ '' likely forgotten before resolution]'')
      | Some r \<Rightarrow>
          line (''  Content: '' @ mm_content r) @
          line (''  Kind: '' @ memory_kind_str (mm_kind r) @ ''   State: '' @ memory_state_str (mm_state r) @
                ''   Pinned: '' @ (if mm_pinned r then ''true'' else ''false'')) @
          line (''  Created: '' @ sh_time sh (mm_created_at r)) @
          line (''  Last validated: '' @ sh_time sh (mm_last_validated_at r)) @
          line (''  Access count: '' @ show_nat (mm_access_count r)) @
          (case mm_source_turn_id r of
             Some turn \<Rightarrow> line (''  Source turn: '' @ sh_uuid sh turn)
           | None \<Rightarrow> ''  Source turn: (operator note or librarian merge)'' @ [CHR 10]))"

text \<open>Header and body when they fit, else header, notice and the tail of the body that fits; both
  memory schedulers frame their prompts this way.\<close>

definition frame_prompt :: "string \<Rightarrow> string \<Rightarrow> string \<Rightarrow> (unit, string) outcome" where
  "frame_prompt header notice body =
     (let out = (if length header + length body \<le> PROMPT_MAX_BYTES then header @ body
                 else header @ notice @ truncate_from_start body (PROMPT_MAX_BYTES - (length header + length notice))) in
      case prompt_try_from out of
        Ok p \<Rightarrow> Ok p
      | _ \<Rightarrow> Panic ''invariant: body trimmed to Prompt cap'')"

definition RESOLUTION_HEADER :: string where
  "RESOLUTION_HEADER = ''Two of your memories were flagged as contradicting. Decide what to do.'' @ [CHR 10, CHR 10]"

definition RESOLUTION_NOTICE :: string where
  "RESOLUTION_NOTICE = ''[earlier content trimmed to fit prompt cap]'' @ [CHR 10]"

definition resolution_body :: "show_ops \<Rightarrow> contradiction_event_row \<Rightarrow> memory_row option \<Rightarrow> memory_row option \<Rightarrow> string" where
  "resolution_body sh ev a b =
     line (''Reason flagged: '' @ ce_reason ev) @ [CHR 10] @
     render_pair_entry sh ''Memory A (M-1)'' (ce_memory_a ev) a @ [CHR 10] @
     render_pair_entry sh ''Memory B (M-2)'' (ce_memory_b ev) b"

definition build_resolution_prompt ::
  "show_ops \<Rightarrow> contradiction_event_row \<Rightarrow> memory_row option \<Rightarrow> memory_row option \<Rightarrow> (unit, string) outcome" where
  "build_resolution_prompt sh ev a b = frame_prompt RESOLUTION_HEADER RESOLUTION_NOTICE (resolution_body sh ev a b)"

section \<open>The tick\<close>

definition list_agents :: "'v mem_db \<Rightarrow> (agent_id \<times> org_id \<times> user_id) list" where
  "list_agents m =
     take LIBRARIAN_BATCH_LIMIT
       (concat (map (\<lambda>(a, org). case find (\<lambda>(u, o'). o' = org) (org_members (md_core m)) of
                                    None \<Rightarrow> []
                                  | Some (u, _) \<Rightarrow> [(a, org, u)]) (md_agent_orgs m)))"

definition resolution_request ::
  "show_ops \<Rightarrow> agent_id \<Rightarrow> org_id \<Rightarrow> user_id \<Rightarrow> contradiction_event_row \<Rightarrow> string \<Rightarrow> string \<Rightarrow> new_prompt_request" where
  "resolution_request sh agent org owner ev key content =
     \<lparr>np_session = None, np_sender = Agent agent, np_receiver_agent_id = agent, np_parent_session = None,
      np_content = content, np_idempotency_key = key, np_org_id = org, np_created_by_user_id = owner,
      np_kind_payload = PResolution (ce_id ev)\<rparr>"

record tick_env =
  te_sweep :: "nat \<Rightarrow> sweep_env"
  te_request :: "nat \<Rightarrow> nat \<Rightarrow> prompt_request_id"
  te_session :: "nat \<Rightarrow> nat \<Rightarrow> session_id"
  te_now :: "nat \<Rightarrow> nat \<Rightarrow> instant"
  te_traceparent :: "string option"

definition resolve_key :: "show_ops \<Rightarrow> contradiction_event_id \<Rightarrow> string" where
  "resolve_key sh i = ''resolve-'' @ sh_uuid sh i"

text \<open>An enqueue that fails is logged; the loop goes on.\<close>

fun enqueue_resolutions ::
  "queue_cfg \<Rightarrow> show_ops \<Rightarrow> tick_env \<Rightarrow> nat \<Rightarrow> agent_id \<Rightarrow> org_id \<Rightarrow> user_id \<Rightarrow> nat \<Rightarrow> contradiction_event_row list \<Rightarrow>
   'v mem_db \<Rightarrow> ('v, unit) mem_result" where
  "enqueue_resolutions q sh env j agent org owner k [] m = (Ok (), m)"
| "enqueue_resolutions q sh env j agent org owner k (ev # evs) m =
     (case idempotency_key_try_from (resolve_key sh (ce_id ev)) of
        Ok key \<Rightarrow>
          tx_bind (get_memory (ce_memory_a ev) m, m) (\<lambda>a m1.
          tx_bind (get_memory (ce_memory_b ev) m1, m1) (\<lambda>b m2.
            case build_resolution_prompt sh ev a b of
              Ok content \<Rightarrow>
                (case enqueue q (resolution_request sh agent org owner ev key content) (te_now env j k)
                        (te_request env j k) (te_session env j k) (te_traceparent env) (md_core m2) of
                   (Panic msg, d) \<Rightarrow> (Panic msg, m2\<lparr>md_core := d\<rparr>)
                 | (_, d) \<Rightarrow> enqueue_resolutions q sh env j agent org owner (k + 1) evs (m2\<lparr>md_core := d\<rparr>))
            | Err _ \<Rightarrow> (Panic ''unreachable'', m2)
            | Panic msg \<Rightarrow> (Panic msg, m2)))
      | _ \<Rightarrow> (Panic ''invariant: contradiction key fits cap'', m))"

fun tick_agents ::
  "'v vec_ops \<Rightarrow> queue_cfg \<Rightarrow> show_ops \<Rightarrow> tick_env \<Rightarrow> instant \<Rightarrow> nat \<Rightarrow> (agent_id \<times> org_id \<times> user_id) list \<Rightarrow> 'v mem_db \<Rightarrow>
   ('v, unit) mem_result" where
  "tick_agents vo q sh env now j [] m = (Ok (), m)"
| "tick_agents vo q sh env now j ((agent, org, owner) # rest) m =
     (case run_librarian_sweep vo (te_sweep env j) agent now m of
        (Panic msg, m1) \<Rightarrow> (Panic msg, m1)
      | (Err _, m1) \<Rightarrow> tick_agents vo q sh env now (j + 1) rest m1
      | (Ok _, m1) \<Rightarrow>
          (case enqueue_resolutions q sh env j agent org owner 0 (unresolved_contradictions agent m1) m1 of
             (Panic msg, m2) \<Rightarrow> (Panic msg, m2)
           | (_, m2) \<Rightarrow> tick_agents vo q sh env now (j + 1) rest m2))"

definition librarian_tick ::
  "'v vec_ops \<Rightarrow> queue_cfg \<Rightarrow> show_ops \<Rightarrow> tick_env \<Rightarrow> instant \<Rightarrow> 'v mem_db \<Rightarrow> ('v, unit) mem_result" where
  "librarian_tick vo q sh env now m = tick_agents vo q sh env now 0 (list_agents m) m"

section \<open>What a sweep leaves alone\<close>

text \<open>Pinned rows and the rows of other agents; and the tables that say which agents a tick visits.\<close>

definition spares :: "agent_id \<Rightarrow> 'v mem_db \<Rightarrow> 'v mem_db \<Rightarrow> bool" where
  "spares agent m m' \<longleftrightarrow>
     md_agent_orgs m' = md_agent_orgs m \<and> org_members (md_core m') = org_members (md_core m) \<and>
     (row_ids_ok m \<longrightarrow> row_ids_ok m') \<and>
     (\<forall>t \<in> set (agent_memories m). mm_pinned (mt_row t) \<or> mm_agent_id (mt_row t) \<noteq> agent \<longrightarrow> t \<in> set (agent_memories m'))"

lemma spares_same:
  "md_agent_orgs m' = md_agent_orgs m \<Longrightarrow> org_members (md_core m') = org_members (md_core m) \<Longrightarrow>
   agent_memories m' = agent_memories m \<Longrightarrow> spares agent m m'"
  by (simp add: spares_def row_ids_ok_def)

lemma spares_refl [simp]: "spares agent m m"
  by (simp add: spares_same)

lemma spares_trans: "spares agent m m1 \<Longrightarrow> spares agent m1 m' \<Longrightarrow> spares agent m m'"
  unfolding spares_def by metis

lemma spares_tx_bind:
  assumes "row_ids_ok m" and "spares agent m (snd r)"
    and "\<And>x m1. r = (Ok x, m1) \<Longrightarrow> row_ids_ok m1 \<Longrightarrow> spares agent m1 (snd (f x m1))"
  shows "spares agent m (snd (tx_bind r f))"
proof (cases r)
  case (Pair o' m1)
  have "row_ids_ok m1" using assms(1,2) Pair by (simp add: spares_def)
  then show ?thesis using assms(2,3) Pair by (cases o') (auto intro: spares_trans)
qed

lemma spares_run_tx:
  assumes "\<And>x m'. f m = (Ok x, m') \<Longrightarrow> spares agent m m'"
  shows "spares agent m (snd (run_tx f m))"
  using assms by (auto simp: run_tx_def split: prod.split outcome.split)

text \<open>Every row with one of these identifiers is an unpinned row of the agent.\<close>

definition own_free :: "agent_id \<Rightarrow> memory_id set \<Rightarrow> 'v mem_db \<Rightarrow> bool" where
  "own_free agent ids m \<longleftrightarrow>
     (\<forall>t \<in> set (agent_memories m). mt_id t \<in> ids \<longrightarrow> \<not> mm_pinned (mt_row t) \<and> mm_agent_id (mt_row t) = agent)"

lemma own_freeI:
  assumes "row_ids_ok m" and "set ts \<subseteq> set (agent_memories m)"
    and "\<And>t. t \<in> set ts \<Longrightarrow> \<not> mm_pinned (mt_row t) \<and> mm_agent_id (mt_row t) = agent"
  shows "own_free agent (mt_id ` set ts) m"
  unfolding own_free_def
proof (intro ballI impI)
  fix t assume "t \<in> set (agent_memories m)" "mt_id t \<in> mt_id ` set ts"
  then obtain u where "u \<in> set ts" "mt_id u = mt_id t" by auto
  with assms(1,2) \<open>t \<in> _\<close> have "t = u" by (auto simp: row_ids_ok_def distinct_map inj_on_def)
  with assms(3) \<open>u \<in> set ts\<close> show "\<not> mm_pinned (mt_row t) \<and> mm_agent_id (mt_row t) = agent" by blast
qed

lemma spares_delete: "own_free agent {i} m \<Longrightarrow> spares agent m (delete_memories (\<lambda>r. mm_id r = i) m)"
  unfolding spares_def own_free_def
  by (auto simp: row_ids_delete) (auto simp: delete_memories_def Let_def)

lemma spares_update:
  assumes "own_free agent {i} m" and "\<And>t. mt_id (f t) = mt_id t"
  shows "spares agent m (update_memories (\<lambda>r. mm_id r = i) f m)"
  using assms unfolding spares_def own_free_def
  by (auto simp: row_ids_update) (auto simp: update_memories_def in_update_where_iff)

lemma own_free_delete: "own_free agent ids m \<Longrightarrow> own_free agent ids (delete_memories P m)"
  by (simp add: own_free_def delete_memories_def Let_def)

lemma own_free_hold: "own_free agent ids m \<Longrightarrow> own_free agent ids (update_memories P (set_state Held) m)"
  by (auto simp: own_free_def update_memories_def in_update_where_iff set_state_def split: if_splits)

lemma own_free_cong: "agent_memories m' = agent_memories m \<Longrightarrow> own_free agent ids m' = own_free agent ids m"
  by (simp add: own_free_def)

lemma own_free_subset: "own_free agent ids m \<Longrightarrow> ids' \<subseteq> ids \<Longrightarrow> own_free agent ids' m"
  by (auto simp: own_free_def)

lemma spares_insert_event:
  "insert_event sc eid agent' target source now p m = (Ok x, m1) \<Longrightarrow> spares agent m m1"
  by (rule spares_same) (simp_all add: insert_event_tables)

lemma hold_rows_spares:
  "own_free agent (mt_id ` set ts) m \<Longrightarrow> hold_rows fresh now ts n m = (Ok k, m') \<Longrightarrow> spares agent m m'"
proof (induction ts arbitrary: n m)
  case (Cons t ts)
  from Cons.prems(2) obtain x m2 where ev: "insert_event Privileged (fresh n) (mm_agent_id (mt_row t)) (mt_id t) Librarian now
      (PUpdate (mm_content (mt_row t)) (mm_content (mt_row t)) (mm_kind (mt_row t)) Held (mm_pinned (mt_row t))) m = (Ok x, m2)"
    and rest: "hold_rows fresh now ts (n + 1) (update_memories (\<lambda>q. mm_id q = mt_id t) (set_state Held) m2) = (Ok k, m')"
    by (auto simp: tx_bind_Ok_iff decode_memory_row_Ok_iff)
  have free: "own_free agent (mt_id ` set (t # ts)) m2"
    using Cons.prems(1) own_free_cong [OF insert_event_tables(1) [OF ev]] by blast
  then have "spares agent m2 (update_memories (\<lambda>q. mm_id q = mt_id t) (set_state Held) m2)"
    by (intro spares_update own_free_subset [OF free]) (simp_all add: set_state_def)
  moreover have "own_free agent (mt_id ` set ts) (update_memories (\<lambda>q. mm_id q = mt_id t) (set_state Held) m2)"
    by (intro own_free_hold own_free_subset [OF free]) auto
  ultimately show ?case using spares_insert_event [OF ev] Cons.IH [OF _ rest] spares_trans by blast
qed simp

lemma evict_rows_spares:
  "own_free agent (mt_id ` set ts) m \<Longrightarrow> evict_rows fresh agent now ts n m = (Ok gone, m') \<Longrightarrow> spares agent m m'"
proof (induction ts arbitrary: n m gone)
  case (Cons t ts)
  from Cons.prems(2) obtain x m2 rest where ev: "insert_event Privileged (fresh n) agent (mt_id t) Librarian now
      (PForget (mm_content (mt_row t))) m = (Ok x, m2)"
    and rest: "evict_rows fresh agent now ts (n + 1) (delete_memories (\<lambda>q. mm_id q = mt_id t) m2) = (Ok rest, m')"
    by (auto simp: tx_bind_Ok_iff decode_memory_row_Ok_iff)
  have free: "own_free agent (mt_id ` set (t # ts)) m2"
    using Cons.prems(1) own_free_cong [OF insert_event_tables(1) [OF ev]] by blast
  then have "spares agent m2 (delete_memories (\<lambda>q. mm_id q = mt_id t) m2)"
    by (intro spares_delete own_free_subset [OF free]) simp
  moreover have "own_free agent (mt_id ` set ts) (delete_memories (\<lambda>q. mm_id q = mt_id t) m2)"
    by (intro own_free_delete own_free_subset [OF free]) auto
  ultimately show ?case using spares_insert_event [OF ev] Cons.IH [OF _ rest] spares_trans by blast
qed simp

lemma forget_spares:
  assumes "row_ids_ok m"
  shows "spares agent m (snd (mem_apply vo (MForget agent target Librarian) now mid eid m))"
  unfolding mem_apply_def apply_scoped_def embed_for_mutation.simps tx_bind_simps
proof (rule spares_run_tx)
  fix x m' assume "apply_in_tx Privileged (MForget agent target Librarian) None now mid eid m = (Ok x, m')"
  then obtain r m2 y where lock: "lock_existing Privileged agent target Librarian m = Ok r"
    and ev: "insert_event Privileged eid agent target Librarian now (PForget (mm_content r)) m = (Ok y, m2)"
    and m': "m' = delete_memories (\<lambda>r. mm_id r = target) m2"
    by (auto simp: apply_forget_def tx_bind_Ok_iff)
  from lock_existing_OkE [OF lock assms] obtain t where "live m target t" "mm_agent_id (mt_row t) = agent"
    "\<not> mm_pinned (mt_row t)" by (metis mutation_source.distinct(5))
  moreover from this(1) have t: "t \<in> set (agent_memories m)" "mt_id t = target" using live_in [of m target t] by simp_all
  ultimately have "own_free agent (mt_id ` set [t]) m" by (intro own_freeI [OF assms]) auto
  then have "own_free agent {target} m2" using own_free_cong [OF insert_event_tables(1) [OF ev]] t by auto
  from spares_delete [OF this] show "spares agent m m'"
    unfolding m' using spares_insert_event [OF ev] spares_trans by blast
qed

lemma dedup_spares: "row_ids_ok m \<Longrightarrow> spares agent m (snd (dedup_pairs vo env agent k ps forgotten m))"
proof (induction ps arbitrary: k forgotten m)
  case (Cons p ps)
  show ?case
  proof (cases "mm_id (pc_a p) \<in> set forgotten \<or> mm_id (pc_b p) \<in> set forgotten \<or> mm_pinned (pick_dedup_loser p)")
    case True
    then have "dedup_pairs vo env agent k (p # ps) forgotten m = dedup_pairs vo env agent (k + 1) ps forgotten m"
      by (auto simp: Let_def)
    then show ?thesis using Cons by simp
  next
    case False
    let ?r = "mem_apply vo (MForget agent (mm_id (pick_dedup_loser p)) Librarian) (sw_now env 0 k) 0 (sw_fresh env 0 k) m"
    have "spares agent m (snd ?r)" using forget_spares Cons.prems .
    then have "spares agent m (snd (tx_bind ?r (\<lambda>_. dedup_pairs vo env agent (k + 1) ps (mm_id (pick_dedup_loser p) # forgotten))))"
      by (intro spares_tx_bind Cons)
    then show ?thesis using False by (simp add: Let_def)
  qed
qed simp

lemma filter_own_free:
  assumes "row_ids_ok m" and "\<And>r. P r \<Longrightarrow> \<not> mm_pinned r \<and> mm_agent_id r = agent"
  shows "own_free agent (mt_id ` set (filter (\<lambda>t. P (mt_row t)) (agent_memories m))) m"
  using assms by (intro own_freeI) auto

lemma mature_spares: "row_ids_ok m \<Longrightarrow> spares agent m (snd (mature_tentative agent cutoff now fresh m))"
  unfolding mature_tentative_def
  by (rule spares_run_tx) (auto elim!: hold_rows_spares [rotated] intro!: filter_own_free simp: matured_def simp del: set_filter)

lemma decay_spares: "row_ids_ok m \<Longrightarrow> spares agent m (snd (decay_validated agent cutoff now fresh m))"
  unfolding decay_validated_def
  by (rule spares_run_tx) (auto elim!: hold_rows_spares [rotated] intro!: filter_own_free simp: decayed_def simp del: set_filter)

lemma evict_spares:
  assumes "row_ids_ok m"
  shows "spares agent m (snd (evict_overflow agent quota now fresh m))"
  unfolding evict_overflow_def
proof (rule spares_run_tx)
  fix x m'
  let ?own = "filter (\<lambda>t. mm_agent_id (mt_row t) = agent \<and> \<not> mm_pinned (mt_row t)) (agent_memories m)"
  let ?n = "length (filter (\<lambda>t. mm_agent_id (mt_row t) = agent) (agent_memories m))"
  assume run: "(let total = ?n in if total \<le> quota then (Ok [], m)
    else evict_rows fresh agent now (take (total - quota) (eviction_order ?own)) 0 m) = (Ok x, m')"
  have "set (take (?n - quota) (eviction_order ?own)) \<subseteq> set ?own"
    using mset_eq_setD [OF eviction_order_mset [of ?own]] set_take_subset [of _ "eviction_order ?own"] by simp
  then have "own_free agent (mt_id ` set (take (?n - quota) (eviction_order ?own))) m"
    by (intro own_freeI [OF assms]) auto
  then show "spares agent m m'" using run by (auto simp: Let_def split: if_splits dest: evict_rows_spares)
qed

lemma flag_spares: "row_ids_ok m \<Longrightarrow> spares agent m (snd (flag_pairs env agent' forgotten k ps n m))"
proof (induction ps arbitrary: k n m)
  case (Cons p ps)
  have "spares agent m (snd (record_contradiction agent' a b reason now cid m))" for a b reason now cid
    unfolding record_contradiction_def
    by (rule spares_run_tx) (auto simp: Let_def spares_same split: option.splits if_splits prod.splits)
  note flagged = this
  show ?case using Cons flagged by (auto intro!: spares_tx_bind)
qed simp

lemma sweep_spares:
  assumes "row_ids_ok m"
  shows "spares agent m (snd (run_librarian_sweep vo env agent now m))"
  unfolding run_librarian_sweep_def using assms
  by (intro spares_tx_bind; simp add: dedup_spares mature_spares decay_spares evict_spares flag_spares)

text \<open>Whatever a librarian sweep finds, and also when it fails half way, it leaves every pinned memory and
  every memory of another agent exactly as it was, content, state, vector and counters.\<close>

theorem sweep_spares_pinned:
  assumes "row_ids_ok m" and "run_librarian_sweep vo env agent now m = (res, m')"
    and "t \<in> set (agent_memories m)" and "mm_pinned (mt_row t) \<or> mm_agent_id (mt_row t) \<noteq> agent"
  shows "t \<in> set (agent_memories m')"
  using sweep_spares [OF assms(1), of agent vo env now] assms(2-4) by (auto simp: spares_def)

section \<open>What deduplication leaves\<close>

text \<open>The order of the merge: a higher state, then the older row, then the smaller identifier.\<close>

definition beats :: "memory_row \<Rightarrow> memory_row \<Rightarrow> bool" where
  "beats w l \<longleftrightarrow> priority (mm_state l) < priority (mm_state w) \<or>
     priority (mm_state w) = priority (mm_state l) \<and>
       (mm_created_at w < mm_created_at l \<or> mm_created_at w = mm_created_at l \<and> mm_id w < mm_id l)"

definition pick_dedup_winner :: "pair_candidate \<Rightarrow> memory_row" where
  "pick_dedup_winner p = (if a_wins p then pc_a p else pc_b p)"

lemma cmp_cases: "(case cmp x y of Greater \<Rightarrow> a | Less \<Rightarrow> b | Equal \<Rightarrow> c) = (if y < x then a else if x < y then b else c)"
  "(case cmp x y of Less \<Rightarrow> a | Greater \<Rightarrow> b | Equal \<Rightarrow> c) = (if x < y then a else if y < x then b else c)"
  by (auto simp: cmp_def)

lemma winner_beats: "mm_id (pc_a p) \<noteq> mm_id (pc_b p) \<Longrightarrow> beats (pick_dedup_winner p) (pick_dedup_loser p)"
  by (auto simp: beats_def pick_dedup_winner_def pick_dedup_loser_def a_wins_def cmp_def)

lemma forget_Ok_effect:
  assumes "mem_apply vo (MForget agent target Librarian) now mid eid m = (Ok x, m')"
  shows "agent_memories m' = filter (\<lambda>t. mt_id t \<noteq> target) (agent_memories m)"
  using assms
  by (auto simp: mem_apply_def apply_scoped_def apply_forget_def tx_bind_Ok_iff delete_memories_def delete_where_def
           Let_def insert_event_tables(1))

lemma dedup_pairs_effect:
  assumes "dedup_pairs vo env agent k ps forgotten m = (Ok gone, m')"
  shows "\<exists>new. gone = new @ forgotten \<and>
      agent_memories m' = filter (\<lambda>t. mt_id t \<notin> set new) (agent_memories m) \<and>
      (\<forall>i \<in> set new. \<exists>p \<in> set ps. i = mm_id (pick_dedup_loser p) \<and> \<not> mm_pinned (pick_dedup_loser p)) \<and>
      (\<forall>p \<in> set ps. mm_id (pc_a p) \<in> set gone \<or> mm_id (pc_b p) \<in> set gone \<or> mm_pinned (pick_dedup_loser p))"
  using assms
proof (induction ps arbitrary: k forgotten m)
  case (Cons p ps)
  let ?l = "pick_dedup_loser p"
  show ?case
  proof (cases "mm_id (pc_a p) \<in> set forgotten \<or> mm_id (pc_b p) \<in> set forgotten \<or> mm_pinned ?l")
    case True
    then have "dedup_pairs vo env agent (k + 1) ps forgotten m = (Ok gone, m')" using Cons.prems by (auto simp: Let_def split: if_splits)
    from Cons.IH [OF this] obtain new where "gone = new @ forgotten"
      "agent_memories m' = filter (\<lambda>t. mt_id t \<notin> set new) (agent_memories m)"
      "\<forall>i \<in> set new. \<exists>p \<in> set ps. i = mm_id (pick_dedup_loser p) \<and> \<not> mm_pinned (pick_dedup_loser p)"
      "\<forall>p \<in> set ps. mm_id (pc_a p) \<in> set gone \<or> mm_id (pc_b p) \<in> set gone \<or> mm_pinned (pick_dedup_loser p)"
      by blast
    then show ?thesis using True by (intro exI [of _ new]) auto
  next
    case False
    then obtain x m1 where one: "mem_apply vo (MForget agent (mm_id ?l) Librarian) (sw_now env 0 k) 0 (sw_fresh env 0 k) m = (Ok x, m1)"
      and rest: "dedup_pairs vo env agent (k + 1) ps (mm_id ?l # forgotten) m1 = (Ok gone, m')"
      using Cons.prems by (auto simp: Let_def tx_bind_Ok_iff)
    from Cons.IH [OF rest] obtain new where new: "gone = new @ mm_id ?l # forgotten"
      "agent_memories m' = filter (\<lambda>t. mt_id t \<notin> set new) (agent_memories m1)"
      "\<forall>i \<in> set new. \<exists>p \<in> set ps. i = mm_id (pick_dedup_loser p) \<and> \<not> mm_pinned (pick_dedup_loser p)"
      "\<forall>p \<in> set ps. mm_id (pc_a p) \<in> set gone \<or> mm_id (pc_b p) \<in> set gone \<or> mm_pinned (pick_dedup_loser p)"
      by blast
    have "agent_memories m' = filter (\<lambda>t. mt_id t \<notin> set (new @ [mm_id ?l])) (agent_memories m)"
      using new(2) forget_Ok_effect [OF one] by (auto intro!: filter_cong)
    moreover have "?l = pc_a p \<or> ?l = pc_b p" by (simp add: pick_dedup_loser_def)
    ultimately show ?thesis using new(1,3,4) False by (intro exI [of _ "new @ [mm_id ?l]"]) auto
  qed
qed simp

lemma decode_all_set: "decode_all f rs = Ok xs \<Longrightarrow> x \<in> set xs \<Longrightarrow> \<exists>r \<in> set rs. f r = Ok x"
  by (induction rs arbitrary: xs) (auto simp: and_then_Ok_iff)

lemma similar_pairs_ids:
  assumes "similar_pairs vo agent th n m = Ok ps" and "p \<in> set ps"
  shows "mm_id (pc_a p) < mm_id (pc_b p)"
proof -
  let ?base = "filter (\<lambda>t. mm_agent_id (mt_row t) = agent \<and> mt_embedding t \<noteq> None) (agent_memories m)"
  let ?sim = "\<lambda>(a, b). 1 - vo_distance vo (the (mt_embedding a)) (the (mt_embedding b))"
  let ?joined = "filter (\<lambda>(a, b). mt_id a < mt_id b \<and> th \<le> ?sim (a, b)) (List.product ?base ?base)"
  from decode_all_set [OF assms [unfolded similar_pairs_def Let_def]] obtain a b where
    ab: "(a, b) \<in> set (take (min n MAX_SIMILAR_PAIRS_PER_AGENT) (sort_key (\<lambda>p. - ?sim p) ?joined))"
    and p: "and_then (decode_memory_row a) (\<lambda>ra. and_then (decode_memory_row b) (\<lambda>rb.
        if \<bar>?sim (a, b)\<bar> \<le> 2 then Ok \<lparr>pc_a = ra, pc_b = rb, pc_similarity = vo_narrow vo (?sim (a, b))\<rparr>
        else Panic ''invariant: cosine similarity in [-1, 1]'')) = Ok p"
    by auto
  have "(a, b) \<in> set ?joined" using set_take_subset ab by (metis (no_types, lifting) set_sort subsetD)
  moreover have "mm_id (pc_a p) = mt_id a" "mm_id (pc_b p) = mt_id b"
    using p by (auto simp: and_then_Ok_iff decode_memory_row_Ok_iff split: if_splits)
  ultimately show ?thesis by simp
qed

text \<open>After the merge step of a sweep only the rows it forgot are gone; every pair of near duplicates it looked at
  has lost a side, unless the side that would have gone is pinned; and every forgotten row was unpinned and lost to
  a row of higher state, or of the same state and older, or of the same age with the smaller identifier.\<close>

theorem dedup_settles_pairs:
  assumes "similar_pairs vo agent DEDUP_SIMILARITY_THRESHOLD MAX_SIMILAR_PAIRS_PER_AGENT m = Ok ps"
    and "dedup_pairs vo env agent 0 ps [] m = (Ok gone, m')"
  shows "agent_memories m' = filter (\<lambda>t. mt_id t \<notin> set gone) (agent_memories m) \<and>
    (\<forall>p \<in> set ps. mm_id (pc_a p) \<in> set gone \<or> mm_id (pc_b p) \<in> set gone \<or> mm_pinned (pick_dedup_loser p)) \<and>
    (\<forall>i \<in> set gone. \<exists>p \<in> set ps. i = mm_id (pick_dedup_loser p) \<and> \<not> mm_pinned (pick_dedup_loser p) \<and>
       beats (pick_dedup_winner p) (pick_dedup_loser p))"
  using dedup_pairs_effect [OF assms(2)] similar_pairs_ids [OF assms(1)] winner_beats by fastforce

section \<open>Prompts fit\<close>

lemma strip_all_keeps:
  "\<forall>w \<in> set ws. c \<notin> set w \<Longrightarrow> c \<in> set s \<Longrightarrow> c \<in> set (strip_all ws s)"
proof (induction ws s rule: strip_all.induct)
  case (1 ws s)
  show ?case
  proof (cases "find (\<lambda>w. w \<noteq> [] \<and> length w \<le> length s \<and> take (length w) s = w) ws")
    case None
    then show ?thesis using 1 by (subst strip_all.simps) simp
  next
    case (Some w)
    then have "w \<in> set ws" "take (length w) s = w" by (auto simp: find_Some_iff)
    moreover have "c \<in> set (take (length w) s) \<union> set (drop (length w) s)"
      using "1.prems"(2) by (metis append_take_drop_id set_append)
    ultimately have "c \<in> set (drop (length w) s)" using "1.prems"(1) by auto
    then show ?thesis using "1.IH" [OF Some] "1.prems"(1) Some by (subst strip_all.simps) simp
  qed
qed

lemma trim_keeps: "\<forall>w \<in> set whitespace. c \<notin> set w \<Longrightarrow> c \<in> set s \<Longrightarrow> c \<in> set (trim s)"
  by (simp add: trim_def trim_start_def trim_end_def strip_all_keeps)

lemma e_not_blank: "\<forall>w \<in> set whitespace. CHR ''e'' \<notin> set w"
  by code_simp

lemma length_truncate_from_start: "length (truncate_from_start s n) \<le> n"
  using forward_to_boundary_ge [of "length s - n" s] by (simp add: truncate_from_start_def) linarith

lemma frame_prompt_Ok:
  assumes "CHR ''e'' \<in> set header" and "length header + length notice \<le> PROMPT_MAX_BYTES"
  shows "\<exists>p. frame_prompt header notice body = Ok (header @ p) \<and> length (header @ p) \<le> PROMPT_MAX_BYTES \<and>
    (p = body \<or> PROMPT_MAX_BYTES < length header + length body \<and> (\<exists>k. p = notice @ drop k body))"
proof -
  let ?cut = "truncate_from_start body (PROMPT_MAX_BYTES - (length header + length notice))"
  let ?p = "if length header + length body \<le> PROMPT_MAX_BYTES then body else notice @ ?cut"
  have "length (header @ ?p) \<le> PROMPT_MAX_BYTES"
    using assms(2) length_truncate_from_start [of body "PROMPT_MAX_BYTES - (length header + length notice)"] by auto
  moreover have "CHR ''e'' \<in> set (trim (header @ ?p))"
    by (rule trim_keeps [OF e_not_blank]) (use assms(1) in simp)
  ultimately have "frame_prompt header notice body = Ok (header @ ?p)"
    by (auto simp: frame_prompt_def Let_def prompt_try_from_def)
  moreover have "\<exists>k. ?cut = drop k body" unfolding truncate_from_start_def by (metis drop0)
  ultimately show ?thesis using \<open>length (header @ ?p) \<le> _\<close> by (intro exI [of _ ?p]) auto
qed

text \<open>The prompt of a resolution turn can always be built, whatever the two memories hold and also when they are gone:
  it starts with the fixed header, keeps the queue's prompt limit, and is the whole body unless that does not fit, in which
  case the head of the body goes and a notice says so.\<close>

theorem resolution_prompt_fits:
  "\<exists>p. build_resolution_prompt sh ev a b = Ok (RESOLUTION_HEADER @ p) \<and>
     length (RESOLUTION_HEADER @ p) \<le> PROMPT_MAX_BYTES \<and>
     (p = resolution_body sh ev a b \<or>
      PROMPT_MAX_BYTES < length RESOLUTION_HEADER + length (resolution_body sh ev a b) \<and>
        (\<exists>k. p = RESOLUTION_NOTICE @ drop k (resolution_body sh ev a b)))"
  unfolding build_resolution_prompt_def
  by (rule frame_prompt_Ok) (simp_all add: RESOLUTION_HEADER_def RESOLUTION_NOTICE_def PROMPT_MAX_BYTES_def)

section \<open>Agents past the batch\<close>

lemma enqueue_members: "org_members (snd (enqueue q req now i s tp d)) = org_members d"
proof -
  obtain res d' where run: "enqueue q req now i s tp d = (res, d')" by fastforce
  show ?thesis
  proof (cases "is_Ok res")
    case True
    then obtain out where "enqueue_in_tx q Privileged req now i s tp d = (Ok out, d')"
      using run by (auto simp: enqueue_def is_Ok_iff)
    then show ?thesis using run by (cases rule: enqueue_in_tx_cases) auto
  next
    case False
    have "d' = d" by (rule run_tx_rollback [OF run [unfolded enqueue_def] False])
    then show ?thesis using run by simp
  qed
qed

text \<open>Nothing of an agent's is touched, nor what decides which agents a tick visits.\<close>

definition passes_by :: "agent_id \<Rightarrow> 'v mem_db \<Rightarrow> 'v mem_db \<Rightarrow> bool" where
  "passes_by agent m m' \<longleftrightarrow>
     md_agent_orgs m' = md_agent_orgs m \<and> org_members (md_core m') = org_members (md_core m) \<and>
     (row_ids_ok m \<longrightarrow> row_ids_ok m') \<and>
     (\<forall>t \<in> set (agent_memories m). mm_agent_id (mt_row t) = agent \<longrightarrow> t \<in> set (agent_memories m'))"

lemma passes_by_trans: "passes_by agent m m1 \<Longrightarrow> passes_by agent m1 m' \<Longrightarrow> passes_by agent m m'"
  unfolding passes_by_def by metis

lemma spares_passes_by: "spares agent' m m' \<Longrightarrow> agent \<noteq> agent' \<Longrightarrow> passes_by agent m m'"
  by (auto simp: spares_def passes_by_def)

lemma resolutions_pass_by: "passes_by agent m (snd (enqueue_resolutions q sh env j a org owner k evs m))"
proof (induction evs arbitrary: k m)
  case (Cons ev evs)
  have core: "passes_by agent m (m\<lparr>md_core := d\<rparr>)" if "org_members d = org_members (md_core m)" for d
    using that by (simp add: passes_by_def row_ids_ok_def)
  have "passes_by agent m (snd (enqueue_resolutions q sh env j a org owner (k + 1) evs (m\<lparr>md_core := d\<rparr>)))"
    if "org_members d = org_members (md_core m)" for d
    using core [OF that] Cons.IH passes_by_trans by blast
  moreover have "org_members d = org_members (md_core m)"
    if "enqueue q req now i s tp (md_core m) = (res, d)" for req now i s tp res d
    using enqueue_members [of q req now i s tp "md_core m"] that by simp
  ultimately show ?case
    using core by (auto simp: tx_bind_def passes_by_def [of agent m m] split: outcome.splits prod.splits)
qed (simp add: passes_by_def)

lemma tick_agents_pass_by:
  "row_ids_ok m \<Longrightarrow> agent \<notin> fst ` set as \<Longrightarrow> passes_by agent m (snd (tick_agents vo q sh env now j as m))"
proof (induction as arbitrary: j m)
  case (Cons a as)
  obtain ag org owner where a: "a = (ag, org, owner)" by (cases a)
  obtain res m1 where sweep: "run_librarian_sweep vo (te_sweep env j) ag now m = (res, m1)" by fastforce
  have s: "passes_by agent m m1"
    using spares_passes_by [OF sweep_spares [OF Cons.prems(1), of ag vo "te_sweep env j" now]] Cons.prems(2) a sweep by simp
  obtain r2 m2 where enq: "enqueue_resolutions q sh env j ag org owner 0 (unresolved_contradictions ag m1) m1 = (r2, m2)"
    by fastforce
  then have e: "passes_by agent m m2" using resolutions_pass_by [of agent m1] s passes_by_trans by (metis snd_conv)
  have "passes_by agent m0 (snd (tick_agents vo q sh env now (j + 1) as m0))" if "passes_by agent m m0" for m0
    using Cons.IH that Cons.prems by (simp add: passes_by_def)
  then have "passes_by agent m (snd (tick_agents vo q sh env now (j + 1) as m0))" if "passes_by agent m m0" for m0
    using that passes_by_trans by blast
  then show ?case using s e by (simp add: a sweep enq split: outcome.split)
qed (simp add: passes_by_def)

inductive librarian_runs :: "'v mem_db \<Rightarrow> 'v mem_db \<Rightarrow> bool" where
  "librarian_tick vo q sh env now m = (res, m') \<Longrightarrow> librarian_runs m m'"

lemma list_agents_cong: "passes_by agent m m' \<Longrightarrow> list_agents m' = list_agents m"
  by (simp add: list_agents_def passes_by_def)

text \<open>A tick looks at the first thirty-two agents by age and at no others, so the librarian never gets to an agent created
  after them: however often it runs, no memory of such an agent is ever merged, matured, decayed or evicted.\<close>

theorem librarian_never_reaches_later_agents:
  assumes "row_ids_ok m" and "agent \<notin> fst ` set (list_agents m)" and "librarian_runs\<^sup>*\<^sup>* m m'"
    and "t \<in> set (agent_memories m)" and "mm_agent_id (mt_row t) = agent"
  shows "t \<in> set (agent_memories m')"
proof -
  from assms(3) have "passes_by agent m m'"
  proof (induction rule: rtranclp_induct)
    case (step m1 m2)
    then obtain vo :: "'a vec_ops" and q sh env now res where
      "librarian_tick vo q sh env now m1 = (res, m2)" by (auto elim: librarian_runs.cases)
    moreover have "row_ids_ok m1" "list_agents m1 = list_agents m"
      using step.IH assms(1) list_agents_cong [OF step.IH] by (simp_all add: passes_by_def)
    ultimately have "passes_by agent m1 m2"
      using tick_agents_pass_by [of m1 agent "list_agents m1" vo q sh env now 0] assms(2) by (simp add: librarian_tick_def)
    then show ?case using step.IH passes_by_trans by blast
  qed (simp add: passes_by_def)
  then show ?thesis using assms(4,5) by (simp add: passes_by_def)
qed

end
