(* ===== verification/Librarian_Examples.thy ===== *)
theory Librarian_Examples
  imports Memory_Librarian Memory_Examples
begin

text \<open>
  Runs of the librarian: agent 1 of organisation 3 has written the same note twice and a pinned one, agent 2 has one of
  its own; and an organisation with thirty-three agents, the last of which has a memory. The witnesses of \<open>Memory_Librarian\<close>.
\<close>

definition note_row :: "memory_id \<Rightarrow> agent_id \<Rightarrow> string \<Rightarrow> memory_state \<Rightarrow> bool \<Rightarrow> string memory_trow" where
  "note_row i agent c st p =
     \<lparr>mt_row = \<lparr>mm_id = i, mm_agent_id = agent, mm_org_id = 3, mm_kind = Procedure, mm_content = c, mm_state = st,
        mm_pinned = p, mm_source_turn_id = None, mm_created_at = 100, mm_last_validated_at = 100,
        mm_last_accessed_at = 100, mm_access_count = 0\<rparr>,
      mt_embedding = Some c\<rparr>"

definition shelf :: "(agent_id \<times> org_id) list \<Rightarrow> string memory_trow list \<Rightarrow> string mem_db" where
  "shelf orgs rows = (mem_start (empty_db\<lparr>org_members := [(7, 3)]\<rparr>) orgs)\<lparr>agent_memories := rows\<rparr>"

definition twice :: "string mem_db" where
  "twice = shelf [(1, 3), (2, 3)]
     [note_row 31 1 ''a'' Held False, note_row 32 1 ''a'' Tentative False, note_row 33 1 ''b'' Core True, note_row 34 2 ''c'' Held False]"

definition sweep_env0 :: sweep_env where
  "sweep_env0 = \<lparr>sw_now = (\<lambda>_ k. 500 + int k), sw_fresh = (\<lambda>s k. 1000 * (s + 1) + k)\<rparr>"

definition near :: "pair_candidate list" where
  "near = (case similar_pairs note_ops 1 DEDUP_SIMILARITY_THRESHOLD MAX_SIMILAR_PAIRS_PER_AGENT twice of Ok ps \<Rightarrow> ps | _ \<Rightarrow> [])"

definition merged :: "string mem_db" where
  "merged = snd (dedup_pairs note_ops sweep_env0 1 0 near [] twice)"

lemma near_run: "similar_pairs note_ops 1 DEDUP_SIMILARITY_THRESHOLD MAX_SIMILAR_PAIRS_PER_AGENT twice = Ok near"
  by code_simp

lemma merged_fst: "fst (dedup_pairs note_ops sweep_env0 1 0 near [] twice) = Ok [32]"
  by code_simp

theorem dedup_settles_pairs_witness:
  "agent_memories merged = filter (\<lambda>t. mt_id t \<notin> set [32]) (agent_memories twice)"
proof -
  have "dedup_pairs note_ops sweep_env0 1 0 near [] twice = (Ok [32], merged)"
    using merged_fst by (simp add: merged_def prod_eq_iff)
  from dedup_settles_pairs [OF near_run this] show ?thesis by simp
qed

lemma twice_ids: "row_ids_ok twice" "note_row 33 1 ''b'' Core True \<in> set (agent_memories twice)"
  by (simp_all add: twice_def shelf_def row_ids_ok_def note_row_def)

theorem sweep_spares_pinned_witness:
  "note_row 33 1 ''b'' Core True \<in> set (agent_memories (snd (run_librarian_sweep note_ops sweep_env0 1 9000000 twice)))"
  by (rule sweep_spares_pinned [OF twice_ids(1) prod.collapse [symmetric] twice_ids(2)]) (simp add: note_row_def)

definition crowd :: "string mem_db" where
  "crowd = shelf (map (\<lambda>i. (i, 3)) [0..<33]) [note_row 31 32 ''a'' Tentative False]"

definition show0 :: show_ops where
  "show0 = \<lparr>sh_uuid = show_nat, sh_time = (\<lambda>_. ''2024-01-01T00:00:00+00:00'')\<rparr>"

definition tick_env0 :: tick_env where
  "tick_env0 = \<lparr>te_sweep = (\<lambda>_. sweep_env0), te_request = (\<lambda>j k. 5000 + 100 * j + k), te_session = (\<lambda>j k. 5000 + 100 * j + k),
     te_now = (\<lambda>_ _. 600), te_traceparent = None\<rparr>"

theorem librarian_never_reaches_later_agents_witness:
  "note_row 31 32 ''a'' Tentative False \<in>
     set (agent_memories (snd (librarian_tick note_ops queue_new show0 tick_env0 9000000 crowd)))"
proof -
  have ids: "row_ids_ok crowd" and row: "note_row 31 32 ''a'' Tentative False \<in> set (agent_memories crowd)"
    by (simp_all add: crowd_def shelf_def row_ids_ok_def)
  have "list_all (\<lambda>(a, _). a \<noteq> 32) (list_agents crowd)" by code_simp
  then have late: "32 \<notin> fst ` set (list_agents crowd)" by (auto simp: list_all_iff)
  have run: "librarian_runs\<^sup>*\<^sup>* crowd (snd (librarian_tick note_ops queue_new show0 tick_env0 9000000 crowd))"
    by (rule r_into_rtranclp) (rule librarian_runs.intros, rule prod.collapse [symmetric])
  show ?thesis
    by (rule librarian_never_reaches_later_agents [OF ids late run row]) (simp add: note_row_def)
qed

end
