(* ===== verification/Memory_Reflection.thy ===== *)
theory Memory_Reflection
  imports Memory_Librarian Session_Store
begin

text \<open>
  The reflection scheduler, \<open>src/memory/reflection_scheduler.rs\<close>, and the checkpoint the worker writes when a
  reflection turn is over (\<open>write_reflection_checkpoint\<close> of \<open>src/runtime/worker.rs\<close>). The scheduler looks for
  conversations that went idle, renders the part the agent has not reflected on and enqueues a
  reflection turn. The table \<open>reflection_checkpoints\<close> stands beside the runtime's tables.
\<close>

section \<open>Tables\<close>

record checkpoint_row =
  rc_agent_id :: agent_id
  rc_org_id :: org_id
  rc_session_id :: session_id
  rc_last_turn_id :: prompt_request_id
  rc_reflection_session_ids :: "session_id list"
  rc_created_at :: instant

record refl_db =
  rf_core :: db
  rf_agent_orgs :: "(agent_id \<times> org_id) list"
  reflection_checkpoints :: "checkpoint_row list"

definition REFLECTION_IDLE_TIMEOUT_SECS :: int where
  "REFLECTION_IDLE_TIMEOUT_SECS = 30 * 60"

definition REFLECTION_SCHEDULER_BATCH_LIMIT :: nat where
  "REFLECTION_SCHEDULER_BATCH_LIMIT = 32"

record reflection_candidate =
  rk_agent_id :: agent_id
  rk_session_id :: session_id
  rk_last_turn_id :: prompt_request_id
  rk_latest_at :: instant
  rk_previous_cursor :: "prompt_request_id option"
  rk_org_id :: org_id
  rk_created_by_user_id :: user_id

section \<open>Candidates\<close>

definition agent_sessions :: "db \<Rightarrow> (session_row \<times> agent_id) list" where
  "agent_sessions d =
     concat (map (\<lambda>s. case ses_participant_a s of Agent a \<Rightarrow> [(s, a)] | _ \<Rightarrow> []) (sessions d)) @
     concat (map (\<lambda>s. case ses_participant_b s of Agent a \<Rightarrow> [(s, a)] | _ \<Rightarrow> []) (sessions d))"

definition messages_in :: "db \<Rightarrow> session_id \<Rightarrow> message_row list" where
  "messages_in d s = filter (\<lambda>m. msg_session_id m = s) (session_messages d)"

definition checkpoint_of :: "refl_db \<Rightarrow> agent_id \<Rightarrow> session_id \<Rightarrow> checkpoint_row option" where
  "checkpoint_of r a s = find (\<lambda>c. rc_agent_id c = a \<and> rc_session_id c = s) (reflection_checkpoints r)"

definition reflection_open :: "db \<Rightarrow> session_id \<Rightarrow> bool" where
  "reflection_open d s \<longleftrightarrow>
     (\<exists>p \<in> set (prompt_requests d). pr_kind p = Reflection \<and> pr_status p \<in> {Pending, Processing} \<and>
        (case pr_kind_payload p of PReflection s' _ \<Rightarrow> s' = s | _ \<Rightarrow> False))"

definition seed_normal :: "db \<Rightarrow> prompt_request_id \<Rightarrow> bool" where
  "seed_normal d rid \<longleftrightarrow> (case request_of d rid of None \<Rightarrow> True | Some p \<Rightarrow> pr_kind p = Normal)"

text \<open>One row of the joins, without the condition on \<open>latest_at\<close>.\<close>

definition candidate_rows :: "refl_db \<Rightarrow> session_row \<times> agent_id \<Rightarrow> reflection_candidate list" where
  "candidate_rows r = (\<lambda>(s, a).
     (case messages_in (rf_core r) (ses_id s) of
        [] \<Rightarrow> []
      | ms \<Rightarrow>
          let latest_seq = Max (msg_seq ` set ms); latest_at = Max (msg_created_at ` set ms);
              rc = checkpoint_of r a (ses_id s) in
          if (case rc of None \<Rightarrow> True | Some c \<Rightarrow> rc_created_at c < latest_at)
             \<and> seed_normal (rf_core r) (ses_root_request_id s) \<and> \<not> reflection_open (rf_core r) (ses_id s)
          then map (\<lambda>m. \<lparr>rk_agent_id = a, rk_session_id = ses_id s, rk_last_turn_id = msg_request_id m,
                         rk_latest_at = latest_at, rk_previous_cursor = map_option rc_last_turn_id rc,
                         rk_org_id = ses_org_id s, rk_created_by_user_id = ses_created_by_user_id s\<rparr>)
                 (filter (\<lambda>m. msg_seq m = latest_seq) ms)
          else []))"

definition find_candidates :: "instant \<Rightarrow> refl_db \<Rightarrow> reflection_candidate list" where
  "find_candidates cutoff r =
     take REFLECTION_SCHEDULER_BATCH_LIMIT
       (sort_key rk_latest_at
          (filter (\<lambda>c. rk_latest_at c \<le> cutoff) (concat (map (candidate_rows r) (agent_sessions (rf_core r))))))"

section \<open>The slice\<close>

definition result_mark :: "tool_result \<Rightarrow> string" where
  "result_mark t = ''[tool-result '' @ tr_call_id t @ (if tr_is_error t then '': err]'' else '': ok]'')"

definition call_mark :: "tool_call \<Rightarrow> string" where
  "call_mark c = ''[tool-call '' @ tc_name c @ ''('' @ tc_input c @ '')]''"

fun map_for_viewer :: "chat_message \<Rightarrow> bool \<Rightarrow> chat_message" where
  "map_for_viewer (Assistant blocks) True = Assistant blocks"
| "map_for_viewer (User blocks) False = User blocks"
| "map_for_viewer (User blocks) True =
     Assistant (map (\<lambda>b. case b of UText t \<Rightarrow> AText t | UToolResult t \<Rightarrow> AText (result_mark t)) blocks)"
| "map_for_viewer (Assistant blocks) False =
     User (map (\<lambda>b. case b of AText t \<Rightarrow> UText t | AReasoning t \<Rightarrow> UText t | AToolCall c \<Rightarrow> UText (call_mark c)) blocks)"

text \<open>\<open>COALESCE(MAX(seq), -1)\<close> over the messages a turn left in the session.\<close>

definition turn_end :: "db \<Rightarrow> session_id \<Rightarrow> prompt_request_id option \<Rightarrow> int" where
  "turn_end d s turn =
     (case filter (\<lambda>m. Some (msg_request_id m) = turn) (messages_in d s) of
        [] \<Rightarrow> -1
      | ms \<Rightarrow> int (Max (msg_seq ` set ms)))"

definition fetch_slice ::
  "session_id \<Rightarrow> agent_id \<Rightarrow> prompt_request_id option \<Rightarrow> prompt_request_id \<Rightarrow> db \<Rightarrow> chat_message list" where
  "fetch_slice s agent previous up_to d =
     map (\<lambda>m. map_for_viewer (msg_body m) (msg_sender m = SAgent agent))
       (sort_key msg_seq
          (filter (\<lambda>m. turn_end d s previous < int (msg_seq m) \<and> int (msg_seq m) \<le> turn_end d s (Some up_to))
             (messages_in d s)))"

fun render_chat_message :: "chat_message \<Rightarrow> string" where
  "render_chat_message (User blocks) =
     ''User: '' @ concat (map (\<lambda>b. case b of UText t \<Rightarrow> t | UToolResult t \<Rightarrow> result_mark t) blocks) @ [CHR 10]"
| "render_chat_message (Assistant blocks) =
     ''Assistant: '' @
     concat (map (\<lambda>b. case b of AText t \<Rightarrow> t | AReasoning t \<Rightarrow> t | AToolCall c \<Rightarrow> call_mark c) blocks) @ [CHR 10]"

definition REFLECTION_HEADER :: string where
  "REFLECTION_HEADER =
     ''Reflect on the conversation below. Identify what should be remembered, updated, or forgotten.'' @ [CHR 10, CHR 10] @
     ''## Conversation'' @ [CHR 10]"

definition REFLECTION_NOTICE :: string where
  "REFLECTION_NOTICE = ''[earlier turns truncated to fit prompt cap]'' @ [CHR 10]"

definition REFLECTION_FALLBACK :: string where
  "REFLECTION_FALLBACK =
     ''Reflect on this session. No new turns are available since the last '' @
     ''checkpoint; review existing memory instead.''"

definition build_reflection_prompt :: "chat_message list \<Rightarrow> (unit, string) outcome" where
  "build_reflection_prompt msgs =
     (let transcript = concat (map render_chat_message msgs) in
      if trim transcript = []
      then (case prompt_try_from REFLECTION_FALLBACK of Ok p \<Rightarrow> Ok p | _ \<Rightarrow> Panic ''invariant: fallback fits Prompt cap'')
      else frame_prompt REFLECTION_HEADER REFLECTION_NOTICE transcript)"

section \<open>The tick\<close>

definition reflect_key :: "(nat \<Rightarrow> string) \<Rightarrow> reflection_candidate \<Rightarrow> string" where
  "reflect_key show_uuid c =
     ''reflect-'' @ show_uuid (rk_agent_id c) @ ''-'' @ show_uuid (rk_session_id c) @ ''-'' @ show_uuid (rk_last_turn_id c)"

definition reflection_request :: "reflection_candidate \<Rightarrow> string \<Rightarrow> string \<Rightarrow> new_prompt_request" where
  "reflection_request c key content =
     \<lparr>np_session = None, np_sender = Agent (rk_agent_id c), np_receiver_agent_id = rk_agent_id c, np_parent_session = None,
      np_content = content, np_idempotency_key = key, np_org_id = rk_org_id c,
      np_created_by_user_id = rk_created_by_user_id c,
      np_kind_payload = PReflection (rk_session_id c) (rk_last_turn_id c)\<rparr>"

definition enqueue_reflection ::
  "queue_cfg \<Rightarrow> (nat \<Rightarrow> string) \<Rightarrow> reflection_candidate \<Rightarrow> instant \<Rightarrow> prompt_request_id \<Rightarrow> session_id \<Rightarrow> string option \<Rightarrow>
   refl_db \<Rightarrow> (prompt_error, enqueue_outcome) outcome \<times> refl_db" where
  "enqueue_reflection q show_uuid c now rid sid tp r =
     (case idempotency_key_try_from (reflect_key show_uuid c) of
        Ok key \<Rightarrow>
          (case build_reflection_prompt
                  (fetch_slice (rk_session_id c) (rk_agent_id c) (rk_previous_cursor c) (rk_last_turn_id c) (rf_core r)) of
             Ok content \<Rightarrow>
               (let (res, d) = enqueue q (reflection_request c key content) now rid sid tp (rf_core r) in
                (res, r\<lparr>rf_core := d\<rparr>))
           | Err _ \<Rightarrow> (Panic ''unreachable'', r)
           | Panic msg \<Rightarrow> (Panic msg, r))
      | _ \<Rightarrow> (Panic ''invariant: reflection idempotency key fits the cap'', r))"

text \<open>A failed enqueue is logged and the loop goes on; identifiers and clock readings by candidate.\<close>

fun reflect_all ::
  "queue_cfg \<Rightarrow> (nat \<Rightarrow> string) \<Rightarrow> (nat \<Rightarrow> instant \<times> prompt_request_id \<times> session_id) \<Rightarrow> string option \<Rightarrow> nat \<Rightarrow>
   reflection_candidate list \<Rightarrow> refl_db \<Rightarrow> (prompt_error, unit) outcome \<times> refl_db" where
  "reflect_all q show_uuid env tp k [] r = (Ok (), r)"
| "reflect_all q show_uuid env tp k (c # cs) r =
     (let (now, rid, sid) = env k in
      case enqueue_reflection q show_uuid c now rid sid tp r of
        (Panic msg, r') \<Rightarrow> (Panic msg, r')
      | (_, r') \<Rightarrow> reflect_all q show_uuid env tp (k + 1) cs r')"

definition reflection_tick ::
  "queue_cfg \<Rightarrow> (nat \<Rightarrow> string) \<Rightarrow> (nat \<Rightarrow> instant \<times> prompt_request_id \<times> session_id) \<Rightarrow> string option \<Rightarrow> instant \<Rightarrow>
   refl_db \<Rightarrow> (prompt_error, unit) outcome \<times> refl_db" where
  "reflection_tick q show_uuid env tp now r =
     reflect_all q show_uuid env tp 0 (find_candidates (now - REFLECTION_IDLE_TIMEOUT_SECS) r) r"

section \<open>The checkpoint\<close>

definition write_reflection_checkpoint ::
  "agent_id \<Rightarrow> session_id \<Rightarrow> prompt_request_id \<Rightarrow> session_id \<Rightarrow> user_id \<Rightarrow> instant \<Rightarrow> refl_db \<Rightarrow>
   (string, unit) outcome \<times> refl_db" where
  "write_reflection_checkpoint agent conversation up_to reflsid acting now =
     run_tx (\<lambda>r.
       let d = rf_core r; sc = AsUser acting in
       case map_of (rf_agent_orgs r) agent of
         None \<Rightarrow> (Err ''reflection_checkpoints.org_id'', r)
       | Some org \<Rightarrow>
           if \<not> visible sc d org then (Err ''row-level security'', r)
           else if session_of d conversation = None then (Err ''reflection_checkpoints_session_id_fkey'', r)
           else if request_of d up_to = None then (Err ''reflection_checkpoints_last_turn_id_fkey'', r)
           else (case checkpoint_of r agent conversation of
             None \<Rightarrow>
               (Ok (), r\<lparr>reflection_checkpoints := reflection_checkpoints r @
                  [\<lparr>rc_agent_id = agent, rc_org_id = org, rc_session_id = conversation, rc_last_turn_id = up_to,
                    rc_reflection_session_ids = [reflsid], rc_created_at = now\<rparr>]\<rparr>)
           | Some c \<Rightarrow>
               (Ok (), r\<lparr>reflection_checkpoints :=
                  update_where (\<lambda>c. rc_agent_id c = agent \<and> rc_session_id c = conversation)
                    (\<lambda>c. c\<lparr>rc_last_turn_id := up_to,
                           rc_reflection_session_ids := rc_reflection_session_ids c @ [reflsid],
                           rc_created_at := now\<rparr>)
                    (reflection_checkpoints r)\<rparr>)))"

section \<open>Prompts fit\<close>

lemma build_reflection_prompt_shape:
  "\<exists>p. build_reflection_prompt msgs = Ok p \<and> length p \<le> PROMPT_MAX_BYTES \<and>
     (let transcript = concat (map render_chat_message msgs) in
      if trim transcript = [] then p = REFLECTION_FALLBACK
      else p = REFLECTION_HEADER @ transcript \<or>
           PROMPT_MAX_BYTES < length REFLECTION_HEADER + length transcript \<and>
             (\<exists>k. p = REFLECTION_HEADER @ REFLECTION_NOTICE @ drop k transcript))"
proof (cases "trim (concat (map render_chat_message msgs)) = []")
  case True
  have "CHR ''e'' \<in> set REFLECTION_FALLBACK" by (simp add: REFLECTION_FALLBACK_def)
  from trim_keeps [OF e_not_blank this] have "trim REFLECTION_FALLBACK \<noteq> []" by auto
  moreover have "length REFLECTION_FALLBACK \<le> PROMPT_MAX_BYTES" by (simp add: REFLECTION_FALLBACK_def PROMPT_MAX_BYTES_def)
  ultimately show ?thesis using True by (simp add: build_reflection_prompt_def prompt_try_from_def)
next
  case False
  have "CHR ''e'' \<in> set REFLECTION_HEADER" by (simp add: REFLECTION_HEADER_def)
  moreover have "length REFLECTION_HEADER + length REFLECTION_NOTICE \<le> PROMPT_MAX_BYTES"
    by (simp add: REFLECTION_HEADER_def REFLECTION_NOTICE_def PROMPT_MAX_BYTES_def)
  ultimately show ?thesis
    using frame_prompt_Ok [of REFLECTION_HEADER REFLECTION_NOTICE "concat (map render_chat_message msgs)"] False
    by (auto simp: build_reflection_prompt_def Let_def)
qed

text \<open>The prompt of a reflection turn can always be built: it keeps the queue's limit, and unless there is nothing to
  reflect on it is the fixed header with the transcript, of which only the head is dropped, with a notice, when
  it does not fit.\<close>

theorem reflection_prompt_fits:
  "\<exists>p. build_reflection_prompt msgs = Ok p \<and> length p \<le> PROMPT_MAX_BYTES \<and>
     (let transcript = concat (map render_chat_message msgs) in
      if trim transcript = [] then p = REFLECTION_FALLBACK
      else p = REFLECTION_HEADER @ transcript \<or>
           PROMPT_MAX_BYTES < length REFLECTION_HEADER + length transcript \<and>
             (\<exists>k. p = REFLECTION_HEADER @ REFLECTION_NOTICE @ drop k transcript))"
  by (rule build_reflection_prompt_shape)

section \<open>Slices\<close>

lemma sort_filter_split:
  assumes "c \<le> (c' :: 'k :: linorder)"
  shows "sort_key f (filter (\<lambda>x. f x \<le> c') xs) =
    sort_key f (filter (\<lambda>x. f x \<le> c) xs) @ sort_key f (filter (\<lambda>x. c < f x \<and> f x \<le> c') xs)"
proof (induction xs)
  case (Cons x xs)
  have low: "insort_key f x (ys @ zs) = insort_key f x ys @ zs" if "\<forall>z \<in> set zs. f x < f z" for ys zs
    using that by (induction ys) (cases zs, auto)
  have high: "insort_key f x (ys @ zs) = ys @ insort_key f x zs" if "\<forall>y \<in> set ys. f y < f x" for ys zs
    using that by (induction ys) auto
  consider "f x \<le> c" | "c < f x" "f x \<le> c'" | "c' < f x" by fastforce
  then show ?case
  proof cases
    case 1
    with assms have "f x \<le> c'" by simp
    with 1 Cons.IH show ?thesis by (auto simp: not_less intro!: low)
  next
    case 2
    with Cons.IH show ?thesis by (auto simp: not_le intro!: high)
  next
    case 3
    with assms Cons.IH show ?thesis by (auto simp: not_le)
  qed
qed simp

text \<open>Successive reflections on a conversation neither skip nor repeat a message: the slice up to one turn followed by the
  slice from there to a later turn is the slice up to the later turn.\<close>

theorem reflection_slices_chain:
  assumes "turn_end d s (Some u1) \<le> turn_end d s (Some u2)" and "0 \<le> turn_end d s (Some u1)" and "turn_end d s previous \<le> turn_end d s (Some u1)"
  shows "fetch_slice s agent previous u1 d @ fetch_slice s agent (Some u1) u2 d = fetch_slice s agent previous u2 d"
proof -
  let ?ms = "filter (\<lambda>m. turn_end d s previous < int (msg_seq m)) (messages_in d s)"
  obtain c1 c2 where c: "turn_end d s (Some u1) = int c1" "turn_end d s (Some u2) = int c2" "c1 \<le> c2"
    using assms(1,2) by (metis nonneg_int_cases of_nat_le_iff order_trans)
  have "filter (\<lambda>m. turn_end d s (Some u1) < int (msg_seq m) \<and> int (msg_seq m) \<le> turn_end d s (Some u2)) (messages_in d s) =
      filter (\<lambda>m. c1 < msg_seq m \<and> msg_seq m \<le> c2) ?ms"
    using assms(3) c by (auto intro!: filter_cong)
  moreover have "filter (\<lambda>m. turn_end d s previous < int (msg_seq m) \<and> int (msg_seq m) \<le> int k) (messages_in d s) =
      filter (\<lambda>m. msg_seq m \<le> k) ?ms" for k
    by (auto intro!: filter_cong)
  ultimately show ?thesis
    using sort_filter_split [OF c(3), of msg_seq ?ms] by (simp add: fetch_slice_def c(1,2) del: filter_filter)
qed

section \<open>Messages behind the checkpoint\<close>

lemma candidate_rows_facts:
  assumes "c \<in> set (candidate_rows r (s, a))"
  shows "rk_agent_id c = a \<and> rk_session_id c = ses_id s \<and> rk_latest_at c = Max (msg_created_at ` set (messages_in (rf_core r) (ses_id s))) \<and>
    messages_in (rf_core r) (ses_id s) \<noteq> [] \<and>
    (\<forall>k. checkpoint_of r a (ses_id s) = Some k \<longrightarrow> rc_created_at k < rk_latest_at c)"
  using assms by (cases "messages_in (rf_core r) (ses_id s)") (auto simp: candidate_rows_def Let_def split: if_splits option.splits)

lemma find_candidates_facts:
  assumes "c \<in> set (find_candidates cutoff r)"
  obtains s where "(s, rk_agent_id c) \<in> set (agent_sessions (rf_core r))" "c \<in> set (candidate_rows r (s, rk_agent_id c))"
    "ses_id s = rk_session_id c"
proof -
  from assms have "c \<in> set (concat (map (candidate_rows r) (agent_sessions (rf_core r))))"
    unfolding find_candidates_def by (metis (no_types, lifting) filter_is_subset set_sort in_set_takeD subsetD)
  then obtain s a where "(s, a) \<in> set (agent_sessions (rf_core r))" "c \<in> set (candidate_rows r (s, a))" by auto
  then show ?thesis using that candidate_rows_facts by metis
qed

lemma checkpoint_written:
  assumes "write_reflection_checkpoint agent s up_to rs u now r = (Ok (), r')"
  shows "rf_core r' = rf_core r \<and> (\<exists>k. checkpoint_of r' agent s = Some k \<and> rc_last_turn_id k = up_to \<and> rc_created_at k = now)"
proof -
  let ?P = "\<lambda>c. rc_agent_id c = agent \<and> rc_session_id c = s"
  let ?g = "\<lambda>c. c\<lparr>rc_last_turn_id := up_to, rc_reflection_session_ids := rc_reflection_session_ids c @ [rs], rc_created_at := now\<rparr>"
  have upd: "find ?P (update_where ?P ?g cs) = map_option ?g (find ?P cs)" for cs
    by (induction cs) auto
  show ?thesis
  proof (cases "find ?P (reflection_checkpoints r)")
    case None
    then show ?thesis using assms
      by (auto simp: write_reflection_checkpoint_def checkpoint_of_def Let_def find_append split: if_splits option.splits)
  next
    case (Some c)
    then have "r' = r\<lparr>reflection_checkpoints := update_where ?P ?g (reflection_checkpoints r)\<rparr>" using assms
      by (auto simp: write_reflection_checkpoint_def checkpoint_of_def Let_def split: if_splits option.splits)
    then show ?thesis using upd [of "reflection_checkpoints r"] Some by (simp add: checkpoint_of_def)
  qed
qed

text \<open>A message that arrives while a reflection turn is running is behind the cursor that turn leaves, but older than the checkpoint
  it writes, and the scheduler compares times: the conversation is no candidate, however long it stays idle, though the
  message is in the slice that is still to be reflected on.\<close>

theorem interim_message_never_scheduled:
  assumes "write_reflection_checkpoint agent s up_to rs u now r = (Ok (), r')"
    and "\<forall>m \<in> set (messages_in (rf_core r) s). msg_created_at m \<le> now"
    and "m \<in> set (messages_in (rf_core r) s)" and "turn_end (rf_core r) s (Some up_to) < int (msg_seq m)"
  shows "map_for_viewer (msg_body m) (msg_sender m = SAgent agent) \<in>
      set (fetch_slice s agent (Some up_to) (msg_request_id m) (rf_core r')) \<and>
    (\<forall>cutoff. \<forall>c \<in> set (find_candidates cutoff r'). \<not> (rk_agent_id c = agent \<and> rk_session_id c = s))"
proof (intro conjI allI ballI notI)
  note written = checkpoint_written [OF assms(1)]
  let ?own = "filter (\<lambda>n. msg_request_id n = msg_request_id m) (messages_in (rf_core r) s)"
  have "m \<in> set ?own" using assms(3) by simp
  then have "turn_end (rf_core r) s (Some (msg_request_id m)) = int (Max (msg_seq ` set ?own))" "msg_seq m \<le> Max (msg_seq ` set ?own)"
    by (cases ?own; auto simp: turn_end_def)+
  then show "map_for_viewer (msg_body m) (msg_sender m = SAgent agent) \<in>
      set (fetch_slice s agent (Some up_to) (msg_request_id m) (rf_core r'))"
    using assms(3,4) written by (auto simp: fetch_slice_def)
  fix cutoff c assume c: "c \<in> set (find_candidates cutoff r')" and is_s: "rk_agent_id c = agent \<and> rk_session_id c = s"
  from c obtain x where "c \<in> set (candidate_rows r' (x, agent))" "ses_id x = s" using find_candidates_facts is_s by metis
  from candidate_rows_facts [OF this(1)] this(2) written have
    "messages_in (rf_core r) s \<noteq> []" "now < Max (msg_created_at ` set (messages_in (rf_core r) s))" by auto
  then show False using assms(2) by (simp add: not_le [symmetric])
qed

section \<open>Failed reflections at the head of the queue\<close>

lemma enqueue_reflection_known:
  assumes "\<And>n. length (show_uuid n) = 36"
    and "\<exists>p \<in> set (prompt_requests (rf_core r)). pr_org_id p = rk_org_id c \<and> pr_idempotency_key p = reflect_key show_uuid c"
  shows "\<exists>out. enqueue_reflection q show_uuid c now rid sid tp r = (Ok out, r)"
proof -
  have "idempotency_key_try_from (reflect_key show_uuid c) = Ok (reflect_key show_uuid c)"
    by (simp add: idempotency_key_try_from_def reflect_key_def MAX_IDEMPOTENCY_KEY_BYTES_def assms(1))
  moreover obtain content where "build_reflection_prompt
      (fetch_slice (rk_session_id c) (rk_agent_id c) (rk_previous_cursor c) (rk_last_turn_id c) (rf_core r)) = Ok content"
    using build_reflection_prompt_shape by blast
  moreover obtain out where "read_idempotent Privileged (rk_org_id c) (reflect_key show_uuid c) (rf_core r) = Some out"
    using assms(2) by (cases "read_idempotent Privileged (rk_org_id c) (reflect_key show_uuid c) (rf_core r)")
      (auto simp: read_idempotent_def find_None_iff)
  ultimately show ?thesis
    by (simp add: enqueue_reflection_def enqueue_def run_tx_def enqueue_in_tx_def reflection_request_def)
qed

lemma reflect_all_known:
  assumes "\<And>n. length (show_uuid n) = 36"
    and "\<forall>c \<in> set cs. \<exists>p \<in> set (prompt_requests (rf_core r)). pr_org_id p = rk_org_id c \<and> pr_idempotency_key p = reflect_key show_uuid c"
  shows "reflect_all q show_uuid env tp k cs r = (Ok (), r)"
  using assms(2)
proof (induction cs arbitrary: k)
  case (Cons c cs)
  obtain now rid sid where env: "env k = (now, rid, sid)" by (cases "env k")
  obtain out where "enqueue_reflection q show_uuid c now rid sid tp r = (Ok out, r)"
    using enqueue_reflection_known [OF assms(1)] Cons.prems by fastforce
  then show ?case using Cons by (simp add: env)
qed simp

text \<open>A reflection that failed is not retried, since its key is taken, but its conversation stays a candidate; candidates are taken
  oldest first, thirty-two at a time. So once thirty-two such conversations are idle, every later tick enqueues nothing
  at all, whatever else has gone idle in the meantime.\<close>

theorem failed_reflections_starve_others:
  assumes "\<And>n. length (show_uuid n) = 36"
    and "length (find_candidates (now - REFLECTION_IDLE_TIMEOUT_SECS) r) = REFLECTION_SCHEDULER_BATCH_LIMIT"
    and "\<forall>c \<in> set (find_candidates (now - REFLECTION_IDLE_TIMEOUT_SECS) r).
       \<exists>p \<in> set (prompt_requests (rf_core r)). pr_org_id p = rk_org_id c \<and> pr_idempotency_key p = reflect_key show_uuid c"
    and "now \<le> now'"
  shows "reflection_tick q show_uuid env tp now' r = (Ok (), r)"
proof -
  have "find_candidates (now' - REFLECTION_IDLE_TIMEOUT_SECS) r = find_candidates (now - REFLECTION_IDLE_TIMEOUT_SECS) r"
    using assms(2,4) sort_filter_split [of "now - REFLECTION_IDLE_TIMEOUT_SECS" "now' - REFLECTION_IDLE_TIMEOUT_SECS" rk_latest_at
      "concat (map (candidate_rows r) (agent_sessions (rf_core r)))"]
    by (simp add: find_candidates_def min_def split: if_splits)
  then show ?thesis using reflect_all_known [OF assms(1,3)] by (simp add: reflection_tick_def)
qed

end
