(* ===== verification/Reflection_Examples.thy ===== *)
theory Reflection_Examples
  imports Memory_Reflection
begin

text \<open>
  Conversations the reflection scheduler meets: one with two turns, the second of which arrived while the first was being reflected
  on; and thirty-two whose reflections have failed. The witnesses of \<open>Memory_Reflection\<close>.
\<close>

definition talk_session :: "session_id \<Rightarrow> session_row" where
  "talk_session i = \<lparr>ses_id = i, ses_created_at = 0, ses_org_id = 3, ses_created_by_user_id = 7, ses_parent_session_id = None,
     ses_root_request_id = i, ses_participant_a = Human, ses_participant_b = Agent 1\<rparr>"

definition talk_message :: "session_id \<Rightarrow> nat \<Rightarrow> prompt_request_id \<Rightarrow> instant \<Rightarrow> message_row" where
  "talk_message s seq turn t = \<lparr>msg_session_id = s, msg_seq = seq, msg_sender = SHuman, msg_receiver = Agent 1,
     msg_body = User [UText ''hello''], msg_request_id = turn, msg_created_at = t, msg_org_id = 3\<rparr>"

definition talk_request :: "prompt_request_id \<Rightarrow> session_id \<Rightarrow> string \<Rightarrow> request_status \<Rightarrow> request_kind_payload \<Rightarrow> prompt_request" where
  "talk_request i s key st payload = \<lparr>pr_id = i, pr_session_id = s, pr_org_id = 3, pr_content = ''hello'', pr_idempotency_key = key,
     pr_status = st, pr_attempts = 1, pr_turn_seq = 1, pr_cancellation_requested = False, pr_failure_reason = None,
     pr_sender = SHuman, pr_receiver_agent_id = 1, pr_root_request_id = i, pr_traceparent = None,
     pr_kind = payload_kind payload, pr_kind_payload = payload, pr_created_at = 0, pr_updated_at = 0\<rparr>"

definition talk :: refl_db where
  "talk = \<lparr>rf_core = empty_db\<lparr>sessions := [talk_session 10], session_messages := [talk_message 10 0 10 100, talk_message 10 1 11 200],
       prompt_requests := [talk_request 10 10 ''a'' Done PNormal, talk_request 11 10 ''b'' Done PNormal],
       org_members := [(7, 3)]\<rparr>,
     rf_agent_orgs = [(1, 3)], reflection_checkpoints = []\<rparr>"

theorem reflection_slices_chain_witness:
  "fetch_slice 10 1 None 10 (rf_core talk) @ fetch_slice 10 1 (Some 10) 11 (rf_core talk) = fetch_slice 10 1 None 11 (rf_core talk)"
proof -
  have "turn_end (rf_core talk) 10 (Some 10) = 0" "turn_end (rf_core talk) 10 (Some 11) = 1" "turn_end (rf_core talk) 10 None = -1"
    by code_simp+
  then show ?thesis by (intro reflection_slices_chain) simp_all
qed

definition talked :: refl_db where
  "talked = snd (write_reflection_checkpoint 1 10 10 50 7 300 talk)"

theorem interim_message_never_scheduled_witness:
  "map_for_viewer (User [UText ''hello'']) False \<in> set (fetch_slice 10 1 (Some 10) 11 (rf_core talked)) \<and>
   find_candidates 100000 talked = []"
proof -
  have "fst (write_reflection_checkpoint 1 10 10 50 7 300 talk) = Ok ()" by code_simp
  then have written: "write_reflection_checkpoint 1 10 10 50 7 300 talk = (Ok (), talked)" by (simp add: talked_def prod_eq_iff)
  have ms: "messages_in (rf_core talk) 10 = [talk_message 10 0 10 100, talk_message 10 1 11 200]" by code_simp
  have "turn_end (rf_core talk) 10 (Some 10) = 0" by code_simp
  then have scheduled: "map_for_viewer (msg_body (talk_message 10 1 11 200)) (msg_sender (talk_message 10 1 11 200) = SAgent 1) \<in>
      set (fetch_slice 10 1 (Some 10) (msg_request_id (talk_message 10 1 11 200)) (rf_core talked)) \<and>
    (\<forall>cutoff. \<forall>c \<in> set (find_candidates cutoff talked). \<not> (rk_agent_id c = 1 \<and> rk_session_id c = 10))"
    by (intro interim_message_never_scheduled [OF written]) (simp_all add: ms talk_message_def)
  then have "\<forall>c \<in> set (find_candidates 100000 talked). \<not> (rk_agent_id c = 1 \<and> rk_session_id c = 10)" by blast
  moreover have "list_all (\<lambda>c. rk_agent_id c = 1 \<and> rk_session_id c = 10) (find_candidates 100000 talked)" by code_simp
  ultimately have "find_candidates 100000 talked = []" by (cases "find_candidates 100000 talked") simp_all
  then show ?thesis using scheduled by (simp add: talk_message_def)
qed

definition uuid0 :: "nat \<Rightarrow> string" where
  "uuid0 n = take 36 (show_nat n @ replicate 36 (CHR ''0''))"

definition failed_candidate :: "nat \<Rightarrow> reflection_candidate" where
  "failed_candidate i = \<lparr>rk_agent_id = 1, rk_session_id = i, rk_last_turn_id = i, rk_latest_at = 100, rk_previous_cursor = None,
     rk_org_id = 3, rk_created_by_user_id = 7\<rparr>"

definition starved :: refl_db where
  "starved = \<lparr>rf_core = empty_db\<lparr>sessions := map talk_session [0..<40], session_messages := map (\<lambda>i. talk_message i 0 i 100) [0..<40],
       prompt_requests := map (\<lambda>i. talk_request (100 + i) (100 + i) (reflect_key uuid0 (failed_candidate i)) Failed (PReflection i i)) [0..<32]\<rparr>,
     rf_agent_orgs = [(1, 3)], reflection_checkpoints = []\<rparr>"

lemma starved_row:
  assumes "i < 40"
  shows "candidate_rows starved (talk_session i, 1) = [failed_candidate i]"
proof -
  have "filter (\<lambda>m. msg_session_id m = i) (map (\<lambda>i. talk_message i 0 i 100) [0..<n]) = (if i < n then [talk_message i 0 i 100] else [])" for n
    by (induction n) (auto simp: talk_message_def)
  then have "messages_in (rf_core starved) i = [talk_message i 0 i 100]" using assms by (simp add: messages_in_def starved_def)
  moreover have "find (\<lambda>r. pr_id r = i) (map (\<lambda>i. talk_request (100 + i) (100 + i) (k i) Failed (PReflection i i)) [0..<32]) = None" for k
    using assms by (auto simp: find_None_iff talk_request_def)
  then have "seed_normal (rf_core starved) i" by (simp add: seed_normal_def request_of_def starved_def)
  moreover have "\<not> reflection_open (rf_core starved) i" by (auto simp: reflection_open_def starved_def talk_request_def)
  moreover have "checkpoint_of starved 1 i = None" by (simp add: checkpoint_of_def starved_def)
  ultimately show ?thesis
    by (simp add: candidate_rows_def talk_session_def Let_def talk_message_def failed_candidate_def)
qed

lemma starved_candidates: "find_candidates (2000 - REFLECTION_IDLE_TIMEOUT_SECS) starved = map failed_candidate [0..<32]"
proof -
  have sess: "agent_sessions (rf_core starved) = map (\<lambda>i. (talk_session i, 1)) [0..<40]"
  proof -
    have "ses_participant_a (talk_session i) = Human" "ses_participant_b (talk_session i) = Agent 1" for i
      by (simp_all add: talk_session_def)
    then show ?thesis by (simp add: agent_sessions_def starved_def comp_def del: upt_rec_numeral)
  qed
  have rows: "concat (map (candidate_rows starved) (map (\<lambda>i. (talk_session i, 1)) [0..<n])) = map failed_candidate [0..<n]" if "n \<le> 40" for n
    using that by (induction n) (simp_all add: starved_row [simplified])
  have "concat (map (candidate_rows starved) (agent_sessions (rf_core starved))) = map failed_candidate [0..<40]"
    unfolding sess by (rule rows) simp
  moreover have "filter (\<lambda>c. rk_latest_at c \<le> 200) (map failed_candidate [0..<40]) = map failed_candidate [0..<40]"
    by (simp add: filter_id_conv failed_candidate_def)
  moreover have "sort_key rk_latest_at (map failed_candidate [0..<40]) = map failed_candidate [0..<40]"
    by (rule sort_key_id_if_sorted) (simp add: o_def failed_candidate_def map_replicate_const)
  moreover have "take 32 (map failed_candidate [0..<40]) = map failed_candidate [0..<32]" by (simp add: take_map)
  ultimately show ?thesis
    by (simp add: find_candidates_def REFLECTION_IDLE_TIMEOUT_SECS_def REFLECTION_SCHEDULER_BATCH_LIMIT_def del: upt_rec_numeral)
qed

theorem failed_reflections_starve_others_witness:
  "reflection_tick queue_new uuid0 (\<lambda>k. (9000, 500 + k, 500 + k)) None 9000 starved = (Ok (), starved)"
proof (rule failed_reflections_starve_others [where now = 2000])
  show "length (uuid0 n) = 36" for n by (simp add: uuid0_def)
  show "length (find_candidates (2000 - REFLECTION_IDLE_TIMEOUT_SECS) starved) = REFLECTION_SCHEDULER_BATCH_LIMIT"
    by (simp add: starved_candidates REFLECTION_SCHEDULER_BATCH_LIMIT_def)
  show "\<forall>c \<in> set (find_candidates (2000 - REFLECTION_IDLE_TIMEOUT_SECS) starved).
      \<exists>p \<in> set (prompt_requests (rf_core starved)). pr_org_id p = rk_org_id c \<and> pr_idempotency_key p = reflect_key uuid0 c"
    unfolding starved_candidates by (auto simp: starved_def talk_request_def failed_candidate_def)
qed simp

end
