(* ===== verification/Memory_Tools.thy ===== *)
theory Memory_Tools
  imports Memory_Compose Memory_Journal Ttl_Cache Send_Message
begin

text \<open>
  The memory tools of the model, \<open>src/tools/system/memory/\<close>: write, update, forget, validate and recall, with the per-turn
  call counter they share, handle resolution through the cached memory section (\<open>src/memory/loader.rs\<close>), and
  the closing of a contradiction by a mutation made in its resolution turn. The decoded input is the argument,
  the output is the record the tool serialises; the printing of errors is a parameter. The HashMap of the counter is an association list.
\<close>

section \<open>The per-turn call counter\<close>

record call_counter =
  pc_inner :: "(prompt_request_id \<times> nat) list"
  pc_cap_per_turn :: nat
  pc_bookkeeping_max_entries :: nat

definition MAX_MEMORY_MUTATIONS_PER_TURN :: nat where
  "MAX_MEMORY_MUTATIONS_PER_TURN = 8"

definition MAX_RECALL_CALLS_PER_TURN :: nat where
  "MAX_RECALL_CALLS_PER_TURN = 6"

definition counter_with_cap :: "nat \<Rightarrow> call_counter" where
  "counter_with_cap cap = \<lparr>pc_inner = [], pc_cap_per_turn = cap, pc_bookkeeping_max_entries = 1024\<rparr>"

definition counter_mutations :: call_counter where
  "counter_mutations = counter_with_cap MAX_MEMORY_MUTATIONS_PER_TURN"

definition try_increment :: "prompt_request_id \<Rightarrow> call_counter \<Rightarrow> (nat, nat) outcome \<times> call_counter" where
  "try_increment rid c =
     (let counts = (if pc_bookkeeping_max_entries c \<le> length (pc_inner c) \<and> map_of (pc_inner c) rid = None
                    then [] else pc_inner c);
          entry = (case map_of counts rid of None \<Rightarrow> 0 | Some n \<Rightarrow> n) in
      if pc_cap_per_turn c \<le> entry
      then (Err (pc_cap_per_turn c), c\<lparr>pc_inner := AList.update rid entry counts\<rparr>)
      else (Ok (entry + 1), c\<lparr>pc_inner := AList.update rid (entry + 1) counts\<rparr>))"

section \<open>Shared infrastructure\<close>

record 'v tool_world =
  tw_mem :: "'v mem_db"
  tw_counter :: call_counter
  tw_recall_counter :: call_counter
  tw_sections :: "(session_id \<times> agent_id, memory_section) ttl_cache"

record 'v tool_env =
  tl_vec :: "'v vec_ops"
  tl_show_parse :: "parse_error \<Rightarrow> string"
  tl_show_store :: "memory_store_error \<Rightarrow> string"
  tl_show_provider :: "string \<Rightarrow> string"
  tl_cache_now :: nat
  tl_cache_after :: nat
  tl_now :: instant
  tl_close_now :: instant
  tl_memory :: memory_id
  tl_event :: memory_event_id
  tl_validation :: validation_event_id

type_synonym ('v, 'a) tool_step = "(tool_error, 'a) outcome \<times> 'v tool_world"

definition expect_agent :: "tool_ctx \<Rightarrow> (tool_error, agent_id) outcome" where
  "expect_agent ctx =
     (case participant_agent_id (tx_viewer ctx) of
        Some a \<Rightarrow> Ok a
      | None \<Rightarrow> Err (TBackend ''memory tool invoked with non-agent viewer''))"

definition check_cap :: "prompt_request_id \<Rightarrow> 'v tool_world \<Rightarrow> ('v, unit) tool_step" where
  "check_cap rid w =
     (case try_increment rid (tw_counter w) of
        (Ok _, c) \<Rightarrow> (Ok (), w\<lparr>tw_counter := c\<rparr>)
      | (Err cap, c) \<Rightarrow>
          (Err (InvalidInput (''memory mutation cap exceeded for this turn (max '' @ show_nat cap @ '' mutations)'')),
           w\<lparr>tw_counter := c\<rparr>)
      | (Panic msg, c) \<Rightarrow> (Panic msg, w))"

fun store_to_tool_err :: "'v tool_env \<Rightarrow> memory_store_error \<Rightarrow> tool_error" where
  "store_to_tool_err env (MDb s) = TBackend (tl_show_store env (MDb s))"
| "store_to_tool_err env (MProvider s) = TBackend (tl_show_store env (MProvider s))"
| "store_to_tool_err env e = InvalidInput (tl_show_store env e)"

definition parse_to_tool_err :: "'v tool_env \<Rightarrow> parse_error \<Rightarrow> tool_error" where
  "parse_to_tool_err env e = InvalidInput (tl_show_parse env e)"

text \<open>A call of the store, its errors mapped.\<close>

definition in_store ::
  "'v tool_env \<Rightarrow> ('v mem_db \<Rightarrow> ('v, 'a) mem_result) \<Rightarrow> 'v tool_world \<Rightarrow> ('v, 'a) tool_step" where
  "in_store env f w =
     (let (r, m) = f (tw_mem w) in (map_err (store_to_tool_err env) r, w\<lparr>tw_mem := m\<rparr>))"

definition parsed :: "'v tool_env \<Rightarrow> (parse_error, 'a) outcome \<Rightarrow> 'v tool_world \<Rightarrow> ('v, 'a) tool_step" where
  "parsed env r w = (map_err (parse_to_tool_err env) r, w)"

definition load_cached ::
  "'v tool_env \<Rightarrow> session_id \<Rightarrow> agent_id \<Rightarrow> request_kind_payload \<Rightarrow> 'v tool_world \<Rightarrow>
   (memory_error, memory_section) outcome \<times> 'v tool_world" where
  "load_cached env sid agent payload w =
     (let (r, c) = get_or_load (sid, agent)
                     (load_section (tl_vec env) (tl_show_store env) sid agent payload (tw_mem w))
                     (tl_cache_now env) (tl_cache_after env) (tw_sections w) in
      (r, w\<lparr>tw_sections := c\<rparr>))"

fun show_memory_error :: "memory_error \<Rightarrow> string" where
  "show_memory_error (MEBackend e) = ''memory backend error: '' @ e"

definition resolve_tool_handle ::
  "'v tool_env \<Rightarrow> session_id \<Rightarrow> agent_id \<Rightarrow> request_kind_payload \<Rightarrow> memory_handle \<Rightarrow> 'v tool_world \<Rightarrow> ('v, memory_id) tool_step" where
  "resolve_tool_handle env sid agent payload h w =
     (let (r, w') = load_cached env sid agent payload w in
      case r of
        Ok s \<Rightarrow>
          (case resolve_handle s h of
             Some i \<Rightarrow> (Ok i, w')
           | None \<Rightarrow> (Err (InvalidInput (''unknown memory handle '' @ memory_handle_display h @
                        ''; check the `## Memory` section in your system prompt for valid handles'')), w'))
      | Err e \<Rightarrow> (Err (TBackend (show_memory_error e)), w')
      | Panic msg \<Rightarrow> (Panic msg, w'))"

definition maybe_close_resolution :: "'v tool_env \<Rightarrow> tool_ctx \<Rightarrow> memory_event_id \<Rightarrow> 'v tool_world \<Rightarrow> ('v, unit) tool_step" where
  "maybe_close_resolution env ctx eid w =
     (case tx_kind_payload ctx of
        PResolution i \<Rightarrow>
          in_store env (resolve_contradiction_for_user (tx_acting_user_id ctx) i (Mutation eid) (tl_close_now env)) w
      | _ \<Rightarrow> (Ok (), w))"

section \<open>The tools\<close>

record tool_output =
  to_memory_id :: memory_id
  to_handle :: "memory_handle option"
  to_status :: string

definition memory_write_execute ::
  "'v tool_env \<Rightarrow> tool_ctx \<Rightarrow> memory_kind \<Rightarrow> string \<Rightarrow> 'v tool_world \<Rightarrow> ('v, tool_output) tool_step" where
  "memory_write_execute env ctx mk raw w =
     tx_bind (expect_agent ctx, w) (\<lambda>agent w1.
     tx_bind (check_cap (tx_request_id ctx) w1) (\<lambda>_ w2.
     tx_bind (parsed env (memory_content_try_from raw) w2) (\<lambda>content w3.
     tx_bind (in_store env (apply_for_user (tl_vec env) (tx_acting_user_id ctx)
                (MWrite agent mk content Tentative False (Turn (tx_request_id ctx)))
                (tl_now env) (tl_memory env) (tl_event env)) w3) (\<lambda>out w4.
       (Ok \<lparr>to_memory_id = mo_memory_id out, to_handle = None, to_status = memory_state_str Tentative\<rparr>, w4)))))"

definition memory_update_execute ::
  "'v tool_env \<Rightarrow> tool_ctx \<Rightarrow> string \<Rightarrow> string \<Rightarrow> 'v tool_world \<Rightarrow> ('v, tool_output) tool_step" where
  "memory_update_execute env ctx raw_handle raw w =
     tx_bind (expect_agent ctx, w) (\<lambda>agent w1.
     tx_bind (check_cap (tx_request_id ctx) w1) (\<lambda>_ w2.
     tx_bind (parsed env (memory_handle_parse raw_handle) w2) (\<lambda>h w3.
     tx_bind (resolve_tool_handle env (tx_session_id ctx) agent (tx_kind_payload ctx) h w3) (\<lambda>memory w4.
     tx_bind (parsed env (memory_content_try_from raw) w4) (\<lambda>content w5.
     tx_bind (in_store env (apply_for_user (tl_vec env) (tx_acting_user_id ctx)
                (MUpdate agent memory content Tentative (Turn (tx_request_id ctx)))
                (tl_now env) (tl_memory env) (tl_event env)) w5) (\<lambda>out w6.
     tx_bind (maybe_close_resolution env ctx (mo_event_id out) w6) (\<lambda>_ w7.
       (Ok \<lparr>to_memory_id = mo_memory_id out, to_handle = Some h, to_status = memory_state_str Tentative\<rparr>, w7))))))))"

definition memory_forget_execute ::
  "'v tool_env \<Rightarrow> tool_ctx \<Rightarrow> string \<Rightarrow> 'v tool_world \<Rightarrow> ('v, tool_output) tool_step" where
  "memory_forget_execute env ctx raw_handle w =
     tx_bind (expect_agent ctx, w) (\<lambda>agent w1.
     tx_bind (check_cap (tx_request_id ctx) w1) (\<lambda>_ w2.
     tx_bind (parsed env (memory_handle_parse raw_handle) w2) (\<lambda>h w3.
     tx_bind (resolve_tool_handle env (tx_session_id ctx) agent (tx_kind_payload ctx) h w3) (\<lambda>memory w4.
     tx_bind (in_store env (apply_for_user (tl_vec env) (tx_acting_user_id ctx)
                (MForget agent memory (Turn (tx_request_id ctx)))
                (tl_now env) (tl_memory env) (tl_event env)) w4) (\<lambda>out w5.
     tx_bind (maybe_close_resolution env ctx (mo_event_id out) w5) (\<lambda>_ w6.
       (Ok \<lparr>to_memory_id = mo_memory_id out, to_handle = Some h, to_status = ''forgotten''\<rparr>, w6)))))))"

definition memory_validate_execute ::
  "'v tool_env \<Rightarrow> tool_ctx \<Rightarrow> string \<Rightarrow> string \<Rightarrow> 'v tool_world \<Rightarrow> ('v, tool_output) tool_step" where
  "memory_validate_execute env ctx raw_handle raw_evidence w =
     tx_bind (expect_agent ctx, w) (\<lambda>agent w1.
     tx_bind (check_cap (tx_request_id ctx) w1) (\<lambda>_ w2.
     tx_bind (parsed env (memory_handle_parse raw_handle) w2) (\<lambda>h w3.
     tx_bind (resolve_tool_handle env (tx_session_id ctx) agent (tx_kind_payload ctx) h w3) (\<lambda>memory w4.
     tx_bind (parsed env (memory_evidence_try_from raw_evidence) w4) (\<lambda>evidence w5.
     tx_bind (in_store env (record_validation_for_user (tx_acting_user_id ctx) agent memory
                (AgentOrigin (tx_request_id ctx)) (Some evidence) (tl_now env) (tl_validation env) (tl_event env)) w5) (\<lambda>row w6.
       (Ok \<lparr>to_memory_id = mm_id row, to_handle = Some h, to_status = memory_state_str (mm_state row)\<rparr>, w6)))))))"

definition RECALL_MAX_RESULTS :: nat where
  "RECALL_MAX_RESULTS = 8"

definition recall_limit_try_from :: "nat \<Rightarrow> (parse_error, nat) outcome" where
  "recall_limit_try_from n =
     (if n = 0 \<or> RECALL_MAX_RESULTS < n then Err (OutOfRange ''recall_limit'' ''1..=RECALL_MAX_RESULTS'') else Ok n)"

text \<open>A failure to count the accesses is logged only.\<close>

definition recall_execute ::
  "'v tool_env \<Rightarrow> tool_ctx \<Rightarrow> string \<Rightarrow> memory_kind option \<Rightarrow> nat \<Rightarrow> 'v tool_world \<Rightarrow> ('v, (memory_row \<times> rat) list) tool_step" where
  "recall_execute env ctx query mk limit w =
     tx_bind (expect_agent ctx, w) (\<lambda>agent w1.
       case try_increment (tx_request_id ctx) (tw_recall_counter w1) of
         (Err _, c) \<Rightarrow>
           (Err (InvalidInput (''recall call cap exceeded for this turn (max '' @ show_nat MAX_RECALL_CALLS_PER_TURN @ '' calls)'')),
            w1\<lparr>tw_recall_counter := c\<rparr>)
       | (Panic msg, c) \<Rightarrow> (Panic msg, w1)
       | (Ok _, c) \<Rightarrow>
           (let w2 = w1\<lparr>tw_recall_counter := c\<rparr> in
            case vo_embed (tl_vec env) query of
              Err e \<Rightarrow> (Err (TBackend (''embedding query failed: '' @ tl_show_provider env e)), w2)
            | Panic msg \<Rightarrow> (Panic msg, w2)
            | Ok v \<Rightarrow>
                tx_bind (in_store env (\<lambda>m. (search_by_embedding (tl_vec env) agent v limit
                           \<lparr>sf_kinds = map_option (\<lambda>k. [k]) mk, sf_min_state = None\<rparr> m, m)) w2) (\<lambda>found w3.
                case record_access_for_user (tx_acting_user_id ctx) (map (\<lambda>(r, _). mm_id r) found) (tl_now env) (tw_mem w3) of
                  (Panic msg, m) \<Rightarrow> (Panic msg, w3\<lparr>tw_mem := m\<rparr>)
                | (_, m) \<Rightarrow> (Ok found, w3\<lparr>tw_mem := m\<rparr>))))"

section \<open>Counting\<close>

fun grants :: "prompt_request_id \<Rightarrow> prompt_request_id list \<Rightarrow> call_counter \<Rightarrow> nat" where
  "grants r [] c = 0"
| "grants r (x # xs) c =
     (let (res, c') = try_increment x c in (if x = r \<and> is_Ok res then 1 else 0) + grants r xs c')"

definition spent :: "prompt_request_id \<Rightarrow> call_counter \<Rightarrow> nat" where
  "spent r c = (case map_of (pc_inner c) r of None \<Rightarrow> 0 | Some n \<Rightarrow> n)"

definition roomy :: "prompt_request_id set \<Rightarrow> call_counter \<Rightarrow> bool" where
  "roomy X c \<longleftrightarrow> distinct (map fst (pc_inner c)) \<and>
     card (fst ` set (pc_inner c) \<union> X) \<le> pc_bookkeeping_max_entries c"

lemma not_cleared:
  assumes "roomy X c" and "x \<in> X" and "finite X"
  shows "\<not> (pc_bookkeeping_max_entries c \<le> length (pc_inner c) \<and> map_of (pc_inner c) x = None)"
proof
  assume h: "pc_bookkeeping_max_entries c \<le> length (pc_inner c) \<and> map_of (pc_inner c) x = None"
  then have "x \<notin> fst ` set (pc_inner c)" by (auto simp: map_of_eq_None_iff)
  then have "length (pc_inner c) < card (insert x (fst ` set (pc_inner c)))"
    using assms(1) distinct_card [of "map fst (pc_inner c)"] by (simp add: roomy_def)
  also have "\<dots> \<le> card (fst ` set (pc_inner c) \<union> X)" using assms(2,3) by (intro card_mono) auto
  finally show False using assms(1) h by (simp add: roomy_def)
qed

lemma try_increment_step:
  assumes "roomy X c" and "x \<in> X" and "finite X"
  obtains c' where "try_increment x c = (if pc_cap_per_turn c \<le> spent x c then (Err (pc_cap_per_turn c), c') else (Ok (spent x c + 1), c'))"
    "spent r c' = (if r = x \<and> spent x c < pc_cap_per_turn c then spent x c + 1 else spent r c)"
    "pc_cap_per_turn c' = pc_cap_per_turn c" "roomy X c'"
proof -
  let ?n = "if pc_cap_per_turn c \<le> spent x c then spent x c else spent x c + 1"
  let ?c' = "c\<lparr>pc_inner := AList.update x ?n (pc_inner c)\<rparr>"
  have "fst ` set (AList.update x ?n (pc_inner c)) \<union> X = fst ` set (pc_inner c) \<union> X"
    using assms(2) by (simp add: dom_update insert_absorb)
  then have "roomy X ?c'" using assms(1) distinct_update [of "pc_inner c" x ?n] unfolding roomy_def by simp
  moreover have "spent r ?c' = (if r = x \<and> spent x c < pc_cap_per_turn c then spent x c + 1 else spent r c)"
    by (auto simp: spent_def update_conv')
  moreover have "try_increment x c = (if pc_cap_per_turn c \<le> spent x c then (Err (pc_cap_per_turn c), ?c') else (Ok (spent x c + 1), ?c'))"
    unfolding try_increment_def Let_def if_not_P [OF not_cleared [OF assms]] by (simp add: spent_def)
  ultimately show thesis using that by simp
qed

lemma grants_spent:
  "roomy X c \<Longrightarrow> set rs \<subseteq> X \<Longrightarrow> finite X \<Longrightarrow> spent r c \<le> pc_cap_per_turn c \<Longrightarrow>
   grants r rs c + spent r c = min (pc_cap_per_turn c) (spent r c + count_list rs r)"
proof (induction rs arbitrary: c)
  case (Cons x rs)
  then have "x \<in> X" by simp
  from try_increment_step [OF Cons.prems(1) this Cons.prems(3), of r] obtain c' where
    step: "try_increment x c = (if pc_cap_per_turn c \<le> spent x c then (Err (pc_cap_per_turn c), c') else (Ok (spent x c + 1), c'))"
    and spent': "spent r c' = (if r = x \<and> spent x c < pc_cap_per_turn c then spent x c + 1 else spent r c)"
    and cap: "pc_cap_per_turn c' = pc_cap_per_turn c" and room: "roomy X c'" by blast
  have "spent r c' \<le> pc_cap_per_turn c'" using spent' cap Cons.prems(4) by auto
  from Cons.IH [OF room _ Cons.prems(3) this] Cons.prems(2)
  have ih: "grants r rs c' + spent r c' = min (pc_cap_per_turn c) (spent r c' + count_list rs r)" using cap by simp
  show ?case using ih step spent' Cons.prems(4) by (cases "x = r"; cases "pc_cap_per_turn c \<le> spent x c") auto
qed simp

text \<open>The counter grants a turn exactly its quota: over any interleaving of the calls of at most 1024 turns, each turn is granted as many calls
  as it makes, up to the cap, whatever the other turns do.\<close>

theorem turn_calls_capped:
  assumes "card (set rs) \<le> 1024"
  shows "grants r rs (counter_with_cap cap) = min cap (count_list rs r)"
  using grants_spent [of "set rs" "counter_with_cap cap" rs r] assms
  by (simp add: roomy_def spent_def counter_with_cap_def)

text \<open>When the book holds its maximum of turns and another turn comes, the whole book is cleared, running turns included: a turn that had
  used up its quota starts again from zero, although the comment on the counter says that clearing lets no turn exceed its cap.\<close>

theorem clearing_renews_quota:
  assumes "pc_bookkeeping_max_entries c \<le> length (pc_inner c)" and "map_of (pc_inner c) x = None"
    and "map_of (pc_inner c) r = Some (pc_cap_per_turn c)" and "0 < pc_cap_per_turn c"
  shows "fst (try_increment r c) = Err (pc_cap_per_turn c) \<and> fst (try_increment r (snd (try_increment x c))) = Ok 1"
proof -
  have "r \<noteq> x" using assms(2,3) by auto
  have "snd (try_increment x c) = c\<lparr>pc_inner := [(x, 1)]\<rparr>" using assms(1,2,4) by (simp add: try_increment_def Let_def)
  then show ?thesis using assms(3,4) \<open>r \<noteq> x\<close> by (auto simp: try_increment_def Let_def)
qed

section \<open>Tools and the store\<close>

lemma in_store_OkE:
  assumes "in_store env f w = (Ok x, w')"
  obtains m where "f (tw_mem w) = (Ok x, m)" "w' = w\<lparr>tw_mem := m\<rparr>"
  using assms by (auto simp: in_store_def map_err_Ok_iff split: prod.splits)

lemma check_cap_keeps: "check_cap rid w = (r, w') \<Longrightarrow> tw_mem w' = tw_mem w \<and> tw_sections w' = tw_sections w"
  by (auto simp: check_cap_def split: prod.splits outcome.splits)

lemma parsed_OkE: "parsed env r w = (Ok x, w') \<Longrightarrow> r = Ok x \<and> w' = w"
  by (auto simp: parsed_def map_err_Ok_iff)

lemma resolve_tool_handle_keeps:
  "resolve_tool_handle env sid agent payload h w = (r, w') \<Longrightarrow> tw_mem w' = tw_mem w"
  by (auto simp: resolve_tool_handle_def load_cached_def Let_def split: prod.splits outcome.splits option.splits)

lemma resolve_tool_handle_hit:
  assumes "lookup_fresh (tw_sections w) (sid, agent) (tl_cache_now env) = Some s"
    and "resolve_tool_handle env sid agent payload h w = (Ok i, w')"
  shows "resolve_handle s h = Some i \<and> w' = w"
  using assms by (auto simp: resolve_tool_handle_def load_cached_def get_or_load_def Let_def split: option.splits)

lemma closes:
  assumes "maybe_close_resolution env ctx eid w = (Ok u, w')" and "tx_kind_payload ctx = PResolution i"
  shows "\<exists>c \<in> set (contradiction_events (tw_mem w')). ce_id c = i \<and> ce_resolved_at c \<noteq> None"
proof -
  from assms have "in_store env (resolve_contradiction_for_user (tx_acting_user_id ctx) i (Mutation eid) (tl_close_now env)) w = (Ok u, w')"
    by (simp add: maybe_close_resolution_def)
  then obtain m where run: "resolve_contradiction_in_tx (AsUser (tx_acting_user_id ctx)) i (Mutation eid) (tl_close_now env) (tw_mem w) = (Ok u, m)"
    and w': "w' = w\<lparr>tw_mem := m\<rparr>"
    by (auto elim!: in_store_OkE simp: resolve_contradiction_for_user_def)
  let ?seen = "\<lambda>c. ce_id c = i \<and> mem_visible (AsUser (tx_acting_user_id ctx)) (tw_mem w) (ce_org_id c)"
  let ?hit = "\<lambda>c. ?seen c \<and> ce_resolved_at c = None"
  show ?thesis
  proof (cases "rows_affected ?hit (contradiction_events (tw_mem w)) = 0")
    case True
    then show ?thesis using run w' by (fastforce simp: resolve_contradiction_in_tx_def Let_def split: if_splits)
  next
    case False
    then obtain c where c: "c \<in> set (contradiction_events (tw_mem w))" "?hit c" by auto
    let ?g = "\<lambda>c. c\<lparr>ce_resolved_at := Some (tl_close_now env), ce_resolution_event_id := Some eid, ce_resolution_reason := None\<rparr>"
    have "contradiction_events (tw_mem w') = update_where ?hit ?g (contradiction_events (tw_mem w))"
      using run w' False by (auto simp: resolve_contradiction_in_tx_def Let_def split: if_splits)
    then show ?thesis using bex_update_where [OF c(1), of ?hit "\<lambda>c. ce_id c = i \<and> ce_resolved_at c \<noteq> None" ?g] c(2) by simp
  qed
qed

text \<open>In the turn that was queued to settle a contradiction, the first successful update or forget settles it: after the call the
  contradiction is marked resolved, so the worker does not close it as left without action.\<close>

theorem mutation_closes_contradiction:
  assumes "tx_kind_payload ctx = PResolution i"
    and "memory_update_execute env ctx raw_handle raw w = (Ok out, w') \<or> memory_forget_execute env ctx raw_handle w = (Ok out, w')"
  shows "\<exists>c \<in> set (contradiction_events (tw_mem w')). ce_id c = i \<and> ce_resolved_at c \<noteq> None"
  using assms(2) closes [OF _ assms(1)]
  by (auto simp: memory_update_execute_def memory_forget_execute_def tx_bind_Ok_iff)

text \<open>The row after a revision: new content, tentative, embedded anew.\<close>

definition revised :: "string \<Rightarrow> 'v \<Rightarrow> 'v memory_trow \<Rightarrow> 'v memory_trow" where
  "revised content v t = (set_content content Tentative t)\<lparr>mt_embedding := Some v\<rparr>"

lemma update_memory_effect:
  assumes "row_ids_ok m" and "apply_for_user vo u (MUpdate agent i content Tentative (Turn req)) now mid eid m = (Ok out, m')"
  obtains t v org where "live m i t" "mm_agent_id (mt_row t) = agent" "\<not> mm_pinned (mt_row t)" "vo_embed vo content = Ok v"
    "agent_memories m' = update_where (\<lambda>t. mt_id t = i) (revised content v) (agent_memories m)"
    "memory_events m' = memory_events m @ [made_event eid agent org i (Turn req) now
       (PUpdate (mm_content (mt_row t)) content (mm_kind (mt_row t)) Tentative False)]"
proof -
  obtain v r y m2 where emb: "vo_embed vo content = Ok v" and lock: "lock_existing (AsUser u) agent i (Turn req) m = Ok r"
    and ev: "insert_event (AsUser u) eid agent i (Turn req) now (PUpdate (mm_content r) content (mm_kind r) Tentative (mm_pinned r)) m = (Ok y, m2)"
    and m': "m' = update_memories (\<lambda>r. mm_id r = i) (revised content v) m2"
    using assms(2)
    by (auto simp: apply_for_user_def apply_scoped_def apply_update_def tx_bind_Ok_iff Let_def and_then_Ok_iff map_err_Ok_iff
        revised_def [abs_def] split: option.splits)
  from lock_existing_OkE [OF lock assms(1)] obtain t where t: "live m i t" "r = mt_row t" "mm_agent_id r = agent" "\<not> mm_pinned r"
    by (metis mutation_source.distinct(1))
  from ev obtain org where m2: "m2 = m\<lparr>memory_events := memory_events m @ [made_event eid agent org i (Turn req) now
      (PUpdate (mm_content r) content (mm_kind r) Tentative (mm_pinned r))]\<rparr>"
    by (rule insert_event_OkE)
  show thesis by (rule that [of t v org]) (use t emb m' m2 in \<open>simp_all add: update_memories_def\<close>)
qed

lemma close_keeps_memories:
  "maybe_close_resolution env ctx eid w = (Ok u, w') \<Longrightarrow>
   agent_memories (tw_mem w') = agent_memories (tw_mem w) \<and> memory_events (tw_mem w') = memory_events (tw_mem w)"
  by (auto elim!: in_store_OkE simp: maybe_close_resolution_def resolve_contradiction_for_user_def resolve_contradiction_in_tx_def Let_def
      split: request_kind_payload.splits if_splits)

text \<open>C23. An update by handle revises the memory the prompt showed under that handle, and nothing else. While the section the prompt was
  built from is fresh in the cache, a successful call finds an unpinned memory of the calling agent under the handle; its row
  gets the new content, its embedding and the tentative state; no row is added, removed or otherwise changed; and the journal grows by
  exactly one event, which records the old and the new content for that memory and turn.\<close>

theorem update_revises_shown_memory:
  assumes "row_ids_ok (tw_mem w)" and "tx_viewer ctx = Agent agent"
    and "lookup_fresh (tw_sections w) (tx_session_id ctx, agent) (tl_cache_now env) = Some s"
    and "memory_update_execute env ctx raw_handle raw w = (Ok out, w')"
  shows "\<exists>h i t v org. memory_handle_parse raw_handle = Ok h \<and> resolve_handle s h = Some i \<and>
    live (tw_mem w) i t \<and> mm_agent_id (mt_row t) = agent \<and> \<not> mm_pinned (mt_row t) \<and> vo_embed (tl_vec env) raw = Ok v \<and>
    agent_memories (tw_mem w') = update_where (\<lambda>t. mt_id t = i) (revised raw v) (agent_memories (tw_mem w)) \<and>
    memory_events (tw_mem w') = memory_events (tw_mem w) @ [made_event (tl_event env) agent org i (Turn (tx_request_id ctx)) (tl_now env)
      (PUpdate (mm_content (mt_row t)) raw (mm_kind (mt_row t)) Tentative False)]"
proof -
  have "expect_agent ctx = Ok agent" using assms(2) by (simp add: expect_agent_def)
  with assms(4) obtain w2 h i w4 o' w6 u content where
    cap: "check_cap (tx_request_id ctx) w = (Ok (), w2)" and h: "memory_handle_parse raw_handle = Ok h"
    and i: "resolve_tool_handle env (tx_session_id ctx) agent (tx_kind_payload ctx) h w2 = (Ok i, w4)"
    and c: "memory_content_try_from raw = Ok content"
    and upd: "in_store env (apply_for_user (tl_vec env) (tx_acting_user_id ctx)
                (MUpdate agent i content Tentative (Turn (tx_request_id ctx))) (tl_now env) (tl_memory env) (tl_event env)) w4 = (Ok o', w6)"
    and close: "maybe_close_resolution env ctx (mo_event_id o') w6 = (Ok u, w')"
    by (auto simp: memory_update_execute_def tx_bind_Ok_iff dest!: parsed_OkE)
  have raw: "content = raw" using c by (auto simp: memory_content_try_from_def split: if_splits)
  have "lookup_fresh (tw_sections w2) (tx_session_id ctx, agent) (tl_cache_now env) = Some s"
    using assms(3) check_cap_keeps [OF cap] by simp
  from resolve_tool_handle_hit [OF this i] have shown: "resolve_handle s h = Some i" by simp
  have mem: "tw_mem w4 = tw_mem w" using check_cap_keeps [OF cap] resolve_tool_handle_keeps [OF i] by simp
  from upd obtain m where "apply_for_user (tl_vec env) (tx_acting_user_id ctx) (MUpdate agent i raw Tentative (Turn (tx_request_id ctx)))
      (tl_now env) (tl_memory env) (tl_event env) (tw_mem w) = (Ok o', m)" and w6: "w6 = w4\<lparr>tw_mem := m\<rparr>"
    by (auto elim!: in_store_OkE simp: mem raw)
  from update_memory_effect [OF assms(1) this(1)] obtain t v org where
    e: "live (tw_mem w) i t" "mm_agent_id (mt_row t) = agent" "\<not> mm_pinned (mt_row t)" "vo_embed (tl_vec env) raw = Ok v"
    "agent_memories m = update_where (\<lambda>t. mt_id t = i) (revised raw v) (agent_memories (tw_mem w))"
    "memory_events m = memory_events (tw_mem w) @ [made_event (tl_event env) agent org i (Turn (tx_request_id ctx)) (tl_now env)
      (PUpdate (mm_content (mt_row t)) raw (mm_kind (mt_row t)) Tentative False)]" .
  show ?thesis
    by (rule exI [of _ h], rule exI [of _ i], rule exI [of _ t], rule exI [of _ v], rule exI [of _ org])
       (use e h shown close_keeps_memories [OF close] w6 in simp)
qed

end
