(* ===== verification/Memory_Tool_Examples.thy ===== *)
theory Memory_Tool_Examples
  imports Memory_Tools Memory_Examples
begin

text \<open>
  Agent 1 updates, in a resolution turn, the memory its prompt showed as \<open>M-1\<close>; and call counters. The witnesses
  of \<open>Memory_Tools\<close>.
\<close>

theorem turn_calls_capped_witness: "grants 1 [1, 1, 2, 1] (counter_with_cap 2) = 2"
proof -
  have "card (set [1, 1, 2, 1 :: nat]) \<le> 1024" by (rule order_trans [OF card_length]) simp
  from turn_calls_capped [OF this, of 1 2] have "grants 1 [1, 1, 2, 1] (counter_with_cap 2) = min 2 (count_list [1, 1, 2, 1 :: nat] 1)" .
  also have "\<dots> = 2" by simp
  finally show ?thesis .
qed

definition full_book :: call_counter where
  "full_book = \<lparr>pc_inner = [(1, 2), (5, 1)], pc_cap_per_turn = 2, pc_bookkeeping_max_entries = 2\<rparr>"

theorem clearing_renews_quota_witness:
  "fst (try_increment 1 full_book) = Err 2 \<and> fst (try_increment 1 (snd (try_increment 9 full_book))) = Ok 1"
  using clearing_renews_quota [of full_book 9 1] by (simp add: full_book_def)

definition open_contradiction :: contradiction_event_row where
  "open_contradiction = \<lparr>ce_id = 77, ce_agent_id = 1, ce_org_id = 3, ce_memory_a = 31, ce_memory_b = 32, ce_reason = ''opposing'',
     ce_created_at = 150, ce_resolved_at = None, ce_resolution_event_id = None, ce_resolution_reason = None\<rparr>"

definition shown_section :: memory_section where
  "shown_section = \<lparr>sec_text = ''M-1'', sec_handles = [(1, 31), (2, 32)]\<rparr>"

definition desk :: "string tool_world" where
  "desk = \<lparr>tw_mem = notes2\<lparr>contradiction_events := [open_contradiction]\<rparr>, tw_counter = counter_mutations,
     tw_recall_counter = counter_with_cap MAX_RECALL_CALLS_PER_TURN,
     tw_sections = \<lparr>tc_state = [((50, 1), \<lparr>ce_value = shown_section, ce_fetched_at = 0\<rparr>)], tc_epoch = 0, tc_cap = 4, tc_ttl = 60\<rparr>\<rparr>"

definition desk_env :: "string tool_env" where
  "desk_env = \<lparr>tl_vec = note_ops, tl_show_parse = (\<lambda>_. []), tl_show_store = (\<lambda>_. []), tl_show_provider = (\<lambda>e. e),
     tl_cache_now = 5, tl_cache_after = 5, tl_now = 300, tl_close_now = 301, tl_memory = 40, tl_event = 140, tl_validation = 240\<rparr>"

definition desk_ctx :: tool_ctx where
  "desk_ctx = \<lparr>tx_session_id = 50, tx_viewer = Agent 1, tx_root_request_id = 10, tx_request_id = 10,
     tx_kind_payload = PResolution 77, tx_acting_user_id = 7, tx_org_id = 3\<rparr>"

abbreviation desk_run :: "(tool_error, tool_output) outcome \<times> string tool_world" where
  "desk_run \<equiv> memory_update_execute desk_env desk_ctx ''M-1'' ''verbose'' desk"

definition desk_out :: tool_output where
  "desk_out = \<lparr>to_memory_id = 31, to_handle = Some 1, to_status = ''tentative''\<rparr>"

lemma desk_run_Ok: "desk_run = (Ok desk_out, snd desk_run)"
proof -
  have "fst desk_run = Ok desk_out" by code_simp
  then show ?thesis by (simp add: prod_eq_iff)
qed

theorem mutation_closes_contradiction_witness:
  "\<exists>c \<in> set (contradiction_events (tw_mem (snd desk_run))). ce_id c = 77 \<and> ce_resolved_at c \<noteq> None"
  by (rule mutation_closes_contradiction [where env = desk_env and raw_handle = "''M-1''" and w = desk, OF _ disjI1 [OF desk_run_Ok]])
     (simp add: desk_ctx_def)

lemma desk_ids: "row_ids_ok (tw_mem desk)"
proof -
  have "distinct (map mt_id (agent_memories (tw_mem desk)))" by code_simp
  then show ?thesis by (simp add: row_ids_ok_def)
qed

theorem update_revises_shown_memory_witness:
  "\<exists>h i t v org. memory_handle_parse ''M-1'' = Ok h \<and> resolve_handle shown_section h = Some i \<and> live (tw_mem desk) i t \<and>
    agent_memories (tw_mem (snd desk_run)) = update_where (\<lambda>t. mt_id t = i) (revised ''verbose'' v) (agent_memories (tw_mem desk)) \<and>
    memory_events (tw_mem (snd desk_run)) = memory_events (tw_mem desk) @ [made_event (tl_event desk_env) 1 org i
      (Turn (tx_request_id desk_ctx)) (tl_now desk_env) (PUpdate (mm_content (mt_row t)) ''verbose'' (mm_kind (mt_row t)) Tentative False)]"
proof -
  have "lookup_fresh (tw_sections desk) (tx_session_id desk_ctx, 1) (tl_cache_now desk_env) = Some shown_section"
    by (simp add: lookup_fresh_def desk_def desk_ctx_def desk_env_def expired_def)
  moreover have "tx_viewer desk_ctx = Agent 1" by (simp add: desk_ctx_def)
  ultimately show ?thesis using update_revises_shown_memory [OF desk_ids _ _ desk_run_Ok] by metis
qed

end
