(* ===== verification/Tool_Registry.thy ===== *)
theory Tool_Registry
  imports Agent_Turn "HOL-Library.Multiset"
begin

text \<open>
  The tool surface an agent holds: the registry of built-in tools (\<open>src/tools/registry.rs\<close>) and the composite with
  a dynamic source (\<open>src/tools/toolbox.rs\<close>). A tool is a record with its body left abstract; the HashMap of the
  registry is an association list, and what depends on its iteration order is shown not to.

  The interface between the model's view and the dispatcher, what is offered and what can be run, is the locale
  \<open>tool_catalogue\<close>; the registry satisfies it, and so does a toolbox whose two halves do.
\<close>

section \<open>Registry\<close>

record tool_spec =
  ts_name :: string
  ts_description :: string
  ts_input_schema :: string

record 'i reg_tool =
  rt_name :: string
  rt_description :: string
  rt_input_schema :: string
  rt_modes :: modes
  rt_body :: 'i

record 'i tool_entry =
  en_tool :: "'i reg_tool"
  en_spec :: tool_spec
  en_modes :: modes

record 'i tool_registry =
  by_name :: "(string \<times> 'i tool_entry) list"
  reg_specs :: "tool_spec list"

definition registry_empty :: "'i tool_registry" where
  "registry_empty = \<lparr>by_name = [], reg_specs = []\<rparr>"

definition spec_of :: "'i reg_tool \<Rightarrow> tool_spec" where
  "spec_of t = \<lparr>ts_name = rt_name t, ts_description = rt_description t, ts_input_schema = rt_input_schema t\<rparr>"

definition entry_of :: "'i reg_tool \<Rightarrow> 'i tool_entry" where
  "entry_of t = \<lparr>en_tool = t, en_spec = spec_of t, en_modes = rt_modes t\<rparr>"

fun build_from :: "'i reg_tool list \<Rightarrow> (string \<times> 'i tool_entry) list \<Rightarrow> tool_spec list \<Rightarrow> (unit, 'i tool_registry) outcome" where
  "build_from [] names specs = Ok \<lparr>by_name = names, reg_specs = sort_key ts_name specs\<rparr>"
| "build_from (t # ts) names specs =
     (if map_of names (rt_name t) \<noteq> None then Panic (''duplicate tool registration: '' @ rt_name t)
      else build_from ts (names @ [(rt_name t, entry_of t)]) (specs @ [spec_of t]))"

definition registry_build :: "'i reg_tool list \<Rightarrow> (unit, 'i tool_registry) outcome" where
  "registry_build tools = build_from tools [] []"

definition registry_get :: "'i tool_registry \<Rightarrow> string \<Rightarrow> 'i reg_tool option" where
  "registry_get r name = map_option en_tool (map_of (by_name r) name)"

definition registry_get_for :: "'i tool_registry \<Rightarrow> request_kind \<Rightarrow> string \<Rightarrow> 'i reg_tool option" where
  "registry_get_for r k name =
     (case map_of (by_name r) name of
        None \<Rightarrow> None
      | Some e \<Rightarrow> if modes_include (en_modes e) k then Some (en_tool e) else None)"

definition registry_specs_for :: "'i tool_registry \<Rightarrow> request_kind \<Rightarrow> tool_spec list" where
  "registry_specs_for r k =
     (let entries = map snd (by_name r) in
      if \<not> list_ex (\<lambda>e. \<not> modes_include (en_modes e) k) entries then reg_specs r
      else sort_key ts_name (map en_spec (filter (\<lambda>e. modes_include (en_modes e) k) entries)))"

definition registry_len :: "'i tool_registry \<Rightarrow> nat" where
  "registry_len r = length (by_name r)"

section \<open>Toolbox\<close>

record 'i tool_source =
  src_specs :: "tool_spec list"
  src_specs_for :: "request_kind \<Rightarrow> tool_spec list"
  src_get :: "string \<Rightarrow> 'i reg_tool option"
  src_get_for :: "request_kind \<Rightarrow> string \<Rightarrow> 'i reg_tool option"
  src_server_id_for :: "string \<Rightarrow> nat option"

text \<open>The default methods of the trait, given \<open>specs\<close> and \<open>get\<close>.\<close>

definition plain_source :: "tool_spec list \<Rightarrow> (string \<Rightarrow> 'i reg_tool option) \<Rightarrow> 'i tool_source" where
  "plain_source specs find_tool = \<lparr>src_specs = specs, src_specs_for = (\<lambda>_. specs), src_get = find_tool,
     src_get_for = (\<lambda>_. find_tool), src_server_id_for = (\<lambda>_. None)\<rparr>"

definition empty_source :: "'i tool_source" where
  "empty_source = plain_source [] (\<lambda>_. None)"

record 'i toolbox =
  tb_builtins :: "'i tool_registry"
  tb_dynamic :: "'i tool_source"

definition from_builtins :: "'i tool_registry \<Rightarrow> 'i toolbox" where
  "from_builtins r = \<lparr>tb_builtins = r, tb_dynamic = empty_source\<rparr>"

definition join_specs :: "tool_spec list \<Rightarrow> tool_spec list \<Rightarrow> tool_spec list" where
  "join_specs builtins dynamic =
     (if dynamic = [] then builtins else if builtins = [] then dynamic else builtins @ dynamic)"

definition toolbox_specs :: "'i toolbox \<Rightarrow> tool_spec list" where
  "toolbox_specs tb = join_specs (reg_specs (tb_builtins tb)) (src_specs (tb_dynamic tb))"

definition toolbox_specs_for :: "'i toolbox \<Rightarrow> request_kind \<Rightarrow> tool_spec list" where
  "toolbox_specs_for tb k = join_specs (registry_specs_for (tb_builtins tb) k) (src_specs_for (tb_dynamic tb) k)"

definition or_else :: "'a option \<Rightarrow> 'a option \<Rightarrow> 'a option" where
  "or_else x y = (case x of Some t \<Rightarrow> Some t | None \<Rightarrow> y)"

definition toolbox_get :: "'i toolbox \<Rightarrow> string \<Rightarrow> 'i reg_tool option" where
  "toolbox_get tb name = or_else (registry_get (tb_builtins tb) name) (src_get (tb_dynamic tb) name)"

definition toolbox_get_for :: "'i toolbox \<Rightarrow> request_kind \<Rightarrow> string \<Rightarrow> 'i reg_tool option" where
  "toolbox_get_for tb k name = or_else (registry_get_for (tb_builtins tb) k name) (src_get_for (tb_dynamic tb) k name)"

definition toolbox_server_id_for :: "'i toolbox \<Rightarrow> string \<Rightarrow> nat option" where
  "toolbox_server_id_for tb name =
     (if registry_get (tb_builtins tb) name \<noteq> None then None else src_server_id_for (tb_dynamic tb) name)"

section \<open>What is offered is what can be run\<close>

locale tool_catalogue =
  fixes offered :: "request_kind \<Rightarrow> tool_spec list"
    and runnable :: "request_kind \<Rightarrow> string \<Rightarrow> 'i reg_tool option"
  assumes offered_iff: "name \<in> ts_name ` set (offered k) \<longleftrightarrow> runnable k name \<noteq> None"
begin

lemma unoffered_refused: "name \<notin> ts_name ` set (offered k) \<Longrightarrow> runnable k name = None"
  using offered_iff by blast

end

locale two_catalogues =
  first: tool_catalogue offered1 runnable1 + second: tool_catalogue offered2 runnable2
  for offered1 and runnable1 :: "request_kind \<Rightarrow> string \<Rightarrow> 'i reg_tool option"
    and offered2 and runnable2 :: "request_kind \<Rightarrow> string \<Rightarrow> 'i reg_tool option"
begin

lemma joined_iff:
  "name \<in> ts_name ` set (join_specs (offered1 k) (offered2 k)) \<longleftrightarrow> or_else (runnable1 k name) (runnable2 k name) \<noteq> None"
  using first.offered_iff [of name k] second.offered_iff [of name k]
  by (auto simp: join_specs_def or_else_def split: option.splits)

end

sublocale two_catalogues \<subseteq> joined: tool_catalogue "\<lambda>k. join_specs (offered1 k) (offered2 k)"
    "\<lambda>k name. or_else (runnable1 k name) (runnable2 k name)"
  by unfold_locales (rule joined_iff)

lemma build_from_Ok:
  "distinct (map rt_name tools) \<Longrightarrow> set (map rt_name tools) \<inter> fst ` set names = {} \<Longrightarrow>
   build_from tools names specs =
     Ok \<lparr>by_name = names @ map (\<lambda>t. (rt_name t, entry_of t)) tools, reg_specs = sort_key ts_name (specs @ map spec_of tools)\<rparr>"
proof (induction tools arbitrary: names specs)
  case (Cons t ts)
  then have "map_of names (rt_name t) = None" by (auto simp: map_of_eq_None_iff)
  then show ?case using Cons.IH [of "names @ [(rt_name t, entry_of t)]" "specs @ [spec_of t]"] Cons.prems by auto
qed simp

lemma build_from_Panic:
  "\<not> (distinct (map rt_name tools) \<and> set (map rt_name tools) \<inter> fst ` set names = {}) \<Longrightarrow>
   \<exists>t \<in> set tools. build_from tools names specs = Panic (''duplicate tool registration: '' @ rt_name t)"
proof (induction tools arbitrary: names specs)
  case (Cons t ts)
  show ?case
  proof (cases "map_of names (rt_name t) = None")
    case True
    then have "\<not> (distinct (map rt_name ts) \<and> set (map rt_name ts) \<inter> fst ` set (names @ [(rt_name t, entry_of t)]) = {})"
      using Cons.prems by (auto simp: map_of_eq_None_iff)
    from Cons.IH [OF this] show ?thesis using True by auto
  qed auto
qed simp

definition built :: "'i reg_tool list \<Rightarrow> 'i tool_registry" where
  "built tools = \<lparr>by_name = map (\<lambda>t. (rt_name t, entry_of t)) tools, reg_specs = sort_key ts_name (map spec_of tools)\<rparr>"

lemma build_distinct: "distinct (map rt_name tools) \<Longrightarrow> registry_build tools = Ok (built tools)"
  using build_from_Ok [of tools "[]" "[]"] by (simp add: registry_build_def built_def)

lemma build_duplicate:
  "\<not> distinct (map rt_name tools) \<Longrightarrow> \<exists>t \<in> set tools. registry_build tools = Panic (''duplicate tool registration: '' @ rt_name t)"
  unfolding registry_build_def by (rule build_from_Panic) simp

lemma built_lookup:
  assumes "distinct (map rt_name tools)"
  shows "map_of (by_name (built tools)) name = map_option entry_of (find (\<lambda>t. rt_name t = name) tools)"
  by (induction tools) (auto simp: built_def)

text \<open>The cached slice and the filtered one agree: both are the sorted specs of the tools that take part in the kind.\<close>

lemma built_specs_for:
  "registry_specs_for (built tools) k = sort_key ts_name (map spec_of (filter (\<lambda>t. modes_include (rt_modes t) k) tools))"
proof -
  have "map en_spec (filter (\<lambda>e. modes_include (en_modes e) k) (map snd (by_name (built tools)))) =
      map spec_of (filter (\<lambda>t. modes_include (rt_modes t) k) tools)"
    by (induction tools) (auto simp: built_def entry_of_def)
  moreover have "filter (\<lambda>t. modes_include (rt_modes t) k) tools = tools"
    if "\<not> list_ex (\<lambda>e. \<not> modes_include (en_modes e) k) (map snd (by_name (built tools)))"
    using that by (auto simp: list_ex_iff built_def entry_of_def intro!: filter_True)
  ultimately show ?thesis by (simp add: registry_specs_for_def Let_def) (simp add: built_def)
qed

lemma built_get_for:
  assumes "distinct (map rt_name tools)"
  shows "registry_get_for (built tools) k name = find (\<lambda>t. rt_name t = name \<and> modes_include (rt_modes t) k) tools"
proof -
  have "find (\<lambda>t. rt_name t = name \<and> modes_include (rt_modes t) k) tools =
      (case find (\<lambda>t. rt_name t = name) tools of None \<Rightarrow> None | Some t \<Rightarrow> if modes_include (rt_modes t) k then Some t else None)"
    using assms
  proof (induction tools)
    case (Cons t ts)
    show ?case
    proof (cases "rt_name t = name")
      case True
      then have "find (\<lambda>t. rt_name t = name \<and> modes_include (rt_modes t) k) ts = None" "find (\<lambda>t. rt_name t = name) ts = None"
        using Cons.prems by (auto simp: find_None_iff image_iff)
      then show ?thesis using True by simp
    qed (use Cons in simp)
  qed simp
  then show ?thesis by (simp add: registry_get_for_def built_lookup [OF assms] entry_of_def split: option.split)
qed

definition builtins_offered :: "'i reg_tool list \<Rightarrow> request_kind \<Rightarrow> tool_spec list" where
  "builtins_offered tools k = (case registry_build tools of Ok r \<Rightarrow> registry_specs_for r k | _ \<Rightarrow> [])"

definition builtins_runnable :: "'i reg_tool list \<Rightarrow> request_kind \<Rightarrow> string \<Rightarrow> 'i reg_tool option" where
  "builtins_runnable tools k name = (case registry_build tools of Ok r \<Rightarrow> registry_get_for r k name | _ \<Rightarrow> None)"

interpretation builtins: tool_catalogue "builtins_offered tools" "builtins_runnable tools" for tools :: "'i reg_tool list"
proof
  fix name k
  show "name \<in> ts_name ` set (builtins_offered tools k) \<longleftrightarrow> builtins_runnable tools k name \<noteq> None"
  proof (cases "distinct (map rt_name tools)")
    case True
    then have "registry_build tools = Ok (built tools)" by (rule build_distinct)
    then show ?thesis
      by (auto simp: builtins_offered_def builtins_runnable_def built_specs_for built_get_for [OF True] find_None_iff spec_of_def image_iff)
  next
    case False
    then obtain t :: "'i reg_tool" where "registry_build tools = Panic (''duplicate tool registration: '' @ rt_name t)" using build_duplicate [OF False] by auto
    then show ?thesis by (simp add: builtins_offered_def builtins_runnable_def)
  qed
qed

interpretation no_tools: tool_catalogue "src_specs_for empty_source" "src_get_for empty_source"
  by unfold_locales (simp add: empty_source_def plain_source_def)

interpretation bare_toolbox: two_catalogues "builtins_offered tools" "builtins_runnable tools"
    "src_specs_for empty_source" "src_get_for empty_source" for tools :: "'i reg_tool list"
  by unfold_locales

text \<open>The slice a registry caches and the one it filters agree: what a turn of some kind is offered is the specs of the
  tools that take part in the kind, sorted by name, in whatever order the tools were registered and the map is walked; and
  registering two tools under one name is refused at start-up.\<close>

theorem registry_specs_canonical:
  "if distinct (map rt_name tools)
   then \<exists>r. registry_build tools = Ok r \<and>
     (\<forall>k. registry_specs_for r k = sort_key ts_name (map spec_of (filter (\<lambda>t. modes_include (rt_modes t) k) tools))) \<and>
     (\<forall>tools' k. mset tools' = mset tools \<longrightarrow> registry_specs_for (built tools') k = registry_specs_for r k)
   else \<exists>t \<in> set tools. registry_build tools = Panic (''duplicate tool registration: '' @ rt_name t)"
proof (cases "distinct (map rt_name tools)")
  case True
  have order: "registry_specs_for (built tools') k = registry_specs_for (built tools) k" if "mset tools' = mset tools" for tools' k
  proof -
    let ?on = "filter (\<lambda>t. modes_include (rt_modes t) k)"
    have "inj_on rt_name (set tools)" using True by (simp add: distinct_map)
    then have inj: "inj_on ts_name (set (map spec_of (?on tools)))" by (auto simp: inj_on_def spec_of_def)
    have same: "mset (map spec_of (?on tools)) = mset (map spec_of (?on tools'))" using that by simp
    then have "sort_key ts_name (map spec_of (?on tools)) = sort_key ts_name (map spec_of (?on tools'))"
      by (intro sort_key_inj_key_eq inj) simp_all
    then show ?thesis by (simp add: built_specs_for)
  qed
  have "\<exists>r. registry_build tools = Ok r \<and>
     (\<forall>k. registry_specs_for r k = sort_key ts_name (map spec_of (filter (\<lambda>t. modes_include (rt_modes t) k) tools))) \<and>
     (\<forall>tools' k. mset tools' = mset tools \<longrightarrow> registry_specs_for (built tools') k = registry_specs_for r k)"
    using build_distinct [OF True] built_specs_for [of tools] order by blast
  then show ?thesis using True by (simp only: if_True)
next
  case False
  then show ?thesis using build_duplicate [OF False] by (simp only: if_False)
qed

end
