(* ===== verification/Mcp_Registry.thy ===== *)
theory Mcp_Registry
  imports Tool_Registry "HOL-Library.AList"
begin

text \<open>
  The catalogue of remote (MCP) tools: \<open>src/mcp/registry.rs\<close>, the per-agent view of it in \<open>src/mcp/scoped.rs\<close>, the result
  rendering of \<open>src/mcp/tool.rs\<close>, and the value types of \<open>src/mcp/types.rs\<close> and of the allowlist in
  \<open>src/agents/types.rs\<close>.

  Connecting to a server, listing its tools and reading credentials are outside the program (\<open>mcp_ops\<close>); a client is
  whatever \<open>connect\<close> returned. The health updates the registry writes to the server rows are a log in order. HashMaps
  are association lists. A refresh is one step.
\<close>

section \<open>Value types\<close>

definition MCP_ALIAS_MAX_LEN :: nat where "MCP_ALIAS_MAX_LEN = 16"
definition MCP_DESCRIPTION_MAX_LEN :: nat where "MCP_DESCRIPTION_MAX_LEN = 512"
definition MCP_HEADER_NAME_MAX_LEN :: nat where "MCP_HEADER_NAME_MAX_LEN = 64"
definition MCP_HEADER_VALUE_MAX_LEN :: nat where "MCP_HEADER_VALUE_MAX_LEN = 4096"
definition MCP_TOOL_REMOTE_NAME_MAX_LEN :: nat where "MCP_TOOL_REMOTE_NAME_MAX_LEN = 64"
definition MAX_MCP_SERVERS :: nat where "MAX_MCP_SERVERS = 32"
definition MAX_TOOLS_PER_SERVER :: nat where "MAX_TOOLS_PER_SERVER = 64"
definition MCP_RESULT_RENDER_CAP :: nat where "MCP_RESULT_RENDER_CAP = 131072"
definition MAX_ALLOWED_MCP_SERVERS_PER_AGENT :: nat where "MAX_ALLOWED_MCP_SERVERS_PER_AGENT = 32"
definition MAX_ALLOWED_MCP_TOOLS_PER_SERVER_PER_AGENT :: nat where "MAX_ALLOWED_MCP_TOOLS_PER_SERVER_PER_AGENT = 64"

definition in_bytes :: "nat \<Rightarrow> nat \<Rightarrow> char \<Rightarrow> bool" where
  "in_bytes lo hi c \<longleftrightarrow> lo \<le> byte c \<and> byte c \<le> hi"

definition mcp_server_alias_try_from :: "string \<Rightarrow> (parse_error, string) outcome" where
  "mcp_server_alias_try_from raw =
     (if raw = [] then Err (Empty ''mcp_server_alias'')
      else if MCP_ALIAS_MAX_LEN < length raw then Err (TooLong ''mcp_server_alias'' MCP_ALIAS_MAX_LEN (length raw))
      else if \<not> list_all (\<lambda>c. in_bytes 97 122 c \<or> in_bytes 48 57 c \<or> c = CHR ''_'' \<or> c = CHR ''-'') raw
      then Err (Malformed ''mcp_server_alias'' ''allowed: a-z 0-9 _ -'')
      else Ok raw)"

definition mcp_description_try_from :: "string \<Rightarrow> (parse_error, string) outcome" where
  "mcp_description_try_from raw =
     (if MCP_DESCRIPTION_MAX_LEN < length raw then Err (TooLong ''mcp_description'' MCP_DESCRIPTION_MAX_LEN (length raw)) else Ok raw)"

definition to_lower :: "string \<Rightarrow> string" where
  "to_lower = map (\<lambda>c. if in_bytes 65 90 c then char_of (byte c + 32) else c)"

definition header_name_char :: "char \<Rightarrow> bool" where
  "header_name_char c \<longleftrightarrow> in_bytes 48 57 c \<or> in_bytes 65 90 c \<or> in_bytes 97 122 c \<or>
     byte c \<in> {33, 35, 36, 37, 38, 39, 42, 43, 45, 46, 94, 95, 96, 124, 126}"

definition mcp_header_name_try_from :: "string \<Rightarrow> (parse_error, string) outcome" where
  "mcp_header_name_try_from raw =
     (if raw = [] then Err (Empty ''mcp_transport.header_name'')
      else if MCP_HEADER_NAME_MAX_LEN < length raw
      then Err (TooLong ''mcp_transport.header_name'' MCP_HEADER_NAME_MAX_LEN (length raw))
      else if \<not> list_all header_name_char raw
      then Err (Malformed ''mcp_transport.header_name'' ''rfc7230 token characters only'')
      else Ok (to_lower raw))"

definition mcp_header_value_try_from :: "string \<Rightarrow> (parse_error, string) outcome" where
  "mcp_header_value_try_from raw =
     (if raw = [] then Err (Empty ''mcp_transport.header_value'')
      else if MCP_HEADER_VALUE_MAX_LEN < length raw
      then Err (TooLong ''mcp_transport.header_value'' MCP_HEADER_VALUE_MAX_LEN (length raw))
      else if \<not> list_all (\<lambda>c. byte c = 32 \<or> byte c = 9 \<or> in_bytes 33 126 c) raw
      then Err (Malformed ''mcp_transport.header_value'' ''must be ascii-printable, no control chars'')
      else Ok raw)"

definition mcp_tool_remote_name_try_from :: "string \<Rightarrow> (parse_error, string) outcome" where
  "mcp_tool_remote_name_try_from raw =
     (if raw = [] then Err (Empty ''mcp_tool_remote_name'')
      else if MCP_TOOL_REMOTE_NAME_MAX_LEN < length raw
      then Err (TooLong ''mcp_tool_remote_name'' MCP_TOOL_REMOTE_NAME_MAX_LEN (length raw))
      else Ok raw)"

interpretation server_alias: smart_string mcp_server_alias_try_from MCP_ALIAS_MAX_LEN
  by unfold_locales (auto simp: mcp_server_alias_try_from_def split: if_splits)

interpretation header_value: smart_string mcp_header_value_try_from MCP_HEADER_VALUE_MAX_LEN
  by unfold_locales (auto simp: mcp_header_value_try_from_def split: if_splits)

interpretation remote_name: smart_string mcp_tool_remote_name_try_from MCP_TOOL_REMOTE_NAME_MAX_LEN
  by unfold_locales (auto simp: mcp_tool_remote_name_try_from_def split: if_splits)

section \<open>The allowlist of an agent\<close>

type_synonym mcp_server_id = nat
type_synonym allowed_mcp_tools = "(mcp_server_id \<times> string list option) list"

datatype tool_scope = ScopeNone | ScopeAll | ScopeSome "string list"

fun remote_names_from :: "string list \<Rightarrow> string list \<Rightarrow> (parse_error, string list) outcome" where
  "remote_names_from seen [] = Ok seen"
| "remote_names_from seen (n # ns) =
     and_then (mcp_tool_remote_name_try_from n) (\<lambda>name.
       if name \<in> set seen then Err (Malformed ''allowed_mcp_tools'' ''duplicate tool name in server list'')
       else remote_names_from (seen @ [name]) ns)"

fun scopes_from :: "(mcp_server_id \<times> string list option) list \<Rightarrow> (parse_error, allowed_mcp_tools) outcome" where
  "scopes_from [] = Ok []"
| "scopes_from ((i, names) # rest) =
     and_then (case names of
                 None \<Rightarrow> Ok None
               | Some ns \<Rightarrow>
                   if MAX_ALLOWED_MCP_TOOLS_PER_SERVER_PER_AGENT < length ns
                   then Err (OutOfRange ''allowed_mcp_tools'' ''too many tools for one server'')
                   else and_then (remote_names_from [] ns) (\<lambda>xs. Ok (Some xs)))
       (\<lambda>scope. and_then (scopes_from rest) (\<lambda>out. Ok ((i, scope) # out)))"

text \<open>The argument is a map: its keys are distinct.\<close>

definition allowed_mcp_tools_try_from :: "(mcp_server_id \<times> string list option) list \<Rightarrow> (parse_error, allowed_mcp_tools) outcome" where
  "allowed_mcp_tools_try_from raw =
     (if MAX_ALLOWED_MCP_SERVERS_PER_AGENT < length raw
      then Err (OutOfRange ''allowed_mcp_tools'' ''too many servers'')
      else scopes_from raw)"

definition tools_for :: "allowed_mcp_tools \<Rightarrow> mcp_server_id \<Rightarrow> tool_scope" where
  "tools_for allowed server =
     (case map_of allowed server of
        None \<Rightarrow> ScopeNone
      | Some None \<Rightarrow> ScopeAll
      | Some (Some names) \<Rightarrow> ScopeSome names)"

section \<open>Refresh\<close>

record mcp_server_record =
  srv_id :: mcp_server_id
  srv_org_id :: org_id
  srv_alias :: string
  srv_config :: string

record remote_tool =
  rem_name :: string
  rem_description :: "string option"
  rem_input_schema :: string

record tool_origin =
  or_server :: mcp_server_id
  or_remote_name :: string

record discovered_tool =
  dt_remote_name :: string
  dt_prefixed_name :: string
  dt_description :: "string option"

record health_update =
  hu_last_seen_at :: "instant option"
  hu_last_error :: "string option"
  hu_discovered_tools :: "discovered_tool list option"

text \<open>Built-in tools and remote ones in one toolbox.\<close>

datatype ('b, 'c) tool_body = Builtin 'b | Remote (remote_of: string) (client_of: 'c)

type_synonym ('b, 'c) any_tool = "('b, 'c) tool_body reg_tool"

record ('b, 'c) mcp_state =
  st_by_name :: "(string \<times> ('b, 'c) any_tool) list"
  st_origins :: "(string \<times> tool_origin) list"
  st_specs :: "tool_spec list"
  st_servers :: "(mcp_server_id \<times> string \<times> 'c) list"

record ('c, 'p) mcp_ops =
  mo_credentials :: "mcp_server_id \<Rightarrow> org_id \<Rightarrow> string + 'p option"
  mo_connect :: "string \<Rightarrow> 'p option \<Rightarrow> string + 'c"
  mo_list_tools :: "'c \<Rightarrow> string + remote_tool list"
  mo_now :: instant

definition prefixed_name :: "string \<Rightarrow> string \<Rightarrow> (parse_error, string) outcome" where
  "prefixed_name alias remote = tool_name_try_from (''mcp_'' @ alias @ ''_'' @ remote)"

definition mcp_empty :: "('b, 'c) mcp_state" where
  "mcp_empty = \<lparr>st_by_name = [], st_origins = [], st_specs = [], st_servers = []\<rparr>"

definition mcp_tool_new :: "string \<Rightarrow> remote_tool \<Rightarrow> 'c \<Rightarrow> ('b, 'c) any_tool" where
  "mcp_tool_new name remote client =
     \<lparr>rt_name = name,
      rt_description = (case rem_description remote of Some d \<Rightarrow> d | None \<Rightarrow> ''(no description provided)''),
      rt_input_schema = rem_input_schema remote, rt_modes = MODES_ALL, rt_body = Remote (rem_name remote) client\<rparr>"

text \<open>One remote tool; \<open>None\<close> is \<open>continue\<close>.\<close>

definition ingest_tool ::
  "mcp_server_id \<Rightarrow> string \<Rightarrow> 'c \<Rightarrow> remote_tool \<Rightarrow> ('b, 'c) mcp_state \<Rightarrow> (discovered_tool \<times> ('b, 'c) mcp_state) option" where
  "ingest_tool server alias client remote b =
     (case prefixed_name alias (rem_name remote) of
        Ok name \<Rightarrow>
          if map_of (st_by_name b) name \<noteq> None then None
          else (case mcp_tool_remote_name_try_from (rem_name remote) of
                  Ok remote_name \<Rightarrow>
                    let tool = mcp_tool_new name remote client in
                    Some (\<lparr>dt_remote_name = rem_name remote, dt_prefixed_name = name, dt_description = rem_description remote\<rparr>,
                          b\<lparr>st_specs := st_specs b @ [spec_of tool],
                            st_origins := st_origins b @ [(name, \<lparr>or_server = server, or_remote_name = remote_name\<rparr>)],
                            st_by_name := st_by_name b @ [(name, tool)]\<rparr>)
                | _ \<Rightarrow> None)
      | _ \<Rightarrow> None)"

fun ingest_all ::
  "mcp_server_id \<Rightarrow> string \<Rightarrow> 'c \<Rightarrow> remote_tool list \<Rightarrow> ('b, 'c) mcp_state \<Rightarrow> discovered_tool list \<times> ('b, 'c) mcp_state" where
  "ingest_all server alias client [] b = ([], b)"
| "ingest_all server alias client (r # rs) b =
     (case ingest_tool server alias client r b of
        None \<Rightarrow> ingest_all server alias client rs b
      | Some (d, b') \<Rightarrow> let (ds, b'') = ingest_all server alias client rs b' in (d # ds, b''))"

definition ingest_tools where
  "ingest_tools server alias client remote_tools b = ingest_all server alias client (take MAX_TOOLS_PER_SERVER remote_tools) b"

text \<open>Reuse the client of an unchanged server without credentials, else open a new one; the prior entry goes either way.\<close>

definition connect_or_reuse ::
  "('c, 'p) mcp_ops \<Rightarrow> mcp_server_record \<Rightarrow> 'p option \<Rightarrow> (mcp_server_id \<times> string \<times> 'c) list \<Rightarrow> string + 'c" where
  "connect_or_reuse ops row credentials prior =
     (case map_of prior (srv_id row) of
        Some (config, client) \<Rightarrow>
          if config = srv_config row \<and> credentials = None then Inr client else mo_connect ops (srv_config row) credentials
      | None \<Rightarrow> mo_connect ops (srv_config row) credentials)"

type_synonym health_log = "(mcp_server_id \<times> org_id \<times> health_update) list"

definition failed_health :: "string \<Rightarrow> string \<Rightarrow> health_update" where
  "failed_health what e = \<lparr>hu_last_seen_at = None, hu_last_error = Some (what @ '': '' @ e), hu_discovered_tools = None\<rparr>"

definition refresh_one ::
  "('c, 'p) mcp_ops \<Rightarrow> mcp_server_record \<Rightarrow> (mcp_server_id \<times> string \<times> 'c) list \<Rightarrow> ('b, 'c) mcp_state \<Rightarrow>
   ('b, 'c) mcp_state \<times> (mcp_server_id \<times> string \<times> 'c) list \<times> health_log" where
  "refresh_one ops row prior b =
     (case mo_credentials ops (srv_id row) (srv_org_id row) of
        Inl e \<Rightarrow> (b, prior, [(srv_id row, srv_org_id row, failed_health ''credentials'' e)])
      | Inr credentials \<Rightarrow>
          (let prior' = filter (\<lambda>(i, _). i \<noteq> srv_id row) prior in
           case connect_or_reuse ops row credentials prior of
             Inl e \<Rightarrow> (b, prior', [(srv_id row, srv_org_id row, failed_health ''connect'' e)])
           | Inr client \<Rightarrow>
               (case mo_list_tools ops client of
                  Inl e \<Rightarrow> (b, prior', [(srv_id row, srv_org_id row, failed_health ''list_tools'' e)])
                | Inr remote_tools \<Rightarrow>
                    (let (discovered, b') = ingest_tools (srv_id row) (srv_alias row) client remote_tools b in
                     (b'\<lparr>st_servers := AList.update (srv_id row) (srv_config row, client) (st_servers b')\<rparr>, prior',
                      [(srv_id row, srv_org_id row,
                        \<lparr>hu_last_seen_at = Some (mo_now ops), hu_last_error = None, hu_discovered_tools = Some discovered\<rparr>)])))))"

fun refresh_rows ::
  "('c, 'p) mcp_ops \<Rightarrow> mcp_server_record list \<Rightarrow> (mcp_server_id \<times> string \<times> 'c) list \<Rightarrow> ('b, 'c) mcp_state \<Rightarrow> health_log \<Rightarrow>
   ('b, 'c) mcp_state \<times> health_log" where
  "refresh_rows ops [] prior b h = (b, h)"
| "refresh_rows ops (row # rows) prior b h =
     (let (b', prior', h') = refresh_one ops row prior b in refresh_rows ops rows prior' b' (h @ h'))"

definition mcp_finish :: "('b, 'c) mcp_state \<Rightarrow> ('b, 'c) mcp_state" where
  "mcp_finish b = b\<lparr>st_specs := sort_key ts_name (st_specs b)\<rparr>"

text \<open>\<open>list_enabled\<close> gave the rows, ordered by alias.\<close>

definition refresh ::
  "('c, 'p) mcp_ops \<Rightarrow> nat \<Rightarrow> mcp_server_record list \<Rightarrow> ('b, 'c) mcp_state \<Rightarrow> ('b, 'c) mcp_state \<times> health_log" where
  "refresh ops server_cap rows st =
     (let (b, h) = refresh_rows ops (take server_cap rows) (st_servers st) mcp_empty [] in (mcp_finish b, h))"

section \<open>Reading\<close>

definition mcp_lookup :: "('b, 'c) mcp_state \<Rightarrow> string \<Rightarrow> (('b, 'c) any_tool \<times> tool_origin) option" where
  "mcp_lookup st name =
     (case map_of (st_origins st) name of
        None \<Rightarrow> None
      | Some origin \<Rightarrow> map_option (\<lambda>tool. (tool, origin)) (map_of (st_by_name st) name))"

definition mcp_source :: "('b, 'c) mcp_state \<Rightarrow> ('b, 'c) tool_body tool_source" where
  "mcp_source st = (plain_source (st_specs st) (map_of (st_by_name st)))
     \<lparr>src_server_id_for := (\<lambda>name. map_option or_server (map_of (st_origins st) name))\<rparr>"

definition permits :: "allowed_mcp_tools \<Rightarrow> mcp_server_id \<Rightarrow> string \<Rightarrow> bool" where
  "permits allowed server remote =
     (case tools_for allowed server of ScopeNone \<Rightarrow> False | ScopeAll \<Rightarrow> True | ScopeSome names \<Rightarrow> remote \<in> set names)"

definition scoped_specs :: "('b, 'c) mcp_state \<Rightarrow> allowed_mcp_tools \<Rightarrow> tool_spec list" where
  "scoped_specs st allowed =
     (if allowed = [] then []
      else filter (\<lambda>s. case map_of (st_origins st) (ts_name s) of
                          None \<Rightarrow> False
                        | Some origin \<Rightarrow> permits allowed (or_server origin) (or_remote_name origin)) (st_specs st))"

definition scoped_get :: "('b, 'c) mcp_state \<Rightarrow> allowed_mcp_tools \<Rightarrow> string \<Rightarrow> ('b, 'c) any_tool option" where
  "scoped_get st allowed name =
     (if allowed = [] then None
      else case mcp_lookup st name of
             None \<Rightarrow> None
           | Some (tool, origin) \<Rightarrow> if permits allowed (or_server origin) (or_remote_name origin) then Some tool else None)"

definition scoped_server_id_for :: "('b, 'c) mcp_state \<Rightarrow> allowed_mcp_tools \<Rightarrow> string \<Rightarrow> mcp_server_id option" where
  "scoped_server_id_for st allowed name =
     (if allowed = [] then None
      else case mcp_lookup st name of
             None \<Rightarrow> None
           | Some (tool, origin) \<Rightarrow>
               if permits allowed (or_server origin) (or_remote_name origin) then Some (or_server origin) else None)"

definition scoped_source :: "('b, 'c) mcp_state \<Rightarrow> allowed_mcp_tools \<Rightarrow> ('b, 'c) tool_body tool_source" where
  "scoped_source st allowed = (plain_source (scoped_specs st allowed) (scoped_get st allowed))
     \<lparr>src_server_id_for := scoped_server_id_for st allowed\<rparr>"

section \<open>Rendering a result (mcp/tool.rs)\<close>

datatype raw_content =
    RText string
  | RImage (img_data: string) (img_mime: string)
  | RAudio (audio_data: string) (audio_mime: string)
  | RTextResource (res_uri: string) (res_text: string)
  | RBlobResource (blob_uri: string) (blob_data: string) (blob_mime: "string option")
  | RResourceLink string

fun render_block :: "raw_content \<Rightarrow> string" where
  "render_block (RText t) = t"
| "render_block (RImage d m) = ''[image content blocked: '' @ m @ '', '' @ show_nat (length d) @ ''B]''"
| "render_block (RAudio d m) = ''[audio content blocked: '' @ m @ '', '' @ show_nat (length d) @ ''B]''"
| "render_block (RTextResource uri t) = ''[resource '' @ uri @ '']'' @ [CHR 10] @ t"
| "render_block (RBlobResource uri d m) =
     ''[resource '' @ uri @ '': '' @ (case m of Some x \<Rightarrow> x | None \<Rightarrow> ''application/octet-stream'') @ '', '' @
     show_nat (length d) @ ''B blocked]''"
| "render_block (RResourceLink uri) = ''[resource link: '' @ uri @ '']''"

definition truncated_mark :: string where
  "truncated_mark = [CHR 10] @ ''[truncated]''"

fun render_blocks :: "string \<Rightarrow> raw_content list \<Rightarrow> string" where
  "render_blocks out [] = out"
| "render_blocks out (b # bs) =
     (let out' = (if out \<noteq> [] \<and> last out \<noteq> CHR 10 then out @ [CHR 10] else out) @ render_block b in
      if MCP_RESULT_RENDER_CAP \<le> length out'
      then truncate_to_char_boundary out' MCP_RESULT_RENDER_CAP @ truncated_mark
      else render_blocks out' bs)"

definition render_result :: "bool option \<Rightarrow> raw_content list \<Rightarrow> string" where
  "render_result is_error content =
     (let out = render_blocks (if is_error = Some True then ''[mcp tool returned isError=true]'' @ [CHR 10] else []) content in
      if out = [] then ''[mcp tool returned no content]'' else out)"

section \<open>A refreshed catalogue\<close>

text \<open>The four collections are about the same tools, and every tool comes from a row.\<close>

definition mcp_ok :: "mcp_server_record set \<Rightarrow> ('b, 'c) mcp_state \<Rightarrow> bool" where
  "mcp_ok R b \<longleftrightarrow>
     distinct (map fst (st_by_name b)) \<and> map fst (st_origins b) = map fst (st_by_name b) \<and>
     ts_name ` set (st_specs b) = fst ` set (st_by_name b) \<and>
     fst ` set (st_servers b) \<subseteq> srv_id ` R \<and>
     (\<forall>n t or. map_of (st_by_name b) n = Some t \<longrightarrow> map_of (st_origins b) n = Some or \<longrightarrow>
        remote_of (rt_body t) = or_remote_name or \<and>
        (\<exists>row \<in> R. srv_id row = or_server or \<and> n = ''mcp_'' @ srv_alias row @ ''_'' @ or_remote_name or))"

lemma mcp_ok_empty: "mcp_ok R mcp_empty"
  by (simp add: mcp_ok_def mcp_empty_def)

lemma mcp_ok_keys: "mcp_ok R b \<Longrightarrow> fst ` set (st_origins b) = fst ` set (st_by_name b)"
  unfolding mcp_ok_def by (metis set_map)

lemma mcp_ok_specs: "mcp_ok R b \<Longrightarrow> ts_name ` set (st_specs b) = fst ` set (st_by_name b)"
  by (simp add: mcp_ok_def)

lemma prefixed_name_Ok: "prefixed_name alias remote = Ok n \<Longrightarrow> n = ''mcp_'' @ alias @ ''_'' @ remote"
  unfolding prefixed_name_def by (rule tool_name.keeps)

lemma ingest_tool_ok:
  fixes b :: "('a, 'b) mcp_state"
  assumes "mcp_ok R b" and "row \<in> R" and "ingest_tool (srv_id row) (srv_alias row) client r b = Some (d, b')"
  shows "mcp_ok R b'"
proof -
  from assms(3) obtain n m where n: "prefixed_name (srv_alias row) (rem_name r) = Ok n" and new: "map_of (st_by_name b) n = None"
    and m: "mcp_tool_remote_name_try_from (rem_name r) = Ok m"
    and b': "b' = b\<lparr>st_specs := st_specs b @ [spec_of (mcp_tool_new n r client :: ('a, 'b) any_tool)],
       st_origins := st_origins b @ [(n, \<lparr>or_server = srv_id row, or_remote_name = m\<rparr>)],
       st_by_name := st_by_name b @ [(n, mcp_tool_new n r client)]\<rparr>"
    by (auto simp: ingest_tool_def Let_def split: outcome.splits if_splits)
  have m': "m = rem_name r" using remote_name.keeps [OF m] .
  have free: "n \<notin> fst ` set (st_by_name b)" "n \<notin> fst ` set (st_origins b)"
    using mcp_ok_keys [OF assms(1)] new by (simp_all add: map_of_eq_None_iff)
  have old: "distinct (map fst (st_by_name b))" "map fst (st_origins b) = map fst (st_by_name b)"
    "ts_name ` set (st_specs b) = fst ` set (st_by_name b)" "fst ` set (st_servers b) \<subseteq> srv_id ` R"
    "map_of (st_by_name b) k = Some t \<Longrightarrow> map_of (st_origins b) k = Some or \<Longrightarrow>
       remote_of (rt_body t) = or_remote_name or \<and>
       (\<exists>row \<in> R. srv_id row = or_server or \<and> k = ''mcp_'' @ srv_alias row @ ''_'' @ or_remote_name or)" for k t or
    using assms(1) unfolding mcp_ok_def by blast+
  show ?thesis unfolding mcp_ok_def
  proof (intro conjI allI impI)
    show "distinct (map fst (st_by_name b'))" using old(1) free(1) by (simp add: b')
    show "map fst (st_origins b') = map fst (st_by_name b')" using old(2) by (simp add: b')
    show "ts_name ` set (st_specs b') = fst ` set (st_by_name b')" using old(3) by (simp add: b' spec_of_def mcp_tool_new_def)
    show "fst ` set (st_servers b') \<subseteq> srv_id ` R" using old(4) by (simp add: b')
    fix k t or
    assume t: "map_of (st_by_name b') k = Some t" and or: "map_of (st_origins b') k = Some or"
    have "remote_of (rt_body t) = or_remote_name or \<and>
       (\<exists>row \<in> R. srv_id row = or_server or \<and> k = ''mcp_'' @ srv_alias row @ ''_'' @ or_remote_name or)"
    proof (cases "k = n")
      case True
      then have "t = mcp_tool_new n r client" "or = \<lparr>or_server = srv_id row, or_remote_name = m\<rparr>"
        using t or free by (simp_all add: b' map_add_Some_iff map_of_eq_None_iff flip: map_of_eq_None_iff)
      then show ?thesis using assms(2) m' True prefixed_name_Ok [OF n] by (auto simp: mcp_tool_new_def)
    next
      case False
      then have "map_of (st_by_name b) k = Some t" "map_of (st_origins b) k = Some or"
        using t or by (auto simp: b' map_add_Some_iff)
      then show ?thesis by (rule old(5))
    qed
    then show "remote_of (rt_body t) = or_remote_name or"
      and "\<exists>row \<in> R. srv_id row = or_server or \<and> k = ''mcp_'' @ srv_alias row @ ''_'' @ or_remote_name or" by blast+
  qed
qed

lemma ingest_all_ok: "mcp_ok R b \<Longrightarrow> row \<in> R \<Longrightarrow> mcp_ok R (snd (ingest_all (srv_id row) (srv_alias row) client rs b))"
proof (induction rs arbitrary: b)
  case (Cons r rs)
  show ?case
  proof (cases "ingest_tool (srv_id row) (srv_alias row) client r b")
    case (Some x)
    obtain d b' where x: "x = (d, b')" by (cases x)
    have "mcp_ok R b'" using ingest_tool_ok [OF Cons.prems] Some x by blast
    from Cons.IH [OF this Cons.prems(2)] show ?thesis
      by (cases "ingest_all (srv_id row) (srv_alias row) client rs b'") (simp add: Some x)
  qed (use Cons in simp)
qed simp

lemma refresh_one_ok:
  fixes b :: "('a, 'b) mcp_state"
  assumes "mcp_ok R b" and "row \<in> R"
  shows "mcp_ok R (fst (refresh_one ops row prior b))"
proof -
  have "mcp_ok R (b'\<lparr>st_servers := AList.update (srv_id row) x (st_servers b')\<rparr>)" if "mcp_ok R b'" for b' :: "('a, 'b) mcp_state" and x
    using that assms(2) unfolding mcp_ok_def by (simp add: dom_update)
  then show ?thesis
    using assms ingest_all_ok [OF assms]
    by (auto simp: refresh_one_def ingest_tools_def Let_def split: sum.split prod.split) (metis snd_conv)
qed

lemma refresh_rows_ok: "mcp_ok R b \<Longrightarrow> set rows \<subseteq> R \<Longrightarrow> mcp_ok R (fst (refresh_rows ops rows prior b h))"
proof (induction rows arbitrary: prior b h)
  case (Cons row rows)
  obtain b' prior' h' where one: "refresh_one ops row prior b = (b', prior', h')" by (cases "refresh_one ops row prior b") auto
  have "mcp_ok R b'" using refresh_one_ok [OF Cons.prems(1), of row ops prior] Cons.prems(2) one by simp
  then show ?case using Cons.IH Cons.prems(2) by (simp add: one)
qed simp

lemma mcp_finish_ok: "mcp_ok R b \<Longrightarrow> mcp_ok R (mcp_finish b)"
  by (simp add: mcp_ok_def mcp_finish_def)

lemma refresh_ok: "mcp_ok (set (take cap rows)) (fst (refresh ops cap rows (st :: ('a, 'b) mcp_state)))"
proof -
  obtain b :: "('a, 'b) mcp_state" and h where b: "refresh_rows ops (take cap rows) (st_servers st) mcp_empty [] = (b, h)"
    by (cases "refresh_rows ops (take cap rows) (st_servers st) (mcp_empty :: ('a, 'b) mcp_state) []")
  have "mcp_ok (set (take cap rows)) (fst (refresh_rows ops (take cap rows) (st_servers st) (mcp_empty :: ('a, 'b) mcp_state) []))"
    by (rule refresh_rows_ok [OF mcp_ok_empty order_refl])
  then show ?thesis by (simp add: refresh_def b mcp_finish_ok)
qed

interpretation agent_scope: tool_catalogue "\<lambda>_. scoped_specs (fst (refresh ops cap rows st)) allowed"
    "\<lambda>_. scoped_get (fst (refresh ops cap rows st)) allowed"
  for ops cap rows st allowed
proof
  fix name and k :: request_kind
  let ?st = "fst (refresh ops cap rows st)"
  note names = mcp_ok_specs [OF refresh_ok [of cap rows ops st]] mcp_ok_keys [OF refresh_ok [of cap rows ops st]]
  show "name \<in> ts_name ` set (scoped_specs ?st allowed) \<longleftrightarrow> scoped_get ?st allowed name \<noteq> None"
  proof (cases "map_of (st_by_name ?st) name")
    case None
    then have "name \<notin> ts_name ` set (st_specs ?st)" "map_of (st_origins ?st) name = None"
      using names by (simp_all add: map_of_eq_None_iff)
    then show ?thesis by (auto simp: scoped_specs_def scoped_get_def mcp_lookup_def)
  next
    case (Some t)
    then have "name \<in> fst ` set (st_by_name ?st)" by (metis map_of_eq_None_iff option.distinct(1))
    then have "name \<in> ts_name ` set (st_specs ?st)" "map_of (st_origins ?st) name \<noteq> None"
      using names by (simp_all add: map_of_eq_None_iff)
    then show ?thesis using Some by (force simp: scoped_specs_def scoped_get_def mcp_lookup_def image_iff)
  qed
qed

interpretation agent_toolbox: two_catalogues "builtins_offered tools" "builtins_runnable tools"
    "\<lambda>_. scoped_specs (fst (refresh ops cap rows st)) allowed" "\<lambda>_. scoped_get (fst (refresh ops cap rows st)) allowed"
  for tools :: "('b, 'c) any_tool list" and ops cap rows st allowed
  by unfold_locales

text \<open>C24. An agent's toolbox offers the model exactly what the dispatcher will run: for every kind of turn, a name is among the specs the
  provider is given if and only if a call by that name finds a tool, for any set of built-in tools, any remote catalogue after any
  refresh, and any allowlist.\<close>

theorem offered_tools_are_runnable:
  assumes "registry_build tools = Ok r"
    and "tb = \<lparr>tb_builtins = r, tb_dynamic = scoped_source (fst (refresh ops cap rows st)) allowed\<rparr>"
  shows "name \<in> ts_name ` set (toolbox_specs_for tb k) \<longleftrightarrow> toolbox_get_for tb k name \<noteq> None"
  using agent_toolbox.joined_iff [of name tools k ops cap rows st allowed] assms
  by (simp add: builtins_offered_def builtins_runnable_def toolbox_specs_for_def toolbox_get_for_def scoped_source_def plain_source_def)

text \<open>C25. An agent only ever runs a remote tool its allowlist grants: the tool belongs to a server among those refreshed, the
  server is on the list, the tool's remote name is granted there, and the name the model used is the server's alias and the remote name.\<close>

theorem scoped_tool_is_allowed:
  assumes "scoped_get (fst (refresh ops cap rows st)) allowed name = Some t"
  shows "\<exists>row \<in> set rows. permits allowed (srv_id row) (remote_of (rt_body t)) \<and>
    tools_for allowed (srv_id row) \<noteq> ScopeNone \<and> name = ''mcp_'' @ srv_alias row @ ''_'' @ remote_of (rt_body t) \<and>
    scoped_server_id_for (fst (refresh ops cap rows st)) allowed name = Some (srv_id row)"
proof -
  let ?st = "fst (refresh ops cap rows st)"
  from assms obtain or where look: "map_of (st_origins ?st) name = Some or" "map_of (st_by_name ?st) name = Some t"
    and ok: "permits allowed (or_server or) (or_remote_name or)" "allowed \<noteq> []"
    by (auto simp: scoped_get_def mcp_lookup_def split: option.splits if_splits)
  from refresh_ok [of cap rows ops st] look obtain row where "row \<in> set (take cap rows)" "srv_id row = or_server or"
    "name = ''mcp_'' @ srv_alias row @ ''_'' @ or_remote_name or" "remote_of (rt_body t) = or_remote_name or"
    unfolding mcp_ok_def by blast
  moreover have "tools_for allowed (or_server or) \<noteq> ScopeNone" using ok(1) by (auto simp: permits_def)
  moreover have "scoped_server_id_for ?st allowed name = Some (or_server or)"
    using look ok by (simp add: scoped_server_id_for_def mcp_lookup_def)
  ultimately show ?thesis using ok(1) in_set_takeD by metis
qed

text \<open>The cap on servers counts the servers of all organisations together, while creating a server only counts those of its own
  organisation: a server past the first thirty-two by alias is never connected and none of its tools is ever offered.\<close>

theorem servers_past_cap_never_connect:
  assumes "server \<notin> srv_id ` set (take MAX_MCP_SERVERS rows)"
  shows "server \<notin> fst ` set (st_servers (fst (refresh ops MAX_MCP_SERVERS rows st))) \<and>
    scoped_get (fst (refresh ops MAX_MCP_SERVERS rows st)) [(server, None)] name = None"
proof -
  let ?st = "fst (refresh ops MAX_MCP_SERVERS rows st)"
  note ok = refresh_ok [of MAX_MCP_SERVERS rows ops st]
  have "server \<notin> fst ` set (st_servers ?st)" using ok assms by (auto simp: mcp_ok_def)
  moreover have "or_server or \<noteq> server" if "map_of (st_origins ?st) name = Some or" "map_of (st_by_name ?st) name = Some t" for or t
    using ok that assms unfolding mcp_ok_def by (metis image_eqI)
  then have "scoped_get ?st [(server, None)] name = None"
    by (auto simp: scoped_get_def mcp_lookup_def permits_def tools_for_def split: option.splits)
  ultimately show ?thesis by blast
qed

section \<open>Two organisations, one alias\<close>

text \<open>Tool names carry the alias and not the organisation, and aliases are only unique inside an organisation: when two organisations
  register a server under the same alias and both expose a tool of the same name, the second gets none, its agents cannot call the
  tool they were granted, and the server is reported healthy.\<close>

theorem alias_collision_hides_tool:
  assumes "srv_alias r1 = srv_alias r2" and "srv_id r1 \<noteq> srv_id r2"
    and "\<And>r. r \<in> {r1, r2} \<Longrightarrow> mo_credentials ops (srv_id r) (srv_org_id r) = Inr None"
    and "mo_connect ops (srv_config r1) None = Inr c1" and "mo_connect ops (srv_config r2) None = Inr c2"
    and "mo_list_tools ops c1 = Inr [tool]" and "mo_list_tools ops c2 = Inr [tool]"
    and "prefixed_name (srv_alias r1) (rem_name tool) = Ok name" and "mcp_tool_remote_name_try_from (rem_name tool) = Ok remote"
  shows "scoped_get (fst (refresh ops MAX_MCP_SERVERS [r1, r2] mcp_empty)) [(srv_id r1, None)] name \<noteq> None \<and>
    scoped_get (fst (refresh ops MAX_MCP_SERVERS [r1, r2] mcp_empty)) [(srv_id r2, None)] name = None \<and>
    (srv_id r2, srv_org_id r2, \<lparr>hu_last_seen_at = Some (mo_now ops), hu_last_error = None, hu_discovered_tools = Some []\<rparr>)
      \<in> set (snd (refresh ops MAX_MCP_SERVERS [r1, r2] mcp_empty))"
  using assms
  by (simp add: refresh_def MAX_MCP_SERVERS_def mcp_empty_def refresh_one_def connect_or_reuse_def Let_def ingest_tools_def
      MAX_TOOLS_PER_SERVER_def ingest_tool_def mcp_finish_def scoped_get_def mcp_lookup_def permits_def tools_for_def)

section \<open>Results are bounded\<close>

lemma truncate_length [simp]: "length (truncate_to_char_boundary s n) \<le> n"
  using back_to_boundary_le [of s "min n (length s)"] by (simp add: truncate_to_char_boundary_def)

lemma render_blocks_length: "length out < MCP_RESULT_RENDER_CAP \<Longrightarrow> length (render_blocks out bs) \<le> MCP_RESULT_RENDER_CAP + length truncated_mark"
proof (induction bs arbitrary: out)
  case (Cons b bs)
  let ?out = "(if out \<noteq> [] \<and> last out \<noteq> CHR 10 then out @ [CHR 10] else out) @ render_block b"
  show ?case
  proof (cases "MCP_RESULT_RENDER_CAP \<le> length ?out")
    case True
    then show ?thesis by simp
  next
    case False
    then show ?thesis using Cons.IH [of ?out] by (simp add: Let_def del: length_append)
  qed
qed simp

text \<open>Whatever a remote server answers, the text the model gets is not empty and at most the render cap and the truncation mark.\<close>

theorem render_result_bounded:
  "render_result is_error content \<noteq> [] \<and> length (render_result is_error content) \<le> MCP_RESULT_RENDER_CAP + 12"
proof -
  let ?start = "if is_error = Some True then ''[mcp tool returned isError=true]'' @ [CHR 10] else []"
  have "length ?start < MCP_RESULT_RENDER_CAP" by (simp add: MCP_RESULT_RENDER_CAP_def)
  from render_blocks_length [OF this, of content] show ?thesis
    by (simp add: render_result_def Let_def truncated_mark_def MCP_RESULT_RENDER_CAP_def)
qed

section \<open>Allowlists are well formed\<close>

lemma remote_names_ok:
  "remote_names_from seen ns = Ok xs \<Longrightarrow> distinct seen \<Longrightarrow>
   xs = seen @ ns \<and> distinct xs \<and> (\<forall>n \<in> set ns. n \<noteq> [] \<and> length n \<le> MCP_TOOL_REMOTE_NAME_MAX_LEN)"
proof (induction ns arbitrary: seen)
  case (Cons n ns)
  from Cons.prems(1) obtain m where m: "mcp_tool_remote_name_try_from n = Ok m" "m \<notin> set seen" "remote_names_from (seen @ [m]) ns = Ok xs"
    by (auto simp: and_then_Ok_iff split: if_splits)
  have "m = n" "n \<noteq> []" "length n \<le> MCP_TOOL_REMOTE_NAME_MAX_LEN"
    using remote_name.keeps [OF m(1)] remote_name.bounded [OF m(1)] by simp_all
  then show ?case using Cons.IH [OF m(3)] Cons.prems(2) m(2) by auto
qed simp

lemma scopes_ok:
  "scopes_from raw = Ok a \<Longrightarrow> a = raw \<and> (\<forall>(i, scope) \<in> set a. case scope of None \<Rightarrow> True
     | Some ns \<Rightarrow> length ns \<le> MAX_ALLOWED_MCP_TOOLS_PER_SERVER_PER_AGENT \<and> distinct ns \<and>
                  (\<forall>n \<in> set ns. n \<noteq> [] \<and> length n \<le> MCP_TOOL_REMOTE_NAME_MAX_LEN))"
proof (induction raw arbitrary: a rule: scopes_from.induct)
  case (2 i names rest)
  then show ?case by (cases names) (auto simp: and_then_Ok_iff split: if_splits dest!: remote_names_ok)
qed simp

text \<open>C26. Every allowlist that exists is within its caps: at most thirty-two servers, at most sixty-four distinct tool names each, none
  empty or over-long; and parsing keeps what was written, so an agent is granted exactly the listed tools.\<close>

theorem allowlist_well_formed:
  assumes "allowed_mcp_tools_try_from raw = Ok a"
  shows "a = raw \<and> length a \<le> MAX_ALLOWED_MCP_SERVERS_PER_AGENT \<and>
    (\<forall>(i, scope) \<in> set a. case scope of None \<Rightarrow> True
     | Some ns \<Rightarrow> length ns \<le> MAX_ALLOWED_MCP_TOOLS_PER_SERVER_PER_AGENT \<and> distinct ns \<and>
                  (\<forall>n \<in> set ns. n \<noteq> [] \<and> length n \<le> MCP_TOOL_REMOTE_NAME_MAX_LEN))"
  using assms scopes_ok [of raw a] by (simp add: allowed_mcp_tools_try_from_def split: if_splits)

end
