(* ===== verification/Tool_Examples.thy ===== *)
theory Tool_Examples
  imports Mcp_Registry
begin

text \<open>
  Two organisations register a server under the alias \<open>gh\<close>, both serving \<open>create\<close>; and two built-in tools, one for ordinary
  turns only. The witnesses of \<open>Tool_Registry\<close> and \<open>Mcp_Registry\<close>.
\<close>

abbreviation builtin_tool :: "string \<Rightarrow> modes \<Rightarrow> (nat, nat) any_tool" where
  "builtin_tool name modes \<equiv> \<lparr>rt_name = name, rt_description = ''d'', rt_input_schema = ''s'', rt_modes = modes, rt_body = Builtin 0\<rparr>"

definition two_tools :: "(nat, nat) any_tool list" where
  "two_tools = [builtin_tool ''recall'' MODES_ALL, builtin_tool ''ask'' 1]"

lemma two_tools_distinct: "distinct (map rt_name two_tools)"
  by (simp add: two_tools_def)

theorem registry_specs_canonical_witness:
  "map ts_name (registry_specs_for (built two_tools) Normal) = [''ask'', ''recall''] \<and>
   registry_specs_for (built (rev two_tools)) Reflection = registry_specs_for (built two_tools) Reflection"
proof -
  have "\<exists>r. registry_build two_tools = Ok r \<and>
      (\<forall>k. registry_specs_for r k = sort_key ts_name (map spec_of (filter (\<lambda>t. modes_include (rt_modes t) k) two_tools))) \<and>
      (\<forall>tools' k. mset tools' = mset two_tools \<longrightarrow> registry_specs_for (built tools') k = registry_specs_for r k)"
    using registry_specs_canonical [of two_tools] unfolding if_P [OF two_tools_distinct] .
  then obtain r where r: "registry_build two_tools = Ok r"
      "registry_specs_for r Normal = sort_key ts_name (map spec_of (filter (\<lambda>t. modes_include (rt_modes t) Normal) two_tools))"
      "registry_specs_for (built (rev two_tools)) Reflection = registry_specs_for r Reflection" by auto
  have "r = built two_tools" using r(1) build_distinct [OF two_tools_distinct] by simp
  moreover have "map ts_name (sort_key ts_name (map spec_of (filter (\<lambda>t. modes_include (rt_modes t) Normal) two_tools))) = [''ask'', ''recall'']"
    by code_simp
  ultimately show ?thesis using r(2,3) by simp
qed

definition gh1 :: mcp_server_record where
  "gh1 = \<lparr>srv_id = 1, srv_org_id = 3, srv_alias = ''gh'', srv_config = ''one''\<rparr>"

definition gh2 :: mcp_server_record where
  "gh2 = \<lparr>srv_id = 2, srv_org_id = 4, srv_alias = ''gh'', srv_config = ''two''\<rparr>"

definition create_tool :: remote_tool where
  "create_tool = \<lparr>rem_name = ''create'', rem_description = None, rem_input_schema = ''s''\<rparr>"

definition gh_ops :: "(nat, nat) mcp_ops" where
  "gh_ops = \<lparr>mo_credentials = (\<lambda>_ _. Inr None), mo_connect = (\<lambda>c _. Inr (length c)), mo_list_tools = (\<lambda>_. Inr [create_tool]), mo_now = 5\<rparr>"

abbreviation gh_state :: "(nat, nat) mcp_state" where
  "gh_state \<equiv> fst (refresh gh_ops MAX_MCP_SERVERS [gh1, gh2] mcp_empty)"

theorem alias_collision_hides_tool_witness:
  "scoped_get gh_state [(1, None)] ''mcp_gh_create'' \<noteq> None \<and> scoped_get gh_state [(2, None)] ''mcp_gh_create'' = None"
proof -
  have names: "prefixed_name ''gh'' ''create'' = Ok ''mcp_gh_create''" "mcp_tool_remote_name_try_from ''create'' = Ok ''create''"
    by code_simp+
  have "scoped_get gh_state [(srv_id gh1, None)] ''mcp_gh_create'' \<noteq> None \<and>
    scoped_get gh_state [(srv_id gh2, None)] ''mcp_gh_create'' = None \<and>
    (srv_id gh2, srv_org_id gh2, \<lparr>hu_last_seen_at = Some (mo_now gh_ops), hu_last_error = None, hu_discovered_tools = Some []\<rparr>)
      \<in> set (snd (refresh gh_ops MAX_MCP_SERVERS [gh1, gh2] (mcp_empty :: (nat, nat) mcp_state)))"
    by (rule alias_collision_hides_tool [where tool = create_tool and remote = "''create''"])
       (use names in \<open>simp_all add: gh1_def gh2_def gh_ops_def create_tool_def\<close>)
  then show ?thesis by (simp add: gh1_def gh2_def)
qed

definition gh_toolbox :: "(nat, nat) tool_body toolbox" where
  "gh_toolbox = \<lparr>tb_builtins = built two_tools, tb_dynamic = scoped_source gh_state [(1, None)]\<rparr>"

theorem offered_tools_are_runnable_witness:
  "''mcp_gh_create'' \<in> ts_name ` set (toolbox_specs_for gh_toolbox Reflection) \<and> toolbox_get_for gh_toolbox Reflection ''mcp_gh_create'' \<noteq> None"
proof -
  have "toolbox_get_for gh_toolbox Reflection ''mcp_gh_create'' \<noteq> None" by code_simp
  then show ?thesis
    using offered_tools_are_runnable [OF build_distinct [OF two_tools_distinct] gh_toolbox_def, of "''mcp_gh_create''" Reflection] by blast
qed

theorem scoped_tool_is_allowed_witness:
  "\<exists>row \<in> {gh1, gh2}. permits [(1, None)] (srv_id row) ''create'' \<and> scoped_server_id_for gh_state [(1, None)] ''mcp_gh_create'' = Some (srv_id row)"
proof -
  have "scoped_get gh_state [(1, None)] ''mcp_gh_create'' = Some (mcp_tool_new ''mcp_gh_create'' create_tool 3)" by code_simp
  from scoped_tool_is_allowed [OF this] show ?thesis by (auto simp: mcp_tool_new_def create_tool_def)
qed

definition gh_row :: "nat \<Rightarrow> mcp_server_record" where
  "gh_row i = gh1\<lparr>srv_id := i\<rparr>"

theorem servers_past_cap_never_connect_witness:
  "scoped_get (fst (refresh gh_ops MAX_MCP_SERVERS (map gh_row [0..<40]) (mcp_empty :: (nat, nat) mcp_state))) [(35, None)] ''mcp_gh_create'' = None"
proof -
  have "35 \<notin> srv_id ` set (take MAX_MCP_SERVERS (map gh_row [0..<40]))"
    by (auto simp: take_map MAX_MCP_SERVERS_def gh_row_def)
  from servers_past_cap_never_connect [OF this, of gh_ops "mcp_empty :: (nat, nat) mcp_state" "''mcp_gh_create''"] show ?thesis
    by (rule conjunct2)
qed

theorem allowlist_well_formed_witness:
  "allowed_mcp_tools_try_from [(1, Some [''create'', ''close'']), (2, None)] = Ok [(1, Some [''create'', ''close'']), (2, None)] \<and>
   length [''create'', ''close''] \<le> MAX_ALLOWED_MCP_TOOLS_PER_SERVER_PER_AGENT"
proof -
  have ok: "allowed_mcp_tools_try_from [(1, Some [''create'', ''close'']), (2, None)] = Ok [(1, Some [''create'', ''close'']), (2, None)]"
    by code_simp
  from allowlist_well_formed [OF ok] ok show ?thesis by simp
qed

end
