(* ===== verification/Web_Fetch.thy ===== *)
theory Web_Fetch
  imports Schedule_Types "HOL-Library.Word"
begin

text \<open>
  The SSRF guard on outbound URLs (\<open>src/tools/url.rs\<close>) and the tool behind it
  (\<open>src/tools/system/web_fetch.rs\<close>).

  An IPv4 address is its four octets and an IPv6 address its eight segments, as words, so that the masks of the
  code are taken literally; the classifiers of \<open>std::net\<close> are written out. Parsing a URL, the HTTP exchange and the
  conversion of HTML are the code of other crates: \<open>parse\<close> and the record \<open>web\<close>. An error names the host it blocks
  where the code prints it.
\<close>

section \<open>Hosts\<close>

datatype ipv4 = V4 "8 word" "8 word" "8 word" "8 word"

datatype ipv6 = V6 "16 word" "16 word" "16 word" "16 word" "16 word" "16 word" "16 word" "16 word"

datatype host = Domain string | Ipv4 ipv4 | Ipv6 ipv6

record url =
  url_text :: string
  url_scheme :: string
  url_host :: "host option"

datatype url_error =
    UrlMalformed string
  | DisallowedScheme string
  | HostMissing
  | HostBlocked host
  | UrlTooLong nat nat

fun is_loopback :: "ipv4 \<Rightarrow> bool" where "is_loopback (V4 a b c d) \<longleftrightarrow> a = 127"

fun is_private :: "ipv4 \<Rightarrow> bool" where
  "is_private (V4 a b c d) \<longleftrightarrow> a = 10 \<or> a = 172 \<and> 16 \<le> b \<and> b \<le> 31 \<or> a = 192 \<and> b = 168"

fun is_link_local :: "ipv4 \<Rightarrow> bool" where "is_link_local (V4 a b c d) \<longleftrightarrow> a = 169 \<and> b = 254"

fun is_broadcast :: "ipv4 \<Rightarrow> bool" where "is_broadcast v \<longleftrightarrow> v = V4 255 255 255 255"

fun is_multicast :: "ipv4 \<Rightarrow> bool" where "is_multicast (V4 a b c d) \<longleftrightarrow> 224 \<le> a \<and> a \<le> 239"

fun is_unspecified :: "ipv4 \<Rightarrow> bool" where "is_unspecified v \<longleftrightarrow> v = V4 0 0 0 0"

fun is_documentation :: "ipv4 \<Rightarrow> bool" where
  "is_documentation (V4 a b c d) \<longleftrightarrow>
     a = 192 \<and> b = 0 \<and> c = 2 \<or> a = 198 \<and> b = 51 \<and> c = 100 \<or> a = 203 \<and> b = 0 \<and> c = 113"

fun to_ipv4_mapped :: "ipv6 \<Rightarrow> ipv4 option" where
  "to_ipv4_mapped (V6 s0 s1 s2 s3 s4 s5 s6 s7) =
     (if s0 = 0 \<and> s1 = 0 \<and> s2 = 0 \<and> s3 = 0 \<and> s4 = 0 \<and> s5 = 0xffff
      then Some (V4 (ucast (drop_bit 8 s6)) (ucast s6) (ucast (drop_bit 8 s7)) (ucast s7))
      else None)"

definition v4_blocked :: "ipv4 \<Rightarrow> bool" where
  "v4_blocked v \<longleftrightarrow> is_loopback v \<or> is_private v \<or> is_link_local v \<or> is_broadcast v \<or> is_multicast v \<or>
     is_unspecified v \<or> is_documentation v \<or> v = V4 169 254 169 254"

definition mapped_blocked :: "ipv4 \<Rightarrow> bool" where
  "mapped_blocked m \<longleftrightarrow> is_loopback m \<or> is_private m \<or> is_link_local m \<or> is_unspecified m \<or> m = V4 169 254 169 254"

fun v6_blocked :: "ipv6 \<Rightarrow> bool" where
  "v6_blocked (V6 s0 s1 s2 s3 s4 s5 s6 s7) \<longleftrightarrow>
     V6 s0 s1 s2 s3 s4 s5 s6 s7 = V6 0 0 0 0 0 0 0 1 \<or> V6 s0 s1 s2 s3 s4 s5 s6 s7 = V6 0 0 0 0 0 0 0 0 \<or>
     s0 AND 0xff00 = 0xff00 \<or> s0 AND 0xfe00 = 0xfc00 \<or> s0 AND 0xffc0 = 0xfe80 \<or>
     (case to_ipv4_mapped (V6 s0 s1 s2 s3 s4 s5 s6 s7) of None \<Rightarrow> False | Some m \<Rightarrow> mapped_blocked m)"

fun ip_blocked :: "host \<Rightarrow> bool" where
  "ip_blocked (Ipv4 v) = v4_blocked v"
| "ip_blocked (Ipv6 v) = v6_blocked v"
| "ip_blocked (Domain _) = False"

definition check_ip :: "host \<Rightarrow> (url_error, unit) outcome" where
  "check_ip ip = (if ip_blocked ip then Err (HostBlocked ip) else Ok ())"

definition ascii_lower :: "string \<Rightarrow> string" where
  "ascii_lower = map (\<lambda>c. if 65 \<le> byte c \<and> byte c \<le> 90 then char_of (byte c + 32) else c)"

definition ends_with :: "string \<Rightarrow> string \<Rightarrow> bool" where
  "ends_with s suffix \<longleftrightarrow> length suffix \<le> length s \<and> drop (length s - length suffix) s = suffix"

definition check_host :: "host \<Rightarrow> (url_error, unit) outcome" where
  "check_host h =
     (case h of
        Domain name \<Rightarrow>
          (let lowered = ascii_lower name in
           if lowered = ''localhost'' \<or> ends_with lowered ''.localhost'' \<or> ends_with lowered ''.internal'' \<or> ends_with lowered ''.local''
           then Err (HostBlocked h) else Ok ())
      | _ \<Rightarrow> check_ip h)"

definition fetch_url_try_from :: "(string \<Rightarrow> string + url) \<Rightarrow> string \<Rightarrow> (url_error, url) outcome" where
  "fetch_url_try_from parse raw =
     (if PROMPT_MAX_BYTES < length raw then Err (UrlTooLong PROMPT_MAX_BYTES (length raw))
      else case parse raw of
        Inl e \<Rightarrow> Err (UrlMalformed e)
      | Inr u \<Rightarrow>
          if url_scheme u \<noteq> ''https'' then Err (DisallowedScheme (url_scheme u))
          else case url_host u of
            None \<Rightarrow> Err HostMissing
          | Some h \<Rightarrow> and_then (check_host h) (\<lambda>_. Ok u))"

section \<open>Fetching\<close>

definition FETCH_MAX_BODY_BYTES :: nat where "FETCH_MAX_BODY_BYTES = 200 * 1024"
definition FETCH_MAX_REDIRECTS :: nat where "FETCH_MAX_REDIRECTS = 5"

datatype redirect_error = TooManyRedirects | RedirectBlocked url_error

text \<open>The custom redirect policy: the URLs requested so far, the first included, and the next.\<close>

definition redirect_policy :: "url list \<Rightarrow> url \<Rightarrow> (redirect_error, unit) outcome" where
  "redirect_policy previous u =
     (if FETCH_MAX_REDIRECTS \<le> length previous then Err TooManyRedirects
      else case url_host u of
        Some h \<Rightarrow> map_err RedirectBlocked (check_host h)
      | None \<Rightarrow> Err (RedirectBlocked HostMissing))"

record http_response =
  hr_status :: nat
  hr_content_type :: "string option"
  hr_bytes :: string

record web =
  web_get :: "url \<Rightarrow> string + http_response"
  web_convert :: "string \<Rightarrow> string option"

text \<open>\<open>String::from_utf8_lossy\<close>: each maximal prefix of an ill-formed sequence becomes one replacement character. \<open>scan\<close>
  gives whether the text starts with a character, and how many bytes it or the ill-formed prefix takes.\<close>

definition byte_in :: "nat \<Rightarrow> nat \<Rightarrow> string \<Rightarrow> nat \<Rightarrow> bool" where
  "byte_in lo hi s i \<longleftrightarrow> i < length s \<and> lo \<le> byte (s ! i) \<and> byte (s ! i) \<le> hi"

definition second_ok :: "string \<Rightarrow> bool" where
  "second_ok s =
     (let b = byte (s ! 0) in
      if b = 0xE0 then byte_in 0xA0 0xBF s 1
      else if b = 0xED then byte_in 0x80 0x9F s 1
      else if b = 0xF0 then byte_in 0x90 0xBF s 1
      else if b = 0xF4 then byte_in 0x80 0x8F s 1
      else byte_in 0x80 0xBF s 1)"

definition scan :: "string \<Rightarrow> bool \<times> nat" where
  "scan s =
     (let b = byte (s ! 0) in
      if b < 0x80 then (True, 1)
      else if b < 0xC2 \<or> 0xF4 < b then (False, 1)
      else if \<not> second_ok s then (False, 1)
      else if b < 0xE0 then (True, 2)
      else if \<not> byte_in 0x80 0xBF s 2 then (False, 2)
      else if b < 0xF0 then (True, 3)
      else if \<not> byte_in 0x80 0xBF s 3 then (False, 3)
      else (True, 4))"

definition REPLACEMENT :: string where
  "REPLACEMENT = map char_of [0xEF :: nat, 0xBF, 0xBD]"

function from_utf8_lossy :: "string \<Rightarrow> string" where
  "from_utf8_lossy s =
     (if s = [] then []
      else case scan s of (ok, n) \<Rightarrow> (if ok then take n s else REPLACEMENT) @ from_utf8_lossy (drop n s))"
  by pat_completeness auto
termination
  by (relation "measure length") (auto simp: scan_def Let_def split: if_splits)

declare from_utf8_lossy.simps [simp del]

definition HTML_MIME_PREFIXES :: "string list" where
  "HTML_MIME_PREFIXES = [''text/html'', ''application/xhtml+xml'']"

definition is_html :: "string option \<Rightarrow> bool" where
  "is_html content_type =
     (case content_type of
        None \<Rightarrow> False
      | Some ct \<Rightarrow> ascii_lower (trim (takeWhile (\<lambda>c. c \<noteq> CHR '';'') ct)) \<in> set HTML_MIME_PREFIXES)"

definition maybe_html_to_markdown :: "web \<Rightarrow> string option \<Rightarrow> string \<Rightarrow> string" where
  "maybe_html_to_markdown w content_type raw =
     (if \<not> is_html content_type then raw
      else case web_convert w raw of Some md \<Rightarrow> md | None \<Rightarrow> raw)"

datatype fetch_error = DisallowedUrl url_error | HttpError string | Upstream (up_status: nat) (up_body: string)

definition web_fetch_execute :: "(string \<Rightarrow> string + url) \<Rightarrow> web \<Rightarrow> string \<Rightarrow> (fetch_error, string) outcome" where
  "web_fetch_execute parse w raw_url =
     and_then (map_err DisallowedUrl (fetch_url_try_from parse raw_url)) (\<lambda>u.
       case web_get w u of
         Inl e \<Rightarrow> Err (HttpError e)
       | Inr r \<Rightarrow>
           (let bytes = hr_bytes r;
                n = min (length bytes) FETCH_MAX_BODY_BYTES;
                raw = from_utf8_lossy (take n bytes) in
            if \<not> (200 \<le> hr_status r \<and> hr_status r < 300) then Err (Upstream (hr_status r) raw)
            else
              (let body = maybe_html_to_markdown w (hr_content_type r) raw in
               if FETCH_MAX_BODY_BYTES < length bytes
               then Ok (body @ [CHR 10, CHR 10] @ ''[truncated to '' @ show_nat FETCH_MAX_BODY_BYTES @ '' bytes of '' @
                        show_nat (length bytes) @ '' total]'')
               else Ok body)))"

section \<open>The guard as address blocks\<close>

text \<open>A reference: an address is a number, a block a base address and a prefix length.\<close>

fun addr6 :: "ipv6 \<Rightarrow> nat" where
  "addr6 (V6 s0 s1 s2 s3 s4 s5 s6 s7) =
     ((((((unat s0 * 65536 + unat s1) * 65536 + unat s2) * 65536 + unat s3) * 65536 + unat s4) * 65536 + unat s5) * 65536 +
      unat s6) * 65536 + unat s7"

definition in_block :: "nat \<Rightarrow> nat \<Rightarrow> nat \<times> nat \<Rightarrow> bool" where
  "in_block width addr = (\<lambda>(base, len). addr div 2 ^ (width - len) = base div 2 ^ (width - len))"

definition dotted :: "nat \<Rightarrow> nat \<Rightarrow> nat \<Rightarrow> nat \<Rightarrow> nat" where
  "dotted a b c d = ((a * 256 + b) * 256 + c) * 256 + d"

fun addr4 :: "ipv4 \<Rightarrow> nat" where
  "addr4 (V4 a b c d) = dotted (unat a) (unat b) (unat c) (unat d)"

definition private_blocks :: "(nat \<times> nat) list" where
  "private_blocks = [(dotted 127 0 0 0, 8), (dotted 10 0 0 0, 8), (dotted 172 16 0 0, 12), (dotted 192 168 0 0, 16),
     (dotted 169 254 0 0, 16), (dotted 0 0 0 0, 32)]"

definition v4_blocks :: "(nat \<times> nat) list" where
  "v4_blocks = private_blocks @ [(dotted 255 255 255 255, 32), (dotted 224 0 0 0, 4), (dotted 192 0 2 0, 24),
     (dotted 198 51 100 0, 24), (dotted 203 0 113 0, 24)]"

definition native_blocks :: "(nat \<times> nat) list" where
  "native_blocks = [(1, 128), (0, 128), (0xff00 * 2 ^ 112, 8), (0xfc00 * 2 ^ 112, 7), (0xfe80 * 2 ^ 112, 10)]"

text \<open>\<open>::ffff:0:0/96\<close>, the IPv4 addresses as IPv6 addresses, and its part over the first six blocks.\<close>

definition mapped_net :: "nat \<times> nat" where
  "mapped_net = (0xffff * 2 ^ 32, 96)"

definition mapped_private_blocks :: "(nat \<times> nat) list" where
  "mapped_private_blocks = map (\<lambda>(base, len). (0xffff * 2 ^ 32 + base, 96 + len)) private_blocks"

text \<open>Octets and segments as numbers.\<close>

lemma octet_bound: "unat (a :: 8 word) < 256"
  using unsigned_less [of a, where ?'a = nat] by simp

lemma segment_bound: "unat (s :: 16 word) < 65536"
  using unsigned_less [of s, where ?'a = nat] by simp

lemma word_eq_unat: "a = b \<longleftrightarrow> unat a = unat b" for a b :: "'a::len word"
  by (rule word_eq_iff_unsigned)

lemma unat_high:
  fixes s :: "'a::len word"
  shows "unat (s AND NOT (mask n)) = unat s div 2 ^ n * 2 ^ n"
proof -
  have "s AND NOT (mask n) = push_bit n (drop_bit n s)"
    by (rule bit_eqI) (auto simp: bit_simps)
  also have "\<dots> = s - take_bit n s" using bits_ident [of n s] by (metis add_diff_cancel_right')
  finally have eq: "s AND NOT (mask n) = s - take_bit n s" .
  have "unat (take_bit n s) = unat s mod 2 ^ n" by (simp only: unsigned_take_bit_eq) (simp add: take_bit_eq_mod)
  then show ?thesis unfolding eq by (subst unat_sub) (simp_all add: word_le_nat_alt minus_mod_eq_div_mult)
qed

lemma masked_eq_iff:
  fixes s m v :: "16 word"
  assumes "m = NOT (mask n)" and "unat v = k * 2 ^ n"
  shows "s AND m = v \<longleftrightarrow> unat s div 2 ^ n = k"
  unfolding word_eq_unat assms unat_high by simp

lemma mask_ff00: "(s :: 16 word) AND 0xff00 = 0xff00 \<longleftrightarrow> unat s div 256 = 255"
  using masked_eq_iff [of "0xff00" 8 "0xff00" 255 s] by (simp add: mask_eq_exp_minus_1)

lemma mask_fe00: "(s :: 16 word) AND 0xfe00 = 0xfc00 \<longleftrightarrow> unat s div 512 = 126"
  using masked_eq_iff [of "0xfe00" 9 "0xfc00" 126 s] by (simp add: mask_eq_exp_minus_1)

lemma mask_ffc0: "(s :: 16 word) AND 0xffc0 = 0xfe80 \<longleftrightarrow> unat s div 64 = 1018"
  using masked_eq_iff [of "0xffc0" 6 "0xfe80" 1018 s] by (simp add: mask_eq_exp_minus_1)

lemma high_octet: "unat (ucast (drop_bit 8 s) :: 8 word) = unat (s :: 16 word) div 256"
proof -
  have "unat (drop_bit 8 s) = unat s div 256" by (simp only: unsigned_drop_bit_eq) (use segment_bound [of s] in \<open>simp add: drop_bit_eq_div take_bit_eq_mod\<close>)
  then show ?thesis using segment_bound [of s] by (simp only: unsigned_ucast_eq) (simp add: take_bit_eq_mod)
qed

lemma low_octet: "unat (ucast s :: 8 word) = unat (s :: 16 word) mod 256"
  by (simp add: unsigned_ucast_eq take_bit_eq_mod)

lemma digit_div: "d < B \<Longrightarrow> (x * B + d) div B = x" for d B x :: nat
  by simp

lemma digits_eq_iff: "d < B \<Longrightarrow> e < B \<Longrightarrow> x * B + d = y * B + e \<longleftrightarrow> x = y \<and> d = e" for d e B x y :: nat
  by (metis digit_div add_left_cancel)

lemma dotted_div:
  assumes "b < 256" "c < 256" "d < 256"
  shows "dotted a b c d div 2 ^ 8 = (a * 256 + b) * 256 + c" and "dotted a b c d div 2 ^ 16 = a * 256 + b"
    and "dotted a b c d div 2 ^ 24 = a" and "dotted a b c d div 2 ^ 20 = (a * 256 + b) div 16" and "dotted a b c d div 2 ^ 28 = a div 16"
proof -
  let ?n = "dotted a b c d"
  have 8: "?n div 256 = (a * 256 + b) * 256 + c" using assms by (simp only: dotted_def digit_div)
  have 16: "?n div 256 div 256 = a * 256 + b" unfolding 8 using assms by (simp only: digit_div)
  have 24: "?n div 256 div 256 div 256 = a" unfolding 16 using assms by (simp only: digit_div)
  have pows: "(2 :: nat) ^ 16 = 256 * 256" "(2 :: nat) ^ 24 = 256 * 256 * 256" "(2 :: nat) ^ 20 = 256 * 256 * 16"
    "(2 :: nat) ^ 28 = 256 * 256 * 256 * 16" by simp_all
  show "?n div 2 ^ 8 = (a * 256 + b) * 256 + c" using 8 by simp
  show "?n div 2 ^ 16 = a * 256 + b" "?n div 2 ^ 24 = a" "?n div 2 ^ 20 = (a * 256 + b) div 16" "?n div 2 ^ 28 = a div 16"
    unfolding pows div_mult2_eq 24 unfolding 16 by simp_all
qed

lemma tens_eq_iff: "b < 256 \<Longrightarrow> (a * 256 + b) div 16 = 2753 \<longleftrightarrow> a = 172 \<and> 16 \<le> b \<and> b \<le> 31" for a b :: nat
proof -
  assume b: "b < 256"
  have "(a * 256 + b) div 16 = a * 16 + b div 16" by simp
  moreover have "a * 16 + b div 16 = 172 * 16 + 1 \<longleftrightarrow> a = 172 \<and> b div 16 = 1" using b by (intro digits_eq_iff) auto
  ultimately show ?thesis by auto
qed

lemma in_block_simps:
  "in_block 32 n (base, 8) \<longleftrightarrow> n div 2 ^ 24 = base div 2 ^ 24" "in_block 32 n (base, 16) \<longleftrightarrow> n div 2 ^ 16 = base div 2 ^ 16"
  "in_block 32 n (base, 24) \<longleftrightarrow> n div 2 ^ 8 = base div 2 ^ 8" "in_block 32 n (base, 32) \<longleftrightarrow> n = base"
  "in_block 32 n (base, 12) \<longleftrightarrow> n div 2 ^ 20 = base div 2 ^ 20" "in_block 32 n (base, 4) \<longleftrightarrow> n div 2 ^ 28 = base div 2 ^ 28"
  by (simp_all add: in_block_def)

lemma private_blocks_iff:
  assumes "a < 256" "b < 256" "c < 256" "d < 256"
  shows "list_ex (in_block 32 (dotted a b c d)) private_blocks \<longleftrightarrow> a = 127 \<or> a = 10 \<or> a = 172 \<and> 16 \<le> b \<and> b \<le> 31 \<or>
    a = 192 \<and> b = 168 \<or> a = 169 \<and> b = 254 \<or> a = 0 \<and> b = 0 \<and> c = 0 \<and> d = 0"
proof -
  have "dotted a b c d = dotted 0 0 0 0 \<longleftrightarrow> a = 0 \<and> b = 0 \<and> c = 0 \<and> d = 0" by (simp add: dotted_def)
  moreover have "a * 256 + b = 49320 \<longleftrightarrow> a = 192 \<and> b = 168" "a * 256 + b = 43518 \<longleftrightarrow> a = 169 \<and> b = 254"
    using digits_eq_iff [of b 256 168 a 192] digits_eq_iff [of b 256 254 a 169] assms(2) by simp_all
  ultimately show ?thesis
    unfolding private_blocks_def by (simp add: in_block_simps dotted_div assms tens_eq_iff del: power_numeral)
qed

lemma triple_eq_iff:
  fixes a b c k l m :: nat
  assumes "b < 256" "c < 256" "l < 256" "m < 256"
  shows "(a * 256 + b) * 256 + c = (k * 256 + l) * 256 + m \<longleftrightarrow> a = k \<and> b = l \<and> c = m"
  using digits_eq_iff [OF assms(2,4), of "a * 256 + b" "k * 256 + l"] digits_eq_iff [OF assms(1,3), of a k] by simp

lemma v4_blocks_iff:
  assumes "a < 256" "b < 256" "c < 256" "d < 256"
  shows "list_ex (in_block 32 (dotted a b c d)) v4_blocks \<longleftrightarrow> list_ex (in_block 32 (dotted a b c d)) private_blocks \<or>
    a = 255 \<and> b = 255 \<and> c = 255 \<and> d = 255 \<or> 224 \<le> a \<and> a \<le> 239 \<or> a = 192 \<and> b = 0 \<and> c = 2 \<or>
    a = 198 \<and> b = 51 \<and> c = 100 \<or> a = 203 \<and> b = 0 \<and> c = 113"
proof -
  have "dotted a b c d = dotted 255 255 255 255 \<longleftrightarrow> a = 255 \<and> b = 255 \<and> c = 255 \<and> d = 255"
    unfolding dotted_def using digits_eq_iff [of d 256 255 "(a * 256 + b) * 256 + c" "(255 * 256 + 255) * 256 + 255"]
      triple_eq_iff [of b c 255 255 a 255] assms by simp
  moreover have "(a * 256 + b) * 256 + c = 12582914 \<longleftrightarrow> a = 192 \<and> b = 0 \<and> c = 2"
    "(a * 256 + b) * 256 + c = 12989284 \<longleftrightarrow> a = 198 \<and> b = 51 \<and> c = 100"
    "(a * 256 + b) * 256 + c = 13303921 \<longleftrightarrow> a = 203 \<and> b = 0 \<and> c = 113"
    using triple_eq_iff [of b c 0 2 a 192] triple_eq_iff [of b c 51 100 a 198] triple_eq_iff [of b c 0 113 a 203] assms by simp_all
  moreover have "a div 16 = 14 \<longleftrightarrow> 224 \<le> a \<and> a \<le> 239" by auto
  ultimately show ?thesis
    unfolding v4_blocks_def list_ex_append by (simp add: in_block_simps dotted_div assms del: power_numeral)
qed

lemma mapped_blocked_iff: "mapped_blocked v \<longleftrightarrow> list_ex (in_block 32 (addr4 v)) private_blocks"
proof (cases v)
  case (V4 a b c d)
  show ?thesis
    unfolding V4 addr4.simps private_blocks_iff [OF octet_bound octet_bound octet_bound octet_bound] mapped_blocked_def
      is_loopback.simps is_private.simps is_link_local.simps is_unspecified.simps ipv4.inject word_eq_unat word_le_nat_alt
    by simp blast
qed

lemma v4_blocked_iff: "v4_blocked v \<longleftrightarrow> list_ex (in_block 32 (addr4 v)) v4_blocks"
proof (cases v)
  case (V4 a b c d)
  have "v4_blocked v \<longleftrightarrow> mapped_blocked v \<or> is_broadcast v \<or> is_multicast v \<or> is_documentation v"
    unfolding v4_blocked_def mapped_blocked_def by blast
  then show ?thesis
    unfolding mapped_blocked_iff V4 addr4.simps v4_blocks_iff [OF octet_bound octet_bound octet_bound octet_bound]
      is_broadcast.simps is_multicast.simps is_documentation.simps ipv4.inject word_eq_unat word_le_nat_alt
    by simp
qed

lemma mapped_block:
  assumes "lo < 2 ^ 32" "base < 2 ^ 32" "len \<le> 32"
  shows "in_block 128 (hi * 2 ^ 32 + lo) (h * 2 ^ 32 + base, 96 + len) \<longleftrightarrow> hi = h \<and> in_block 32 lo (base, len)"
proof -
  define j where "j = 32 - len"
  have width: "128 - (96 + len) = j" "32 = len + j" using assms(3) by (simp_all add: j_def)
  have split: "(x * 2 ^ 32 + y) div 2 ^ j = x * 2 ^ len + y div 2 ^ j" for x y :: nat
  proof -
    have "(x * 2 ^ 32 + y) div 2 ^ j = (x * 2 ^ len * 2 ^ j + y) div 2 ^ j" unfolding width(2) by (simp add: power_add mult.assoc)
    then show ?thesis by simp
  qed
  have small: "y div 2 ^ j < 2 ^ len" if "y < 2 ^ 32" for y :: nat
    using that unfolding width(2) power_add by (simp add: less_mult_imp_div_less)
  show ?thesis
    unfolding in_block_def prod.case width(1) split j_def [symmetric]
    by (rule digits_eq_iff [OF small [OF assms(1)] small [OF assms(2)]])
qed

lemma high_blocks_iff:
  assumes "rest < 2 ^ 112"
  shows "in_block 128 (s * 2 ^ 112 + rest) (0xff00 * 2 ^ 112, 8) \<longleftrightarrow> s div 256 = 255"
    "in_block 128 (s * 2 ^ 112 + rest) (0xfc00 * 2 ^ 112, 7) \<longleftrightarrow> s div 512 = 126"
    "in_block 128 (s * 2 ^ 112 + rest) (0xfe80 * 2 ^ 112, 10) \<longleftrightarrow> s div 64 = 1018"
proof -
  have split: "(x * 2 ^ 112 + rest) div 2 ^ (112 + j) = x div 2 ^ j" for x j
    unfolding power_add div_mult2_eq by (simp only: digit_div [OF assms])
  have "in_block 128 (s * 2 ^ 112 + rest) (k * 2 ^ 112, 16 - j) \<longleftrightarrow> s div 2 ^ j = k div 2 ^ j" if "j \<le> 16" for k j
  proof -
    have "128 - (16 - j) = 112 + j" using that by simp
    moreover have "k * 2 ^ 112 div 2 ^ (112 + j) = k div 2 ^ j" unfolding power_add div_mult2_eq by simp
    ultimately show ?thesis unfolding in_block_def prod.case by (simp only: split)
  qed
  from this [of 8 "0xff00"] this [of 9 "0xfc00"] this [of 6 "0xfe80"]
  show "in_block 128 (s * 2 ^ 112 + rest) (0xff00 * 2 ^ 112, 8) \<longleftrightarrow> s div 256 = 255"
    "in_block 128 (s * 2 ^ 112 + rest) (0xfc00 * 2 ^ 112, 7) \<longleftrightarrow> s div 512 = 126"
    "in_block 128 (s * 2 ^ 112 + rest) (0xfe80 * 2 ^ 112, 10) \<longleftrightarrow> s div 64 = 1018" by simp_all
qed

lemma mapped_blocks_iff:
  assumes "lo < 2 ^ 32" "list_all (\<lambda>(base, len). base < 2 ^ 32 \<and> len \<le> 32) nets"
  shows "list_ex (in_block 128 (hi * 2 ^ 32 + lo)) (map (\<lambda>(base, len). (h * 2 ^ 32 + base, 96 + len)) nets) \<longleftrightarrow>
    hi = h \<and> list_ex (in_block 32 lo) nets"
  using assms(2)
proof (induction nets)
  case (Cons net nets)
  then show ?case using mapped_block [OF assms(1)] by (cases net) (auto simp del: power_numeral)
qed simp

lemma private_blocks_small: "list_all (\<lambda>(base, len). base < 2 ^ 32 \<and> len \<le> 32) private_blocks"
  by (simp add: private_blocks_def dotted_def)

lemma mapped_private_in_net:
  assumes "list_ex (in_block 128 n) mapped_private_blocks"
  shows "in_block 128 n mapped_net"
proof -
  let ?hi = "n div 2 ^ 32" and ?lo = "n mod 2 ^ 32"
  have n: "n = ?hi * 2 ^ 32 + ?lo" and lo: "?lo < 2 ^ 32" by (simp_all only: div_mult_mod_eq mod_less_divisor zero_less_power zero_less_numeral)
  have "?hi = 0xffff"
    using assms mapped_blocks_iff [OF lo private_blocks_small, of ?hi "0xffff"] n unfolding mapped_private_blocks_def by metis
  moreover have "in_block 32 ?lo (0, 0)" using lo by (simp add: in_block_def)
  ultimately have "in_block 128 (?hi * 2 ^ 32 + ?lo) (0xffff * 2 ^ 32 + 0, 96 + 0)"
    using mapped_block [OF lo, of 0 0 ?hi "0xffff"] by simp
  then show ?thesis using n unfolding mapped_net_def by simp
qed

lemma v6_blocked_iff: "v6_blocked v \<longleftrightarrow> list_ex (in_block 128 (addr6 v)) (native_blocks @ mapped_private_blocks)"
proof (cases v)
  case (V6 s0 s1 s2 s3 s4 s5 s6 s7)
  note bounds = segment_bound [of s0] segment_bound [of s1] segment_bound [of s2] segment_bound [of s3] segment_bound [of s4]
    segment_bound [of s5] segment_bound [of s6] segment_bound [of s7]
  define hi where "hi = ((((unat s0 * 65536 + unat s1) * 65536 + unat s2) * 65536 + unat s3) * 65536 + unat s4) * 65536 + unat s5"
  define lo where "lo = unat s6 * 65536 + unat s7"
  define rest where "rest = (((((unat s1 * 65536 + unat s2) * 65536 + unat s3) * 65536 + unat s4) * 65536 + unat s5) * 65536 + unat s6) * 65536 + unat s7"
  define m where "m = V4 (ucast (drop_bit 8 s6)) (ucast s6) (ucast (drop_bit 8 s7)) (ucast s7)"
  have addr: "addr6 v = hi * 2 ^ 32 + lo" "addr6 v = unat s0 * 2 ^ 112 + rest" by (simp_all add: V6 hi_def lo_def rest_def)
  have lo: "lo < 2 ^ 32" "rest < 2 ^ 112" using bounds unfolding lo_def rest_def by simp_all
  have m: "addr4 m = lo"
    using div_mult_mod_eq [of "unat s6" 256] div_mult_mod_eq [of "unat s7" 256]
    unfolding m_def lo_def addr4.simps high_octet unfolding low_octet dotted_def by (simp add: algebra_simps)
  have hi: "hi = 0xffff \<longleftrightarrow> s0 = 0 \<and> s1 = 0 \<and> s2 = 0 \<and> s3 = 0 \<and> s4 = 0 \<and> s5 = 0xffff"
  proof -
    define top where "top = (((unat s0 * 65536 + unat s1) * 65536 + unat s2) * 65536 + unat s3) * 65536 + unat s4"
    have "hi = 0 * 65536 + 65535 \<longleftrightarrow> top = 0 \<and> unat s5 = 65535"
      unfolding hi_def top_def [symmetric] by (rule digits_eq_iff) (use bounds in simp_all)
    moreover have "top = 0 \<longleftrightarrow> s0 = 0 \<and> s1 = 0 \<and> s2 = 0 \<and> s3 = 0 \<and> s4 = 0" by (simp add: top_def unat_eq_0)
    moreover have "s5 = 0xffff \<longleftrightarrow> unat s5 = 65535" unfolding word_eq_unat by simp
    ultimately show ?thesis by simp
  qed
  have zero: "addr6 v = 0 \<longleftrightarrow> v = V6 0 0 0 0 0 0 0 0" by (simp add: V6 unat_eq_0)
  have one: "addr6 v = 1 \<longleftrightarrow> v = V6 0 0 0 0 0 0 0 1"
  proof -
    have "addr6 v = 0 * 65536 + 1 \<longleftrightarrow> (hi * 65536 + unat s6 = 0) \<and> unat s7 = 1"
      unfolding V6 addr6.simps hi_def by (rule digits_eq_iff) (use bounds in simp_all)
    moreover have "hi * 65536 + unat s6 = 0 \<longleftrightarrow> s0 = 0 \<and> s1 = 0 \<and> s2 = 0 \<and> s3 = 0 \<and> s4 = 0 \<and> s5 = 0 \<and> s6 = 0"
      by (simp add: hi_def unat_eq_0)
    moreover have "s7 = 1 \<longleftrightarrow> unat s7 = 1" unfolding word_eq_unat by simp
    ultimately show ?thesis unfolding V6 ipv6.inject by (simp only: mult_0 add_0_left) blast
  qed
  have small: "in_block 128 n (k, 128) \<longleftrightarrow> n = k" for n k by (simp add: in_block_def)
  have high: "in_block 128 (addr6 v) (0xff00 * 2 ^ 112, 8) \<longleftrightarrow> s0 AND 0xff00 = 0xff00"
    "in_block 128 (addr6 v) (0xfc00 * 2 ^ 112, 7) \<longleftrightarrow> s0 AND 0xfe00 = 0xfc00"
    "in_block 128 (addr6 v) (0xfe80 * 2 ^ 112, 10) \<longleftrightarrow> s0 AND 0xffc0 = 0xfe80"
    unfolding addr(2) mask_ff00 mask_fe00 mask_ffc0 by (simp_all only: high_blocks_iff [OF lo(2)])
  have mapped: "list_ex (in_block 128 (addr6 v)) (map (\<lambda>(base, len). (0xffff * 2 ^ 32 + base, 96 + len)) private_blocks) \<longleftrightarrow>
      (case to_ipv4_mapped v of None \<Rightarrow> False | Some x \<Rightarrow> mapped_blocked x)"
    unfolding addr(1) mapped_blocks_iff [OF lo(1) private_blocks_small] hi unfolding V6 to_ipv4_mapped.simps m_def [symmetric]
    by (auto simp: mapped_blocked_iff m)
  have "list_ex (in_block 128 (addr6 v)) (native_blocks @ mapped_private_blocks) \<longleftrightarrow> v = V6 0 0 0 0 0 0 0 1 \<or> v = V6 0 0 0 0 0 0 0 0 \<or>
      s0 AND 0xff00 = 0xff00 \<or> s0 AND 0xfe00 = 0xfc00 \<or> s0 AND 0xffc0 = 0xfe80 \<or>
      (case to_ipv4_mapped v of None \<Rightarrow> False | Some x \<Rightarrow> mapped_blocked x)"
    unfolding native_blocks_def mapped_private_blocks_def list_ex_append mapped by (simp only: list_ex_Nil_iff list_ex_Cons_iff small zero one high simp_thms disj_assoc)
  then show ?thesis unfolding V6 v6_blocked.simps by blast
qed

text \<open>C27. The guard on literal addresses is exact where it does not look through a mapping. An IPv4 host is refused iff it lies in one of
  eleven blocks: loopback, the three private ones, link-local, the unspecified and broadcast addresses, multicast, three documentation
  nets. An IPv6 host outside \<open>::ffff:0:0/96\<close> is refused iff it is unspecified, loopback, multicast, unique-local or link-local. And a host
  that maps a loopback, private, link-local or unspecified IPv4 address is refused.\<close>

theorem ip_guard_exact:
  "(check_host (Ipv4 v4) = Ok () \<longleftrightarrow> \<not> list_ex (in_block 32 (addr4 v4)) v4_blocks) \<and>
   (\<not> in_block 128 (addr6 v6) mapped_net \<longrightarrow>
     (check_host (Ipv6 v6) = Ok () \<longleftrightarrow> \<not> list_ex (in_block 128 (addr6 v6)) native_blocks)) \<and>
   (list_ex (in_block 128 (addr6 v6)) mapped_private_blocks \<longrightarrow> check_host (Ipv6 v6) \<noteq> Ok ())"
  using mapped_private_in_net [of "addr6 v6"] by (auto simp: check_host_def check_ip_def v4_blocked_iff v6_blocked_iff)

theorem ip_guard_exact_witness:
  "check_host (Ipv6 (V6 0x2606 0x4700 0 0 0 0 0 0x1111)) = Ok () \<and> check_host (Ipv6 (V6 0xfe80 0 0 0 0 0 0 1)) \<noteq> Ok () \<and>
   check_host (Ipv6 (V6 0 0 0 0 0 0xffff 0x7f00 1)) \<noteq> Ok ()"
proof -
  have "\<not> in_block 128 (addr6 (V6 0x2606 0x4700 0 0 0 0 0 0x1111)) mapped_net"
    "\<not> list_ex (in_block 128 (addr6 (V6 0x2606 0x4700 0 0 0 0 0 0x1111))) native_blocks"
    "\<not> in_block 128 (addr6 (V6 0xfe80 0 0 0 0 0 0 1)) mapped_net"
    "list_ex (in_block 128 (addr6 (V6 0xfe80 0 0 0 0 0 0 1))) native_blocks"
    "list_ex (in_block 128 (addr6 (V6 0 0 0 0 0 0xffff 0x7f00 1))) mapped_private_blocks"
    by (simp_all add: in_block_def mapped_net_def native_blocks_def mapped_private_blocks_def private_blocks_def dotted_def)
  with ip_guard_exact show ?thesis by blast
qed

text \<open>Two gaps. The comment in the code says that the embedded IPv4 address is checked again, yet that second check leaves out broadcast,
  multicast and documentation: the mapped form of such an address passes. And a name with the trailing dot of an
  absolute domain name is no listed name.\<close>

lemma guard_gaps:
  "check_host (Ipv4 (V4 224 0 0 1)) \<noteq> Ok () \<and> check_host (Ipv6 (V6 0 0 0 0 0 0xffff 0xe000 1)) = Ok () \<and>
   check_host (Domain ''localhost'') \<noteq> Ok () \<and> check_host (Domain ''localhost.'') = Ok ()"
  by code_simp

section \<open>Redirects stay outside\<close>

text \<open>What the HTTP client does with the policy: the URLs it requests, in order, each after the first approved by the policy given the
  earlier ones, and all of them https.\<close>

definition client_trace :: "url list \<Rightarrow> bool" where
  "client_trace us \<longleftrightarrow> (\<forall>i < length us. 0 < i \<longrightarrow> redirect_policy (take i us) (us ! i) = Ok () \<and> url_scheme (us ! i) = ''https'')"

definition public_url :: "url \<Rightarrow> bool" where
  "public_url u \<longleftrightarrow> url_scheme u = ''https'' \<and> (\<exists>h. url_host u = Some h \<and> check_host h = Ok ())"

lemma fetch_url_public: "fetch_url_try_from parse raw = Ok u \<Longrightarrow> public_url u"
  by (auto simp: fetch_url_try_from_def public_url_def split: if_splits sum.splits option.splits)

lemma redirect_policy_Ok: "redirect_policy previous u = Ok () \<Longrightarrow> length previous < FETCH_MAX_REDIRECTS \<and> (\<exists>h. url_host u = Some h \<and> check_host h = Ok ())"
  by (auto simp: redirect_policy_def split: if_splits option.splits)

text \<open>C28. A fetch never leaves the public web through a redirect: whatever servers answer, every URL the client requests is https and has a
  host the guard accepts, and at most FETCH_MAX_REDIRECTS requests are made.\<close>

theorem redirects_stay_public:
  assumes "fetch_url_try_from parse raw = Ok u" and "client_trace (u # us)"
  shows "list_all public_url (u # us) \<and> length (u # us) \<le> FETCH_MAX_REDIRECTS"
proof
  have hop: "redirect_policy (take i (u # us)) ((u # us) ! i) = Ok () \<and> url_scheme ((u # us) ! i) = ''https''" if "0 < i" "i < length (u # us)" for i
    using assms(2) that unfolding client_trace_def by blast
  have "\<forall>i < length (u # us). public_url ((u # us) ! i)"
  proof (intro allI impI)
    fix i
    assume that: "i < length (u # us)"
    show "public_url ((u # us) ! i)"
    proof (cases "i = 0")
      case False
      then show ?thesis using hop [of i] that redirect_policy_Ok [of "take i (u # us)" "(u # us) ! i"] by (auto simp: public_url_def)
    qed (use fetch_url_public [OF assms(1)] in simp)
  qed
  then show "list_all public_url (u # us)" by (simp only: list_all_length simp_thms)
  show "length (u # us) \<le> FETCH_MAX_REDIRECTS"
  proof (cases us)
    case (Cons v vs)
    have "length (take (length us) (u # us)) < FETCH_MAX_REDIRECTS" using redirect_policy_Ok [OF conjunct1 [OF hop [of "length us"]]] Cons by simp
    then show ?thesis by simp
  qed (simp add: FETCH_MAX_REDIRECTS_def)
qed

section \<open>The text handed to the model\<close>

lemma second_ok_cont: "second_ok s \<Longrightarrow> 1 < length s \<and> is_cont (s ! 1)"
  by (auto simp: second_ok_def byte_in_def is_cont_def Let_def split: if_splits)

lemma byte_in_cont: "byte_in 128 191 s i \<Longrightarrow> i < length s \<and> is_cont (s ! i)"
  by (simp add: byte_in_def is_cont_def)

text \<open>The bytes a character or an ill-formed prefix takes after its first are continuation bytes.\<close>

lemma scan_shape:
  assumes "s \<noteq> []" and "scan s = (ok, n)"
  shows "0 < n \<and> n \<le> length s \<and> (\<forall>i. 0 < i \<and> i < n \<longrightarrow> is_cont (s ! i)) \<and> (ok \<longrightarrow> seq_len (s ! 0) = n)"
proof -
  note sc = assms(2) [unfolded scan_def Let_def]
  have n: "0 < n" "n \<le> 4" using sc by (auto split: if_splits)
  have two: "2 \<le> n \<Longrightarrow> second_ok s" using sc by (auto split: if_splits)
  have three: "3 \<le> n \<Longrightarrow> byte_in 128 191 s 2" using sc by (auto split: if_splits)
  have four: "4 \<le> n \<Longrightarrow> byte_in 128 191 s 3" using sc by (auto split: if_splits)
  have "ok \<longrightarrow> seq_len (s ! 0) = n" using sc by (auto simp: seq_len_def split: if_splits)
  moreover have "is_cont (s ! i) \<and> i < length s" if "0 < i" "i < n" for i
  proof -
    have "i = 1 \<or> i = 2 \<or> i = 3" using that n by auto
    then show ?thesis using that second_ok_cont [OF two] byte_in_cont [OF three] byte_in_cont [OF four] by auto
  qed
  moreover have "n \<le> length s" using calculation(2) [of "n - 1"] n(1) assms(1) by (cases "n = 1") (auto simp: Suc_le_eq)
  ultimately show ?thesis using n by blast
qed

lemma conts_after_lead:
  assumes "n \<le> length s" and "\<And>i. 0 < i \<Longrightarrow> i < n \<Longrightarrow> is_cont (s ! i)"
  shows "list_all is_cont (take (n - 1) (tl s))"
  unfolding list_all_length using assms by (simp add: nth_tl)

lemma utf8_shape_append: "utf8_shape xs \<Longrightarrow> utf8_shape ys \<Longrightarrow> utf8_shape (xs @ ys)"
  by (induction xs rule: utf8_shape.induct) auto

lemma lossy_utf8: "utf8_shape (from_utf8_lossy s) \<and> length (from_utf8_lossy s) \<le> 3 * length s"
proof (induction s rule: from_utf8_lossy.induct)
  case (1 s)
  show ?case
  proof (cases "s = []")
    case False
    obtain ok n where scan: "scan s = (ok, n)" by fastforce
    note shape = scan_shape [OF False scan]
    have step: "from_utf8_lossy s = (if ok then take n s else REPLACEMENT) @ from_utf8_lossy (drop n s)"
      using False by (subst from_utf8_lossy.simps) (simp add: scan)
    have ih: "utf8_shape (from_utf8_lossy (drop n s))" "length (from_utf8_lossy (drop n s)) \<le> 3 * (length s - n)"
      using 1 [OF False scan [symmetric]] by simp_all
    have "utf8_shape (take n s)" if ok
    proof -
      obtain b bs where s: "s = b # bs" using False by (cases s) auto
      have "list_all is_cont (take (n - 1) bs)" using conts_after_lead [of n s] shape by (simp add: s)
      then show ?thesis using shape that by (cases n) (auto simp: s)
    qed
    moreover have "utf8_shape REPLACEMENT" "length REPLACEMENT = 3" by code_simp+
    ultimately have "utf8_shape (if ok then take n s else REPLACEMENT)" "length (if ok then take n s else REPLACEMENT) \<le> 3 * n"
      using shape by auto
    then show ?thesis using ih shape unfolding step by (auto intro!: utf8_shape_append simp del: length_append simp: length_append)
  qed (simp add: from_utf8_lossy.simps)
qed

lemma ascii_utf8: "list_all (\<lambda>c. byte c < 128) s \<Longrightarrow> utf8_shape s"
  by (induction s) (auto simp: seq_len_def)

lemma show_nat_ascii: "list_all (\<lambda>c. byte c < 128) (show_nat n)"
proof (induction n rule: show_nat.induct)
  case (1 n)
  have "byte (digit k) < 128" if "k < 10" for k using that by (simp add: digit_def)
  then show ?case using 1 by (cases "n < 10") (simp_all add: show_nat_digit show_nat_snoc)
qed

text \<open>Whatever bytes a server sends, the text the tool returns for a page that is not HTML is well-formed UTF-8 and bounded; the bound is
  three times the body cap, as each ill-formed byte becomes a replacement character of three.\<close>

theorem fetched_text_wellformed:
  assumes "fetch_url_try_from parse raw = Ok u" and "web_get w u = Inr r" and "\<not> is_html (hr_content_type r)"
    and "web_fetch_execute parse w raw = Ok t"
  shows "utf8_shape t \<and> length t \<le> 3 * FETCH_MAX_BODY_BYTES + 39 + length (show_nat (length (hr_bytes r)))"
proof -
  define body where "body = from_utf8_lossy (take (min (length (hr_bytes r)) FETCH_MAX_BODY_BYTES) (hr_bytes r))"
  define note_text where "note_text = [CHR 10, CHR 10] @ ''[truncated to '' @ show_nat FETCH_MAX_BODY_BYTES @ '' bytes of '' @
    show_nat (length (hr_bytes r)) @ '' total]''"
  have t: "t = (if FETCH_MAX_BODY_BYTES < length (hr_bytes r) then body @ note_text else body)"
    using assms by (auto simp: web_fetch_execute_def maybe_html_to_markdown_def body_def note_text_def Let_def split: if_splits)
  have body: "utf8_shape body" "length body \<le> 3 * FETCH_MAX_BODY_BYTES"
    using lossy_utf8 [of "take (min (length (hr_bytes r)) FETCH_MAX_BODY_BYTES) (hr_bytes r)"] by (auto simp: body_def)
  have "list_all (\<lambda>c. byte c < 128) note_text" by (simp add: note_text_def show_nat_ascii)
  then have "utf8_shape (body @ note_text)" by (intro utf8_shape_append body ascii_utf8)
  moreover have "length (show_nat FETCH_MAX_BODY_BYTES) \<le> 6" by (rule length_show_nat) (simp_all add: FETCH_MAX_BODY_BYTES_def)
  then have "length note_text \<le> 39 + length (show_nat (length (hr_bytes r)))" by (simp add: note_text_def)
  ultimately show ?thesis using body by (simp add: t)
qed

section \<open>Examples\<close>

definition page :: "string \<Rightarrow> url" where
  "page name = \<lparr>url_text = name, url_scheme = ''https'', url_host = Some (Domain name)\<rparr>"

definition site :: web where
  "site = \<lparr>web_get = (\<lambda>_. Inr \<lparr>hr_status = 200, hr_content_type = None, hr_bytes = map char_of [104, 255, 105 :: nat]\<rparr>),
     web_convert = (\<lambda>_. None)\<rparr>"

lemma page_accepted: "fetch_url_try_from (\<lambda>s. Inr (page s)) ''a.org'' = Ok (page ''a.org'')"
  by code_simp

theorem redirects_stay_public_witness:
  "list_all public_url [page ''a.org'', page ''b.org''] \<and> length [page ''a.org'', page ''b.org''] \<le> FETCH_MAX_REDIRECTS"
proof (rule redirects_stay_public [OF page_accepted])
  have "redirect_policy [page ''a.org''] (page ''b.org'') = Ok ()" "url_scheme (page ''b.org'') = ''https''" by code_simp+
  then show "client_trace [page ''a.org'', page ''b.org'']"
    by (auto simp: client_trace_def less_Suc_eq)
qed

theorem fetched_text_wellformed_witness: "utf8_shape (''h'' @ REPLACEMENT @ ''i'')"
proof -
  have "web_fetch_execute (\<lambda>s. Inr (page s)) site ''a.org'' = Ok (''h'' @ REPLACEMENT @ ''i'')" by code_simp
  from fetched_text_wellformed [OF page_accepted _ _ this] show ?thesis by (simp add: site_def is_html_def)
qed

end
