(* ===== verification/Agent_Store.thy ===== *)
theory Agent_Store
  imports Mcp_Registry Send_Message Memory_Store
begin

text \<open>
  The agents of an organisation: the value types of \<open>src/agents/types.rs\<close>, the Postgres store of
  \<open>src/agents/pg_store.rs\<close>, the rendering of the name index (\<open>src/agents/render.rs\<close>) and the tools \<open>create_agent\<close> and
  \<open>search_agents\<close>.

  The table is a list of rows with their embedding; the unique indexes on the default agent and on the lower-cased name of an
  organisation, and the foreign keys, are branches of the statements that can run into them. \<open>lower\<close> is Postgres's and a
  parameter, as are the embedding provider and the vector operators (\<open>vec_ops\<close>). The check on the shape of the allowlist
  cannot fail, as the column is written from the validated type.
\<close>

section \<open>Value types\<close>

definition AGENT_NAME_MAX_LEN :: nat where "AGENT_NAME_MAX_LEN = 64"
definition AGENT_DESCRIPTION_MAX_LEN :: nat where "AGENT_DESCRIPTION_MAX_LEN = 512"
definition AGENT_SYSTEM_PROMPT_MAX_LEN :: nat where "AGENT_SYSTEM_PROMPT_MAX_LEN = 64 * 1024"
definition MAX_AGENT_NAMES_INLINE :: nat where "MAX_AGENT_NAMES_INLINE = 128"
definition MAX_SEARCH_AGENT_RESULTS :: nat where "MAX_SEARCH_AGENT_RESULTS = 8"
definition LIST_NAMES_MAX_ROWS :: nat where "LIST_NAMES_MAX_ROWS = 512"

definition agent_name_try_from :: "string \<Rightarrow> (parse_error, string) outcome" where
  "agent_name_try_from raw =
     (if raw = [] then Err (Empty ''agent_name'')
      else if AGENT_NAME_MAX_LEN < length raw then Err (TooLong ''agent_name'' AGENT_NAME_MAX_LEN (length raw))
      else Ok raw)"

definition agent_system_prompt_try_from :: "string \<Rightarrow> (parse_error, string) outcome" where
  "agent_system_prompt_try_from raw =
     (if trim raw = [] then Err (Empty ''agent_system_prompt'')
      else if AGENT_SYSTEM_PROMPT_MAX_LEN < length raw
      then Err (TooLong ''agent_system_prompt'' AGENT_SYSTEM_PROMPT_MAX_LEN (length raw))
      else Ok raw)"

definition agent_description_try_from :: "string \<Rightarrow> (parse_error, string) outcome" where
  "agent_description_try_from raw =
     (if trim raw = [] then Err (Empty ''agent_description'')
      else if AGENT_DESCRIPTION_MAX_LEN < length raw
      then Err (TooLong ''agent_description'' AGENT_DESCRIPTION_MAX_LEN (length raw))
      else Ok raw)"

interpretation agent_name: smart_string agent_name_try_from AGENT_NAME_MAX_LEN
  by unfold_locales (auto simp: agent_name_try_from_def split: if_splits)

interpretation agent_system_prompt: smart_string agent_system_prompt_try_from AGENT_SYSTEM_PROMPT_MAX_LEN
  by unfold_locales (auto simp: agent_system_prompt_try_from_def split: if_splits)

interpretation agent_description: smart_string agent_description_try_from AGENT_DESCRIPTION_MAX_LEN
  by unfold_locales (auto simp: agent_description_try_from_def split: if_splits)

section \<open>Rows and errors\<close>

record agent_record =
  ag_id :: agent_id
  ag_org_id :: org_id
  ag_name :: string
  ag_system_prompt :: string
  ag_description :: string
  ag_is_default :: bool
  ag_allowed_mcp_tools :: allowed_mcp_tools
  ag_created_at :: instant
  ag_updated_at :: instant

record 'v agent_trow =
  at_row :: agent_record
  at_embedding :: "'v option"

record 'v agents_db =
  ad_agents :: "'v agent_trow list"
  ad_organizations :: "org_id list"
  ad_members :: "(user_id \<times> org_id) list"
  ad_referenced :: "agent_id list"

datatype agent_store_error =
    AgentNotFound agent_id
  | AgentNameNotFound string
  | NameTaken string
  | NoDefault
  | DefaultDeletionForbidden
  | InUse agent_id
  | AgentParse parse_error
  | AgentBackend string
  | AgentDb string

record new_agent =
  na_org_id :: org_id
  na_name :: string
  na_system_prompt :: string
  na_description :: string
  na_is_default :: bool
  na_allowed_mcp_tools :: allowed_mcp_tools

record agent_update =
  au_name :: "string option"
  au_system_prompt :: "string option"
  au_description :: "string option"
  au_is_default :: "bool option"
  au_allowed_mcp_tools :: "allowed_mcp_tools option"

record agent_card =
  card_id :: agent_id
  card_name :: string
  card_description :: string

record default_agent_seed =
  seed_name :: string
  seed_system_prompt :: string
  seed_description :: string

type_synonym ('v, 'a) agent_result = "(agent_store_error, 'a) outcome \<times> 'v agents_db"

abbreviation at_id :: "'v agent_trow \<Rightarrow> agent_id" where
  "at_id t \<equiv> ag_id (at_row t)"

abbreviation at_org :: "'v agent_trow \<Rightarrow> org_id" where
  "at_org t \<equiv> ag_org_id (at_row t)"

abbreviation at_default :: "'v agent_trow \<Rightarrow> bool" where
  "at_default t \<equiv> ag_is_default (at_row t)"

fun agent_visible :: "scope \<Rightarrow> 'v agents_db \<Rightarrow> org_id \<Rightarrow> bool" where
  "agent_visible Privileged d org = True"
| "agent_visible (AsUser u) d org = ((u, org) \<in> set (ad_members d))"

definition agent_trow_of :: "'v agents_db \<Rightarrow> agent_id \<Rightarrow> 'v agent_trow option" where
  "agent_trow_of d i = find (\<lambda>t. at_id t = i) (ad_agents d)"

text \<open>\<open>TryFrom<AgentRow> for AgentRecord\<close>.\<close>

definition decode_agent_row :: "'v agent_trow \<Rightarrow> (agent_store_error, agent_record) outcome" where
  "decode_agent_row t =
     and_then (map_err AgentParse (agent_name_try_from (ag_name (at_row t)))) (\<lambda>name.
     and_then (map_err AgentParse (agent_system_prompt_try_from (ag_system_prompt (at_row t)))) (\<lambda>prompt.
     and_then (map_err AgentParse (agent_description_try_from (ag_description (at_row t)))) (\<lambda>descr.
       Ok ((at_row t)\<lparr>ag_name := name, ag_system_prompt := prompt, ag_description := descr\<rparr>))))"

section \<open>Statements\<close>

definition demote_default :: "scope \<Rightarrow> instant \<Rightarrow> org_id \<Rightarrow> 'v agents_db \<Rightarrow> 'v agents_db" where
  "demote_default sc now org d = d\<lparr>ad_agents :=
     update_where (\<lambda>t. at_default t \<and> at_org t = org \<and> agent_visible sc d (at_org t))
       (\<lambda>t. t\<lparr>at_row := (at_row t)\<lparr>ag_is_default := False, ag_updated_at := now\<rparr>\<rparr>) (ad_agents d)\<rparr>"

datatype insert_result = Inserted | UniqueViolation | OtherViolation string

text \<open>Row level security, the foreign key on the organisation, and the three unique indexes.\<close>

definition unique_clash :: "(string \<Rightarrow> string) \<Rightarrow> agent_record \<Rightarrow> 'v agent_trow \<Rightarrow> bool" where
  "unique_clash lower r t \<longleftrightarrow> at_id t = ag_id r \<or>
     at_org t = ag_org_id r \<and> (lower (ag_name (at_row t)) = lower (ag_name r) \<or> at_default t \<and> ag_is_default r)"

definition insert_agent ::
  "(string \<Rightarrow> string) \<Rightarrow> scope \<Rightarrow> agent_record \<Rightarrow> 'v \<Rightarrow> 'v agents_db \<Rightarrow> insert_result \<times> 'v agents_db" where
  "insert_agent lower sc r emb d =
     (if \<not> agent_visible sc d (ag_org_id r) then (OtherViolation ''row level security'', d)
      else if list_ex (unique_clash lower r) (ad_agents d) then (UniqueViolation, d)
      else if ag_org_id r \<notin> set (ad_organizations d) then (OtherViolation ''agents_org_id_fkey'', d)
      else (Inserted, d\<lparr>ad_agents := ad_agents d @ [\<lparr>at_row = r, at_embedding = Some emb\<rparr>]\<rparr>))"

section \<open>Operations\<close>

definition embed_description :: "'v vec_ops \<Rightarrow> string \<Rightarrow> (agent_store_error, 'v) outcome" where
  "embed_description ops s = map_err (\<lambda>e. AgentBackend (''description embed: '' @ e)) (vo_embed ops s)"

definition seed_in_tx ::
  "(string \<Rightarrow> string) \<Rightarrow> org_id \<Rightarrow> default_agent_seed \<Rightarrow> 'v \<Rightarrow> instant \<Rightarrow> agent_id \<Rightarrow> 'v agents_db \<Rightarrow> ('v, agent_id) agent_result" where
  "seed_in_tx lower org seed emb now fresh d =
     (case find (\<lambda>t. at_default t \<and> at_org t = org) (ad_agents d) of
        Some t \<Rightarrow> (Ok (at_id t), d)
      | None \<Rightarrow>
          (case insert_agent lower Privileged
             \<lparr>ag_id = fresh, ag_org_id = org, ag_name = seed_name seed, ag_system_prompt = seed_system_prompt seed,
              ag_description = seed_description seed, ag_is_default = True, ag_allowed_mcp_tools = [], ag_created_at = now,
              ag_updated_at = now\<rparr> emb d of
             (Inserted, d') \<Rightarrow> (Ok fresh, d')
           | (UniqueViolation, d') \<Rightarrow> (Err (AgentDb ''unique''), d')
           | (OtherViolation m, d') \<Rightarrow> (Err (AgentDb m), d')))"

definition seed_default ::
  "(string \<Rightarrow> string) \<Rightarrow> 'v vec_ops \<Rightarrow> org_id \<Rightarrow> default_agent_seed \<Rightarrow> instant \<Rightarrow> agent_id \<Rightarrow> 'v agents_db \<Rightarrow> ('v, agent_id) agent_result" where
  "seed_default lower ops org seed now fresh d =
     (case embed_description ops (seed_description seed) of
        Ok emb \<Rightarrow> run_tx (seed_in_tx lower org seed emb now fresh) d
      | Err e \<Rightarrow> (Err e, d)
      | Panic m \<Rightarrow> (Panic m, d))"

definition create_agent_in_tx ::
  "(string \<Rightarrow> string) \<Rightarrow> scope \<Rightarrow> 'v \<Rightarrow> new_agent \<Rightarrow> instant \<Rightarrow> agent_id \<Rightarrow> 'v agents_db \<Rightarrow> ('v, agent_record) agent_result" where
  "create_agent_in_tx lower sc emb payload now fresh d =
     (let d1 = (if na_is_default payload then demote_default sc now (na_org_id payload) d else d);
          r = \<lparr>ag_id = fresh, ag_org_id = na_org_id payload, ag_name = na_name payload, ag_system_prompt = na_system_prompt payload,
               ag_description = na_description payload, ag_is_default = na_is_default payload,
               ag_allowed_mcp_tools = na_allowed_mcp_tools payload, ag_created_at = now, ag_updated_at = now\<rparr> in
      case insert_agent lower sc r emb d1 of
        (Inserted, d2) \<Rightarrow> (Ok r, d2)
      | (UniqueViolation, d2) \<Rightarrow> (Err (NameTaken (na_name payload)), d2)
      | (OtherViolation m, d2) \<Rightarrow> (Err (AgentDb m), d2))"

definition create_scoped ::
  "(string \<Rightarrow> string) \<Rightarrow> 'v vec_ops \<Rightarrow> scope \<Rightarrow> new_agent \<Rightarrow> instant \<Rightarrow> agent_id \<Rightarrow> 'v agents_db \<Rightarrow> ('v, agent_record) agent_result" where
  "create_scoped lower ops sc payload now fresh d =
     (case embed_description ops (na_description payload) of
        Ok emb \<Rightarrow> run_tx (create_agent_in_tx lower sc emb payload now fresh) d
      | Err e \<Rightarrow> (Err e, d)
      | Panic m \<Rightarrow> (Panic m, d))"

definition agent_create where
  "agent_create lower ops payload now fresh d = create_scoped lower ops Privileged payload now fresh d"

definition agent_create_for_user where
  "agent_create_for_user lower ops user payload now fresh d = create_scoped lower ops (AsUser user) payload now fresh d"

fun decode_agents :: "'v agent_trow list \<Rightarrow> (agent_store_error, agent_record list) outcome" where
  "decode_agents [] = Ok []"
| "decode_agents (t # ts) = and_then (decode_agent_row t) (\<lambda>r. and_then (decode_agents ts) (\<lambda>rs. Ok (r # rs)))"

definition agent_list :: "'v agents_db \<Rightarrow> (agent_store_error, agent_record list) outcome" where
  "agent_list d = decode_agents (sort_key (\<lambda>t. ag_created_at (at_row t)) (ad_agents d))"

definition agent_read :: "agent_id \<Rightarrow> 'v agents_db \<Rightarrow> (agent_store_error, agent_record) outcome" where
  "agent_read i d = (case agent_trow_of d i of None \<Rightarrow> Err (AgentNotFound i) | Some t \<Rightarrow> decode_agent_row t)"

definition patched :: "agent_update \<Rightarrow> agent_record \<Rightarrow> agent_record" where
  "patched p r =
     r\<lparr>ag_name := (case au_name p of Some x \<Rightarrow> x | None \<Rightarrow> ag_name r),
       ag_system_prompt := (case au_system_prompt p of Some x \<Rightarrow> x | None \<Rightarrow> ag_system_prompt r),
       ag_description := (case au_description p of Some x \<Rightarrow> x | None \<Rightarrow> ag_description r),
       ag_allowed_mcp_tools := (case au_allowed_mcp_tools p of Some x \<Rightarrow> x | None \<Rightarrow> ag_allowed_mcp_tools r)\<rparr>"

text \<open>The final \<open>UPDATE\<close>: a rename can hit the name index; \<open>COALESCE\<close> keeps the old embedding.\<close>

definition store_agent ::
  "(string \<Rightarrow> string) \<Rightarrow> agent_record \<Rightarrow> 'v option \<Rightarrow> 'v agents_db \<Rightarrow> insert_result \<times> 'v agents_db" where
  "store_agent lower r emb d =
     (if list_ex (\<lambda>t. at_id t \<noteq> ag_id r \<and> unique_clash lower r t) (ad_agents d) then (UniqueViolation, d)
      else (Inserted, d\<lparr>ad_agents := update_where (\<lambda>t. at_id t = ag_id r)
              (\<lambda>t. \<lparr>at_row = r, at_embedding = (case emb of Some e \<Rightarrow> Some e | None \<Rightarrow> at_embedding t)\<rparr>) (ad_agents d)\<rparr>))"

definition update_in_tx ::
  "(string \<Rightarrow> string) \<Rightarrow> agent_id \<Rightarrow> agent_update \<Rightarrow> 'v option \<Rightarrow> instant \<Rightarrow> 'v agents_db \<Rightarrow> ('v, agent_record) agent_result" where
  "update_in_tx lower i payload emb now d =
     (case agent_trow_of d i of
        None \<Rightarrow> (Err (AgentNotFound i), d)
      | Some t \<Rightarrow>
          (case decode_agent_row t of
             Err e \<Rightarrow> (Err e, d)
           | Panic m \<Rightarrow> (Panic m, d)
           | Ok current \<Rightarrow>
               if au_is_default payload = Some False \<and> ag_is_default current then (Err DefaultDeletionForbidden, d)
               else
                 (let promote = (au_is_default payload = Some True \<and> \<not> ag_is_default current);
                      d1 = (if promote then demote_default Privileged now (ag_org_id current) d else d);
                      r = (patched payload current)\<lparr>ag_is_default := promote \<or> ag_is_default current, ag_updated_at := now\<rparr> in
                  case store_agent lower r emb d1 of
                    (Inserted, d2) \<Rightarrow> (Ok r, d2)
                  | (_, d2) \<Rightarrow> (Err (AgentDb ''unique''), d2))))"

definition agent_update_op ::
  "(string \<Rightarrow> string) \<Rightarrow> 'v vec_ops \<Rightarrow> agent_id \<Rightarrow> agent_update \<Rightarrow> instant \<Rightarrow> 'v agents_db \<Rightarrow> ('v, agent_record) agent_result" where
  "agent_update_op lower ops i payload now d =
     (case au_description payload of
        None \<Rightarrow> run_tx (update_in_tx lower i payload None now) d
      | Some descr \<Rightarrow>
          (case embed_description ops descr of
             Ok emb \<Rightarrow> run_tx (update_in_tx lower i payload (Some emb) now) d
           | Err e \<Rightarrow> (Err e, d)
           | Panic m \<Rightarrow> (Panic m, d)))"

definition agent_delete :: "agent_id \<Rightarrow> 'v agents_db \<Rightarrow> ('v, unit) agent_result" where
  "agent_delete i d =
     (case agent_trow_of d i of
        None \<Rightarrow> (Err (AgentNotFound i), d)
      | Some t \<Rightarrow>
          if at_default t then (Err DefaultDeletionForbidden, d)
          else if i \<in> set (ad_referenced d) then (Err (InUse i), d)
          else (Ok (), d\<lparr>ad_agents := delete_where (\<lambda>t. at_id t = i) (ad_agents d)\<rparr>))"

definition default_id_for :: "org_id \<Rightarrow> 'v agents_db \<Rightarrow> (agent_store_error, agent_id) outcome" where
  "default_id_for org d =
     (case find (\<lambda>t. at_default t \<and> at_org t = org) (ad_agents d) of Some t \<Rightarrow> Ok (at_id t) | None \<Rightarrow> Err NoDefault)"

text \<open>\<open>org_id = (SELECT org_id FROM agents WHERE id = viewer)\<close>: no row when the viewer is unknown.\<close>

definition org_peers :: "agent_id \<Rightarrow> 'v agents_db \<Rightarrow> 'v agent_trow list" where
  "org_peers viewer d =
     (case agent_trow_of d viewer of
        None \<Rightarrow> []
      | Some v \<Rightarrow> filter (\<lambda>t. at_org t = at_org v) (ad_agents d))"

definition read_by_name_for_viewer ::
  "(string \<Rightarrow> string) \<Rightarrow> agent_id \<Rightarrow> string \<Rightarrow> 'v agents_db \<Rightarrow> (agent_store_error, agent_record) outcome" where
  "read_by_name_for_viewer lower viewer name d =
     (case find (\<lambda>t. lower (ag_name (at_row t)) = lower name) (org_peers viewer d) of
        None \<Rightarrow> Err (AgentNameNotFound name)
      | Some t \<Rightarrow> decode_agent_row t)"

fun parse_names :: "(agent_id \<times> string) list \<Rightarrow> (agent_store_error, (agent_id \<times> string) list) outcome" where
  "parse_names [] = Ok []"
| "parse_names ((i, n) # ns) =
     and_then (map_err AgentParse (agent_name_try_from n)) (\<lambda>name. and_then (parse_names ns) (\<lambda>out. Ok ((i, name) # out)))"

definition list_names_for_viewer ::
  "(string \<Rightarrow> string) \<Rightarrow> agent_id \<Rightarrow> 'v agents_db \<Rightarrow> (agent_store_error, (agent_id \<times> string) list) outcome" where
  "list_names_for_viewer lower viewer d =
     parse_names (take LIST_NAMES_MAX_ROWS
       (map (\<lambda>t. (at_id t, ag_name (at_row t))) (sort_key (\<lambda>t. lower (ag_name (at_row t))) (org_peers viewer d))))"

fun parse_cards :: "'v agent_trow list \<Rightarrow> (agent_store_error, agent_card list) outcome" where
  "parse_cards [] = Ok []"
| "parse_cards (t # ts) =
     and_then (map_err AgentParse (agent_name_try_from (ag_name (at_row t)))) (\<lambda>name.
     and_then (map_err AgentParse (agent_description_try_from (ag_description (at_row t)))) (\<lambda>descr.
     and_then (parse_cards ts) (\<lambda>out. Ok (\<lparr>card_id = at_id t, card_name = name, card_description = descr\<rparr> # out))))"

definition embedding_distance :: "'v vec_ops \<Rightarrow> 'v \<Rightarrow> 'v agent_trow \<Rightarrow> rat" where
  "embedding_distance ops q t = (case at_embedding t of Some e \<Rightarrow> vo_distance ops e q | None \<Rightarrow> 0)"

definition search_by_description ::
  "'v vec_ops \<Rightarrow> 'v \<Rightarrow> agent_id \<Rightarrow> nat \<Rightarrow> 'v agents_db \<Rightarrow> (agent_store_error, agent_card list) outcome" where
  "search_by_description ops q viewer k d =
     (if vo_is_empty ops q \<or> k = 0 then Ok []
      else parse_cards (take k (sort_key (embedding_distance ops q)
             (filter (\<lambda>t. at_embedding t \<noteq> None \<and> at_id t \<noteq> viewer) (org_peers viewer d)))))"

section \<open>The name index in the prompt\<close>

definition AGENTS_TAG_OPEN :: string where "AGENTS_TAG_OPEN = ''<agents>'' @ [CHR 10]"
definition AGENTS_TAG_CLOSE :: string where "AGENTS_TAG_CLOSE = [CHR 10] @ ''</agents>''"

fun join_names :: "string list \<Rightarrow> string" where
  "join_names [] = []"
| "join_names [n] = n"
| "join_names (n # ns) = n @ '', '' @ join_names ns"

definition render_agents_block :: "(agent_id \<times> string) list \<Rightarrow> agent_id \<Rightarrow> string" where
  "render_agents_block all viewer =
     (let peers = map snd (filter (\<lambda>(i, _). i \<noteq> viewer) all) in
      if peers = [] then []
      else if MAX_AGENT_NAMES_INLINE < length peers
      then AGENTS_TAG_OPEN @ show_nat (length peers) @ '' agents available; use `search_agents` to find one.'' @ AGENTS_TAG_CLOSE
      else AGENTS_TAG_OPEN @ ''Other agents you can address by name with `send_message` or look up with `search_agents`:'' @ [CHR 10] @
           join_names peers @ AGENTS_TAG_CLOSE)"

section \<open>Tools\<close>

record create_input =
  ci_name :: string
  ci_system_prompt :: string
  ci_description :: string
  ci_allowed_mcp_tools :: allowed_mcp_tools

record show_agents =
  sa_parse :: "parse_error \<Rightarrow> string"
  sa_store :: "agent_store_error \<Rightarrow> string"

definition create_field_error :: "show_agents \<Rightarrow> string \<Rightarrow> parse_error \<Rightarrow> tool_error" where
  "create_field_error sh f e = InvalidInput (''create_agent: '' @ f @ '': '' @ sa_parse sh e)"

definition parse_create_fields :: "show_agents \<Rightarrow> create_input \<Rightarrow> (tool_error, string \<times> string \<times> string) outcome" where
  "parse_create_fields sh inp =
     and_then (map_err (create_field_error sh ''name'') (agent_name_try_from (ci_name inp))) (\<lambda>name.
     and_then (map_err (create_field_error sh ''system_prompt'') (agent_system_prompt_try_from (ci_system_prompt inp))) (\<lambda>prompt.
     and_then (map_err (create_field_error sh ''description'') (agent_description_try_from (ci_description inp))) (\<lambda>descr.
       Ok (name, prompt, descr))))"

definition create_agent_handle ::
  "(string \<Rightarrow> string) \<Rightarrow> 'v vec_ops \<Rightarrow> show_agents \<Rightarrow> create_input \<Rightarrow> tool_ctx \<Rightarrow> instant \<Rightarrow> agent_id \<Rightarrow> 'v agents_db \<Rightarrow>
   (tool_error, agent_id \<times> string) outcome \<times> 'v agents_db" where
  "create_agent_handle lower ops sh inp ctx now fresh d =
     (case participant_agent_id (tx_viewer ctx) of
        None \<Rightarrow> (Err (InvalidInput ''create_agent: caller must be an agent''), d)
      | Some viewer \<Rightarrow>
          (case parse_create_fields sh inp of
             Err e \<Rightarrow> (Err e, d)
           | Panic m \<Rightarrow> (Panic m, d)
           | Ok (name, prompt, descr) \<Rightarrow>
               (case agent_read viewer d of
                  Err e \<Rightarrow> (Err (TBackend (''create_agent: caller lookup: '' @ sa_store sh e)), d)
                | Panic m \<Rightarrow> (Panic m, d)
                | Ok v \<Rightarrow>
                    (case agent_create_for_user lower ops (tx_acting_user_id ctx)
                        \<lparr>na_org_id = ag_org_id v, na_name = name, na_system_prompt = prompt, na_description = descr,
                         na_is_default = False, na_allowed_mcp_tools = ci_allowed_mcp_tools inp\<rparr> now fresh d of
                       (Ok r, d') \<Rightarrow> (Ok (ag_id r, ag_name r), d')
                     | (Err (NameTaken taken), d') \<Rightarrow>
                         (Err (InvalidInput (''create_agent: name '' @ taken @ '' is already taken; pick a different role name'')), d')
                     | (Err e, d') \<Rightarrow> (Err (TBackend (''create_agent: '' @ sa_store sh e)), d')
                     | (Panic m, d') \<Rightarrow> (Panic m, d')))))"

definition search_agent_limit_try_from :: "nat \<Rightarrow> (parse_error, nat) outcome" where
  "search_agent_limit_try_from n =
     (if n = 0 \<or> MAX_SEARCH_AGENT_RESULTS < n then Err (OutOfRange ''search_agents_limit'' ''1..=MAX_SEARCH_AGENT_RESULTS'') else Ok n)"

definition search_agents_execute ::
  "'v vec_ops \<Rightarrow> show_agents \<Rightarrow> string \<Rightarrow> nat \<Rightarrow> tool_ctx \<Rightarrow> 'v agents_db \<Rightarrow> (tool_error, (string \<times> string) list) outcome" where
  "search_agents_execute ops sh q k ctx d =
     (case participant_agent_id (tx_viewer ctx) of
        None \<Rightarrow> Err (TBackend ''search_agents invoked with non-agent viewer'')
      | Some viewer \<Rightarrow>
          and_then (map_err (\<lambda>e. TBackend (''embedding query failed: '' @ e)) (vo_embed ops q)) (\<lambda>emb.
          and_then (map_err (\<lambda>e. TBackend (''search_agents store: '' @ sa_store sh e)) (search_by_description ops emb viewer k d))
            (\<lambda>cards. Ok (map (\<lambda>c. (card_name c, card_description c)) cards))))"

section \<open>The invariant of the table\<close>

definition agent_row_ok :: "agent_record \<Rightarrow> bool" where
  "agent_row_ok r \<longleftrightarrow> agent_name_try_from (ag_name r) = Ok (ag_name r) \<and> agent_system_prompt_try_from (ag_system_prompt r) = Ok (ag_system_prompt r) \<and>
     agent_description_try_from (ag_description r) = Ok (ag_description r)"

abbreviation at_name :: "'v agent_trow \<Rightarrow> string" where
  "at_name t \<equiv> ag_name (at_row t)"

definition agents_ok :: "(string \<Rightarrow> string) \<Rightarrow> 'v agents_db \<Rightarrow> bool" where
  "agents_ok lower d \<longleftrightarrow> distinct (map at_id (ad_agents d)) \<and> distinct (map (\<lambda>t. (at_org t, lower (at_name t))) (ad_agents d)) \<and>
     distinct (map at_org (filter at_default (ad_agents d))) \<and> (\<forall>t \<in> set (ad_agents d). agent_row_ok (at_row t))"

definition new_agent_ok :: "new_agent \<Rightarrow> bool" where
  "new_agent_ok p \<longleftrightarrow> is_Ok (agent_name_try_from (na_name p)) \<and> is_Ok (agent_system_prompt_try_from (na_system_prompt p)) \<and>
     is_Ok (agent_description_try_from (na_description p))"

definition seed_ok :: "default_agent_seed \<Rightarrow> bool" where
  "seed_ok p \<longleftrightarrow> is_Ok (agent_name_try_from (seed_name p)) \<and> is_Ok (agent_system_prompt_try_from (seed_system_prompt p)) \<and>
     is_Ok (agent_description_try_from (seed_description p))"

definition agent_update_ok :: "agent_update \<Rightarrow> bool" where
  "agent_update_ok p \<longleftrightarrow> (\<forall>x \<in> set_option (au_name p). is_Ok (agent_name_try_from x)) \<and>
     (\<forall>x \<in> set_option (au_system_prompt p). is_Ok (agent_system_prompt_try_from x)) \<and>
     (\<forall>x \<in> set_option (au_description p). is_Ok (agent_description_try_from x))"

lemma name_reparse: "is_Ok (agent_name_try_from x) \<longleftrightarrow> agent_name_try_from x = Ok x"
  using agent_name.keeps by (auto simp: is_Ok_iff)

lemma prompt_reparse: "is_Ok (agent_system_prompt_try_from x) \<longleftrightarrow> agent_system_prompt_try_from x = Ok x"
  using agent_system_prompt.keeps by (auto simp: is_Ok_iff)

lemma description_reparse: "is_Ok (agent_description_try_from x) \<longleftrightarrow> agent_description_try_from x = Ok x"
  using agent_description.keeps by (auto simp: is_Ok_iff)

lemmas reparse = name_reparse prompt_reparse description_reparse

lemma decode_row_ok: "agent_row_ok (at_row t) \<Longrightarrow> decode_agent_row t = Ok (at_row t)"
  by (simp add: decode_agent_row_def agent_row_ok_def)

lemma distinct_replace:
  assumes "distinct (map at_id A)" and "distinct (map k (filter Q A))"
    and "\<And>t u. u \<in> set A \<Longrightarrow> at_id u = i \<Longrightarrow> Q (f u) \<Longrightarrow> t \<in> set A \<Longrightarrow> at_id t \<noteq> i \<Longrightarrow> Q t \<Longrightarrow> k t \<noteq> k (f u)"
  shows "distinct (map k (filter Q (update_where (\<lambda>t. at_id t = i) f A)))"
  using assms
proof (induction A)
  case (Cons t A)
  have rest: "distinct (map k (filter Q (update_where (\<lambda>t. at_id t = i) f A)))"
    using Cons.prems by (intro Cons.IH) (auto split: if_splits)
  show ?case
  proof (cases "at_id t = i")
    case True
    then have "update_where (\<lambda>t. at_id t = i) f A = A" using Cons.prems(1) by (intro update_where_id) (force simp: image_iff)
    then show ?thesis using rest True Cons.prems(1) Cons.prems(3) [of t] by (fastforce simp: image_iff)
  next
    case False
    have "k t \<notin> k ` set (filter Q (update_where (\<lambda>t. at_id t = i) f A))" if "Q t"
      using that Cons.prems(2) Cons.prems(3) [of _ t] False by (auto simp: in_update_where_iff image_iff)
    then show ?thesis using rest False by auto
  qed
qed simp

lemma filter_demoted:
  "filter at_default (update_where P (\<lambda>t. t\<lparr>at_row := (at_row t)\<lparr>ag_is_default := False, ag_updated_at := now\<rparr>\<rparr>) A) =
   filter (\<lambda>t. at_default t \<and> \<not> P t) A"
  by (induction A) auto

lemma demote_ok:
  assumes "agents_ok lower d"
  shows "agents_ok lower (demote_default sc now org d)"
proof -
  let ?f = "\<lambda>t. t\<lparr>at_row := (at_row t)\<lparr>ag_is_default := False, ag_updated_at := now\<rparr>\<rparr>"
  define A where "A = ad_agents d"
  define B where "B = ad_agents (demote_default sc now org d)"
  obtain P where B: "B = update_where P ?f A" by (auto simp: A_def B_def demote_default_def)
  note ok = assms [unfolded agents_ok_def, folded A_def]
  have "distinct (map at_id B)" using ok unfolding B by (subst map_update_where) simp_all
  moreover have "distinct (map (\<lambda>t. (at_org t, lower (at_name t))) B)" using ok unfolding B by (subst map_update_where) simp_all
  moreover have "distinct (map at_org (filter at_default B))"
  proof -
    have "filter (\<lambda>t. at_default t \<and> \<not> P t) A = filter (\<lambda>t. \<not> P t) (filter at_default A)" by (simp add: conj_commute)
    then show ?thesis using ok unfolding B filter_demoted by (simp only: distinct_map_filter)
  qed
  moreover have "\<forall>t \<in> set B. agent_row_ok (at_row t)" using ok unfolding B by (auto simp: in_update_where_iff agent_row_ok_def)
  ultimately show ?thesis by (simp add: agents_ok_def B_def)
qed

lemma demoted_cases:
  assumes "t \<in> set (ad_agents (demote_default sc now org d))"
  obtains u where "u \<in> set (ad_agents d)" "at_id u = at_id t" "at_org u = at_org t" "at_name u = at_name t"
    "at_default t \<longrightarrow> at_default u \<and> \<not> (at_org u = org \<and> agent_visible sc d org)" "at_org t \<noteq> org \<longrightarrow> u = t"
proof -
  from assms obtain u where u: "u \<in> set (ad_agents d)" "t = (if at_default u \<and> at_org u = org \<and> agent_visible sc d (at_org u)
      then u\<lparr>at_row := (at_row u)\<lparr>ag_is_default := False, ag_updated_at := now\<rparr>\<rparr> else u)"
    unfolding demote_default_def by (auto simp: in_update_where_iff)
  show thesis by (rule that [OF u(1)]) (auto simp: u(2))
qed

lemma demote_other_default:
  "t \<in> set (ad_agents d) \<Longrightarrow> at_org t \<noteq> org \<Longrightarrow> t \<in> set (ad_agents (demote_default sc now org d))"
  by (auto simp: demote_default_def in_update_where_iff)

lemma insert_agent_ok:
  assumes "agents_ok lower d" and "agent_row_ok r" and "insert_agent lower sc r emb d = (Inserted, d')"
  shows "agents_ok lower d' \<and> ad_agents d' = ad_agents d @ [\<lparr>at_row = r, at_embedding = Some emb\<rparr>]"
proof -
  have rows: "ad_agents d' = ad_agents d @ [\<lparr>at_row = r, at_embedding = Some emb\<rparr>]"
    using assms(3) by (auto simp: insert_agent_def split: if_splits)
  have clash: "\<not> unique_clash lower r t" if "t \<in> set (ad_agents d)" for t
    using assms(3) that by (auto simp: insert_agent_def list_ex_iff split: if_splits)
  have "ag_id r \<notin> at_id ` set (ad_agents d)" "(ag_org_id r, lower (ag_name r)) \<notin> (\<lambda>t. (at_org t, lower (at_name t))) ` set (ad_agents d)"
    "ag_is_default r \<Longrightarrow> ag_org_id r \<notin> at_org ` set (filter at_default (ad_agents d))"
    using clash by (fastforce simp: unique_clash_def)+
  then show ?thesis using assms(1,2) by (simp add: agents_ok_def rows)
qed

lemma store_ok:
  fixes d d' :: "'v agents_db"
  assumes ok: "agents_ok lower d" and "agent_row_ok r" and "store_agent lower r emb d = (Inserted, d')"
  shows "agents_ok lower d'"
proof -
  let ?f = "\<lambda>t :: 'v agent_trow. \<lparr>at_row = r, at_embedding = (case emb of Some e \<Rightarrow> Some e | None \<Rightarrow> at_embedding t)\<rparr>"
  have clash: "\<not> unique_clash lower r t" if "t \<in> set (ad_agents d)" "at_id t \<noteq> ag_id r" for t
    using assms(3) that by (auto simp: store_agent_def list_ex_iff split: if_splits)
  have rows: "ad_agents d' = update_where (\<lambda>t. at_id t = ag_id r) ?f (ad_agents d)"
    using assms(3) by (auto simp: store_agent_def split: if_splits)
  have keep: "distinct (map k (filter Q (ad_agents d')))"
    if k: "distinct (map k (filter Q (ad_agents d)))"
      and new: "\<And>t u. t \<in> set (ad_agents d) \<Longrightarrow> at_id t \<noteq> ag_id r \<Longrightarrow> Q (?f u) \<Longrightarrow> Q t \<Longrightarrow> k t \<noteq> k (?f u)"
    for k :: "'v agent_trow \<Rightarrow> 'b" and Q
    unfolding rows
  proof (rule distinct_replace [OF _ k])
    show "distinct (map at_id (ad_agents d))" using ok by (simp add: agents_ok_def)
  qed (use new in blast)
  have ids: "distinct (map at_id (ad_agents d'))" using ok keep [of at_id "\<lambda>_. True"] by (simp add: agents_ok_def)
  have "distinct (map (\<lambda>t. (at_org t, lower (at_name t))) (ad_agents d'))" "distinct (map at_org (filter at_default (ad_agents d')))"
    using ok keep [of "\<lambda>t. (at_org t, lower (at_name t))" "\<lambda>_. True"] keep [of at_org at_default] clash
    by (auto simp: agents_ok_def unique_clash_def)
  then show ?thesis using ok assms(2) ids by (auto simp: agents_ok_def rows set_update_where)
qed

section \<open>Every operation keeps the invariant and the default agent\<close>

definition has_default :: "org_id \<Rightarrow> 'v agents_db \<Rightarrow> bool" where
  "has_default org d \<longleftrightarrow> (\<exists>t \<in> set (ad_agents d). at_default t \<and> at_org t = org)"

lemma default_id_iff: "has_default org d \<longleftrightarrow> is_Ok (default_id_for org d)"
  by (auto simp: has_default_def default_id_for_def is_Ok_iff find_None_iff split: option.splits dest: find_SomeD)

lemma demote_keeps_default: "org \<noteq> org' \<Longrightarrow> has_default org d \<Longrightarrow> has_default org (demote_default sc now org' d)"
  unfolding has_default_def using demote_other_default by blast

definition keeps :: "(string \<Rightarrow> string) \<Rightarrow> 'v agents_db \<Rightarrow> 'v agents_db \<Rightarrow> bool" where
  "keeps lower d d' \<longleftrightarrow> agents_ok lower d' \<and> (\<forall>org. has_default org d \<longrightarrow> has_default org d')"

lemma keeps_refl [simp]: "keeps lower d d \<longleftrightarrow> agents_ok lower d"
  by (simp add: keeps_def)

lemma insert_keeps:
  assumes "agents_ok lower d" and "agent_row_ok r" and "insert_agent lower sc r emb d = (Inserted, d')"
  shows "keeps lower d d' \<and> (ag_is_default r \<longrightarrow> has_default (ag_org_id r) d')"
  using insert_agent_ok [OF assms] by (auto simp: keeps_def has_default_def)

lemma seed_keeps:
  assumes "agents_ok lower d" and "seed_ok seed" and "seed_default lower ops org seed now fresh d = (res, d')"
  shows "keeps lower d d' \<and> (is_Ok res \<longrightarrow> has_default org d')"
proof -
  let ?r = "\<lparr>ag_id = fresh, ag_org_id = org, ag_name = seed_name seed, ag_system_prompt = seed_system_prompt seed,
    ag_description = seed_description seed, ag_is_default = True, ag_allowed_mcp_tools = [], ag_created_at = now, ag_updated_at = now\<rparr>"
  have row: "agent_row_ok ?r" using assms(2) by (simp add: agent_row_ok_def seed_ok_def reparse)
  have "keeps lower d d'' \<and> has_default org d''" if "seed_in_tx lower org seed emb now fresh d = (Ok i, d'')" for emb i d''
  proof (cases "find (\<lambda>t. at_default t \<and> at_org t = org) (ad_agents d)")
    case None
    then show ?thesis using that insert_keeps [OF assms(1) row, of Privileged emb d'']
      by (auto simp: seed_in_tx_def split: prod.splits insert_result.splits)
  next
    case (Some t)
    then show ?thesis using that assms(1) by (auto simp: seed_in_tx_def has_default_def dest: find_SomeD)
  qed
  then show ?thesis using assms(1,3)
    by (auto simp: seed_default_def run_tx_def is_Ok_iff split: outcome.splits prod.splits)
qed

lemma create_keeps:
  assumes ok: "agents_ok lower d" and "new_agent_ok payload" and "create_scoped lower ops sc payload now fresh d = (res, d')"
  shows "keeps lower d d'"
proof -
  have "keeps lower d d''" if tx: "create_agent_in_tx lower sc emb payload now fresh d = (Ok r, d'')" for emb r d''
  proof -
    define d1 where "d1 = (if na_is_default payload then demote_default sc now (na_org_id payload) d else d)"
    from tx have ins: "insert_agent lower sc r emb d1 = (Inserted, d'')" and r: "ag_org_id r = na_org_id payload" "ag_is_default r = na_is_default payload"
      and row: "agent_row_ok r"
      using assms(2) by (auto simp: create_agent_in_tx_def d1_def agent_row_ok_def new_agent_ok_def reparse Let_def split: prod.splits insert_result.splits)
    have "agents_ok lower d1" using ok demote_ok [OF ok] by (simp add: d1_def)
    note kept = insert_keeps [OF this row ins]
    have "has_default org d''" if org: "has_default org d" for org
    proof (cases "na_is_default payload \<and> org = na_org_id payload")
      case False
      then have "has_default org d1" using org demote_keeps_default [of org "na_org_id payload" d] by (auto simp: d1_def)
      then show ?thesis using kept by (simp add: keeps_def)
    qed (use kept r in simp)
    then show ?thesis using kept by (simp add: keeps_def)
  qed
  then show ?thesis using ok assms(3)
    by (auto simp: create_scoped_def run_tx_def split: outcome.splits prod.splits)
qed

lemma delete_keeps:
  assumes "agents_ok lower d" and "agent_delete i d = (res, d')"
  shows "keeps lower d d'"
proof (cases "res = Ok ()")
  case True
  then obtain t where t: "agent_trow_of d i = Some t" "\<not> at_default t" "d' = d\<lparr>ad_agents := delete_where (\<lambda>t. at_id t = i) (ad_agents d)\<rparr>"
    using assms(2) by (auto simp: agent_delete_def split: option.splits if_splits)
  have only: "at_id u = i \<longrightarrow> u = t" if "u \<in> set (ad_agents d)" for u
    using t(1) that assms(1) distinct_map_eqD [of at_id "ad_agents d" u t]
    by (auto simp: agent_trow_of_def agents_ok_def dest!: find_SomeD)
  have "delete_where (\<lambda>t. at_id t = i) (ad_agents d) = filter (\<lambda>t. at_id t \<noteq> i) (ad_agents d)" by (simp add: delete_where_def)
  moreover have "filter at_default (filter (\<lambda>t. at_id t \<noteq> i) (ad_agents d)) = filter (\<lambda>t. at_id t \<noteq> i) (filter at_default (ad_agents d))"
    by (simp add: conj_commute)
  ultimately have "agents_ok lower d'" using assms(1) unfolding t(3) agents_ok_def by (simp add: distinct_map_filter del: filter_filter)
  then show ?thesis using only t by (auto simp: keeps_def has_default_def)
qed (use assms in \<open>auto simp: agent_delete_def split: option.splits if_splits\<close>)

lemma patched_ok: "agent_row_ok r \<Longrightarrow> agent_update_ok p \<Longrightarrow> agent_row_ok ((patched p r)\<lparr>ag_is_default := b, ag_updated_at := now\<rparr>)"
  by (auto simp: agent_row_ok_def agent_update_ok_def patched_def reparse split: option.splits)

lemma patched_simps [simp]: "ag_id (patched p r) = ag_id r" "ag_org_id (patched p r) = ag_org_id r"
  by (simp_all add: patched_def)

lemma store_default:
  assumes "agents_ok lower d" and "t \<in> set (ad_agents d)" and "ag_id r = at_id t" and "ag_org_id r = at_org t"
    and "store_agent lower r emb d = (Inserted, d')" and "ag_is_default r \<or> \<not> at_default t" and "has_default org d"
  shows "has_default org d'"
proof -
  let ?f = "\<lambda>t. \<lparr>at_row = r, at_embedding = (case emb of Some e \<Rightarrow> Some e | None \<Rightarrow> at_embedding t)\<rparr>"
  obtain u where u: "u \<in> set (ad_agents d)" "at_default u" "at_org u = org" using assms(7) by (auto simp: has_default_def)
  have rows: "ad_agents d' = update_where (\<lambda>t. at_id t = ag_id r) ?f (ad_agents d)"
    using assms(5) by (auto simp: store_agent_def split: if_splits)
  show ?thesis
  proof (cases "at_id u = ag_id r")
    case True
    then have "u = t" using u(1) assms(1-3) distinct_map_eqD [of at_id "ad_agents d" u t] by (simp add: agents_ok_def)
    then have "?f u \<in> set (ad_agents d')" "ag_is_default r" "ag_org_id r = org" using u True assms(4,6) by (auto simp: rows in_update_where_iff)
    then show ?thesis by (force simp: has_default_def)
  next
    case False
    then have "u \<in> set (ad_agents d')" using u(1) by (auto simp: rows in_update_where_iff)
    then show ?thesis using u by (auto simp: has_default_def)
  qed
qed

lemma update_keeps:
  assumes ok: "agents_ok lower d" and "agent_update_ok payload" and "agent_update_op lower ops i payload now d = (res, d')"
  shows "keeps lower d d'"
proof -
  have "keeps lower d d''" if tx: "update_in_tx lower i payload emb now d = (Ok r, d'')" for emb r d''
  proof -
    from tx obtain t where t: "agent_trow_of d i = Some t" by (auto simp: update_in_tx_def split: option.splits)
    then have mem: "t \<in> set (ad_agents d)" "agent_row_ok (at_row t)" using ok by (auto simp: agent_trow_of_def agents_ok_def dest!: find_SomeD)
    define promote where "promote \<longleftrightarrow> au_is_default payload = Some True \<and> \<not> at_default t"
    define d1 where "d1 = (if promote then demote_default Privileged now (at_org t) d else d)"
    from tx t mem have st: "store_agent lower r emb d1 = (Inserted, d'')"
      and r: "r = (patched payload (at_row t))\<lparr>ag_is_default := promote \<or> at_default t, ag_updated_at := now\<rparr>"
      by (auto simp: update_in_tx_def decode_row_ok d1_def promote_def Let_def split: prod.splits insert_result.splits if_splits)
    have ok1: "agents_ok lower d1" using ok demote_ok [OF ok] by (simp add: d1_def)
    have row: "agent_row_ok r" using mem(2) assms(2) patched_ok by (simp add: r)
    have default: "has_default org d''" if "has_default org d" for org
    proof (cases "promote \<and> org = at_org t")
      case True
      have "t \<in> set (ad_agents d1)" using mem(1) True by (auto simp: d1_def promote_def demote_default_def in_update_where_iff)
      then have "\<exists>u \<in> set (ad_agents d''). at_row u = r"
        using st by (force simp: store_agent_def in_update_where_iff r split: if_splits)
      then obtain u where "u \<in> set (ad_agents d'')" "at_row u = r" by blast
      then show ?thesis using True unfolding has_default_def by (intro bexI [of _ u]) (simp_all add: r)
    next
      case False
      have "has_default org d1" using that False demote_keeps_default [of org "at_org t" d] by (auto simp: d1_def)
      moreover have "t \<in> set (ad_agents d1)" using mem(1) by (auto simp: d1_def promote_def demote_default_def in_update_where_iff)
      ultimately show ?thesis using store_default [OF ok1 _ _ _ st, of t org] by (simp add: r)
    qed
    show ?thesis using store_ok [OF ok1 row st] default by (simp add: keeps_def)
  qed
  then show ?thesis using ok assms(3)
    by (auto simp: agent_update_op_def run_tx_def split: option.splits outcome.splits prod.splits)
qed

text \<open>What can happen to the table: the operations with validated arguments, and other tables of the database changing.\<close>

inductive agent_step :: "(string \<Rightarrow> string) \<Rightarrow> 'v agents_db \<Rightarrow> 'v agents_db \<Rightarrow> bool" for lower where
  seed: "seed_ok sd \<Longrightarrow> seed_default lower ops org sd now fresh d = (res, d') \<Longrightarrow> agent_step lower d d'"
| create: "new_agent_ok p \<Longrightarrow> agent_create lower ops p now fresh d = (res, d') \<Longrightarrow> agent_step lower d d'"
| create_for_user: "new_agent_ok p \<Longrightarrow> agent_create_for_user lower ops user p now fresh d = (res, d') \<Longrightarrow> agent_step lower d d'"
| update: "agent_update_ok u \<Longrightarrow> agent_update_op lower ops i u now d = (res, d') \<Longrightarrow> agent_step lower d d'"
| delete: "agent_delete i d = (res, d') \<Longrightarrow> agent_step lower d d'"
| elsewhere: "agent_step lower d (d\<lparr>ad_organizations := orgs, ad_members := ms, ad_referenced := refs\<rparr>)"

lemma step_keeps: "agent_step lower d d' \<Longrightarrow> agents_ok lower d \<Longrightarrow> keeps lower d d'"
proof (induction rule: agent_step.induct)
  case elsewhere
  then show ?case by (simp add: keeps_def agents_ok_def has_default_def)
qed (auto simp: agent_create_def agent_create_for_user_def dest: seed_keeps create_keeps update_keeps delete_keeps)

interpretation agents: preserving "agent_step lower" "agents_ok lower" for lower :: "string \<Rightarrow> string"
  by unfold_locales (auto dest: step_keeps simp: keeps_def)

lemma filter_unique: "distinct (map k xs) \<Longrightarrow> find (\<lambda>x. k x = v) xs = Some y \<Longrightarrow> filter (\<lambda>x. k x = v) xs = [y]"
proof (induction xs)
  case (Cons x xs)
  show ?case
  proof (cases "k x = v")
    case True
    then have "filter (\<lambda>x. k x = v) xs = []" using Cons.prems(1) by (auto simp: filter_empty_conv image_iff)
    then show ?thesis using Cons.prems(2) True by simp
  qed (use Cons in auto)
qed simp

lemma find_conj: "find (\<lambda>x. P x \<and> Q x) xs = find Q (filter P xs)"
  by (induction xs) auto

text \<open>C29. An organisation that has a default agent always has exactly one: whatever agents are created, promoted, renamed or deleted, by
  operators or by agents hiring agents, the default resolves, and no other agent of the organisation is flagged.\<close>

theorem default_agent_never_lost:
  assumes "agents_ok lower d" and "default_id_for org d = Ok i" and "(agent_step lower)\<^sup>*\<^sup>* d d'"
  shows "\<exists>j. default_id_for org d' = Ok j \<and> map at_id (filter (\<lambda>t. at_default t \<and> at_org t = org) (ad_agents d')) = [j]"
proof -
  have "has_default org d'"
  proof (rule agents.run_stable [OF assms(3,1)])
    show "has_default org d" using assms(2) by (simp add: default_id_iff)
    show "has_default org b" if "agents_ok lower a" "agent_step lower a b" "has_default org a" for a b
      using step_keeps [OF that(2,1)] that(3) by (simp add: keeps_def)
  qed
  then obtain t where t: "find (\<lambda>t. at_default t \<and> at_org t = org) (ad_agents d') = Some t"
    by (auto simp: default_id_iff default_id_for_def is_Ok_iff split: option.splits)
  have "agents_ok lower d'" by (rule agents.run_inv [OF assms(3,1)])
  then have "distinct (map at_org (filter at_default (ad_agents d')))" by (simp add: agents_ok_def)
  from filter_unique [OF this t [unfolded find_conj]] have "filter (\<lambda>t. at_default t \<and> at_org t = org) (ad_agents d') = [t]"
    by (simp add: conj_commute)
  then show ?thesis using t by (simp add: default_id_for_def)
qed

section \<open>Names\<close>

lemma find_unique:
  assumes "distinct (map k xs)" and "t \<in> set xs"
  shows "find (\<lambda>x. k x = k t) xs = Some t"
  using assms
proof (induction xs)
  case (Cons x xs)
  then show ?case by (cases "x = t") (auto simp: image_iff)
qed simp

lemma inserted_row: "insert_agent lower sc r emb d = (Inserted, d') \<Longrightarrow> \<lparr>at_row = r, at_embedding = Some emb\<rparr> \<in> set (ad_agents d')"
  by (auto simp: insert_agent_def split: if_splits)

lemma created_row:
  assumes "create_scoped lower ops sc payload now fresh d = (Ok r, d')"
  shows "\<exists>t \<in> set (ad_agents d'). at_row t = r \<and> ag_id r = fresh \<and> ag_org_id r = na_org_id payload \<and> ag_name r = na_name payload \<and>
    ag_allowed_mcp_tools r = na_allowed_mcp_tools payload"
proof -
  from assms obtain emb where tx: "create_agent_in_tx lower sc emb payload now fresh d = (Ok r, d')"
    by (auto simp: create_scoped_def split: outcome.splits)
  then obtain d1 where "insert_agent lower sc r emb d1 = (Inserted, d')"
    by (auto simp: create_agent_in_tx_def Let_def split: prod.splits insert_result.splits)
  from inserted_row [OF this] tx show ?thesis
    by (intro bexI [of _ "\<lparr>at_row = r, at_embedding = Some emb\<rparr>"])
       (auto simp: create_agent_in_tx_def Let_def split: prod.splits insert_result.splits)
qed

text \<open>A created agent is found by its name, in any spelling Postgres lower-cases alike, by every agent of its organisation, and by
  no agent of another.\<close>

theorem created_agent_found_by_name:
  assumes "agents_ok lower d" and "new_agent_ok payload" and "create_scoped lower ops sc payload now fresh d = (Ok r, d')"
    and "agent_trow_of d' viewer = Some v" and "lower name = lower (na_name payload)"
  shows "(read_by_name_for_viewer lower viewer name d' = Ok r) = (at_org v = na_org_id payload)"
proof -
  have ok: "agents_ok lower d'" using create_keeps [OF assms(1-3)] by (simp add: keeps_def)
  obtain t where t: "t \<in> set (ad_agents d')" "at_row t = r" and r: "ag_name r = na_name payload" "ag_org_id r = na_org_id payload"
    using created_row [OF assms(3)] by blast
  show ?thesis
  proof (cases "at_org v = na_org_id payload")
    case True
    have "find (\<lambda>u. lower (at_name u) = lower name) (org_peers viewer d') = find (\<lambda>u. (at_org u, lower (at_name u)) = (at_org t, lower (at_name t))) (ad_agents d')"
      using True t r assms(4,5) by (simp add: org_peers_def find_conj [symmetric])
    also have "\<dots> = Some t" using ok t(1) by (intro find_unique) (simp_all add: agents_ok_def)
    finally show ?thesis using True ok t by (auto simp: read_by_name_for_viewer_def agents_ok_def decode_row_ok)
  next
    case False
    have "ag_org_id x = at_org v" if "read_by_name_for_viewer lower viewer name d' = Ok x" for x
      using that ok assms(4)
      by (auto simp: read_by_name_for_viewer_def org_peers_def agents_ok_def decode_row_ok split: option.splits dest!: find_SomeD)
    then show ?thesis using False r by auto
  qed
qed

text \<open>The directory \<open>send_message\<close> resolves names in.\<close>

definition directory :: "(string \<Rightarrow> string) \<Rightarrow> show_agents \<Rightarrow> 'v agents_db \<Rightarrow> agent_id \<Rightarrow> string \<Rightarrow> (lookup_error, agent_id) outcome" where
  "directory lower sh d viewer name =
     (case read_by_name_for_viewer lower viewer name d of
        Ok r \<Rightarrow> Ok (ag_id r)
      | Err (AgentNameNotFound _) \<Rightarrow> Err NameNotFound
      | Err e \<Rightarrow> Err (LookupFailed (sa_store sh e))
      | Panic m \<Rightarrow> Panic m)"

text \<open>C30. An agent that addresses a colleague by name only ever reaches an agent of its own organisation that has the name: the receiver
  \<open>send_message\<close> resolves in the agents table never crosses tenants.\<close>

theorem addressing_stays_in_org:
  assumes "agents_ok lower d" and "se_read_by_name env = directory lower sh d" and "resolve_receiver env viewer (ToAgent name) = Ok (Agent i)"
  shows "\<exists>v t. agent_trow_of d viewer = Some v \<and> agent_trow_of d i = Some t \<and> at_org t = at_org v \<and> lower (at_name t) = lower name"
proof -
  from assms(2,3) have "directory lower sh d viewer name = Ok i"
    by (auto simp: resolve_receiver_def split: outcome.splits lookup_error.splits)
  then obtain r where r: "read_by_name_for_viewer lower viewer name d = Ok r" "ag_id r = i"
    by (auto simp: directory_def split: outcome.splits agent_store_error.splits)
  then obtain v t where v: "agent_trow_of d viewer = Some v" and dec: "decode_agent_row t = Ok r" and t: "t \<in> set (ad_agents d)" "at_org t = at_org v"
    "lower (at_name t) = lower name"
    by (auto simp: read_by_name_for_viewer_def org_peers_def split: option.splits dest!: find_SomeD)
  have "at_row t = r" using dec t(1) assms(1) by (simp add: decode_row_ok agents_ok_def)
  moreover have "agent_trow_of d (at_id t) = Some t"
    using assms(1) t(1) find_unique [of at_id "ad_agents d" t] by (simp add: agent_trow_of_def agents_ok_def)
  ultimately show ?thesis using v t r(2) by auto
qed

section \<open>Search\<close>

lemma parse_cards_ids: "parse_cards ts = Ok cs \<Longrightarrow> map card_id cs = map at_id ts"
  by (induction ts arbitrary: cs) auto

text \<open>A search for colleagues ranks by distance: the cards returned are at most as many as asked for, all of the caller's organisation,
  never the caller itself, nearest first, and no agent left out is nearer than one returned.\<close>

theorem search_ranks_peers:
  assumes "search_by_description ops q viewer k d = Ok cards" and "agent_trow_of d viewer = Some v"
    and "\<not> vo_is_empty ops q"
    and "peers = filter (\<lambda>t. at_org t = at_org v \<and> at_id t \<noteq> viewer \<and> at_embedding t \<noteq> None) (ad_agents d)"
  shows "\<exists>found left_out. map card_id cards = map at_id found \<and> mset (found @ left_out) = mset peers \<and>
    length found = min k (length peers) \<and> sorted (map (embedding_distance ops q) (found @ left_out))"
proof (cases "k = 0")
  case True
  then show ?thesis using assms(1)
    by (intro exI [of _ "[]"] exI [of _ "sort_key (embedding_distance ops q) peers"]) (simp add: search_by_description_def)
next
  case False
  have peers: "filter (\<lambda>t. at_embedding t \<noteq> None \<and> at_id t \<noteq> viewer) (org_peers viewer d) = peers"
    using assms(2,4) by (auto simp: org_peers_def intro!: filter_cong)
  let ?s = "sort_key (embedding_distance ops q) peers"
  have "parse_cards (take k ?s) = Ok cards"
    using assms(1,3) False unfolding search_by_description_def peers by simp
  from parse_cards_ids [OF this] show ?thesis
    by (intro exI [of _ "take k ?s"] exI [of _ "drop k ?s"]) (simp add: min.commute)
qed

section \<open>Allowlists and organisations\<close>

text \<open>C31. Nothing relates the servers on an allowlist to the agent's organisation: an agent can hire an agent whose allowlist names a server of
  another organisation, and the hired agent then runs that organisation's tools.\<close>

theorem allowlist_crosses_tenants:
  assumes "create_agent_handle lower ops sh inp ctx now fresh d = (Ok (i, n), d')"
    and "ci_allowed_mcp_tools inp = [(srv_id row, None)]" and "mcp_lookup st tool_name = Some (tool, origin)" and "or_server origin = srv_id row"
    and "participant_agent_id (tx_viewer ctx) = Some viewer" and "agent_trow_of d viewer = Some v" and "at_org v \<noteq> srv_org_id row"
  shows "\<exists>t \<in> set (ad_agents d'). at_id t = i \<and> at_org t \<noteq> srv_org_id row \<and>
    scoped_get st (ag_allowed_mcp_tools (at_row t)) tool_name = Some tool"
proof -
  from assms(1,5) obtain name prompt descr vr r where read: "agent_read viewer d = Ok vr" and i: "ag_id r = i"
    and cr: "agent_create_for_user lower ops (tx_acting_user_id ctx)
      \<lparr>na_org_id = ag_org_id vr, na_name = name, na_system_prompt = prompt, na_description = descr, na_is_default = False,
       na_allowed_mcp_tools = ci_allowed_mcp_tools inp\<rparr> now fresh d = (Ok r, d')"
    by (auto simp: create_agent_handle_def split: outcome.splits prod.splits agent_store_error.splits)
  have org: "ag_org_id vr = at_org v" using read assms(6) by (auto simp: agent_read_def decode_agent_row_def)
  from created_row [OF cr [unfolded agent_create_for_user_def]] obtain t where "t \<in> set (ad_agents d')" "at_row t = r"
    "ag_org_id r = at_org v" "ag_allowed_mcp_tools r = [(srv_id row, None)]" using org assms(2) by auto
  moreover from this have "scoped_get st (ag_allowed_mcp_tools (at_row t)) tool_name = Some tool"
    using assms(3,4) by (simp add: scoped_get_def permits_def tools_for_def)
  ultimately show ?thesis using i assms(7) by auto
qed

section \<open>The name index\<close>

lemma join_names_length: "(\<forall>n \<in> set ns. length n \<le> k) \<Longrightarrow> length (join_names ns) \<le> (k + 2) * length ns"
  by (induction ns rule: join_names.induct) auto

text \<open>The name index is bounded, whatever the number of agents.\<close>

lemma agents_block_bounded:
  assumes "\<forall>(i, n) \<in> set all. length n \<le> AGENT_NAME_MAX_LEN" and "length all < 10 ^ 20"
  shows "length (render_agents_block all viewer) \<le> 8600"
proof -
  define peers where "peers = map snd (filter (\<lambda>(i, _). i \<noteq> viewer) all)"
  have "\<forall>n \<in> set peers. length n \<le> 64" using assms(1) by (auto simp: peers_def AGENT_NAME_MAX_LEN_def)
  then have "length (join_names peers) \<le> 66 * length peers" using join_names_length [of peers 64] by simp
  moreover have "length (show_nat (length peers)) \<le> 20"
    using assms(2) le_less_trans [OF length_filter_le] by (intro length_show_nat) (auto simp: peers_def)
  ultimately show ?thesis
    unfolding render_agents_block_def peers_def [symmetric] Let_def
    by (auto simp: AGENTS_TAG_OPEN_def AGENTS_TAG_CLOSE_def MAX_AGENT_NAMES_INLINE_def)
qed

end
