(* ===== verification/Agent_Examples.thy ===== *)
theory Agent_Examples
  imports Agent_Store
begin

text \<open>
  Organisation 3 with its default agent \<open>boss\<close>, who hires \<open>scout\<close> and grants it a server of organisation 4. The witnesses of
  \<open>Agent_Store\<close>.
\<close>

definition plain_ops :: "nat vec_ops" where
  "plain_ops = \<lparr>vo_embed = (\<lambda>s. Ok (length s)), vo_is_empty = (\<lambda>_. False), vo_distance = (\<lambda>a b. of_nat a - of_nat b), vo_narrow = id\<rparr>"

definition boss :: agent_record where
  "boss = \<lparr>ag_id = 1, ag_org_id = 3, ag_name = ''boss'', ag_system_prompt = ''p'', ag_description = ''d'', ag_is_default = True,
     ag_allowed_mcp_tools = [], ag_created_at = 0, ag_updated_at = 0\<rparr>"

definition office :: "nat agents_db" where
  "office = \<lparr>ad_agents = [\<lparr>at_row = boss, at_embedding = Some 1\<rparr>], ad_organizations = [3, 4], ad_members = [(7, 3)], ad_referenced = [1]\<rparr>"

definition scout_payload :: new_agent where
  "scout_payload = \<lparr>na_org_id = 3, na_name = ''scout'', na_system_prompt = ''p'', na_description = ''d'', na_is_default = True,
     na_allowed_mcp_tools = []\<rparr>"

abbreviation hired :: "(agent_store_error, agent_record) outcome \<times> nat agents_db" where
  "hired \<equiv> agent_create id plain_ops scout_payload 9 2 office"

definition scout :: agent_record where
  "scout = \<lparr>ag_id = 2, ag_org_id = 3, ag_name = ''scout'', ag_system_prompt = ''p'', ag_description = ''d'', ag_is_default = True,
     ag_allowed_mcp_tools = [], ag_created_at = 9, ag_updated_at = 9\<rparr>"

lemma short_texts: "agent_name_try_from ''boss'' = Ok ''boss''" "agent_name_try_from ''scout'' = Ok ''scout''"
  "agent_system_prompt_try_from ''p'' = Ok ''p''" "agent_description_try_from ''d'' = Ok ''d''"
  by code_simp+

lemma office_ok: "agents_ok lower office"
  by (simp add: agents_ok_def office_def agent_row_ok_def boss_def short_texts)

lemma scout_ok: "new_agent_ok scout_payload"
  by (simp add: new_agent_ok_def scout_payload_def short_texts)

lemma hired_Ok: "hired = (Ok scout, snd hired)"
proof -
  have "fst hired = Ok scout" by code_simp
  then show ?thesis by (simp add: prod_eq_iff)
qed

theorem default_agent_never_lost_witness:
  "\<exists>j. default_id_for 3 (snd hired) = Ok j \<and> map at_id (filter (\<lambda>t. at_default t \<and> at_org t = 3) (ad_agents (snd hired))) = [j]"
proof (rule default_agent_never_lost [OF office_ok])
  show "default_id_for 3 office = Ok 1" by code_simp
  show "(agent_step id)\<^sup>*\<^sup>* office (snd hired)" by (rule r_into_rtranclp, rule agent_step.create [OF scout_ok hired_Ok])
qed

theorem created_agent_found_by_name_witness: "read_by_name_for_viewer id 1 ''scout'' (snd hired) = Ok scout"
proof -
  have "agent_trow_of (snd hired) 1 = Some \<lparr>at_row = boss\<lparr>ag_is_default := False, ag_updated_at := 9\<rparr>, at_embedding = Some 1\<rparr>" by code_simp
  from created_agent_found_by_name [OF office_ok scout_ok hired_Ok [unfolded agent_create_def] this [unfolded agent_create_def], of "''scout''"]
  show ?thesis by (simp add: agent_create_def scout_payload_def boss_def)
qed

definition no_print :: show_agents where
  "no_print = \<lparr>sa_parse = (\<lambda>_. []), sa_store = (\<lambda>_. [])\<rparr>"

definition office_env :: send_env where
  "office_env = \<lparr>se_read_by_name = directory id no_print office, se_show_uuid = (\<lambda>_. []), se_show_participant = (\<lambda>_. []),
     se_show_parse_error = (\<lambda>_. []), se_show_session_error = (\<lambda>_. []), se_show_prompt_error = (\<lambda>_. []), se_show_response_error = (\<lambda>_. []),
     se_now = 0, se_new_session = 0, se_new_request = 0, se_traceparent = None\<rparr>"

theorem addressing_stays_in_org_witness:
  "\<exists>v t. agent_trow_of office 1 = Some v \<and> agent_trow_of office 1 = Some t \<and> at_org t = at_org v \<and> id (at_name t) = id ''boss''"
proof (rule addressing_stays_in_org [OF office_ok])
  show "se_read_by_name office_env = directory id no_print office" by (simp add: office_env_def)
  show "resolve_receiver office_env 1 (ToAgent ''boss'') = Ok (Agent 1)" by code_simp
qed

definition boss_row :: "nat agent_trow" where
  "boss_row = \<lparr>at_row = boss, at_embedding = Some 1\<rparr>"

definition scout_row :: "nat agent_trow" where
  "scout_row = \<lparr>at_row = scout\<lparr>ag_is_default := False\<rparr>, at_embedding = Some 5\<rparr>"

definition team :: "nat agents_db" where
  "team = office\<lparr>ad_agents := [boss_row, scout_row]\<rparr>"

theorem search_ranks_peers_witness:
  "\<exists>found left_out. [2] = map at_id found \<and> mset (found @ left_out) = mset [scout_row] \<and> length found = min 3 (length [scout_row]) \<and>
     sorted (map (embedding_distance plain_ops 4) (found @ left_out))"
proof -
  have "search_by_description plain_ops 4 1 3 team = Ok [\<lparr>card_id = 2, card_name = ''scout'', card_description = ''d''\<rparr>]"
    "agent_trow_of team 1 = Some boss_row" by code_simp+
  from search_ranks_peers [OF this _ refl] show ?thesis
    by (simp add: plain_ops_def team_def boss_row_def scout_row_def boss_def scout_def)
qed

definition hire_input :: create_input where
  "hire_input = \<lparr>ci_name = ''scout'', ci_system_prompt = ''p'', ci_description = ''d'', ci_allowed_mcp_tools = [(2, None)]\<rparr>"

definition boss_ctx :: tool_ctx where
  "boss_ctx = \<lparr>tx_session_id = 50, tx_viewer = Agent 1, tx_root_request_id = 10, tx_request_id = 10, tx_kind_payload = PNormal,
     tx_acting_user_id = 7, tx_org_id = 3\<rparr>"

definition foreign_server :: mcp_server_record where
  "foreign_server = \<lparr>srv_id = 2, srv_org_id = 4, srv_alias = ''gh'', srv_config = ''c''\<rparr>"

definition foreign_tool :: "(nat, nat) any_tool" where
  "foreign_tool = \<lparr>rt_name = ''mcp_gh_create'', rt_description = ''d'', rt_input_schema = ''s'', rt_modes = MODES_ALL, rt_body = Remote ''create'' 0\<rparr>"

definition catalogue :: "(nat, nat) mcp_state" where
  "catalogue = \<lparr>st_by_name = [(''mcp_gh_create'', foreign_tool)], st_origins = [(''mcp_gh_create'', \<lparr>or_server = 2, or_remote_name = ''create''\<rparr>)],
     st_specs = [spec_of foreign_tool], st_servers = []\<rparr>"

abbreviation hire :: "(tool_error, agent_id \<times> string) outcome \<times> nat agents_db" where
  "hire \<equiv> create_agent_handle id plain_ops no_print hire_input boss_ctx 9 2 office"

theorem allowlist_crosses_tenants_witness:
  "\<exists>t \<in> set (ad_agents (snd hire)). at_id t = 2 \<and> at_org t \<noteq> 4 \<and> scoped_get catalogue (ag_allowed_mcp_tools (at_row t)) ''mcp_gh_create'' = Some foreign_tool"
proof -
  have "fst hire = Ok (2, ''scout'')" by code_simp
  then have run: "hire = (Ok (2, ''scout''), snd hire)" by (simp add: prod_eq_iff)
  have "\<exists>t \<in> set (ad_agents (snd hire)). at_id t = 2 \<and> at_org t \<noteq> srv_org_id foreign_server \<and>
      scoped_get catalogue (ag_allowed_mcp_tools (at_row t)) ''mcp_gh_create'' = Some foreign_tool"
  proof (rule allowlist_crosses_tenants [OF run])
    show "mcp_lookup catalogue ''mcp_gh_create'' = Some (foreign_tool, \<lparr>or_server = 2, or_remote_name = ''create''\<rparr>)"
      by (simp add: mcp_lookup_def catalogue_def)
    show "agent_trow_of office 1 = Some boss_row" by (simp add: agent_trow_of_def office_def boss_row_def boss_def)
  qed (simp_all add: hire_input_def foreign_server_def boss_ctx_def boss_row_def boss_def)
  then show ?thesis by (simp add: foreign_server_def)
qed

end
