(* ===== verification/Credentials.thy ===== *)
theory Credentials
  imports Mcp_Registry
begin

text \<open>
  Credentials of remote servers at rest: the envelope encryption of \<open>src/crypto/mod.rs\<close>, the payloads of
  \<open>src/mcp/credentials.rs\<close> and the store of \<open>src/mcp/pg_credentials.rs\<close>.

  HKDF, AES-GCM and base64 are the crates' (\<open>crypto_lib\<close>), and so is the JSON codec of a payload (\<open>cred_json\<close>). What
  the code relies on is stated as \<open>aead_law\<close> (decryption undoes encryption under the same key and nonce, and encryption
  only refuses plaintexts larger than any the code builds) and \<open>json_law\<close> (decoding undoes encoding). Nonces and the
  time are arguments. The cache of derived keys is part of the state. The tables carry the constraints of migration 21:
  one credential per server, in the organisation of its server. \<open>McpDb\<close> stands for the error Postgres raises when a
  statement violates one. Message texts leave out identifiers that the code prints in debug form.
\<close>

section \<open>Envelope encryption (crypto/mod.rs)\<close>

definition KEY_BYTES :: nat where "KEY_BYTES = 32"
definition NONCE_BYTES :: nat where "NONCE_BYTES = 12"
definition CURRENT_KEY_VERSION :: int where "CURRENT_KEY_VERSION = 1"
definition KEK_INFO :: string where "KEK_INFO = ''relay-mcp-cred-v1''"

record crypto_lib =
  cl_base64 :: "string \<Rightarrow> string + string"
  cl_hkdf :: "org_id \<Rightarrow> string \<Rightarrow> string \<Rightarrow> string option"
  cl_encrypt :: "string \<Rightarrow> string \<Rightarrow> string \<Rightarrow> string option"
  cl_decrypt :: "string \<Rightarrow> string \<Rightarrow> string \<Rightarrow> string option"

datatype crypto_error =
    MasterKekSize nat nat
  | MasterKekDecode string
  | KeyDerivation
  | DecryptRejected
  | UnknownKeyVersion int

record encrypted_blob =
  eb_key_version :: int
  eb_nonce :: string
  eb_ciphertext :: string

record encryptor =
  enc_versions :: "(int \<times> string) list"
  enc_cache :: "((int \<times> org_id) \<times> string) list"

definition encryptor_from_settings :: "crypto_lib \<Rightarrow> string \<Rightarrow> (crypto_error, encryptor) outcome" where
  "encryptor_from_settings lib master_kek_b64 =
     (case cl_base64 lib master_kek_b64 of
        Inl e \<Rightarrow> Err (MasterKekDecode e)
      | Inr raw \<Rightarrow>
          if length raw \<noteq> KEY_BYTES then Err (MasterKekSize KEY_BYTES (length raw))
          else Ok \<lparr>enc_versions = [(CURRENT_KEY_VERSION, raw)], enc_cache = []\<rparr>)"

definition org_kek :: "crypto_lib \<Rightarrow> int \<Rightarrow> org_id \<Rightarrow> encryptor \<Rightarrow> (crypto_error, string) outcome \<times> encryptor" where
  "org_kek lib version org e =
     (case map_of (enc_cache e) (version, org) of
        Some k \<Rightarrow> (Ok k, e)
      | None \<Rightarrow>
          (case map_of (enc_versions e) version of
             None \<Rightarrow> (Err (UnknownKeyVersion version), e)
           | Some master \<Rightarrow>
               (case cl_hkdf lib org master KEK_INFO of
                  None \<Rightarrow> (Err KeyDerivation, e)
                | Some derived \<Rightarrow> (Ok derived, e\<lparr>enc_cache := ((version, org), derived) # enc_cache e\<rparr>))))"

definition seal :: "crypto_lib \<Rightarrow> org_id \<Rightarrow> string \<Rightarrow> string \<Rightarrow> encryptor \<Rightarrow> (crypto_error, encrypted_blob) outcome \<times> encryptor" where
  "seal lib org nonce plaintext e =
     tx_bind (org_kek lib CURRENT_KEY_VERSION org e) (\<lambda>kek e'.
       case cl_encrypt lib kek nonce plaintext of
         None \<Rightarrow> (Err DecryptRejected, e')
       | Some c \<Rightarrow> (Ok \<lparr>eb_key_version = CURRENT_KEY_VERSION, eb_nonce = nonce, eb_ciphertext = c\<rparr>, e'))"

definition unseal :: "crypto_lib \<Rightarrow> org_id \<Rightarrow> encrypted_blob \<Rightarrow> encryptor \<Rightarrow> (crypto_error, string) outcome \<times> encryptor" where
  "unseal lib org blob e =
     tx_bind (org_kek lib (eb_key_version blob) org e) (\<lambda>kek e'.
       case cl_decrypt lib kek (eb_nonce blob) (eb_ciphertext blob) of
         None \<Rightarrow> (Err DecryptRejected, e')
       | Some p \<Rightarrow> (Ok p, e'))"

section \<open>Payloads (mcp/credentials.rs)\<close>

definition MAX_CREDENTIAL_PLAINTEXT :: nat where "MAX_CREDENTIAL_PLAINTEXT = 64 * 1024"

record oauth2_payload =
  oa_access_token :: string
  oa_refresh_token :: "string option"
  oa_expires_at :: instant
  oa_scope :: "string option"
  oa_issuer :: string
  oa_token_endpoint :: string

datatype credential_payload = StaticHeaders "(string \<times> string) list" | Oauth2 oauth2_payload

fun kind_label :: "credential_payload \<Rightarrow> string" where
  "kind_label (StaticHeaders _) = ''static_headers''"
| "kind_label (Oauth2 _) = ''oauth2''"

datatype mcp_error =
    McpNotFound mcp_server_id
  | McpAliasTaken string
  | McpServerCapExceeded nat
  | McpParse parse_error
  | McpInvalidConfig string
  | McpConnect string
  | McpListTools string
  | McpBackend string
  | McpDb string
  | McpCrypto crypto_error

record cred_json =
  cj_encode :: "credential_payload \<Rightarrow> string + string"
  cj_decode :: "string \<Rightarrow> string + credential_payload"

definition lift_crypto :: "(crypto_error, 'a) outcome \<times> 's \<Rightarrow> (mcp_error, 'a) outcome \<times> 's" where
  "lift_crypto r = (map_err McpCrypto (fst r), snd r)"

definition seal_payload ::
  "crypto_lib \<Rightarrow> cred_json \<Rightarrow> org_id \<Rightarrow> string \<Rightarrow> credential_payload \<Rightarrow> encryptor \<Rightarrow> (mcp_error, string \<times> encrypted_blob) outcome \<times> encryptor" where
  "seal_payload lib js org nonce payload e =
     (case cj_encode js payload of
        Inl m \<Rightarrow> (Err (McpBackend (''encode credential: '' @ m)), e)
      | Inr json \<Rightarrow>
          if MAX_CREDENTIAL_PLAINTEXT < length json
          then (Err (McpInvalidConfig (''credential payload exceeds '' @ show_nat MAX_CREDENTIAL_PLAINTEXT @ '' bytes'')), e)
          else tx_bind (lift_crypto (seal lib org nonce json e)) (\<lambda>blob e'. (Ok (kind_label payload, blob), e')))"

definition open_payload ::
  "crypto_lib \<Rightarrow> cred_json \<Rightarrow> org_id \<Rightarrow> string \<Rightarrow> encrypted_blob \<Rightarrow> encryptor \<Rightarrow> (mcp_error, credential_payload) outcome \<times> encryptor" where
  "open_payload lib js org knd blob e =
     tx_bind (lift_crypto (unseal lib org blob e)) (\<lambda>plaintext e'.
       case cj_decode js plaintext of
         Inl m \<Rightarrow> (Err (McpBackend (''decode credential: '' @ m)), e')
       | Inr payload \<Rightarrow>
           if kind_label payload \<noteq> knd
           then (Err (McpBackend (''credential kind/'' @ knd @ '' mismatches payload/'' @ kind_label payload)), e')
           else (Ok payload, e'))"

section \<open>The credential store (mcp/pg\_credentials.rs)\<close>

record credential_row =
  cr_server_id :: mcp_server_id
  cr_org_id :: org_id
  cr_kind :: string
  cr_ciphertext :: string
  cr_nonce :: string
  cr_key_version :: int
  cr_created_at :: instant
  cr_updated_at :: instant

text \<open>A registered server; \<open>sv_config\<close> is the URL of its transport. Its own operations are in \<open>Mcp_Servers\<close>.\<close>

record server_row =
  sv_id :: mcp_server_id
  sv_org_id :: org_id
  sv_alias :: string
  sv_enabled :: bool
  sv_config :: string
  sv_description :: "string option"
  sv_last_seen_at :: "instant option"
  sv_last_error :: "string option"
  sv_discovered_tools :: "discovered_tool list option"
  sv_created_by_user_id :: user_id
  sv_connection_status :: string
  sv_created_at :: instant
  sv_updated_at :: instant

text \<open>A registered OAuth client, as its table stores it; the operations are in \<open>Oauth_Store\<close>.\<close>

datatype token_auth_method = NoAuth | ClientSecretBasic | ClientSecretPost

record oauth_client_row =
  oc_org_id :: org_id
  oc_issuer :: string
  oc_client_id :: string
  oc_authorization_endpoint :: string
  oc_token_endpoint :: string
  oc_registration_client_uri :: "string option"
  oc_registration_access_token :: "(string \<times> string) option"
  oc_client_secret :: "(string \<times> string) option"
  oc_key_version :: int
  oc_token_endpoint_auth_method :: token_auth_method
  oc_scope :: "string option"
  oc_created_at :: instant

record cred_world =
  cw_enc :: encryptor
  cw_credentials :: "credential_row list"
  cw_servers :: "server_row list"
  cw_clients :: "oauth_client_row list"

record credential_record =
  rec_server_id :: mcp_server_id
  rec_org_id :: org_id
  rec_payload :: credential_payload

type_synonym 'a cred_result = "(mcp_error, 'a) outcome \<times> cred_world"

text \<open>Run a step of the encryptor inside the world.\<close>

definition with_enc :: "(encryptor \<Rightarrow> ('e, 'a) outcome \<times> encryptor) \<Rightarrow> cred_world \<Rightarrow> ('e, 'a) outcome \<times> cred_world" where
  "with_enc f w = (fst (f (cw_enc w)), w\<lparr>cw_enc := snd (f (cw_enc w))\<rparr>)"

text \<open>The upsert statement: the trigger on the parent server, the checks of the table, then insert or guarded update. The number is the rows affected.\<close>

definition upsert_row :: "credential_row \<Rightarrow> cred_world \<Rightarrow> nat cred_result" where
  "upsert_row r w =
     (case find (\<lambda>s. sv_id s = cr_server_id r) (cw_servers w) of
        None \<Rightarrow> (Err (McpDb ''parent server does not exist''), w)
      | Some s \<Rightarrow>
          if sv_org_id s \<noteq> cr_org_id r then (Err (McpDb ''org_id does not match parent server''), w)
          else if length (cr_nonce r) \<noteq> NONCE_BYTES then (Err (McpDb ''check nonce''), w)
          else if list_ex (\<lambda>c. cr_server_id c = cr_server_id r) (cw_credentials w)
          then (Ok (rows_affected (\<lambda>c. cr_server_id c = cr_server_id r \<and> cr_org_id c = cr_org_id r) (cw_credentials w)),
                w\<lparr>cw_credentials := update_where (\<lambda>c. cr_server_id c = cr_server_id r \<and> cr_org_id c = cr_org_id r)
                    (\<lambda>c. r\<lparr>cr_created_at := cr_created_at c\<rparr>) (cw_credentials w)\<rparr>)
          else (Ok 1, w\<lparr>cw_credentials := cw_credentials w @ [r]\<rparr>))"

definition cred_upsert ::
  "crypto_lib \<Rightarrow> cred_json \<Rightarrow> string \<Rightarrow> instant \<Rightarrow> credential_record \<Rightarrow> cred_world \<Rightarrow> unit cred_result" where
  "cred_upsert lib js nonce now rec w =
     tx_bind (with_enc (seal_payload lib js (rec_org_id rec) nonce (rec_payload rec)) w) (\<lambda>(knd, blob) w1.
       run_tx (\<lambda>w2. tx_bind (upsert_row
           \<lparr>cr_server_id = rec_server_id rec, cr_org_id = rec_org_id rec, cr_kind = knd, cr_ciphertext = eb_ciphertext blob,
            cr_nonce = eb_nonce blob, cr_key_version = eb_key_version blob, cr_created_at = now, cr_updated_at = now\<rparr> w2)
         (\<lambda>affected w3. if affected = 0 then (Err (McpBackend ''credential upsert: org_id mismatch on existing row''), w3) else (Ok (), w3))) w1)"

definition cred_delete :: "mcp_server_id \<Rightarrow> org_id \<Rightarrow> cred_world \<Rightarrow> unit cred_result" where
  "cred_delete server org w =
     (Ok (), w\<lparr>cw_credentials := delete_where (\<lambda>c. cr_server_id c = server \<and> cr_org_id c = org) (cw_credentials w)\<rparr>)"

definition into_record :: "crypto_lib \<Rightarrow> cred_json \<Rightarrow> credential_row \<Rightarrow> encryptor \<Rightarrow> (mcp_error, credential_record) outcome \<times> encryptor" where
  "into_record lib js r e =
     (if length (cr_nonce r) \<noteq> NONCE_BYTES then (Err (McpBackend ''credential nonce: wrong byte length''), e)
      else tx_bind (open_payload lib js (cr_org_id r) (cr_kind r)
          \<lparr>eb_key_version = cr_key_version r, eb_nonce = cr_nonce r, eb_ciphertext = cr_ciphertext r\<rparr> e)
        (\<lambda>payload e'. (Ok \<lparr>rec_server_id = cr_server_id r, rec_org_id = cr_org_id r, rec_payload = payload\<rparr>, e')))"

fun into_records ::
  "crypto_lib \<Rightarrow> cred_json \<Rightarrow> credential_row list \<Rightarrow> encryptor \<Rightarrow> (mcp_error, credential_record list) outcome \<times> encryptor" where
  "into_records lib js [] e = (Ok [], e)"
| "into_records lib js (r # rs) e =
     tx_bind (into_record lib js r e) (\<lambda>x e1. tx_bind (into_records lib js rs e1) (\<lambda>xs e2. (Ok (x # xs), e2)))"

definition cred_list_all :: "crypto_lib \<Rightarrow> cred_json \<Rightarrow> cred_world \<Rightarrow> credential_record list cred_result" where
  "cred_list_all lib js w = with_enc (into_records lib js (cw_credentials w)) w"

definition cred_read ::
  "crypto_lib \<Rightarrow> cred_json \<Rightarrow> mcp_server_id \<Rightarrow> org_id \<Rightarrow> cred_world \<Rightarrow> credential_record option cred_result" where
  "cred_read lib js server org w =
     (case find (\<lambda>c. cr_server_id c = server \<and> cr_org_id c = org) (cw_credentials w) of
        None \<Rightarrow> (Ok None, w)
      | Some r \<Rightarrow> tx_bind (with_enc (into_record lib js r) w) (\<lambda>x w'. (Ok (Some x), w')))"

section \<open>Sealing and opening\<close>

definition aead_law :: "crypto_lib \<Rightarrow> bool" where
  "aead_law lib \<longleftrightarrow> (\<forall>k n p. case cl_encrypt lib k n p of
     None \<Rightarrow> MAX_CREDENTIAL_PLAINTEXT < length p | Some c \<Rightarrow> cl_decrypt lib k n c = Some p)"

definition json_law :: "cred_json \<Rightarrow> bool" where
  "json_law js \<longleftrightarrow> (\<forall>p s. cj_encode js p = Inr s \<longrightarrow> cj_decode js s = Inr p)"

text \<open>The key of an organisation, derived afresh.\<close>

definition derived_kek :: "crypto_lib \<Rightarrow> encryptor \<Rightarrow> int \<times> org_id \<Rightarrow> string option" where
  "derived_kek lib e = (\<lambda>(version, org). Option.bind (map_of (enc_versions e) version) (\<lambda>master. cl_hkdf lib org master KEK_INFO))"

definition kek_coherent :: "crypto_lib \<Rightarrow> encryptor \<Rightarrow> bool" where
  "kek_coherent lib e \<longleftrightarrow> map_of (enc_cache e) \<subseteq>\<^sub>m derived_kek lib e"

text \<open>Two encryptors with the same keys, whatever their caches hold.\<close>

definition same_keys :: "crypto_lib \<Rightarrow> encryptor \<Rightarrow> encryptor \<Rightarrow> bool" where
  "same_keys lib e e' \<longleftrightarrow> enc_versions e' = enc_versions e \<and> kek_coherent lib e'"

lemma same_keys_derived: "same_keys lib e e' \<Longrightarrow> derived_kek lib e' = derived_kek lib e"
  by (simp add: same_keys_def derived_kek_def)

lemma same_keys_refl: "kek_coherent lib e \<Longrightarrow> same_keys lib e e"
  by (simp add: same_keys_def)

lemma same_keys_trans: "same_keys lib e e1 \<Longrightarrow> same_keys lib e1 e2 \<Longrightarrow> same_keys lib e e2"
  by (simp add: same_keys_def)

lemma org_kek_derived:
  assumes "kek_coherent lib e" and "derived_kek lib e (version, org) = Some k"
  shows "\<exists>e'. org_kek lib version org e = (Ok k, e') \<and> same_keys lib e e'"
proof (cases "map_of (enc_cache e) (version, org)")
  case (Some k')
  with assms have "k' = k" by (auto simp: kek_coherent_def map_le_def dom_def)
  with Some assms(1) show ?thesis by (auto simp: org_kek_def same_keys_def)
next
  case None
  with assms show ?thesis
    by (auto simp: org_kek_def same_keys_def kek_coherent_def derived_kek_def map_le_def split: option.splits bind_splits)
qed

lemma org_kek_underivable:
  assumes "kek_coherent lib e" and "derived_kek lib e (version, org) = None"
  shows "\<exists>err. org_kek lib version org e = (Err err, e)"
proof -
  from assms have "map_of (enc_cache e) (version, org) = None"
    by (cases "map_of (enc_cache e) (version, org)") (auto simp: kek_coherent_def map_le_def dom_def)
  with assms(2) show ?thesis
    by (auto simp: org_kek_def derived_kek_def split: option.splits bind_splits)
qed

lemma aead_lawD:
  assumes "aead_law lib" and "length p \<le> MAX_CREDENTIAL_PLAINTEXT"
  shows "\<exists>c. cl_encrypt lib k n p = Some c \<and> cl_decrypt lib k n c = Some p"
proof -
  from assms(1) have "case cl_encrypt lib k n p of None \<Rightarrow> MAX_CREDENTIAL_PLAINTEXT < length p | Some c \<Rightarrow> cl_decrypt lib k n c = Some p"
    by (simp add: aead_law_def)
  with assms(2) show ?thesis by (cases "cl_encrypt lib k n p") simp_all
qed

lemma seal_Ok:
  assumes "aead_law lib" and "kek_coherent lib e" and "derived_kek lib e (CURRENT_KEY_VERSION, org) = Some k"
    and "length p \<le> MAX_CREDENTIAL_PLAINTEXT"
  shows "\<exists>c e'. seal lib org nonce p e = (Ok \<lparr>eb_key_version = CURRENT_KEY_VERSION, eb_nonce = nonce, eb_ciphertext = c\<rparr>, e')
           \<and> cl_decrypt lib k nonce c = Some p \<and> same_keys lib e e'"
proof -
  from org_kek_derived [OF assms(2,3)] obtain e' where "org_kek lib CURRENT_KEY_VERSION org e = (Ok k, e')" and "same_keys lib e e'"
    by blast
  moreover from assms(1,4) obtain c where "cl_encrypt lib k nonce p = Some c" and "cl_decrypt lib k nonce c = Some p"
    using aead_lawD [of lib p k nonce] by blast
  ultimately show ?thesis by (simp add: seal_def)
qed

lemma unseal_Ok:
  assumes "kek_coherent lib e" and "derived_kek lib e (eb_key_version blob, org) = Some k"
    and "cl_decrypt lib k (eb_nonce blob) (eb_ciphertext blob) = Some p"
  shows "\<exists>e'. unseal lib org blob e = (Ok p, e') \<and> same_keys lib e e'"
  using org_kek_derived [OF assms(1,2)] assms(3) by (auto simp: unseal_def)

section \<open>The store keeps what it is given\<close>

text \<open>The constraints of the credential table and its trigger.\<close>

definition cred_ok :: "cred_world \<Rightarrow> bool" where
  "cred_ok w \<longleftrightarrow> distinct (map cr_server_id (cw_credentials w)) \<and> distinct (map sv_id (cw_servers w)) \<and>
     (\<forall>c \<in> set (cw_credentials w). \<exists>s \<in> set (cw_servers w). sv_id s = cr_server_id c \<and> sv_org_id s = cr_org_id c)"

lemma find_server:
  "cred_ok w \<Longrightarrow> s \<in> set (cw_servers w) \<Longrightarrow> find (\<lambda>t. sv_id t = sv_id s) (cw_servers w) = Some s"
  unfolding cred_ok_def by (rule find_Some_iff_distinct) simp_all

lemma cred_org:
  "cred_ok w \<Longrightarrow> c \<in> set (cw_credentials w) \<Longrightarrow> s \<in> set (cw_servers w) \<Longrightarrow> sv_id s = cr_server_id c \<Longrightarrow> cr_org_id c = sv_org_id s"
  unfolding cred_ok_def using distinct_map_eqD [of sv_id "cw_servers w"] by fastforce

definition row_holds :: "crypto_lib \<Rightarrow> cred_json \<Rightarrow> encryptor \<Rightarrow> credential_row \<Rightarrow> credential_payload \<Rightarrow> bool" where
  "row_holds lib js e c p \<longleftrightarrow> length (cr_nonce c) = NONCE_BYTES \<and> cr_kind c = kind_label p \<and>
     (\<exists>k s. derived_kek lib e (cr_key_version c, cr_org_id c) = Some k \<and>
        cl_decrypt lib k (cr_nonce c) (cr_ciphertext c) = Some s \<and> cj_decode js s = Inr p)"

lemma row_holds_same_keys: "same_keys lib e e' \<Longrightarrow> row_holds lib js e' c p = row_holds lib js e c p"
  by (simp add: row_holds_def same_keys_derived)

lemma open_row:
  assumes "kek_coherent lib e" and "row_holds lib js e c p"
  shows "\<exists>e'. open_payload lib js (cr_org_id c) (cr_kind c)
      \<lparr>eb_key_version = cr_key_version c, eb_nonce = cr_nonce c, eb_ciphertext = cr_ciphertext c\<rparr> e = (Ok p, e') \<and> same_keys lib e e'"
proof -
  let ?b = "\<lparr>eb_key_version = cr_key_version c, eb_nonce = cr_nonce c, eb_ciphertext = cr_ciphertext c\<rparr>"
  from assms(2) obtain k s where k: "derived_kek lib e (eb_key_version ?b, cr_org_id c) = Some k"
    and s: "cl_decrypt lib k (eb_nonce ?b) (eb_ciphertext ?b) = Some s" and j: "cj_decode js s = Inr p" "cr_kind c = kind_label p"
    by (auto simp: row_holds_def)
  from unseal_Ok [OF assms(1) k s] obtain e' where "unseal lib (cr_org_id c) ?b e = (Ok s, e')" and "same_keys lib e e'" by blast
  with j show ?thesis by (simp add: open_payload_def lift_crypto_def)
qed

lemma into_record_Ok:
  assumes "kek_coherent lib e" and "row_holds lib js e c p"
  shows "\<exists>e'. into_record lib js c e = (Ok \<lparr>rec_server_id = cr_server_id c, rec_org_id = cr_org_id c, rec_payload = p\<rparr>, e') \<and> same_keys lib e e'"
  using open_row [OF assms] assms(2) by (auto simp: into_record_def row_holds_def)

lemma seal_payload_Ok:
  assumes "aead_law lib" and "json_law js" and "kek_coherent lib e" and "derived_kek lib e (CURRENT_KEY_VERSION, org) = Some k"
    and "cj_encode js p = Inr json" and "length json \<le> MAX_CREDENTIAL_PLAINTEXT"
  shows "\<exists>blob e'. seal_payload lib js org nonce p e = (Ok (kind_label p, blob), e') \<and> same_keys lib e e' \<and> eb_nonce blob = nonce \<and>
           eb_key_version blob = CURRENT_KEY_VERSION \<and> cl_decrypt lib k nonce (eb_ciphertext blob) = Some json \<and> cj_decode js json = Inr p"
proof -
  from seal_Ok [OF assms(1,3,4,6), of nonce] obtain c e' where
    "seal lib org nonce json e = (Ok \<lparr>eb_key_version = CURRENT_KEY_VERSION, eb_nonce = nonce, eb_ciphertext = c\<rparr>, e')"
    and "cl_decrypt lib k nonce c = Some json" and "same_keys lib e e'"
    by blast
  moreover from assms(2,5) have "cj_decode js json = Inr p" by (simp add: json_law_def)
  ultimately show ?thesis using assms(5,6) by (auto simp: seal_payload_def lift_crypto_def)
qed

text \<open>The write succeeds for a server of the organisation, and leaves one row for it.\<close>

lemma upsert_row_Ok:
  assumes "cred_ok w" and "s \<in> set (cw_servers w)" and "sv_id s = cr_server_id r" and "sv_org_id s = cr_org_id r"
    and "length (cr_nonce r) = NONCE_BYTES"
  shows "\<exists>n t. upsert_row r w = (Ok (Suc n), w\<lparr>cw_credentials := t\<rparr>) \<and> cred_ok (w\<lparr>cw_credentials := t\<rparr>) \<and>
           (\<exists>at. r\<lparr>cr_created_at := at\<rparr> \<in> set t) \<and>
           filter (\<lambda>c. cr_server_id c \<noteq> cr_server_id r) t = filter (\<lambda>c. cr_server_id c \<noteq> cr_server_id r) (cw_credentials w)"
proof (cases "\<exists>c \<in> set (cw_credentials w). cr_server_id c = cr_server_id r")
  case False
  then have "\<not> list_ex (\<lambda>c. cr_server_id c = cr_server_id r) (cw_credentials w)" by (simp add: list_ex_iff)
  then have "upsert_row r w = (Ok (Suc 0), w\<lparr>cw_credentials := cw_credentials w @ [r]\<rparr>)"
    using assms find_server [OF assms(1,2)] by (simp add: upsert_row_def)
  moreover have "r\<lparr>cr_created_at := cr_created_at r\<rparr> = r" by simp
  moreover have "cred_ok (w\<lparr>cw_credentials := cw_credentials w @ [r]\<rparr>)" using False assms by (auto simp: cred_ok_def)
  ultimately show ?thesis by (intro exI [of _ "0::nat"] exI [of _ "cw_credentials w @ [r]"]) (auto intro!: exI [of _ "cr_created_at r"])
next
  case True
  then obtain c where c: "c \<in> set (cw_credentials w)" "cr_server_id c = cr_server_id r" by blast
  let ?P = "\<lambda>c. cr_server_id c = cr_server_id r \<and> cr_org_id c = cr_org_id r"
  let ?f = "\<lambda>c :: credential_row. r\<lparr>cr_created_at := cr_created_at c\<rparr>"
  let ?t = "update_where ?P ?f (cw_credentials w)"
  have same: "filter (\<lambda>c. cr_server_id c \<noteq> cr_server_id r) (update_where ?P ?f cs) = filter (\<lambda>c. cr_server_id c \<noteq> cr_server_id r) cs" for cs
    by (induction cs) auto
  from c cred_org [OF assms(1) c(1) assms(2)] assms(3,4) have org: "cr_org_id c = cr_org_id r" by simp
  then have "0 < rows_affected ?P (cw_credentials w)" using c by (auto simp: rows_affected_pos)
  then obtain n where "rows_affected ?P (cw_credentials w) = Suc n" using gr0_implies_Suc by blast
  then have "upsert_row r w = (Ok (Suc n), w\<lparr>cw_credentials := ?t\<rparr>)"
    using assms True find_server [OF assms(1,2)] by (simp add: upsert_row_def list_ex_iff)
  moreover have "?f c \<in> set ?t" using c org by (auto simp: in_update_where_iff)
  moreover have "filter (\<lambda>c. cr_server_id c \<noteq> cr_server_id r) ?t = filter (\<lambda>c. cr_server_id c \<noteq> cr_server_id r) (cw_credentials w)"
    by (rule same)
  moreover have "map cr_server_id ?t = map cr_server_id (cw_credentials w)" by (simp add: update_where_def)
  then have "cred_ok (w\<lparr>cw_credentials := ?t\<rparr>)"
    using assms(1) by (auto simp: cred_ok_def in_update_where_iff) (use assms(2-4) in blast)
  ultimately show ?thesis by blast
qed

lemma cred_upsert_Ok:
  assumes "aead_law lib" and "json_law js" and "kek_coherent lib (cw_enc w)" and "cred_ok w"
    and "s \<in> set (cw_servers w)" and "sv_id s = rec_server_id rec" and "sv_org_id s = rec_org_id rec" and "length nonce = NONCE_BYTES"
    and "derived_kek lib (cw_enc w) (CURRENT_KEY_VERSION, rec_org_id rec) = Some k"
    and "cj_encode js (rec_payload rec) = Inr json" and "length json \<le> MAX_CREDENTIAL_PLAINTEXT"
  shows "\<exists>w' c. cred_upsert lib js nonce now rec w = (Ok (), w') \<and> cred_ok w' \<and> same_keys lib (cw_enc w) (cw_enc w') \<and>
     c \<in> set (cw_credentials w') \<and> cr_server_id c = rec_server_id rec \<and> cr_org_id c = rec_org_id rec \<and>
     row_holds lib js (cw_enc w') c (rec_payload rec) \<and> cw_servers w' = cw_servers w \<and> cw_clients w' = cw_clients w \<and>
     filter (\<lambda>c. cr_server_id c \<noteq> rec_server_id rec) (cw_credentials w') = filter (\<lambda>c. cr_server_id c \<noteq> rec_server_id rec) (cw_credentials w)"
proof -
  from seal_payload_Ok [OF assms(1-3) assms(9-11), of nonce] obtain blob e' where
    sealed: "seal_payload lib js (rec_org_id rec) nonce (rec_payload rec) (cw_enc w) = (Ok (kind_label (rec_payload rec), blob), e')"
    and keys: "same_keys lib (cw_enc w) e'" and blob: "eb_nonce blob = nonce" "eb_key_version blob = CURRENT_KEY_VERSION"
      "cl_decrypt lib k nonce (eb_ciphertext blob) = Some json" "cj_decode js json = Inr (rec_payload rec)"
    by blast
  let ?w = "w\<lparr>cw_enc := e'\<rparr>"
  let ?r = "\<lparr>cr_server_id = rec_server_id rec, cr_org_id = rec_org_id rec, cr_kind = kind_label (rec_payload rec), cr_ciphertext = eb_ciphertext blob,
            cr_nonce = eb_nonce blob, cr_key_version = eb_key_version blob, cr_created_at = now, cr_updated_at = now\<rparr>"
  have "cred_ok ?w" and "s \<in> set (cw_servers ?w)" using assms(4,5) by (simp_all add: cred_ok_def)
  from upsert_row_Ok [OF this, of ?r] assms(6-8) blob(1) obtain n t at where
    up: "upsert_row ?r ?w = (Ok (Suc n), ?w\<lparr>cw_credentials := t\<rparr>)" "cred_ok (?w\<lparr>cw_credentials := t\<rparr>)"
    and at: "?r\<lparr>cr_created_at := at\<rparr> \<in> set t"
    and others: "filter (\<lambda>c. cr_server_id c \<noteq> rec_server_id rec) t = filter (\<lambda>c. cr_server_id c \<noteq> rec_server_id rec) (cw_credentials w)"
    by auto
  from up(1) sealed have "cred_upsert lib js nonce now rec w = (Ok (), ?w\<lparr>cw_credentials := t\<rparr>)"
    by (simp add: cred_upsert_def with_enc_def)
  moreover have "row_holds lib js e' (?r\<lparr>cr_created_at := at\<rparr>) (rec_payload rec)"
    using blob assms(8,9) same_keys_derived [OF keys] by (simp add: row_holds_def)
  ultimately show ?thesis using up(2) at keys others
    by (intro exI [of _ "?w\<lparr>cw_credentials := t\<rparr>"] exI [of _ "?r\<lparr>cr_created_at := at\<rparr>"]) simp
qed

lemma find_by_id: "distinct (map g xs) \<Longrightarrow> x \<in> set xs \<Longrightarrow> P x \<Longrightarrow> find (\<lambda>y. g y = g x \<and> P y) xs = Some x"
  by (induction xs) (auto simp: rev_image_eqI)

lemma cred_read_Ok:
  assumes "kek_coherent lib (cw_enc w)" and "cred_ok w" and "c \<in> set (cw_credentials w)" and "row_holds lib js (cw_enc w) c p"
  shows "\<exists>e'. cred_read lib js (cr_server_id c) org w =
           (if org = cr_org_id c then (Ok (Some \<lparr>rec_server_id = cr_server_id c, rec_org_id = org, rec_payload = p\<rparr>), w\<lparr>cw_enc := e'\<rparr>) else (Ok None, w))
           \<and> same_keys lib (cw_enc w) e'"
proof (cases "org = cr_org_id c")
  case True
  from assms(2) have "distinct (map cr_server_id (cw_credentials w))" by (simp add: cred_ok_def)
  then have "find (\<lambda>d. cr_server_id d = cr_server_id c \<and> cr_org_id d = cr_org_id c) (cw_credentials w) = Some c"
    using assms(3) by (rule find_by_id) simp
  with True into_record_Ok [OF assms(1,4)] show ?thesis by (auto simp: cred_read_def with_enc_def)
next
  case False
  from assms(2) have "distinct (map cr_server_id (cw_credentials w))" by (simp add: cred_ok_def)
  with False assms(3) have "find (\<lambda>d. cr_server_id d = cr_server_id c \<and> cr_org_id d = org) (cw_credentials w) = None"
    by (auto simp: find_None_iff dest: distinct_map_eqD)
  with False assms(1) show ?thesis by (auto simp: cred_read_def intro: same_keys_refl)
qed

text \<open>C32. A credential written for a server of the organisation is stored, and reading it back with the organisation gives exactly the
  payload written, whatever keys the process has cached; any other organisation reads nothing. Rows of other servers are untouched.\<close>

theorem credentials_roundtrip:
  assumes "aead_law lib" and "json_law js" and "kek_coherent lib (cw_enc w)" and "cred_ok w"
    and "s \<in> set (cw_servers w)" and "sv_id s = rec_server_id rec" and "sv_org_id s = rec_org_id rec" and "length nonce = NONCE_BYTES"
    and "derived_kek lib (cw_enc w) (CURRENT_KEY_VERSION, rec_org_id rec) = Some k"
    and "cj_encode js (rec_payload rec) = Inr json" and "length json \<le> MAX_CREDENTIAL_PLAINTEXT"
  shows "\<exists>w'. cred_upsert lib js nonce now rec w = (Ok (), w') \<and> cred_ok w' \<and> kek_coherent lib (cw_enc w') \<and>
     fst (cred_read lib js (rec_server_id rec) (rec_org_id rec) w') = Ok (Some rec) \<and>
     (\<forall>org. org \<noteq> rec_org_id rec \<longrightarrow> fst (cred_read lib js (rec_server_id rec) org w') = Ok None) \<and>
     filter (\<lambda>c. cr_server_id c \<noteq> rec_server_id rec) (cw_credentials w') = filter (\<lambda>c. cr_server_id c \<noteq> rec_server_id rec) (cw_credentials w)"
proof -
  from cred_upsert_Ok [OF assms, of now] obtain w' c where up: "cred_upsert lib js nonce now rec w = (Ok (), w')" "cred_ok w'"
    and keys: "same_keys lib (cw_enc w) (cw_enc w')" and c: "c \<in> set (cw_credentials w')" "cr_server_id c = rec_server_id rec"
      "cr_org_id c = rec_org_id rec" "row_holds lib js (cw_enc w') c (rec_payload rec)"
    and rest: "filter (\<lambda>c. cr_server_id c \<noteq> rec_server_id rec) (cw_credentials w') = filter (\<lambda>c. cr_server_id c \<noteq> rec_server_id rec) (cw_credentials w)"
    by blast
  from keys have coherent: "kek_coherent lib (cw_enc w')" by (simp add: same_keys_def)
  have "fst (cred_read lib js (rec_server_id rec) org w') = (if org = rec_org_id rec then Ok (Some rec) else Ok None)" for org
    using cred_read_Ok [OF coherent up(2) c(1,4), of org] c(2,3) by (auto split: if_splits)
  with up coherent rest show ?thesis by auto
qed

end
