(* ===== verification/Oauth_Store.thy ===== *)
theory Oauth_Store
  imports Credentials Web_Fetch Relay_Systems
begin

text \<open>
  OAuth for remote servers: registered clients and pending authorizations (\<open>src/mcp/oauth/store.rs\<close>, \<open>pg_store.rs\<close>), the code
  exchange and the refresh grant (\<open>flow.rs\<close>), and the background task that renews tokens (\<open>refresher.rs\<close>).

  The token endpoint and the URL checks of the \<open>oauth2\<close> crate are parameters. Times are whole seconds; adding to one panics past
  the last instant of chrono. The per-server mutex of the refresher makes the renewal of one credential a step of its own, so it
  is one function here; the errors of one row are logged and the task goes on, a panic ends the task.
\<close>

datatype oauth_error =
    ODiscovery string
  | ODcr string
  | OTokenEndpoint string
  | OInvalidState
  | OExpired
  | ORefreshRevoked
  | OCrypto crypto_error
  | ODb string
  | OMcp mcp_error
  | OMisconfigured string

section \<open>Registered clients\<close>

fun token_auth_method_as_str :: "token_auth_method \<Rightarrow> string" where
  "token_auth_method_as_str NoAuth = ''none''"
| "token_auth_method_as_str ClientSecretBasic = ''client_secret_basic''"
| "token_auth_method_as_str ClientSecretPost = ''client_secret_post''"

definition TOKEN_AUTH_METHODS :: "token_auth_method list" where
  "TOKEN_AUTH_METHODS = [NoAuth, ClientSecretBasic, ClientSecretPost]"

interpretation auth_method_enum: str_enum TOKEN_AUTH_METHODS token_auth_method_as_str
  by unfold_locales (auto simp: TOKEN_AUTH_METHODS_def inj_def elim: token_auth_method_as_str.elims intro: token_auth_method.exhaust)

definition OAUTH_CLIENT_ID_MAX_BYTES :: nat where "OAUTH_CLIENT_ID_MAX_BYTES = 512"

definition oauth_client_id_try_from :: "string \<Rightarrow> (parse_error, string) outcome" where
  "oauth_client_id_try_from raw =
     (if raw = [] then Err (Empty ''client_id'')
      else if OAUTH_CLIENT_ID_MAX_BYTES < length raw then Err (TooLong ''client_id'' OAUTH_CLIENT_ID_MAX_BYTES (length raw))
      else Ok raw)"

interpretation oauth_client_id: smart_string oauth_client_id_try_from OAUTH_CLIENT_ID_MAX_BYTES
  by unfold_locales (auto simp: oauth_client_id_try_from_def split: if_splits)

definition secret_try_from :: "string \<Rightarrow> (parse_error, string) outcome" where
  "secret_try_from v = (if v = [] then Err (Empty ''secret'') else Ok v)"

datatype client_provenance = Dcr "string option" "string option" | Operator

record new_oauth_client =
  nc_org_id :: org_id
  nc_issuer :: string
  nc_client_id :: string
  nc_client_secret :: "string option"
  nc_authorization_endpoint :: string
  nc_token_endpoint :: string
  nc_token_endpoint_auth_method :: token_auth_method
  nc_scope :: "string option"
  nc_provenance :: client_provenance

record dcr_client =
  dc_org_id :: org_id
  dc_issuer :: string
  dc_client_id :: string
  dc_client_secret :: "string option"
  dc_authorization_endpoint :: string
  dc_token_endpoint :: string
  dc_token_endpoint_auth_method :: token_auth_method
  dc_scope :: "string option"

type_synonym 'a oauth_result = "(oauth_error, 'a) outcome \<times> cred_world"

definition seal_optional ::
  "crypto_lib \<Rightarrow> org_id \<Rightarrow> string \<Rightarrow> string option \<Rightarrow> encryptor \<Rightarrow> (oauth_error, (string \<times> string) option) outcome \<times> encryptor" where
  "seal_optional lib org nonce plaintext e =
     (case plaintext of
        None \<Rightarrow> (Ok None, e)
      | Some s \<Rightarrow> (case seal lib org nonce s e of
          (r, e') \<Rightarrow> (map_err OCrypto (and_then r (\<lambda>blob. Ok (Some (eb_ciphertext blob, eb_nonce blob)))), e')))"

text \<open>The CHECK clauses of the table (migration 22); the pair-or-null ones hold of the model's columns by construction.\<close>

definition text_len :: "nat \<Rightarrow> string \<Rightarrow> bool" where
  "text_len n s \<longleftrightarrow> 1 \<le> length s \<and> length s \<le> n"

definition client_row_check :: "oauth_client_row \<Rightarrow> bool" where
  "client_row_check r \<longleftrightarrow> text_len 2048 (oc_issuer r) \<and> text_len 1024 (oc_client_id r) \<and> text_len 2048 (oc_authorization_endpoint r) \<and>
     text_len 2048 (oc_token_endpoint r) \<and> pred_option (\<lambda>u. length u \<le> 2048) (oc_registration_client_uri r) \<and>
     pred_option (\<lambda>(_, n). length n = NONCE_BYTES) (oc_registration_access_token r) \<and>
     pred_option (\<lambda>(_, n). length n = NONCE_BYTES) (oc_client_secret r) \<and> pred_option (\<lambda>s. length s \<le> 2048) (oc_scope r)"

definition operator_overwrite :: "oauth_client_row \<Rightarrow> oauth_client_row \<Rightarrow> oauth_client_row" where
  "operator_overwrite excluded old = excluded\<lparr>oc_registration_client_uri := None, oc_registration_access_token := None, oc_created_at := oc_created_at old\<rparr>"

text \<open>Both upsert statements: the row as stored afterwards. A registration keeps an existing row, an operator replaces it.\<close>

definition same_client :: "org_id \<Rightarrow> string \<Rightarrow> oauth_client_row \<Rightarrow> bool" where
  "same_client org issuer c \<longleftrightarrow> oc_org_id c = org \<and> oc_issuer c = issuer"

definition upsert_client_row :: "bool \<Rightarrow> oauth_client_row \<Rightarrow> cred_world \<Rightarrow> oauth_client_row oauth_result" where
  "upsert_client_row is_dcr r w =
     (if \<not> client_row_check r then (Err (ODb ''check''), w)
      else case find (same_client (oc_org_id r) (oc_issuer r)) (cw_clients w) of
             None \<Rightarrow> (Ok r, w\<lparr>cw_clients := cw_clients w @ [r]\<rparr>)
           | Some old \<Rightarrow>
               if is_dcr then (Ok old, w)
               else (Ok (operator_overwrite r old),
                     w\<lparr>cw_clients := update_where (same_client (oc_org_id r) (oc_issuer r)) (operator_overwrite r) (cw_clients w)\<rparr>))"

text \<open>\<open>str::from_utf8\<close> accepts exactly the byte strings that the lossy decoder leaves alone.\<close>

definition is_utf8 :: "string \<Rightarrow> bool" where "is_utf8 s \<longleftrightarrow> from_utf8_lossy s = s"

definition decode_client_secret :: "crypto_lib \<Rightarrow> oauth_client_row \<Rightarrow> encryptor \<Rightarrow> (oauth_error, string option) outcome \<times> encryptor" where
  "decode_client_secret lib r e =
     (case oc_client_secret r of
        None \<Rightarrow> (Ok None, e)
      | Some (c, n) \<Rightarrow>
          if length n \<noteq> NONCE_BYTES then (Err (OMisconfigured ''oauth client_secret nonce wrong length''), e)
          else (case unseal lib (oc_org_id r) \<lparr>eb_key_version = oc_key_version r, eb_nonce = n, eb_ciphertext = c\<rparr> e of
                  (res, e') \<Rightarrow> (and_then (map_err OCrypto res) (\<lambda>s.
                     if \<not> is_utf8 s then Err (OMisconfigured ''oauth client_secret not utf-8'')
                     else and_then (map_err (\<lambda>_. OMisconfigured ''oauth client_secret invalid'') (secret_try_from s)) (\<lambda>x. Ok (Some x))), e')))"

definition client_into_record :: "crypto_lib \<Rightarrow> oauth_client_row \<Rightarrow> encryptor \<Rightarrow> (oauth_error, dcr_client) outcome \<times> encryptor" where
  "client_into_record lib r e =
     tx_bind (decode_client_secret lib r e) (\<lambda>secret e'.
       (and_then (map_err (\<lambda>_. OMisconfigured ''stored oauth client_id rejected'') (oauth_client_id_try_from (oc_client_id r))) (\<lambda>cid.
         Ok \<lparr>dc_org_id = oc_org_id r, dc_issuer = oc_issuer r, dc_client_id = cid, dc_client_secret = secret,
             dc_authorization_endpoint = oc_authorization_endpoint r, dc_token_endpoint = oc_token_endpoint r,
             dc_token_endpoint_auth_method = oc_token_endpoint_auth_method r, dc_scope = oc_scope r\<rparr>), e'))"

definition client_upsert :: "crypto_lib \<Rightarrow> string \<Rightarrow> string \<Rightarrow> instant \<Rightarrow> new_oauth_client \<Rightarrow> cred_world \<Rightarrow> dcr_client oauth_result" where
  "client_upsert lib nonce1 nonce2 now new w =
     (let (rcu, rat, is_dcr) = (case nc_provenance new of Dcr uri token \<Rightarrow> (uri, token, True) | Operator \<Rightarrow> (None, None, False)) in
      tx_bind (with_enc (seal_optional lib (nc_org_id new) nonce1 (nc_client_secret new)) w) (\<lambda>secret w1.
      tx_bind (with_enc (seal_optional lib (nc_org_id new) nonce2 rat) w1) (\<lambda>sealed_rat w2.
      tx_bind (run_tx (upsert_client_row is_dcr
          \<lparr>oc_org_id = nc_org_id new, oc_issuer = nc_issuer new, oc_client_id = nc_client_id new,
           oc_authorization_endpoint = nc_authorization_endpoint new, oc_token_endpoint = nc_token_endpoint new,
           oc_registration_client_uri = rcu, oc_registration_access_token = sealed_rat, oc_client_secret = secret,
           oc_key_version = CURRENT_KEY_VERSION, oc_token_endpoint_auth_method = nc_token_endpoint_auth_method new,
           oc_scope = nc_scope new, oc_created_at = now\<rparr>) w2) (\<lambda>row w3.
      with_enc (client_into_record lib row) w3))))"

definition client_read :: "crypto_lib \<Rightarrow> org_id \<Rightarrow> string \<Rightarrow> cred_world \<Rightarrow> dcr_client option oauth_result" where
  "client_read lib org issuer w =
     (case find (same_client org issuer) (cw_clients w) of
        None \<Rightarrow> (Ok None, w)
      | Some r \<Rightarrow> tx_bind (with_enc (client_into_record lib r) w) (\<lambda>x w'. (Ok (Some x), w')))"

section \<open>Token requests (mcp/oauth/flow.rs)\<close>

text \<open>The last instant of chrono's \<open>DateTime<Utc>\<close>, and the longest \<open>Duration::from_std\<close> accepts, in seconds.\<close>

definition DATETIME_MAX :: instant where "DATETIME_MAX = 8210266876799"
definition DURATION_MAX_SECS :: nat where "DURATION_MAX_SECS = 9223372036854775"

record token_reply =
  rp_access_token :: string
  rp_refresh_token :: "string option"
  rp_expires_in :: "nat option"
  rp_scopes :: "string list option"

text \<open>What the crate is given (its \<open>BasicClient\<close>), checks (the form of the URLs) and sends (the two grants at the token endpoint).\<close>

record basic_client =
  bc_client_id :: string
  bc_client_secret :: "string option"
  bc_auth_uri :: string
  bc_token_uri :: string
  bc_redirect_uri :: string

record oauth_crate =
  ox_url :: "string \<Rightarrow> string + unit"
  ox_exchange_code :: "basic_client \<Rightarrow> string \<Rightarrow> string \<Rightarrow> string + token_reply"
  ox_refresh :: "basic_client \<Rightarrow> string \<Rightarrow> string + token_reply"

datatype refresh_outcome = Refreshed oauth2_payload | Revoked

definition oauth_url :: "oauth_crate \<Rightarrow> string \<Rightarrow> string \<Rightarrow> (oauth_error, unit) outcome" where
  "oauth_url ox label u = (case ox_url ox u of Inl m \<Rightarrow> Err (OMisconfigured (label @ '': '' @ m)) | Inr _ \<Rightarrow> Ok ())"

definition build_basic_client :: "oauth_crate \<Rightarrow> dcr_client \<Rightarrow> string \<Rightarrow> (oauth_error, basic_client) outcome" where
  "build_basic_client ox client redirect_uri =
     and_then (oauth_url ox ''authorization_endpoint'' (dc_authorization_endpoint client)) (\<lambda>_.
     and_then (oauth_url ox ''token_endpoint'' (dc_token_endpoint client)) (\<lambda>_.
     and_then (oauth_url ox ''redirect_uri'' redirect_uri) (\<lambda>_.
     Ok \<lparr>bc_client_id = dc_client_id client, bc_client_secret = dc_client_secret client, bc_auth_uri = dc_authorization_endpoint client,
         bc_token_uri = dc_token_endpoint client, bc_redirect_uri = redirect_uri\<rparr>)))"

definition expires_from :: "instant \<Rightarrow> nat option \<Rightarrow> (oauth_error, instant) outcome" where
  "expires_from now expires_in =
     (let secs = (case expires_in of None \<Rightarrow> 600 | Some d \<Rightarrow> if d \<le> DURATION_MAX_SECS then int d else 600) in
      if DATETIME_MAX < now + secs then Panic ''DateTime + TimeDelta overflowed'' else Ok (now + secs))"

fun join_scopes :: "string list \<Rightarrow> string" where
  "join_scopes [] = []"
| "join_scopes [s] = s"
| "join_scopes (s # ss) = s @ '' '' @ join_scopes ss"

fun has_substring :: "string \<Rightarrow> string \<Rightarrow> bool" where
  "has_substring pat [] = (pat = [])"
| "has_substring pat (c # cs) = (take (length pat) (c # cs) = pat \<or> has_substring pat cs)"

definition token_result :: "dcr_client \<Rightarrow> instant \<Rightarrow> token_reply \<Rightarrow> (oauth_error, oauth2_payload) outcome" where
  "token_result client now t =
     and_then (expires_from now (rp_expires_in t)) (\<lambda>expires_at.
       Ok \<lparr>oa_access_token = rp_access_token t, oa_refresh_token = rp_refresh_token t, oa_expires_at = expires_at,
           oa_scope = map_option join_scopes (rp_scopes t), oa_issuer = dc_issuer client, oa_token_endpoint = dc_token_endpoint client\<rparr>)"

definition exchange_code :: "oauth_crate \<Rightarrow> dcr_client \<Rightarrow> string \<Rightarrow> string \<Rightarrow> string \<Rightarrow> instant \<Rightarrow> (oauth_error, oauth2_payload) outcome" where
  "exchange_code ox client redirect_uri code pkce_verifier now =
     and_then (build_basic_client ox client redirect_uri) (\<lambda>bc.
       case ox_exchange_code ox bc code pkce_verifier of
         Inl m \<Rightarrow> Err (OTokenEndpoint (''exchange: '' @ m))
       | Inr t \<Rightarrow> token_result client now t)"

definition refresh_oauth_token :: "oauth_crate \<Rightarrow> dcr_client \<Rightarrow> string \<Rightarrow> string \<Rightarrow> instant \<Rightarrow> (oauth_error, refresh_outcome) outcome" where
  "refresh_oauth_token ox client refresh_token redirect_uri now =
     and_then (build_basic_client ox client redirect_uri) (\<lambda>bc.
       case ox_refresh ox bc refresh_token of
         Inl m \<Rightarrow> if has_substring ''invalid_grant'' m then Ok Revoked else Err (OTokenEndpoint (''refresh: '' @ m))
       | Inr t \<Rightarrow> and_then (token_result client now t) (\<lambda>p. Ok (Refreshed p)))"

section \<open>The refresher (mcp/oauth/refresher.rs)\<close>

definition OAUTH_REFRESH_SKEW :: int where "OAUTH_REFRESH_SKEW = 120"
definition MAX_OAUTH_REFRESH_PER_TICK :: nat where "MAX_OAUTH_REFRESH_PER_TICK = 200"

record refresh_deps =
  rd_lib :: crypto_lib
  rd_json :: cred_json
  rd_oauth :: oauth_crate
  rd_redirect_uri :: string
  rd_nonce :: "mcp_server_id \<Rightarrow> string"

definition lift_mcp :: "(mcp_error, 'a) outcome \<times> 's \<Rightarrow> (oauth_error, 'a) outcome \<times> 's" where
  "lift_mcp r = (map_err OMcp (fst r), snd r)"

definition mark_reconnect_required :: "mcp_server_id \<Rightarrow> org_id \<Rightarrow> string \<Rightarrow> instant \<Rightarrow> cred_world \<Rightarrow> unit oauth_result" where
  "mark_reconnect_required server org reason now w =
     (Ok (), w\<lparr>cw_servers := update_where (\<lambda>s. sv_id s = server \<and> sv_org_id s = org)
        (\<lambda>s. s\<lparr>sv_connection_status := ''reconnect_required'', sv_last_error := Some reason, sv_updated_at := now\<rparr>) (cw_servers w)\<rparr>)"

definition or_prior :: "'a option \<Rightarrow> 'a option \<Rightarrow> 'a option" where
  "or_prior new prior = (case new of Some x \<Rightarrow> Some x | None \<Rightarrow> prior)"

definition refresh_credential ::
  "refresh_deps \<Rightarrow> mcp_server_id \<Rightarrow> org_id \<Rightarrow> oauth2_payload \<Rightarrow> instant \<Rightarrow> cred_world \<Rightarrow> unit oauth_result" where
  "refresh_credential deps server org payload now w =
     tx_bind (lift_mcp (cred_read (rd_lib deps) (rd_json deps) server org w)) (\<lambda>rec w1.
       case map_option rec_payload rec of
         Some (Oauth2 current) \<Rightarrow>
           if now + OAUTH_REFRESH_SKEW < oa_expires_at current then (Ok (), w1)
           else (case oa_refresh_token current of
             None \<Rightarrow> mark_reconnect_required server org ''no refresh_token'' now w1
           | Some refresh_token \<Rightarrow>
               tx_bind (client_read (rd_lib deps) org (oa_issuer payload) w1) (\<lambda>client w2.
                 case client of
                   None \<Rightarrow> (Err (OMisconfigured (''no DCR client for issuer '' @ oa_issuer payload)), w2)
                 | Some dcr \<Rightarrow>
                     tx_bind (refresh_oauth_token (rd_oauth deps) dcr refresh_token (rd_redirect_uri deps) now, w2) (\<lambda>result w3.
                       case result of
                         Revoked \<Rightarrow> mark_reconnect_required server org ''refresh_token revoked'' now w3
                       | Refreshed t \<Rightarrow>
                           lift_mcp (cred_upsert (rd_lib deps) (rd_json deps) (rd_nonce deps server) now
                             \<lparr>rec_server_id = server, rec_org_id = org, rec_payload = Oauth2 (t\<lparr>
                                oa_refresh_token := or_prior (oa_refresh_token t) (oa_refresh_token current),
                                oa_scope := or_prior (oa_scope t) (oa_scope current)\<rparr>)\<rparr> w3))))
       | _ \<Rightarrow> (Ok (), w1))"

definition decode_oauth2 :: "refresh_deps \<Rightarrow> credential_row \<Rightarrow> cred_world \<Rightarrow> oauth2_payload oauth_result" where
  "decode_oauth2 deps r w =
     (if length (cr_nonce r) \<noteq> NONCE_BYTES then (Err (OMisconfigured ''credential nonce wrong length''), w)
      else tx_bind (lift_mcp (with_enc (open_payload (rd_lib deps) (rd_json deps) (cr_org_id r) (cr_kind r)
          \<lparr>eb_key_version = cr_key_version r, eb_nonce = cr_nonce r, eb_ciphertext = cr_ciphertext r\<rparr>) w))
        (\<lambda>payload w'. case payload of
           Oauth2 p \<Rightarrow> (Ok p, w')
         | StaticHeaders _ \<Rightarrow> (Err (OMisconfigured ''expected oauth2 payload, got static_headers''), w')))"

text \<open>Errors of one row are logged and skipped; a panic ends the task.\<close>

fun refresh_rows_loop :: "refresh_deps \<Rightarrow> credential_row list \<Rightarrow> instant \<Rightarrow> cred_world \<Rightarrow> unit oauth_result" where
  "refresh_rows_loop deps [] now w = (Ok (), w)"
| "refresh_rows_loop deps (r # rs) now w =
     (case decode_oauth2 deps r w of
        (Panic m, w1) \<Rightarrow> (Panic m, w1)
      | (Err e, w1) \<Rightarrow> refresh_rows_loop deps rs now w1
      | (Ok payload, w1) \<Rightarrow>
          if now + OAUTH_REFRESH_SKEW < oa_expires_at payload then refresh_rows_loop deps rs now w1
          else (case refresh_credential deps (cr_server_id r) (cr_org_id r) payload now w1 of
                  (Panic m, w2) \<Rightarrow> (Panic m, w2)
                | (_, w2) \<Rightarrow> refresh_rows_loop deps rs now w2))"

definition oauth_refresh_tick :: "refresh_deps \<Rightarrow> instant \<Rightarrow> cred_world \<Rightarrow> unit oauth_result" where
  "oauth_refresh_tick deps now w =
     refresh_rows_loop deps (take MAX_OAUTH_REFRESH_PER_TICK (filter (\<lambda>c. cr_kind c = ''oauth2'') (cw_credentials w))) now w"

section \<open>Pending authorizations (mcp/oauth/pg\_store.rs)\<close>

record pending_authorization =
  pa_state :: string
  pa_server_id :: mcp_server_id
  pa_user_id :: user_id
  pa_org_id :: org_id
  pa_issuer :: string
  pa_pkce_verifier :: string
  pa_redirect_to :: "string option"

type_synonym pending_table = "(pending_authorization \<times> instant) list"

definition pending_row_check :: "pending_authorization \<Rightarrow> bool" where
  "pending_row_check p \<longleftrightarrow> 32 \<le> length (pa_state p) \<and> length (pa_state p) \<le> 128 \<and> text_len 2048 (pa_issuer p) \<and>
     32 \<le> length (pa_pkce_verifier p) \<and> length (pa_pkce_verifier p) \<le> 128 \<and> pred_option (\<lambda>u. length u \<le> 2048) (pa_redirect_to p)"

definition pending_insert :: "pending_authorization \<Rightarrow> instant \<Rightarrow> pending_table \<Rightarrow> (oauth_error, unit) outcome \<times> pending_table" where
  "pending_insert p expires_at t =
     (if \<not> pending_row_check p then (Err (ODb ''check''), t)
      else if list_ex (\<lambda>(q, _). pa_state q = pa_state p) t then (Err (ODb ''mcp_oauth_pending_pkey''), t)
      else (Ok (), t @ [(p, expires_at)]))"

definition pending_consume :: "string \<Rightarrow> instant \<Rightarrow> pending_table \<Rightarrow> pending_authorization option \<times> pending_table" where
  "pending_consume state now t =
     (map_option fst (find (\<lambda>(q, ex). pa_state q = state \<and> now < ex) t), delete_where (\<lambda>(q, ex). pa_state q = state \<and> now < ex) t)"

section \<open>Renewing a token\<close>

definition client_holds :: "crypto_lib \<Rightarrow> encryptor \<Rightarrow> oauth_client_row \<Rightarrow> string option \<Rightarrow> bool" where
  "client_holds lib e r secret \<longleftrightarrow> text_len OAUTH_CLIENT_ID_MAX_BYTES (oc_client_id r) \<and>
     (case oc_client_secret r of
        None \<Rightarrow> secret = None
      | Some (c, n) \<Rightarrow> length n = NONCE_BYTES \<and> (\<exists>k s. derived_kek lib e (oc_key_version r, oc_org_id r) = Some k \<and>
          cl_decrypt lib k n c = Some s \<and> is_utf8 s \<and> s \<noteq> [] \<and> secret = Some s))"

definition client_of :: "oauth_client_row \<Rightarrow> string option \<Rightarrow> dcr_client" where
  "client_of r secret = \<lparr>dc_org_id = oc_org_id r, dc_issuer = oc_issuer r, dc_client_id = oc_client_id r, dc_client_secret = secret,
     dc_authorization_endpoint = oc_authorization_endpoint r, dc_token_endpoint = oc_token_endpoint r,
     dc_token_endpoint_auth_method = oc_token_endpoint_auth_method r, dc_scope = oc_scope r\<rparr>"

lemma client_holds_same_keys: "same_keys lib e e' \<Longrightarrow> client_holds lib e' r secret = client_holds lib e r secret"
  by (simp only: client_holds_def same_keys_derived)

lemma decode_client_secret_Ok:
  assumes "kek_coherent lib e" and "client_holds lib e r secret"
  shows "\<exists>e'. decode_client_secret lib r e = (Ok secret, e') \<and> same_keys lib e e'"
proof (cases "oc_client_secret r")
  case None
  with assms show ?thesis by (simp add: decode_client_secret_def client_holds_def same_keys_refl)
next
  case (Some p)
  obtain c n where p: "p = (c, n)" by (cases p)
  let ?b = "\<lparr>eb_key_version = oc_key_version r, eb_nonce = n, eb_ciphertext = c\<rparr>"
  from Some p assms(2) obtain k s where k: "derived_kek lib e (eb_key_version ?b, oc_org_id r) = Some k"
    and s: "cl_decrypt lib k (eb_nonce ?b) (eb_ciphertext ?b) = Some s" and n: "length n = NONCE_BYTES" "is_utf8 s" "s \<noteq> []" "secret = Some s"
    by (auto simp: client_holds_def)
  from unseal_Ok [OF assms(1) k s] obtain e' where "unseal lib (oc_org_id r) ?b e = (Ok s, e')" and "same_keys lib e e'" by blast
  with Some p n show ?thesis by (simp add: decode_client_secret_def secret_try_from_def)
qed

lemma client_into_record_Ok:
  assumes "kek_coherent lib e" and "client_holds lib e r secret"
  shows "\<exists>e'. client_into_record lib r e = (Ok (client_of r secret), e') \<and> same_keys lib e e'"
  using decode_client_secret_Ok [OF assms] assms(2)
  by (auto simp: client_into_record_def client_of_def oauth_client_id_try_from_def client_holds_def text_len_def)

lemma client_read_Ok:
  assumes "kek_coherent lib (cw_enc w)" and "find (same_client org issuer) (cw_clients w) = Some r" and "client_holds lib (cw_enc w) r secret"
  shows "\<exists>e'. client_read lib org issuer w = (Ok (Some (client_of r secret)), w\<lparr>cw_enc := e'\<rparr>) \<and> same_keys lib (cw_enc w) e'"
  using client_into_record_Ok [OF assms(1,3)] assms(2) by (auto simp: client_read_def with_enc_def)

text \<open>A stored credential that is due, can be renewed, and whose client is registered.\<close>

definition renewable :: "refresh_deps \<Rightarrow> instant \<Rightarrow> cred_world \<Rightarrow> credential_row \<Rightarrow> oauth2_payload \<Rightarrow> oauth_client_row \<Rightarrow> string option \<Rightarrow> basic_client \<Rightarrow> string \<Rightarrow> bool" where
  "renewable deps now w c cur r secret bc token \<longleftrightarrow> kek_coherent (rd_lib deps) (cw_enc w) \<and> cred_ok w \<and> c \<in> set (cw_credentials w) \<and>
     row_holds (rd_lib deps) (rd_json deps) (cw_enc w) c (Oauth2 cur) \<and> oa_expires_at cur \<le> now + OAUTH_REFRESH_SKEW \<and>
     oa_refresh_token cur = Some token \<and> find (same_client (cr_org_id c) (oa_issuer cur)) (cw_clients w) = Some r \<and>
     client_holds (rd_lib deps) (cw_enc w) r secret \<and>
     build_basic_client (rd_oauth deps) (client_of r secret) (rd_redirect_uri deps) = Ok bc"

lemma cred_ok_enc [simp]: "cred_ok (w\<lparr>cw_enc := e\<rparr>) = cred_ok w"
  by (simp add: cred_ok_def)

lemma renewable_same_keys:
  assumes "renewable deps now w c cur r secret bc token" and "same_keys (rd_lib deps) (cw_enc w) e"
  shows "renewable deps now (w\<lparr>cw_enc := e\<rparr>) c cur r secret bc token"
  using assms row_holds_same_keys [OF assms(2)] client_holds_same_keys [OF assms(2)]
  by (auto simp: renewable_def same_keys_def)

text \<open>Such a renewal reaches the token endpoint; only the cache of keys has changed until then.\<close>

lemma refresh_reaches_endpoint:
  assumes "renewable deps now w c cur r secret bc token"
  shows "\<exists>e. same_keys (rd_lib deps) (cw_enc w) e \<and>
    refresh_credential deps (cr_server_id c) (cr_org_id c) cur now w =
      (case ox_refresh (rd_oauth deps) bc token of
         Inl m \<Rightarrow> if has_substring ''invalid_grant'' m
                 then mark_reconnect_required (cr_server_id c) (cr_org_id c) ''refresh_token revoked'' now (w\<lparr>cw_enc := e\<rparr>)
                 else (Err (OTokenEndpoint (''refresh: '' @ m)), w\<lparr>cw_enc := e\<rparr>)
       | Inr t \<Rightarrow> tx_bind (token_result (client_of r secret) now t, w\<lparr>cw_enc := e\<rparr>) (\<lambda>p.
           \<lambda>w3. lift_mcp (cred_upsert (rd_lib deps) (rd_json deps) (rd_nonce deps (cr_server_id c)) now
             \<lparr>rec_server_id = cr_server_id c, rec_org_id = cr_org_id c, rec_payload = Oauth2 (p\<lparr>
                oa_refresh_token := or_prior (oa_refresh_token p) (Some token), oa_scope := or_prior (oa_scope p) (oa_scope cur)\<rparr>)\<rparr> w3)))"
proof -
  let ?lib = "rd_lib deps"
  note a = assms [unfolded renewable_def]
  from cred_read_Ok [of ?lib w c "rd_json deps" "Oauth2 cur" "cr_org_id c"] a obtain e1 where
    read: "cred_read ?lib (rd_json deps) (cr_server_id c) (cr_org_id c) w =
      (Ok (Some \<lparr>rec_server_id = cr_server_id c, rec_org_id = cr_org_id c, rec_payload = Oauth2 cur\<rparr>), w\<lparr>cw_enc := e1\<rparr>)"
    and e1: "same_keys ?lib (cw_enc w) e1" by auto
  from renewable_same_keys [OF assms e1, unfolded renewable_def] client_read_Ok [of ?lib "w\<lparr>cw_enc := e1\<rparr>" "cr_org_id c" "oa_issuer cur" r secret]
  obtain e2 where client: "client_read ?lib (cr_org_id c) (oa_issuer cur) (w\<lparr>cw_enc := e1\<rparr>) = (Ok (Some (client_of r secret)), w\<lparr>cw_enc := e2\<rparr>)"
    and e2: "same_keys ?lib e1 e2" by auto
  from a read client show ?thesis
    by (intro exI [of _ e2] conjI same_keys_trans [OF e1 e2])
       (auto simp: refresh_credential_def lift_mcp_def refresh_oauth_token_def tx_bind_def split: sum.splits prod.splits outcome.splits)
qed

text \<open>C33. A renewal that the token endpoint grants is stored: the credential read back has the new access token and expiry, the new
  refresh token or, when the server did not rotate it, the old one, and every other credential is untouched.\<close>

theorem refresh_renews_token:
  assumes "renewable deps now w c cur r secret bc token" and "aead_law (rd_lib deps)" and "json_law (rd_json deps)"
    and "ox_refresh (rd_oauth deps) bc token = Inr t" and "expires_from now (rp_expires_in t) = Ok expires"
    and "new = \<lparr>oa_access_token = rp_access_token t, oa_refresh_token = or_prior (rp_refresh_token t) (Some token), oa_expires_at = expires,
           oa_scope = or_prior (map_option join_scopes (rp_scopes t)) (oa_scope cur), oa_issuer = oc_issuer r, oa_token_endpoint = oc_token_endpoint r\<rparr>"
    and "cj_encode (rd_json deps) (Oauth2 new) = Inr json" and "length json \<le> MAX_CREDENTIAL_PLAINTEXT"
    and "length (rd_nonce deps (cr_server_id c)) = NONCE_BYTES"
    and "derived_kek (rd_lib deps) (cw_enc w) (CURRENT_KEY_VERSION, cr_org_id c) = Some k"
  shows "\<exists>w'. refresh_credential deps (cr_server_id c) (cr_org_id c) cur now w = (Ok (), w') \<and>
    fst (cred_read (rd_lib deps) (rd_json deps) (cr_server_id c) (cr_org_id c) w') =
      Ok (Some \<lparr>rec_server_id = cr_server_id c, rec_org_id = cr_org_id c, rec_payload = Oauth2 new\<rparr>) \<and>
    filter (\<lambda>d. cr_server_id d \<noteq> cr_server_id c) (cw_credentials w') = filter (\<lambda>d. cr_server_id d \<noteq> cr_server_id c) (cw_credentials w)"
proof -
  let ?rec = "\<lparr>rec_server_id = cr_server_id c, rec_org_id = cr_org_id c, rec_payload = Oauth2 new\<rparr>"
  from refresh_reaches_endpoint [OF assms(1)] assms(4-6) obtain e where e: "same_keys (rd_lib deps) (cw_enc w) e"
    and step: "refresh_credential deps (cr_server_id c) (cr_org_id c) cur now w =
      lift_mcp (cred_upsert (rd_lib deps) (rd_json deps) (rd_nonce deps (cr_server_id c)) now ?rec (w\<lparr>cw_enc := e\<rparr>))"
    by (auto simp: token_result_def client_of_def)
  from assms(1) obtain s where s: "s \<in> set (cw_servers w)" "sv_id s = cr_server_id c" "sv_org_id s = cr_org_id c"
    by (auto simp: renewable_def cred_ok_def)
  from assms(1) e have w: "cred_ok w" "kek_coherent (rd_lib deps) e" by (auto simp: renewable_def same_keys_def)
  from cred_upsert_Ok [where w = "w\<lparr>cw_enc := e\<rparr>" and rec = ?rec and s = s and k = k and json = json, OF assms(2,3)] w s assms(7-10)
    same_keys_derived [OF e] obtain w' d where up: "cred_upsert (rd_lib deps) (rd_json deps) (rd_nonce deps (cr_server_id c)) now ?rec (w\<lparr>cw_enc := e\<rparr>) = (Ok (), w')"
    "cred_ok w'" "kek_coherent (rd_lib deps) (cw_enc w')" and d: "d \<in> set (cw_credentials w')" "cr_server_id d = cr_server_id c" "cr_org_id d = cr_org_id c"
      "row_holds (rd_lib deps) (rd_json deps) (cw_enc w') d (Oauth2 new)"
    and rest: "filter (\<lambda>d. cr_server_id d \<noteq> cr_server_id c) (cw_credentials w') = filter (\<lambda>d. cr_server_id d \<noteq> cr_server_id c) (cw_credentials w)"
    by (fastforce simp: same_keys_def)
  have "fst (cred_read (rd_lib deps) (rd_json deps) (cr_server_id c) (cr_org_id c) w') = Ok (Some ?rec)"
    using cred_read_Ok [OF up(3,2) d(1,4), of "cr_org_id c"] d(2,3) by auto
  with step up(1) rest show ?thesis by (simp add: lift_mcp_def)
qed

text \<open>C34. An authorization server that answers a refresh with a lifetime past the last representable instant ends the refresher: the addition
  panics in the task's own tick, so no credential of any organisation behind that row is looked at, now or later.\<close>

theorem huge_expiry_kills_refresher:
  assumes "filter (\<lambda>d. cr_kind d = ''oauth2'') (cw_credentials w) = c # cs" and "renewable deps now w c cur r secret bc token"
    and "ox_refresh (rd_oauth deps) bc token = Inr t" and "rp_expires_in t = Some d"
    and "d \<le> DURATION_MAX_SECS" and "DATETIME_MAX < now + int d"
  shows "\<exists>m w'. oauth_refresh_tick deps now w = (Panic m, w') \<and> cw_credentials w' = cw_credentials w \<and> cw_servers w' = cw_servers w"
proof -
  let ?lib = "rd_lib deps"
  note a = assms(2) [unfolded renewable_def]
  from open_row [of ?lib "cw_enc w" "rd_json deps" c "Oauth2 cur"] a obtain e1 where e1: "same_keys ?lib (cw_enc w) e1"
    and dec: "decode_oauth2 deps c w = (Ok cur, w\<lparr>cw_enc := e1\<rparr>)"
    by (auto simp: decode_oauth2_def with_enc_def lift_mcp_def row_holds_def)
  from refresh_reaches_endpoint [OF renewable_same_keys [OF assms(2) e1]] assms(3-6) obtain e2 where
    "refresh_credential deps (cr_server_id c) (cr_org_id c) cur now (w\<lparr>cw_enc := e1\<rparr>) = (Panic ''DateTime + TimeDelta overflowed'', w\<lparr>cw_enc := e2\<rparr>)"
    by (auto simp: token_result_def expires_from_def)
  moreover have "take MAX_OAUTH_REFRESH_PER_TICK (c # cs) = c # take 199 cs" by (simp add: MAX_OAUTH_REFRESH_PER_TICK_def)
  moreover have "\<not> now + OAUTH_REFRESH_SKEW < oa_expires_at cur" using a by simp
  ultimately show ?thesis using assms(1) dec by (simp add: oauth_refresh_tick_def del: take_Suc_Cons)
qed

section \<open>A pending authorization is used once\<close>

definition pending_inv :: "pending_table \<Rightarrow> bool" where
  "pending_inv t \<longleftrightarrow> distinct (map (pa_state \<circ> fst) t)"

inductive pending_step :: "string \<Rightarrow> pending_table \<Rightarrow> pending_table \<Rightarrow> bool" for state where
  insert: "pending_insert p expires_at t = (res, t') \<Longrightarrow> pa_state p \<noteq> state \<Longrightarrow> pending_step state t t'"
| consume: "pending_consume other now t = (res, t') \<Longrightarrow> pending_step state t t'"

definition state_absent :: "string \<Rightarrow> pending_table \<Rightarrow> bool" where
  "state_absent state t \<longleftrightarrow> (\<forall>q ex. (q, ex) \<in> set t \<longrightarrow> pa_state q \<noteq> state)"

lemma state_absentD: "state_absent state t \<Longrightarrow> (q, ex) \<in> set t \<Longrightarrow> pa_state q \<noteq> state"
  by (auto simp: state_absent_def)

lemma listed_iff: "list_ex (\<lambda>(q, ex). pa_state q = state) t \<longleftrightarrow> \<not> state_absent state t"
  by (auto simp: list_ex_iff state_absent_def)

interpretation pending: preserving "pending_step state" pending_inv
proof
  fix t t' assume inv: "pending_inv t" and step: "pending_step state t t'"
  from step show "pending_inv t'"
  proof cases
    case (insert p ex res)
    show ?thesis
    proof (cases "state_absent (pa_state p) t")
      case True
      with insert inv show ?thesis by (auto simp: pending_insert_def listed_iff pending_inv_def split: if_splits) (blast dest: state_absentD)
    next
      case False
      with insert inv show ?thesis by (auto simp: pending_insert_def listed_iff split: if_splits)
    qed
  next
    case (consume other now res)
    with inv show ?thesis by (auto simp: pending_consume_def pending_inv_def delete_where_def distinct_map_filter)
  qed
qed

lemma pending_step_absent:
  assumes "pending_step state t t'" and "state_absent state t"
  shows "state_absent state t'"
  using assms(1)
proof cases
  case (insert p ex res)
  then have "set t' \<subseteq> insert (p, ex) (set t)" by (auto simp: pending_insert_def split: if_splits)
  with insert(2) assms(2) show ?thesis by (auto simp: state_absent_def)
next
  case (consume other now res)
  then have "set t' \<subseteq> set t" by (auto simp: pending_consume_def delete_where_def)
  with assms(2) show ?thesis by (auto simp: state_absent_def)
qed

text \<open>The state of an authorization callback works once: after a callback has taken the pending row, no later callback with the same
  state gets it, whatever other authorizations are started, used or left to expire in between.\<close>

theorem pending_consumed_once:
  assumes "pending_inv t" and "pending_consume state now t = (Some p, t')" and "(pending_step state)\<^sup>*\<^sup>* t' t''"
  shows "fst (pending_consume state later t'') = None"
proof -
  from assms(2) obtain b where b: "(p, b) \<in> set t" "pa_state p = state" "now < b"
    by (auto simp: pending_consume_def dest!: find_SomeD)
  have "pa_state q \<noteq> state" if "(q, ex) \<in> set t'" for q ex
  proof
    assume "pa_state q = state"
    with assms(2) that have "(q, ex) \<in> set t" "\<not> now < ex" by (auto simp: pending_consume_def delete_where_def)
    with \<open>pa_state q = state\<close> b assms(1) show False
      using distinct_map_eqD [of "pa_state \<circ> fst" t "(p, b)" "(q, ex)"] by (simp add: pending_inv_def)
  qed
  then have "state_absent state t'" by (auto simp: state_absent_def)
  moreover from assms(1,2) have "pending_inv t'" using pending.step_inv pending_step.consume by blast
  ultimately have "state_absent state t''"
    using pending.run_stable [OF assms(3), of "state_absent state"] pending_step_absent by blast
  then show ?thesis by (auto simp: pending_consume_def find_None_iff state_absent_def)
qed

end
