(* ===== verification/Oauth_Discovery.thy ===== *)
theory Oauth_Discovery
  imports Oauth_Store
begin

text \<open>
  Finding and registering with the authorization server of a remote server: \<open>src/mcp/oauth/discovery.rs\<close> (the well-known documents, the
  401 probe and its challenge header, one delegation hop) and \<open>register_dynamic_client\<close> of \<open>src/mcp/oauth/flow.rs\<close>.

  Parsing a URL, the HTTP client and the JSON decoders are the crates', in \<open>discovery_env\<close>; a URL is its serialised text. Every request is
  appended to the log that the functions thread, so that the number and the targets of the requests can be stated. Header values are bytes;
  \<open>char_from\<close> is \<open>char::from\<close> on a byte. The error for a refused registration leaves out the excerpt of the body that the code appends.
\<close>

section \<open>The challenge header\<close>

definition is_tchar :: "char \<Rightarrow> bool" where
  "is_tchar b \<longleftrightarrow> b \<in> set ''!#$%&'' \<or> b = CHR 0x27 \<or> b \<in> set ''*+-.^_`|~'' \<or>
     (CHR ''0'' \<le> b \<and> b \<le> CHR ''9'') \<or> (CHR ''A'' \<le> b \<and> b \<le> CHR ''Z'') \<or> (CHR ''a'' \<le> b \<and> b \<le> CHR ''z'')"

definition is_token68_char :: "char \<Rightarrow> bool" where
  "is_token68_char b \<longleftrightarrow> b \<in> set ''-._~+/=:'' \<or>
     (CHR ''0'' \<le> b \<and> b \<le> CHR ''9'') \<or> (CHR ''A'' \<le> b \<and> b \<le> CHR ''Z'') \<or> (CHR ''a'' \<le> b \<and> b \<le> CHR ''z'')"

definition is_ascii_ws :: "char \<Rightarrow> bool" where
  "is_ascii_ws b \<longleftrightarrow> b \<in> {CHR 0x20, CHR 0x09, CHR 0x0A, CHR 0x0C, CHR 0x0D}"

definition is_sep :: "char \<Rightarrow> bool" where "is_sep b \<longleftrightarrow> is_ascii_ws b \<or> b = CHR '',''"
definition is_lws :: "char \<Rightarrow> bool" where "is_lws b \<longleftrightarrow> b = CHR 0x20 \<or> b = CHR 0x09"

definition char_from :: "char \<Rightarrow> string" where
  "char_from b = (let n = of_char b :: nat in if n < 128 then [b] else [char_of (192 + n div 64), char_of (128 + n mod 64)])"

fun read_quoted :: "string \<Rightarrow> (string \<times> string) option" where
  "read_quoted [] = None"
| "read_quoted [b] = (if b = CHR 0x22 then Some ([], []) else None)"
| "read_quoted (b # x # bs) =
     (if b = CHR 0x5C then map_option (\<lambda>(v, r). (char_from x @ v, r)) (read_quoted bs)
      else if b = CHR 0x22 then Some ([], x # bs)
      else map_option (\<lambda>(v, r). (char_from b @ v, r)) (read_quoted (x # bs)))"

definition read_param_value :: "string \<Rightarrow> (string \<times> string) option" where
  "read_param_value bs =
     (case bs of
        [] \<Rightarrow> None
      | b # rest \<Rightarrow>
          if b = CHR 0x22 then read_quoted rest
          else if takeWhile is_token68_char bs = [] then None
          else Some (takeWhile is_token68_char bs, dropWhile is_token68_char bs))"

lemma read_quoted_shorter: "read_quoted bs = Some (v, r) \<Longrightarrow> length r < length bs"
proof (induction bs arbitrary: v r rule: read_quoted.induct)
  case (3 b x bs)
  then show ?case by (cases "b = CHR 0x5C") (auto split: if_splits dest: less_SucI)
qed (auto split: if_splits)

lemma read_param_value_shorter: "read_param_value bs = Some (v, r) \<Longrightarrow> length r < length bs"
proof (cases bs)
  case (Cons b rest)
  moreover assume "read_param_value bs = Some (v, r)"
  moreover have "length (dropWhile is_token68_char rest) \<le> length rest" by (rule length_dropWhile_le)
  ultimately show ?thesis
    by (auto simp: read_param_value_def dest: read_quoted_shorter split: if_splits)
qed (simp add: read_param_value_def)

lemma tl_shorter: "xs \<noteq> [] \<Longrightarrow> length xs \<le> n \<Longrightarrow> length (tl xs) < n"
  by (cases xs) auto

lemma token_shorter: "takeWhile P xs \<noteq> [] \<Longrightarrow> length (dropWhile P xs) < length xs"
  by (cases xs) (auto simp: le_imp_less_Suc length_dropWhile_le split: if_splits)

function scan_challenge :: "bool \<Rightarrow> string \<Rightarrow> string option" where
  "scan_challenge in_bearer bs =
     (let r = dropWhile is_sep bs in
      if r = [] then None
      else let tok = takeWhile is_tchar r in
        if tok = [] then scan_challenge in_bearer (tl r)
        else let rest = dropWhile is_lws (dropWhile is_tchar r) in
          if rest \<noteq> [] \<and> hd rest = CHR ''=''
          then (case read_param_value (dropWhile is_lws (tl rest)) of
                  None \<Rightarrow> None
                | Some (v, r') \<Rightarrow>
                    if in_bearer \<and> ascii_lower tok = ''resource_metadata'' then Some v else scan_challenge in_bearer r')
          else scan_challenge (ascii_lower tok = ''bearer'') rest)"
  by pat_completeness auto

termination
proof (relation "measure (\<lambda>(_, bs). length bs)", goal_cases)
  case 1 show ?case by simp
next
  case (2 in_bearer bs r tok)
  have "length (dropWhile is_sep bs) \<le> length bs" by (rule length_dropWhile_le)
  with 2(1,2) show ?case using tl_shorter [of r "length bs"] by simp
next
  case (3 in_bearer bs r tok rest x v r')
  have "length r \<le> length bs" using 3(1) by (simp add: length_dropWhile_le)
  moreover have "length (dropWhile is_tchar r) < length r" using 3 by (simp add: token_shorter)
  moreover have "length rest \<le> length (dropWhile is_tchar r)" using 3(5) by (simp add: length_dropWhile_le)
  moreover have "length (dropWhile is_lws (tl rest)) \<le> length (tl rest)" by (rule length_dropWhile_le)
  moreover have "length r' < length (dropWhile is_lws (tl rest))" using 3 by (auto dest: read_param_value_shorter)
  ultimately show ?case by simp
next
  case (4 in_bearer bs r tok rest)
  have "length r \<le> length bs" using 4(1) by (simp add: length_dropWhile_le)
  moreover have "length (dropWhile is_tchar r) < length r" using 4 by (simp add: token_shorter)
  moreover have "length rest \<le> length (dropWhile is_tchar r)" using 4(5) by (simp add: length_dropWhile_le)
  ultimately show ?case by simp
qed

declare scan_challenge.simps [simp del]

definition parse_resource_metadata_param :: "string \<Rightarrow> string option" where
  "parse_resource_metadata_param header = scan_challenge False header"

section \<open>Discovery\<close>

definition DISCOVERY_MAX_BYTES :: nat where "DISCOVERY_MAX_BYTES = 32 * 1024"
definition DISCOVERY_HEADER_MAX_BYTES :: nat where "DISCOVERY_HEADER_MAX_BYTES = 4 * 1024"

record as_metadata =
  am_issuer :: string
  am_authorization_endpoint :: string
  am_token_endpoint :: string
  am_registration_endpoint :: "string option"
  am_scopes_supported :: "string list option"
  am_auth_methods :: "string list option"

record http_reply =
  hr_status :: nat
  hr_reason :: string
  hr_body :: "string + string"
  hr_www_authenticate :: "string option list"

datatype http_result = TimedOut | HttpFailed string | Replied http_reply

text \<open>A header value that is not visible ASCII is \<open>None\<close> (\<open>to_str\<close> refuses it).\<close>

record discovery_env =
  de_parse :: "string \<Rightarrow> string + string"
  de_get :: "string \<Rightarrow> http_result"
  de_resource_json :: "string \<Rightarrow> string + string list option"
  de_as_json :: "string \<Rightarrow> string + as_metadata"

type_synonym 'a discovery = "(oauth_error, 'a) outcome \<times> string list"

definition parse_url :: "discovery_env \<Rightarrow> string \<Rightarrow> string \<Rightarrow> (oauth_error, string) outcome" where
  "parse_url env label raw = (case de_parse env raw of Inl m \<Rightarrow> Err (ODiscovery (label @ '': '' @ m)) | Inr u \<Rightarrow> Ok u)"

definition join_well_known :: "discovery_env \<Rightarrow> string \<Rightarrow> string \<Rightarrow> (oauth_error, string) outcome" where
  "join_well_known env base path = parse_url env (''join '' @ path) (rev (dropWhile (\<lambda>c. c = CHR ''/'') (rev base)) @ ''/'' @ path)"

definition is_success :: "nat \<Rightarrow> bool" where "is_success code \<longleftrightarrow> 200 \<le> code \<and> code < 300"

definition read_reply :: "string \<Rightarrow> (string \<Rightarrow> string + 'a) \<Rightarrow> http_result \<Rightarrow> (oauth_error, 'a) outcome" where
  "read_reply u decode res =
     (case res of
        TimedOut \<Rightarrow> Err (ODiscovery ''timed out'')
      | HttpFailed m \<Rightarrow> Err (ODiscovery (''http: '' @ m))
      | Replied r \<Rightarrow>
          if \<not> is_success (hr_status r) then Err (ODiscovery (u @ '' '' @ show_nat (hr_status r) @ '' '' @ hr_reason r))
          else (case hr_body r of
                  Inl m \<Rightarrow> Err (ODiscovery (''body: '' @ m))
                | Inr bytes \<Rightarrow>
                    if DISCOVERY_MAX_BYTES < length bytes
                    then Err (ODiscovery (''response exceeds '' @ show_nat DISCOVERY_MAX_BYTES @ '' bytes''))
                    else (case decode bytes of Inl m \<Rightarrow> Err (ODiscovery (''parse: '' @ m)) | Inr x \<Rightarrow> Ok x)))"

definition fetch_json :: "discovery_env \<Rightarrow> (string \<Rightarrow> string + 'a) \<Rightarrow> string \<Rightarrow> string list \<Rightarrow> 'a discovery" where
  "fetch_json env decode u log = (read_reply u decode (de_get env u), log @ [u])"

definition fetch_protected_resource_issuer :: "discovery_env \<Rightarrow> string \<Rightarrow> string list \<Rightarrow> string discovery" where
  "fetch_protected_resource_issuer env u log =
     tx_bind (fetch_json env (de_resource_json env) u log) (\<lambda>servers log'.
       case servers of
         Some (issuer # _) \<Rightarrow> (Ok issuer, log')
       | _ \<Rightarrow> (Err (ODiscovery ''no authorization_servers advertised''), log'))"

fun first_challenge :: "discovery_env \<Rightarrow> string option list \<Rightarrow> (oauth_error, string) outcome" where
  "first_challenge env [] = Err (ODiscovery ''no WWW-Authenticate Bearer resource_metadata in challenge'')"
| "first_challenge env (v # vs) =
     (case v of
        None \<Rightarrow> first_challenge env vs
      | Some raw \<Rightarrow>
          (case parse_resource_metadata_param (take DISCOVERY_HEADER_MAX_BYTES raw) of
             Some extracted \<Rightarrow> parse_url env ''probe: resource_metadata url'' extracted
           | None \<Rightarrow> first_challenge env vs))"

definition probe_resource_metadata_url :: "discovery_env \<Rightarrow> string \<Rightarrow> string list \<Rightarrow> string discovery" where
  "probe_resource_metadata_url env server log =
     ((case de_get env server of
         TimedOut \<Rightarrow> Err (ODiscovery ''probe timed out'')
       | HttpFailed m \<Rightarrow> Err (ODiscovery (''probe http: '' @ m))
       | Replied r \<Rightarrow>
           if hr_status r \<noteq> 401 then Err (ODiscovery (''probe expected 401 challenge, got '' @ show_nat (hr_status r)))
           else first_challenge env (hr_www_authenticate r)), log @ [server])"

definition AS_WELL_KNOWN :: string where "AS_WELL_KNOWN = ''.well-known/oauth-authorization-server''"
definition RESOURCE_WELL_KNOWN :: string where "RESOURCE_WELL_KNOWN = ''.well-known/oauth-protected-resource''"

definition chase_delegated_issuer :: "discovery_env \<Rightarrow> string \<Rightarrow> as_metadata \<Rightarrow> string list \<Rightarrow> as_metadata discovery" where
  "chase_delegated_issuer env original first log =
     tx_bind (parse_url env ''delegated issuer url'' (am_issuer first), log) (\<lambda>claimed_url log.
     tx_bind (join_well_known env claimed_url AS_WELL_KNOWN, log) (\<lambda>next_url log.
     tx_bind (fetch_json env (de_as_json env) next_url log) (\<lambda>raw2 log'.
       if am_issuer raw2 \<noteq> am_issuer first
       then (Err (ODiscovery (''issuer mismatch after one delegation hop: resource says '' @ original @ '', first AS says '' @ am_issuer first
              @ '', second AS says '' @ am_issuer raw2)), log')
       else (Ok raw2, log'))))"

definition discover_issuer :: "discovery_env \<Rightarrow> string \<Rightarrow> string \<Rightarrow> string list \<Rightarrow> string discovery" where
  "discover_issuer env server resource_url log =
     (case fetch_protected_resource_issuer env resource_url log of
        (Err first_err, log1) \<Rightarrow>
          (case probe_resource_metadata_url env server log1 of
             (Ok probed, log2) \<Rightarrow> fetch_protected_resource_issuer env probed log2
           | (Err _, log2) \<Rightarrow> (Err first_err, log2)
           | (Panic m, log2) \<Rightarrow> (Panic m, log2))
      | r \<Rightarrow> r)"

definition discover_authorization_server :: "discovery_env \<Rightarrow> string \<Rightarrow> string list \<Rightarrow> as_metadata discovery" where
  "discover_authorization_server env server_url log =
     tx_bind (parse_url env ''server url'' server_url, log) (\<lambda>server log.
     tx_bind (join_well_known env server RESOURCE_WELL_KNOWN, log) (\<lambda>resource_url log.
     tx_bind (discover_issuer env server resource_url log) (\<lambda>issuer log.
     tx_bind (parse_url env ''issuer url'' issuer, log) (\<lambda>issuer_url log.
     tx_bind (join_well_known env issuer_url AS_WELL_KNOWN, log) (\<lambda>as_url log.
     tx_bind (fetch_json env (de_as_json env) as_url log) (\<lambda>raw log.
       if am_issuer raw = issuer then (Ok raw, log) else chase_delegated_issuer env issuer raw log))))))"

section \<open>Dynamic client registration (mcp/oauth/flow.rs)\<close>

definition DCR_MAX_BYTES :: nat where "DCR_MAX_BYTES = 32 * 1024"

record dcr_request =
  dq_client_name :: string
  dq_redirect_uris :: "string list"
  dq_grant_types :: "string list"
  dq_response_types :: "string list"
  dq_auth_method :: string
  dq_scope :: "string option"

record dcr_response =
  dp_client_id :: string
  dp_client_secret :: "string option"
  dp_registration_client_uri :: "string option"
  dp_registration_access_token :: "string option"

definition pick_auth_method :: "string list \<Rightarrow> token_auth_method" where
  "pick_auth_method supported =
     (let pick = (\<lambda>m. token_auth_method_as_str m \<in> set supported) in
      if pick NoAuth then NoAuth
      else if pick ClientSecretBasic then ClientSecretBasic
      else if pick ClientSecretPost then ClientSecretPost
      else ClientSecretBasic)"

definition optional_secret :: "string \<Rightarrow> string option \<Rightarrow> (oauth_error, string option) outcome" where
  "optional_secret label v =
     (case v of
        None \<Rightarrow> Ok None
      | Some s \<Rightarrow> and_then (map_err (\<lambda>_. ODcr (''invalid '' @ label)) (secret_try_from s)) (\<lambda>x. Ok (Some x)))"

definition register_dynamic_client ::
  "(string \<Rightarrow> dcr_request \<Rightarrow> http_result) \<Rightarrow> (string \<Rightarrow> string + dcr_response) \<Rightarrow> as_metadata \<Rightarrow> org_id \<Rightarrow> string \<Rightarrow> string option \<Rightarrow>
     (oauth_error, new_oauth_client) outcome" where
  "register_dynamic_client post decode as_meta org redirect_uri scope =
     (case am_registration_endpoint as_meta of
        None \<Rightarrow> Err (OMisconfigured (''AS '' @ am_issuer as_meta @ '' does not support dynamic client registration''))
      | Some endpoint \<Rightarrow>
          let auth_method = pick_auth_method (case am_auth_methods as_meta of None \<Rightarrow> [] | Some ms \<Rightarrow> ms);
              body = \<lparr>dq_client_name = ''Relay'', dq_redirect_uris = [redirect_uri], dq_grant_types = [''authorization_code'', ''refresh_token''],
                      dq_response_types = [''code''], dq_auth_method = token_auth_method_as_str auth_method, dq_scope = scope\<rparr> in
          (case post endpoint body of
             TimedOut \<Rightarrow> Err (ODcr ''registration timed out'')
           | HttpFailed m \<Rightarrow> Err (ODcr (''http: '' @ m))
           | Replied r \<Rightarrow>
               (case hr_body r of
                  Inl m \<Rightarrow> Err (ODcr (''body: '' @ m))
                | Inr bytes \<Rightarrow>
                    if \<not> is_success (hr_status r) then Err (ODcr (show_nat (hr_status r) @ '' '' @ hr_reason r @ '' body=''))
                    else if DCR_MAX_BYTES < length bytes then Err (ODcr (''response exceeds '' @ show_nat DCR_MAX_BYTES @ '' bytes''))
                    else (case decode bytes of
                            Inl m \<Rightarrow> Err (ODcr (''parse: '' @ m))
                          | Inr raw \<Rightarrow>
                              and_then (optional_secret ''client_secret'' (dp_client_secret raw)) (\<lambda>client_secret.
                              and_then (optional_secret ''registration_access_token'' (dp_registration_access_token raw)) (\<lambda>rat.
                              and_then (map_err (\<lambda>_. ODcr ''invalid client_id'') (oauth_client_id_try_from (dp_client_id raw))) (\<lambda>cid.
                              Ok \<lparr>nc_org_id = org, nc_issuer = am_issuer as_meta, nc_client_id = cid, nc_client_secret = client_secret,
                                  nc_authorization_endpoint = am_authorization_endpoint as_meta, nc_token_endpoint = am_token_endpoint as_meta,
                                  nc_token_endpoint_auth_method = auth_method, nc_scope = scope,
                                  nc_provenance = Dcr (dp_registration_client_uri raw) rat\<rparr>)))))))"

section \<open>What discovery guarantees\<close>

text \<open>The document found at the well-known address of an issuer, as one successful bounded request returned it.\<close>

definition serves_metadata :: "discovery_env \<Rightarrow> string \<Rightarrow> string \<Rightarrow> as_metadata \<Rightarrow> bool" where
  "serves_metadata env issuer u doc \<longleftrightarrow>
     (\<exists>base. de_parse env issuer = Inr base \<and> join_well_known env base AS_WELL_KNOWN = Ok u) \<and>
     (\<exists>r bytes. de_get env u = Replied r \<and> is_success (hr_status r) \<and> hr_body r = Inr bytes \<and>
        length bytes \<le> DISCOVERY_MAX_BYTES \<and> de_as_json env bytes = Inr doc)"

lemma parse_url_Ok_iff: "parse_url env l raw = Ok u \<longleftrightarrow> de_parse env raw = Inr u"
  by (auto simp: parse_url_def split: sum.splits)

lemma read_reply_Ok:
  "read_reply u decode res = Ok x \<Longrightarrow>
     \<exists>r bytes. res = Replied r \<and> is_success (hr_status r) \<and> hr_body r = Inr bytes \<and> length bytes \<le> DISCOVERY_MAX_BYTES \<and> decode bytes = Inr x"
  by (auto simp: read_reply_def split: http_result.splits if_splits sum.splits)

lemma fetch_json_Ok: "fetch_json env decode u log = (Ok x, log') \<longleftrightarrow> read_reply u decode (de_get env u) = Ok x \<and> log' = log @ [u]"
  by (auto simp: fetch_json_def)

lemma fetch_issuer_log: "fetch_protected_resource_issuer env u log = (res, log') \<Longrightarrow> log' = log @ [u]"
  by (auto simp: fetch_protected_resource_issuer_def fetch_json_def tx_bind_def split: outcome.splits option.splits list.splits)

lemma probe_log: "probe_resource_metadata_url env u log = (res, log') \<Longrightarrow> log' = log @ [u]"
  by (auto simp: probe_resource_metadata_url_def)

lemma discover_issuer_log: "discover_issuer env server u log = (Ok issuer, log') \<Longrightarrow> length log' \<le> length log + 3"
  by (auto simp: discover_issuer_def dest!: fetch_issuer_log probe_log split: prod.splits outcome.splits)

lemma chase_Ok:
  "chase_delegated_issuer env original first log = (Ok doc, log') \<Longrightarrow>
     \<exists>u. serves_metadata env (am_issuer doc) u doc \<and> log' = log @ [u]"
  by (auto simp: chase_delegated_issuer_def tx_bind_Ok_iff parse_url_Ok_iff fetch_json_Ok serves_metadata_def split: if_splits dest!: read_reply_Ok)

text \<open>C35. The metadata that discovery adopts comes from the well-known address of the very issuer it names, in one successful reply of bounded
  size: no server can hand out a document in the name of another issuer. Discovery makes at most five requests.\<close>

theorem discovered_issuer_self_identifies:
  assumes "discover_authorization_server env server_url [] = (Ok doc, log)"
  shows "(\<exists>u \<in> set log. serves_metadata env (am_issuer doc) u doc) \<and> length log \<le> 5"
proof -
  from assms obtain server resource_url issuer log1 issuer_url as_url raw where
    d: "discover_issuer env server resource_url [] = (Ok issuer, log1)" and p: "de_parse env issuer = Inr issuer_url"
    "join_well_known env issuer_url AS_WELL_KNOWN = Ok as_url" and f: "read_reply as_url (de_as_json env) (de_get env as_url) = Ok raw"
    and e: "(if am_issuer raw = issuer then (Ok raw, log1 @ [as_url]) else chase_delegated_issuer env issuer raw (log1 @ [as_url])) = (Ok doc, log)"
    unfolding discover_authorization_server_def tx_bind_Ok_iff parse_url_Ok_iff fetch_json_Ok by (auto simp: parse_url_Ok_iff)
  from discover_issuer_log [OF d] have n: "length log1 \<le> 3" by simp
  show ?thesis
  proof (cases "am_issuer raw = issuer")
    case True
    with e have "doc = raw" "log = log1 @ [as_url]" by auto
    moreover from True p f have "serves_metadata env (am_issuer raw) as_url raw"
      by (auto simp: serves_metadata_def dest!: read_reply_Ok)
    ultimately show ?thesis using n by simp
  next
    case False
    with e chase_Ok obtain u where "serves_metadata env (am_issuer doc) u doc" "log = (log1 @ [as_url]) @ [u]" by metis
    with n show ?thesis by simp
  qed
qed

section \<open>The challenge header is read back\<close>

text \<open>How a server writes a challenge: each parameter as a quoted string, with quotes and backslashes escaped, or bare.\<close>

datatype auth_value = Quoted string | Bare string

fun value_text :: "auth_value \<Rightarrow> string" where
  "value_text (Quoted v) = v"
| "value_text (Bare v) = v"

definition ascii_text :: "string \<Rightarrow> bool" where
  "ascii_text s \<longleftrightarrow> (\<forall>c \<in> set s. of_char c < (128 :: nat))"

definition http_token :: "string \<Rightarrow> bool" where
  "http_token s \<longleftrightarrow> s \<noteq> [] \<and> (\<forall>c \<in> set s. is_tchar c)"

fun escape :: "string \<Rightarrow> string" where
  "escape [] = []"
| "escape (c # cs) = (if c = CHR 0x22 \<or> c = CHR 0x5C then [CHR 0x5C, c] else [c]) @ escape cs"

fun auth_value_str :: "auth_value \<Rightarrow> string" where
  "auth_value_str (Quoted v) = [CHR 0x22] @ escape v @ [CHR 0x22]"
| "auth_value_str (Bare v) = v"

definition auth_param :: "string \<times> auth_value \<Rightarrow> string" where
  "auth_param = (\<lambda>(name, v). name @ ''='' @ auth_value_str v)"

definition bearer_challenge :: "(string \<times> auth_value) list \<Rightarrow> auth_value \<Rightarrow> string" where
  "bearer_challenge params url = ''Bearer '' @ concat (map (\<lambda>p. auth_param p @ '', '') params) @ auth_param (''resource_metadata'', url)"

text \<open>The values the scanner accepts: ASCII text between quotes, or a \<open>token68\<close>, which ends where what follows is none.\<close>

fun value_ok :: "auth_value \<Rightarrow> bool" where
  "value_ok (Quoted v) = ascii_text v"
| "value_ok (Bare v) = (v \<noteq> [] \<and> (\<forall>c \<in> set v. is_token68_char c))"

fun value_ends :: "auth_value \<Rightarrow> string \<Rightarrow> bool" where
  "value_ends (Quoted _) rest = True"
| "value_ends (Bare _) rest = (rest = [] \<or> \<not> is_token68_char (hd rest))"

lemma read_quoted_end: "read_quoted (CHR 0x22 # rest) = Some ([], rest)"
  by (cases rest) simp_all

lemma read_quoted_plain:
  "c \<noteq> CHR 0x22 \<Longrightarrow> c \<noteq> CHR 0x5C \<Longrightarrow> bs \<noteq> [] \<Longrightarrow> read_quoted (c # bs) = map_option (\<lambda>(v, r). (char_from c @ v, r)) (read_quoted bs)"
  by (cases bs) simp_all

lemma read_quoted_escape: "ascii_text v \<Longrightarrow> read_quoted (escape v @ CHR 0x22 # rest) = Some (v, rest)"
  by (induction v) (auto simp: read_quoted_end read_quoted_plain ascii_text_def char_from_def)

lemma tchar_plain:
  assumes "is_tchar c"
  shows "\<not> is_sep c" and "\<not> is_lws c" and "c \<noteq> CHR ''=''"
  using assms by (auto simp: is_tchar_def is_sep_def is_lws_def is_ascii_ws_def)

lemma not_tchar: "\<not> is_tchar (CHR ''='')" "\<not> is_tchar (CHR 0x20)"
  by (simp_all add: is_tchar_def less_eq_char_def)

lemma token_first:
  assumes "http_token tok"
  shows "dropWhile is_sep (tok @ rest) = tok @ rest" and "dropWhile is_lws (tok @ rest) = tok @ rest" and "hd (tok @ rest) \<noteq> CHR ''=''"
  using assms tchar_plain by (cases tok; simp add: http_token_def)+

lemma token_taken:
  "http_token tok \<Longrightarrow> \<not> is_tchar c \<Longrightarrow> takeWhile is_tchar (tok @ c # rest) = tok \<and> dropWhile is_tchar (tok @ c # rest) = c # rest"
  by (simp add: http_token_def takeWhile_append2 dropWhile_append2)

lemma scan_sep: "is_sep c \<Longrightarrow> scan_challenge b (c # rest) = scan_challenge b rest"
  by (subst (1 2) scan_challenge.simps) simp

lemma token68_plain: "is_token68_char c \<Longrightarrow> c \<noteq> CHR 0x22 \<and> \<not> is_lws c"
  by (auto simp: is_token68_char_def is_lws_def)

lemma read_value:
  assumes "value_ok v" and "value_ends v rest"
  shows "read_param_value (dropWhile is_lws (auth_value_str v @ rest)) = Some (value_text v, rest)"
proof (cases v)
  case (Quoted s)
  then show ?thesis using assms(1) by (simp add: is_lws_def read_param_value_def read_quoted_escape)
next
  case (Bare s)
  with assms(1) obtain c cs where s: "s = c # cs" "is_token68_char c" "\<forall>x \<in> set cs. is_token68_char x" by (cases s) auto
  have "takeWhile is_token68_char (s @ rest) = s \<and> dropWhile is_token68_char (s @ rest) = rest"
    using s assms(2) Bare by (cases rest) (simp_all add: takeWhile_append2 dropWhile_append2 takeWhile_eq_all_conv dropWhile_eq_Nil_conv)
  then show ?thesis using Bare s(1,2) token68_plain [OF s(2)] by (simp add: read_param_value_def)
qed

lemma scan_param:
  assumes "http_token name" and "value_ok v" and "value_ends v rest"
  shows "scan_challenge b (auth_param (name, v) @ rest) =
     (if b \<and> ascii_lower name = ''resource_metadata'' then Some (value_text v) else scan_challenge b rest)"
  using assms(1) token_first(1) [OF assms(1), of "CHR ''='' # auth_value_str v @ rest"]
    token_taken [OF assms(1) not_tchar(1), of "auth_value_str v @ rest"] read_value [OF assms(2,3)]
  by (subst scan_challenge.simps) (auto simp: auth_param_def is_lws_def http_token_def)

lemma scan_scheme:
  assumes "http_token tok" and "http_token name"
  shows "scan_challenge b (tok @ '' '' @ name @ rest) = scan_challenge (ascii_lower tok = ''bearer'') (name @ rest)"
  using assms token_first(1) [OF assms(1), of "'' '' @ name @ rest"] token_taken [OF assms(1) not_tchar(2), of "name @ rest"]
    token_first(2,3) [OF assms(2), of rest]
  by (subst scan_challenge.simps) (auto simp: is_lws_def http_token_def)

definition other_param :: "string \<times> auth_value \<Rightarrow> bool" where
  "other_param = (\<lambda>(name, v). http_token name \<and> value_ok v \<and> ascii_lower name \<noteq> ''resource_metadata'')"

lemma metadata_token: "http_token ''resource_metadata''" "http_token ''Bearer''"
  by (simp_all add: http_token_def is_tchar_def less_eq_char_def)

lemma metadata_lower: "ascii_lower ''resource_metadata'' = ''resource_metadata''" "ascii_lower ''Bearer'' = ''bearer''"
  by code_simp+

lemma comma_ends: "value_ends v ('', '' @ rest)"
  by (cases v) (simp_all add: is_token68_char_def less_eq_char_def)

lemma scan_params:
  "list_all other_param params \<Longrightarrow> value_ok url \<Longrightarrow> value_ends url rest \<Longrightarrow>
     scan_challenge True (concat (map (\<lambda>p. auth_param p @ '', '') params) @ auth_param (''resource_metadata'', url) @ rest) = Some (value_text url)"
proof (induction params)
  case Nil
  then show ?case by (simp add: scan_param metadata_token metadata_lower)
next
  case (Cons p params)
  obtain name v where p: "p = (name, v)" by (cases p)
  with Cons.prems have "http_token name" "value_ok v" "ascii_lower name \<noteq> ''resource_metadata''" by (simp_all add: other_param_def)
  with Cons p comma_ends show ?case by (simp add: scan_param scan_sep is_sep_def is_ascii_ws_def)
qed

lemma params_start:
  assumes "list_all other_param params"
  shows "\<exists>name tail. http_token name \<and> concat (map (\<lambda>p. auth_param p @ '', '') params) @ auth_param (''resource_metadata'', url) @ rest = name @ tail"
proof (cases params)
  case Nil
  then have "concat (map (\<lambda>p. auth_param p @ '', '') params) @ auth_param (''resource_metadata'', url) @ rest =
      ''resource_metadata'' @ (''='' @ auth_value_str url @ rest)"
    by (simp add: auth_param_def)
  with metadata_token(1) show ?thesis by blast
next
  case (Cons p ps)
  then show ?thesis using assms by (cases p) (auto simp: auth_param_def other_param_def)
qed

text \<open>C36. A Bearer challenge that names its metadata URL is understood: the scanner returns exactly the URL the server wrote. The
  URL may be a quoted string, whatever quotes or backslashes it has escaped and whatever follows it, or a bare token68; before it
  there may be any other parameters with token names and with values of these two forms.\<close>

theorem challenge_roundtrip:
  assumes "list_all other_param params" and "value_ok url" and "value_ends url rest"
  shows "parse_resource_metadata_param (bearer_challenge params url @ rest) = Some (value_text url)"
proof -
  let ?tail = "concat (map (\<lambda>p. auth_param p @ '', '') params) @ auth_param (''resource_metadata'', url) @ rest"
  from params_start [OF assms(1)] obtain name tail where name: "http_token name" and tail: "?tail = name @ tail" by blast
  have "bearer_challenge params url @ rest = ''Bearer'' @ '' '' @ name @ tail"
    using tail by (simp add: bearer_challenge_def)
  then show ?thesis
    using scan_scheme [OF metadata_token(2) name, of False tail] scan_params [OF assms] tail
    by (simp add: parse_resource_metadata_param_def metadata_lower)
qed

text \<open>A parameter value may also be a token, and tokens have characters a token68 has not. Such a value is cut off at the
  character, the remainder is taken for the name of another scheme, and the metadata URL of a valid challenge is not found.\<close>

lemma token_value_hides_metadata:
  "http_token ''a!b'' \<and>
   parse_resource_metadata_param (bearer_challenge [(''realm'', Bare ''a!b'')] (Quoted ''https://x/y'')) = None"
  by code_simp

end
