(* ===== verification/Oauth_Examples.thy ===== *)
theory Oauth_Examples
  imports Oauth_Discovery
begin

text \<open>
  The theorems on credentials and OAuth at concrete inputs: a toy cipher that puts key and nonce in front of the plaintext, a codec of two
  tokens, one organisation with one server whose token is due, and an authorization server that delegates to another.
\<close>

section \<open>A token and its renewal\<close>

definition toy_lib :: crypto_lib where
  "toy_lib = \<lparr>cl_base64 = Inr, cl_hkdf = (\<lambda>org master info. Some (master @ info)), cl_encrypt = (\<lambda>k n p. Some (k @ n @ p)),
     cl_decrypt = (\<lambda>k n c. if take (length (k @ n)) c = k @ n then Some (drop (length (k @ n)) c) else None)\<rparr>"

definition old_token :: oauth2_payload where
  "old_token = \<lparr>oa_access_token = ''a1'', oa_refresh_token = Some ''r1'', oa_expires_at = 1000, oa_scope = Some ''read'',
     oa_issuer = ''https://as.test'', oa_token_endpoint = ''https://as.test/token''\<rparr>"

definition new_token :: oauth2_payload where
  "new_token = \<lparr>oa_access_token = ''a2'', oa_refresh_token = Some ''r1'', oa_expires_at = 4600, oa_scope = Some ''read'',
     oa_issuer = ''https://as.test'', oa_token_endpoint = ''https://as.test/token''\<rparr>"

definition toy_json :: cred_json where
  "toy_json = \<lparr>cj_encode = (\<lambda>p. if p = Oauth2 old_token then Inr ''old'' else if p = Oauth2 new_token then Inr ''new'' else Inl ''unknown''),
     cj_decode = (\<lambda>s. if s = ''old'' then Inr (Oauth2 old_token) else if s = ''new'' then Inr (Oauth2 new_token) else Inl ''unknown'')\<rparr>"

definition nonce12 :: string where "nonce12 = ''abcdefghijkl''"

definition toy_enc :: encryptor where
  "toy_enc = \<lparr>enc_versions = [(CURRENT_KEY_VERSION, ''master'')], enc_cache = []\<rparr>"

definition due_row :: credential_row where
  "due_row = \<lparr>cr_server_id = 7, cr_org_id = 1, cr_kind = ''oauth2'', cr_ciphertext = ''master'' @ KEK_INFO @ nonce12 @ ''old'', cr_nonce = nonce12,
     cr_key_version = 1, cr_created_at = 0, cr_updated_at = 0\<rparr>"

definition as_client :: oauth_client_row where
  "as_client = \<lparr>oc_org_id = 1, oc_issuer = ''https://as.test'', oc_client_id = ''relay'', oc_authorization_endpoint = ''https://as.test/auth'',
     oc_token_endpoint = ''https://as.test/token'', oc_registration_client_uri = None, oc_registration_access_token = None, oc_client_secret = None,
     oc_key_version = 1, oc_token_endpoint_auth_method = NoAuth, oc_scope = None, oc_created_at = 0\<rparr>"

definition toy_world :: cred_world where
  "toy_world = \<lparr>cw_enc = toy_enc, cw_credentials = [due_row],
     cw_servers = [\<lparr>sv_id = 7, sv_org_id = 1, sv_alias = ''docs'', sv_enabled = True, sv_config = ''https://docs'', sv_description = None, sv_last_seen_at = None,
       sv_last_error = None, sv_discovered_tools = None, sv_created_by_user_id = 1, sv_connection_status = ''ok'', sv_created_at = 0, sv_updated_at = 0\<rparr>],
     cw_clients = [as_client]\<rparr>"

definition granted :: "nat \<Rightarrow> token_reply" where
  "granted lifetime = \<lparr>rp_access_token = ''a2'', rp_refresh_token = None, rp_expires_in = Some lifetime, rp_scopes = None\<rparr>"

definition deps_granting :: "nat \<Rightarrow> refresh_deps" where
  "deps_granting lifetime = \<lparr>rd_lib = toy_lib, rd_json = toy_json,
     rd_oauth = \<lparr>ox_url = (\<lambda>_. Inr ()), ox_exchange_code = (\<lambda>_ _ _. Inl ''unused''), ox_refresh = (\<lambda>_ _. Inr (granted lifetime))\<rparr>,
     rd_redirect_uri = ''https://relay.test/cb'', rd_nonce = (\<lambda>_. nonce12)\<rparr>"

definition as_basic :: basic_client where
  "as_basic = \<lparr>bc_client_id = ''relay'', bc_client_secret = None, bc_auth_uri = ''https://as.test/auth'', bc_token_uri = ''https://as.test/token'',
     bc_redirect_uri = ''https://relay.test/cb''\<rparr>"

lemma toy_laws: "aead_law toy_lib" "json_law toy_json"
  by (auto simp: aead_law_def json_law_def toy_lib_def toy_json_def split: if_splits)

lemma toy_world_ok: "cred_ok toy_world" "kek_coherent toy_lib toy_enc"
  "derived_kek toy_lib toy_enc (CURRENT_KEY_VERSION, 1) = Some (''master'' @ KEK_INFO)"
  by (simp_all add: cred_ok_def toy_world_def due_row_def kek_coherent_def toy_enc_def derived_kek_def toy_lib_def)

lemma due_row_holds: "row_holds toy_lib toy_json toy_enc due_row (Oauth2 old_token)"
  using toy_world_ok(3)
  by (simp add: row_holds_def due_row_def nonce12_def NONCE_BYTES_def CURRENT_KEY_VERSION_def toy_lib_def toy_json_def KEK_INFO_def)

lemma toy_renewable: "renewable (deps_granting n) 1000 toy_world due_row old_token as_client None as_basic ''r1''"
  using toy_world_ok due_row_holds
  by (simp add: renewable_def deps_granting_def toy_world_def old_token_def OAUTH_REFRESH_SKEW_def same_client_def as_client_def due_row_def
      client_holds_def text_len_def OAUTH_CLIENT_ID_MAX_BYTES_def build_basic_client_def oauth_url_def client_of_def as_basic_def)

theorem credentials_roundtrip_witness:
  "\<exists>w'. cred_upsert toy_lib toy_json nonce12 1000 \<lparr>rec_server_id = 7, rec_org_id = 1, rec_payload = Oauth2 new_token\<rparr> toy_world = (Ok (), w') \<and>
     fst (cred_read toy_lib toy_json 7 1 w') = Ok (Some \<lparr>rec_server_id = 7, rec_org_id = 1, rec_payload = Oauth2 new_token\<rparr>) \<and>
     fst (cred_read toy_lib toy_json 7 2 w') = Ok None"
proof -
  let ?rec = "\<lparr>rec_server_id = 7, rec_org_id = 1, rec_payload = Oauth2 new_token\<rparr>"
  have "length nonce12 = NONCE_BYTES" by (simp add: nonce12_def NONCE_BYTES_def)
  moreover have "cj_encode toy_json (rec_payload ?rec) = Inr ''new''" by (simp add: toy_json_def old_token_def new_token_def)
  ultimately show ?thesis
    using credentials_roundtrip [OF toy_laws, where w = toy_world and s = "hd (cw_servers toy_world)" and rec = ?rec and nonce = nonce12
        and k = "''master'' @ KEK_INFO" and json = "''new''" and now = 1000] toy_world_ok
    by (auto simp: toy_world_def MAX_CREDENTIAL_PLAINTEXT_def)
qed

theorem refresh_renews_token_witness:
  "\<exists>w'. refresh_credential (deps_granting 3600) 7 1 old_token 1000 toy_world = (Ok (), w') \<and>
     fst (cred_read toy_lib toy_json 7 1 w') = Ok (Some \<lparr>rec_server_id = 7, rec_org_id = 1, rec_payload = Oauth2 new_token\<rparr>)"
proof -
  have d: "rd_lib (deps_granting 3600) = toy_lib" "rd_json (deps_granting 3600) = toy_json" "rd_nonce (deps_granting 3600) = (\<lambda>_. nonce12)"
    "ox_refresh (rd_oauth (deps_granting 3600)) as_basic ''r1'' = Inr (granted 3600)" by (simp_all add: deps_granting_def)
  moreover have "expires_from 1000 (rp_expires_in (granted 3600)) = Ok 4600"
    by (simp add: expires_from_def granted_def DURATION_MAX_SECS_def DATETIME_MAX_def)
  moreover have "cj_encode toy_json (Oauth2 new_token) = Inr ''new''" by (simp add: toy_json_def old_token_def new_token_def)
  moreover have "new_token = \<lparr>oa_access_token = rp_access_token (granted 3600), oa_refresh_token = or_prior (rp_refresh_token (granted 3600)) (Some ''r1''),
      oa_expires_at = 4600, oa_scope = or_prior (map_option join_scopes (rp_scopes (granted 3600))) (oa_scope old_token), oa_issuer = oc_issuer as_client,
      oa_token_endpoint = oc_token_endpoint as_client\<rparr>"
    by (simp add: new_token_def granted_def or_prior_def old_token_def as_client_def)
  moreover have "length nonce12 = NONCE_BYTES" "length ''new'' \<le> MAX_CREDENTIAL_PLAINTEXT"
    by (simp_all add: nonce12_def NONCE_BYTES_def MAX_CREDENTIAL_PLAINTEXT_def)
  moreover have "cr_server_id due_row = 7" "cr_org_id due_row = 1" "cw_enc toy_world = toy_enc" by (simp_all add: due_row_def toy_world_def)
  ultimately show ?thesis
    using refresh_renews_token [OF toy_renewable [of 3600], where t = "granted 3600" and expires = 4600 and new = new_token and json = "''new''"
        and k = "''master'' @ KEK_INFO"] toy_laws toy_world_ok by auto
qed

theorem huge_expiry_kills_refresher_witness:
  "\<exists>m w'. oauth_refresh_tick (deps_granting 9000000000000) 1000 toy_world = (Panic m, w') \<and> cw_credentials w' = cw_credentials toy_world"
proof -
  have "filter (\<lambda>d. cr_kind d = ''oauth2'') (cw_credentials toy_world) = [due_row]" by (simp add: toy_world_def due_row_def)
  moreover have "ox_refresh (rd_oauth (deps_granting 9000000000000)) as_basic ''r1'' = Inr (granted 9000000000000)"
    and "rp_expires_in (granted 9000000000000) = Some 9000000000000" by (simp_all add: deps_granting_def granted_def)
  ultimately show ?thesis
    using huge_expiry_kills_refresher [OF _ toy_renewable, of "[]" 9000000000000 "granted 9000000000000" 9000000000000]
    by (auto simp: DURATION_MAX_SECS_def DATETIME_MAX_def)
qed

section \<open>A callback, a challenge and a delegation\<close>

definition started :: pending_authorization where
  "started = \<lparr>pa_state = replicate 43 CHR ''s'', pa_server_id = 7, pa_user_id = 3, pa_org_id = 1, pa_issuer = ''https://as.test'', pa_pkce_verifier = replicate 43 CHR ''v'', pa_redirect_to = None\<rparr>"

theorem pending_consumed_once_witness:
  "pending_consume (replicate 43 CHR ''s'') 10 [(started, 100)] = (Some started, []) \<and> fst (pending_consume (replicate 43 CHR ''s'') 11 [(started\<lparr>pa_state := replicate 43 CHR ''t''\<rparr>, 200)]) = None"
proof
  show taken: "pending_consume (replicate 43 CHR ''s'') 10 [(started, 100)] = (Some started, [])" by (simp add: pending_consume_def started_def)
  have "pending_insert (started\<lparr>pa_state := replicate 43 CHR ''t''\<rparr>) 200 [] = (Ok (), [(started\<lparr>pa_state := replicate 43 CHR ''t''\<rparr>, 200)])" by (simp add: pending_insert_def pending_row_check_def started_def text_len_def)
  then have "pending_step (replicate 43 CHR ''s'') [] [(started\<lparr>pa_state := replicate 43 CHR ''t''\<rparr>, 200)]" by (rule pending_step.insert) (simp add: replicate_eq_replicate)
  with pending_consumed_once [OF _ taken] show "fst (pending_consume (replicate 43 CHR ''s'') 11 [(started\<lparr>pa_state := replicate 43 CHR ''t''\<rparr>, 200)]) = None"
    by (auto simp: pending_inv_def)
qed

theorem challenge_roundtrip_witness:
  "parse_resource_metadata_param
     (bearer_challenge [(''realm'', Quoted ''x''), (''scope'', Bare ''mcp:read'')] (Quoted ''https://x.test/y'') @ '', Basic'') = Some ''https://x.test/y''"
proof -
  have "list_all other_param [(''realm'', Quoted ''x''), (''scope'', Bare ''mcp:read'')]"
    by (simp add: other_param_def http_token_def ascii_text_def is_tchar_def is_token68_char_def less_eq_char_def ascii_lower_def)
  moreover have "value_ok (Quoted ''https://x.test/y'')" by (simp add: ascii_text_def)
  ultimately show ?thesis using challenge_roundtrip [of _ "Quoted ''https://x.test/y''" "'', Basic''"] by simp
qed

text \<open>The resource names one issuer, whose document names another; the second one speaks for itself.\<close>

definition meta :: as_metadata where
  "meta = \<lparr>am_issuer = ''b'', am_authorization_endpoint = ''b/auth'', am_token_endpoint = ''b/token'', am_registration_endpoint = None,
     am_scopes_supported = None, am_auth_methods = None\<rparr>"

definition toy_env :: discovery_env where
  "toy_env = \<lparr>de_parse = Inr, de_get = (\<lambda>u. Replied \<lparr>hr_status = 200, hr_reason = ''OK'', hr_body = Inr [], hr_www_authenticate = []\<rparr>),
     de_resource_json = (\<lambda>_. Inr (Some [''a''])), de_as_json = (\<lambda>_. Inr meta)\<rparr>"

theorem discovered_issuer_self_identifies_witness:
  "\<exists>log. discover_authorization_server toy_env ''srv'' [] = (Ok meta, log) \<and> (\<exists>u \<in> set log. serves_metadata toy_env ''b'' u meta) \<and> length log \<le> 5"
proof -
  have "discover_authorization_server toy_env ''srv'' [] =
      (Ok meta, [''srv/'' @ RESOURCE_WELL_KNOWN, ''a/'' @ AS_WELL_KNOWN, ''b/'' @ AS_WELL_KNOWN])"
    by (simp add: discover_authorization_server_def parse_url_def toy_env_def join_well_known_def discover_issuer_def meta_def
        fetch_protected_resource_issuer_def fetch_json_def read_reply_def is_success_def DISCOVERY_MAX_BYTES_def chase_delegated_issuer_def)
  moreover have "am_issuer meta = ''b''" by (simp add: meta_def)
  ultimately show ?thesis using discovered_issuer_self_identifies [of toy_env "''srv''" meta] by auto
qed

end
