(* ===== verification/Identity.thy ===== *)
theory Identity
  imports Agent_Store
begin

text \<open>
  Users, organisations and sign-in (\<open>src/auth/\<close>): the value types, the languages, the session token and the Postgres store of accounts.

  \<open>lower\<close> is the lower-casing of Unicode text, used by \<open>str::to_lowercase\<close> and by the \<open>citext\<close> columns. The signature of a token
  (\<open>jwt_lib\<close>), fresh identifiers, random suffixes and the time are parameters. A transaction that violates a constraint of the tables
  (migrations 14 and 23) is \<open>AuthDb\<close> with the SQL state Postgres reports: 23505 for a unique index, 23514 for a check, 23503 for a
  foreign key. Seconds since the epoch are integers; they stay far below the range of \<open>i64\<close>.
\<close>

section \<open>Value types (auth/types.rs, language.rs, locale\_hint.rs)\<close>

datatype role = Owner | Admin | Member

fun role_as_str :: "role \<Rightarrow> string" where
  "role_as_str Owner = ''owner''" | "role_as_str Admin = ''admin''" | "role_as_str Member = ''member''"

definition ROLES :: "role list" where "ROLES = [Owner, Admin, Member]"

interpretation role_enum: str_enum ROLES role_as_str
  by unfold_locales (auto simp: ROLES_def inj_def elim: role_as_str.elims intro: role.exhaust)

datatype language = En | Vi

fun language_as_str :: "language \<Rightarrow> string" where
  "language_as_str En = ''en''" | "language_as_str Vi = ''vi''"

definition LANGUAGES :: "language list" where "LANGUAGES = [En, Vi]"

interpretation language_enum: str_enum LANGUAGES language_as_str
  by unfold_locales (auto simp: LANGUAGES_def inj_def elim: language_as_str.elims intro: language.exhaust)

definition is_lower_byte :: "char \<Rightarrow> bool" where "is_lower_byte c \<longleftrightarrow> CHR ''a'' \<le> c \<and> c \<le> CHR ''z''"
definition is_upper_byte :: "char \<Rightarrow> bool" where "is_upper_byte c \<longleftrightarrow> CHR ''A'' \<le> c \<and> c \<le> CHR ''Z''"
definition is_digit_byte :: "char \<Rightarrow> bool" where "is_digit_byte c \<longleftrightarrow> CHR ''0'' \<le> c \<and> c \<le> CHR ''9''"

definition EMAIL_MIN_BYTES :: nat where "EMAIL_MIN_BYTES = 3"
definition EMAIL_MAX_BYTES :: nat where "EMAIL_MAX_BYTES = 320"

definition email_try_from :: "string \<Rightarrow> (parse_error, string) outcome" where
  "email_try_from raw =
     (let t = trim raw in
      if t = [] then Err (Empty ''email'')
      else if length t < EMAIL_MIN_BYTES then Err (OutOfRange ''email'' ''too short'')
      else if EMAIL_MAX_BYTES < length t then Err (TooLong ''email'' EMAIL_MAX_BYTES (length t))
      else if CHR ''@'' \<notin> set t then Err (Malformed ''email'' ''missing @'')
      else let pos = length (takeWhile (\<lambda>c. c \<noteq> CHR ''@'') t) in
        if pos = 0 \<or> pos = length t - 1 then Err (Malformed ''email'' ''missing local or domain part'') else Ok t)"

definition ORG_SLUG_MAX_BYTES :: nat where "ORG_SLUG_MAX_BYTES = 63"

definition is_slug_byte :: "char \<Rightarrow> bool" where "is_slug_byte c \<longleftrightarrow> is_lower_byte c \<or> is_digit_byte c"

definition org_slug_try_from :: "string \<Rightarrow> (parse_error, string) outcome" where
  "org_slug_try_from raw =
     (if raw = [] then Err (Empty ''org_slug'')
      else if ORG_SLUG_MAX_BYTES < length raw then Err (TooLong ''org_slug'' ORG_SLUG_MAX_BYTES (length raw))
      else if \<not> is_slug_byte (hd raw) then Err (Malformed ''org_slug'' ''must start with [a-z0-9]'')
      else if \<not> list_all (\<lambda>c. is_slug_byte c \<or> c = CHR ''-'') (tl raw) then Err (Malformed ''org_slug'' ''only [a-z0-9-] after the first char'')
      else Ok raw)"

definition GOOGLE_SUBJECT_MAX_BYTES :: nat where "GOOGLE_SUBJECT_MAX_BYTES = 255"

definition google_subject_try_from :: "string \<Rightarrow> (parse_error, string) outcome" where
  "google_subject_try_from raw =
     (if raw = [] then Err (Empty ''google_subject'')
      else if GOOGLE_SUBJECT_MAX_BYTES < length raw then Err (TooLong ''google_subject'' GOOGLE_SUBJECT_MAX_BYTES (length raw))
      else Ok raw)"

definition is_unreserved :: "char \<Rightarrow> bool" where
  "is_unreserved c \<longleftrightarrow> is_lower_byte c \<or> is_upper_byte c \<or> is_digit_byte c \<or> c \<in> set ''-._~''"

definition url_safe_try_from :: "string \<Rightarrow> string \<Rightarrow> string \<Rightarrow> nat \<Rightarrow> nat \<Rightarrow> string \<Rightarrow> (parse_error, string) outcome" where
  "url_safe_try_from name short junk low high raw =
     (if length raw < low then Err (Malformed name short)
      else if high < length raw then Err (TooLong name high (length raw))
      else if \<not> list_all is_unreserved raw then Err (Malformed name junk)
      else Ok raw)"

definition pkce_verifier_try_from :: "string \<Rightarrow> (parse_error, string) outcome" where
  "pkce_verifier_try_from = url_safe_try_from ''pkce_verifier'' ''shorter than RFC 7636 minimum (43)'' ''non-unreserved character'' 43 128"

definition oauth_state_try_from :: "string \<Rightarrow> (parse_error, string) outcome" where
  "oauth_state_try_from = url_safe_try_from ''oauth_state'' ''too short'' ''non-URL-safe character'' 32 128"

definition DETECTED_LOCALE_MAX_LEN :: nat where "DETECTED_LOCALE_MAX_LEN = 32"

definition locale_hint_try_from :: "string \<Rightarrow> (parse_error, string) outcome" where
  "locale_hint_try_from raw =
     (if raw = [] then Err (Empty ''locale_hint'')
      else if DETECTED_LOCALE_MAX_LEN < length raw then Err (TooLong ''locale_hint'' DETECTED_LOCALE_MAX_LEN (length raw))
      else Ok raw)"

interpretation org_slug: smart_string org_slug_try_from ORG_SLUG_MAX_BYTES
  by unfold_locales (auto simp: org_slug_try_from_def split: if_splits)

interpretation google_subject: smart_string google_subject_try_from GOOGLE_SUBJECT_MAX_BYTES
  by unfold_locales (auto simp: google_subject_try_from_def split: if_splits)

interpretation locale_hint: smart_string locale_hint_try_from DETECTED_LOCALE_MAX_LEN
  by unfold_locales (auto simp: locale_hint_try_from_def split: if_splits)

interpretation pkce_verifier: smart_string pkce_verifier_try_from 128
  by unfold_locales (auto simp: pkce_verifier_try_from_def url_safe_try_from_def split: if_splits)

interpretation oauth_state: smart_string oauth_state_try_from 128
  by unfold_locales (auto simp: oauth_state_try_from_def url_safe_try_from_def split: if_splits)

section \<open>Language of a new organisation\<close>

text \<open>\<open>str::split\<close> on a byte test: the pieces between the separators.\<close>

fun split_on :: "(char \<Rightarrow> bool) \<Rightarrow> string \<Rightarrow> string list" where
  "split_on P [] = [[]]"
| "split_on P (c # cs) = (if P c then [] # split_on P cs else (case split_on P cs of p # ps \<Rightarrow> (c # p) # ps | [] \<Rightarrow> [[c]]))"

definition ascii_lowercase :: "string \<Rightarrow> string" where
  "ascii_lowercase s = map (\<lambda>c. if is_upper_byte c then char_of (of_char c + 32 :: nat) else c) s"

definition is_tag_end :: "char \<Rightarrow> bool" where "is_tag_end c \<longleftrightarrow> c \<in> set ''-_;''"

definition primary_subtag :: "string \<Rightarrow> string option" where
  "primary_subtag entry =
     (let primary = trim (hd (split_on is_tag_end entry)) in if primary = [] then None else Some (ascii_lowercase primary))"

definition language_parse :: "string \<Rightarrow> language option" where
  "language_parse = str_enum_parse LANGUAGES language_as_str"

definition parse_primary_tag :: "string \<Rightarrow> language option" where
  "parse_primary_tag raw = Option.bind (primary_subtag raw) language_parse"

fun find_map :: "('a \<Rightarrow> 'b option) \<Rightarrow> 'a list \<Rightarrow> 'b option" where
  "find_map f [] = None"
| "find_map f (x # xs) = (case f x of Some y \<Rightarrow> Some y | None \<Rightarrow> find_map f xs)"

definition from_locale_hint :: "string option \<Rightarrow> string option \<Rightarrow> language" where
  "from_locale_hint google accept =
     (case Option.bind google parse_primary_tag of
        Some lang \<Rightarrow> lang
      | None \<Rightarrow>
          (case Option.bind accept (\<lambda>raw. find_map parse_primary_tag
                  (map (\<lambda>e. hd (split_on (\<lambda>c. c = CHR '';'') (trim e))) (split_on (\<lambda>c. c = CHR '','') raw))) of
             Some lang \<Rightarrow> lang
           | None \<Rightarrow> En))"

section \<open>Session tokens (auth/jwt.rs)\<close>

definition JWT_SECRET_MIN_BYTES :: nat where "JWT_SECRET_MIN_BYTES = 32"
definition JWT_TTL_SECS :: int where "JWT_TTL_SECS = 7 * 24 * 60 * 60"
definition EXP_LEEWAY_SECS :: int where "EXP_LEEWAY_SECS = 5"

record jwt_claims =
  jc_sub :: user_id
  jc_org :: org_id
  jc_iat :: int
  jc_exp :: int

record jwt_lib =
  jl_encode :: "string \<Rightarrow> jwt_claims \<Rightarrow> string + string"
  jl_decode :: "string \<Rightarrow> string \<Rightarrow> string + jwt_claims"

datatype auth_error =
    Unauthenticated
  | NotMember org_id
  | OAuthStateInvalid
  | OAuthProvider string
  | EmailUnverified
  | AuthJwt string
  | AuthParse parse_error
  | AuthDb string
  | AuthInternal string
  | AuthMisconfigured string

definition jwt_signer_new :: "string \<Rightarrow> (auth_error, string) outcome" where
  "jwt_signer_new secret =
     (if length secret < JWT_SECRET_MIN_BYTES then Err (AuthInternal ''jwt secret too short (need >= 32 bytes)'') else Ok secret)"

definition jwt_mint :: "jwt_lib \<Rightarrow> string \<Rightarrow> int \<Rightarrow> user_id \<Rightarrow> org_id \<Rightarrow> (auth_error, string) outcome" where
  "jwt_mint lib secret now user org =
     (case jl_encode lib secret \<lparr>jc_sub = user, jc_org = org, jc_iat = now, jc_exp = min (now + JWT_TTL_SECS) (2 ^ 63 - 1)\<rparr> of
        Inl m \<Rightarrow> Err (AuthJwt m)
      | Inr t \<Rightarrow> Ok t)"

definition jwt_verify :: "jwt_lib \<Rightarrow> string \<Rightarrow> int \<Rightarrow> string \<Rightarrow> (auth_error, jwt_claims) outcome" where
  "jwt_verify lib secret now token =
     (case jl_decode lib secret token of
        Inl m \<Rightarrow> Err (AuthJwt m)
      | Inr claims \<Rightarrow> if jc_exp claims + EXP_LEEWAY_SECS < now then Err (AuthJwt ''token expired'') else Ok claims)"

section \<open>The store of accounts (auth/pg\_store.rs)\<close>

record google_profile =
  gp_subject :: string
  gp_email :: string
  gp_display_name :: "string option"
  gp_avatar_url :: "string option"
  gp_locale :: "string option"

record user_row =
  us_id :: user_id
  us_email :: string
  us_display_name :: "string option"
  us_avatar_url :: "string option"
  us_created_at :: instant
  us_updated_at :: instant

record identity_row =
  ui_user_id :: user_id
  ui_subject :: string
  ui_email_at_link :: string
  ui_created_at :: instant

record org_row =
  og_id :: org_id
  og_name :: string
  og_slug :: string
  og_language :: language
  og_created_at :: instant
  og_updated_at :: instant

record member_row =
  mb_org_id :: org_id
  mb_user_id :: user_id
  mb_role :: string
  mb_created_at :: instant

record login_state_row =
  ls_state :: string
  ls_pkce_verifier :: string
  ls_redirect_to :: "string option"
  ls_detected_locale :: "string option"
  ls_created_at :: instant
  ls_expires_at :: instant

record accounts =
  ac_users :: "user_row list"
  ac_identities :: "identity_row list"
  ac_orgs :: "org_row list"
  ac_members :: "member_row list"
  ac_login_states :: "login_state_row list"

record user =
  u_id :: user_id
  u_email :: string
  u_display_name :: "string option"
  u_avatar_url :: "string option"

record org_membership =
  om_org_id :: org_id
  om_org_name :: string
  om_org_slug :: string
  om_role :: role
  om_default_language :: language

record consumed_oauth_state =
  co_pkce_verifier :: string
  co_redirect_to :: "string option"
  co_detected_locale :: "string option"

type_synonym 'a auth_result = "(auth_error, 'a) outcome \<times> accounts"

definition UNIQUE_VIOLATION :: string where "UNIQUE_VIOLATION = ''23505''"
definition CHECK_VIOLATION :: string where "CHECK_VIOLATION = ''23514''"
definition FOREIGN_KEY_VIOLATION :: string where "FOREIGN_KEY_VIOLATION = ''23503''"

definition user_check :: "user_row \<Rightarrow> bool" where
  "user_check u \<longleftrightarrow> 3 \<le> length (us_email u) \<and> length (us_email u) \<le> 320 \<and>
     pred_option (\<lambda>s. length s \<le> 200) (us_display_name u) \<and> pred_option (\<lambda>s. length s \<le> 2048) (us_avatar_url u)"

text \<open>Store one user row: the checks of the table, then its primary key and the unique \<open>citext\<close> email.\<close>

definition email_taken :: "(string \<Rightarrow> string) \<Rightarrow> user_row \<Rightarrow> accounts \<Rightarrow> bool" where
  "email_taken lower u a \<longleftrightarrow> list_ex (\<lambda>v. us_id v \<noteq> us_id u \<and> lower (us_email v) = lower (us_email u)) (ac_users a)"

definition update_user :: "(string \<Rightarrow> string) \<Rightarrow> user_id \<Rightarrow> google_profile \<Rightarrow> instant \<Rightarrow> accounts \<Rightarrow> unit auth_result" where
  "update_user lower uid p now a =
     (let f = (\<lambda>u. u\<lparr>us_email := gp_email p, us_display_name := gp_display_name p, us_avatar_url := gp_avatar_url p, us_updated_at := now\<rparr>) in
      case find (\<lambda>u. us_id u = uid) (ac_users a) of
        None \<Rightarrow> (Ok (), a)
      | Some u \<Rightarrow>
          if \<not> user_check (f u) then (Err (AuthDb CHECK_VIOLATION), a)
          else if email_taken lower (f u) a then (Err (AuthDb UNIQUE_VIOLATION), a)
          else (Ok (), a\<lparr>ac_users := update_where (\<lambda>u. us_id u = uid) f (ac_users a)\<rparr>))"

definition insert_user :: "(string \<Rightarrow> string) \<Rightarrow> user_row \<Rightarrow> accounts \<Rightarrow> unit auth_result" where
  "insert_user lower u a =
     (if \<not> user_check u then (Err (AuthDb CHECK_VIOLATION), a)
      else if list_ex (\<lambda>v. us_id v = us_id u) (ac_users a) \<or> email_taken lower u a then (Err (AuthDb UNIQUE_VIOLATION), a)
      else (Ok (), a\<lparr>ac_users := ac_users a @ [u]\<rparr>))"

definition insert_identity :: "identity_row \<Rightarrow> accounts \<Rightarrow> unit auth_result" where
  "insert_identity i a =
     (if length (ui_subject i) < 1 \<or> 255 < length (ui_subject i) then (Err (AuthDb CHECK_VIOLATION), a)
      else if list_ex (\<lambda>j. ui_subject j = ui_subject i) (ac_identities a) then (Err (AuthDb UNIQUE_VIOLATION), a)
      else (Ok (), a\<lparr>ac_identities := ac_identities a @ [i]\<rparr>))"

definition user_of_row :: "user_row \<Rightarrow> (auth_error, user) outcome" where
  "user_of_row r =
     and_then (map_err AuthParse (email_try_from (us_email r))) (\<lambda>email.
       Ok \<lparr>u_id = us_id r, u_email = email, u_display_name = us_display_name r, u_avatar_url = us_avatar_url r\<rparr>)"

definition link_user :: "(string \<Rightarrow> string) \<Rightarrow> google_profile \<Rightarrow> instant \<Rightarrow> user_id \<Rightarrow> accounts \<Rightarrow> (user_id \<times> bool) auth_result" where
  "link_user lower p now fresh a =
     (case find (\<lambda>i. ui_subject i = gp_subject p) (ac_identities a) of
        Some i \<Rightarrow> tx_bind (update_user lower (ui_user_id i) p now a) (\<lambda>_ a1. (Ok (ui_user_id i, False), a1))
      | None \<Rightarrow>
          tx_bind (insert_user lower \<lparr>us_id = fresh, us_email = gp_email p, us_display_name = gp_display_name p,
              us_avatar_url = gp_avatar_url p, us_created_at = now, us_updated_at = now\<rparr> a) (\<lambda>_ a1.
          tx_bind (insert_identity \<lparr>ui_user_id = fresh, ui_subject = gp_subject p, ui_email_at_link = gp_email p, ui_created_at = now\<rparr> a1) (\<lambda>_ a2.
          (Ok (fresh, True), a2))))"

definition upsert_in_tx :: "(string \<Rightarrow> string) \<Rightarrow> google_profile \<Rightarrow> instant \<Rightarrow> user_id \<Rightarrow> accounts \<Rightarrow> (user_row \<times> bool) auth_result" where
  "upsert_in_tx lower p now fresh a =
     tx_bind (link_user lower p now fresh a) (\<lambda>(uid, is_new) a1.
       case find (\<lambda>u. us_id u = uid) (ac_users a1) of
         None \<Rightarrow> (Err (AuthDb ''row not found''), a1)
       | Some u \<Rightarrow> (Ok (u, is_new), a1))"

text \<open>The stored email is parsed after the commit.\<close>

definition upsert_from_google :: "(string \<Rightarrow> string) \<Rightarrow> google_profile \<Rightarrow> instant \<Rightarrow> user_id \<Rightarrow> accounts \<Rightarrow> (user \<times> bool) auth_result" where
  "upsert_from_google lower p now fresh a =
     tx_bind (run_tx (upsert_in_tx lower p now fresh) a) (\<lambda>(r, is_new) a1.
       (and_then (user_of_row r) (\<lambda>u. Ok (u, is_new)), a1))"

fun slug_scan :: "string \<Rightarrow> bool \<Rightarrow> string \<Rightarrow> string" where
  "slug_scan out last_dash [] = out"
| "slug_scan out last_dash (c # cs) =
     (if is_slug_byte c then slug_scan (out @ [c]) False cs
      else if \<not> last_dash \<and> out \<noteq> [] then slug_scan (out @ ''-'') True cs
      else slug_scan out last_dash cs)"

definition strip_dashes :: "string \<Rightarrow> string" where
  "strip_dashes s = rev (dropWhile (\<lambda>c. c = CHR ''-'') (rev s))"

definition sanitize_slug :: "(string \<Rightarrow> string) \<Rightarrow> string \<Rightarrow> string" where
  "sanitize_slug lower raw =
     (let out = strip_dashes (slug_scan [] False (lower raw));
          out = (if out = [] then ''org'' else out) in
      if 50 < length out then strip_dashes (take 50 out) else out)"

definition MAX_SLUG_RETRIES :: nat where "MAX_SLUG_RETRIES = 5"

definition org_check :: "org_row \<Rightarrow> bool" where
  "org_check g \<longleftrightarrow> 1 \<le> length (og_name g) \<and> length (og_name g) \<le> 200 \<and> is_Ok (org_slug_try_from (og_slug g))"

definition insert_org_in_tx :: "(string \<Rightarrow> string) \<Rightarrow> user_id \<Rightarrow> org_row \<Rightarrow> accounts \<Rightarrow> org_row auth_result" where
  "insert_org_in_tx lower user g a =
     (if \<not> org_check g then (Err (AuthDb CHECK_VIOLATION), a)
      else if list_ex (\<lambda>p. og_id p = og_id g \<or> lower (og_slug p) = lower (og_slug g)) (ac_orgs a) then (Err (AuthDb UNIQUE_VIOLATION), a)
      else if \<not> list_ex (\<lambda>u. us_id u = user) (ac_users a) then (Err (AuthDb FOREIGN_KEY_VIOLATION), a)
      else (Ok g, a\<lparr>ac_orgs := ac_orgs a @ [g],
              ac_members := ac_members a @ [\<lparr>mb_org_id = og_id g, mb_user_id = user, mb_role = ''owner'', mb_created_at = og_created_at g\<rparr>]\<rparr>))"

definition slug_candidate :: "string \<Rightarrow> (nat \<Rightarrow> string) \<Rightarrow> nat \<Rightarrow> string" where
  "slug_candidate base sfx n = (if n = 0 then base else base @ ''-'' @ sfx n)"

definition new_org_row :: "(nat \<Rightarrow> org_id) \<Rightarrow> string \<Rightarrow> language \<Rightarrow> instant \<Rightarrow> nat \<Rightarrow> string \<Rightarrow> org_row" where
  "new_org_row fresh name lang now n slug =
     \<lparr>og_id = fresh n, og_name = name, og_slug = slug, og_language = lang, og_created_at = now, og_updated_at = now\<rparr>"

text \<open>\<open>sfx n\<close> and \<open>fresh n\<close> are the random suffix and the identifier of attempt \<open>n\<close>.\<close>

function mint_org ::
  "(string \<Rightarrow> string) \<Rightarrow> (nat \<Rightarrow> string) \<Rightarrow> (nat \<Rightarrow> org_id) \<Rightarrow> user_id \<Rightarrow> string \<Rightarrow> string \<Rightarrow> language \<Rightarrow> instant \<Rightarrow> nat \<Rightarrow> accounts \<Rightarrow> org_row auth_result" where
  "mint_org lower sfx fresh user base name lang now attempt a =
     (case org_slug_try_from (slug_candidate base sfx attempt) of
        Panic m \<Rightarrow> (Panic m, a)
      | Err e \<Rightarrow> if attempt < MAX_SLUG_RETRIES then mint_org lower sfx fresh user base name lang now (Suc attempt) a
                 else (Err (AuthParse e), a)
      | Ok slug \<Rightarrow>
          (case run_tx (insert_org_in_tx lower user (new_org_row fresh name lang now attempt slug)) a of
             (Err (AuthDb code), a1) \<Rightarrow>
               if code \<noteq> UNIQUE_VIOLATION then (Err (AuthDb code), a1)
               else if MAX_SLUG_RETRIES \<le> attempt then (Err (AuthInternal ''could not mint unique org slug''), a1)
               else mint_org lower sfx fresh user base name lang now (Suc attempt) a1
           | r \<Rightarrow> r))"
  by pat_completeness auto

termination by (relation "measure (\<lambda>(_, _, _, _, _, _, _, _, attempt, _). MAX_SLUG_RETRIES - attempt)") auto

declare mint_org.simps [simp del]

definition create_personal_org ::
  "(string \<Rightarrow> string) \<Rightarrow> (nat \<Rightarrow> string) \<Rightarrow> (nat \<Rightarrow> org_id) \<Rightarrow> user_id \<Rightarrow> string \<Rightarrow> string \<Rightarrow> language \<Rightarrow> instant \<Rightarrow> accounts \<Rightarrow> org_row auth_result" where
  "create_personal_org lower sfx fresh user suggested name lang now a =
     mint_org lower sfx fresh user (sanitize_slug lower suggested) name lang now 0 a"

definition role_parse :: "string \<Rightarrow> role option" where
  "role_parse = str_enum_parse ROLES role_as_str"

definition decode_membership :: "org_row \<Rightarrow> member_row \<Rightarrow> (auth_error, org_membership) outcome" where
  "decode_membership g m =
     and_then (map_err AuthParse (org_slug_try_from (og_slug g))) (\<lambda>slug.
       case role_parse (mb_role m) of
         None \<Rightarrow> Err (AuthInternal ''unknown role in db'')
       | Some r \<Rightarrow> Ok \<lparr>om_org_id = og_id g, om_org_name = og_name g, om_org_slug = slug, om_role = r, om_default_language = og_language g\<rparr>)"

fun collect :: "('e, 'a) outcome list \<Rightarrow> ('e, 'a list) outcome" where
  "collect [] = Ok []"
| "collect (r # rs) = and_then r (\<lambda>x. and_then (collect rs) (\<lambda>xs. Ok (x # xs)))"

definition list_user_orgs :: "user_id \<Rightarrow> accounts \<Rightarrow> (auth_error, org_membership list) outcome" where
  "list_user_orgs user a =
     collect (map (\<lambda>(g, m). decode_membership g m)
       (sort_key (\<lambda>(g, _). og_created_at g) [(g, m). m \<leftarrow> ac_members a, mb_user_id m = user, g \<leftarrow> ac_orgs a, og_id g = mb_org_id m]))"

definition membership :: "user_id \<Rightarrow> org_id \<Rightarrow> accounts \<Rightarrow> role option" where
  "membership user org a =
     Option.bind (find (\<lambda>m. mb_user_id m = user \<and> mb_org_id m = org) (ac_members a)) (\<lambda>m. role_parse (mb_role m))"

definition read_user :: "user_id \<Rightarrow> accounts \<Rightarrow> (auth_error, user option) outcome" where
  "read_user user a =
     (case find (\<lambda>u. us_id u = user) (ac_users a) of
        None \<Rightarrow> Ok None
      | Some r \<Rightarrow> and_then (user_of_row r) (\<lambda>u. Ok (Some u)))"

definition read_emails :: "user_id list \<Rightarrow> accounts \<Rightarrow> (auth_error, (user_id \<times> string) list) outcome" where
  "read_emails ids a =
     (if ids = [] then Ok []
      else collect (map (\<lambda>u. and_then (map_err AuthParse (email_try_from (us_email u))) (\<lambda>e. Ok (us_id u, e)))
             (filter (\<lambda>u. us_id u \<in> set ids) (ac_users a))))"

definition read_org_language :: "org_id \<Rightarrow> accounts \<Rightarrow> (auth_error, language) outcome" where
  "read_org_language org a =
     (case find (\<lambda>g. og_id g = org) (ac_orgs a) of
        None \<Rightarrow> Err (AuthInternal ''org not found for default_language read'')
      | Some g \<Rightarrow> Ok (og_language g))"

definition set_org_language :: "org_id \<Rightarrow> language \<Rightarrow> instant \<Rightarrow> accounts \<Rightarrow> language auth_result" where
  "set_org_language org lang now a =
     (if list_ex (\<lambda>g. og_id g = org) (ac_orgs a)
      then (Ok lang, a\<lparr>ac_orgs := update_where (\<lambda>g. og_id g = org) (\<lambda>g. g\<lparr>og_language := lang, og_updated_at := now\<rparr>) (ac_orgs a)\<rparr>)
      else (Err (AuthInternal ''org not found for default_language write''), a))"

definition login_state_check :: "login_state_row \<Rightarrow> bool" where
  "login_state_check r \<longleftrightarrow> 32 \<le> length (ls_state r) \<and> length (ls_state r) \<le> 128 \<and> 32 \<le> length (ls_pkce_verifier r) \<and>
     length (ls_pkce_verifier r) \<le> 128 \<and> pred_option (\<lambda>s. length s \<le> 2048) (ls_redirect_to r) \<and>
     pred_option (\<lambda>s. length s \<le> DETECTED_LOCALE_MAX_LEN) (ls_detected_locale r)"

definition insert_oauth_state :: "login_state_row \<Rightarrow> accounts \<Rightarrow> unit auth_result" where
  "insert_oauth_state r a =
     (if \<not> login_state_check r then (Err (AuthDb CHECK_VIOLATION), a)
      else if list_ex (\<lambda>s. ls_state s = ls_state r) (ac_login_states a) then (Err (AuthDb UNIQUE_VIOLATION), a)
      else (Ok (), a\<lparr>ac_login_states := ac_login_states a @ [r]\<rparr>))"

definition consume_oauth_state :: "string \<Rightarrow> instant \<Rightarrow> accounts \<Rightarrow> consumed_oauth_state auth_result" where
  "consume_oauth_state state now a =
     (let a1 = a\<lparr>ac_login_states := filter (\<lambda>r. now < ls_expires_at r \<and> ls_state r \<noteq> state) (ac_login_states a)\<rparr> in
      case find (\<lambda>r. ls_state r = state \<and> now < ls_expires_at r) (ac_login_states a) of
        None \<Rightarrow> (Err OAuthStateInvalid, a1)
      | Some r \<Rightarrow>
          (and_then (case ls_detected_locale r of None \<Rightarrow> Ok None | Some l \<Rightarrow> and_then (map_err AuthParse (locale_hint_try_from l)) (\<lambda>x. Ok (Some x))) (\<lambda>hint.
           and_then (map_err AuthParse (pkce_verifier_try_from (ls_pkce_verifier r))) (\<lambda>v.
           Ok \<lparr>co_pkce_verifier = v, co_redirect_to = ls_redirect_to r, co_detected_locale = hint\<rparr>)), a1))"

end
