(* ===== verification/Http_Auth.thy ===== *)
theory Http_Auth
  imports Identity Oauth_Store
begin

text \<open>
  The authenticated surface of the HTTP server: the CSRF and session layers with the membership cache (\<open>src/http/csrf.rs\<close>,
  \<open>auth_layer.rs\<close>, \<open>membership_cache.rs\<close>), the Google sign-in routes (\<open>src/http/routes/auth.rs\<close>, the userinfo check of
  \<open>src/auth/oauth_google.rs\<close>) and the identity routes (\<open>src/http/routes/me.rs\<close>).

  A handler is a function on the accounts and, where it seeds an agent, on the agents; \<open>HttpError\<close> is \<open>http_error\<close> with the variants these
  routes raise, and \<open>http_status\<close> its response code. Cookies are records; header values are bytes. Google's endpoints, the prompt texts,
  the random tokens and the clock are parameters.
\<close>

datatype http_error =
    HBadRequest string
  | HNotFound
  | HForbidden string
  | HConflict string
  | HTooManyRequests
  | HParse parse_error
  | HAgent agent_store_error
  | HMcp mcp_error
  | HAuth auth_error
  | HInternal

fun http_status :: "http_error \<Rightarrow> nat" where
  "http_status (HBadRequest _) = 400"
| "http_status HNotFound = 404"
| "http_status (HForbidden _) = 403"
| "http_status (HConflict _) = 409"
| "http_status HTooManyRequests = 429"
| "http_status (HParse _) = 400"
| "http_status (HAgent e) = (case e of
     AgentNotFound _ \<Rightarrow> 400 | AgentNameNotFound _ \<Rightarrow> 404 | DefaultDeletionForbidden \<Rightarrow> 409 | InUse _ \<Rightarrow> 409 | NameTaken _ \<Rightarrow> 409
   | AgentParse _ \<Rightarrow> 400 | _ \<Rightarrow> 500)"
| "http_status (HMcp e) = (case e of
     McpServerCapExceeded _ \<Rightarrow> 429 | McpAliasTaken _ \<Rightarrow> 409 | McpNotFound _ \<Rightarrow> 404 | McpParse _ \<Rightarrow> 400 | McpInvalidConfig _ \<Rightarrow> 400 | _ \<Rightarrow> 500)"
| "http_status (HAuth e) = (case e of
     AuthParse _ \<Rightarrow> 400 | Unauthenticated \<Rightarrow> 401 | AuthJwt _ \<Rightarrow> 401 | OAuthStateInvalid \<Rightarrow> 401 | EmailUnverified \<Rightarrow> 403
   | NotMember _ \<Rightarrow> 403 | OAuthProvider _ \<Rightarrow> 502 | _ \<Rightarrow> 500)"
| "http_status HInternal = 500"

section \<open>CSRF (http/csrf.rs)\<close>

definition CSRF_TOKEN_MAX_LEN :: nat where "CSRF_TOKEN_MAX_LEN = 64"
definition CSRF_COOKIE_NAME :: string where "CSRF_COOKIE_NAME = ''relay_csrf''"
definition COOKIE_NAME :: string where "COOKIE_NAME = ''relay_session''"

datatype csrf_error = CsrfMissing | CsrfMismatch

record cookie =
  ck_name :: string
  ck_value :: string
  ck_http_only :: bool
  ck_path :: string
  ck_secure :: bool
  ck_max_age :: int

definition csrf_cookie_with :: "string \<Rightarrow> bool \<Rightarrow> int \<Rightarrow> cookie" where
  "csrf_cookie_with v secure max_age =
     \<lparr>ck_name = CSRF_COOKIE_NAME, ck_value = v, ck_http_only = False, ck_path = ''/'', ck_secure = secure, ck_max_age = max_age\<rparr>"

definition build_session_cookie :: "string \<Rightarrow> bool \<Rightarrow> int \<Rightarrow> cookie" where
  "build_session_cookie token secure max_age =
     \<lparr>ck_name = COOKIE_NAME, ck_value = token, ck_http_only = True, ck_path = ''/'', ck_secure = secure, ck_max_age = max_age\<rparr>"

unbundle bit_operations_syntax

definition byte :: "char \<Rightarrow> 8 word" where "byte c = of_nat (of_char c)"

fun diff_bytes :: "8 word \<Rightarrow> string \<Rightarrow> string \<Rightarrow> 8 word" where
  "diff_bytes d (x # xs) (y # ys) = diff_bytes (d OR (byte x XOR byte y)) xs ys"
| "diff_bytes d _ _ = d"

definition constant_time_eq :: "string \<Rightarrow> string \<Rightarrow> bool" where
  "constant_time_eq a b = (if length a \<noteq> length b then False else diff_bytes 0 a b = 0)"

definition is_safe_method :: "string \<Rightarrow> bool" where
  "is_safe_method m \<longleftrightarrow> m \<in> {''GET'', ''HEAD'', ''OPTIONS''}"

definition require_csrf :: "string \<Rightarrow> string option \<Rightarrow> string option \<Rightarrow> (csrf_error, unit) outcome" where
  "require_csrf http_method cookie_value header_value =
     (if is_safe_method http_method then Ok ()
      else case cookie_value of
        None \<Rightarrow> Err CsrfMissing
      | Some c \<Rightarrow>
          (case header_value of
             None \<Rightarrow> Err CsrfMissing
           | Some h \<Rightarrow>
               if c = [] \<or> h = [] \<or> CSRF_TOKEN_MAX_LEN < length c \<or> CSRF_TOKEN_MAX_LEN < length h then Err CsrfMismatch
               else if \<not> constant_time_eq c h then Err CsrfMismatch
               else Ok ()))"

section \<open>Sessions (http/auth\_layer.rs, membership\_cache.rs)\<close>

definition MEMBERSHIP_TTL_SECS :: int where "MEMBERSHIP_TTL_SECS = 30"
definition MEMBERSHIP_CAP :: nat where "MEMBERSHIP_CAP = 4096"

type_synonym membership_cache = "((user_id \<times> org_id) \<times> (role \<times> instant)) list"

definition cached_role :: "user_id \<Rightarrow> org_id \<Rightarrow> instant \<Rightarrow> membership_cache \<Rightarrow> role option" where
  "cached_role user org now c =
     (case map_of c (user, org) of None \<Rightarrow> None | Some (r, expires_at) \<Rightarrow> if now < expires_at then Some r else None)"

definition cache_role :: "user_id \<Rightarrow> org_id \<Rightarrow> role \<Rightarrow> instant \<Rightarrow> membership_cache \<Rightarrow> membership_cache" where
  "cache_role user org r now c =
     (let c1 = (if MEMBERSHIP_CAP \<le> length c then [] else c) in AList.update (user, org) (r, now + MEMBERSHIP_TTL_SECS) c1)"

record principal =
  pl_user_id :: user_id
  pl_active_org_id :: org_id
  pl_role :: role

text \<open>
  The middleware in its three parts, with a database call between the first and the third: up to the
  cache, which either has the role or leaves the claims to look up; the membership query; and the
  cache entry, whose lifetime starts from a clock reading of its own.
\<close>

definition principal_of :: "jwt_claims \<Rightarrow> role \<Rightarrow> principal" where
  "principal_of claims r = \<lparr>pl_user_id = jc_sub claims, pl_active_org_id = jc_org claims, pl_role = r\<rparr>"

definition check_session ::
  "jwt_lib \<Rightarrow> string \<Rightarrow> string option \<Rightarrow> instant \<Rightarrow> membership_cache \<Rightarrow> (http_error, principal + jwt_claims) outcome" where
  "check_session lib secret cookie_value now c =
     (case cookie_value of
        None \<Rightarrow> Err (HAuth Unauthenticated)
      | Some token \<Rightarrow>
          (case jwt_verify lib secret now token of
             Err _ \<Rightarrow> Err (HAuth Unauthenticated)
           | Panic m \<Rightarrow> Panic m
           | Ok claims \<Rightarrow>
               (case cached_role (jc_sub claims) (jc_org claims) now c of
                  Some r \<Rightarrow> Ok (Inl (principal_of claims r))
                | None \<Rightarrow> Ok (Inr claims))))"

definition read_membership :: "jwt_claims \<Rightarrow> accounts \<Rightarrow> (http_error, role) outcome" where
  "read_membership claims a =
     (case membership (jc_sub claims) (jc_org claims) a of
        None \<Rightarrow> Err (HAuth (NotMember (jc_org claims)))
      | Some r \<Rightarrow> Ok r)"

definition remember_role :: "jwt_claims \<Rightarrow> role \<Rightarrow> instant \<Rightarrow> membership_cache \<Rightarrow> membership_cache" where
  "remember_role claims r now c = cache_role (jc_sub claims) (jc_org claims) r now c"

text \<open>The middleware when nothing happens in between: checked at \<open>now\<close>, entered at \<open>later\<close>.\<close>

definition require_principal ::
  "jwt_lib \<Rightarrow> string \<Rightarrow> string option \<Rightarrow> instant \<Rightarrow> instant \<Rightarrow> accounts \<Rightarrow> membership_cache \<Rightarrow> (http_error, principal) outcome \<times> membership_cache" where
  "require_principal lib secret cookie_value now later a c =
     (case check_session lib secret cookie_value now c of
        Err e \<Rightarrow> (Err e, c)
      | Panic m \<Rightarrow> (Panic m, c)
      | Ok (Inl who) \<Rightarrow> (Ok who, c)
      | Ok (Inr claims) \<Rightarrow>
          (case read_membership claims a of
             Err e \<Rightarrow> (Err e, c)
           | Panic m \<Rightarrow> (Panic m, c)
           | Ok r \<Rightarrow> (Ok (principal_of claims r), remember_role claims r later c)))"

section \<open>Google sign-in (auth/oauth\_google.rs, http/routes/auth.rs)\<close>

definition MAX_USERINFO_BYTES :: nat where "MAX_USERINFO_BYTES = 8 * 1024"

record userinfo =
  gi_sub :: string
  gi_email :: "string option"
  gi_email_verified :: "bool option"
  gi_name :: "string option"
  gi_picture :: "string option"
  gi_locale :: "string option"

text \<open>The reply of the userinfo endpoint: an error, or a status with the body; \<open>decode\<close> is the JSON decoder.\<close>

definition read_userinfo ::
  "(string \<Rightarrow> string + userinfo) \<Rightarrow> string + (nat \<times> (string + string)) \<Rightarrow> (auth_error, google_profile) outcome" where
  "read_userinfo decode res =
     (case res of
        Inl m \<Rightarrow> Err (OAuthProvider (''userinfo: '' @ m))
      | Inr (code, body) \<Rightarrow>
          if \<not> (200 \<le> code \<and> code < 300) then Err (OAuthProvider (''userinfo http '' @ show_nat code))
          else case body of
            Inl m \<Rightarrow> Err (OAuthProvider (''userinfo body: '' @ m))
          | Inr bytes \<Rightarrow>
              if MAX_USERINFO_BYTES < length bytes then Err (OAuthProvider ''userinfo response too large'')
              else case decode bytes of
                Inl m \<Rightarrow> Err (OAuthProvider (''userinfo parse: '' @ m))
              | Inr raw \<Rightarrow>
                  if gi_email_verified raw \<noteq> Some True then Err EmailUnverified
                  else case gi_email raw of
                    None \<Rightarrow> Err (OAuthProvider ''userinfo missing email'')
                  | Some e \<Rightarrow>
                      and_then (map_err AuthParse (email_try_from e)) (\<lambda>email.
                      and_then (map_err AuthParse (google_subject_try_from (gi_sub raw))) (\<lambda>subject.
                      Ok \<lparr>gp_subject = subject, gp_email = email, gp_display_name = gi_name raw, gp_avatar_url = gi_picture raw,
                          gp_locale = Option.bind (gi_locale raw) (\<lambda>l. case locale_hint_try_from l of Ok h \<Rightarrow> Some h | _ \<Rightarrow> None)\<rparr>)))"

definition OAUTH_STATE_TTL :: int where "OAUTH_STATE_TTL = 10 * 60"

definition sanitize_return_to :: "string \<Rightarrow> string option" where
  "sanitize_return_to raw =
     (if take 1 raw = ''/'' \<and> take 2 raw \<noteq> ''//'' \<and> length raw \<le> 2048 then Some raw else None)"

definition extract_primary_locale :: "string \<Rightarrow> string option" where
  "extract_primary_locale raw =
     Option.bind (find (\<lambda>tag. language_parse tag \<noteq> None)
         (List.map_filter (\<lambda>entry. primary_subtag (trim entry)) (split_on (\<lambda>c. c = CHR '','') raw)))
       (\<lambda>tag. case locale_hint_try_from tag of Ok h \<Rightarrow> Some h | _ \<Rightarrow> None)"

text \<open>\<open>start\<close> is what the OAuth client minted: the redirect URL, the state and the verifier.\<close>

definition login ::
  "(auth_error, string \<times> string \<times> string) outcome \<Rightarrow> string option \<Rightarrow> string option \<Rightarrow> instant \<Rightarrow> accounts \<Rightarrow> (http_error, string) outcome \<times> accounts" where
  "login start return_to accept_language now a =
     (case map_err HAuth start of
        Err e \<Rightarrow> (Err e, a)
      | Panic m \<Rightarrow> (Panic m, a)
      | Ok (url, state, verifier) \<Rightarrow>
          (case run_tx (insert_oauth_state \<lparr>ls_state = state, ls_pkce_verifier = verifier,
                  ls_redirect_to = Option.bind return_to sanitize_return_to,
                  ls_detected_locale = Option.bind accept_language extract_primary_locale,
                  ls_created_at = now, ls_expires_at = now + OAUTH_STATE_TTL\<rparr>) a of
             (r, a1) \<Rightarrow> (and_then (map_err HAuth r) (\<lambda>_. Ok url), a1)))"

record 'v sign_env =
  se_lower :: "string \<Rightarrow> string"
  se_ops :: "'v vec_ops"
  se_jwt :: jwt_lib
  se_secret :: string
  se_secure :: bool
  se_exchange :: "string \<Rightarrow> string \<Rightarrow> (auth_error, google_profile) outcome"
  se_prompts :: "language \<Rightarrow> string \<times> string"

record 'v sign_world =
  sw_accounts :: accounts
  sw_agents :: "'v agents_db"

text \<open>What one request mints: identifiers by attempt, suffixes and the CSRF token.\<close>

record minted =
  mi_user :: user_id
  mi_org :: "nat \<Rightarrow> org_id"
  mi_suffix :: "nat \<Rightarrow> string"
  mi_agent :: agent_id
  mi_csrf :: string

definition DEFAULT_AGENT_NAME :: string where "DEFAULT_AGENT_NAME = ''recruiter''"

definition default_agent_seed_for :: "(language \<Rightarrow> string \<times> string) \<Rightarrow> language \<Rightarrow> (parse_error, default_agent_seed) outcome" where
  "default_agent_seed_for prompts lang =
     and_then (agent_name_try_from DEFAULT_AGENT_NAME) (\<lambda>name.
     and_then (agent_system_prompt_try_from (fst (prompts lang))) (\<lambda>system_prompt.
     and_then (agent_description_try_from (snd (prompts lang))) (\<lambda>description.
     Ok \<lparr>seed_name = name, seed_system_prompt = system_prompt, seed_description = description\<rparr>)))"

text \<open>The agents with the organisations and members of the accounts: one database.\<close>

definition agents_view :: "'v sign_world \<Rightarrow> 'v agents_db" where
  "agents_view w = (sw_agents w)\<lparr>ad_organizations := map og_id (ac_orgs (sw_accounts w)),
     ad_members := map (\<lambda>m. (mb_user_id m, mb_org_id m)) (ac_members (sw_accounts w))\<rparr>"

definition on_accounts :: "(accounts \<Rightarrow> (auth_error, 'a) outcome \<times> accounts) \<Rightarrow> 'v sign_world \<Rightarrow> (http_error, 'a) outcome \<times> 'v sign_world" where
  "on_accounts f w = (map_err HAuth (fst (f (sw_accounts w))), w\<lparr>sw_accounts := snd (f (sw_accounts w))\<rparr>)"

definition seed_new_org :: "'v sign_env \<Rightarrow> org_id \<Rightarrow> language \<Rightarrow> instant \<Rightarrow> agent_id \<Rightarrow> 'v sign_world \<Rightarrow> (http_error, unit) outcome \<times> 'v sign_world" where
  "seed_new_org env org lang now fresh w =
     (case default_agent_seed_for (se_prompts env) lang of
        Err _ \<Rightarrow> (Err HInternal, w)
      | Panic m \<Rightarrow> (Panic m, w)
      | Ok seed \<Rightarrow>
          (case seed_default (se_lower env) (se_ops env) org seed now fresh (agents_view w) of
             (r, d) \<Rightarrow> (and_then (map_err HAgent r) (\<lambda>_. Ok ()), w\<lparr>sw_agents := d\<rparr>)))"

definition personal_org ::
  "'v sign_env \<Rightarrow> minted \<Rightarrow> instant \<Rightarrow> google_profile \<Rightarrow> consumed_oauth_state \<Rightarrow> user \<Rightarrow> 'v sign_world \<Rightarrow> (http_error, org_id) outcome \<times> 'v sign_world" where
  "personal_org env mint now p consumed u w =
     (let display = (case u_display_name u of Some n \<Rightarrow> n | None \<Rightarrow> u_email u);
          slug_seed = hd (split_on (\<lambda>c. c = CHR ''@'') (u_email u));
          lang = from_locale_hint (gp_locale p) (co_detected_locale consumed) in
      tx_bind (on_accounts (create_personal_org (se_lower env) (mi_suffix mint) (mi_org mint) (u_id u) slug_seed display lang now) w) (\<lambda>new_org w1.
      tx_bind (seed_new_org env (og_id new_org) lang now (mi_agent mint) w1) (\<lambda>_ w2. (Ok (og_id new_org), w2))))"

record session_response =
  sr_session :: cookie
  sr_csrf :: cookie
  sr_location :: string

definition session_cookies :: "'v sign_env \<Rightarrow> minted \<Rightarrow> string \<Rightarrow> cookie \<times> cookie" where
  "session_cookies env mint token =
     (build_session_cookie token (se_secure env) JWT_TTL_SECS, csrf_cookie_with (mi_csrf mint) (se_secure env) JWT_TTL_SECS)"

definition open_session ::
  "'v sign_env \<Rightarrow> minted \<Rightarrow> instant \<Rightarrow> google_profile \<Rightarrow> consumed_oauth_state \<Rightarrow> user \<Rightarrow> 'v sign_world \<Rightarrow> (http_error, session_response) outcome \<times> 'v sign_world" where
  "open_session env mint now p consumed u w =
     tx_bind (map_err HAuth (list_user_orgs (u_id u) (sw_accounts w)), w) (\<lambda>orgs w.
     tx_bind (case orgs of first # _ \<Rightarrow> (Ok (om_org_id first), w) | [] \<Rightarrow> personal_org env mint now p consumed u w) (\<lambda>active_org w.
     tx_bind (map_err HAuth (jwt_mint (se_jwt env) (se_secret env) now (u_id u) active_org), w) (\<lambda>token w.
     (Ok \<lparr>sr_session = fst (session_cookies env mint token), sr_csrf = snd (session_cookies env mint token),
          sr_location = (case co_redirect_to consumed of Some d \<Rightarrow> d | None \<Rightarrow> ''/'')\<rparr>, w))))"

definition callback ::
  "'v sign_env \<Rightarrow> minted \<Rightarrow> instant \<Rightarrow> string \<Rightarrow> string \<Rightarrow> string option \<Rightarrow> 'v sign_world \<Rightarrow> (http_error, session_response) outcome \<times> 'v sign_world" where
  "callback env mint now code state error w =
     (case error of
        Some e \<Rightarrow> (Err (HBadRequest (''oauth: '' @ e)), w)
      | None \<Rightarrow>
          tx_bind (map_err HParse (oauth_state_try_from state), w) (\<lambda>state_token w.
          tx_bind (on_accounts (consume_oauth_state state_token now) w) (\<lambda>consumed w.
          tx_bind (map_err HAuth (se_exchange env code (co_pkce_verifier consumed)), w) (\<lambda>p w.
          tx_bind (on_accounts (upsert_from_google (se_lower env) p now (mi_user mint)) w) (\<lambda>(u, is_new) w.
          open_session env mint now p consumed u w)))))"

section \<open>Identity routes (http/routes/me.rs)\<close>

definition switch_org ::
  "'v sign_env \<Rightarrow> minted \<Rightarrow> instant \<Rightarrow> principal \<Rightarrow> org_id \<Rightarrow> accounts \<Rightarrow> (http_error, (cookie \<times> cookie) \<times> role) outcome" where
  "switch_org env mint now who org a =
     (case membership (pl_user_id who) org a of
        None \<Rightarrow> Err (HAuth (NotMember org))
      | Some r \<Rightarrow>
          and_then (map_err HAuth (jwt_mint (se_jwt env) (se_secret env) now (pl_user_id who) org)) (\<lambda>token.
            Ok (session_cookies env mint token, r)))"

definition set_org_language_route ::
  "principal \<Rightarrow> language \<Rightarrow> instant \<Rightarrow> accounts \<Rightarrow> (http_error, language) outcome \<times> accounts" where
  "set_org_language_route who lang now a =
     (case membership (pl_user_id who) (pl_active_org_id who) a of
        None \<Rightarrow> (Err (HAuth (NotMember (pl_active_org_id who))), a)
      | Some Member \<Rightarrow> (Err (HForbidden ''owner or admin role required''), a)
      | Some _ \<Rightarrow> (case run_tx (set_org_language (pl_active_org_id who) lang now) a of (r, a1) \<Rightarrow> (map_err HAuth r, a1)))"

definition logout :: "bool \<Rightarrow> cookie \<times> cookie" where
  "logout secure = (build_session_cookie [] secure 0, csrf_cookie_with [] secure 0)"

definition me_csrf :: "string option \<Rightarrow> bool \<Rightarrow> string \<Rightarrow> cookie option" where
  "me_csrf cookie_value secure token =
     (if (case cookie_value of None \<Rightarrow> True | Some v \<Rightarrow> v = [] \<or> CSRF_TOKEN_MAX_LEN < length v)
      then Some (csrf_cookie_with token secure JWT_TTL_SECS) else None)"

definition me ::
  "principal \<Rightarrow> accounts \<Rightarrow> (http_error, user \<times> org_membership list \<times> org_id \<times> role) outcome" where
  "me who a =
     and_then (map_err HAuth (read_user (pl_user_id who) a)) (\<lambda>u.
       case u of
         None \<Rightarrow> Err (HAuth Unauthenticated)
       | Some u \<Rightarrow> and_then (map_err HAuth (list_user_orgs (pl_user_id who) a)) (\<lambda>orgs. Ok (u, orgs, pl_active_org_id who, pl_role who)))"

end
