(* ===== verification/Auth_Guarantees.thy ===== *)
theory Auth_Guarantees
  imports Http_Auth Relay_Systems
begin

text \<open>
  What sign-in and the request layers guarantee: the CSRF guard is equality of tokens, a new organisation always gets a valid name and an
  owner, a Google subject keeps its account, an admitted request rests on a membership answer entered at most one cache lifetime ago; and a first sign-in
  whose agent could not be seeded leaves an organisation that no later sign-in repairs.
\<close>

section \<open>The CSRF guard\<close>

lemma byte_eq_iff: "byte x = byte y \<longleftrightarrow> x = y"
proof
  assume "byte x = byte y"
  then have "unat (byte x) = unat (byte y)" by simp
  then show "x = y" by (simp add: byte_def unat_of_nat)
qed simp

lemma xor_zero_iff: "x XOR y = 0 \<longleftrightarrow> x = (y :: 8 word)"
  by (auto simp: bit_eq_iff bit_xor_iff)

lemma or_zero_iff: "x OR y = 0 \<longleftrightarrow> x = 0 \<and> y = (0 :: 8 word)"
  by (auto simp: bit_eq_iff bit_or_iff)

lemma diff_bytes_zero: "length a = length b \<Longrightarrow> diff_bytes d a b = 0 \<longleftrightarrow> d = 0 \<and> a = b"
  by (induction d a b rule: diff_bytes.induct) (auto simp: xor_zero_iff or_zero_iff byte_eq_iff)

text \<open>The comparison that looks at every byte is equality.\<close>

lemma constant_time_eq_iff: "constant_time_eq a b \<longleftrightarrow> a = b"
  by (auto simp: constant_time_eq_def diff_bytes_zero)

text \<open>C39. The CSRF layer lets a request pass exactly when its method is safe, or its cookie and its header carry the same token of one to
  sixty-four bytes: the comparison that touches every byte decides equality.\<close>

theorem csrf_guard_exact:
  "require_csrf http_method cookie_value header_value = Ok () \<longleftrightarrow>
     is_safe_method http_method \<or> (\<exists>t. cookie_value = Some t \<and> header_value = Some t \<and> 1 \<le> length t \<and> length t \<le> CSRF_TOKEN_MAX_LEN)"
  by (cases cookie_value; cases header_value) (auto simp: require_csrf_def constant_time_eq_iff Suc_le_eq)

section \<open>Names of new organisations\<close>

definition slug_text :: "string \<Rightarrow> bool" where
  "slug_text s \<longleftrightarrow> s \<noteq> [] \<and> is_slug_byte (hd s) \<and> (\<forall>c \<in> set s. is_slug_byte c \<or> c = CHR ''-'')"

lemma slug_scan_text: "out = [] \<or> slug_text out \<Longrightarrow> slug_scan out d cs = [] \<or> slug_text (slug_scan out d cs)"
proof (induction out d cs rule: slug_scan.induct)
  case (2 out d c cs)
  then show ?case by (auto simp: slug_text_def hd_append split: if_splits)
qed simp

lemma not_dash: "is_slug_byte c \<Longrightarrow> c \<noteq> CHR ''-''"
  by (auto simp: is_slug_byte_def is_lower_byte_def is_digit_byte_def less_eq_char_def)

lemma strip_dashes_text:
  assumes "slug_text s"
  shows "slug_text (strip_dashes s) \<and> length (strip_dashes s) \<le> length s"
proof -
  obtain c cs where s: "s = c # cs" and c: "is_slug_byte c" using assms by (cases s) (auto simp: slug_text_def)
  have "strip_dashes s = c # strip_dashes cs"
    using not_dash [OF c] by (auto simp: strip_dashes_def s dropWhile_append rev_append dest: set_dropWhileD)
  moreover have "set (strip_dashes cs) \<subseteq> set cs" and "length (strip_dashes cs) \<le> length cs"
    by (auto simp: strip_dashes_def dest: set_dropWhileD) (metis length_dropWhile_le length_rev)
  ultimately show ?thesis using assms c by (auto simp: slug_text_def s)
qed

lemma take_text: "slug_text s \<Longrightarrow> 0 < n \<Longrightarrow> slug_text (take n s)"
  by (auto simp: slug_text_def dest: in_set_takeD)

lemma sanitize_slug_text: "slug_text (sanitize_slug lower raw) \<and> length (sanitize_slug lower raw) \<le> 50"
proof -
  let ?s = "slug_scan [] False (lower raw)"
  define out where "out = (if strip_dashes ?s = [] then ''org'' else strip_dashes ?s)"
  have "?s = [] \<or> slug_text ?s" by (rule slug_scan_text) simp
  then have out: "slug_text out"
    using strip_dashes_text [of ?s] by (auto simp: out_def strip_dashes_def slug_text_def is_slug_byte_def is_lower_byte_def less_eq_char_def)
  have "sanitize_slug lower raw = (if 50 < length out then strip_dashes (take 50 out) else out)"
    by (simp add: sanitize_slug_def out_def Let_def)
  then show ?thesis using out strip_dashes_text [OF take_text [OF out, of 50]] by auto
qed

lemma slug_text_parses: "slug_text s \<Longrightarrow> length s \<le> ORG_SLUG_MAX_BYTES \<Longrightarrow> org_slug_try_from s = Ok s"
  by (cases s) (auto simp: org_slug_try_from_def slug_text_def list_all_iff)

definition slug_suffix :: "string \<Rightarrow> bool" where
  "slug_suffix x \<longleftrightarrow> length x = 4 \<and> list_all is_slug_byte x"

lemma candidate_parses:
  assumes "\<And>n. slug_suffix (sfx n)"
  shows "org_slug_try_from (slug_candidate (sanitize_slug lower raw) sfx n) = Ok (slug_candidate (sanitize_slug lower raw) sfx n)"
proof (rule slug_text_parses)
  let ?b = "sanitize_slug lower raw"
  have b: "slug_text ?b" "length ?b \<le> 50" using sanitize_slug_text by blast+
  have "slug_suffix (sfx n)" by (rule assms)
  with b show "slug_text (slug_candidate ?b sfx n)" "length (slug_candidate ?b sfx n) \<le> ORG_SLUG_MAX_BYTES"
    by (auto simp: slug_candidate_def slug_text_def slug_suffix_def list_all_iff hd_append ORG_SLUG_MAX_BYTES_def)
qed

text \<open>The first candidate whose slug no organisation has.\<close>

definition slug_free :: "(string \<Rightarrow> string) \<Rightarrow> accounts \<Rightarrow> string \<Rightarrow> bool" where
  "slug_free lower a s \<longleftrightarrow> (\<forall>g \<in> set (ac_orgs a). lower (og_slug g) \<noteq> lower s)"

definition with_org :: "user_id \<Rightarrow> org_row \<Rightarrow> accounts \<Rightarrow> accounts" where
  "with_org user g a = a\<lparr>ac_orgs := ac_orgs a @ [g],
     ac_members := ac_members a @ [\<lparr>mb_org_id = og_id g, mb_user_id = user, mb_role = ''owner'', mb_created_at = og_created_at g\<rparr>]\<rparr>"

lemma insert_org_cases:
  assumes "is_Ok (org_slug_try_from slug)" and "1 \<le> length name" and "length name \<le> 200" and "fresh n \<notin> og_id ` set (ac_orgs a)"
    and "user \<in> us_id ` set (ac_users a)"
  shows "run_tx (insert_org_in_tx lower user (new_org_row fresh name lang now n slug)) a =
     (if slug_free lower a slug then (Ok (new_org_row fresh name lang now n slug), with_org user (new_org_row fresh name lang now n slug) a)
      else (Err (AuthDb UNIQUE_VIOLATION), a))"
proof -
  let ?g = "new_org_row fresh name lang now n slug"
  have "org_check ?g" using assms(1-3) by (simp add: org_check_def new_org_row_def)
  moreover have "list_ex (\<lambda>p. og_id p = og_id ?g \<or> lower (og_slug p) = lower (og_slug ?g)) (ac_orgs a) \<longleftrightarrow> \<not> slug_free lower a slug"
    using assms(4) by (auto simp: list_ex_iff slug_free_def new_org_row_def image_iff)
  moreover have "list_ex (\<lambda>u. us_id u = user) (ac_users a)" using assms(5) by (auto simp: list_ex_iff)
  ultimately show ?thesis by (simp add: run_tx_def insert_org_in_tx_def with_org_def)
qed

lemma mint_org_first_free:
  assumes "\<And>n. is_Ok (org_slug_try_from (slug_candidate base sfx n))" and "1 \<le> length name" and "length name \<le> 200"
    and "\<And>n. fresh n \<notin> og_id ` set (ac_orgs a)" and "user \<in> us_id ` set (ac_users a)"
    and "attempt \<le> n" and "n \<le> MAX_SLUG_RETRIES" and "slug_free lower a (slug_candidate base sfx n)"
    and "\<And>m. attempt \<le> m \<Longrightarrow> m < n \<Longrightarrow> \<not> slug_free lower a (slug_candidate base sfx m)"
  shows "mint_org lower sfx fresh user base name lang now attempt a =
     (Ok (new_org_row fresh name lang now n (slug_candidate base sfx n)), with_org user (new_org_row fresh name lang now n (slug_candidate base sfx n)) a)"
  using assms(6,9)
proof (induction "n - attempt" arbitrary: attempt)
  case 0
  then have n: "attempt = n" by simp
  from assms(1) org_slug.keeps have p: "org_slug_try_from (slug_candidate base sfx m) = Ok (slug_candidate base sfx m)" for m
    by (metis is_Ok_iff)
  show ?case
    using p [of n] insert_org_cases [of "slug_candidate base sfx n" name fresh n a user lower lang now] assms(1-5,8)
    by (subst mint_org.simps) (simp add: n del: run_tx_Ok_iff)
next
  case (Suc k)
  from assms(1) org_slug.keeps have p: "org_slug_try_from (slug_candidate base sfx m) = Ok (slug_candidate base sfx m)" for m
    by (metis is_Ok_iff)
  from Suc.hyps(2) have lt: "attempt < n" by simp
  with Suc.prems have taken: "\<not> slug_free lower a (slug_candidate base sfx attempt)" by simp
  have "mint_org lower sfx fresh user base name lang now attempt a = mint_org lower sfx fresh user base name lang now (Suc attempt) a"
    using p [of attempt] insert_org_cases [of "slug_candidate base sfx attempt" name fresh attempt a user lower lang now] taken lt assms(1-5,7)
    by (subst mint_org.simps) (simp del: run_tx_Ok_iff)
  also have "\<dots> = (Ok (new_org_row fresh name lang now n (slug_candidate base sfx n)), with_org user (new_org_row fresh name lang now n (slug_candidate base sfx n)) a)"
    using Suc lt by (intro Suc.hyps(1)) auto
  finally show ?case .
qed

text \<open>A first sign-in gets its organisation: when one of the six candidate names is free, minting ends with the first free one, whose name
  is valid by construction, and the user owns the new organisation.\<close>

theorem new_org_has_owner:
  assumes "\<And>n. slug_suffix (sfx n)" and "1 \<le> length name" and "length name \<le> 200" and "\<And>n. fresh n \<notin> og_id ` set (ac_orgs a)"
    and "user \<in> us_id ` set (ac_users a)" and "\<And>m. m \<in> set (ac_members a) \<Longrightarrow> mb_org_id m \<in> og_id ` set (ac_orgs a)"
    and "k \<le> MAX_SLUG_RETRIES" and "slug_free lower a (slug_candidate (sanitize_slug lower suggested) sfx k)"
  shows "\<exists>g a'. create_personal_org lower sfx fresh user suggested name lang now a = (Ok g, a') \<and>
     org_slug_try_from (og_slug g) = Ok (og_slug g) \<and> slug_free lower a (og_slug g) \<and> og_language g = lang \<and>
     membership user (og_id g) a' = Some Owner \<and> ac_orgs a' = ac_orgs a @ [g]"
proof -
  let ?base = "sanitize_slug lower suggested"
  define n where "n = (LEAST k. slug_free lower a (slug_candidate ?base sfx k))"
  have n: "slug_free lower a (slug_candidate ?base sfx n)" unfolding n_def using assms(8) by (rule LeastI)
  have "n \<le> k" unfolding n_def using assms(8) by (rule Least_le)
  with assms(7) have le: "n \<le> MAX_SLUG_RETRIES" by simp
  have least: "\<not> slug_free lower a (slug_candidate ?base sfx m)" if "m < n" for m using that not_less_Least unfolding n_def by blast
  have parses: "org_slug_try_from (slug_candidate ?base sfx m) = Ok (slug_candidate ?base sfx m)" for m
    using candidate_parses [OF assms(1)] .
  let ?g = "new_org_row fresh name lang now n (slug_candidate ?base sfx n)"
  have minted: "create_personal_org lower sfx fresh user suggested name lang now a = (Ok ?g, with_org user ?g a)"
    unfolding create_personal_org_def
    by (rule mint_org_first_free) (use assms(2-5) le n least parses in \<open>simp_all add: is_Ok_iff\<close>)
  have "find (\<lambda>m. mb_user_id m = user \<and> mb_org_id m = fresh n) (ac_members a) = None"
    unfolding find_None_iff using assms(4) [of n] assms(6) by metis
  then have "membership user (og_id ?g) (with_org user ?g a) = Some Owner"
    by (simp add: membership_def with_org_def new_org_row_def role_parse_def str_enum_parse_def ROLES_def)
  with minted parses n show ?thesis by (auto simp: new_org_row_def with_org_def)
qed

section \<open>One account per Google subject\<close>

definition identities_ok :: "accounts \<Rightarrow> bool" where
  "identities_ok a \<longleftrightarrow> distinct (map ui_subject (ac_identities a))"

text \<open>Everything the store can do to the accounts.\<close>

inductive account_step :: "(string \<Rightarrow> string) \<Rightarrow> accounts \<Rightarrow> accounts \<Rightarrow> bool" for lower where
  upsert: "upsert_from_google lower p now fresh a = (res, a') \<Longrightarrow> account_step lower a a'"
| new_org: "create_personal_org lower sfx fresh user suggested name lang now a = (res2, a') \<Longrightarrow> account_step lower a a'"
| set_language: "run_tx (set_org_language org lang now) a = (res3, a') \<Longrightarrow> account_step lower a a'"
| start: "run_tx (insert_oauth_state r) a = (res4, a') \<Longrightarrow> account_step lower a a'"
| consume: "consume_oauth_state state now a = (res5, a') \<Longrightarrow> account_step lower a a'"

lemma update_user_fields:
  "update_user lower uid p now a = (r, a') \<Longrightarrow> ac_identities a' = ac_identities a \<and> ac_orgs a' = ac_orgs a \<and> ac_members a' = ac_members a \<and>
     map us_id (ac_users a') = map us_id (ac_users a)"
  by (auto simp: update_user_def Let_def map_update_where split: option.splits if_splits)

lemma insert_user_fields:
  "insert_user lower u a = (r, a') \<Longrightarrow> ac_identities a' = ac_identities a \<and> ac_orgs a' = ac_orgs a \<and> ac_members a' = ac_members a"
  by (auto simp: insert_user_def split: if_splits)

lemma insert_identity_fields:
  "insert_identity i a = (Ok (), a') \<Longrightarrow> ac_identities a' = ac_identities a @ [i] \<and> ui_subject i \<notin> ui_subject ` set (ac_identities a) \<and>
     ac_orgs a' = ac_orgs a \<and> ac_members a' = ac_members a"
  by (auto simp: insert_identity_def list_ex_iff split: if_splits)

lemma link_user_Ok:
  assumes "link_user lower p now fresh a = (Ok (uid, is_new), a')"
  shows "ac_orgs a' = ac_orgs a \<and> ac_members a' = ac_members a \<and>
    (case find (\<lambda>i. ui_subject i = gp_subject p) (ac_identities a) of
       Some i \<Rightarrow> uid = ui_user_id i \<and> \<not> is_new \<and> ac_identities a' = ac_identities a
     | None \<Rightarrow> (\<exists>i. ui_subject i = gp_subject p \<and> ui_user_id i = uid \<and> ac_identities a' = ac_identities a @ [i] \<and>
          gp_subject p \<notin> ui_subject ` set (ac_identities a)))"
proof (cases "find (\<lambda>i. ui_subject i = gp_subject p) (ac_identities a)")
  case (Some i)
  with assms show ?thesis by (auto simp: link_user_def tx_bind_Ok_iff dest!: update_user_fields)
next
  case None
  with assms show ?thesis by (auto simp: link_user_def tx_bind_Ok_iff dest!: insert_user_fields insert_identity_fields)
qed

lemma upsert_in_tx_Ok:
  "upsert_in_tx lower p now fresh a = (Ok (r, is_new), a') \<Longrightarrow> link_user lower p now fresh a = (Ok (us_id r, is_new), a')"
  by (auto simp: upsert_in_tx_def tx_bind_Ok_iff split: option.split_asm dest: find_SomeD)

lemma upsert_cases:
  assumes "upsert_from_google lower p now fresh a = (res, a')"
  shows "a' = a \<or> (\<exists>r is_new. upsert_in_tx lower p now fresh a = (Ok (r, is_new), a') \<and> (\<forall>u b. res = Ok (u, b) \<longrightarrow> u_id u = us_id r \<and> b = is_new))"
proof (cases "upsert_in_tx lower p now fresh a")
  case (Pair x b)
  with assms show ?thesis
    by (cases x) (auto simp: upsert_from_google_def run_tx_def tx_bind_def user_of_row_def split: prod.splits outcome.splits)
qed

text \<open>Minting either changes nothing or adds one organisation with its owner.\<close>

definition org_added :: "user_id \<Rightarrow> accounts \<Rightarrow> (auth_error, org_row) outcome \<Rightarrow> accounts \<Rightarrow> bool" where
  "org_added user a res a' \<longleftrightarrow>
     (case res of Ok g \<Rightarrow> a' = with_org user g a \<and> og_id g \<notin> og_id ` set (ac_orgs a) | _ \<Rightarrow> a' = a)"

lemma insert_org_added: "run_tx (insert_org_in_tx lower user g) a = (r, a') \<Longrightarrow> org_added user a r a'"
  by (auto simp: run_tx_def insert_org_in_tx_def org_added_def with_org_def list_ex_iff split: if_splits) metis

lemma mint_org_added: "mint_org lower sfx fresh user base name lang now n a = (res, a') \<Longrightarrow> org_added user a res a'"
proof (induction lower sfx fresh user base name lang now n a arbitrary: res a' rule: mint_org.induct)
  case (1 lower sfx fresh user base name lang now n a)
  show ?case
  proof (cases "org_slug_try_from (slug_candidate base sfx n)")
    case (Ok slug)
    obtain r a1 where r: "run_tx (insert_org_in_tx lower user (new_org_row fresh name lang now n slug)) a = (r, a1)" by fastforce
    note tx = insert_org_added [OF r]
    note unfolded = mint_org.simps [of lower sfx fresh user base name lang now n a, unfolded Ok outcome.case r prod.case]
    show ?thesis
    proof (cases "\<exists>code. r = Err (AuthDb code)")
      case True
      then obtain code where code: "r = Err (AuthDb code)" by blast
      with tx have a1: "a1 = a" by (simp add: org_added_def)
      show ?thesis
      proof (cases "code = UNIQUE_VIOLATION \<and> \<not> MAX_SLUG_RETRIES \<le> n")
        case True
        then have "mint_org lower sfx fresh user base name lang now (Suc n) a1 = (res, a')" using unfolded code 1(3) by simp
        with 1(1) [OF Ok r [symmetric] code] True show ?thesis by (simp add: a1)
      next
        case False
        then have "a' = a1 \<and> (\<exists>e. res = Err e)" using unfolded code 1(3) by (auto split: if_splits)
        with a1 show ?thesis by (auto simp: org_added_def)
      qed
    next
      case False
      then have "mint_org lower sfx fresh user base name lang now n a = (r, a1)"
        using unfolded by (auto split: outcome.splits auth_error.splits)
      with 1(3) tx show ?thesis by simp
    qed
  next
    case (Err e)
    note unfolded = mint_org.simps [of lower sfx fresh user base name lang now n a, unfolded Err outcome.case]
    show ?thesis using 1(2) [OF Err] 1(3) unfolded by (auto simp: org_added_def split: if_splits)
  next
    case (Panic m)
    then show ?thesis using 1(3) by (auto simp: mint_org.simps org_added_def)
  qed
qed

definition linked :: "string \<Rightarrow> user_id \<Rightarrow> accounts \<Rightarrow> bool" where
  "linked subject uid a \<longleftrightarrow> (\<exists>i \<in> set (ac_identities a). ui_subject i = subject \<and> ui_user_id i = uid)"

lemma account_step_identities:
  assumes "account_step lower a a'"
  shows "ac_identities a' = ac_identities a \<or>
    (\<exists>i. ac_identities a' = ac_identities a @ [i] \<and> ui_subject i \<notin> ui_subject ` set (ac_identities a))"
  using assms
proof cases
  case (upsert p now fresh res)
  from upsert_cases [OF upsert] show ?thesis
    by (auto dest!: upsert_in_tx_Ok link_user_Ok split: option.splits)
next
  case (new_org sfx fresh user suggested name lang now res2)
  then show ?thesis by (auto simp: create_personal_org_def org_added_def with_org_def dest!: mint_org_added split: outcome.splits)
next
  case (set_language org lang now res3)
  then show ?thesis by (auto simp: run_tx_def set_org_language_def split: if_splits)
next
  case (start r res4)
  then show ?thesis by (auto simp: run_tx_def insert_oauth_state_def split: if_splits)
next
  case (consume state now res5)
  then show ?thesis by (auto simp: consume_oauth_state_def Let_def split: option.splits)
qed

interpretation accounts: preserving "account_step lower" identities_ok
  by unfold_locales (use account_step_identities in \<open>fastforce simp: identities_ok_def\<close>)

lemma linked_step: "account_step lower a a' \<Longrightarrow> linked subject uid a \<Longrightarrow> linked subject uid a'"
  using account_step_identities [of lower a a'] by (auto simp: linked_def)

lemma upsert_links:
  assumes "upsert_from_google lower p now fresh a = (Ok (u, is_new), a')" and "identities_ok a"
  shows "linked (gp_subject p) (u_id u) a' \<and> (\<forall>uid. linked (gp_subject p) uid a \<longrightarrow> u_id u = uid \<and> \<not> is_new)"
proof -
  from assms(1) obtain r where u: "u_id u = us_id r" and tx: "upsert_in_tx lower p now fresh a = (Ok (r, is_new), a')"
    by (auto simp: upsert_from_google_def tx_bind_Ok_iff user_of_row_def)
  note link = link_user_Ok [OF upsert_in_tx_Ok [OF tx]]
  show ?thesis
  proof (cases "find (\<lambda>i. ui_subject i = gp_subject p) (ac_identities a)")
    case None
    with link u show ?thesis by (auto simp: linked_def find_None_iff)
  next
    case (Some i)
    then have i: "i \<in> set (ac_identities a)" "ui_subject i = gp_subject p" by (auto dest: find_SomeD)
    have same: "ui_user_id j = ui_user_id i" if "j \<in> set (ac_identities a)" "ui_subject j = gp_subject p" for j
      using distinct_map_eqD [of ui_subject "ac_identities a" j i] assms(2) that i by (simp add: identities_ok_def)
    from Some link u have "u_id u = ui_user_id i" "\<not> is_new" "ac_identities a' = ac_identities a" by simp_all
    with i same show ?thesis unfolding linked_def by metis
  qed
qed

text \<open>C38. A Google subject keeps its account: once it has signed in, every later sign-in of the subject, with whatever email or name Google then
  reports and whatever others did in between, reaches the same user and creates none.\<close>

theorem one_account_per_subject:
  assumes "identities_ok a" and "upsert_from_google lower p now fresh a = (Ok (u, is_new), a1)" and "(account_step lower)\<^sup>*\<^sup>* a1 a2"
    and "upsert_from_google lower p' now' fresh' a2 = (Ok (u', is_new'), a3)" and "gp_subject p' = gp_subject p"
  shows "u_id u' = u_id u \<and> \<not> is_new'"
proof -
  from assms(1,2) have "identities_ok a1" by (blast intro: accounts.step_inv account_step.upsert)
  moreover from upsert_links [OF assms(2,1)] have "linked (gp_subject p) (u_id u) a1" by blast
  moreover note accounts.run_inv [OF assms(3)] accounts.run_stable [OF assms(3), where P = "linked (gp_subject p) (u_id u)"]
  ultimately have "identities_ok a2" and "linked (gp_subject p) (u_id u) a2" using linked_step by metis+
  with upsert_links [OF assms(4)] assms(5) show ?thesis by simp
qed

section \<open>How old a membership can be\<close>

text \<open>
  Requests step by step, changes of the accounts by anybody, and the passing of time. A request that missed the cache is in flight: first
  it is about to read the table, then it holds the role it read and is about to enter it. The log keeps what the accounts were at which
  moment; \<open>aw_answers\<close> keeps which answers were entered, with the times of the read and of the entry, and \<open>aw_admitted\<close> who was admitted when.
\<close>

datatype flight = Reading jwt_claims | Entering jwt_claims role instant

record auth_world =
  aw_now :: instant
  aw_accounts :: accounts
  aw_cache :: membership_cache
  aw_flights :: "flight list"
  aw_log :: "(instant \<times> accounts) list"
  aw_answers :: "((user_id \<times> org_id) \<times> role \<times> instant \<times> instant) list"
  aw_admitted :: "(principal \<times> instant) list"

inductive auth_step :: "jwt_lib \<Rightarrow> string \<Rightarrow> auth_world \<Rightarrow> auth_world \<Rightarrow> bool" for lib secret where
  hit: "check_session lib secret cookie_value (aw_now w) (aw_cache w) = Ok (Inl who) \<Longrightarrow>
    auth_step lib secret w (w\<lparr>aw_admitted := (who, aw_now w) # aw_admitted w\<rparr>)"
| miss: "check_session lib secret cookie_value (aw_now w) (aw_cache w) = Ok (Inr claims) \<Longrightarrow>
    auth_step lib secret w (w\<lparr>aw_flights := Reading claims # aw_flights w\<rparr>)"
| read: "Reading claims \<in> set (aw_flights w) \<Longrightarrow> read_membership claims (aw_accounts w) = Ok r \<Longrightarrow>
    auth_step lib secret w (w\<lparr>aw_flights := Entering claims r (aw_now w) # remove1 (Reading claims) (aw_flights w)\<rparr>)"
| refuse: "Reading claims \<in> set (aw_flights w) \<Longrightarrow> read_membership claims (aw_accounts w) = Err e \<Longrightarrow>
    auth_step lib secret w (w\<lparr>aw_flights := remove1 (Reading claims) (aw_flights w)\<rparr>)"
| enter: "Entering claims r t \<in> set (aw_flights w) \<Longrightarrow>
    auth_step lib secret w (w\<lparr>aw_cache := remember_role claims r (aw_now w) (aw_cache w),
      aw_flights := remove1 (Entering claims r t) (aw_flights w),
      aw_answers := ((jc_sub claims, jc_org claims), r, t, aw_now w) # aw_answers w,
      aw_admitted := (principal_of claims r, aw_now w) # aw_admitted w\<rparr>)"
| change: "auth_step lib secret w (w\<lparr>aw_accounts := a, aw_log := (aw_now w, a) # aw_log w\<rparr>)"
| tick: "aw_now w \<le> now \<Longrightarrow> auth_step lib secret w (w\<lparr>aw_now := now, aw_log := (now, aw_accounts w) # aw_log w\<rparr>)"

definition was_member :: "auth_world \<Rightarrow> user_id \<Rightarrow> org_id \<Rightarrow> role \<Rightarrow> instant \<Rightarrow> bool" where
  "was_member w user org r t \<longleftrightarrow> t \<le> aw_now w \<and> (\<exists>a. (t, a) \<in> set (aw_log w) \<and> membership user org a = Some r)"

text \<open>A token that bears the claims verified at or before \<open>n\<close>.\<close>

definition verified :: "jwt_lib \<Rightarrow> string \<Rightarrow> user_id \<Rightarrow> org_id \<Rightarrow> instant \<Rightarrow> bool" where
  "verified lib secret user org n \<longleftrightarrow>
     (\<exists>token t claims. t \<le> n \<and> jwt_verify lib secret t token = Ok claims \<and> jc_sub claims = user \<and> jc_org claims = org)"

text \<open>An admission at \<open>n\<close> rests on an answer read at \<open>t\<close> and entered at \<open>i\<close>.\<close>

definition rests_on :: "auth_world \<Rightarrow> principal \<Rightarrow> instant \<Rightarrow> instant \<Rightarrow> instant \<Rightarrow> bool" where
  "rests_on w who n t i \<longleftrightarrow>
     ((pl_user_id who, pl_active_org_id who), pl_role who, t, i) \<in> set (aw_answers w) \<and>
     t \<le> i \<and> i \<le> n \<and> n < i + MEMBERSHIP_TTL_SECS \<and> was_member w (pl_user_id who) (pl_active_org_id who) (pl_role who) t"

definition answers_ok :: "auth_world \<Rightarrow> bool" where
  "answers_ok w \<longleftrightarrow>
     (\<forall>((user, org), r, t, i) \<in> set (aw_answers w). t \<le> i \<and> i \<le> aw_now w \<and> was_member w user org r t) \<and>
     (\<forall>user org r e. map_of (aw_cache w) (user, org) = Some (r, e) \<longrightarrow>
        (\<exists>t. ((user, org), r, t, e - MEMBERSHIP_TTL_SECS) \<in> set (aw_answers w)))"

definition flights_ok :: "jwt_lib \<Rightarrow> string \<Rightarrow> auth_world \<Rightarrow> bool" where
  "flights_ok lib secret w \<longleftrightarrow>
     (\<forall>claims. Reading claims \<in> set (aw_flights w) \<longrightarrow> verified lib secret (jc_sub claims) (jc_org claims) (aw_now w)) \<and>
     (\<forall>claims r t. Entering claims r t \<in> set (aw_flights w) \<longrightarrow>
        verified lib secret (jc_sub claims) (jc_org claims) (aw_now w) \<and> was_member w (jc_sub claims) (jc_org claims) r t)"

definition admitted_ok :: "jwt_lib \<Rightarrow> string \<Rightarrow> auth_world \<Rightarrow> bool" where
  "admitted_ok lib secret w \<longleftrightarrow>
     (\<forall>(who, n) \<in> set (aw_admitted w). verified lib secret (pl_user_id who) (pl_active_org_id who) n \<and> (\<exists>t i. rests_on w who n t i))"

definition auth_ok :: "jwt_lib \<Rightarrow> string \<Rightarrow> auth_world \<Rightarrow> bool" where
  "auth_ok lib secret w \<longleftrightarrow> (aw_now w, aw_accounts w) \<in> set (aw_log w) \<and>
     answers_ok w \<and> flights_ok lib secret w \<and> admitted_ok lib secret w"

lemma was_member_mono:
  "was_member w user org r t \<Longrightarrow> aw_now w \<le> aw_now w' \<Longrightarrow> set (aw_log w) \<subseteq> set (aw_log w') \<Longrightarrow> was_member w' user org r t"
  by (auto simp: was_member_def)

lemma verified_mono: "verified lib secret user org n \<Longrightarrow> n \<le> n' \<Longrightarrow> verified lib secret user org n'"
  unfolding verified_def by (metis order_trans)

lemma verifiedI: "jwt_verify lib secret n token = Ok claims \<Longrightarrow> verified lib secret (jc_sub claims) (jc_org claims) n"
  unfolding verified_def by (metis order_refl)

lemma in_remove1: "x \<in> set (remove1 y xs) \<Longrightarrow> x \<in> set xs"
  by (meson set_remove1_subset subsetD)

text \<open>Time, changes of the accounts and the bookkeeping of other requests leave what holds in place.\<close>

lemma later_world:
  assumes "aw_now w \<le> aw_now w'" and "set (aw_log w) \<subseteq> set (aw_log w')" and "set (aw_answers w) \<subseteq> set (aw_answers w')"
  shows "rests_on w who n t i \<Longrightarrow> rests_on w' who n t i"
    and "aw_cache w' = aw_cache w \<Longrightarrow> aw_answers w' = aw_answers w \<Longrightarrow> answers_ok w \<Longrightarrow> answers_ok w'"
    and "set (aw_flights w') \<subseteq> set (aw_flights w) \<Longrightarrow> flights_ok lib secret w \<Longrightarrow> flights_ok lib secret w'"
    and "aw_admitted w' = aw_admitted w \<Longrightarrow> admitted_ok lib secret w \<Longrightarrow> admitted_ok lib secret w'"
proof -
  note mono = was_member_mono [OF _ assms(1,2)]
  show rests: "rests_on w' who n t i" if "rests_on w who n t i" for who n t i
    using that assms(3) mono unfolding rests_on_def by blast
  show "answers_ok w'" if "aw_cache w' = aw_cache w" "aw_answers w' = aw_answers w" "answers_ok w"
    using that assms(1) mono unfolding answers_ok_def by fastforce
  show "flights_ok lib secret w'" if "set (aw_flights w') \<subseteq> set (aw_flights w)" "flights_ok lib secret w"
    using that mono verified_mono [OF _ assms(1)] unfolding flights_ok_def by blast
  show "admitted_ok lib secret w'" if "aw_admitted w' = aw_admitted w" "admitted_ok lib secret w"
    using that rests unfolding admitted_ok_def by fastforce
qed

lemma cache_role_lookup:
  "map_of (cache_role user org r now c) k = Some (r', e) \<Longrightarrow> (k = (user, org) \<and> r' = r \<and> e = now + MEMBERSHIP_TTL_SECS) \<or> map_of c k = Some (r', e)"
  by (auto simp: cache_role_def Let_def update_conv split: if_splits)

lemma check_session_verified:
  assumes "check_session lib secret cookie_value now c = Ok x"
  shows "case x of
      Inl who \<Rightarrow> verified lib secret (pl_user_id who) (pl_active_org_id who) now \<and>
        cached_role (pl_user_id who) (pl_active_org_id who) now c = Some (pl_role who)
    | Inr claims \<Rightarrow> verified lib secret (jc_sub claims) (jc_org claims) now"
  using assms by (auto simp: check_session_def principal_of_def intro: verifiedI split: option.splits outcome.splits)

lemma cached_rests_on:
  assumes "answers_ok w" and "cached_role (pl_user_id who) (pl_active_org_id who) (aw_now w) (aw_cache w) = Some (pl_role who)"
  shows "\<exists>t i. rests_on w who (aw_now w) t i"
proof -
  from assms(2) obtain e where "map_of (aw_cache w) (pl_user_id who, pl_active_org_id who) = Some (pl_role who, e)" and e: "aw_now w < e"
    by (auto simp: cached_role_def split: option.splits if_splits)
  with assms(1) obtain t where "((pl_user_id who, pl_active_org_id who), pl_role who, t, e - MEMBERSHIP_TTL_SECS) \<in> set (aw_answers w)"
    unfolding answers_ok_def by blast
  moreover from this assms(1) have "t \<le> e - MEMBERSHIP_TTL_SECS \<and> e - MEMBERSHIP_TTL_SECS \<le> aw_now w \<and>
      was_member w (pl_user_id who) (pl_active_org_id who) (pl_role who) t"
    unfolding answers_ok_def by fastforce
  ultimately show ?thesis using e unfolding rests_on_def by (intro exI [of _ t] exI [of _ "e - MEMBERSHIP_TTL_SECS"]) auto
qed

lemma auth_ok_enter:
  assumes ok: "auth_ok lib secret w" and fl: "Entering claims r t \<in> set (aw_flights w)"
    and w': "w' = w\<lparr>aw_cache := remember_role claims r (aw_now w) (aw_cache w), aw_flights := remove1 (Entering claims r t) (aw_flights w),
      aw_answers := ((jc_sub claims, jc_org claims), r, t, aw_now w) # aw_answers w,
      aw_admitted := (principal_of claims r, aw_now w) # aw_admitted w\<rparr>"
  shows "auth_ok lib secret w'"
proof -
  have m: "verified lib secret (jc_sub claims) (jc_org claims) (aw_now w)" "was_member w (jc_sub claims) (jc_org claims) r t" "t \<le> aw_now w"
    using ok fl by (auto simp: auth_ok_def flights_ok_def was_member_def)
  have same: "was_member w' = was_member w" by (simp add: was_member_def fun_eq_iff w')
  have "\<exists>t. ((user, org), r', t, e - MEMBERSHIP_TTL_SECS) \<in> set (aw_answers w')"
    if "map_of (aw_cache w') (user, org) = Some (r', e)" for user org r' e
  proof -
    from that have "((user, org) = (jc_sub claims, jc_org claims) \<and> r' = r \<and> e = aw_now w + MEMBERSHIP_TTL_SECS) \<or>
        map_of (aw_cache w) (user, org) = Some (r', e)"
      by (auto simp: w' remember_role_def dest: cache_role_lookup)
    then show ?thesis
    proof
      assume "map_of (aw_cache w) (user, org) = Some (r', e)"
      with ok obtain t where "((user, org), r', t, e - MEMBERSHIP_TTL_SECS) \<in> set (aw_answers w)"
        unfolding auth_ok_def answers_ok_def by blast
      then show ?thesis by (auto simp: w')
    qed (auto simp: w')
  qed
  moreover have "\<forall>((user, org), r, t, i) \<in> set (aw_answers w'). t \<le> i \<and> i \<le> aw_now w' \<and> was_member w' user org r t"
    using ok m(2,3) unfolding auth_ok_def answers_ok_def same by (auto simp: w')
  ultimately have "answers_ok w'" unfolding answers_ok_def by blast
  moreover have "flights_ok lib secret w'"
    by (rule later_world(3) [of w]) (use ok in \<open>auto simp: w' auth_ok_def dest!: in_remove1\<close>)
  moreover have "admitted_ok lib secret w'"
  proof -
    have "rests_on w' (principal_of claims r) (aw_now w) t (aw_now w)"
      using m same by (simp add: rests_on_def principal_of_def w' MEMBERSHIP_TTL_SECS_def)
    moreover have "rests_on w' who n t i" if "rests_on w who n t i" for who n t i
      by (rule later_world(1) [OF _ _ _ that]) (auto simp: w')
    ultimately show ?thesis using ok m(1) unfolding auth_ok_def admitted_ok_def by (fastforce simp: w' principal_of_def)
  qed
  ultimately show ?thesis using ok by (simp add: auth_ok_def w')
qed

interpretation auth: preserving "auth_step lib secret" "auth_ok lib secret" for lib secret
proof
  fix w w' assume ok: "auth_ok lib secret w" and "auth_step lib secret w w'"
  note parts = ok [unfolded auth_ok_def]
  from \<open>auth_step lib secret w w'\<close> show "auth_ok lib secret w'"
  proof cases
    case (hit cookie_value who)
    note now = check_session_verified [OF hit(2), simplified]
    have "rests_on w' who n t i" if "rests_on w who n t i" for who n t i
      by (rule later_world(1) [OF _ _ _ that]) (auto simp: hit)
    with now parts cached_rests_on [of w who] have "admitted_ok lib secret w'"
      unfolding admitted_ok_def by (fastforce simp: hit)
    moreover have "answers_ok w'" "flights_ok lib secret w'"
      using parts by (auto intro!: later_world(2,3) [of w] simp: hit)
    ultimately show ?thesis using parts by (simp add: auth_ok_def hit)
  next
    case (miss cookie_value claims)
    have "flights_ok lib secret w'"
      using parts check_session_verified [OF miss(2)] by (auto simp: flights_ok_def was_member_def miss)
    then show ?thesis using parts by (auto simp: auth_ok_def miss intro: later_world(2,4))
  next
    case (read claims r)
    then have "was_member w (jc_sub claims) (jc_org claims) r (aw_now w)"
      using parts by (auto simp: was_member_def read_membership_def split: option.splits)
    then have "flights_ok lib secret w'"
      using parts read(2) by (auto simp: flights_ok_def was_member_def read(1) dest!: in_remove1)
    then show ?thesis using parts by (auto simp: auth_ok_def read(1) intro: later_world(2,4))
  next
    case (refuse claims e)
    have "flights_ok lib secret w'"
      by (rule later_world(3) [of w]) (use parts in \<open>auto simp: refuse dest!: in_remove1\<close>)
    then show ?thesis using parts by (auto simp: auth_ok_def refuse intro: later_world(2,4))
  next
    case (enter claims r t)
    then show ?thesis using auth_ok_enter [OF ok] by blast
  next
    case (change a)
    then show ?thesis using parts by (auto simp: auth_ok_def intro: later_world(2-4))
  next
    case (tick now)
    then show ?thesis using parts by (auto simp: auth_ok_def intro: later_world(2-4))
  qed
qed

text \<open>C37. A request is admitted only with a session token that verified, and with a role its user had in the organisation when some request read
  it: however requests, role changes and removals interleave, every admission rests on one answer that was read from the membership table at a
  moment \<open>t\<close> and entered in the cache at a moment \<open>i\<close> less than thirty seconds before the admission. The role is thus older than thirty
  seconds by at most the time the request that read it took from the read to the entry.\<close>

theorem admitted_role_is_recent:
  assumes "auth_ok lib secret w" and "(auth_step lib secret)\<^sup>*\<^sup>* w w1" and "(who, n) \<in> set (aw_admitted w1)"
  shows "verified lib secret (pl_user_id who) (pl_active_org_id who) n \<and> (\<exists>t i. rests_on w1 who n t i)"
proof -
  from auth.run_inv [OF assms(2,1)] have "admitted_ok lib secret w1" by (simp add: auth_ok_def)
  with assms(3) have "verified lib secret (pl_user_id who) (pl_active_org_id who) n" and "\<exists>t i. rests_on w1 who n t i"
    unfolding admitted_ok_def by blast+
  then show ?thesis ..
qed

section \<open>An organisation left without an agent\<close>

lemma collect_length: "collect rs = Ok xs \<Longrightarrow> length xs = length rs"
  by (induction rs arbitrary: xs) auto

lemma member_lists_org:
  assumes "m \<in> set (ac_members a)" and "mb_user_id m = user" and "g \<in> set (ac_orgs a)" and "og_id g = mb_org_id m"
  shows "list_user_orgs user a \<noteq> Ok []"
proof
  let ?join = "[(g, m). m \<leftarrow> ac_members a, mb_user_id m = user, g \<leftarrow> ac_orgs a, og_id g = mb_org_id m]"
  assume "list_user_orgs user a = Ok []"
  from collect_length [OF this [unfolded list_user_orgs_def]] have "length ?join = 0" by (simp only: length_map length_sort list.size)
  moreover have "(g, m) \<in> set ?join" using assms by auto
  ultimately show False by (simp only: length_0_conv list.set empty_iff)
qed

lemma seed_failed: "seed_default lower ops org seed now fresh d = (Err e, d') \<Longrightarrow> d' = d"
  by (auto simp: seed_default_def run_tx_def split: outcome.splits prod.splits)

lemma seed_new_org_failed:
  "seed_new_org env org lang now fresh w = (Err e, w') \<Longrightarrow> sw_accounts w' = sw_accounts w \<and> ad_agents (sw_agents w') = ad_agents (sw_agents w)"
  by (auto simp: seed_new_org_def agents_view_def and_then_Err_iff map_err_Err_iff dest!: seed_failed split: outcome.splits prod.splits)

lemma tx_bind_keeps: "P (snd r) \<Longrightarrow> (\<And>x w. r = (Ok x, w) \<Longrightarrow> P (snd (f x w))) \<Longrightarrow> P (snd (tx_bind r f))"
  by (cases r; cases "fst r") auto

lemma tx_bind_keeps2: "P (snd r) \<Longrightarrow> (\<And>x y w. r = (Ok (x, y), w) \<Longrightarrow> P (snd (f x y w))) \<Longrightarrow> P (snd (tx_bind r (\<lambda>(x, y). f x y)))"
  by (rule tx_bind_keeps) auto

lemma on_accounts_Ok: "on_accounts f w = (Ok x, w') \<longleftrightarrow> (\<exists>a. f (sw_accounts w) = (Ok x, a) \<and> w' = w\<lparr>sw_accounts := a\<rparr>)"
  by (cases "f (sw_accounts w)") (auto simp: on_accounts_def)

lemma consume_fields:
  "consume_oauth_state state now a = (res, a') \<Longrightarrow> ac_identities a' = ac_identities a \<and> ac_orgs a' = ac_orgs a \<and> ac_members a' = ac_members a"
  by (auto simp: consume_oauth_state_def Let_def split: option.splits)

lemma upsert_Ok_fields:
  "upsert_from_google lower p now fresh a = (Ok (u, b), a') \<Longrightarrow> ac_orgs a' = ac_orgs a \<and> ac_members a' = ac_members a"
  using upsert_cases [of lower p now fresh a "Ok (u, b)" a'] by (auto dest!: upsert_in_tx_Ok link_user_Ok)

text \<open>A callback of someone who already belongs to an organisation never touches the agents.\<close>

lemma open_session_keeps:
  assumes "list_user_orgs (u_id u) (sw_accounts w) \<noteq> Ok []"
  shows "sw_agents (snd (open_session env mint now p consumed u w)) = sw_agents w \<and> ac_orgs (sw_accounts (snd (open_session env mint now p consumed u w))) = ac_orgs (sw_accounts w)"
proof (cases "list_user_orgs (u_id u) (sw_accounts w)")
  case (Ok orgs)
  with assms obtain g gs where "orgs = g # gs" by (cases orgs) auto
  with Ok show ?thesis
    by (cases "jwt_mint (se_jwt env) (se_secret env) now (u_id u) (om_org_id g)") (simp_all add: open_session_def)
qed (simp_all add: open_session_def)

lemma callback_keeps_agents:
  assumes "identities_ok (sw_accounts w)" and "linked subject uid (sw_accounts w)" and "list_user_orgs uid (sw_accounts w) \<noteq> Ok []"
    and "\<And>v p. se_exchange env code v = Ok p \<Longrightarrow> gp_subject p = subject"
  shows "sw_agents (snd (callback env mint now code state error w)) = sw_agents w \<and>
    ac_orgs (sw_accounts (snd (callback env mint now code state error w))) = ac_orgs (sw_accounts w)"
proof (cases error)
  case (Some e)
  then show ?thesis by (simp add: callback_def)
next
  case None
  let ?P = "\<lambda>w'. sw_agents w' = sw_agents w \<and> ac_orgs (sw_accounts w') = ac_orgs (sw_accounts w)"
  have consumed: "?P (snd (on_accounts (consume_oauth_state s now) w))" for s
    using consume_fields [of s now "sw_accounts w"] by (cases "consume_oauth_state s now (sw_accounts w)") (simp add: on_accounts_def)
  have upserted: "?P (snd (on_accounts (upsert_from_google (se_lower env) p now (mi_user mint)) w1)) \<and>
      (\<forall>u b w2. on_accounts (upsert_from_google (se_lower env) p now (mi_user mint)) w1 = (Ok (u, b), w2) \<longrightarrow>
         ?P w2 \<and> list_user_orgs (u_id u) (sw_accounts w2) \<noteq> Ok [])"
    if c: "on_accounts (consume_oauth_state s now) w = (Ok consumed, w1)" and x: "se_exchange env code (co_pkce_verifier consumed) = Ok p" for s consumed w1 p
  proof -
    from c obtain a1 where a1: "consume_oauth_state s now (sw_accounts w) = (Ok consumed, a1)" "w1 = w\<lparr>sw_accounts := a1\<rparr>" by (auto simp: on_accounts_Ok)
    note f1 = consume_fields [OF a1(1)]
    obtain res a3 where a3: "upsert_from_google (se_lower env) p now (mi_user mint) a1 = (res, a3)" by fastforce
    have f3: "ac_orgs a3 = ac_orgs a1 \<and> ac_members a3 = ac_members a1"
      using upsert_cases [OF a3] by (auto dest!: upsert_in_tx_Ok link_user_Ok)
    have "u_id u = uid" if "res = Ok (u, b)" for u b
      using upsert_links [OF a3 [unfolded that]] f1 assms(1,2) assms(4) [OF x] by (simp add: identities_ok_def linked_def)
    moreover from f1 f3 have "list_user_orgs uid a3 = list_user_orgs uid (sw_accounts w)" by (simp add: list_user_orgs_def cong del: if_weak_cong)
    ultimately show ?thesis using f1 f3 a1(2) a3 assms(3) by (auto simp: on_accounts_def map_err_Ok_iff)
  qed
  show ?thesis unfolding callback_def None option.case
  proof (rule tx_bind_keeps [where P = ?P], goal_cases)
    case (2 s w0)
    then have [simp]: "w0 = w" by simp
    show ?case
    proof (rule tx_bind_keeps [where P = ?P], goal_cases)
      case (2 consumed w1)
      show ?case
      proof (rule tx_bind_keeps [where P = ?P], goal_cases)
        case 1 show ?case using consumed [of s] 2 by simp
      next
        case (2 p w1')
        with \<open>on_accounts (consume_oauth_state s now) w0 = (Ok consumed, w1)\<close> upserted [of s consumed w1 p]
        have up: "w1' = w1" "?P (snd (on_accounts (upsert_from_google (se_lower env) p now (mi_user mint)) w1))"
          "\<And>u b w2. on_accounts (upsert_from_google (se_lower env) p now (mi_user mint)) w1 = (Ok (u, b), w2) \<Longrightarrow>
             ?P w2 \<and> list_user_orgs (u_id u) (sw_accounts w2) \<noteq> Ok []"
          by auto
        show ?case by (rule tx_bind_keeps2 [where P = ?P]) (use up in \<open>auto simp: open_session_keeps\<close>)
      qed
    qed (use consumed in simp)
  qed simp
qed

text \<open>C40. A first sign-in creates the organisation and then seeds its agent, in two transactions: when seeding fails, the organisation stays, and
  every later sign-in of the same person finds it and seeds nothing, so it never gets a default agent.\<close>

theorem failed_seed_is_never_retried:
  assumes "personal_org env mint now p consumed u w = (Err e, w1)" and "ac_orgs (sw_accounts w1) \<noteq> ac_orgs (sw_accounts w)"
    and "\<And>t. t \<in> set (ad_agents (sw_agents w)) \<Longrightarrow> at_org t \<in> og_id ` set (ac_orgs (sw_accounts w))"
    and "identities_ok (sw_accounts w1)" and "linked subject (u_id u) (sw_accounts w1)"
    and "\<And>v p'. se_exchange env' code v = Ok p' \<Longrightarrow> gp_subject p' = subject"
  shows "\<exists>g. g \<in> set (ac_orgs (sw_accounts w1)) \<and> g \<notin> set (ac_orgs (sw_accounts w)) \<and>
     default_id_for (og_id g) (sw_agents (snd (callback env' mint' now' code state error w1))) = Err NoDefault"
proof -
  let ?lang = "from_locale_hint (gp_locale p) (co_detected_locale consumed)"
  let ?create = "create_personal_org (se_lower env) (mi_suffix mint) (mi_org mint) (u_id u) (hd (split_on (\<lambda>c. c = CHR ''@'') (u_email u)))
    (case u_display_name u of Some n \<Rightarrow> n | None \<Rightarrow> u_email u) ?lang now"
  obtain res a1 where created: "?create (sw_accounts w) = (res, a1)" by fastforce
  from mint_org_added [OF created [unfolded create_personal_org_def]] have added: "org_added (u_id u) (sw_accounts w) res a1" .
  have on: "on_accounts ?create w = (map_err HAuth res, w\<lparr>sw_accounts := a1\<rparr>)" by (simp add: on_accounts_def created)
  obtain g where g: "res = Ok g" and seed: "seed_new_org env (og_id g) ?lang now (mi_agent mint) (w\<lparr>sw_accounts := a1\<rparr>) = (Err e, w1)"
  proof (cases res)
    case (Ok g)
    from assms(1) have "tx_bind (seed_new_org env (og_id g) ?lang now (mi_agent mint) (w\<lparr>sw_accounts := a1\<rparr>)) (\<lambda>_ w2. (Ok (og_id g), w2)) = (Err e, w1)"
      using on Ok by (simp add: personal_org_def Let_def)
    then show thesis using Ok that
      by (cases "seed_new_org env (og_id g) ?lang now (mi_agent mint) (w\<lparr>sw_accounts := a1\<rparr>)"; cases "fst (seed_new_org env (og_id g) ?lang now (mi_agent mint) (w\<lparr>sw_accounts := a1\<rparr>))") auto
  qed (use assms(1,2) on added in \<open>auto simp: personal_org_def Let_def org_added_def\<close>)
  from added g have a1: "a1 = with_org (u_id u) g (sw_accounts w)" and new: "og_id g \<notin> og_id ` set (ac_orgs (sw_accounts w))"
    by (simp_all add: org_added_def)
  from seed_new_org_failed [OF seed] have w1: "sw_accounts w1 = a1" "ad_agents (sw_agents w1) = ad_agents (sw_agents w)" by simp_all
  have "list_user_orgs (u_id u) (sw_accounts w1) \<noteq> Ok []"
    by (rule member_lists_org [of "\<lparr>mb_org_id = og_id g, mb_user_id = u_id u, mb_role = ''owner'', mb_created_at = og_created_at g\<rparr>" _ _ g])
       (simp_all add: w1 a1 with_org_def)
  from callback_keeps_agents [OF assms(4,5) this assms(6)] w1
  have "ad_agents (sw_agents (snd (callback env' mint' now' code state error w1))) = ad_agents (sw_agents w)" by simp
  moreover have "find (\<lambda>t. at_default t \<and> at_org t = og_id g) (ad_agents (sw_agents w)) = None"
    unfolding find_None_iff using assms(3) new by metis
  ultimately have "default_id_for (og_id g) (sw_agents (snd (callback env' mint' now' code state error w1))) = Err NoDefault"
    by (simp add: default_id_for_def)
  moreover have "g \<in> set (ac_orgs (sw_accounts w1))" "g \<notin> set (ac_orgs (sw_accounts w))"
    using new by (auto simp: w1 a1 with_org_def)
  ultimately show ?thesis by blast
qed

text \<open>The check on the return path lets a path through that browsers read as another host.\<close>

lemma return_to_lets_backslash_pass: "sanitize_return_to (''/'' @ [CHR 0x5C] @ ''evil.test'') = Some (''/'' @ [CHR 0x5C] @ ''evil.test'')"
  by (simp add: sanitize_return_to_def)

end
