(* ===== verification/Auth_Examples.thy ===== *)
theory Auth_Examples
  imports Auth_Guarantees Agent_Examples
begin

text \<open>
  The theorems on sign-in at concrete inputs: Ana, who signs in with Google for the first time, a token format that prints its claims as
  nothing at all (one fixed token), and an embedding provider that is down while her organisation is created.
\<close>

definition ana :: google_profile where
  "ana = \<lparr>gp_subject = ''1001'', gp_email = ''ana@x.test'', gp_display_name = Some ''Ana'', gp_avatar_url = None, gp_locale = Some ''vi''\<rparr>"

definition no_accounts :: accounts where
  "no_accounts = \<lparr>ac_users = [], ac_identities = [], ac_orgs = [], ac_members = [], ac_login_states = []\<rparr>"

definition ana_row :: user_row where
  "ana_row = \<lparr>us_id = 5, us_email = ''ana@x.test'', us_display_name = Some ''Ana'', us_avatar_url = None, us_created_at = 10, us_updated_at = 10\<rparr>"

definition ana_accounts :: accounts where
  "ana_accounts = no_accounts\<lparr>ac_users := [ana_row],
     ac_identities := [\<lparr>ui_user_id = 5, ui_subject = ''1001'', ui_email_at_link = ''ana@x.test'', ui_created_at = 10\<rparr>]\<rparr>"

definition ana_user :: user where
  "ana_user = \<lparr>u_id = 5, u_email = ''ana@x.test'', u_display_name = Some ''Ana'', u_avatar_url = None\<rparr>"

lemma ana_email: "email_try_from ''ana@x.test'' = Ok ''ana@x.test''"
  by code_simp

lemma ana_signs_up: "upsert_from_google id ana 10 5 no_accounts = (Ok (ana_user, True), ana_accounts)"
  by (simp add: upsert_from_google_def upsert_in_tx_def link_user_def ana_def no_accounts_def insert_user_def user_check_def email_taken_def
      insert_identity_def run_tx_def user_of_row_def ana_email ana_user_def ana_accounts_def ana_row_def)

theorem one_account_per_subject_witness:
  "identities_ok no_accounts \<and> upsert_from_google id ana 10 5 no_accounts = (Ok (ana_user, True), ana_accounts) \<and>
   fst (upsert_from_google id (ana\<lparr>gp_email := ''an@x.test''\<rparr>) 20 6 ana_accounts) = Ok (ana_user\<lparr>u_email := ''an@x.test''\<rparr>, False)"
proof -
  have ok: "identities_ok no_accounts" by (simp add: identities_ok_def no_accounts_def)
  have e: "email_try_from ''an@x.test'' = Ok ''an@x.test''" by code_simp
  obtain a3 where again: "upsert_from_google id (ana\<lparr>gp_email := ''an@x.test''\<rparr>) 20 6 ana_accounts = (Ok (ana_user\<lparr>u_email := ''an@x.test''\<rparr>, False), a3)"
    by (simp add: upsert_from_google_def upsert_in_tx_def link_user_def ana_def no_accounts_def update_user_def user_check_def email_taken_def
        run_tx_def user_of_row_def e ana_user_def ana_accounts_def ana_row_def)
  with one_account_per_subject [OF ok ana_signs_up _ again] ok ana_signs_up show ?thesis by simp
qed

lemma abcd_suffix: "slug_suffix ''abcd''"
  by (simp add: slug_suffix_def is_slug_byte_def is_lower_byte_def less_eq_char_def)

lemma ana_org:
  "\<exists>g. create_personal_org id (\<lambda>_. ''abcd'') (\<lambda>n. 40 + n) 5 slug ''Ana'' lang 10 ana_accounts = (Ok g, with_org 5 g ana_accounts)"
  unfolding create_personal_org_def
  by (rule exI, rule mint_org_first_free [where n = 0])
     (simp_all add: candidate_parses abcd_suffix ana_accounts_def no_accounts_def ana_row_def slug_free_def)

theorem new_org_has_owner_witness:
  "\<exists>g a'. create_personal_org id (\<lambda>_. ''abcd'') (\<lambda>n. 40 + n) 5 ''ana'' ''Ana'' Vi 10 ana_accounts = (Ok g, a') \<and> membership 5 (og_id g) a' = Some Owner"
  using new_org_has_owner [where sfx = "\<lambda>_. ''abcd''" and name = "''Ana''" and fresh = "\<lambda>n. 40 + n" and a = ana_accounts and user = 5 and k = 0
      and lower = id and suggested = "''ana''" and lang = Vi and now = 10] abcd_suffix
  by (auto simp: ana_accounts_def no_accounts_def ana_row_def slug_free_def)

section \<open>A session and a removal\<close>

definition toy_jwt :: jwt_lib where
  "toy_jwt = \<lparr>jl_encode = (\<lambda>_ _. Inr ''t''), jl_decode = (\<lambda>_ _. Inr \<lparr>jc_sub = 5, jc_org = 40, jc_iat = 0, jc_exp = 1000\<rparr>)\<rparr>"

definition ana_member :: accounts where
  "ana_member = no_accounts\<lparr>ac_members := [\<lparr>mb_org_id = 40, mb_user_id = 5, mb_role = ''owner'', mb_created_at = 0\<rparr>]\<rparr>"

definition ana_claims :: jwt_claims where
  "ana_claims = \<lparr>jc_sub = 5, jc_org = 40, jc_iat = 0, jc_exp = 1000\<rparr>"

definition signed_in :: auth_world where
  "signed_in = \<lparr>aw_now = 100, aw_accounts = ana_member, aw_cache = [], aw_flights = [], aw_log = [(100, ana_member)], aw_answers = [],
     aw_admitted = []\<rparr>"

text \<open>Her request reads the role at 100 and is slow: it enters the role at 140, while she was removed at 100. At 160 the cache still admits her.\<close>

definition lingering :: auth_world where
  "lingering = \<lparr>aw_now = 160, aw_accounts = no_accounts, aw_cache = [((5, 40), (Owner, 170))], aw_flights = [],
     aw_log = [(160, no_accounts), (140, no_accounts), (100, no_accounts), (100, ana_member)], aw_answers = [((5, 40), Owner, 100, 140)],
     aw_admitted = [(principal_of ana_claims Owner, 160), (principal_of ana_claims Owner, 140)]\<rparr>"

lemma ana_is_owner: "membership 5 40 ana_member = Some Owner" "membership 5 40 no_accounts = None"
  by (simp_all add: membership_def ana_member_def no_accounts_def role_parse_def str_enum_parse_def ROLES_def)

lemma ana_checked:
  "n \<le> 1000 \<Longrightarrow> check_session toy_jwt ''k'' (Some ''t'') n [] = Ok (Inr ana_claims)"
  "n < 170 \<Longrightarrow> check_session toy_jwt ''k'' (Some ''t'') n [((5, 40), (Owner, 170))] = Ok (Inl (principal_of ana_claims Owner))"
  by (simp_all add: check_session_def jwt_verify_def toy_jwt_def EXP_LEEWAY_SECS_def cached_role_def ana_claims_def)

lemma lingering_reachable: "(auth_step toy_jwt ''k'')\<^sup>*\<^sup>* signed_in lingering"
proof -
  let ?step = "auth_step toy_jwt ''k''"
  let ?w1 = "signed_in\<lparr>aw_flights := [Reading ana_claims]\<rparr>"
  let ?w2 = "signed_in\<lparr>aw_flights := [Entering ana_claims Owner 100]\<rparr>"
  let ?w3 = "?w2\<lparr>aw_accounts := no_accounts, aw_log := [(100, no_accounts), (100, ana_member)]\<rparr>"
  let ?w4 = "?w3\<lparr>aw_now := 140, aw_log := [(140, no_accounts), (100, no_accounts), (100, ana_member)]\<rparr>"
  let ?w5 = "?w4\<lparr>aw_cache := [((5, 40), (Owner, 170))], aw_flights := [], aw_answers := [((5, 40), Owner, 100, 140)],
     aw_admitted := [(principal_of ana_claims Owner, 140)]\<rparr>"
  let ?w6 = "?w5\<lparr>aw_now := 160, aw_log := [(160, no_accounts), (140, no_accounts), (100, no_accounts), (100, ana_member)]\<rparr>"
  have "?step signed_in ?w1"
    using auth_step.miss [of toy_jwt "''k''" "Some ''t''" signed_in ana_claims] ana_checked(1) [of 100] by (simp add: signed_in_def)
  moreover have "?step ?w1 ?w2"
    using auth_step.read [of ana_claims ?w1 Owner toy_jwt "''k''"] ana_is_owner(1) by (simp add: signed_in_def read_membership_def ana_claims_def)
  moreover have "?step ?w2 ?w3" using auth_step.change [of toy_jwt "''k''" ?w2 no_accounts] by (simp add: signed_in_def)
  moreover have "?step ?w3 ?w4" using auth_step.tick [of ?w3 140 toy_jwt "''k''"] by (simp add: signed_in_def)
  moreover have "?step ?w4 ?w5"
    using auth_step.enter [of ana_claims Owner 100 ?w4 toy_jwt "''k''"]
    by (simp add: signed_in_def ana_claims_def remember_role_def cache_role_def MEMBERSHIP_TTL_SECS_def MEMBERSHIP_CAP_def)
  moreover have "?step ?w5 ?w6" using auth_step.tick [of ?w5 160 toy_jwt "''k''"] by (simp add: signed_in_def)
  moreover have "?step ?w6 lingering"
    using auth_step.hit [of toy_jwt "''k''" "Some ''t''" ?w6 "principal_of ana_claims Owner"] ana_checked(2) [of 160]
    by (simp add: signed_in_def lingering_def)
  ultimately show ?thesis by (meson converse_rtranclp_into_rtranclp r_into_rtranclp)
qed

theorem admitted_role_is_recent_witness:
  "verified toy_jwt ''k'' 5 40 160 \<and> (\<exists>t i. rests_on lingering (principal_of ana_claims Owner) 160 t i)"
proof -
  have "auth_ok toy_jwt ''k'' signed_in" by (simp add: auth_ok_def answers_ok_def flights_ok_def admitted_ok_def signed_in_def)
  from admitted_role_is_recent [OF this lingering_reachable, of "principal_of ana_claims Owner" 160]
  show ?thesis by (simp add: lingering_def principal_of_def ana_claims_def)
qed

text \<open>The lifetime runs from the entry, not from the read: a removed owner is admitted as owner sixty seconds after the removal, although the
  module's comment promises that an old role is seen for up to one lifetime, thirty seconds.\<close>

lemma slow_request_outlives_lifetime:
  "(auth_step toy_jwt ''k'')\<^sup>*\<^sup>* signed_in lingering \<and> (principal_of ana_claims Owner, 160) \<in> set (aw_admitted lingering) \<and>
   (\<forall>(t, a) \<in> set (aw_log lingering). 160 - MEMBERSHIP_TTL_SECS \<le> t \<longrightarrow> membership 5 40 a = None)"
  using lingering_reachable ana_is_owner(2) by (simp add: lingering_def MEMBERSHIP_TTL_SECS_def)

section \<open>A first sign-in while embeddings are down\<close>

definition down_ops :: "nat vec_ops" where
  "down_ops = plain_ops\<lparr>vo_embed := (\<lambda>_. Err ''down'')\<rparr>"

definition ana_env :: "nat vec_ops \<Rightarrow> nat sign_env" where
  "ana_env ops = \<lparr>se_lower = id, se_ops = ops, se_jwt = toy_jwt, se_secret = ''k'', se_secure = True, se_exchange = (\<lambda>_ _. Ok ana),
     se_prompts = (\<lambda>_. (''You recruit.'', ''Recruits agents.''))\<rparr>"

definition ana_minted :: minted where
  "ana_minted = \<lparr>mi_user = 6, mi_org = (\<lambda>n. 40 + n), mi_suffix = (\<lambda>_. ''abcd''), mi_agent = 9, mi_csrf = ''c''\<rparr>"

definition ana_consumed :: consumed_oauth_state where
  "ana_consumed = \<lparr>co_pkce_verifier = [], co_redirect_to = None, co_detected_locale = None\<rparr>"

definition ana_world :: "nat sign_world" where
  "ana_world = \<lparr>sw_accounts = ana_accounts, sw_agents = \<lparr>ad_agents = [], ad_organizations = [], ad_members = [], ad_referenced = []\<rparr>\<rparr>"

lemma ana_texts: "agent_name_try_from DEFAULT_AGENT_NAME = Ok ''recruiter''" "agent_system_prompt_try_from ''You recruit.'' = Ok ''You recruit.''"
  "agent_description_try_from ''Recruits agents.'' = Ok ''Recruits agents.''"
  by code_simp+

lemma ana_seed_down: "seed_new_org (ana_env down_ops) org lang now fresh w = (Err (HAgent (AgentBackend ''description embed: down'')), w\<lparr>sw_agents := agents_view w\<rparr>)"
  by (simp add: seed_new_org_def ana_env_def default_agent_seed_for_def ana_texts seed_default_def embed_description_def down_ops_def)

theorem failed_seed_is_never_retried_witness:
  "\<exists>w1 g. personal_org (ana_env down_ops) ana_minted 10 ana ana_consumed ana_user ana_world = (Err (HAgent (AgentBackend ''description embed: down'')), w1) \<and>
     g \<in> set (ac_orgs (sw_accounts w1)) \<and>
     default_id_for (og_id g) (sw_agents (snd (callback (ana_env plain_ops) ana_minted 20 ''code'' (replicate 32 (CHR ''s'')) None w1))) = Err NoDefault"
proof -
  let ?lang = "from_locale_hint (gp_locale ana) (co_detected_locale ana_consumed)"
  let ?slug = "hd (split_on (\<lambda>c. c = CHR ''@'') (u_email ana_user))"
  from ana_org [of ?slug ?lang] obtain g a' where c: "create_personal_org id (\<lambda>_. ''abcd'') (\<lambda>n. 40 + n) 5 ?slug ''Ana'' ?lang 10 ana_accounts = (Ok g, a')"
    and o: "ac_orgs a' = ac_orgs ana_accounts @ [g]" by (auto simp: with_org_def)
  let ?w = "ana_world\<lparr>sw_accounts := a'\<rparr>"
  let ?w1 = "?w\<lparr>sw_agents := agents_view ?w\<rparr>"
  have "on_accounts (create_personal_org id (\<lambda>_. ''abcd'') (\<lambda>n. 40 + n) 5 ?slug ''Ana'' ?lang 10) ana_world = (Ok g, ?w)"
    using c by (simp add: on_accounts_def ana_world_def)
  then have failed: "personal_org (ana_env down_ops) ana_minted 10 ana ana_consumed ana_user ana_world = (Err (HAgent (AgentBackend ''description embed: down'')), ?w1)"
    using ana_seed_down [of "og_id g" ?lang 10 9 ?w] by (simp add: personal_org_def ana_env_def ana_minted_def ana_user_def Let_def)
  from mint_org_added [OF c [unfolded create_personal_org_def]] have ids: "ac_identities a' = ac_identities ana_accounts" "ac_users a' = ac_users ana_accounts"
    by (simp_all add: org_added_def with_org_def)
  have "identities_ok (sw_accounts ?w1)" "linked ''1001'' (u_id ana_user) (sw_accounts ?w1)"
    by (simp_all add: identities_ok_def linked_def ids ana_accounts_def ana_user_def)
  moreover have "se_exchange (ana_env plain_ops) ''code'' v = Ok p \<Longrightarrow> gp_subject p = ''1001''" for v p by (simp add: ana_env_def ana_def) (auto simp: ana_def)
  moreover have "ac_orgs (sw_accounts ?w1) \<noteq> ac_orgs (sw_accounts ana_world)" by (simp add: o ana_world_def)
  moreover have "ad_agents (sw_agents ana_world) = []" by (simp add: ana_world_def)
  ultimately show ?thesis
    using failed_seed_is_never_retried [OF failed, of "''1001''" "ana_env plain_ops" "''code''" ana_minted 20 "replicate 32 (CHR ''s'')" None] failed by fastforce
qed

end
