(* ===== verification/Spec2Isabelle.thy ===== *)
theory Spec2Isabelle
  imports Relay_Strings Queue_Examples Scheduler Schedule_Next Ttl_Cache Rate_Limiter Session_Store
    Agent_Turn Response_Hub Worker_Examples Send_Examples Memory_Examples Memory_Compose
    Librarian_Examples Reflection_Examples Memory_Tool_Examples Tool_Examples Web_Fetch Agent_Examples
    Oauth_Examples Auth_Examples
begin

text \<open>
  Relay is a server on which organisations run language-model agents. A person or another agent
  puts a prompt in a queue; workers claim a session with its pending prompts under a lease, run an
  agent turn (model calls, tool calls, memory), stream the answer to subscribers and settle the
  claim. Tools let an agent write to its peers, keep memories, schedule prompts, fetch pages and
  call remote (MCP) servers; background loops reflect on finished conversations, tidy memories, fire
  scheduled tasks and renew OAuth tokens. All durable state is in Postgres and every row carries the
  organisation it belongs to. The development follows the Rust code under \<open>src/\<close>,
  one theory per part; definitions keep the names of the code where they can.

  \<^bold>\<open>Foundations.\<close>
  \<^item> \<open>Relay_Prelude\<close>: results with panics as a third outcome, SQL statements on tables
    kept as lists (\<open>update_where\<close>, \<open>delete_where\<close>, \<open>first_min\<close>
    for \<open>ORDER BY .. LIMIT 1\<close>), list lemmas.
  \<^item> \<open>Relay_Systems\<close>: two interfaces as locales. \<open>preserving\<close> is a step
    relation with an invariant, \<open>fenced\<close> adds tokens whose numbers only grow; the clients'
    facts (reachable states, stale tokens) are proved once there and the queue, the hub, the cache,
    the memory store, the agents store, the accounts and the pending authorizations interpret them.
  \<^item> \<open>Relay_Strings\<close>, \<open>Relay_Types\<close>: UTF-8 byte strings and truncation
    (\<open>tools/limits.rs\<close>), FNV hashing, the boundary types of \<open>types/\<close> and
    \<open>runtime/types.rs\<close> with the locales \<open>smart_string\<close> (checked constructors) and
    \<open>str_enum\<close> (wire labels).
  \<^item> \<open>Relay_Db\<close>: the shared tables and the transaction runners of \<open>auth/mod.rs\<close>
    with the row-level tenancy scope: a transaction that fails leaves the tables as they were.

  \<^bold>\<open>Queue and sessions.\<close>
  \<^item> \<open>Prompt_Queue\<close> (\<open>runtime/pg_queue.rs\<close>, \<open>queue.rs\<close>): enqueue,
    claim, drain, heartbeat, release, finalise, cancel, orphan sweep. A claim is three pieces: the
    sweep, the scan for a candidate, and \<open>claim_tx\<close>, the statements that take it; the scan may be
    out of date when its candidate is taken. \<open>claim_next_session\<close> is the three in a row.
    \<open>Queue_Lemmas\<close> gives each operation as rewriting rules, \<open>Queue_Invariants\<close> the
    step relation over any number of workers and producers with its invariant,
    \<open>Queue_Guarantees\<close> the promises: fencing, exclusive claims however they race, oldest session
    first, recovery after a crash, idempotent enqueue, terminal states; and what does not hold: a row
    left Processing at release is stranded, racing claims can run two memory jobs of one agent.
    \<open>Queue_Examples\<close> runs it.
  \<^item> \<open>Dag_Budget\<close> (\<open>runtime/dag.rs\<close>): the turn budget of a request tree, at 32 bits.
  \<^item> \<open>Session_Store\<close> (\<open>session/pg_store.rs\<close>): messages, their numbering and
    what each viewer sees. \<open>Response_Hub\<close> (\<open>runtime/pg_response.rs\<close>): the durable
    log of chunks and the broadcast channels beside it, with every interleaving of commit, fan-out,
    attach, backlog read and poll as steps; a subscriber gets no chunk twice, and all of them as long as
    it keeps up, its slot lives and no publish is refused.
  \<^item> \<open>Schedule_Types\<close>, \<open>Schedule_Next\<close>, \<open>Scheduler\<close>
    (\<open>scheduling/\<close>): schedules, their next instant (locale \<open>civil_time\<close>, with the
    zone rules as parameter), the store and the firing loop.

  \<^bold>\<open>Agent turns.\<close>
  \<^item> \<open>Agent_Turn\<close> (\<open>agent_core/core.rs\<close>, \<open>turn.rs\<close>): the turn loop,
    the partition of tool calls into batches, hooks and recorder as parameters.
  \<^item> \<open>Worker\<close> (\<open>runtime/worker.rs\<close>): the handling of a claim with the ping-pong
    guard, failure reporting and settlement. \<open>Send_Message\<close>
    (\<open>tools/system/send_message.rs\<close>): delivery to agents and people, one turn of budget each.
  \<^item> \<open>Tool_Registry\<close>, \<open>Mcp_Registry\<close> (\<open>tools/registry.rs\<close>,
    \<open>toolbox.rs\<close>, \<open>mcp/registry.rs\<close>, \<open>scoped.rs\<close>, \<open>tool.rs\<close>):
    the locale \<open>tool_catalogue\<close> says that what is offered is what runs;
    \<open>two_catalogues\<close> joins built-in and remote tools.
  \<^item> \<open>Web_Fetch\<close> (\<open>tools/url.rs\<close>, \<open>web_fetch.rs\<close>): the address guard
    against a reference list of address blocks, its gap at mapped addresses, redirects, decoding.
  \<^item> \<open>Ttl_Cache\<close> (\<open>cache.rs\<close>), \<open>Rate_Limiter\<close>
    (\<open>mcp/rate_limit.rs\<close>).

  \<^bold>\<open>Memory.\<close>
  \<^item> \<open>Memory_Types\<close>, \<open>Memory_Store\<close>, \<open>Memory_Journal\<close>,
    \<open>Memory_Guarantees\<close> (\<open>memory/types.rs\<close>, \<open>store.rs\<close>,
    \<open>pg_store.rs\<close>): mutations with their journal, decay, eviction, validation, rebuild. The
    abstract store is the fold of the journal, and the tables refine it on histories whose clock
    advances and that restore only forgotten memories.
  \<^item> \<open>Memory_Compose\<close> (\<open>composer.rs\<close>, \<open>loader.rs\<close>,
    \<open>agent.rs\<close>): the memory section of the prompt within its byte budget;
    \<open>Memory_Tools\<close> (\<open>tools/system/memory/\<close>), \<open>Memory_Librarian\<close>,
    \<open>Memory_Reflection\<close> (\<open>librarian.rs\<close>, \<open>reflection_scheduler.rs\<close>).

  \<^bold>\<open>Organisations, people and remote servers.\<close>
  \<^item> \<open>Agent_Store\<close> (\<open>agents/\<close>, \<open>create_agent.rs\<close>,
    \<open>search_agents.rs\<close>): the agents of an organisation, their default, addressing, hiring.
  \<^item> \<open>Identity\<close>, \<open>Http_Auth\<close>, \<open>Auth_Guarantees\<close> (\<open>auth/\<close>,
    \<open>http/csrf.rs\<close>, \<open>auth_layer.rs\<close>, \<open>membership_cache.rs\<close>,
    \<open>routes/auth.rs\<close>, \<open>routes/me.rs\<close>): sign-in, accounts, tokens, the two request
    layers. The membership query of a request and its entry in the cache are separate steps.
  \<^item> \<open>Credentials\<close>, \<open>Oauth_Store\<close>, \<open>Oauth_Discovery\<close>
    (\<open>crypto/mod.rs\<close>, \<open>mcp/credentials.rs\<close>, \<open>pg_credentials.rs\<close>,
    \<open>mcp/oauth/\<close>): envelope encryption, clients, pending authorizations, token renewal and
    discovery of the authorization server.
  The theories named \<open>.._Examples\<close> evaluate concrete runs and apply the theorems to them.

  \<^bold>\<open>Conventions and bounds.\<close>
  \<^item> A transaction is one step: Postgres serialises what the code does under its row locks.
    What the code does in several transactions is several steps, and the interleavings are modelled
    where the code relies on them (hub, cache, queue, accounts); inside an agent run the worker
    theorems allow other transactions to change the lease.
  \<^item> Tables are lists in storage order; where SQL leaves the order of ties open the storage order
    decides. Hash maps are association lists or maps. Similarities are rationals,
    without NaN. Identifiers are numbers; fresh ones are arguments.
  \<^item> Instants are whole numbers of seconds, and the clock is an argument. Machine integers are
    words where the code works on their bits (weekday masks, addresses, hashes, token bytes), numbers
    with their bound as a branch where it can be reached (turn, chunk and message numbers, budgets,
    access counts), unbounded elsewhere. The cache epoch, a wrapping 64-bit counter of
    invalidations in the code, does not wrap here.
  \<^item> A statement fails where it violates a constraint of the schema; a lost connection or another
    fault of the database in mid-operation is not modelled, so \<open>finalise\<close> fails as stale or not at all.
  \<^item> A header value is what \<open>to_str\<close> accepts. HTTP redirects of the discovery client are inside the
    parameter for one GET; those of the fetch tool are modelled.
  \<^item> Loops are structural or have a measure; the turn loop is bounded by \<open>max_turns\<close>,
    the ping-pong loop by its retry constant, redirects by the fetch limit. No result depends on a
    chosen amount of fuel.
  \<^item> Code outside the repository is a parameter: time-zone rules, the language model and the
    embedding model, the URL parser, HTTP replies, remote tools, the cipher, key derivation, JSON and
    token codecs, lower-casing beyond ASCII. What a theorem needs of them is a named hypothesis
    (\<open>aead_law\<close>, \<open>json_law\<close>, \<open>civil_time\<close>), satisfied by a concrete
    function in the witness.

  \<^bold>\<open>Not modelled.\<close>
  The HTTP routes over the modelled stores other than sign-in and identity, the thread stream of the
  browser (\<open>runtime/pg_thread_stream.rs\<close>), the MCP client and the table of its servers, the wrappers that
  fix the types of the cache, hooks, providers and the remaining tools, which are JSON and network code
  around modelled operations or parameters of them; start-up, configuration, telemetry, prompt texts, the
  web interface. Background loops are modelled as their tick.
\<close>

end
